(* ===== verification/Prelude.thy ===== *)
theory Prelude
  imports Main "HOL-Library.Char_ord" "HOL-Library.List_Lexorder" "HOL-Library.Product_Lexorder"
    "HOL-Library.Sublist"
begin

text \<open>
  Shared groundwork of the development. A database table is a list of rows in heap order, and
  the statements the ledger issues are a small set of table combinators: \<open>upd_where\<close> for
  \<^verbatim>\<open>UPDATE t SET .. WHERE ..\<close>, \<open>count_where\<close> for
  \<^verbatim>\<open>SELECT count(*) .. WHERE ..\<close>, \<open>get_row\<close> for a primary-key lookup and
  \<open>first_by\<close> for \<^verbatim>\<open>ORDER BY .. LIMIT 1\<close>. The lemmas on them carry the proofs of the
  component theories. Text that the program treats as Python code points is a list of
  naturals, since a HOL character is one byte.
\<close>

section \<open>Names of the model's types\<close>

type_synonym uuid = nat
type_synonym time = int
type_synonym pytext = "nat list"

named_theorems ledger_defs "definitions of the ledger verbs, for unfolding"
named_theorems ledger_simps "equations and frame facts about the ledger verbs"
named_theorems preserves "one preservation lemma per verb"

section \<open>Table combinators\<close>

definition upd_where :: "('r \<Rightarrow> bool) \<Rightarrow> ('r \<Rightarrow> 'r) \<Rightarrow> 'r list \<Rightarrow> 'r list" where
  "upd_where P f T = map (\<lambda>r. if P r then f r else r) T"

definition count_where :: "('r \<Rightarrow> bool) \<Rightarrow> 'r list \<Rightarrow> nat" where
  "count_where P T = length (filter P T)"

definition get_row :: "('r \<Rightarrow> 'k) \<Rightarrow> 'k \<Rightarrow> 'r list \<Rightarrow> 'r option" where
  "get_row key k T = List.find (\<lambda>r. key r = k) T"

definition first_by :: "('r \<Rightarrow> 'o::linorder) \<Rightarrow> 'r list \<Rightarrow> 'r option" where
  "first_by key T = (case sort_key key T of [] \<Rightarrow> None | r # _ \<Rightarrow> Some r)"

subsection \<open>Updates\<close>

lemma length_upd_where [simp]: "length (upd_where P f T) = length T"
  by (simp add: upd_where_def)

lemma upd_where_Nil [simp]: "upd_where P f [] = []"
  by (simp add: upd_where_def)

lemma upd_where_Cons [simp]:
  "upd_where P f (r # T) = (if P r then f r else r) # upd_where P f T"
  by (simp add: upd_where_def)

lemma upd_where_append [simp]: "upd_where P f (S @ T) = upd_where P f S @ upd_where P f T"
  by (simp add: upd_where_def)

lemma in_upd_where:
  "x \<in> set (upd_where P f T) \<longleftrightarrow> (\<exists>r \<in> set T. x = (if P r then f r else r))"
  by (auto simp: upd_where_def)

lemma upd_where_id: "(\<And>r. r \<in> set T \<Longrightarrow> \<not> P r) \<Longrightarrow> upd_where P f T = T"
  by (induction T) auto

lemma map_upd_where:
  assumes "\<And>r. r \<in> set T \<Longrightarrow> P r \<Longrightarrow> g (f r) = g r"
  shows "map g (upd_where P f T) = map g T"
  using assms by (induction T) auto

lemma upd_where_cong:
  assumes "\<And>r. r \<in> set T \<Longrightarrow> P r \<longleftrightarrow> Q r" "\<And>r. r \<in> set T \<Longrightarrow> P r \<Longrightarrow> f r = g r"
  shows "upd_where P f T = upd_where Q g T"
  using assms by (auto simp: upd_where_def)

subsection \<open>Counting\<close>

lemma count_where_Nil [simp]: "count_where P [] = 0"
  by (simp add: count_where_def)

lemma count_where_Cons [simp]:
  "count_where P (r # T) = (if P r then Suc (count_where P T) else count_where P T)"
  by (simp add: count_where_def)

lemma count_where_append [simp]: "count_where P (S @ T) = count_where P S + count_where P T"
  by (simp add: count_where_def)

lemma count_where_cong:
  assumes "\<And>r. r \<in> set T \<Longrightarrow> P r \<longleftrightarrow> Q r"
  shows "count_where P T = count_where Q T"
  using assms by (induction T) auto

lemma count_where_0_iff: "count_where P T = 0 \<longleftrightarrow> (\<forall>r \<in> set T. \<not> P r)"
  by (induction T) auto

lemma count_where_pos_iff: "0 < count_where P T \<longleftrightarrow> (\<exists>r \<in> set T. P r)"
  by (induction T) auto

lemma count_where_mono:
  assumes "\<And>r. r \<in> set T \<Longrightarrow> P r \<Longrightarrow> Q r"
  shows "count_where P T \<le> count_where Q T"
  using assms by (induction T) (auto simp: le_SucI)

lemma count_where_map_mono:
  assumes "\<And>r. r \<in> set T \<Longrightarrow> Q (f r) \<Longrightarrow> P r"
  shows "count_where Q (map f T) \<le> count_where P T"
  using assms by (induction T) (auto simp: le_SucI)

lemma count_where_map_eq:
  assumes "\<And>r. r \<in> set T \<Longrightarrow> Q (f r) \<longleftrightarrow> P r"
  shows "count_where Q (map f T) = count_where P T"
  using assms by (induction T) auto

lemma count_where_upd_eq:
  assumes "\<And>r. r \<in> set T \<Longrightarrow> (if P r then Q' (f r) else Q' r) \<longleftrightarrow> Q r"
  shows "count_where Q' (upd_where P f T) = count_where Q T"
  unfolding upd_where_def
proof (rule count_where_map_eq)
  fix r assume "r \<in> set T"
  from assms [OF this] show "Q' (if P r then f r else r) = Q r" by (simp split: if_splits)
qed

lemma count_where_upd_le:
  assumes "\<And>x. x \<in> set T \<Longrightarrow> P x \<Longrightarrow> \<not> Q (f x)"
  shows "count_where Q (upd_where P f T) \<le> count_where Q T"
  using assms by (induction T) (auto simp: le_SucI)

lemma count_where_upd_less:
  assumes "\<And>x. x \<in> set T \<Longrightarrow> P x \<Longrightarrow> \<not> Q (f x)" "r \<in> set T" "P r" "Q r"
  shows "count_where Q (upd_where P f T) < count_where Q T"
  using assms
proof (induction T)
  case (Cons x T)
  have le: "count_where Q (upd_where P f T) \<le> count_where Q T"
    by (rule count_where_upd_le) (use Cons.prems(1) in simp)
  show ?case
  proof (cases "x = r")
    case True
    with Cons.prems le show ?thesis by simp
  next
    case False
    with Cons.prems Cons.IH have "count_where Q (upd_where P f T) < count_where Q T" by simp
    with Cons.prems(1) [of x] show ?thesis by auto
  qed
qed simp

lemma count_where_split:
  "count_where P T = count_where (\<lambda>r. P r \<and> Q r) T + count_where (\<lambda>r. P r \<and> \<not> Q r) T"
  by (induction T) auto

lemma count_where_key:
  assumes "distinct (map key T)" "r \<in> set T"
  shows "count_where (\<lambda>x. key x = key r \<and> Q x) T = (if Q r then 1 else 0)"
  using assms
proof (induction T)
  case (Cons y T)
  show ?case
  proof (cases "y = r")
    case True
    with Cons.prems have "\<And>x. x \<in> set T \<Longrightarrow> key x \<noteq> key r"
      by (metis distinct.simps(2) image_eqI list.set_map list.simps(9))
    then have "count_where (\<lambda>x. key x = key r \<and> Q x) T = 0"
      by (auto simp: count_where_0_iff)
    with True show ?thesis by simp
  next
    case False
    with Cons.prems have "key y \<noteq> key r" by force
    with Cons False show ?thesis by simp
  qed
qed simp

lemma count_where_ge_2:
  assumes "distinct T" "a \<in> set T" "b \<in> set T" "a \<noteq> b" "P a" "P b"
  shows "2 \<le> count_where P T"
proof -
  have "card {a, b} \<le> card (set (filter P T))"
    using assms by (intro card_mono) auto
  also have "\<dots> = count_where P T"
    using distinct_card [OF distinct_filter [OF assms(1)], of P] by (simp add: count_where_def)
  finally show ?thesis using assms(4) by simp
qed

lemma count_where_le_1:
  assumes "distinct T" "\<And>a b. \<lbrakk>a \<in> set T; b \<in> set T; P a; P b\<rbrakk> \<Longrightarrow> a = b"
  shows "count_where P T \<le> 1"
proof -
  have "card (set (filter P T)) \<le> 1"
    using assms(2) by (auto intro!: card_le_Suc0_iff_eq [THEN iffD2])
  then show ?thesis
    using distinct_card [OF distinct_filter [OF assms(1)], of P] by (simp add: count_where_def)
qed

subsection \<open>Key lookups\<close>

lemma get_row_Some: "get_row key k T = Some r \<Longrightarrow> r \<in> set T \<and> key r = k"
  by (auto simp: get_row_def find_Some_iff)

lemma get_row_None: "get_row key k T = None \<longleftrightarrow> (\<forall>r \<in> set T. key r \<noteq> k)"
  by (auto simp: get_row_def find_None_iff)

lemma distinct_key_eq:
  "distinct (map key T) \<Longrightarrow> r \<in> set T \<Longrightarrow> s \<in> set T \<Longrightarrow> key r = key s \<Longrightarrow> r = s"
  by (induction T) (auto simp: image_iff)

lemma get_row_eq:
  assumes "distinct (map key T)" "r \<in> set T"
  shows "get_row key (key r) T = Some r"
proof (cases "get_row key (key r) T")
  case None
  with assms show ?thesis by (auto simp: get_row_None)
next
  case (Some s)
  with assms show ?thesis by (auto dest!: get_row_Some intro: distinct_key_eq)
qed

lemma get_row_iff:
  assumes "distinct (map key T)"
  shows "get_row key k T = Some r \<longleftrightarrow> r \<in> set T \<and> key r = k"
  using assms get_row_Some get_row_eq by metis

lemma get_row_append:
  "get_row key k (S @ T) = (case get_row key k S of None \<Rightarrow> get_row key k T | Some r \<Rightarrow> Some r)"
  by (induction S) (auto simp: get_row_def)

lemma get_row_map:
  assumes "\<And>r. key (f r) = key r"
  shows "get_row key k (map f T) = map_option f (get_row key k T)"
  using assms by (induction T) (auto simp: get_row_def)

lemma get_row_upd_where:
  assumes "\<And>r. key (f r) = key r"
  shows "get_row key k (upd_where P f T)
       = map_option (\<lambda>r. if P r then f r else r) (get_row key k T)"
  unfolding upd_where_def using assms by (intro get_row_map) simp

lemma first_by_Some:
  assumes "first_by key T = Some r"
  shows "r \<in> set T" "\<And>s. s \<in> set T \<Longrightarrow> key r \<le> key s"
proof -
  from assms obtain rs where s: "sort_key key T = r # rs"
    by (auto simp: first_by_def split: list.splits)
  have "set (sort_key key T) = set T" by simp
  with s show "r \<in> set T" by (metis list.set_intros(1))
  fix s assume "s \<in> set T"
  with s have "s \<in> set (r # rs)" by (metis set_sort)
  moreover have "sorted (map key (r # rs))" using s by (metis sorted_sort_key)
  ultimately show "key r \<le> key s" by auto
qed

lemma first_by_None: "first_by key T = None \<longleftrightarrow> T = []"
proof -
  have "first_by key T = None \<longleftrightarrow> sort_key key T = []"
    by (simp add: first_by_def split: list.splits)
  also have "\<dots> \<longleftrightarrow> T = []" by (metis set_empty set_sort)
  finally show ?thesis .
qed

section \<open>Guarded updates\<close>

text \<open>
  \<open>cas\<close> is \<^verbatim>\<open>UPDATE t SET .. WHERE .. RETURNING key\<close>: the updated table and whether
  this caller's update matched a row. Every state transition of the cursor, skill, capture and
  knowledge tables has this form.
\<close>

definition cas :: "('r \<Rightarrow> bool) \<Rightarrow> ('r \<Rightarrow> 'r) \<Rightarrow> 'r list \<Rightarrow> 'r list \<times> bool" where
  "cas P f T = (upd_where P f T, list_ex P T)"

lemma cas_lost: "\<not> snd (cas P f T) \<Longrightarrow> fst (cas P f T) = T"
  by (simp add: cas_def list_ex_iff upd_where_id)

lemma cas_won: "snd (cas P f T) \<longleftrightarrow> (\<exists>r \<in> set T. P r)"
  by (simp add: cas_def list_ex_iff)

lemma cas_fst [simp]: "fst (cas P f T) = upd_where P f T"
  by (simp add: cas_def)

lemma keyed_upd:
  assumes "distinct (map key T)" "\<And>r. r \<in> set T \<Longrightarrow> P r \<Longrightarrow> key (f r) = key r"
  shows "distinct (map key (upd_where P f T))"
  using assms map_upd_where [of T P key f] by simp

text \<open>A second update whose guard the first one falsifies loses.\<close>

lemma cas_excludes:
  assumes "\<And>r. r \<in> set T \<Longrightarrow> P r \<Longrightarrow> \<not> Q (f r)" "\<And>r. r \<in> set T \<Longrightarrow> \<not> P r \<Longrightarrow> \<not> Q r"
  shows "\<not> snd (cas Q g (fst (cas P f T)))"
proof -
  have "\<not> Q (if P r then f r else r)" if "r \<in> set T" for r
    using assms(1) [OF that] assms(2) [OF that] by (cases "P r") simp_all
  then show ?thesis unfolding cas_won cas_fst Bex_def in_upd_where by blast
qed

section \<open>Transition systems\<close>

text \<open>
  A generic transition system: an initial state and a step relation. Every state machine of
  the development interprets it, and its invariants are the instances of \<open>reach_inv\<close>.
\<close>

inductive reach :: "('s \<Rightarrow> 's \<Rightarrow> bool) \<Rightarrow> 's \<Rightarrow> 's \<Rightarrow> bool" for stp :: "'s \<Rightarrow> 's \<Rightarrow> bool" where
  reach_refl: "reach stp s s"
| reach_step: "reach stp s t \<Longrightarrow> stp t u \<Longrightarrow> reach stp s u"

locale invariant_system =
  fixes stp :: "'s \<Rightarrow> 's \<Rightarrow> bool" and inv :: "'s \<Rightarrow> bool"
  assumes step_inv: "inv s \<Longrightarrow> stp s t \<Longrightarrow> inv t"
begin

lemma reach_inv: "reach stp s t \<Longrightarrow> inv s \<Longrightarrow> inv t"
  by (induction rule: reach.induct) (auto intro: step_inv)

lemma reach_rel:
  assumes "reach stp s t" "inv s" "\<And>x. R x x"
    and "\<And>x y z. R x y \<Longrightarrow> inv y \<Longrightarrow> stp y z \<Longrightarrow> R x z"
  shows "R s t"
  using assms(1,2)
proof (induction rule: reach.induct)
  case (reach_refl s)
  show ?case by (rule assms(3))
next
  case (reach_step s t u)
  then show ?case using assms(4) reach_inv by blast
qed

end

end
