(* ===== verification/Pytext.thy ===== *)
theory Pytext
  imports Prelude
begin

text \<open>
  The part of Python's \<^verbatim>\<open>str\<close> and \<^verbatim>\<open>fnmatch\<close> the program uses, on lists of code
  points: whitespace, strip and split, substring search, and the translation of a glob into
  tokens with its matcher. \<open>codes\<close> turns an ASCII literal into code points. Lower-casing outside
  ASCII is an argument of the definitions that need it.
\<close>

section \<open>Characters and splitting\<close>

definition codes :: "string \<Rightarrow> pytext" where
  "codes s = map of_char s"

definition is_space :: "nat \<Rightarrow> bool" where
  "is_space c \<longleftrightarrow> (9 \<le> c \<and> c \<le> 13) \<or> (28 \<le> c \<and> c \<le> 32) \<or> c = 133 \<or> c = 160 \<or> c = 5760
     \<or> (8192 \<le> c \<and> c \<le> 8202) \<or> c = 8232 \<or> c = 8233 \<or> c = 8239 \<or> c = 8287 \<or> c = 12288"

definition lstrip :: "pytext \<Rightarrow> pytext" where
  "lstrip s = dropWhile is_space s"

definition strip :: "pytext \<Rightarrow> pytext" where
  "strip s = rev (dropWhile is_space (rev (lstrip s)))"

definition strip_char :: "nat \<Rightarrow> pytext \<Rightarrow> pytext" where
  "strip_char c s = rev (dropWhile (\<lambda>x. x = c) (rev (dropWhile (\<lambda>x. x = c) s)))"

fun split_on :: "nat \<Rightarrow> pytext \<Rightarrow> pytext list" where
  "split_on sep [] = [[]]"
| "split_on sep (x # xs) =
     (if x = sep then [] # split_on sep xs
      else case split_on sep xs of [] \<Rightarrow> [[x]] | p # ps \<Rightarrow> (x # p) # ps)"

fun join_on :: "pytext \<Rightarrow> pytext list \<Rightarrow> pytext" where
  "join_on sep [] = []"
| "join_on sep [p] = p"
| "join_on sep (p # q # ps) = p @ sep @ join_on sep (q # ps)"

text \<open>\<^verbatim>\<open>str.split()\<close>: the maximal runs of non-space characters.\<close>

fun words_acc :: "pytext \<Rightarrow> pytext \<Rightarrow> pytext list" where
  "words_acc acc [] = (if acc = [] then [] else [rev acc])"
| "words_acc acc (x # xs) =
     (if is_space x then (if acc = [] then words_acc [] xs else rev acc # words_acc [] xs)
      else words_acc (x # acc) xs)"

definition split_ws :: "pytext \<Rightarrow> pytext list" where
  "split_ws s = words_acc [] s"

definition contains :: "pytext \<Rightarrow> pytext \<Rightarrow> bool" where
  "contains sub s = list_ex (prefix sub) (suffixes s)"

definition is_ascii :: "pytext \<Rightarrow> bool" where
  "is_ascii s = list_all (\<lambda>c. c < 128) s"

definition ascii_lower :: "nat \<Rightarrow> nat" where
  "ascii_lower c = (if 65 \<le> c \<and> c \<le> 90 then c + 32 else c)"

lemma split_on_Nil [simp]: "split_on sep s \<noteq> []"
  by (induction s) (auto split: list.splits)

lemma join_split [simp]: "join_on [sep] (split_on sep s) = s"
proof (induction s)
  case (Cons x xs)
  obtain p ps where p: "split_on sep xs = p # ps" by (cases "split_on sep xs") auto
  with Cons show ?case by (cases ps) auto
qed simp

lemma split_on_parts: "p \<in> set (split_on sep s) \<Longrightarrow> sep \<notin> set p"
proof (induction s arbitrary: p)
  case (Cons x xs)
  obtain q qs where q: "split_on sep xs = q # qs" by (cases "split_on sep xs") auto
  with Cons show ?case by (auto split: if_splits)
qed simp

lemma split_on_no_sep: "sep \<notin> set s \<Longrightarrow> split_on sep s = [s]"
  by (induction s) auto

lemma split_on_append: "sep \<notin> set p \<Longrightarrow> split_on sep (p @ sep # s) = p # split_on sep s"
  by (induction p) auto

lemma split_join:
  assumes "ps \<noteq> []" "\<And>p. p \<in> set ps \<Longrightarrow> sep \<notin> set p"
  shows "split_on sep (join_on [sep] ps) = ps"
  using assms
proof (induction "[sep]" ps rule: join_on.induct)
  case (3 p q ps)
  then show ?case by (simp add: split_on_append)
qed (simp_all add: split_on_no_sep)

lemma words_acc_parts:
  assumes "w \<in> set (words_acc acc s)" "list_all (\<lambda>c. \<not> is_space c) acc"
  shows "w \<noteq> [] \<and> list_all (\<lambda>c. \<not> is_space c) w"
  using assms by (induction acc s rule: words_acc.induct) (auto split: if_splits)

lemma split_ws_parts: "w \<in> set (split_ws s) \<Longrightarrow> w \<noteq> [] \<and> list_all (\<lambda>c. \<not> is_space c) w"
  unfolding split_ws_def by (erule words_acc_parts) simp

lemma words_acc_word:
  "list_all (\<lambda>c. \<not> is_space c) s \<Longrightarrow> words_acc acc s = (if acc = [] \<and> s = [] then [] else [rev acc @ s])"
  by (induction s arbitrary: acc) auto

lemma split_ws_word: "list_all (\<lambda>c. \<not> is_space c) s \<Longrightarrow> split_ws s = (if s = [] then [] else [s])"
  by (simp add: split_ws_def words_acc_word)

lemma set_strip: "set (strip s) \<subseteq> set s"
  by (auto simp: strip_def lstrip_def dest!: set_dropWhileD)

lemma strip_idle:
  assumes "list_all (\<lambda>c. \<not> is_space c) s"
  shows "strip s = s"
proof -
  have "dropWhile is_space t = t" if "list_all (\<lambda>c. \<not> is_space c) t" for t
    using that by (cases t) auto
  moreover have "list_all (\<lambda>c. \<not> is_space c) (rev s)" using assms by (simp add: list_all_iff)
  ultimately show ?thesis using assms by (simp add: strip_def lstrip_def)
qed

lemma strip_core:
  assumes "s \<noteq> []" "\<not> is_space (hd s)" "\<not> is_space (last s)"
  shows "strip s = s" "strip (s @ [10]) = s" "strip (32 # s) = s" "strip (10 # s @ [10]) = s"
proof -
  have l: "lstrip (s @ t) = s @ t" for t using assms(1,2) by (cases s) (auto simp: lstrip_def)
  have r: "dropWhile is_space (rev s) = rev s" using assms(1,3) by (cases s rule: rev_cases) auto
  show "strip s = s" using l [of "[]"] r by (simp add: strip_def)
  then show "strip (32 # s) = s" by (simp add: strip_def lstrip_def is_space_def)
  show "strip (s @ [10]) = s" unfolding strip_def l using r by (simp add: is_space_def)
  then show "strip (10 # s @ [10]) = s" by (simp add: strip_def lstrip_def is_space_def)
qed

section \<open>Globs\<close>

datatype glob_tok = Lit nat | Any_Char | Star | Class bool "(nat \<times> nat) list"

text \<open>
  The items of a bracket expression: a character, a hyphen and a character are a range, and every
  other character stands for itself; an empty range matches nothing.
\<close>

fun class_items :: "pytext \<Rightarrow> (nat \<times> nat) list" where
  "class_items (lo # d # hi # rest) =
     (if d = 45 then (lo, hi) # class_items rest else (lo, lo) # class_items (d # hi # rest))"
| "class_items (c # rest) = (c, c) # class_items rest"
| "class_items [] = []"

fun cut_bracket :: "pytext \<Rightarrow> (pytext \<times> pytext) option" where
  "cut_bracket [] = None"
| "cut_bracket (c # p) =
     (if c = 93 then Some ([], p)
      else case cut_bracket p of None \<Rightarrow> None | Some (body, after) \<Rightarrow> Some (c # body, after))"

text \<open>A closing bracket in the first place stands for itself.\<close>

fun bracket_body :: "pytext \<Rightarrow> (pytext \<times> pytext) option" where
  "bracket_body [] = None"
| "bracket_body (c # p) =
     (if c = 93 then (case cut_bracket p of None \<Rightarrow> None | Some (body, after) \<Rightarrow> Some (93 # body, after))
      else cut_bracket (c # p))"

fun bracket :: "pytext \<Rightarrow> (bool \<times> pytext \<times> pytext) option" where
  "bracket [] = None"
| "bracket (c # p) =
     (if c = 33 then map_option (Pair True) (bracket_body p)
      else map_option (Pair False) (bracket_body (c # p)))"

lemma cut_shorter: "cut_bracket p = Some (body, after) \<Longrightarrow> length after < length p"
  by (induction p arbitrary: body after) (fastforce split: if_splits option.splits)+

lemma body_shorter: "bracket_body p = Some (body, after) \<Longrightarrow> length after < length p"
  by (cases p) (auto split: if_splits option.splits dest: cut_shorter)

lemma bracket_shorter: "bracket p = Some (neg, body, after) \<Longrightarrow> length after < Suc (length p)"
  by (cases p) (auto simp del: bracket_body.simps split: if_splits dest!: body_shorter)

function glob_parse :: "pytext \<Rightarrow> glob_tok list" where
  "glob_parse [] = []"
| "glob_parse (c # p) =
     (if c = 42 then Star # glob_parse p
      else if c = 63 then Any_Char # glob_parse p
      else if c = 91 then
        (case bracket p of
           None \<Rightarrow> Lit 91 # glob_parse p
         | Some (neg, body, after) \<Rightarrow> Class neg (class_items body) # glob_parse after)
      else Lit c # glob_parse p)"
  by pat_completeness auto
termination
  by (relation "measure length") (auto dest: bracket_shorter)

definition in_class :: "nat \<Rightarrow> (nat \<times> nat) list \<Rightarrow> bool" where
  "in_class x items = list_ex (\<lambda>(lo, hi). lo \<le> x \<and> x \<le> hi) items"

fun tok_match :: "glob_tok \<Rightarrow> nat \<Rightarrow> bool" where
  "tok_match (Lit c) x = (x = c)"
| "tok_match Any_Char x = True"
| "tok_match Star x = True"
| "tok_match (Class neg items) x = (in_class x items \<noteq> neg)"

fun glob_match :: "glob_tok list \<Rightarrow> pytext \<Rightarrow> bool" where
  "glob_match [] s = (s = [])"
| "glob_match (Star # ts) [] = glob_match ts []"
| "glob_match (Star # ts) (x # xs) = (glob_match ts (x # xs) \<or> glob_match (Star # ts) xs)"
| "glob_match (t # ts) [] = False"
| "glob_match (t # ts) (x # xs) = (tok_match t x \<and> glob_match ts xs)"

definition fnmatchcase :: "pytext \<Rightarrow> pytext \<Rightarrow> bool" where
  "fnmatchcase name pat = glob_match (glob_parse pat) name"

text \<open>The wildcard characters: a pattern without them matches itself only.\<close>

definition wild :: "nat \<Rightarrow> bool" where
  "wild c \<longleftrightarrow> c = 42 \<or> c = 63 \<or> c = 91"

lemma glob_parse_literal: "list_all (\<lambda>c. \<not> wild c) p \<Longrightarrow> glob_parse p = map Lit p"
  by (induction p) (auto simp: wild_def)

lemma glob_match_literal: "glob_match (map Lit p) s \<longleftrightarrow> s = p"
proof (induction p arbitrary: s)
  case (Cons c p)
  then show ?case by (cases s) auto
qed simp

lemma fnmatch_literal: "list_all (\<lambda>c. \<not> wild c) p \<Longrightarrow> fnmatchcase s p \<longleftrightarrow> s = p"
  by (simp add: fnmatchcase_def glob_parse_literal glob_match_literal)

text \<open>The meaning of a token list: the text is cut into one piece per token.\<close>

definition tok_piece :: "glob_tok \<Rightarrow> pytext \<Rightarrow> bool" where
  "tok_piece t w \<longleftrightarrow> (t = Star \<or> (\<exists>x. w = [x] \<and> tok_match t x))"

lemma glob_match_star: "glob_match (Star # ts) s \<longleftrightarrow> (\<exists>u v. s = u @ v \<and> glob_match ts v)"
proof (induction s)
  case (Cons x xs)
  show ?case (is "_ \<longleftrightarrow> ?R")
  proof
    assume "glob_match (Star # ts) (x # xs)"
    then have "glob_match ts (x # xs) \<or> (\<exists>u v. xs = u @ v \<and> glob_match ts v)" using Cons by simp
    then consider "glob_match ts (x # xs)" | u v where "xs = u @ v" "glob_match ts v" by blast
    then show ?R
    proof cases
      case 1
      then show ?thesis by (intro exI [of _ "[]"] exI [of _ "x # xs"]) simp
    next
      case (2 u v)
      then show ?thesis by (intro exI [of _ "x # u"] exI [of _ v]) simp
    qed
  next
    assume ?R
    then obtain u v where uv: "x # xs = u @ v" "glob_match ts v" by blast
    then show "glob_match (Star # ts) (x # xs)" using Cons by (cases u) auto
  qed
qed simp

lemma glob_match_iff:
  "glob_match ts s \<longleftrightarrow> (\<exists>ws. s = concat ws \<and> list_all2 tok_piece ts ws)"
proof (induction ts arbitrary: s)
  case (Cons t ts)
  have one: "glob_match (t # ts) s \<longleftrightarrow> (\<exists>u v. s = u @ v \<and> tok_piece t u \<and> glob_match ts v)"
  proof (cases "t = Star")
    case True
    then show ?thesis by (simp add: glob_match_star tok_piece_def)
  next
    case False
    then have "glob_match (t # ts) s \<longleftrightarrow> (case s of [] \<Rightarrow> False | x # xs \<Rightarrow> tok_match t x \<and> glob_match ts xs)"
      by (cases t; cases s) auto
    also have "\<dots> \<longleftrightarrow> (\<exists>x v. s = [x] @ v \<and> tok_match t x \<and> glob_match ts v)" by (cases s) auto
    finally show ?thesis using False unfolding tok_piece_def by blast
  qed
  show ?case (is "_ \<longleftrightarrow> ?R")
  proof
    assume "glob_match (t # ts) s"
    then obtain u v where "s = u @ v" "tok_piece t u" "glob_match ts v" unfolding one by blast
    moreover from this(3) Cons obtain ws where "v = concat ws" "list_all2 tok_piece ts ws" by blast
    ultimately show ?R by (intro exI [of _ "u # ws"]) simp
  next
    assume ?R
    then obtain u ws where "s = u @ concat ws" "tok_piece t u" "list_all2 tok_piece ts ws"
      by (auto simp: list_all2_Cons1)
    then show "glob_match (t # ts) s" unfolding one Cons by blast
  qed
qed auto

end
