(* ===== verification/Contracts.thy ===== *)
theory Contracts
  imports Prelude Complex_Main
begin

text \<open>
  The contract types of \<^verbatim>\<open>src/runtime/contracts.py\<close> (C0-C3) and the agent registry of
  \<^verbatim>\<open>src/runtime/registry.py\<close>: enumerations as datatypes, pydantic models as records, the
  derived synchronous wait of a profile, the roster as data, and the retry-safety decision
  that the ledger draws from it (\<^verbatim>\<open>PostgresLedger._requeue_safe\<close>).
\<close>

section \<open>C0: capability model\<close>

datatype reach_kind = CLI | API

datatype authority = Responder | Workspace_Actor | Controller | Composite

record profile =
  timeout_s :: int
  concurrency_weight :: int
  cost_budget :: "rat option"
  sync_wait_s :: "int option"

definition default_profile :: profile where
  "default_profile =
     \<lparr>timeout_s = 300, concurrency_weight = 1, cost_budget = None, sync_wait_s = None\<rparr>"

definition sync_wait_margin_s :: int where
  "sync_wait_margin_s = 60"

definition sync_wait :: "profile \<Rightarrow> int" where
  "sync_wait p = (case sync_wait_s p of
     Some w \<Rightarrow> w
   | None \<Rightarrow> timeout_s p + sync_wait_margin_s)"

section \<open>C2 and C4: state-machine enumerations\<close>

datatype job_status = JQueued | JLeased | JRunning | JDone | JFailed | JDead

datatype attempt_status = AOpen | AOk | AFailed

datatype outbound_status = OPending | OLeased | OSent | OFailed

datatype result_status = ROk | RError | RTimeout | RKilled | RNeedsHuman

datatype error_class = Retryable | Terminal | Needs_Human

datatype stream = Stdout | Stderr | Heartbeat

section \<open>C3: transport envelope\<close>

record formatting_caps =
  max_len :: int
  chunking :: bool

record envelope =
  transport :: string
  account :: string
  sender_id :: string
  channel_id :: "string option"
  thread_id :: "string option"
  reply_target :: string
  provider_msg_id :: "string option"
  dedupe_key :: string
  caps :: formatting_caps

section \<open>C1: invocation contract\<close>

text \<open>The free-form per-job input is JSON.\<close>

datatype json = JNull | JBool bool | JNum rat | JStr string | JArr "json list"
  | JObj "(string \<times> json) list"

type_synonym jctx = "(string \<times> json) list"

record job =
  job_id :: uuid
  to_agent :: string
  prompt :: pytext
  job_context :: jctx
  repo_id :: "string option"
  base_ref :: "string option"
  base_sha :: "string option"
  worktree_path :: "string option"
  job_timeout_s :: int
  attempt_no :: int

record result =
  status :: result_status
  res_text :: pytext
  exit_code :: "int option"
  err_class :: "error_class option"
  artifact_ref :: "string option"
  cost :: "rat option"
  ms :: "int option"

section \<open>The registry\<close>

text \<open>
  Of the adapter dictionary the ledger and the worker read one key,
  \<^verbatim>\<open>non_idempotent\<close>; the remaining keys configure the runner's subprocess and HTTP calls and
  are left out.
\<close>

record agent_spec =
  agent_id :: string
  reach_of :: reach_kind
  auth :: authority
  model :: string
  agent_role :: string
  prof :: profile
  non_idempotent :: bool
  host :: "string option"

type_synonym registry = "agent_spec list"

definition get_spec :: "registry \<Rightarrow> string \<Rightarrow> agent_spec option" where
  "get_spec reg a = get_row agent_id a (rev reg)"

definition reserved_agent_id :: "string \<Rightarrow> bool" where
  "reserved_agent_id a = prefix ''api:'' a"

definition mk_spec ::
  "string \<Rightarrow> reach_kind \<Rightarrow> authority \<Rightarrow> string \<Rightarrow> string \<Rightarrow> int \<Rightarrow> rat option \<Rightarrow> bool \<Rightarrow> agent_spec" where
  "mk_spec a r u m ro t c n =
     \<lparr>agent_id = a, reach_of = r, auth = u, model = m, agent_role = ro,
      prof = default_profile\<lparr>timeout_s := t, cost_budget := c\<rparr>, non_idempotent = n,
      host = None\<rparr>"

definition spec_lobster :: agent_spec where
  "spec_lobster = mk_spec ''lobster'' CLI Controller ''sonnet'' ''orchestration/judgment'' 300 None False"

definition spec_mack :: agent_spec where
  "spec_mack = mk_spec ''mack'' CLI Workspace_Actor ''opus'' ''hands-on builder'' 7200 None False"

definition spec_mini :: agent_spec where
  "spec_mini = mk_spec ''mini'' CLI Workspace_Actor ''claude'' ''pipeline builder'' 7200 None False"

definition spec_kilabz :: agent_spec where
  "spec_kilabz = mk_spec ''kilabz'' CLI Responder ''gpt-6-astra'' ''code reviewer (read-only)'' 900 None False"

definition spec_codex :: agent_spec where
  "spec_codex = mk_spec ''codex'' CLI Workspace_Actor ''gpt-6-astra'' ''builder/debugger'' 1800 None False"

definition spec_oracle :: agent_spec where
  "spec_oracle = (mk_spec ''oracle'' CLI Responder ''gemini-3.1-pro'' ''reviewer/vision'' 300 None False)\<lparr>host := Some ''mini''\<rparr>"

definition spec_curator :: agent_spec where
  "spec_curator = mk_spec ''curator'' CLI Workspace_Actor ''sonnet'' ''corpus librarian (research/ folder-agent)'' 600 None False"

definition spec_librarian :: agent_spec where
  "spec_librarian = mk_spec ''librarian'' CLI Responder ''sonnet'' ''recall librarian (read-only answer-with-citations over the corpus)'' 120 None False"

definition spec_recon :: agent_spec where
  "spec_recon = mk_spec ''recon'' API Composite ''sonar-pro+claude'' ''research (read-only)'' 300 (Some 5) False"

definition spec_higgsfield :: agent_spec where
  "spec_higgsfield = mk_spec ''higgsfield'' API Responder ''dop-lite'' ''image/text->video generation'' 600 (Some 2) True"

definition spec_stitcher :: agent_spec where
  "spec_stitcher = mk_spec ''stitcher'' API Workspace_Actor ''dop-lite'' ''long video via chained clips'' 2400 (Some 5) True"

definition spec_mx_engine :: agent_spec where
  "spec_mx_engine = mk_spec ''mx-engine'' CLI Workspace_Actor ''pipeline'' ''content factory (mx-engine folder-agent): topic -> narrated reel'' 1500 None False"

definition v1_roster :: registry where
  "v1_roster = [spec_lobster, spec_mack, spec_mini, spec_kilabz, spec_codex, spec_oracle,
     spec_curator, spec_librarian, spec_recon, spec_higgsfield, spec_stitcher, spec_mx_engine]"

lemmas v1_specs = v1_roster_def spec_lobster_def spec_mack_def spec_mini_def spec_kilabz_def spec_codex_def spec_oracle_def
  spec_curator_def spec_librarian_def spec_recon_def spec_higgsfield_def spec_stitcher_def spec_mx_engine_def

text \<open>
  Retry safety, fail-closed: an unknown agent has no specification (the Python reads an
  attribute of \<^verbatim>\<open>None\<close>, catches the exception and answers \<^verbatim>\<open>False\<close>), a paid non-idempotent
  supplier is never requeued whatever its authority, and of the rest only responders and
  controllers are.
\<close>

definition requeue_safe :: "registry \<Rightarrow> string \<Rightarrow> bool" where
  "requeue_safe reg a = (case get_spec reg a of
     None \<Rightarrow> False
   | Some sp \<Rightarrow> if non_idempotent sp then False else auth sp \<in> {Responder, Controller})"

section \<open>Facts\<close>

lemma requeue_safe_unknown: "get_spec reg a = None \<Longrightarrow> \<not> requeue_safe reg a"
  by (simp add: requeue_safe_def)

lemma sync_wait_covers_exec:
  "sync_wait_s p = None \<Longrightarrow> timeout_s p < sync_wait p"
  by (simp add: sync_wait_def sync_wait_margin_s_def)

lemma v1_roster_ids_distinct: "distinct (map agent_id v1_roster)"
  by (simp add: v1_specs mk_spec_def)

lemma v1_roster_no_reserved: "list_all (\<lambda>sp. \<not> reserved_agent_id (agent_id sp)) v1_roster"
  by (simp add: v1_specs mk_spec_def reserved_agent_id_def)

lemma v1_roster_requeue_safe:
  "requeue_safe v1_roster a \<longleftrightarrow> a \<in> {''lobster'', ''kilabz'', ''oracle'', ''librarian''}"
proof -
  have "requeue_safe v1_roster a \<longleftrightarrow>
    (\<exists>sp \<in> set v1_roster. agent_id sp = a \<and> \<not> non_idempotent sp \<and> auth sp \<in> {Responder, Controller})"
  proof -
    show ?thesis
    proof (cases "get_spec v1_roster a")
      case None
      then have "\<forall>sp \<in> set v1_roster. agent_id sp \<noteq> a"
        by (simp add: get_spec_def get_row_None)
      with None show ?thesis by (auto simp: requeue_safe_def)
    next
      case (Some sp)
      then have sp: "sp \<in> set v1_roster" "agent_id sp = a"
        by (auto simp: get_spec_def dest: get_row_Some)
      then have uniq: "\<And>t. t \<in> set v1_roster \<Longrightarrow> agent_id t = a \<Longrightarrow> t = sp"
        using v1_roster_ids_distinct by (metis distinct_key_eq)
      have "requeue_safe v1_roster a \<longleftrightarrow>
          \<not> non_idempotent sp \<and> auth sp \<in> {Responder, Controller}"
        using Some by (simp add: requeue_safe_def)
      with sp uniq show ?thesis by blast
    qed
  qed
  also have "\<dots> \<longleftrightarrow> a \<in> {''lobster'', ''kilabz'', ''oracle'', ''librarian''}"
    by (auto simp: v1_specs mk_spec_def)
  finally show ?thesis .
qed

end
