(* ===== verification/Ledger.thy ===== *)
theory Ledger
  imports Contracts
begin

text \<open>
  The job ledger of \<^verbatim>\<open>src/runtime/ledger/postgres_store.py\<close>: the tables of
  \<^verbatim>\<open>schema.sql\<close> that carry the job state machine, and one definition per Command-API verb
  (admission, lease, heartbeat, completion, failure, outbox, reclaim, reconciliation, cancel).
  A verb is one transaction, so it is one function from database to database; the statements
  inside it are applied in the order the code issues them. The wall clock
  (\<^verbatim>\<open>statement_timestamp()\<close>), the set of rows other transactions hold locked
  (\<^verbatim>\<open>SKIP LOCKED\<close>), the registry and the per-repository cap are arguments.
  A \<^verbatim>\<open>uuid4\<close> value is the next number of a supply kept in the database record: only the
  distinctness of the identifiers is used.
\<close>

section \<open>Tables\<close>

record inbound_row =
  ie_id :: uuid
  ie_transport :: string
  ie_envelope :: envelope
  ie_body :: pytext
  ie_received_at :: time
  ie_dedupe :: string

record job_row =
  j_id :: uuid
  j_parent :: "uuid option"
  j_root :: uuid
  j_depth :: nat
  j_created_by :: string
  j_inbound :: "uuid option"
  j_to_agent :: string
  j_body :: pytext
  j_context :: jctx
  j_priority :: int
  j_status :: job_status
  j_repo :: "string option"
  j_base_ref :: "string option"
  j_base_sha :: "string option"
  j_worktree :: "string option"
  j_artifact :: "string option"
  j_created_at :: time

record attempt_row =
  a_id :: uuid
  a_job :: uuid
  a_worker :: string
  a_expires :: time
  a_started :: time
  a_ended :: "time option"
  a_status :: attempt_status
  a_result :: "result option"
  a_error :: "error_class option"

record rc_row =
  rc_repo :: string
  rc_active :: int

record log_row =
  lg_attempt :: uuid
  lg_ts :: time
  lg_stream :: stream
  lg_chunk :: pytext

record outbound_row =
  o_id :: uuid
  o_job :: uuid
  o_transport :: string
  o_target :: string
  o_body :: pytext
  o_status :: outbound_status
  o_provider :: "string option"
  o_tries :: nat
  o_created_at :: time

text \<open>The reason text of a dead letter: one constructor per message the code formats.\<close>

datatype dead_reason =
    Parent_Not_Live uuid job_status
  | Over_Limits nat nat
  | Poison_Failure nat string
  | Not_Retry_Safe string
  | Lease_Expired_Unsafe
  | Poison_Expiry nat
  | Duplicate_Provider_Msg string
  | Delivery_Exhausted
  | Other_Reason string

record dead_row =
  dl_id :: uuid
  dl_source :: uuid
  dl_reason :: dead_reason
  dl_created_at :: time

record db =
  inbound_event :: "inbound_row list"
  job :: "job_row list"
  attempt :: "attempt_row list"
  repo_concurrency :: "rc_row list"
  attempt_log :: "log_row list"
  outbound :: "outbound_row list"
  dead_letter :: "dead_row list"
  next_id :: uuid

definition empty_db :: db where
  "empty_db = \<lparr>inbound_event = [], job = [], attempt = [], repo_concurrency = [],
     attempt_log = [], outbound = [], dead_letter = [], next_id = 0\<rparr>"

datatype ledger_error = Lost_Lease | Value_Error | Unique_Violation | Foreign_Key_Violation

definition LEASE_SECONDS :: int where "LEASE_SECONDS = 120"
definition HEARTBEAT_SECONDS :: int where "HEARTBEAT_SECONDS = 120"
definition RECLAIM_BATCH :: nat where "RECLAIM_BATCH = 100"
definition OUTBOUND_MAX_TRIES :: nat where "OUTBOUND_MAX_TRIES = 5"
definition MAX_CHILDREN :: nat where "MAX_CHILDREN = 32"
definition MAX_DEPTH :: nat where "MAX_DEPTH = 8"
definition MAX_ATTEMPTS :: nat where "MAX_ATTEMPTS = 3"
definition LEASE_MAX_REPICKS :: nat where "LEASE_MAX_REPICKS = 16"

lemmas policy_defs = LEASE_SECONDS_def HEARTBEAT_SECONDS_def RECLAIM_BATCH_def
  OUTBOUND_MAX_TRIES_def MAX_CHILDREN_def MAX_DEPTH_def MAX_ATTEMPTS_def LEASE_MAX_REPICKS_def

section \<open>Helpers\<close>

definition live_status :: "job_status \<Rightarrow> bool" where
  "live_status s \<longleftrightarrow> s = JLeased \<or> s = JRunning"

definition terminal_status :: "job_status \<Rightarrow> bool" where
  "terminal_status s \<longleftrightarrow> s = JDone \<or> s = JFailed \<or> s = JDead"

definition get_job :: "uuid \<Rightarrow> db \<Rightarrow> job_row option" where
  "get_job i d = get_row j_id i (job d)"

definition get_attempt :: "uuid \<Rightarrow> db \<Rightarrow> attempt_row option" where
  "get_attempt i d = get_row a_id i (attempt d)"

definition n_attempts :: "uuid \<Rightarrow> db \<Rightarrow> nat" where
  "n_attempts i d = count_where (\<lambda>a. a_job a = i) (attempt d)"

definition unstorable :: "nat \<Rightarrow> bool" where
  "unstorable c \<longleftrightarrow> c = 0 \<or> (55296 \<le> c \<and> c \<le> 57343)"

definition utf8_safe :: "pytext \<Rightarrow> pytext" where
  "utf8_safe s = (if \<not> list_ex unstorable s then s
                  else map (\<lambda>c. if unstorable c then 65533 else c) s)"

definition new_id :: "db \<Rightarrow> uuid \<times> db" where
  "new_id d = (next_id d, d\<lparr>next_id := Suc (next_id d)\<rparr>)"

definition dead_letter_verb :: "time \<Rightarrow> uuid \<Rightarrow> dead_reason \<Rightarrow> db \<Rightarrow> db" where
  "dead_letter_verb now src why d =
     (let (i, d1) = new_id d in
      d1\<lparr>dead_letter := dead_letter d1 @
           [\<lparr>dl_id = i, dl_source = src, dl_reason = why, dl_created_at = now\<rparr>]\<rparr>)"

section \<open>Ingest and dispatch\<close>

definition ingest_inbound :: "time \<Rightarrow> envelope \<Rightarrow> pytext \<Rightarrow> db \<Rightarrow> db \<times> uuid" where
  "ingest_inbound now env body d =
     (let (i, d1) = new_id d in
      case get_row ie_dedupe (dedupe_key env) (inbound_event d1) of
        Some ie \<Rightarrow> (d1, ie_id ie)
      | None \<Rightarrow> (d1\<lparr>inbound_event := inbound_event d1 @
            [\<lparr>ie_id = i, ie_transport = transport env, ie_envelope = env,
              ie_body = utf8_safe body, ie_received_at = now, ie_dedupe = dedupe_key env\<rparr>]\<rparr>, i))"

record submit_args =
  s_to_agent :: string
  s_prompt :: pytext
  s_context :: jctx
  s_parent :: "uuid option"
  s_inbound :: "uuid option"
  s_created_by :: string
  s_repo :: "string option"
  s_base_ref :: "string option"
  s_priority :: int

text \<open>
  An insert into \<open>job\<close> meets the partial unique index on the originating event first and the
  foreign keys after it.
\<close>

definition insert_job :: "job_row \<Rightarrow> db \<Rightarrow> ledger_error + db" where
  "insert_job j d =
     (if j_inbound j \<noteq> None \<and> (\<exists>k \<in> set (job d). j_inbound k = j_inbound j)
      then Inl Unique_Violation
      else if (case j_parent j of None \<Rightarrow> False | Some p \<Rightarrow> get_job p d = None)
            \<or> (case j_inbound j of None \<Rightarrow> False
                | Some e \<Rightarrow> get_row ie_id e (inbound_event d) = None)
      then Inl Foreign_Key_Violation
      else Inr (d\<lparr>job := job d @ [j]\<rparr>))"

definition mk_job ::
  "time \<Rightarrow> uuid \<Rightarrow> uuid \<Rightarrow> nat \<Rightarrow> job_status \<Rightarrow> submit_args \<Rightarrow> job_row" where
  "mk_job now i rt dep st s =
     \<lparr>j_id = i, j_parent = s_parent s, j_root = rt, j_depth = dep,
      j_created_by = s_created_by s, j_inbound = s_inbound s, j_to_agent = s_to_agent s,
      j_body = utf8_safe (s_prompt s), j_context = s_context s, j_priority = s_priority s,
      j_status = st, j_repo = s_repo s, j_base_ref = s_base_ref s, j_base_sha = None,
      j_worktree = None, j_artifact = None, j_created_at = now\<rparr>"

definition count_children :: "uuid \<Rightarrow> db \<Rightarrow> nat" where
  "count_children p d = count_where (\<lambda>k. j_parent k = Some p \<and> j_status k \<noteq> JDead) (job d)"

definition admission :: "job_row \<Rightarrow> db \<Rightarrow> dead_reason option" where
  "admission p d =
     (if \<not> (j_status p \<in> {JQueued, JLeased, JRunning})
      then Some (Parent_Not_Live (j_id p) (j_status p))
      else if Suc (j_depth p) > MAX_DEPTH \<or> count_children (j_id p) d \<ge> MAX_CHILDREN
      then Some (Over_Limits (Suc (j_depth p)) (count_children (j_id p) d))
      else None)"

text \<open>
  The accepted insert runs in a savepoint: a violation of the unique index means a job for
  this event exists, and its identifier is returned. A rejected child is inserted dead,
  without repository or base reference, and dead-lettered.
\<close>

definition submit_queued :: "job_row \<Rightarrow> db \<Rightarrow> ledger_error + (db \<times> uuid)" where
  "submit_queued j d =
     (case insert_job j d of
        Inr d' \<Rightarrow> Inr (d', j_id j)
      | Inl Unique_Violation \<Rightarrow>
          (case get_row j_inbound (j_inbound j) (job d) of
             Some k \<Rightarrow> Inr (d, j_id k) | None \<Rightarrow> Inl Unique_Violation)
      | Inl e \<Rightarrow> Inl e)"

definition submit_job :: "time \<Rightarrow> submit_args \<Rightarrow> db \<Rightarrow> ledger_error + (db \<times> uuid)" where
  "submit_job now s d =
     (let (i, d1) = new_id d in
      case s_parent s of
        None \<Rightarrow> submit_queued (mk_job now i i 0 JQueued s) d1
      | Some p \<Rightarrow>
          (case get_job p d1 of
             None \<Rightarrow> Inl Value_Error
           | Some par \<Rightarrow>
               (case admission par d1 of
                  None \<Rightarrow> submit_queued (mk_job now i (j_root par) (Suc (j_depth par)) JQueued s) d1
                | Some why \<Rightarrow>
                    (case insert_job (mk_job now i (j_root par) (Suc (j_depth par)) JDead
                            (s\<lparr>s_repo := None, s_base_ref := None\<rparr>)) d1 of
                       Inl e \<Rightarrow> Inl e
                     | Inr d2 \<Rightarrow> Inr (dead_letter_verb now i why d2, i)))))"

section \<open>Lease\<close>

definition has_open :: "uuid \<Rightarrow> db \<Rightarrow> bool" where
  "has_open i d = (\<exists>a \<in> set (attempt d). a_job a = i \<and> a_status a = AOpen)"

definition rc_active_of :: "string \<Rightarrow> db \<Rightarrow> int" where
  "rc_active_of r d = (case get_row rc_repo r (repo_concurrency d) of None \<Rightarrow> 0 | Some c \<Rightarrow> rc_active c)"

definition leasable :: "int \<Rightarrow> uuid list \<Rightarrow> string list \<Rightarrow> db \<Rightarrow> job_row \<Rightarrow> bool" where
  "leasable cap locked skip d j \<longleftrightarrow>
     j_status j = JQueued \<and> \<not> has_open (j_id j) d
     \<and> (case j_repo j of None \<Rightarrow> True | Some r \<Rightarrow> rc_active_of r d < cap \<and> r \<notin> set skip)
     \<and> j_id j \<notin> set locked"

definition pick_job :: "int \<Rightarrow> uuid list \<Rightarrow> string list \<Rightarrow> db \<Rightarrow> job_row option" where
  "pick_job cap locked skip d =
     first_by (\<lambda>j. (- j_priority j, j_created_at j, j_id j)) (filter (leasable cap locked skip d) (job d))"

definition claim :: "time \<Rightarrow> string \<Rightarrow> uuid \<Rightarrow> uuid \<Rightarrow> db \<Rightarrow> db \<times> uuid option" where
  "claim now worker i aid d =
     (if (\<exists>j \<in> set (job d). j_id j = i \<and> j_status j = JQueued)
      then (d\<lparr>job := upd_where (\<lambda>j. j_id j = i \<and> j_status j = JQueued) (\<lambda>j. j\<lparr>j_status := JLeased\<rparr>) (job d),
              attempt := attempt d @
                [\<lparr>a_id = aid, a_job = i, a_worker = worker, a_expires = now + LEASE_SECONDS,
                  a_started = now, a_ended = None, a_status = AOpen, a_result = None,
                  a_error = None\<rparr>]\<rparr>, Some aid)
      else (d, None))"

definition seed_rc :: "string \<Rightarrow> db \<Rightarrow> db" where
  "seed_rc r d = (case get_row rc_repo r (repo_concurrency d) of
     None \<Rightarrow> d\<lparr>repo_concurrency := repo_concurrency d @ [\<lparr>rc_repo = r, rc_active = 0\<rparr>]\<rparr>
   | Some _ \<Rightarrow> d)"

definition set_rc :: "string \<Rightarrow> int \<Rightarrow> db \<Rightarrow> db" where
  "set_rc r n d = d\<lparr>repo_concurrency :=
     upd_where (\<lambda>c. rc_repo c = r) (\<lambda>c. c\<lparr>rc_active := n\<rparr>) (repo_concurrency d)\<rparr>"

definition dec_rc :: "string option \<Rightarrow> int \<Rightarrow> db \<Rightarrow> db" where
  "dec_rc ro n d = (case ro of
     None \<Rightarrow> d
   | Some r \<Rightarrow> d\<lparr>repo_concurrency :=
       upd_where (\<lambda>c. rc_repo c = r) (\<lambda>c. c\<lparr>rc_active := max (rc_active c - n) 0\<rparr>)
         (repo_concurrency d)\<rparr>)"

text \<open>The hard authority: open attempts on the leased or running jobs of a repository.\<close>

definition counts_for :: "string \<Rightarrow> db \<Rightarrow> attempt_row \<Rightarrow> bool" where
  "counts_for r d a \<longleftrightarrow> a_status a = AOpen \<and>
     (case get_job (a_job a) d of
        None \<Rightarrow> False | Some j \<Rightarrow> j_repo j = Some r \<and> live_status (j_status j))"

definition open_count :: "string \<Rightarrow> db \<Rightarrow> nat" where
  "open_count r d = count_where (counts_for r d) (attempt d)"

datatype lease_outcome = Leased_Attempt uuid | Nothing_Leasable | Repick "string list"

definition lease_iter ::
  "int \<Rightarrow> time \<Rightarrow> string \<Rightarrow> uuid list \<Rightarrow> string list \<Rightarrow> db \<Rightarrow> db \<times> lease_outcome" where
  "lease_iter cap now worker locked skip d =
     (case pick_job cap locked skip d of
        None \<Rightarrow> (d, Nothing_Leasable)
      | Some j \<Rightarrow>
          (let (aid, d1) = new_id d in
           case j_repo j of
             None \<Rightarrow>
               (case claim now worker (j_id j) aid d1 of
                  (d2, Some a) \<Rightarrow> (d2, Leased_Attempt a)
                | (d2, None) \<Rightarrow> (d2, Repick skip))
           | Some r \<Rightarrow>
               (let d2 = seed_rc r d1; n = open_count r d2 in
                if int n \<ge> cap then (set_rc r (int n) d2, Repick (skip @ [r]))
                else (case claim now worker (j_id j) aid d2 of
                        (d3, None) \<Rightarrow> (d3, Repick skip)
                      | (d3, Some a) \<Rightarrow> (set_rc r (int n + 1) d3, Leased_Attempt a)))))"

fun lease_loop ::
  "nat \<Rightarrow> int \<Rightarrow> time \<Rightarrow> string \<Rightarrow> uuid list \<Rightarrow> string list \<Rightarrow> db \<Rightarrow> db \<times> uuid option" where
  "lease_loop 0 cap now worker locked skip d = (d, None)"
| "lease_loop (Suc n) cap now worker locked skip d =
     (case lease_iter cap now worker locked skip d of
        (d', Leased_Attempt a) \<Rightarrow> (d', Some a)
      | (d', Nothing_Leasable) \<Rightarrow> (d', None)
      | (d', Repick skip') \<Rightarrow> lease_loop n cap now worker locked skip' d')"

definition lease_job :: "int \<Rightarrow> time \<Rightarrow> string \<Rightarrow> uuid list \<Rightarrow> db \<Rightarrow> db \<times> uuid option" where
  "lease_job cap now worker locked d = lease_loop LEASE_MAX_REPICKS cap now worker locked [] d"

section \<open>Running an attempt\<close>

definition open_live :: "uuid \<Rightarrow> db \<Rightarrow> (attempt_row \<times> job_row) option" where
  "open_live aid d = (case get_attempt aid d of
     None \<Rightarrow> None
   | Some a \<Rightarrow> if a_status a \<noteq> AOpen then None
       else (case get_job (a_job a) d of
               None \<Rightarrow> None
             | Some j \<Rightarrow> if live_status (j_status j) then Some (a, j) else None))"

definition get_attempt_job :: "uuid \<Rightarrow> db \<Rightarrow> Contracts.job option" where
  "get_attempt_job aid d = (case open_live aid d of
     None \<Rightarrow> None
   | Some (a, j) \<Rightarrow> Some \<lparr>job_id = j_id j, to_agent = j_to_agent j, prompt = j_body j,
       job_context = j_context j, repo_id = j_repo j, base_ref = j_base_ref j,
       base_sha = j_base_sha j, worktree_path = j_worktree j, job_timeout_s = 300,
       attempt_no = 1\<rparr>)"

definition heartbeat_attempt :: "time \<Rightarrow> uuid \<Rightarrow> db \<Rightarrow> ledger_error + db" where
  "heartbeat_attempt now aid d = (case open_live aid d of
     None \<Rightarrow> Inl Lost_Lease
   | Some _ \<Rightarrow> Inr (d\<lparr>attempt := upd_where (\<lambda>a. a_id a = aid)
       (\<lambda>a. a\<lparr>a_expires := now + HEARTBEAT_SECONDS\<rparr>) (attempt d)\<rparr>))"

definition set_job_status :: "(uuid \<Rightarrow> bool) \<Rightarrow> (job_status \<Rightarrow> bool) \<Rightarrow> job_status \<Rightarrow> db \<Rightarrow> db" where
  "set_job_status P G st d = d\<lparr>job :=
     upd_where (\<lambda>j. P (j_id j) \<and> G (j_status j)) (\<lambda>j. j\<lparr>j_status := st\<rparr>) (job d)\<rparr>"

definition close_attempts ::
  "(uuid \<Rightarrow> bool) \<Rightarrow> time \<Rightarrow> error_class \<Rightarrow> db \<Rightarrow> db" where
  "close_attempts P now ec d = d\<lparr>attempt :=
     upd_where (\<lambda>a. P (a_id a))
       (\<lambda>a. a\<lparr>a_status := AFailed, a_ended := Some now, a_error := Some ec\<rparr>) (attempt d)\<rparr>"

definition enqueue_reply :: "time \<Rightarrow> job_row \<Rightarrow> pytext \<Rightarrow> db \<Rightarrow> db" where
  "enqueue_reply now j body d =
     (let (i, d1) = new_id d in
      case (case j_inbound j of None \<Rightarrow> None | Some e \<Rightarrow> get_row ie_id e (inbound_event d1)) of
        None \<Rightarrow> d1
      | Some ie \<Rightarrow> d1\<lparr>outbound := outbound d1 @
          [\<lparr>o_id = i, o_job = j_id j, o_transport = ie_transport ie,
            o_target = reply_target (ie_envelope ie), o_body = body, o_status = OPending,
            o_provider = None, o_tries = 0, o_created_at = now\<rparr>]\<rparr>)"

text \<open>
  The result's text is one the driver can bind. A text it cannot (a NUL, a lone surrogate) raises inside
  the transaction of \<^verbatim>\<open>complete_attempt\<close> or \<^verbatim>\<open>fail_attempt\<close>, which then changes nothing; to the worker that is a
  ledger call that raises.
\<close>

definition complete_attempt :: "time \<Rightarrow> uuid \<Rightarrow> result \<Rightarrow> db \<Rightarrow> ledger_error + db" where
  "complete_attempt now aid res d = (case open_live aid d of
     None \<Rightarrow> Inl Lost_Lease
   | Some (a, j) \<Rightarrow>
       (let d1 = d\<lparr>attempt := upd_where (\<lambda>x. a_id x = aid)
                     (\<lambda>x. x\<lparr>a_status := AOk, a_ended := Some now, a_result := Some res\<rparr>) (attempt d)\<rparr>;
            d2 = dec_rc (j_repo j) 1 d1;
            d3 = d2\<lparr>job := upd_where (\<lambda>k. j_id k = a_job a \<and> live_status (j_status k))
                     (\<lambda>k. k\<lparr>j_status := JDone, j_artifact := artifact_ref res\<rparr>) (job d2)\<rparr>
        in Inr (enqueue_reply now j (res_text res) d3)))"

definition fail_route ::
  "registry \<Rightarrow> result \<Rightarrow> string \<Rightarrow> nat \<Rightarrow> job_status \<times> dead_reason option" where
  "fail_route reg res agent n_att =
     (if err_class res = Some Retryable \<and> requeue_safe reg agent
      then if n_att \<ge> MAX_ATTEMPTS then (JDead, Some (Poison_Failure n_att agent))
           else (JQueued, None)
      else if err_class res = Some Retryable then (JDead, Some (Not_Retry_Safe agent))
      else (JFailed, None))"

definition fail_attempt ::
  "registry \<Rightarrow> time \<Rightarrow> uuid \<Rightarrow> result \<Rightarrow> db \<Rightarrow> ledger_error + db" where
  "fail_attempt reg now aid res d = (case get_attempt aid d of
     None \<Rightarrow> Inl Lost_Lease
   | Some a \<Rightarrow> if a_status a \<noteq> AOpen then Inl Lost_Lease else
       (let d1 = d\<lparr>attempt := upd_where (\<lambda>x. a_id x = aid)
                     (\<lambda>x. x\<lparr>a_status := AFailed, a_result := Some res, a_error := err_class res,
                            a_ended := Some now\<rparr>) (attempt d)\<rparr>
        in case get_job (a_job a) d1 of
             None \<Rightarrow> Inl Foreign_Key_Violation
           | Some j \<Rightarrow>
               (let (st, why) = fail_route reg res (j_to_agent j) (n_attempts (a_job a) d1);
                    d2 = set_job_status (\<lambda>i. i = a_job a) live_status st d1;
                    d3 = (case why of None \<Rightarrow> d2 | Some w \<Rightarrow> dead_letter_verb now (a_job a) w d2)
                in Inr (dec_rc (j_repo j) 1 d3))))"

definition append_log :: "time \<Rightarrow> uuid \<Rightarrow> stream \<Rightarrow> pytext \<Rightarrow> db \<Rightarrow> ledger_error + db" where
  "append_log now aid st chunk d =
     (if get_attempt aid d = None then Inl Foreign_Key_Violation
      else Inr (d\<lparr>attempt_log := attempt_log d @
             [\<lparr>lg_attempt = aid, lg_ts = now, lg_stream = st, lg_chunk = chunk\<rparr>]\<rparr>))"

section \<open>Outbox\<close>

definition enqueue_outbound :: "time \<Rightarrow> uuid \<Rightarrow> pytext \<Rightarrow> db \<Rightarrow> ledger_error + (db \<times> uuid)" where
  "enqueue_outbound now i body d =
     (case get_job i d of
        None \<Rightarrow> Inl Value_Error
      | Some j \<Rightarrow>
          (case (case j_inbound j of None \<Rightarrow> None | Some e \<Rightarrow> get_row ie_id e (inbound_event d)) of
             None \<Rightarrow> Inl Value_Error
           | Some _ \<Rightarrow> Inr (enqueue_reply now j body d, next_id d)))"

definition claim_outbound ::
  "string \<Rightarrow> uuid list \<Rightarrow> db \<Rightarrow> db \<times> (uuid \<times> string \<times> pytext) option" where
  "claim_outbound tr locked d =
     (case first_by o_id (filter (\<lambda>x. o_transport x = tr \<and> o_status x = OPending
                                     \<and> o_id x \<notin> set locked) (outbound d)) of
        None \<Rightarrow> (d, None)
      | Some x \<Rightarrow>
          (d\<lparr>outbound := upd_where (\<lambda>y. o_id y = o_id x)
               (\<lambda>y. y\<lparr>o_status := OLeased, o_tries := Suc (o_tries y)\<rparr>) (outbound d)\<rparr>,
           Some (o_id x, o_target x, o_body x)))"

text \<open>
  Both delivery verbs are one guarded update under the unique index on \<open>o_provider\<close>: the
  source status is \<open>OLeased\<close> for a transport and \<open>OPending\<close> for inline delivery.
\<close>

definition mark_sent_from ::
  "outbound_status \<Rightarrow> time \<Rightarrow> uuid \<Rightarrow> string \<Rightarrow> db \<Rightarrow> db \<times> nat" where
  "mark_sent_from src now oid pid d =
     (let hit = (\<lambda>x. o_id x = oid \<and> o_status x = src) in
      if list_ex hit (outbound d)
         \<and> (\<exists>x \<in> set (outbound d). o_provider x = Some pid \<and> o_id x \<noteq> oid)
      then (dead_letter_verb now oid (Duplicate_Provider_Msg pid)
             (d\<lparr>outbound := upd_where hit (\<lambda>x. x\<lparr>o_status := OFailed\<rparr>) (outbound d)\<rparr>), 0)
      else (d\<lparr>outbound := upd_where hit (\<lambda>x. x\<lparr>o_status := OSent, o_provider := Some pid\<rparr>)
               (outbound d)\<rparr>, count_where hit (outbound d)))"

definition mark_outbound_sent :: "time \<Rightarrow> uuid \<Rightarrow> string \<Rightarrow> db \<Rightarrow> db" where
  "mark_outbound_sent now oid pid d = fst (mark_sent_from OLeased now oid pid d)"

definition mark_outbound_sent_inline :: "time \<Rightarrow> uuid \<Rightarrow> string \<Rightarrow> db \<Rightarrow> db \<times> nat" where
  "mark_outbound_sent_inline now oid pid d = mark_sent_from OPending now oid pid d"

definition mark_outbound_failed :: "time \<Rightarrow> uuid \<Rightarrow> db \<Rightarrow> db" where
  "mark_outbound_failed now oid d =
     (case List.find (\<lambda>x. o_id x = oid \<and> o_status x = OLeased) (outbound d) of
        None \<Rightarrow> d
      | Some x \<Rightarrow>
          (let st = (if o_tries x \<ge> OUTBOUND_MAX_TRIES then OFailed else OPending);
               d1 = d\<lparr>outbound := upd_where (\<lambda>y. o_id y = oid \<and> o_status y = OLeased)
                        (\<lambda>y. y\<lparr>o_status := st\<rparr>) (outbound d)\<rparr>
           in if st = OFailed then dead_letter_verb now oid Delivery_Exhausted d1 else d1))"

section \<open>Janitor and control\<close>

text \<open>An orphan is an open attempt whose job is not leased or running.\<close>

definition orphan :: "db \<Rightarrow> attempt_row \<Rightarrow> bool" where
  "orphan d a \<longleftrightarrow> a_status a = AOpen \<and>
     (case get_job (a_job a) d of None \<Rightarrow> False | Some j \<Rightarrow> \<not> live_status (j_status j))"

definition expired :: "time \<Rightarrow> db \<Rightarrow> attempt_row \<Rightarrow> bool" where
  "expired now d a \<longleftrightarrow> a_status a = AOpen \<and> a_expires a \<le> now \<and>
     (case get_job (a_job a) d of None \<Rightarrow> False | Some j \<Rightarrow> live_status (j_status j))"

definition repo_of_attempt :: "db \<Rightarrow> attempt_row \<Rightarrow> string option" where
  "repo_of_attempt d a = (case get_job (a_job a) d of None \<Rightarrow> None | Some j \<Rightarrow> j_repo j)"

definition agent_of_attempt :: "db \<Rightarrow> attempt_row \<Rightarrow> string" where
  "agent_of_attempt d a = (case get_job (a_job a) d of None \<Rightarrow> [] | Some j \<Rightarrow> j_to_agent j)"

definition unlocked :: "uuid list \<Rightarrow> attempt_row \<Rightarrow> bool" where
  "unlocked locked a \<longleftrightarrow> a_id a \<notin> set locked \<and> a_job a \<notin> set locked"

text \<open>The fate of one expired attempt's job: \<open>None\<close> is a requeue.\<close>

definition reclaim_fate :: "registry \<Rightarrow> db \<Rightarrow> attempt_row \<Rightarrow> dead_reason option" where
  "reclaim_fate reg d a =
     (if \<not> requeue_safe reg (agent_of_attempt d a) then Some Lease_Expired_Unsafe
      else if n_attempts (a_job a) d \<ge> MAX_ATTEMPTS
      then Some (Poison_Expiry (n_attempts (a_job a) d))
      else None)"

definition bury :: "registry \<Rightarrow> time \<Rightarrow> db \<Rightarrow> attempt_row \<Rightarrow> db \<Rightarrow> db" where
  "bury reg now d0 a d = (case reclaim_fate reg d0 a of
     None \<Rightarrow> d | Some why \<Rightarrow> dead_letter_verb now (a_job a) why d)"

text \<open>
  The per-repository decrements of orphans and expired leases are merged and applied in one
  ascending pass, so the verb locks \<open>repo_concurrency\<close> rows in one order.
\<close>

definition freed_repos :: "db \<Rightarrow> attempt_row list \<Rightarrow> string list" where
  "freed_repos d as = concat (map (\<lambda>a. case repo_of_attempt d a of None \<Rightarrow> [] | Some r \<Rightarrow> [r]) as)"

definition rc_lock_order :: "string list \<Rightarrow> string list" where
  "rc_lock_order rs = sort (remdups rs)"

definition apply_decs :: "string list \<Rightarrow> db \<Rightarrow> db" where
  "apply_decs rs d = fold (\<lambda>r. dec_rc (Some r) (int (count_list rs r))) (rc_lock_order rs) d"

definition reclaim_expired ::
  "registry \<Rightarrow> time \<Rightarrow> uuid list \<Rightarrow> db \<Rightarrow> db \<times> nat" where
  "reclaim_expired reg now locked d =
     (let orphans = filter (\<lambda>a. orphan d a \<and> a_id a \<notin> set locked) (attempt d);
          d1 = close_attempts (\<lambda>i. i \<in> a_id ` set orphans) now Terminal d;
          rows = take RECLAIM_BATCH (filter (\<lambda>a. expired now d1 a \<and> unlocked locked a) (attempt d1));
          d2 = close_attempts (\<lambda>i. i \<in> a_id ` set rows) now Retryable d1;
          requeue = map a_job (filter (\<lambda>a. reclaim_fate reg d2 a = None) rows);
          dead = map a_job (filter (\<lambda>a. reclaim_fate reg d2 a \<noteq> None) rows);
          d3 = set_job_status (\<lambda>i. i \<in> set requeue) live_status JQueued d2;
          d4 = set_job_status (\<lambda>i. i \<in> set dead) live_status JDead d3;
          d5 = fold (bury reg now d2) rows d4
      in (apply_decs (freed_repos d orphans @ freed_repos d1 rows) d5, length rows))"

definition reapable_attempt_ids :: "time \<Rightarrow> time \<Rightarrow> db \<Rightarrow> uuid set" where
  "reapable_attempt_ids now min_age d =
     a_id ` set (filter (\<lambda>a. a_status a \<noteq> AOpen \<and>
        (case a_ended a of None \<Rightarrow> False | Some t \<Rightarrow> t \<le> now - min_age)) (attempt d))"

definition live_repos :: "db \<Rightarrow> string list" where
  "live_repos d = remdups (freed_repos d (filter (\<lambda>a. a_status a = AOpen \<and>
      (case get_job (a_job a) d of None \<Rightarrow> False | Some j \<Rightarrow> live_status (j_status j))) (attempt d)))"

definition heal_rc :: "string \<Rightarrow> db \<Rightarrow> db" where
  "heal_rc r d = set_rc r (int (open_count r d)) (seed_rc r d)"

definition reconcile_repo_concurrency :: "time \<Rightarrow> uuid list \<Rightarrow> db \<Rightarrow> db \<times> nat" where
  "reconcile_repo_concurrency now locked d =
     (let d1 = close_attempts (\<lambda>i. i \<in> a_id ` set (filter (\<lambda>a. orphan d a \<and> a_id a \<notin> set locked)
                                       (attempt d))) now Terminal d;
          d2 = fold heal_rc (live_repos d1) d1
      in (d2\<lparr>repo_concurrency := upd_where (\<lambda>c. rc_active c \<noteq> 0 \<and> rc_repo c \<notin> set (live_repos d2))
               (\<lambda>c. c\<lparr>rc_active := 0\<rparr>) (repo_concurrency d2)\<rparr>, length (live_repos d1)))"

text \<open>
  \<^verbatim>\<open>cancel\<close> is three sequential statements in one transaction; the first reports whether it
  closed an open attempt, and the third runs only then.
\<close>

definition cancel_stmt1 :: "time \<Rightarrow> uuid \<Rightarrow> db \<Rightarrow> db \<times> bool" where
  "cancel_stmt1 now i d =
     (d\<lparr>attempt := upd_where (\<lambda>a. a_job a = i \<and> a_status a = AOpen)
          (\<lambda>a. a\<lparr>a_status := AFailed, a_ended := Some now, a_error := Some Terminal\<rparr>) (attempt d)\<rparr>,
      has_open i d)"

definition cancel_stmt2 :: "uuid \<Rightarrow> db \<Rightarrow> db" where
  "cancel_stmt2 i d = set_job_status (\<lambda>k. k = i) (\<lambda>s. s \<in> {JQueued, JLeased, JRunning}) JDead d"

definition cancel_stmt3 :: "uuid \<Rightarrow> bool \<Rightarrow> db \<Rightarrow> db" where
  "cancel_stmt3 i hit d =
     (if hit then dec_rc (case get_job i d of None \<Rightarrow> None | Some j \<Rightarrow> j_repo j) 1 d else d)"

definition cancel :: "time \<Rightarrow> uuid \<Rightarrow> db \<Rightarrow> db" where
  "cancel now i d = (let (d1, hit) = cancel_stmt1 now i d in cancel_stmt3 i hit (cancel_stmt2 i d1))"

definition active_workdirs :: "(json \<Rightarrow> string option) \<Rightarrow> db \<Rightarrow> string set" where
  "active_workdirs as_text d = set (filter (\<lambda>w. w \<noteq> []) (List.map_filter
     (\<lambda>j. if terminal_status (j_status j) then None
          else Option.bind (map_of (j_context j) ''workdir'') as_text) (job d)))"

definition count_queued :: "db \<Rightarrow> nat" where
  "count_queued d = count_where (\<lambda>j. j_status j = JQueued) (job d)"

end
