(* ===== verification/Ledger_Inv.thy ===== *)
theory Ledger_Inv
  imports Ledger
begin

text \<open>
  The core invariant of the job ledger and the lemma that carries it. Every verb that is not
  an insert or a lease only \<^emph>\<open>settles\<close> rows: it closes open attempts and moves non-terminal
  jobs to a status that is not live. One lemma shows that settling keeps the core invariant;
  the verbs then only have to be shown to settle.
\<close>

section \<open>The core invariant\<close>

definition keys_ok :: "db \<Rightarrow> bool" where
  "keys_ok d \<longleftrightarrow> distinct (map j_id (job d)) \<and> distinct (map a_id (attempt d))
     \<and> (\<forall>j \<in> set (job d). j_id j < next_id d) \<and> (\<forall>a \<in> set (attempt d). a_id a < next_id d)
     \<and> (\<forall>a \<in> set (attempt d). \<exists>j \<in> set (job d). j_id j = a_job a)"

definition one_open :: "db \<Rightarrow> bool" where
  "one_open d \<longleftrightarrow> (\<forall>a \<in> set (attempt d). \<forall>b \<in> set (attempt d).
     a_status a = AOpen \<and> a_status b = AOpen \<and> a_job a = a_job b \<longrightarrow> a = b)"

definition live_leased :: "db \<Rightarrow> bool" where
  "live_leased d \<longleftrightarrow> (\<forall>j \<in> set (job d). live_status (j_status j) \<longrightarrow> has_open (j_id j) d)"

definition cap_ok :: "int \<Rightarrow> db \<Rightarrow> bool" where
  "cap_ok cap d \<longleftrightarrow> (\<forall>r. int (open_count r d) \<le> max cap 0)"

text \<open>
  The number of attempts a job may ever have: the poison ceiling for an agent that may be
  retried, one for every other agent.
\<close>

definition attempt_limit :: "registry \<Rightarrow> job_row \<Rightarrow> nat" where
  "attempt_limit reg j = (if requeue_safe reg (j_to_agent j) then MAX_ATTEMPTS else 1)"

definition poison_ok :: "registry \<Rightarrow> db \<Rightarrow> bool" where
  "poison_ok reg d \<longleftrightarrow> (\<forall>j \<in> set (job d). n_attempts (j_id j) d \<le> attempt_limit reg j
     \<and> (j_status j = JQueued \<longrightarrow> n_attempts (j_id j) d < attempt_limit reg j))"

definition core :: "registry \<Rightarrow> int \<Rightarrow> db \<Rightarrow> bool" where
  "core reg cap d \<longleftrightarrow> keys_ok d \<and> one_open d \<and> live_leased d \<and> cap_ok cap d \<and> poison_ok reg d"

lemma coreI:
  "\<lbrakk>keys_ok d; one_open d; live_leased d; cap_ok cap d; poison_ok reg d\<rbrakk> \<Longrightarrow> core reg cap d"
  by (simp add: core_def)

lemma coreD:
  assumes "core reg cap d"
  shows "keys_ok d" "one_open d" "live_leased d" "cap_ok cap d" "poison_ok reg d"
  using assms by (simp_all add: core_def)

lemma keys_okD:
  assumes "keys_ok d"
  shows "distinct (map j_id (job d))" "distinct (map a_id (attempt d))"
    "\<And>j. j \<in> set (job d) \<Longrightarrow> j_id j < next_id d" "\<And>a. a \<in> set (attempt d) \<Longrightarrow> a_id a < next_id d"
    "\<And>a. a \<in> set (attempt d) \<Longrightarrow> \<exists>j \<in> set (job d). j_id j = a_job a"
  using assms by (auto simp: keys_ok_def)

lemma get_job_iff: "keys_ok d \<Longrightarrow> get_job i d = Some j \<longleftrightarrow> j \<in> set (job d) \<and> j_id j = i"
  by (simp add: get_job_def get_row_iff keys_okD(1))

lemma get_attempt_iff:
  "keys_ok d \<Longrightarrow> get_attempt i d = Some a \<longleftrightarrow> a \<in> set (attempt d) \<and> a_id a = i"
  by (simp add: get_attempt_def get_row_iff keys_okD(2))

lemma attempt_has_job:
  assumes "keys_ok d" "a \<in> set (attempt d)"
  obtains j where "get_job (a_job a) d = Some j"
  using assms by (metis get_job_iff keys_okD(5))

lemma job_same: "keys_ok d \<Longrightarrow> j \<in> set (job d) \<Longrightarrow> k \<in> set (job d) \<Longrightarrow> j_id j = j_id k \<Longrightarrow> j = k"
  by (rule distinct_key_eq [of j_id "job d"]) (auto simp: keys_ok_def)

lemma attempt_same:
  "keys_ok d \<Longrightarrow> a \<in> set (attempt d) \<Longrightarrow> b \<in> set (attempt d) \<Longrightarrow> a_id a = a_id b \<Longrightarrow> a = b"
  by (rule distinct_key_eq [of a_id "attempt d"]) (auto simp: keys_ok_def)

lemma open_live_iff:
  assumes "keys_ok d"
  shows "open_live aid d = Some (a, j) \<longleftrightarrow>
    a \<in> set (attempt d) \<and> a_id a = aid \<and> a_status a = AOpen \<and> j \<in> set (job d) \<and> j_id j = a_job a
    \<and> live_status (j_status j)"
proof -
  have "open_live aid d = Some (a, j) \<longleftrightarrow> get_attempt aid d = Some a \<and> a_status a = AOpen
      \<and> get_job (a_job a) d = Some j \<and> live_status (j_status j)"
    by (auto simp: open_live_def split: option.splits if_splits)
  then show ?thesis unfolding get_attempt_iff [OF assms] get_job_iff [OF assms] by blast
qed

lemma live_not_terminal [simp]: "live_status s \<Longrightarrow> \<not> terminal_status s"
  by (auto simp: live_status_def terminal_status_def)

lemma status_cases_simps [simp]:
  "\<not> live_status JQueued" "live_status JLeased" "live_status JRunning" "\<not> live_status JDone"
  "\<not> live_status JFailed" "\<not> live_status JDead"
  "\<not> terminal_status JQueued" "\<not> terminal_status JLeased" "\<not> terminal_status JRunning"
  "terminal_status JDone" "terminal_status JFailed" "terminal_status JDead"
  by (auto simp: live_status_def terminal_status_def)

section \<open>Settling\<close>

text \<open>
  \<open>settled reg f g d d'\<close>: \<open>f\<close> and \<open>g\<close> are what happened to each job and attempt row. Identity and
  every field but status and artifact are kept, a terminal job keeps its status, a changed
  status is not live, a job returns to the queue only below the poison ceiling, an attempt
  is never reopened, and the job of an attempt that closed is not live any more.
\<close>

definition job_settles :: "registry \<Rightarrow> db \<Rightarrow> job_row \<Rightarrow> job_row \<Rightarrow> bool" where
  "job_settles reg d j j' \<longleftrightarrow>
     (\<exists>st art. j' = j\<lparr>j_status := st, j_artifact := art\<rparr> \<and>
       (st = j_status j \<and> art = j_artifact j \<or> \<not> terminal_status (j_status j) \<and> \<not> live_status st) \<and>
       (st = JQueued \<longrightarrow> j_status j = JQueued \<or> n_attempts (j_id j) d < attempt_limit reg j))"

definition attempt_settles :: "attempt_row \<Rightarrow> attempt_row \<Rightarrow> bool" where
  "attempt_settles a a' \<longleftrightarrow> a_id a' = a_id a \<and> a_job a' = a_job a \<and>
     (a_status a \<noteq> AOpen \<longrightarrow> a' = a)"

definition settled :: "registry \<Rightarrow> (job_row \<Rightarrow> job_row) \<Rightarrow> (attempt_row \<Rightarrow> attempt_row) \<Rightarrow> db \<Rightarrow> db \<Rightarrow> bool" where
  "settled reg f g d d' \<longleftrightarrow> job d' = map f (job d) \<and> attempt d' = map g (attempt d)
     \<and> next_id d \<le> next_id d'
     \<and> (\<forall>j \<in> set (job d). job_settles reg d j (f j))
     \<and> (\<forall>a \<in> set (attempt d). attempt_settles a (g a))
     \<and> (\<forall>a \<in> set (attempt d). \<forall>j \<in> set (job d). a_status a = AOpen \<and> a_status (g a) \<noteq> AOpen
          \<and> j_id j = a_job a \<longrightarrow> \<not> live_status (j_status (f j)))"

definition settles :: "registry \<Rightarrow> db \<Rightarrow> db \<Rightarrow> bool" where
  "settles reg d d' \<longleftrightarrow> (\<exists>f g. settled reg f g d d')"

lemma job_settlesD:
  assumes "job_settles reg d j j'"
  shows "j_id j' = j_id j" "j_repo j' = j_repo j" "live_status (j_status j') \<Longrightarrow> j_status j' = j_status j"
    "terminal_status (j_status j) \<Longrightarrow> j' = j"
    "j_status j' = JQueued \<Longrightarrow> j_status j = JQueued \<or> n_attempts (j_id j) d < attempt_limit reg j"
    "j_parent j' = j_parent j" "j_root j' = j_root j" "j_depth j' = j_depth j"
    "j_inbound j' = j_inbound j" "j_to_agent j' = j_to_agent j" "j_body j' = j_body j"
  using assms by (auto simp: job_settles_def)

lemma job_settles_refl [simp]: "job_settles reg d j j"
  unfolding job_settles_def by (intro exI [of _ "j_status j"] exI [of _ "j_artifact j"]) simp

lemma attempt_settlesD:
  assumes "attempt_settles a a'"
  shows "a_id a' = a_id a" "a_job a' = a_job a" "a_status a' = AOpen \<Longrightarrow> a_status a = AOpen"
    "a_status a \<noteq> AOpen \<Longrightarrow> a' = a"
  using assms by (auto simp: attempt_settles_def)

lemma attempt_settles_refl [simp]: "attempt_settles a a"
  by (simp add: attempt_settles_def)

lemma settledD:
  assumes "settled reg f g d d'"
  shows "job d' = map f (job d)" "attempt d' = map g (attempt d)" "next_id d \<le> next_id d'"
    "\<And>j. j \<in> set (job d) \<Longrightarrow> job_settles reg d j (f j)"
    "\<And>a. a \<in> set (attempt d) \<Longrightarrow> attempt_settles a (g a)"
    "\<And>a j. \<lbrakk>a \<in> set (attempt d); j \<in> set (job d); a_status a = AOpen; a_status (g a) \<noteq> AOpen;
        j_id j = a_job a\<rbrakk> \<Longrightarrow> \<not> live_status (j_status (f j))"
  using assms by (auto simp: settled_def)

lemmas settled_job = job_settlesD [OF settledD(4)]

lemmas settled_attempt = attempt_settlesD [OF settledD(5)]

lemma settled_in:
  assumes "settled reg f g d d'"
  shows "j \<in> set (job d) \<Longrightarrow> f j \<in> set (job d')" "a \<in> set (attempt d) \<Longrightarrow> g a \<in> set (attempt d')"
  using settledD(1,2) [OF assms] by simp_all

lemma settles_frame:
  assumes "job d' = job d" "attempt d' = attempt d" "next_id d \<le> next_id d'"
  shows "settles reg d d'"
  unfolding settles_def settled_def using assms
  by (intro exI [of _ "\<lambda>x. x"]) auto

lemma keys_ok_images:
  "keys_ok d \<longleftrightarrow> distinct (map j_id (job d)) \<and> distinct (map a_id (attempt d))
     \<and> (\<forall>i \<in> set (map j_id (job d)). i < next_id d) \<and> (\<forall>i \<in> set (map a_id (attempt d)). i < next_id d)
     \<and> set (map a_job (attempt d)) \<subseteq> set (map j_id (job d))"
proof -
  have "set (map a_job A) \<subseteq> set (map j_id J) \<longleftrightarrow> (\<forall>a \<in> set A. \<exists>j \<in> set J. j_id j = a_job a)"
    for A :: "attempt_row list" and J :: "job_row list"
    unfolding set_map image_subset_iff by (metis image_iff)
  then show ?thesis by (simp add: keys_ok_def)
qed

lemma settled_keys:
  assumes "settled reg f g d d'" "keys_ok d"
  shows "map j_id (job d') = map j_id (job d)" "map a_id (attempt d') = map a_id (attempt d)"
    "map a_job (attempt d') = map a_job (attempt d)" "keys_ok d'"
proof -
  note D = settledD [OF assms(1)]
  show ids: "map j_id (job d') = map j_id (job d)" "map a_id (attempt d') = map a_id (attempt d)"
    "map a_job (attempt d') = map a_job (attempt d)"
    unfolding D(1,2) using settled_job(1) [OF assms(1)] settled_attempt(1,2) [OF assms(1)] by auto
  show "keys_ok d'"
    using assms(2) D(3) unfolding keys_ok_images ids by (meson less_le_trans)
qed

lemma settled_get_job:
  assumes "settled reg f g d d'" "keys_ok d"
  shows "get_job i d' = map_option f (get_job i d)"
proof (cases "get_job i d")
  case None
  then have "i \<notin> set (map j_id (job d))" by (auto simp: get_job_def get_row_None)
  then have "i \<notin> set (map j_id (job d'))" unfolding settled_keys(1) [OF assms] .
  then have "get_job i d' = None" by (auto simp: get_job_def get_row_None)
  with None show ?thesis by simp
next
  case (Some j)
  then have j: "j \<in> set (job d)" "j_id j = i" using assms(2) by (auto simp: get_job_iff)
  then have "get_job i d' = Some (f j)"
    using settled_job(1) [OF assms(1) j(1)] settled_in(1) [OF assms(1) j(1)] settled_keys(4) [OF assms] by (simp add: get_job_iff)
  with Some show ?thesis by simp
qed

lemma settled_n_attempts:
  assumes "settled reg f g d d'"
  shows "n_attempts i d' = n_attempts i d"
  unfolding n_attempts_def settledD(2) [OF assms]
  by (intro count_where_map_eq) (simp add: settled_attempt(2) [OF assms])

lemma settled_open_count:
  assumes "settled reg f g d d'" "keys_ok d"
  shows "open_count r d' \<le> open_count r d"
  unfolding open_count_def settledD(2) [OF assms(1)]
proof (rule count_where_map_mono)
  fix a assume a: "a \<in> set (attempt d)" and c: "counts_for r d' (g a)"
  obtain j where j: "get_job (a_job a) d = Some j" using attempt_has_job [OF assms(2) a] .
  then have jin: "j \<in> set (job d)" using assms(2) by (simp add: get_job_iff)
  have "get_job (a_job (g a)) d' = Some (f j)"
    using j settled_get_job [OF assms] settled_attempt(2) [OF assms(1) a] by simp
  with c have "a_status (g a) = AOpen" "j_repo (f j) = Some r" "live_status (j_status (f j))"
    by (auto simp: counts_for_def)
  then show "counts_for r d a"
    using j settled_attempt(3) [OF assms(1) a] settled_job(2,3) [OF assms(1) jin]
    by (simp add: counts_for_def)
qed

lemma settled_one_open:
  assumes "settled reg f g d d'" "one_open d"
  shows "one_open d'"
  unfolding one_open_def
proof (intro ballI impI, elim conjE)
  fix x y assume xy: "x \<in> set (attempt d')" "y \<in> set (attempt d')"
    "a_status x = AOpen" "a_status y = AOpen" "a_job x = a_job y"
  then obtain a b where ab: "a \<in> set (attempt d)" "x = g a" "b \<in> set (attempt d)" "y = g b"
    using settledD(2) [OF assms(1)] by auto
  then have "a = b"
    using assms(2) xy settled_attempt(2,3) [OF assms(1)] unfolding one_open_def by metis
  with ab show "x = y" by simp
qed

lemma settled_poison:
  assumes "settled reg f g d d'" "poison_ok reg d"
  shows "poison_ok reg d'"
  unfolding poison_ok_def settled_n_attempts [OF assms(1)]
proof
  fix x assume "x \<in> set (job d')"
  then obtain j where j: "j \<in> set (job d)" "x = f j" using settledD(1) [OF assms(1)] by auto
  then have "attempt_limit reg x = attempt_limit reg j"
    using settled_job(10) [OF assms(1) j(1)] by (simp add: attempt_limit_def)
  with j show "n_attempts (j_id x) d \<le> attempt_limit reg x \<and>
      (j_status x = JQueued \<longrightarrow> n_attempts (j_id x) d < attempt_limit reg x)"
    using assms(2) settled_job(1,5) [OF assms(1) j(1)] by (auto simp: poison_ok_def)
qed

lemma settled_live_leased:
  assumes "settled reg f g d d'" "live_leased d"
  shows "live_leased d'"
  unfolding live_leased_def
proof (intro ballI impI)
  fix j' assume "j' \<in> set (job d')" "live_status (j_status j')"
  then obtain j where j: "j \<in> set (job d)" "j' = f j" "live_status (j_status (f j))"
    using settledD(1) [OF assms(1)] by auto
  then have "has_open (j_id j) d"
    using assms(2) settled_job(3) [OF assms(1) j(1)] by (simp add: live_leased_def)
  then obtain a where a: "a \<in> set (attempt d)" "a_job a = j_id j" "a_status a = AOpen"
    by (auto simp: has_open_def)
  then have "a_status (g a) = AOpen"
    using settledD(6) [OF assms(1) a(1) j(1) a(3)] j(3) by auto
  then show "has_open (j_id j') d'"
    using a(2) settled_attempt(2) [OF assms(1) a(1)] settled_in(2) [OF assms(1) a(1)] j(2) settled_job(1) [OF assms(1) j(1)]
    by (auto simp: has_open_def)
qed

lemma settled_core:
  assumes "settled reg f g d d'" "core reg cap d"
  shows "core reg cap d'"
proof (rule coreI)
  note C = coreD [OF assms(2)]
  show "keys_ok d'" by (rule settled_keys(4) [OF assms(1) C(1)])
  show "one_open d'" by (rule settled_one_open [OF assms(1) C(2)])
  show "live_leased d'" by (rule settled_live_leased [OF assms(1) C(3)])
  show "poison_ok reg d'" by (rule settled_poison [OF assms(1) C(5)])
  show "cap_ok cap d'"
    using C(4) settled_open_count [OF assms(1) C(1)] unfolding cap_ok_def
    by (metis of_nat_le_iff order_trans)
qed

lemma settles_core: "settles reg d d' \<Longrightarrow> core reg cap d \<Longrightarrow> core reg cap d'"
  by (auto simp: settles_def intro: settled_core)

end
