(* ===== verification/Ledger_Verbs.thy ===== *)
theory Ledger_Verbs
  imports Ledger_Inv
begin

text \<open>
  What each verb does to the job and attempt tables, and that each keeps the core invariant:
  frame facts for the statements that touch other tables, settling lemmas for the closing
  verbs, direct lemmas for the two verbs that insert (submission and lease).
\<close>

section \<open>Frame facts\<close>

lemma new_id_simps [simp]:
  "fst (new_id d) = next_id d" "job (snd (new_id d)) = job d" "attempt (snd (new_id d)) = attempt d"
  "next_id (snd (new_id d)) = Suc (next_id d)" "repo_concurrency (snd (new_id d)) = repo_concurrency d"
  "outbound (snd (new_id d)) = outbound d" "inbound_event (snd (new_id d)) = inbound_event d"
  "dead_letter (snd (new_id d)) = dead_letter d"
  by (simp_all add: new_id_def)

lemma dead_letter_frame [simp]:
  "job (dead_letter_verb now s w d) = job d" "attempt (dead_letter_verb now s w d) = attempt d"
  "next_id (dead_letter_verb now s w d) = Suc (next_id d)"
  "repo_concurrency (dead_letter_verb now s w d) = repo_concurrency d"
  "outbound (dead_letter_verb now s w d) = outbound d"
  "inbound_event (dead_letter_verb now s w d) = inbound_event d"
  by (simp_all add: dead_letter_verb_def new_id_def)

lemma dec_rc_frame [simp]:
  "job (dec_rc ro n d) = job d" "attempt (dec_rc ro n d) = attempt d"
  "next_id (dec_rc ro n d) = next_id d" "outbound (dec_rc ro n d) = outbound d"
  "inbound_event (dec_rc ro n d) = inbound_event d" "dead_letter (dec_rc ro n d) = dead_letter d"
  by (simp_all add: dec_rc_def split: option.splits)

lemma set_rc_frame [simp]:
  "job (set_rc r n d) = job d" "attempt (set_rc r n d) = attempt d"
  "next_id (set_rc r n d) = next_id d" "outbound (set_rc r n d) = outbound d"
  "inbound_event (set_rc r n d) = inbound_event d"
  by (simp_all add: set_rc_def)

lemma seed_rc_frame [simp]:
  "job (seed_rc r d) = job d" "attempt (seed_rc r d) = attempt d"
  "next_id (seed_rc r d) = next_id d" "outbound (seed_rc r d) = outbound d"
  "inbound_event (seed_rc r d) = inbound_event d"
  by (simp_all add: seed_rc_def split: option.splits)

lemma enqueue_reply_frame [simp]:
  "job (enqueue_reply now j b d) = job d" "attempt (enqueue_reply now j b d) = attempt d"
  "next_id (enqueue_reply now j b d) = Suc (next_id d)"
  "repo_concurrency (enqueue_reply now j b d) = repo_concurrency d"
  "inbound_event (enqueue_reply now j b d) = inbound_event d"
  by (simp_all add: enqueue_reply_def new_id_def split: option.splits)

lemma set_job_status_frame [simp]:
  "attempt (set_job_status P G st d) = attempt d" "next_id (set_job_status P G st d) = next_id d"
  "repo_concurrency (set_job_status P G st d) = repo_concurrency d"
  "outbound (set_job_status P G st d) = outbound d"
  "inbound_event (set_job_status P G st d) = inbound_event d"
  by (simp_all add: set_job_status_def)

lemma close_attempts_frame [simp]:
  "job (close_attempts P now e d) = job d" "next_id (close_attempts P now e d) = next_id d"
  "repo_concurrency (close_attempts P now e d) = repo_concurrency d"
  "outbound (close_attempts P now e d) = outbound d"
  "inbound_event (close_attempts P now e d) = inbound_event d"
  by (simp_all add: close_attempts_def)

lemma apply_decs_frame [simp]:
  "job (apply_decs rs d) = job d" "attempt (apply_decs rs d) = attempt d"
  "next_id (apply_decs rs d) = next_id d" "outbound (apply_decs rs d) = outbound d"
  "inbound_event (apply_decs rs d) = inbound_event d"
proof -
  have "job (fold (\<lambda>r. dec_rc (Some r) (m r)) xs d) = job d
      \<and> attempt (fold (\<lambda>r. dec_rc (Some r) (m r)) xs d) = attempt d
      \<and> next_id (fold (\<lambda>r. dec_rc (Some r) (m r)) xs d) = next_id d
      \<and> outbound (fold (\<lambda>r. dec_rc (Some r) (m r)) xs d) = outbound d
      \<and> inbound_event (fold (\<lambda>r. dec_rc (Some r) (m r)) xs d) = inbound_event d" for m xs
    by (induction xs arbitrary: d) simp_all
  then show "job (apply_decs rs d) = job d" "attempt (apply_decs rs d) = attempt d"
    "next_id (apply_decs rs d) = next_id d" "outbound (apply_decs rs d) = outbound d"
    "inbound_event (apply_decs rs d) = inbound_event d"
    by (simp_all add: apply_decs_def)
qed

lemma bury_fold_frame [simp]:
  "job (fold (bury reg now e) rows d) = job d" "attempt (fold (bury reg now e) rows d) = attempt d"
  "next_id d \<le> next_id (fold (bury reg now e) rows d)"
  "repo_concurrency (fold (bury reg now e) rows d) = repo_concurrency d"
  "outbound (fold (bury reg now e) rows d) = outbound d"
  "inbound_event (fold (bury reg now e) rows d) = inbound_event d"
proof -
  have "job (fold (bury reg now e) rows d) = job d \<and> attempt (fold (bury reg now e) rows d) = attempt d
     \<and> next_id d \<le> next_id (fold (bury reg now e) rows d)
     \<and> repo_concurrency (fold (bury reg now e) rows d) = repo_concurrency d
     \<and> outbound (fold (bury reg now e) rows d) = outbound d
     \<and> inbound_event (fold (bury reg now e) rows d) = inbound_event d"
  proof (induction rows arbitrary: d)
    case (Cons a rows)
    have "next_id d \<le> next_id (bury reg now e a d)"
      by (simp add: bury_def split: option.splits)
    with Cons [of "bury reg now e a d"] show ?case
      by (auto simp: bury_def split: option.splits)
  qed simp
  then show "job (fold (bury reg now e) rows d) = job d"
    "attempt (fold (bury reg now e) rows d) = attempt d"
    "next_id d \<le> next_id (fold (bury reg now e) rows d)"
    "repo_concurrency (fold (bury reg now e) rows d) = repo_concurrency d"
    "outbound (fold (bury reg now e) rows d) = outbound d"
    "inbound_event (fold (bury reg now e) rows d) = inbound_event d"
    by blast+
qed

lemma open_count_frame:
  "job d' = job d \<Longrightarrow> attempt d' = attempt d \<Longrightarrow> open_count r d' = open_count r d"
  unfolding open_count_def counts_for_def [abs_def] get_job_def by simp

lemma get_job_frame: "job d' = job d \<Longrightarrow> get_job i d' = get_job i d"
  by (simp add: get_job_def)

lemma get_job_close [simp]: "get_job i (close_attempts P now e d) = get_job i d"
  by (simp add: get_job_def)

lemma n_attempts_close [simp]: "n_attempts i (close_attempts P now e d) = n_attempts i d"
  by (simp add: n_attempts_def close_attempts_def) (rule count_where_upd_eq, simp)

section \<open>The closing verbs settle\<close>

text \<open>
  The common shape: the open attempts that satisfy \<open>C\<close> close, and the live or queued jobs that
  satisfy \<open>P\<close> move to \<open>st\<close>.
\<close>

lemma settledI:
  assumes "job d' = map f (job d)" "attempt d' = map g (attempt d)" "next_id d \<le> next_id d'"
    and "\<And>j. j \<in> set (job d) \<Longrightarrow> job_settles reg d j (f j)"
    and "\<And>a. a \<in> set (attempt d) \<Longrightarrow> attempt_settles a (g a)"
    and "\<And>a j. \<lbrakk>a \<in> set (attempt d); j \<in> set (job d); a_status a = AOpen; a_status (g a) \<noteq> AOpen;
        j_id j = a_job a\<rbrakk> \<Longrightarrow> \<not> live_status (j_status (f j))"
  shows "settled reg f g d d'"
  using assms by (auto simp: settled_def)

lemma job_settlesI:
  assumes "\<not> terminal_status (j_status j)" "\<not> live_status st"
    "st = JQueued \<Longrightarrow> n_attempts (j_id j) d < attempt_limit reg j"
  shows "job_settles reg d j (j\<lparr>j_status := st, j_artifact := art\<rparr>)"
    "job_settles reg d j (j\<lparr>j_status := st\<rparr>)"
proof -
  show "job_settles reg d j (j\<lparr>j_status := st, j_artifact := art\<rparr>)"
    unfolding job_settles_def using assms by (intro exI [of _ st] exI [of _ art]) auto
  show "job_settles reg d j (j\<lparr>j_status := st\<rparr>)"
    unfolding job_settles_def using assms by (intro exI [of _ st] exI [of _ "j_artifact j"]) auto
qed

lemma heartbeat_settles:
  assumes "keys_ok d" "heartbeat_attempt now aid d = Inr d'"
  shows "settles reg d d'"
proof -
  from assms obtain a j where aj: "open_live aid d = Some (a, j)"
    and d': "d' = d\<lparr>attempt := upd_where (\<lambda>a. a_id a = aid)
       (\<lambda>a. a\<lparr>a_expires := now + HEARTBEAT_SECONDS\<rparr>) (attempt d)\<rparr>"
    by (auto simp: heartbeat_attempt_def split: option.splits)
  have "\<And>x. x \<in> set (attempt d) \<Longrightarrow> a_id x = aid \<Longrightarrow> a_status x = AOpen"
    using aj assms(1) by (metis open_live_iff attempt_same)
  then have "settled reg (\<lambda>j. j) (\<lambda>x. if a_id x = aid then x\<lparr>a_expires := now + HEARTBEAT_SECONDS\<rparr> else x) d d'"
    by (intro settledI) (auto simp: d' upd_where_def attempt_settles_def split: if_splits)
  then show ?thesis by (auto simp: settles_def)
qed

lemma open_live_unique:
  assumes "keys_ok d" "open_live aid d = Some (a, j)"
  shows "\<And>x. x \<in> set (attempt d) \<Longrightarrow> a_id x = aid \<longleftrightarrow> x = a"
    "\<And>k. k \<in> set (job d) \<Longrightarrow> j_id k = a_job a \<longleftrightarrow> k = j"
  using assms by (metis open_live_iff attempt_same, metis open_live_iff job_same)

lemma complete_settled:
  assumes "keys_ok d" "open_live aid d = Some (a, j)" "complete_attempt now aid res d = Inr d'"
  shows "settled reg (\<lambda>k. if j_id k = a_job a \<and> live_status (j_status k)
                     then k\<lparr>j_status := JDone, j_artifact := artifact_ref res\<rparr> else k)
     (\<lambda>x. if a_id x = aid then x\<lparr>a_status := AOk, a_ended := Some now, a_result := Some res\<rparr> else x) d d'"
proof (rule settledI)
  from assms(2,3) show "job d' = map (\<lambda>k. if j_id k = a_job a \<and> live_status (j_status k)
        then k\<lparr>j_status := JDone, j_artifact := artifact_ref res\<rparr> else k) (job d)"
    and "attempt d' = map (\<lambda>x. if a_id x = aid
        then x\<lparr>a_status := AOk, a_ended := Some now, a_result := Some res\<rparr> else x) (attempt d)"
    and "next_id d \<le> next_id d'"
    by (auto simp: complete_attempt_def Let_def upd_where_def)
qed (use assms(1,2) open_live_unique [OF assms(1,2)] in
      \<open>auto simp: attempt_settles_def open_live_iff intro: job_settlesI(1) split: if_splits\<close>)

lemma fail_route_simps:
  assumes "fail_route reg res ag n = (st, why)"
  shows "\<not> live_status st" "st = JQueued \<Longrightarrow> requeue_safe reg ag \<and> n < MAX_ATTEMPTS" "why \<noteq> None \<longleftrightarrow> st = JDead"
  using assms by (auto simp: fail_route_def split: if_splits)

definition fail_row :: "time \<Rightarrow> result \<Rightarrow> attempt_row \<Rightarrow> attempt_row" where
  "fail_row now res x = x\<lparr>a_status := AFailed, a_result := Some res, a_error := err_class res,
     a_ended := Some now\<rparr>"

lemma fail_attempt_shape:
  assumes "fail_attempt reg now aid res d = Inr d'"
  obtains a j st why where "get_attempt aid d = Some a" "a_status a = AOpen"
    "get_job (a_job a) d = Some j"
    "fail_route reg res (j_to_agent j) (n_attempts (a_job a) d) = (st, why)"
    "job d' = map (\<lambda>k. if j_id k = a_job a \<and> live_status (j_status k) then k\<lparr>j_status := st\<rparr> else k) (job d)"
    "attempt d' = map (\<lambda>x. if a_id x = aid then fail_row now res x else x) (attempt d)"
    "next_id d \<le> next_id d'"
    "d' = dec_rc (j_repo j) 1 (case why of
       None \<Rightarrow> set_job_status (\<lambda>i. i = a_job a) live_status st
                (d\<lparr>attempt := upd_where (\<lambda>x. a_id x = aid) (fail_row now res) (attempt d)\<rparr>)
     | Some w \<Rightarrow> dead_letter_verb now (a_job a) w (set_job_status (\<lambda>i. i = a_job a) live_status st
                (d\<lparr>attempt := upd_where (\<lambda>x. a_id x = aid) (fail_row now res) (attempt d)\<rparr>)))"
proof -
  define d1 where "d1 = d\<lparr>attempt := upd_where (\<lambda>x. a_id x = aid) (fail_row now res) (attempt d)\<rparr>"
  obtain a where a: "get_attempt aid d = Some a"
    using assms by (auto simp: fail_attempt_def split: option.splits)
  have ao: "a_status a = AOpen"
    using assms a by (auto simp: fail_attempt_def split: if_splits)
  have d1: "fail_attempt reg now aid res d = (case get_job (a_job a) d1 of
       None \<Rightarrow> Inl Foreign_Key_Violation
     | Some j \<Rightarrow> (let (st, why) = fail_route reg res (j_to_agent j) (n_attempts (a_job a) d1);
          d2 = set_job_status (\<lambda>i. i = a_job a) live_status st d1;
          d3 = (case why of None \<Rightarrow> d2 | Some w \<Rightarrow> dead_letter_verb now (a_job a) w d2)
        in Inr (dec_rc (j_repo j) 1 d3)))"
    using a ao unfolding d1_def fail_row_def [abs_def] by (simp add: fail_attempt_def Let_def)
  have n: "n_attempts i d1 = n_attempts i d" for i
    unfolding n_attempts_def d1_def by (simp, rule count_where_upd_eq) (simp add: fail_row_def)
  obtain j where j: "get_job (a_job a) d1 = Some j"
    using assms unfolding d1 by (auto split: option.splits)
  obtain st why where r: "fail_route reg res (j_to_agent j) (n_attempts (a_job a) d) = (st, why)"
    by fastforce
  have d': "d' = dec_rc (j_repo j) 1 (case why of
       None \<Rightarrow> set_job_status (\<lambda>i. i = a_job a) live_status st d1
     | Some w \<Rightarrow> dead_letter_verb now (a_job a) w (set_job_status (\<lambda>i. i = a_job a) live_status st d1))"
    using assms j r unfolding d1 n by (simp add: Let_def)
  show thesis
  proof (rule that [OF a ao _ r])
    show "get_job (a_job a) d = Some j" using j by (simp add: get_job_def d1_def)
    show "d' = dec_rc (j_repo j) 1 (case why of
       None \<Rightarrow> set_job_status (\<lambda>i. i = a_job a) live_status st
                (d\<lparr>attempt := upd_where (\<lambda>x. a_id x = aid) (fail_row now res) (attempt d)\<rparr>)
     | Some w \<Rightarrow> dead_letter_verb now (a_job a) w (set_job_status (\<lambda>i. i = a_job a) live_status st
                (d\<lparr>attempt := upd_where (\<lambda>x. a_id x = aid) (fail_row now res) (attempt d)\<rparr>)))"
      using d' unfolding d1_def .
  qed (simp_all add: d' set_job_status_def d1_def upd_where_def split: option.split)
qed

lemma fail_settled:
  assumes "keys_ok d" and a: "get_attempt aid d = Some a" "a_status a = AOpen"
    and j: "get_job (a_job a) d = Some j"
    and r: "fail_route reg res (j_to_agent j) (n_attempts (a_job a) d) = (st, why)"
    and d': "job d' = map (\<lambda>k. if j_id k = a_job a \<and> live_status (j_status k) then k\<lparr>j_status := st\<rparr> else k) (job d)"
      "attempt d' = map (\<lambda>x. if a_id x = aid then fail_row now res x else x) (attempt d)"
      "next_id d \<le> next_id d'"
  shows "settled reg (\<lambda>k. if j_id k = a_job a \<and> live_status (j_status k) then k\<lparr>j_status := st\<rparr> else k)
      (\<lambda>x. if a_id x = aid then fail_row now res x else x) d d'"
proof (rule settledI [OF d'])
  have ua: "\<And>x. x \<in> set (attempt d) \<Longrightarrow> a_id x = aid \<longleftrightarrow> x = a"
    using a(1) assms(1) by (metis get_attempt_iff attempt_same)
  note R = fail_route_simps [OF r]
  have uj: "\<And>k. k \<in> set (job d) \<Longrightarrow> j_id k = a_job a \<Longrightarrow> k = j"
    using j assms(1) by (metis get_job_iff job_same)
  show "job_settles reg d k (if j_id k = a_job a \<and> live_status (j_status k) then k\<lparr>j_status := st\<rparr> else k)"
    if k: "k \<in> set (job d)" for k
    using R uj [OF k] by (auto simp: attempt_limit_def intro: job_settlesI)
  fix x assume x: "x \<in> set (attempt d)"
  show "attempt_settles x (if a_id x = aid then fail_row now res x else x)"
    using ua [OF x] a(2) by (auto simp: fail_row_def attempt_settles_def)
  fix k assume "k \<in> set (job d)" "j_id k = a_job x" "a_status x = AOpen"
    "a_status (if a_id x = aid then fail_row now res x else x) \<noteq> AOpen"
  with ua [OF x] R(1) show "\<not> live_status (j_status (if j_id k = a_job a \<and> live_status (j_status k)
      then k\<lparr>j_status := st\<rparr> else k))"
    by (auto split: if_splits)
qed

lemma fail_settles:
  assumes "keys_ok d" "fail_attempt reg now aid res d = Inr d'"
  shows "settles reg d d'"
  unfolding settles_def by (rule fail_attempt_shape [OF assms(2)]) (intro exI, rule fail_settled [OF assms(1)])

lemma cancel_settled:
  "settled reg (\<lambda>k. if j_id k = i \<and> j_status k \<in> {JQueued, JLeased, JRunning}
                    then k\<lparr>j_status := JDead\<rparr> else k)
     (\<lambda>a. if a_job a = i \<and> a_status a = AOpen
          then a\<lparr>a_status := AFailed, a_ended := Some now, a_error := Some Terminal\<rparr> else a) d (cancel now i d)"
  by (rule settledI) (auto simp: cancel_def cancel_stmt1_def cancel_stmt2_def cancel_stmt3_def
        set_job_status_def upd_where_def attempt_settles_def live_status_def
        intro!: job_settlesI split: if_splits)

lemma cancel_settles: "settles reg d (cancel now i d)"
  unfolding settles_def by (intro exI, rule cancel_settled)

lemma cancel_late_settles: "settles reg d (cancel_stmt2 i d)"
proof -
  have "settled reg (\<lambda>k. if j_id k = i \<and> j_status k \<in> {JQueued, JLeased, JRunning}
                    then k\<lparr>j_status := JDead\<rparr> else k) (\<lambda>a. a) d (cancel_stmt2 i d)"
    by (rule settledI) (auto simp: cancel_stmt2_def set_job_status_def upd_where_def
        intro!: job_settlesI)
  then show ?thesis by (auto simp: settles_def)
qed

end
