(* ===== verification/Ledger_Steps.thy ===== *)
theory Ledger_Steps
  imports Ledger_Verbs
begin

text \<open>
  The janitor verbs, the lease and the submission keep the core invariant; the step relation
  of the ledger, whose steps are the transactions of any number of workers, transports,
  controllers and janitors in any order, including the racing form of \<^verbatim>\<open>cancel\<close>.
\<close>

section \<open>Reclaim and reconcile\<close>

lemma close_orphans_settles:
  assumes "keys_ok d" "\<And>a. a \<in> set (attempt d) \<Longrightarrow> P (a_id a) \<Longrightarrow> orphan d a"
  shows "settles reg d (close_attempts P now e d)"
proof -
  have "settled reg (\<lambda>j. j) (\<lambda>a. if P (a_id a) then a\<lparr>a_status := AFailed, a_ended := Some now, a_error := Some e\<rparr> else a)
     d (close_attempts P now e d)"
  proof (rule settledI)
    fix a j
    assume a: "a \<in> set (attempt d)" "j \<in> set (job d)" "j_id j = a_job a"
      "a_status (if P (a_id a) then a\<lparr>a_status := AFailed, a_ended := Some now, a_error := Some e\<rparr> else a) \<noteq> AOpen"
      "a_status a = AOpen"
    then have "orphan d a" using assms(2) by (auto split: if_splits)
    moreover have "get_job (a_job a) d = Some j" using a(2,3) assms(1) by (simp add: get_job_iff)
    ultimately show "\<not> live_status (j_status j)" by (simp add: orphan_def)
  qed (use assms in \<open>auto simp: close_attempts_def upd_where_def attempt_settles_def orphan_def\<close>)
  then show ?thesis by (auto simp: settles_def)
qed

lemma orphans_pick:
  assumes "keys_ok d" "a \<in> set (attempt d)"
    "a_id a \<in> a_id ` set (filter (\<lambda>a. orphan d a \<and> a_id a \<notin> set locked) (attempt d))"
  shows "orphan d a" "a_id a \<notin> set locked"
  using assms attempt_same by fastforce+

lemma expired_live:
  assumes "keys_ok d" "expired now d a" "a \<in> set (attempt d)"
  obtains j where "j \<in> set (job d)" "j_id j = a_job a" "live_status (j_status j)" "a_status a = AOpen"
  using assms by (auto simp: expired_def get_job_iff split: option.splits)

definition reclaim_jobs :: "registry \<Rightarrow> db \<Rightarrow> attempt_row list \<Rightarrow> db \<Rightarrow> db" where
  "reclaim_jobs reg d2 rows d =
     set_job_status (\<lambda>i. i \<in> set (map a_job (filter (\<lambda>a. reclaim_fate reg d2 a \<noteq> None) rows)))
       live_status JDead
       (set_job_status (\<lambda>i. i \<in> set (map a_job (filter (\<lambda>a. reclaim_fate reg d2 a = None) rows)))
          live_status JQueued d)"

definition reclaim_job_row :: "registry \<Rightarrow> db \<Rightarrow> attempt_row list \<Rightarrow> job_row \<Rightarrow> job_row" where
  "reclaim_job_row reg d2 rows j =
     (if \<not> live_status (j_status j) then j
      else if \<exists>a \<in> set rows. a_job a = j_id j \<and> reclaim_fate reg d2 a = None
      then j\<lparr>j_status := JQueued\<rparr>
      else if \<exists>a \<in> set rows. a_job a = j_id j \<and> reclaim_fate reg d2 a \<noteq> None
      then j\<lparr>j_status := JDead\<rparr> else j)"

lemma set_job_status_job:
  "job (set_job_status P G st d)
     = map (\<lambda>j. if P (j_id j) \<and> G (j_status j) then j\<lparr>j_status := st\<rparr> else j) (job d)"
  by (simp add: set_job_status_def upd_where_def)

lemma in_job_filter:
  "i \<in> set (map a_job (filter P rows)) \<longleftrightarrow> (\<exists>a \<in> set rows. a_job a = i \<and> P a)"
  by auto

lemma reclaim_jobs_map: "job (reclaim_jobs reg d2 rows d) = map (reclaim_job_row reg d2 rows) (job d)"
proof -
  have two: "(if Q (j_id k) \<and> live_status (j_status k) then k\<lparr>j_status := JDead\<rparr> else k)
      = (if \<not> live_status (j_status j) then j
         else if P (j_id j) then j\<lparr>j_status := JQueued\<rparr>
         else if Q (j_id j) then j\<lparr>j_status := JDead\<rparr> else j)"
    if "k = (if P (j_id j) \<and> live_status (j_status j) then j\<lparr>j_status := JQueued\<rparr> else j)"
    for P Q and j k :: job_row
    using that by (cases "live_status (j_status j)"; cases "P (j_id j)") simp_all
  show ?thesis
    unfolding reclaim_jobs_def set_job_status_job in_job_filter map_map comp_def reclaim_job_row_def
    by (rule map_cong [OF refl], rule two, rule refl)
qed

lemma reclaim_expired_unfold:
  "reclaim_expired reg now locked d =
     (let orphans = filter (\<lambda>a. orphan d a \<and> a_id a \<notin> set locked) (attempt d);
          d1 = close_attempts (\<lambda>i. i \<in> a_id ` set orphans) now Terminal d;
          rows = take RECLAIM_BATCH (filter (\<lambda>a. expired now d1 a \<and> unlocked locked a) (attempt d1));
          d2 = close_attempts (\<lambda>i. i \<in> a_id ` set rows) now Retryable d1
      in (apply_decs (freed_repos d orphans @ freed_repos d1 rows)
            (fold (bury reg now d2) rows (reclaim_jobs reg d2 rows d2)), length rows))"
  by (simp only: reclaim_expired_def reclaim_jobs_def Let_def)

lemma job_settles_if:
  assumes "A \<Longrightarrow> n_attempts (j_id j) d < attempt_limit reg j"
  shows "job_settles reg d j (if \<not> live_status (j_status j) then j
     else if A then j\<lparr>j_status := JQueued\<rparr> else if B then j\<lparr>j_status := JDead\<rparr> else j)"
  using assms by (auto intro: job_settlesI(2))

lemma reclaim_phase_settles:
  assumes "keys_ok d1" and rows: "set rows \<subseteq> {a \<in> set (attempt d1). expired now d1 a}"
    and d2: "d2 = close_attempts (\<lambda>i. i \<in> a_id ` set rows) now Retryable d1"
    and d': "job d' = map (reclaim_job_row reg d2 rows) (job d1)" "attempt d' = attempt d2"
      "next_id d1 \<le> next_id d'"
  shows "settled reg (reclaim_job_row reg d2 rows)
     (\<lambda>a. if a_id a \<in> a_id ` set rows
          then a\<lparr>a_status := AFailed, a_ended := Some now, a_error := Some Retryable\<rparr> else a) d1 d'"
proof (rule settledI)
  have row: "a \<in> set rows" if "a \<in> set (attempt d1)" "a_id a \<in> a_id ` set rows" for a
    using that rows attempt_same [OF assms(1)] by blast
  show "job d' = map (reclaim_job_row reg d2 rows) (job d1)" by (rule d'(1))
  show "attempt d' = map (\<lambda>a. if a_id a \<in> a_id ` set rows
      then a\<lparr>a_status := AFailed, a_ended := Some now, a_error := Some Retryable\<rparr> else a) (attempt d1)"
    by (simp add: d'(2) d2 close_attempts_def upd_where_def)
  show "next_id d1 \<le> next_id d'" by (rule d'(3))
  show "job_settles reg d1 j (reclaim_job_row reg d2 rows j)" if j: "j \<in> set (job d1)" for j
  proof -
    have n: "n_attempts (j_id j) d1 < attempt_limit reg j"
      if "\<exists>a \<in> set rows. a_job a = j_id j \<and> reclaim_fate reg d2 a = None"
    proof -
      from that obtain a where "a_job a = j_id j" "reclaim_fate reg d2 a = None" by blast
      moreover have "get_job (j_id j) d1 = Some j" using j assms(1) by (simp add: get_job_iff)
      ultimately show ?thesis
        by (auto simp: reclaim_fate_def agent_of_attempt_def attempt_limit_def d2 split: if_splits)
    qed
    show ?thesis
      unfolding reclaim_job_row_def by (rule job_settles_if) (rule n)
  qed
  fix a assume a: "a \<in> set (attempt d1)"
  have "a_status a = AOpen" if "a_id a \<in> a_id ` set rows"
    using row [OF a that] rows by (auto simp: expired_def)
  then show "attempt_settles a (if a_id a \<in> a_id ` set rows
      then a\<lparr>a_status := AFailed, a_ended := Some now, a_error := Some Retryable\<rparr> else a)"
    by (auto simp: attempt_settles_def)
  fix j
  assume "j \<in> set (job d1)" "a_status a = AOpen" "j_id j = a_job a"
    "a_status (if a_id a \<in> a_id ` set rows
      then a\<lparr>a_status := AFailed, a_ended := Some now, a_error := Some Retryable\<rparr> else a) \<noteq> AOpen"
  then have "a \<in> set rows" using row [OF a] by (auto split: if_splits)
  then show "\<not> live_status (j_status (reclaim_job_row reg d2 rows j))"
    using \<open>j_id j = a_job a\<close> by (auto simp: reclaim_job_row_def)
qed

text \<open>The stages of \<open>reclaim_expired\<close>.\<close>

lemma reclaim_stages:
  assumes "keys_ok d" "reclaim_expired reg now locked d = (d', n)"
  obtains d1 d2 rows orphans where
    "orphans = filter (\<lambda>a. orphan d a \<and> a_id a \<notin> set locked) (attempt d)"
    "d1 = close_attempts (\<lambda>i. i \<in> a_id ` set orphans) now Terminal d"
    "rows = take RECLAIM_BATCH (filter (\<lambda>a. expired now d1 a \<and> unlocked locked a) (attempt d1))"
    "d2 = close_attempts (\<lambda>i. i \<in> a_id ` set rows) now Retryable d1"
    "settles reg d d1" "keys_ok d1" "n = length rows"
    "settled reg (reclaim_job_row reg d2 rows)
       (\<lambda>a. if a_id a \<in> a_id ` set rows
            then a\<lparr>a_status := AFailed, a_ended := Some now, a_error := Some Retryable\<rparr> else a) d1 d'"
    "repo_concurrency d' = repo_concurrency (apply_decs (freed_repos d orphans @ freed_repos d1 rows) d2)"
proof -
  define orphans where "orphans = filter (\<lambda>a. orphan d a \<and> a_id a \<notin> set locked) (attempt d)"
  define d1 where "d1 = close_attempts (\<lambda>i. i \<in> a_id ` set orphans) now Terminal d"
  define rows where "rows = take RECLAIM_BATCH (filter (\<lambda>a. expired now d1 a \<and> unlocked locked a) (attempt d1))"
  define d2 where "d2 = close_attempts (\<lambda>i. i \<in> a_id ` set rows) now Retryable d1"
  define e where "e = fold (bury reg now d2) rows (reclaim_jobs reg d2 rows d2)"
  have s1: "settles reg d d1"
    unfolding d1_def orphans_def
    by (rule close_orphans_settles [OF assms(1)]) (rule orphans_pick(1) [OF assms(1)])
  then have k: "keys_ok d1" using assms settled_keys(4) by (auto simp: settles_def)
  have d': "d' = apply_decs (freed_repos d orphans @ freed_repos d1 rows) e" and n: "n = length rows"
    using assms(2) unfolding reclaim_expired_unfold Let_def orphans_def d1_def rows_def d2_def e_def by auto
  show thesis
  proof (rule that [OF orphans_def d1_def rows_def d2_def s1 k n])
    show "settled reg (reclaim_job_row reg d2 rows)
     (\<lambda>a. if a_id a \<in> a_id ` set rows
          then a\<lparr>a_status := AFailed, a_ended := Some now, a_error := Some Retryable\<rparr> else a) d1 d'"
    proof (rule reclaim_phase_settles [OF k _ d2_def])
      show "set rows \<subseteq> {a \<in> set (attempt d1). expired now d1 a}"
        by (auto simp: rows_def dest!: in_set_takeD)
      show "job d' = map (reclaim_job_row reg d2 rows) (job d1)"
        by (simp add: d' e_def reclaim_jobs_map) (simp add: d2_def)
      show "attempt d' = attempt d2" by (simp add: d' e_def reclaim_jobs_def)
      have "next_id d1 \<le> next_id (reclaim_jobs reg d2 rows d2)"
        by (simp add: reclaim_jobs_def d2_def)
      then show "next_id d1 \<le> next_id d'"
        unfolding d' e_def by (simp add: order_trans [OF _ bury_fold_frame(3)])
    qed
    have rc: "repo_concurrency e = repo_concurrency d2" by (simp add: e_def reclaim_jobs_def)
    have same: "repo_concurrency (fold (\<lambda>r. dec_rc (Some r) (m r)) rs x)
        = repo_concurrency (fold (\<lambda>r. dec_rc (Some r) (m r)) rs y)"
      if "repo_concurrency x = repo_concurrency y" for rs x y and m :: "string \<Rightarrow> int"
      using that by (induction rs arbitrary: x y) (simp_all add: dec_rc_def)
    show "repo_concurrency d'
        = repo_concurrency (apply_decs (freed_repos d orphans @ freed_repos d1 rows) d2)"
      unfolding d' apply_decs_def by (rule same [OF rc])
  qed
qed


lemma reclaim_phases:
  assumes "keys_ok d"
  obtains d1 where "settles reg d d1" "settles reg d1 (fst (reclaim_expired reg now locked d))"
proof (rule reclaim_stages [OF assms prod.collapse [symmetric]])
  fix d1 d2 rows
  assume "settles reg d d1" and "settled reg (reclaim_job_row reg d2 rows)
     (\<lambda>a. if a_id a \<in> a_id ` set rows
          then a\<lparr>a_status := AFailed, a_ended := Some now, a_error := Some Retryable\<rparr> else a) d1
     (fst (reclaim_expired reg now locked d))"
  then show thesis by (intro that) (auto simp: settles_def)
qed

lemma heal_fold_frame [simp]:
  "job (fold heal_rc rs d) = job d" "attempt (fold heal_rc rs d) = attempt d"
  "next_id (fold heal_rc rs d) = next_id d"
  by (induction rs arbitrary: d) (simp_all add: heal_rc_def)

lemma reconcile_settles:
  assumes "keys_ok d"
  shows "settles reg d (fst (reconcile_repo_concurrency now locked d))"
proof -
  define d1 where "d1 = close_attempts (\<lambda>i. i \<in> a_id ` set (filter (\<lambda>a. orphan d a \<and> a_id a \<notin> set locked)
                                       (attempt d))) now Terminal d"
  have "settles reg d d1"
    unfolding d1_def by (rule close_orphans_settles [OF assms]) (rule orphans_pick(1) [OF assms])
  moreover have "job (fst (reconcile_repo_concurrency now locked d)) = job d1"
    "attempt (fst (reconcile_repo_concurrency now locked d)) = attempt d1"
    "next_id (fst (reconcile_repo_concurrency now locked d)) = next_id d1"
    by (simp_all add: reconcile_repo_concurrency_def Let_def d1_def)
  ultimately show ?thesis by (auto simp: settles_def settled_def job_settles_def)
qed

end
