(* ===== verification/Ledger_Lease.thy ===== *)
theory Ledger_Lease
  imports Ledger_Steps
begin

text \<open>
  The lease: what one PICK/LOCK/COUNT/CLAIM iteration does, that it keeps the core invariant
  (one open attempt per job, the per-repository cap, the poison ceiling), and that the re-PICK
  loop neither spins nor starves.
\<close>

section \<open>The claim\<close>

definition new_attempt :: "time \<Rightarrow> string \<Rightarrow> uuid \<Rightarrow> uuid \<Rightarrow> attempt_row" where
  "new_attempt now worker i aid =
     \<lparr>a_id = aid, a_job = i, a_worker = worker, a_expires = now + LEASE_SECONDS,
      a_started = now, a_ended = None, a_status = AOpen, a_result = None, a_error = None\<rparr>"

definition leased_row :: "uuid \<Rightarrow> job_row \<Rightarrow> job_row" where
  "leased_row i j = (if j_id j = i \<and> j_status j = JQueued then j\<lparr>j_status := JLeased\<rparr> else j)"

lemma leased_row_simps [simp]:
  "j_id (leased_row i j) = j_id j" "j_repo (leased_row i j) = j_repo j"
  "j_id j \<noteq> i \<Longrightarrow> leased_row i j = j"
  by (simp_all add: leased_row_def)

definition claimed :: "time \<Rightarrow> string \<Rightarrow> job_row \<Rightarrow> db \<Rightarrow> db \<Rightarrow> bool" where
  "claimed now worker j d d' \<longleftrightarrow> j \<in> set (job d) \<and> j_status j = JQueued \<and> \<not> has_open (j_id j) d
     \<and> job d' = map (leased_row (j_id j)) (job d)
     \<and> attempt d' = attempt d @ [new_attempt now worker (j_id j) (next_id d)]
     \<and> next_id d' = Suc (next_id d)"

lemma claim_Some:
  assumes "j \<in> set (job d)" "j_status j = JQueued"
  shows "claim now worker (j_id j) aid d =
     (d\<lparr>job := map (leased_row (j_id j)) (job d),
        attempt := attempt d @ [new_attempt now worker (j_id j) aid]\<rparr>, Some aid)"
  using assms by (auto simp: claim_def upd_where_def leased_row_def [abs_def] new_attempt_def)

lemma pick_job_Some:
  assumes "pick_job cap locked skip d = Some j"
  shows "j \<in> set (job d)" "leasable cap locked skip d j"
  using first_by_Some(1) [OF assms [unfolded pick_job_def]] by auto

lemma lease_iter_cases:
  assumes "lease_iter cap now worker locked skip d = (d', out)"
  obtains (idle) "job d' = job d" "attempt d' = attempt d" "next_id d \<le> next_id d'" "out = Nothing_Leasable"
      "pick_job cap locked skip d = None" "d' = d"
  | (full) j r where "job d' = job d" "attempt d' = attempt d" "next_id d \<le> next_id d'"
      "pick_job cap locked skip d = Some j" "j_repo j = Some r" "cap \<le> int (open_count r d)"
      "out = Repick (skip @ [r])"
  | (leased) j where "pick_job cap locked skip d = Some j" "claimed now worker j d d'"
      "out = Leased_Attempt (next_id d)" "\<And>r. j_repo j = Some r \<Longrightarrow> int (open_count r d) < cap"
proof (cases "pick_job cap locked skip d")
  case None
  with assms have "d' = d" "out = Nothing_Leasable" by (simp_all add: lease_iter_def)
  with None show thesis by (intro idle) simp_all
next
  case (Some j)
  then have j: "j \<in> set (job d)" "j_status j = JQueued" "\<not> has_open (j_id j) d"
    using pick_job_Some [OF Some] by (auto simp: leasable_def)
  show thesis
  proof (cases "j_repo j")
    case None
    with assms Some j have "claimed now worker j d d'" "out = Leased_Attempt (next_id d)"
      by (auto simp: lease_iter_def new_id_def claim_Some claimed_def)
    with Some None leased show thesis by simp
  next
    case r: (Some r)
    have n: "open_count r (seed_rc r (d\<lparr>next_id := Suc (next_id d)\<rparr>)) = open_count r d"
      by (rule open_count_frame) simp_all
    show thesis
    proof (cases "cap \<le> int (open_count r d)")
      case True
      with assms Some r show thesis
        by (intro full [of j r]) (auto simp: lease_iter_def new_id_def n Let_def)
    next
      case False
      with assms Some r j have "claimed now worker j d d'" "out = Leased_Attempt (next_id d)"
        by (auto simp: lease_iter_def new_id_def claim_Some claimed_def n Let_def)
      with Some r False leased show thesis by simp
    qed
  qed
qed

lemma claimed_get_job:
  assumes "claimed now worker j d d'"
  shows "get_job i d' = map_option (leased_row (j_id j)) (get_job i d)"
  using assms by (simp add: claimed_def get_job_def get_row_map)

lemma claimed_open_count:
  assumes "keys_ok d" "claimed now worker j d d'"
  shows "open_count r d' = open_count r d + (if j_repo j = Some r then 1 else 0)"
proof -
  note C = assms(2) [unfolded claimed_def]
  have old: "counts_for r d' a \<longleftrightarrow> counts_for r d a" if a: "a \<in> set (attempt d)" for a
  proof (cases "a_job a = j_id j")
    case True
    with C a have "a_status a \<noteq> AOpen" by (auto simp: has_open_def)
    then show ?thesis by (simp add: counts_for_def)
  next
    case False
    obtain k where k: "get_job (a_job a) d = Some k" using attempt_has_job [OF assms(1) a] .
    then have "j_id k = a_job a" using assms(1) by (simp add: get_job_iff)
    with False k claimed_get_job [OF assms(2)] show ?thesis by (simp add: counts_for_def)
  qed
  have "get_job (j_id j) d = Some j" using C assms(1) by (simp add: get_job_iff)
  then have new: "counts_for r d' (new_attempt now worker (j_id j) (next_id d)) \<longleftrightarrow> j_repo j = Some r"
    using C claimed_get_job [OF assms(2)] by (simp add: counts_for_def new_attempt_def leased_row_def)
  have "count_where (counts_for r d') (attempt d) = count_where (counts_for r d) (attempt d)"
    by (rule count_where_cong) (rule old)
  with C new show ?thesis by (simp add: open_count_def)
qed

lemma claimed_n_attempts:
  assumes "claimed now worker j d d'"
  shows "n_attempts i d' = n_attempts i d + (if i = j_id j then 1 else 0)"
  using assms by (simp add: claimed_def n_attempts_def new_attempt_def)

lemma claimed_core:
  assumes "core reg cap d" "claimed now worker j d d'" "\<And>r. j_repo j = Some r \<Longrightarrow> int (open_count r d) < cap"
  shows "core reg cap d'"
proof (rule coreI)
  note K = coreD [OF assms(1)] and C = assms(2) [unfolded claimed_def]
  have ids: "map j_id (job d') = map j_id (job d)" using C by simp
  show "keys_ok d'"
    using K(1) C unfolding keys_ok_images ids
    by (auto simp: new_attempt_def less_Suc_eq dest: bspec)
  show "one_open d'"
    using K(2) C by (auto simp: one_open_def has_open_def new_attempt_def)
  show "live_leased d'"
  proof -
    have "has_open (j_id k) d'" if "k \<in> set (job d)" "live_status (j_status (leased_row (j_id j) k))" for k
    proof (cases "j_id k = j_id j")
      case True
      with C show ?thesis by (auto simp: has_open_def new_attempt_def)
    next
      case False
      with that K(3) have "has_open (j_id k) d" by (auto simp: live_leased_def)
      with C show ?thesis by (auto simp: has_open_def)
    qed
    with C show ?thesis by (auto simp: live_leased_def)
  qed
  show "cap_ok cap d'"
    unfolding cap_ok_def
  proof
    fix r
    have "int (open_count r d) \<le> max cap 0" using K(4) by (simp add: cap_ok_def)
    with assms(3) show "int (open_count r d') \<le> max cap 0"
      by (fastforce simp: claimed_open_count [OF K(1) assms(2)])
  qed
  show "poison_ok reg d'"
    using K(5) C job_same [OF K(1)]
    by (auto simp: poison_ok_def claimed_n_attempts [OF assms(2)] leased_row_def attempt_limit_def split: if_splits)
qed

lemma lease_iter_core:
  assumes "core reg cap d" "lease_iter cap now worker locked skip d = (d', out)"
  shows "core reg cap d'"
  using assms(2)
proof (cases rule: lease_iter_cases)
  case idle
  with assms(1) show ?thesis by simp
next
  case (full j r)
  with assms(1) show ?thesis by (blast intro: settles_core settles_frame)
next
  case (leased j)
  with assms(1) show ?thesis by (blast intro: claimed_core)
qed

end
