(* ===== verification/Ledger_System.thy ===== *)
theory Ledger_System
  imports Ledger_Lease
begin

text \<open>
  The ledger as a transition system: submission, the step relation of all verbs, and the
  safety theorems that hold in every reachable database, whatever the interleaving of
  transactions.
\<close>

section \<open>Submission\<close>

definition inserted :: "job_row \<Rightarrow> db \<Rightarrow> db \<Rightarrow> bool" where
  "inserted j d d' \<longleftrightarrow> job d' = job d @ [j] \<and> attempt d' = attempt d \<and> j_id j = next_id d
     \<and> next_id d < next_id d' \<and> \<not> live_status (j_status j)"

text \<open>
  Where an accepted insert may stand: at the root of its own tree or below a parent that
  admission found live and within the limits (a rejected child is inserted dead), with an
  originating event that exists and that no other job has.
\<close>

definition tree_placed :: "job_row \<Rightarrow> db \<Rightarrow> bool" where
  "tree_placed j d \<longleftrightarrow> (case j_parent j of
       None \<Rightarrow> j_depth j = 0 \<and> j_root j = j_id j \<and> j_status j = JQueued
     | Some p \<Rightarrow> (\<exists>par. get_job p d = Some par \<and> j_depth j = Suc (j_depth par) \<and> j_root j = j_root par
          \<and> j_status j = (if admission par d = None then JQueued else JDead)))"

definition event_placed :: "job_row \<Rightarrow> db \<Rightarrow> bool" where
  "event_placed j d \<longleftrightarrow> (case j_inbound j of None \<Rightarrow> True
     | Some e \<Rightarrow> get_row ie_id e (inbound_event d) \<noteq> None \<and> (\<forall>k \<in> set (job d). j_inbound k \<noteq> Some e))"

lemma insert_job_placed:
  "insert_job j (d\<lparr>next_id := n\<rparr>) = Inr e \<Longrightarrow> event_placed j d"
  by (auto simp: insert_job_def event_placed_def split: if_splits option.splits)

lemma admission_next_id [simp]: "admission p (d\<lparr>next_id := n\<rparr>) = admission p d"
  by (simp add: admission_def count_children_def)

lemma insert_job_Inr:
  "insert_job j d = Inr d' \<Longrightarrow> job d' = job d @ [j] \<and> attempt d' = attempt d \<and> next_id d' = next_id d
     \<and> inbound_event d' = inbound_event d \<and> outbound d' = outbound d
     \<and> repo_concurrency d' = repo_concurrency d \<and> dead_letter d' = dead_letter d"
  by (auto simp: insert_job_def split: if_splits)

lemma submit_queued_Inr:
  assumes "submit_queued j d = Inr (d', i)"
  shows "d' = d \<or> (insert_job j d = Inr d' \<and> i = j_id j)"
  using assms by (auto simp: submit_queued_def split: sum.splits ledger_error.splits option.splits)

lemma submit_job_cases:
  assumes "submit_job now s d = Inr (d', i)"
  obtains (dup) "job d' = job d" "attempt d' = attempt d" "next_id d \<le> next_id d'"
      "inbound_event d' = inbound_event d" "outbound d' = outbound d" "repo_concurrency d' = repo_concurrency d"
  | (new) j where "inserted j d d'" "tree_placed j d" "event_placed j d" "i = j_id j" "j_inbound j = s_inbound s"
      "insert_job j (snd (new_id d)) = Inr (d\<lparr>job := job d @ [j], next_id := Suc (next_id d)\<rparr>)"
      "inbound_event d' = inbound_event d" "outbound d' = outbound d" "repo_concurrency d' = repo_concurrency d"
proof -
  define d1 where "d1 = d\<lparr>next_id := Suc (next_id d)\<rparr>"
  note U = assms [unfolded submit_job_def new_id_def Let_def prod.case, folded d1_def]
  have ins: "insert_job j d1 = Inr e \<Longrightarrow> e = d1\<lparr>job := job d @ [j]\<rparr>" for j e
    by (auto simp: insert_job_def d1_def split: if_splits)
  have q: thesis if "submit_queued (mk_job now (next_id d) rt dep JQueued s) d1 = Inr (d', i)"
    and t: "tree_placed (mk_job now (next_id d) rt dep JQueued s) d" for rt dep
    using submit_queued_Inr [OF that(1)]
  proof
    assume "d' = d1"
    then show thesis by (intro dup) (simp_all add: d1_def)
  next
    assume a: "insert_job (mk_job now (next_id d) rt dep JQueued s) d1 = Inr d'
      \<and> i = j_id (mk_job now (next_id d) rt dep JQueued s)"
    with ins have "d' = d1\<lparr>job := job d @ [mk_job now (next_id d) rt dep JQueued s]\<rparr>" by blast
    moreover have "event_placed (mk_job now (next_id d) rt dep JQueued s) d"
      using a insert_job_placed by (auto simp: d1_def)
    ultimately show thesis using a t
      by (intro new [of "mk_job now (next_id d) rt dep JQueued s"])
        (simp_all add: inserted_def d1_def mk_job_def new_id_def)
  qed
  show thesis
  proof (cases "s_parent s")
    case None
    with U q show thesis by (simp add: tree_placed_def mk_job_def)
  next
    case (Some p)
    with U obtain par where par: "get_job p d1 = Some par"
      by (auto split: option.splits)
    then have pd: "get_job p d = Some par" by (simp add: d1_def get_job_def)
    show thesis
    proof (cases "admission par d1")
      case None
      with U Some par pd q show thesis by (simp add: tree_placed_def mk_job_def d1_def)
    next
      case (Some why)
      define j where "j = mk_job now (next_id d) (j_root par) (Suc (j_depth par)) JDead
                            (s\<lparr>s_repo := None, s_base_ref := None\<rparr>)"
      from U \<open>s_parent s = Some p\<close> par Some
      have c: "(case insert_job j d1 of Inl e \<Rightarrow> Inl e
             | Inr d2 \<Rightarrow> Inr (dead_letter_verb now (next_id d) why d2, next_id d)) = Inr (d', i)"
        unfolding j_def by simp
      then obtain d2 where d2: "insert_job j d1 = Inr d2" by (metis sum.case(1) sum.exhaust sum.distinct(1))
      have "d' = dead_letter_verb now (next_id d) why d2" "i = next_id d"
        using c unfolding d2 sum.case sum.inject prod.inject by blast+
      moreover have "d2 = d1\<lparr>job := job d @ [j]\<rparr>" by (rule ins [OF d2])
      moreover have "tree_placed j d"
        using \<open>s_parent s = Some p\<close> pd Some by (simp add: tree_placed_def j_def mk_job_def d1_def)
      ultimately show thesis using d2 insert_job_placed [OF d2 [unfolded d1_def]]
        by (intro new [of j]) (simp_all add: inserted_def d1_def j_def mk_job_def new_id_def)
    qed
  qed
qed

lemma inserted_core:
  assumes "core reg cap d" "inserted j d d'"
  shows "core reg cap d'"
proof (rule coreI)
  note K = coreD [OF assms(1)] and I = assms(2) [unfolded inserted_def]
  have fresh: "a_job a \<noteq> j_id j" if "a \<in> set (attempt d)" for a
    using that keys_okD(3,5) [OF K(1)] I by fastforce
  have get: "get_job (a_job a) d' = get_job (a_job a) d" if "a \<in> set (attempt d)" for a
    using fresh [OF that] I by (simp add: get_job_def get_row_append) (simp add: get_row_def split: option.splits)
  show "keys_ok d'"
    unfolding keys_ok_def using keys_okD [OF K(1)] I by (fastforce intro: less_trans)
  show "one_open d'" using K(2) I by (simp add: one_open_def)
  show "live_leased d'" using K(3) I by (auto simp: live_leased_def has_open_def)
  have "open_count r d' = open_count r d" for r
    using I get by (auto simp: open_count_def counts_for_def intro!: count_where_cong)
  then show "cap_ok cap d'" using K(4) by (simp add: cap_ok_def)
  have "n_attempts (j_id j) d' = 0"
    using I fresh by (auto simp: n_attempts_def count_where_0_iff)
  moreover have "n_attempts k d' = n_attempts k d" for k using I by (simp add: n_attempts_def)
  ultimately show "poison_ok reg d'"
    using K(5) I by (auto simp: poison_ok_def attempt_limit_def MAX_ATTEMPTS_def)
qed

section \<open>The step relation\<close>

text \<open>
  One rule per verb. \<open>race\<close> switches on the race the comment of \<^verbatim>\<open>cancel\<close> describes: a
  cancel whose first statement saw no open attempt reaches its second statement after
  other transactions have committed, a lease of the same job among them.
\<close>

inductive ledger_step :: "bool \<Rightarrow> registry \<Rightarrow> int \<Rightarrow> db \<Rightarrow> db \<Rightarrow> bool"
  for race :: bool and reg :: registry and cap :: int where
  ingest: "ledger_step race reg cap d (fst (ingest_inbound now env body d))"
| submit: "submit_job now s d = Inr (d', i) \<Longrightarrow> ledger_step race reg cap d d'"
| lease: "lease_iter cap now worker locked skip d = (d', out) \<Longrightarrow> ledger_step race reg cap d d'"
| heartbeat: "heartbeat_attempt now aid d = Inr d' \<Longrightarrow> ledger_step race reg cap d d'"
| complete: "complete_attempt now aid res d = Inr d' \<Longrightarrow> ledger_step race reg cap d d'"
| fail: "fail_attempt reg now aid res d = Inr d' \<Longrightarrow> ledger_step race reg cap d d'"
| log: "append_log now aid st chunk d = Inr d' \<Longrightarrow> ledger_step race reg cap d d'"
| enqueue: "enqueue_outbound now i body d = Inr (d', x) \<Longrightarrow> ledger_step race reg cap d d'"
| claim_out: "ledger_step race reg cap d (fst (claim_outbound tr locked d))"
| sent: "ledger_step race reg cap d (mark_outbound_sent now oid pid d)"
| sent_inline: "ledger_step race reg cap d (fst (mark_outbound_sent_inline now oid pid d))"
| out_failed: "ledger_step race reg cap d (mark_outbound_failed now oid d)"
| reclaim: "ledger_step race reg cap d (fst (reclaim_expired reg now locked d))"
| reconcile: "ledger_step race reg cap d (fst (reconcile_repo_concurrency now locked d))"
| dead: "ledger_step race reg cap d (dead_letter_verb now src why d)"
| cancel_job: "ledger_step race reg cap d (cancel now i d)"
| cancel_late: "race \<Longrightarrow> ledger_step race reg cap d (cancel_stmt2 i d)"

text \<open>The verbs that do not touch jobs or attempts.\<close>

lemma outbox_frames [simp]:
  "job (fst (claim_outbound tr locked d)) = job d"
  "attempt (fst (claim_outbound tr locked d)) = attempt d"
  "next_id (fst (claim_outbound tr locked d)) = next_id d"
  "repo_concurrency (fst (claim_outbound tr locked d)) = repo_concurrency d"
  "job (fst (mark_sent_from src now oid pid d)) = job d"
  "attempt (fst (mark_sent_from src now oid pid d)) = attempt d"
  "next_id d \<le> next_id (fst (mark_sent_from src now oid pid d))"
  "repo_concurrency (fst (mark_sent_from src now oid pid d)) = repo_concurrency d"
  "job (mark_outbound_failed now oid d) = job d"
  "attempt (mark_outbound_failed now oid d) = attempt d"
  "next_id d \<le> next_id (mark_outbound_failed now oid d)"
  "repo_concurrency (mark_outbound_failed now oid d) = repo_concurrency d"
  by (auto simp: claim_outbound_def mark_sent_from_def mark_outbound_failed_def Let_def split: option.splits)

lemma ingest_frame [simp]:
  "job (fst (ingest_inbound now env body d)) = job d"
  "attempt (fst (ingest_inbound now env body d)) = attempt d"
  "next_id (fst (ingest_inbound now env body d)) = Suc (next_id d)"
  "outbound (fst (ingest_inbound now env body d)) = outbound d"
  "repo_concurrency (fst (ingest_inbound now env body d)) = repo_concurrency d"
  by (auto simp: ingest_inbound_def new_id_def split: option.splits)

lemma append_log_frame:
  "append_log now aid st chunk d = Inr d' \<Longrightarrow> d' = d\<lparr>attempt_log := attempt_log d'\<rparr>"
  by (auto simp: append_log_def split: if_splits)

lemma enqueue_outbound_frame:
  assumes "enqueue_outbound now i body d = Inr (d', x)"
  obtains j where "d' = enqueue_reply now j body d"
  using assms by (auto simp: enqueue_outbound_def split: option.splits)

text \<open>
  Every step is an insert, a claim, or settles the tables, in at most two stages.
\<close>

lemma ledger_step_shape:
  assumes "ledger_step race reg cap d d'" "keys_ok d"
  obtains (insert) j where "inserted j d d'" "tree_placed j d" "event_placed j d"
  | (claim) now worker j where "claimed now worker j d d'"
      "\<And>r. j_repo j = Some r \<Longrightarrow> int (open_count r d) < cap"
  | (settle) d1 where "settles reg d d1" "settles reg d1 d'"
proof -
  have one: thesis if "settles reg d d'"
    using that settle [of d] settles_frame [of d d] by simp
  have frame: thesis if "job d' = job d" "attempt d' = attempt d" "next_id d \<le> next_id d'"
    using that by (intro one settles_frame)
  from assms(1) show thesis
  proof cases
    case (ingest now env body)
    then show thesis by (intro frame) simp_all
  next
    case (submit now s i)
    from submit_job_cases [OF submit] show thesis by (metis insert frame)
  next
    case (lease now worker locked skip out)
    from lease_iter_cases [OF lease] show thesis by (metis claim frame)
  next
    case (heartbeat now aid)
    then show thesis by (intro one heartbeat_settles [OF assms(2)])
  next
    case (complete now aid res)
    then obtain a j where "open_live aid d = Some (a, j)"
      by (auto simp: complete_attempt_def split: option.splits)
    from complete_settled [OF assms(2) this complete] show thesis
      by (intro one) (auto simp: settles_def)
  next
    case (fail now aid res)
    then show thesis by (intro one fail_settles [OF assms(2)])
  next
    case (log now aid st chunk)
    have "job d' = job (d\<lparr>attempt_log := attempt_log d'\<rparr>)"
      "attempt d' = attempt (d\<lparr>attempt_log := attempt_log d'\<rparr>)"
      "next_id d' = next_id (d\<lparr>attempt_log := attempt_log d'\<rparr>)"
      using append_log_frame [OF log] by metis+
    then show thesis by (intro frame) simp_all
  next
    case (enqueue now i body x)
    then obtain j where "d' = enqueue_reply now j body d" by (rule enqueue_outbound_frame)
    then show thesis by (intro frame) simp_all
  next
    case (reclaim now locked)
    with reclaim_phases [OF assms(2)] settle show thesis by metis
  next
    case (reconcile now locked)
    then show thesis by (intro one) (simp add: reconcile_settles [OF assms(2)])
  next
    case (cancel_job now i)
    then show thesis by (intro one) (simp add: cancel_settles)
  next
    case (cancel_late i)
    then show thesis by (intro one) (simp add: cancel_late_settles)
  qed (auto intro!: frame simp: mark_outbound_sent_def mark_outbound_sent_inline_def)
qed

lemma ledger_step_core:
  assumes "core reg cap d" "ledger_step race reg cap d d'"
  shows "core reg cap d'"
  using assms(2) coreD(1) [OF assms(1)]
proof (cases rule: ledger_step_shape)
  case (insert j)
  with assms(1) show ?thesis by (blast intro: inserted_core)
next
  case (claim now worker j)
  with assms(1) show ?thesis by (rule claimed_core)
next
  case (settle d1)
  with assms(1) show ?thesis by (blast intro: settles_core)
qed

lemma core_empty: "core reg cap empty_db"
  by (simp add: core_def keys_ok_def one_open_def live_leased_def cap_ok_def poison_ok_def
      empty_db_def open_count_def)

interpretation ledger: invariant_system "ledger_step race reg cap" "core reg cap"
  for race :: bool and reg :: registry and cap :: int
  by unfold_locales (rule ledger_step_core)

lemma reachable_core: "reach (ledger_step race reg cap) empty_db d \<Longrightarrow> core reg cap d"
  by (rule ledger.reach_inv [OF _ core_empty])

section \<open>History is kept\<close>

text \<open>
  Rows are never deleted, the identity of a job never changes, and terminal jobs and closed
  attempts never change at all.
\<close>

definition same_job :: "job_row \<Rightarrow> job_row \<Rightarrow> bool" where
  "same_job j j' \<longleftrightarrow> j_id j' = j_id j \<and> j_parent j' = j_parent j \<and> j_root j' = j_root j
     \<and> j_depth j' = j_depth j \<and> j_inbound j' = j_inbound j \<and> j_to_agent j' = j_to_agent j
     \<and> j_body j' = j_body j \<and> j_repo j' = j_repo j
     \<and> (terminal_status (j_status j) \<longrightarrow> j' = j)"

definition evolves :: "db \<Rightarrow> db \<Rightarrow> bool" where
  "evolves d d' \<longleftrightarrow> (\<forall>j \<in> set (job d). \<exists>j' \<in> set (job d'). same_job j j')
     \<and> (\<forall>a \<in> set (attempt d). \<exists>a' \<in> set (attempt d'). attempt_settles a a')"

lemma same_job_refl [simp]: "same_job j j"
  by (simp add: same_job_def)

lemma same_job_trans: "same_job j k \<Longrightarrow> same_job k l \<Longrightarrow> same_job j l"
  by (auto simp: same_job_def)

lemma attempt_settles_trans: "attempt_settles a b \<Longrightarrow> attempt_settles b c \<Longrightarrow> attempt_settles a c"
  by (auto simp: attempt_settles_def)

lemma evolves_refl: "evolves d d"
  unfolding evolves_def using same_job_refl attempt_settles_refl by blast

lemma evolves_trans: "evolves d e \<Longrightarrow> evolves e f \<Longrightarrow> evolves d f"
  unfolding evolves_def by (meson same_job_trans attempt_settles_trans)

lemma settles_evolves:
  assumes "settles reg d d'"
  shows "evolves d d'"
proof -
  obtain f g where s: "settled reg f g d d'" using assms by (auto simp: settles_def)
  have "same_job j (f j)" if "j \<in> set (job d)" for j
    unfolding same_job_def using job_settlesD(1,2,4,6-11) [OF settledD(4) [OF s that]] by blast
  then show ?thesis
    unfolding evolves_def using settled_in [OF s] settledD(5) [OF s] by blast
qed

lemma ledger_step_evolves:
  assumes "core reg cap d" "ledger_step race reg cap d d'"
  shows "evolves d d'"
  using assms(2) coreD(1) [OF assms(1)]
proof (cases rule: ledger_step_shape)
  case (insert j)
  then show ?thesis
    unfolding inserted_def evolves_def using same_job_refl attempt_settles_refl by (metis Un_iff set_append)
next
  case (claim now worker j)
  have "same_job k (leased_row i k)" for i k by (auto simp: leased_row_def same_job_def)
  then have "\<forall>k \<in> set (job d). same_job k (leased_row (j_id j) k)" by blast
  with claim(1) show ?thesis
    unfolding claimed_def evolves_def using attempt_settles_refl by (metis Un_iff imageI list.set_map set_append)
next
  case (settle d1)
  then show ?thesis by (blast intro: settles_evolves evolves_trans)
qed

lemma reachable_evolves:
  assumes "reach (ledger_step race reg cap) empty_db d" "reach (ledger_step race reg cap) d d'"
  shows "evolves d d'"
  using ledger.reach_rel [OF assms(2) reachable_core [OF assms(1)], of evolves] evolves_refl
    evolves_trans ledger_step_evolves by blast

section \<open>Safety of every interleaving\<close>

text \<open>
  C1. No double lease: in every database the verbs can reach, in any order of transactions and
  with the cancel race, a job has at most one open attempt.
\<close>

theorem no_double_lease:
  assumes "reach (ledger_step race reg cap) empty_db d"
    and "a \<in> set (attempt d)" "b \<in> set (attempt d)"
    and "a_status a = AOpen" "a_status b = AOpen" "a_job a = a_job b"
  shows "a = b"
  using coreD(2) [OF reachable_core [OF assms(1)]] assms(2-6) by (auto simp: one_open_def)

text \<open>
  C2. The per-repository cap is never breached: in every reachable database the open attempts
  on leased or running jobs of a repository number at most the cap, even though the cached
  counter may drift.
\<close>

theorem repo_cap_never_breached:
  assumes "reach (ledger_step race reg cap) empty_db d"
  shows "int (open_count r d) \<le> max cap 0"
  using coreD(4) [OF reachable_core [OF assms]] by (simp add: cap_ok_def)

text \<open>
  C3. Bounded retries: a job never has more than \<open>MAX_ATTEMPTS\<close> attempts, and a job for an agent
  that is not retry-safe (workspace actor, composite, unknown, paid non-idempotent) is attempted
  at most once, so a partial mutation is never replayed and a paid submit never repeated.
\<close>

theorem attempts_bounded:
  assumes "reach (ledger_step race reg cap) empty_db d" "j \<in> set (job d)"
  shows "n_attempts (j_id j) d \<le> (if requeue_safe reg (j_to_agent j) then MAX_ATTEMPTS else 1)"
  using coreD(5) [OF reachable_core [OF assms(1)]] assms(2)
  by (auto simp: poison_ok_def attempt_limit_def)

text \<open>
  C4. A crashed worker's job is never stuck: every leased or running job has an open attempt, the
  row the janitor's reclaim finds.
\<close>

theorem live_job_reclaimable:
  assumes "reach (ledger_step race reg cap) empty_db d" "j \<in> set (job d)" "live_status (j_status j)"
  shows "\<exists>a \<in> set (attempt d). a_job a = j_id j \<and> a_status a = AOpen"
  using coreD(3) [OF reachable_core [OF assms(1)]] assms(2,3) by (simp add: live_leased_def has_open_def)

text \<open>
  C5. Nothing is lost and nothing finished changes: along any run a job row is kept with its
  identity, and once it is done, failed or dead no step changes it in any field.
\<close>

theorem terminal_jobs_absorbing:
  assumes "reach (ledger_step race reg cap) empty_db d" "reach (ledger_step race reg cap) d d'"
    and "j \<in> set (job d)"
  shows "\<exists>j' \<in> set (job d'). j_id j' = j_id j \<and> j_to_agent j' = j_to_agent j \<and> j_body j' = j_body j
     \<and> (terminal_status (j_status j) \<longrightarrow> j' = j)"
proof -
  from reachable_evolves [OF assms(1,2)] assms(3) obtain j'
    where "j' \<in> set (job d')" "same_job j j'" by (auto simp: evolves_def)
  then show ?thesis by (auto simp: same_job_def)
qed

end
