(* ===== verification/Workspace.thy ===== *)
theory Workspace
  imports Pytext Ledger_System
begin

text \<open>
  \<^verbatim>\<open>src/runtime/workspace.py\<close>: the life cycle of the git worktrees that isolate workspace actors.
  The file system below the worktree root is a list of directory entries and a set of patch files;
  git, a program outside the repository, and the file system's own refusals appear as the outcome of each
  call: a removal may leave the directory behind, and a call may raise what nothing catches. Attempt identifiers
  are turned into text by an injective function, as \<^verbatim>\<open>str\<close> of a UUID is.
\<close>

section \<open>The file system below the root\<close>

record entry =
  en_name :: string
  en_is_dir :: bool
  en_pointer :: "pytext option"

record workspace =
  entries :: "entry list"
  patches :: "string set"

definition wt_prefix :: string where
  "wt_prefix = ''wt-''"

definition worktree_name :: "(uuid \<Rightarrow> string) \<Rightarrow> uuid \<Rightarrow> string" where
  "worktree_name ustr aid = wt_prefix @ ustr aid"

definition worktree_path_of :: "string \<Rightarrow> (uuid \<Rightarrow> string) \<Rightarrow> uuid \<Rightarrow> string" where
  "worktree_path_of base ustr aid = base @ ''/'' @ worktree_name ustr aid"

definition patch_path :: "string \<Rightarrow> string \<Rightarrow> string" where
  "patch_path base name = base @ ''/'' @ name @ ''.patch''"

section \<open>Timeout\<close>

text \<open>\<open>parsed\<close> is what \<^verbatim>\<open>int\<close> makes of the environment variable, \<open>None\<close> for a \<^verbatim>\<open>ValueError\<close>.\<close>

definition git_timeout :: "int option \<Rightarrow> int" where
  "git_timeout parsed = (case parsed of None \<Rightarrow> 120 | Some n \<Rightarrow> if n > 0 then n else 120)"

section \<open>Create, capture, clean up\<close>

text \<open>How one git call ends: it succeeds, or it raises with or without having left its directory.\<close>

datatype git_end = Git_Ok | Git_Raises bool

definition add_dir :: "string \<Rightarrow> pytext option \<Rightarrow> workspace \<Rightarrow> workspace" where
  "add_dir name ptr ws = ws\<lparr>entries := entries ws @ [\<lparr>en_name = name, en_is_dir = True, en_pointer = ptr\<rparr>]\<rparr>"

definition create :: "git_end \<Rightarrow> string \<Rightarrow> pytext option \<Rightarrow> workspace \<Rightarrow> workspace \<times> bool" where
  "create out name ptr ws = (case out of
     Git_Ok \<Rightarrow> (add_dir name ptr ws, True)
   | Git_Raises made \<Rightarrow> (if made then add_dir name ptr ws else ws, False))"

definition capture_diff :: "string \<Rightarrow> pytext \<Rightarrow> string \<Rightarrow> workspace \<Rightarrow> workspace \<times> string option" where
  "capture_diff base diff name ws =
     (if strip diff = [] then (ws, None)
      else (ws\<lparr>patches := insert (patch_path base name) (patches ws)\<rparr>, Some (patch_path base name)))"

definition rm_dir :: "string \<Rightarrow> workspace \<Rightarrow> workspace" where
  "rm_dir name ws = ws\<lparr>entries := filter (\<lambda>e. en_name e \<noteq> name) (entries ws)\<rparr>"

text \<open>
  The calls that remove a worktree. A git call ends well, ends in a \<^verbatim>\<open>SubprocessError\<close> (an exit status, a
  timeout), or raises an \<^verbatim>\<open>OSError\<close> because git or its working directory is missing. \<^verbatim>\<open>rmtree\<close> ignores errors,
  so the directory may stay, with or without its pointer file.
\<close>

datatype reap_step = Git_Remove pytext | Rmtree | Git_Prune pytext

datatype git_call = Git_Done | Git_Errs | Git_Missing

datatype rm_end = Rm_Gone | Rm_Left "pytext option"

definition rmtree :: "rm_end \<Rightarrow> string \<Rightarrow> workspace \<Rightarrow> workspace" where
  "rmtree out name ws = (case out of
     Rm_Gone \<Rightarrow> rm_dir name ws
   | Rm_Left ptr \<Rightarrow> ws\<lparr>entries := map (\<lambda>e. if en_name e = name then e\<lparr>en_pointer := ptr\<rparr> else e) (entries ws)\<rparr>)"

text \<open>The flag says whether the call returned; git's \<^verbatim>\<open>OSError\<close> is not caught.\<close>

definition cleanup :: "git_call \<Rightarrow> rm_end \<Rightarrow> pytext \<Rightarrow> string \<Rightarrow> workspace \<Rightarrow> workspace \<times> reap_step list \<times> bool" where
  "cleanup git rm repo name ws = (case git of
     Git_Done \<Rightarrow> (rm_dir name ws, [Git_Remove repo], True)
   | Git_Errs \<Rightarrow> (rmtree rm name ws, [Git_Remove repo, Rmtree], True)
   | Git_Missing \<Rightarrow> (ws, [Git_Remove repo], False))"

text \<open>\<open>ok\<close> says whether the file system lets the file go; an \<^verbatim>\<open>OSError\<close> is swallowed.\<close>

definition unlink :: "bool \<Rightarrow> string option \<Rightarrow> workspace \<Rightarrow> workspace" where
  "unlink ok p ws = (case p of None \<Rightarrow> ws | Some f \<Rightarrow> if f \<noteq> [] \<and> ok then ws\<lparr>patches := patches ws - {f}\<rparr> else ws)"

section \<open>The sweep\<close>

definition path_parts :: "pytext \<Rightarrow> pytext list" where
  "path_parts p =
     (let comps = filter (\<lambda>c. c \<noteq> [] \<and> c \<noteq> codes ''.'') (split_on 47 p) in
      if prefix [47, 47] p \<and> \<not> prefix [47, 47, 47] p then [47, 47] # comps
      else if prefix [47] p then [47] # comps
      else comps)"

definition path_str :: "pytext list \<Rightarrow> pytext" where
  "path_str ps = (case ps of
     [] \<Rightarrow> codes ''.''
   | r # rest \<Rightarrow> if r = [47] \<or> r = [47, 47] then r @ join_on [47] rest else join_on [47] ps)"

fun git_pair :: "pytext list \<Rightarrow> pytext list \<Rightarrow> pytext option" where
  "git_pair before (a # b # ps) =
     (if a = codes ''.git'' \<and> b = codes ''worktrees''
      then (if before = [] then None else Some (path_str before))
      else git_pair (before @ [a]) (b # ps))"
| "git_pair before ps = None"

definition worktree_repo :: "pytext option \<Rightarrow> pytext option" where
  "worktree_repo pointer = (case pointer of
     None \<Rightarrow> None
   | Some raw \<Rightarrow>
       (let text = strip raw in
        if \<not> prefix (codes ''gitdir:'') text then None
        else git_pair [] (path_parts (strip (tl (dropWhile (\<lambda>c. c \<noteq> 58) text))))))"

definition reapable_entry :: "string set \<Rightarrow> entry \<Rightarrow> bool" where
  "reapable_entry reapable e \<longleftrightarrow> en_is_dir e \<and> prefix wt_prefix (en_name e)
     \<and> drop (length wt_prefix) (en_name e) \<in> reapable"

record reap_obs =
  ro_git :: "string \<Rightarrow> git_call"
  ro_rm :: "string \<Rightarrow> rm_end"
  ro_prune :: "string \<Rightarrow> git_call"
  ro_unlink :: "string \<Rightarrow> bool"

text \<open>
  One removal: the recovered repository deregisters the worktree, and without one, or when git
  fails, the directory is removed and the admin entry pruned; then the patch goes. The flag says whether
  the removal came through without an exception.
\<close>

definition reap_one :: "string \<Rightarrow> reap_obs \<Rightarrow> entry \<Rightarrow> workspace \<Rightarrow> workspace \<times> reap_step list \<times> bool" where
  "reap_one base ob e ws =
     (let n = en_name e; drop_patch = unlink (ro_unlink ob n) (Some (patch_path base n)) in
      case worktree_repo (en_pointer e) of
        None \<Rightarrow> (drop_patch (rmtree (ro_rm ob n) n ws), [Rmtree], True)
      | Some repo \<Rightarrow>
          (case ro_git ob n of
             Git_Done \<Rightarrow> (drop_patch (rm_dir n ws), [Git_Remove repo], True)
           | Git_Missing \<Rightarrow> (ws, [Git_Remove repo], False)
           | Git_Errs \<Rightarrow>
               (let ws1 = rmtree (ro_rm ob n) n ws; steps = [Git_Remove repo, Rmtree, Git_Prune repo] in
                if ro_prune ob n = Git_Missing then (ws1, steps, False) else (drop_patch ws1, steps, True))))"

text \<open>The loop; the count is \<open>None\<close> when an exception ended it.\<close>

fun reap_all :: "string \<Rightarrow> reap_obs \<Rightarrow> nat \<Rightarrow> entry list \<Rightarrow> workspace \<Rightarrow> workspace \<times> reap_step list \<times> nat option" where
  "reap_all base ob n [] ws = (ws, [], Some n)"
| "reap_all base ob n (e # es) ws =
     (case reap_one base ob e ws of
        (ws1, steps, False) \<Rightarrow> (ws1, steps, None)
      | (ws1, steps, True) \<Rightarrow> (case reap_all base ob (Suc n) es ws1 of (ws2, steps2, m) \<Rightarrow> (ws2, steps @ steps2, m)))"

definition sweep :: "string \<Rightarrow> reap_obs \<Rightarrow> string set \<Rightarrow> workspace \<Rightarrow> workspace \<times> reap_step list \<times> nat option" where
  "sweep base ob reapable ws =
     (if reapable = {} then (ws, [], Some 0)
      else reap_all base ob 0 (filter (reapable_entry reapable) (entries ws)) ws)"

section \<open>Facts\<close>

lemma git_timeout_pos: "0 < git_timeout p"
  by (simp add: git_timeout_def split: option.split)

lemma worktree_name_inj: "inj ustr \<Longrightarrow> worktree_name ustr a = worktree_name ustr b \<longleftrightarrow> a = b"
  by (auto simp: worktree_name_def dest: injD)

lemma reapable_worktree: "reapable_entry R \<lparr>en_name = worktree_name ustr a, en_is_dir = True, en_pointer = p\<rparr> \<longleftrightarrow> ustr a \<in> R"
  by (simp add: reapable_entry_def worktree_name_def)

text \<open>What a removal under one name does to entries and patches of other names: nothing.\<close>

definition spared :: "string \<Rightarrow> string \<Rightarrow> workspace \<Rightarrow> workspace \<Rightarrow> bool" where
  "spared base m v v' \<longleftrightarrow> filter (\<lambda>e. en_name e = m) (entries v') = filter (\<lambda>e. en_name e = m) (entries v)
     \<and> (patch_path base m \<in> patches v' \<longleftrightarrow> patch_path base m \<in> patches v)"

lemma spared_trans: "spared base m u v \<Longrightarrow> spared base m v w \<Longrightarrow> spared base m u w"
  by (simp add: spared_def)

lemma patch_path_inj: "patch_path base m = patch_path base n \<longleftrightarrow> m = n"
  by (simp add: patch_path_def)

lemma rm_dir_spares: "n \<noteq> m \<Longrightarrow> filter (\<lambda>e. en_name e = m) (entries (rm_dir n v)) = filter (\<lambda>e. en_name e = m) (entries v)"
  by (auto simp: rm_dir_def filter_filter intro!: filter_cong)

lemma rmtree_spares: "n \<noteq> m \<Longrightarrow> filter (\<lambda>e. en_name e = m) (entries (rmtree out n v)) = filter (\<lambda>e. en_name e = m) (entries v)"
proof (cases out)
  case (Rm_Left p)
  assume "n \<noteq> m"
  moreover have "filter (\<lambda>e. en_name e = m) (map (\<lambda>e. if en_name e = n then e\<lparr>en_pointer := p\<rparr> else e) xs) = filter (\<lambda>e. en_name e = m) xs" for xs
    using \<open>n \<noteq> m\<close> by (induction xs) auto
  ultimately show ?thesis using Rm_Left by (simp add: rmtree_def)
qed (simp add: rmtree_def rm_dir_spares)

lemma patches_rm [simp]: "patches (rm_dir n v) = patches v" "patches (rmtree out n v) = patches v"
  by (simp_all add: rm_dir_def rmtree_def split: rm_end.split)

lemma entries_unlink [simp]: "entries (unlink ok p v) = entries v"
  by (simp add: unlink_def split: option.split)

lemma reap_one_spares: "reap_one base ob e v = (v', steps, ok) \<Longrightarrow> en_name e \<noteq> m \<Longrightarrow> spared base m v v'"
  by (auto simp: reap_one_def Let_def spared_def rm_dir_spares rmtree_spares unlink_def patch_path_inj
      split: option.splits git_call.splits if_splits)

lemma reap_all_spares:
  "\<lbrakk>reap_all base ob n es v = (v', steps, k); \<And>e. e \<in> set es \<Longrightarrow> en_name e \<noteq> m\<rbrakk> \<Longrightarrow> spared base m v v'"
proof (induction es arbitrary: n v v' steps k)
  case (Cons e es)
  obtain v1 s1 ok where r: "reap_one base ob e v = (v1, s1, ok)" by (metis prod_cases3)
  have v1: "spared base m v v1" using reap_one_spares [OF r] Cons.prems(2) by simp
  show ?case
  proof (cases ok)
    case True
    obtain v2 s2 k2 where "reap_all base ob (Suc n) es v1 = (v2, s2, k2)" by (metis prod_cases3)
    with Cons.IH [OF this] Cons.prems r True v1 show ?thesis by (auto intro: spared_trans)
  qed (use Cons.prems r v1 in simp)
qed (simp add: spared_def)

text \<open>
  The sweep never takes a worktree from a running attempt: whatever the ledger calls reapable, and however
  its calls end, an entry named after an attempt that is still open survives as it was, with its patch.
\<close>

theorem sweep_spares_open:
  assumes "inj ustr" "reach (ledger_step race reg cap) empty_db d" "a \<in> set (attempt d)" "a_status a = AOpen"
    and "e \<in> set (entries ws)" "en_name e = worktree_name ustr (a_id a)"
    and "sweep base ob (ustr ` reapable_attempt_ids now age d) ws = (ws', plan, n)"
  shows "e \<in> set (entries ws') \<and> (patch_path base (en_name e) \<in> patches ws' \<longleftrightarrow> patch_path base (en_name e) \<in> patches ws)"
proof -
  have keys: "keys_ok d" using reachable_core [OF assms(2)] by (rule coreD(1))
  have "a_id a \<notin> reapable_attempt_ids now age d"
  proof
    assume "a_id a \<in> reapable_attempt_ids now age d"
    then obtain b where "b \<in> set (attempt d)" "a_id b = a_id a" "a_status b \<noteq> AOpen"
      by (auto simp: reapable_attempt_ids_def)
    with attempt_same [OF keys, of b a] assms(3,4) show False by simp
  qed
  then have "ustr (a_id a) \<notin> ustr ` reapable_attempt_ids now age d" using assms(1) by (auto dest: injD)
  moreover define R where "R = ustr ` reapable_attempt_ids now age d"
  ultimately have keep: "en_name f \<noteq> en_name e" if "f \<in> set (filter (reapable_entry R) (entries ws))" for f
    using that assms(6) by (auto simp: reapable_entry_def worktree_name_def)
  have "spared base (en_name e) ws ws'"
  proof (cases "R = {}")
    case False
    with assms(7) [folded R_def] have "reap_all base ob 0 (filter (reapable_entry R) (entries ws)) ws = (ws', plan, n)"
      by (simp add: sweep_def)
    then show ?thesis by (rule reap_all_spares) (rule keep)
  qed (use assms(7) [folded R_def] in \<open>simp add: sweep_def spared_def\<close>)
  moreover have "e \<in> set (filter (\<lambda>f. en_name f = en_name e) (entries ws))" using assms(5) by simp
  ultimately have "e \<in> set (filter (\<lambda>f. en_name f = en_name e) (entries ws'))" by (simp only: spared_def)
  then have "e \<in> set (entries ws')" by (simp only: set_filter mem_Collect_eq)
  with \<open>spared base (en_name e) ws ws'\<close> show ?thesis by (simp add: spared_def)
qed

text \<open>
  The sweep is the backstop of a clean-up that left something: when no call of it raises and the removal of a
  reapable worktree succeeds, nothing of that name is left below the root.
\<close>

definition quiet_obs :: "reap_obs \<Rightarrow> bool" where
  "quiet_obs ob \<longleftrightarrow> (\<forall>m. ro_git ob m \<noteq> Git_Missing \<and> ro_prune ob m \<noteq> Git_Missing)"

definition names :: "workspace \<Rightarrow> string set" where
  "names v = en_name ` set (entries v)"

lemma names_rm [simp]: "names (rm_dir n v) = names v - {n}" "names (unlink ok p v) = names v"
  by (auto simp: names_def rm_dir_def)

lemma names_rmtree: "names (rmtree out n v) = (if out = Rm_Gone then names v - {n} else names v)"
proof (cases out)
  case (Rm_Left p)
  let ?f = "\<lambda>e. if en_name e = n then e\<lparr>en_pointer := p\<rparr> else e"
  have "en_name (?f e) = en_name e" for e by simp
  then have "en_name ` ?f ` S = en_name ` S" for S unfolding image_image by (rule image_cong [OF refl])
  then have "en_name ` set (map ?f xs) = en_name ` set xs" for xs by (simp only: set_map)
  then have "names (rmtree out n v) = names v" unfolding Rm_Left rmtree_def rm_end.case names_def by (simp del: set_map)
  with Rm_Left show ?thesis by simp
qed (simp add: rmtree_def)

lemma reap_one_quiet:
  assumes "quiet_obs ob" "reap_one base ob e v = (v', steps, ok)"
  shows "ok" "names v' \<subseteq> names v" "ro_rm ob (en_name e) = Rm_Gone \<Longrightarrow> en_name e \<notin> names v'"
  using assms by (auto simp: reap_one_def quiet_obs_def Let_def names_rmtree split: option.splits git_call.splits if_splits)

lemma reap_all_quiet:
  assumes "quiet_obs ob" "ro_rm ob m = Rm_Gone" "reap_all base ob n es v = (v', steps, k)"
  shows "k \<noteq> None \<and> names v' \<subseteq> names v \<and> (m \<in> en_name ` set es \<longrightarrow> m \<notin> names v')"
  using assms(3)
proof (induction es arbitrary: n v v' steps k)
  case (Cons e es)
  obtain v1 s1 ok where r: "reap_one base ob e v = (v1, s1, ok)" by (metis prod_cases3)
  obtain v2 s2 k2 where r2: "reap_all base ob (Suc n) es v1 = (v2, s2, k2)" by (metis prod_cases3)
  note q = reap_one_quiet [OF assms(1) r]
  from Cons.prems r r2 q(1) have "v' = v2" "k = k2" by auto
  with Cons.IH [OF r2] q(2,3) assms(2) show ?case by auto
qed simp

lemma sweep_reaps:
  assumes "quiet_obs ob" "ro_rm ob (wt_prefix @ u) = Rm_Gone" "u \<in> R"
    and "\<And>e. e \<in> set (entries v) \<Longrightarrow> en_name e = wt_prefix @ u \<Longrightarrow> en_is_dir e"
    and "sweep base ob R v = (v', steps, k)"
  shows "wt_prefix @ u \<notin> names v'"
proof (cases "wt_prefix @ u \<in> names v")
  case True
  then obtain e where e: "e \<in> set (entries v)" "en_name e = wt_prefix @ u" by (auto simp: names_def)
  with assms(3,4) have "e \<in> set (filter (reapable_entry R) (entries v))" by (simp add: reapable_entry_def)
  then have "wt_prefix @ u \<in> en_name ` set (filter (reapable_entry R) (entries v))" using e(2) by (metis image_eqI)
  moreover have "R \<noteq> {}" using assms(3) by blast
  ultimately show ?thesis using assms(5) reap_all_quiet [OF assms(1,2)] unfolding sweep_def by (metis (no_types, lifting))
next
  case False
  have "R \<noteq> {}" using assms(3) by blast
  with assms(5) reap_all_quiet [OF assms(1,2)] have "names v' \<subseteq> names v" unfolding sweep_def by (metis (no_types, lifting))
  with False show ?thesis by blast
qed

lemma git_pair_walk:
  "list_all (\<lambda>c. c \<noteq> codes ''.git'') ps \<Longrightarrow> before @ ps \<noteq> [] \<Longrightarrow>
   git_pair before (ps @ codes ''.git'' # codes ''worktrees'' # rest) = Some (path_str (before @ ps))"
proof (induction ps arbitrary: before)
  case (Cons p ps)
  have "git_pair before (p # (ps @ codes ''.git'' # codes ''worktrees'' # rest))
      = git_pair (before @ [p]) (ps @ codes ''.git'' # codes ''worktrees'' # rest)"
    using Cons.prems(1) by (cases ps) simp_all
  with Cons show ?case by simp
qed simp

lemma join_on_append: "ps \<noteq> [] \<Longrightarrow> qs \<noteq> [] \<Longrightarrow> join_on sep (ps @ qs) = join_on sep ps @ sep @ join_on sep qs"
  by (induction sep ps rule: join_on.induct) (auto simp: neq_Nil_conv)

text \<open>
  The pointer file of a worktree leads back to its repository: for every absolute repository path
  without empty, dot or \<^verbatim>\<open>.git\<close> components, the path recovered from the pointer that git writes is
  that path.
\<close>

theorem worktree_repo_recovers:
  assumes "ps \<noteq> []" "list_all (\<lambda>c. c \<noteq> [] \<and> c \<noteq> codes ''.'' \<and> c \<noteq> codes ''.git'' \<and> 47 \<notin> set c) ps"
    and "list_all (\<lambda>c. \<not> is_space c) name" "name \<noteq> []" "name \<noteq> codes ''.''" "47 \<notin> set name"
  shows "worktree_repo (Some (codes ''gitdir: /'' @ join_on [47] ps @ codes ''/.git/worktrees/'' @ name @ [10]))
    = Some (47 # join_on [47] ps)"
proof -
  let ?tail = "[codes ''.git'', codes ''worktrees'', name]"
  let ?path = "47 # join_on [47] (ps @ ?tail)"
  have path: "47 # join_on [47] ps @ codes ''/.git/worktrees/'' @ name = ?path"
    using assms(1) by (simp add: join_on_append codes_def)
  have all: "list_all (\<lambda>c. c \<noteq> [] \<and> c \<noteq> codes ''.'' \<and> 47 \<notin> set c) (ps @ ?tail)"
    using assms by (auto simp: list_all_iff codes_def)
  have lastp: "last ?path = last name" using assms(1,4) by (simp add: join_on_append)
  have sp: "\<not> is_space (last name)" using assms(3,4) by (metis last_in_set list_all_iff)
  have p: "?path \<noteq> []" "\<not> is_space (hd ?path)" "\<not> is_space (last ?path)"
    using sp lastp by (simp_all add: is_space_def)
  let ?text = "codes ''gitdir:'' @ 32 # ?path"
  have t: "?text \<noteq> []" "\<not> is_space (hd ?text)" "\<not> is_space (last ?text)"
    using p(3) by (simp_all add: codes_def is_space_def)
  have raw: "codes ''gitdir: /'' @ join_on [47] ps @ codes ''/.git/worktrees/'' @ name @ [10] = ?text @ [10]"
    using path by (simp add: codes_def)
  have drop: "tl (dropWhile (\<lambda>c. c \<noteq> 58) ?text) = 32 # ?path" by (simp add: codes_def)
  have split: "split_on 47 ?path = [] # ps @ ?tail"
    using split_join [of "ps @ ?tail" 47] all by (auto simp: list_all_iff)
  have "\<not> prefix [47, 47] ?path"
  proof -
    obtain c cs where "ps = c # cs" using assms(1) by (cases ps) auto
    with assms(2) show ?thesis by (cases c; cases cs) auto
  qed
  moreover have "filter (\<lambda>c. c \<noteq> [] \<and> c \<noteq> codes ''.'') (ps @ ?tail) = ps @ ?tail"
    using all by (auto simp: filter_id_conv list_all_iff)
  ultimately have parts: "path_parts ?path = [47] # ps @ ?tail" unfolding path_parts_def split Let_def by simp
  have "git_pair [] (([47] # ps) @ ?tail) = Some (path_str ([47] # ps))"
    using git_pair_walk [of "[47] # ps" "[]" "[name]"] assms(2) by (auto simp: list_all_iff codes_def)
  then show ?thesis
    unfolding raw worktree_repo_def option.case Let_def strip_core(2) [OF t] drop strip_core(3) [OF p] parts
    by (simp add: codes_def path_str_def)
qed

end
