(* ===== verification/Sqlite_Store.thy ===== *)
theory Sqlite_Store
  imports Ledger
begin

text \<open>
  \<^verbatim>\<open>src/runtime/ledger/sqlite_store.py\<close>, the in-process demo ledger with the same worker-facing
  verbs as the Postgres store. Rows are kept in \<^verbatim>\<open>rowid\<close> order; the supply of identifiers is part
  of the state, as in the Postgres model. The reply of a finished job is enqueued for its reply
  target.
\<close>

record sq_job =
  sj_id :: uuid
  sj_parent :: "uuid option"
  sj_agent :: string
  sj_body :: pytext
  sj_context :: jctx
  sj_target :: string
  sj_repo :: "string option"
  sj_base_ref :: "string option"
  sj_artifact :: "string option"
  sj_status :: job_status
  sj_created :: time

record sq_attempt =
  sa_id :: uuid
  sa_job :: uuid
  sa_worker :: string
  sa_status :: attempt_status
  sa_result :: "result option"
  sa_error :: "error_class option"

record sq_outbound =
  so_id :: uuid
  so_job :: uuid
  so_target :: string
  so_body :: pytext
  so_sent :: bool

record sq_db =
  sq_jobs :: "sq_job list"
  sq_attempts :: "sq_attempt list"
  sq_outbox :: "sq_outbound list"
  sq_next :: uuid

definition sq_empty :: sq_db where
  "sq_empty = \<lparr>sq_jobs = [], sq_attempts = [], sq_outbox = [], sq_next = 0\<rparr>"

section \<open>Verbs\<close>

record sq_submit_args =
  sb_agent :: string
  sb_prompt :: pytext
  sb_target :: string
  sb_context :: jctx
  sb_parent :: "uuid option"
  sb_repo :: "string option"
  sb_base_ref :: "string option"

definition sq_submit_job :: "time \<Rightarrow> sq_submit_args \<Rightarrow> sq_db \<Rightarrow> sq_db \<times> uuid" where
  "sq_submit_job now s d =
     (d\<lparr>sq_jobs := sq_jobs d @
          [\<lparr>sj_id = sq_next d, sj_parent = sb_parent s, sj_agent = sb_agent s, sj_body = sb_prompt s,
            sj_context = sb_context s, sj_target = sb_target s, sj_repo = sb_repo s, sj_base_ref = sb_base_ref s,
            sj_artifact = None, sj_status = JQueued, sj_created = now\<rparr>],
        sq_next := Suc (sq_next d)\<rparr>, sq_next d)"

definition sq_lease_job :: "time \<Rightarrow> string \<Rightarrow> sq_db \<Rightarrow> sq_db \<times> uuid option" where
  "sq_lease_job now worker d =
     (case first_by sj_created (filter (\<lambda>j. sj_status j = JQueued) (sq_jobs d)) of
        None \<Rightarrow> (d, None)
      | Some j \<Rightarrow>
          (d\<lparr>sq_jobs := upd_where (\<lambda>k. sj_id k = sj_id j) (\<lambda>k. k\<lparr>sj_status := JLeased\<rparr>) (sq_jobs d),
             sq_attempts := sq_attempts d @
               [\<lparr>sa_id = sq_next d, sa_job = sj_id j, sa_worker = worker, sa_status = AOpen, sa_result = None,
                 sa_error = None\<rparr>],
             sq_next := Suc (sq_next d)\<rparr>, Some (sq_next d)))"

definition sq_open_job :: "uuid \<Rightarrow> sq_db \<Rightarrow> sq_job option" where
  "sq_open_job aid d = (case List.find (\<lambda>a. sa_id a = aid \<and> sa_status a = AOpen) (sq_attempts d) of
     None \<Rightarrow> None
   | Some a \<Rightarrow> List.find (\<lambda>j. sj_id j = sa_job a \<and> sj_status j = JLeased) (sq_jobs d))"

definition sq_get_attempt_job :: "uuid \<Rightarrow> sq_db \<Rightarrow> Contracts.job option" where
  "sq_get_attempt_job aid d = map_option (\<lambda>j.
     \<lparr>job_id = sj_id j, to_agent = sj_agent j, prompt = sj_body j, job_context = sj_context j,
      repo_id = sj_repo j, base_ref = sj_base_ref j, base_sha = None, worktree_path = None, job_timeout_s = 300,
      attempt_no = 1\<rparr>) (sq_open_job aid d)"

definition sq_complete_attempt :: "time \<Rightarrow> uuid \<Rightarrow> result \<Rightarrow> sq_db \<Rightarrow> ledger_error + sq_db" where
  "sq_complete_attempt now aid res d =
     (case List.find (\<lambda>a. sa_id a = aid \<and> sa_status a = AOpen) (sq_attempts d) of
        None \<Rightarrow> Inl Lost_Lease
      | Some a \<Rightarrow>
          (let d1 = d\<lparr>sq_attempts := upd_where (\<lambda>x. sa_id x = aid)
                        (\<lambda>x. x\<lparr>sa_status := AOk, sa_result := Some res\<rparr>) (sq_attempts d),
                      sq_jobs := upd_where (\<lambda>k. sj_id k = sa_job a)
                        (\<lambda>k. k\<lparr>sj_status := JDone, sj_artifact := artifact_ref res\<rparr>) (sq_jobs d)\<rparr>
           in case get_row sj_id (sa_job a) (sq_jobs d1) of
                None \<Rightarrow> Inl Foreign_Key_Violation
              | Some j \<Rightarrow> Inr (d1\<lparr>sq_outbox := sq_outbox d1 @
                  [\<lparr>so_id = sq_next d1, so_job = sa_job a, so_target = sj_target j, so_body = res_text res,
                    so_sent = False\<rparr>], sq_next := Suc (sq_next d1)\<rparr>)))"

definition sq_fail_attempt :: "time \<Rightarrow> uuid \<Rightarrow> result \<Rightarrow> sq_db \<Rightarrow> ledger_error + sq_db" where
  "sq_fail_attempt now aid res d =
     (case List.find (\<lambda>a. sa_id a = aid \<and> sa_status a = AOpen) (sq_attempts d) of
        None \<Rightarrow> Inl Lost_Lease
      | Some a \<Rightarrow> Inr (d\<lparr>sq_attempts := upd_where (\<lambda>x. sa_id x = aid)
                        (\<lambda>x. x\<lparr>sa_status := AFailed, sa_result := Some res, sa_error := err_class res\<rparr>) (sq_attempts d),
                      sq_jobs := upd_where (\<lambda>k. sj_id k = sa_job a) (\<lambda>k. k\<lparr>sj_status := JFailed\<rparr>) (sq_jobs d)\<rparr>))"

definition sq_pending_outbound :: "sq_db \<Rightarrow> sq_outbound list" where
  "sq_pending_outbound d = filter (\<lambda>x. \<not> so_sent x) (sq_outbox d)"

definition sq_mark_sent :: "uuid \<Rightarrow> sq_db \<Rightarrow> sq_db" where
  "sq_mark_sent oid d = d\<lparr>sq_outbox := upd_where (\<lambda>x. so_id x = oid) (\<lambda>x. x\<lparr>so_sent := True\<rparr>) (sq_outbox d)\<rparr>"

definition sq_status :: "uuid \<Rightarrow> sq_db \<Rightarrow> sq_job option" where
  "sq_status i d = get_row sj_id i (sq_jobs d)"

definition sq_count_queued :: "sq_db \<Rightarrow> nat" where
  "sq_count_queued d = count_where (\<lambda>j. sj_status j = JQueued) (sq_jobs d)"

section \<open>The invariant\<close>

text \<open>
  Identifiers are fresh and distinct, every attempt has its job, an attempt is open exactly while its
  job is leased, and a job has one open attempt at most.
\<close>

definition sq_ok :: "sq_db \<Rightarrow> bool" where
  "sq_ok d \<longleftrightarrow> distinct (map sj_id (sq_jobs d)) \<and> distinct (map sa_id (sq_attempts d))
     \<and> list_all (\<lambda>j. sj_id j < sq_next d) (sq_jobs d) \<and> list_all (\<lambda>a. sa_id a < sq_next d) (sq_attempts d)
     \<and> (\<forall>a \<in> set (sq_attempts d). \<exists>j \<in> set (sq_jobs d). sj_id j = sa_job a
          \<and> (sa_status a = AOpen \<longrightarrow> sj_status j = JLeased))
     \<and> (\<forall>j \<in> set (sq_jobs d). sj_status j = JLeased \<longrightarrow> (\<exists>a \<in> set (sq_attempts d). sa_job a = sj_id j \<and> sa_status a = AOpen))
     \<and> (\<forall>a \<in> set (sq_attempts d). \<forall>b \<in> set (sq_attempts d).
          sa_status a = AOpen \<and> sa_status b = AOpen \<and> sa_job a = sa_job b \<longrightarrow> a = b)"

definition sq_opened :: "uuid \<Rightarrow> sq_db \<Rightarrow> bool" where
  "sq_opened aid d \<longleftrightarrow> (\<exists>a \<in> set (sq_attempts d). sa_id a = aid \<and> sa_status a = AOpen)"

lemma sq_okD:
  assumes "sq_ok d"
  shows "distinct (map sj_id (sq_jobs d))" "distinct (map sa_id (sq_attempts d))"
    "\<And>j. j \<in> set (sq_jobs d) \<Longrightarrow> sj_id j < sq_next d" "\<And>a. a \<in> set (sq_attempts d) \<Longrightarrow> sa_id a < sq_next d"
    "\<And>a. a \<in> set (sq_attempts d) \<Longrightarrow> \<exists>j \<in> set (sq_jobs d). sj_id j = sa_job a \<and> (sa_status a = AOpen \<longrightarrow> sj_status j = JLeased)"
    "\<And>j. j \<in> set (sq_jobs d) \<Longrightarrow> sj_status j = JLeased \<Longrightarrow> \<exists>a \<in> set (sq_attempts d). sa_job a = sj_id j \<and> sa_status a = AOpen"
    "\<And>a b. \<lbrakk>a \<in> set (sq_attempts d); b \<in> set (sq_attempts d); sa_status a = AOpen; sa_status b = AOpen; sa_job a = sa_job b\<rbrakk> \<Longrightarrow> a = b"
  using assms by (auto simp: sq_ok_def list_all_iff)

lemma sq_job_same: "sq_ok d \<Longrightarrow> j \<in> set (sq_jobs d) \<Longrightarrow> k \<in> set (sq_jobs d) \<Longrightarrow> sj_id j = sj_id k \<Longrightarrow> j = k"
  by (rule distinct_key_eq [of sj_id "sq_jobs d"]) (auto simp: sq_ok_def)

lemma sq_attempt_same: "sq_ok d \<Longrightarrow> a \<in> set (sq_attempts d) \<Longrightarrow> b \<in> set (sq_attempts d) \<Longrightarrow> sa_id a = sa_id b \<Longrightarrow> a = b"
  by (rule distinct_key_eq [of sa_id "sq_attempts d"]) (auto simp: sq_ok_def)

lemma sq_open_find:
  "List.find (\<lambda>a. sa_id a = aid \<and> sa_status a = AOpen) (sq_attempts d) = None \<longleftrightarrow> \<not> sq_opened aid d"
  by (auto simp: find_None_iff sq_opened_def)

lemma sq_find_open:
  assumes "List.find (\<lambda>a. sa_id a = aid \<and> sa_status a = AOpen) (sq_attempts d) = Some a"
  shows "a \<in> set (sq_attempts d)" "sa_id a = aid" "sa_status a = AOpen"
  using assms by (auto simp: find_Some_iff)

lemma sq_empty_ok: "sq_ok sq_empty"
  by (simp add: sq_ok_def sq_empty_def)

lemma sq_submit_ok: "sq_ok d \<Longrightarrow> sq_ok (fst (sq_submit_job now s d))"
  by (fastforce simp: sq_ok_def sq_submit_job_def list_all_iff)

lemma sq_lease_ok:
  assumes "sq_ok d" "sq_lease_job now w d = (d', Some aid)"
  shows "sq_ok d'" "sq_opened aid d'" "sq_count_queued d' < sq_count_queued d"
proof -
  from assms(2) obtain j where j: "first_by sj_created (filter (\<lambda>j. sj_status j = JQueued) (sq_jobs d)) = Some j"
    and aid: "aid = sq_next d" and d': "sq_jobs d' = upd_where (\<lambda>k. sj_id k = sj_id j) (\<lambda>k. k\<lparr>sj_status := JLeased\<rparr>) (sq_jobs d)"
      "sq_attempts d' = sq_attempts d @ [\<lparr>sa_id = sq_next d, sa_job = sj_id j, sa_worker = w, sa_status = AOpen,
         sa_result = None, sa_error = None\<rparr>]" "sq_next d' = Suc (sq_next d)"
    by (auto simp: sq_lease_job_def split: option.splits)
  from first_by_Some(1) [OF j] have jq: "j \<in> set (sq_jobs d)" "sj_status j = JQueued" by auto
  show "sq_opened aid d'" by (simp add: sq_opened_def d' aid)
  show "sq_count_queued d' < sq_count_queued d"
    unfolding sq_count_queued_def d' by (rule count_where_upd_less [OF _ jq(1)]) (simp_all add: jq(2))
  have idle: "\<not> (sa_job a = sj_id j \<and> sa_status a = AOpen)" if "a \<in> set (sq_attempts d)" for a
    using sq_okD(5) [OF assms(1) that] sq_job_same [OF assms(1) _ jq(1)] jq(2) by (metis job_status.distinct(1))
  let ?a = "\<lparr>sa_id = sq_next d, sa_job = sj_id j, sa_worker = w, sa_status = AOpen, sa_result = None, sa_error = None\<rparr>"
  let ?f = "\<lambda>k. if sj_id k = sj_id j then k\<lparr>sj_status := JLeased\<rparr> else k"
  have jobs: "sq_jobs d' = map ?f (sq_jobs d)" unfolding d' upd_where_def ..
  have fid: "sj_id (?f k) = sj_id k" for k by simp
  have 1: "distinct (map sj_id (sq_jobs d'))" using sq_okD(1) [OF assms(1)] unfolding jobs by (simp add: o_def fid)
  have 2: "distinct (map sa_id (sq_attempts d'))" using sq_okD(2,4) [OF assms(1)] unfolding d' by fastforce
  have 3: "list_all (\<lambda>j. sj_id j < sq_next d') (sq_jobs d')" "list_all (\<lambda>a. sa_id a < sq_next d') (sq_attempts d')"
    using sq_okD(3,4) [OF assms(1)] jq(1) unfolding jobs d'(2,3) by (auto simp: list_all_iff less_SucI)
  have 4: "\<exists>k \<in> set (sq_jobs d'). sj_id k = sa_job a \<and> (sa_status a = AOpen \<longrightarrow> sj_status k = JLeased)"
    if "a \<in> set (sq_attempts d')" for a
  proof (cases "a = ?a")
    case True
    have "?f j \<in> set (sq_jobs d')" unfolding jobs set_map using jq(1) by (rule imageI)
    then show ?thesis using True by (intro bexI [of _ "?f j"]) simp_all
  next
    case False
    with that have "a \<in> set (sq_attempts d)" by (simp add: d')
    from sq_okD(5) [OF assms(1) this] obtain k where k: "k \<in> set (sq_jobs d)" "sj_id k = sa_job a"
      "sa_status a = AOpen \<longrightarrow> sj_status k = JLeased" by blast
    have "?f k \<in> set (sq_jobs d')" unfolding jobs set_map using k(1) by (rule imageI)
    then show ?thesis using k(2,3) by (intro bexI [of _ "?f k"]) simp_all
  qed
  have 5: "\<exists>a \<in> set (sq_attempts d'). sa_job a = sj_id k \<and> sa_status a = AOpen"
    if k: "k \<in> set (sq_jobs d')" "sj_status k = JLeased" for k
  proof (cases "sj_id k = sj_id j")
    case False
    with k obtain k0 where "k0 \<in> set (sq_jobs d)" "k = k0" unfolding jobs by auto
    with sq_okD(6) [OF assms(1), of k] k show ?thesis unfolding d'(2) by auto
  qed (simp add: d')
  have 6: "a = b" if "a \<in> set (sq_attempts d')" "b \<in> set (sq_attempts d')" "sa_status a = AOpen" "sa_status b = AOpen"
    "sa_job a = sa_job b" for a b
    using that idle sq_okD(7) [OF assms(1)] unfolding d'(2) by force
  show "sq_ok d'" unfolding sq_ok_def using 1 2 3 4 5 6 by blast
qed

lemma sq_lease_none: "sq_lease_job now w d = (d', None) \<Longrightarrow> d' = d"
  by (auto simp: sq_lease_job_def split: option.splits)

text \<open>Both recording verbs close the attempt and settle its job.\<close>

lemma sq_close_ok:
  assumes "sq_ok d" "a \<in> set (sq_attempts d)" "sa_status a = AOpen"
    and "sq_jobs d' = upd_where (\<lambda>k. sj_id k = sa_job a) f (sq_jobs d)"
      "sq_attempts d' = upd_where (\<lambda>x. sa_id x = sa_id a) g (sq_attempts d)" "sq_next d \<le> sq_next d'"
    and "\<And>k. sj_id (f k) = sj_id k" "\<And>k. sj_status (f k) \<noteq> JLeased \<and> sj_status (f k) \<noteq> JQueued"
    and "\<And>x. sa_id (g x) = sa_id x \<and> sa_job (g x) = sa_job x \<and> sa_status (g x) \<noteq> AOpen"
  shows "sq_ok d'" "\<not> sq_opened (sa_id a) d'" "sq_count_queued d' \<le> sq_count_queued d"
proof -
  have jobs: "sq_jobs d' = map (\<lambda>k. if sj_id k = sa_job a then f k else k) (sq_jobs d)" unfolding assms(4) upd_where_def ..
  have atts: "sq_attempts d' = map (\<lambda>x. if sa_id x = sa_id a then g x else x) (sq_attempts d)" unfolding assms(5) upd_where_def ..
  have openD: "x \<in> set (sq_attempts d) \<and> sa_id x \<noteq> sa_id a" if "x \<in> set (sq_attempts d')" "sa_status x = AOpen" for x
    using that assms(9) unfolding atts by auto
  have 1: "distinct (map sj_id (sq_jobs d'))" unfolding assms(4) by (rule keyed_upd [OF sq_okD(1) [OF assms(1)]]) (rule assms(7))
  have 2: "distinct (map sa_id (sq_attempts d'))"
    unfolding assms(5) by (rule keyed_upd [OF sq_okD(2) [OF assms(1)]]) (use assms(9) in blast)
  have 3: "list_all (\<lambda>j. sj_id j < sq_next d') (sq_jobs d')" "list_all (\<lambda>a. sa_id a < sq_next d') (sq_attempts d')"
    using sq_okD(3,4) [OF assms(1)] assms(6,7,9) unfolding jobs atts by (fastforce simp: list_all_iff)+
  have 4: "\<exists>k \<in> set (sq_jobs d'). sj_id k = sa_job x \<and> (sa_status x = AOpen \<longrightarrow> sj_status k = JLeased)"
    if x: "x \<in> set (sq_attempts d')" for x
  proof -
    from x obtain y where y: "y \<in> set (sq_attempts d)" "x = (if sa_id y = sa_id a then g y else y)" unfolding atts by auto
    with assms(9) have xj: "sa_job x = sa_job y" by simp
    from sq_okD(5) [OF assms(1) y(1)] obtain k where k: "k \<in> set (sq_jobs d)" "sj_id k = sa_job y"
      "sa_status y = AOpen \<longrightarrow> sj_status k = JLeased" by blast
    have "sj_id k \<noteq> sa_job a" if "sa_status x = AOpen"
    proof
      assume e: "sj_id k = sa_job a"
      have "x = y" using openD [OF x that] y(2) assms(9) [of y] by (cases "sa_id y = sa_id a") simp_all
      moreover from this have "y = a" using that assms(3) k(2) e by (intro sq_okD(7) [OF assms(1) y(1) assms(2)]) metis+
      ultimately show False using openD [OF x that] by simp
    qed
    moreover have "sa_status x = AOpen \<Longrightarrow> sa_status y = AOpen" using y(2) assms(9) [of y] by (cases "sa_id y = sa_id a") simp_all
    ultimately show ?thesis using k xj assms(7) unfolding jobs
      by (intro bexI [of _ "if sj_id k = sa_job a then f k else k"]) auto
  qed
  have 5: "\<exists>x \<in> set (sq_attempts d'). sa_job x = sj_id k \<and> sa_status x = AOpen"
    if k: "k \<in> set (sq_jobs d')" "sj_status k = JLeased" for k
  proof -
    from k assms(8) have k0: "k \<in> set (sq_jobs d)" "sj_id k \<noteq> sa_job a" unfolding jobs by auto
    from sq_okD(6) [OF assms(1) k0(1) k(2)] obtain x where x: "x \<in> set (sq_attempts d)" "sa_job x = sj_id k" "sa_status x = AOpen" by blast
    with k0(2) sq_attempt_same [OF assms(1) x(1) assms(2)] have "sa_id x \<noteq> sa_id a" by auto
    with x show ?thesis unfolding atts by force
  qed
  have 6: "x = y" if "x \<in> set (sq_attempts d')" "y \<in> set (sq_attempts d')" "sa_status x = AOpen" "sa_status y = AOpen"
    "sa_job x = sa_job y" for x y
    using openD [OF that(1,3)] openD [OF that(2,4)] that(3-5) by (intro sq_okD(7) [OF assms(1)]) blast+
  show "sq_ok d'" unfolding sq_ok_def using 1 2 3 4 5 6 by blast
  show "\<not> sq_opened (sa_id a) d'" using openD by (auto simp: sq_opened_def)
  show "sq_count_queued d' \<le> sq_count_queued d"
    unfolding sq_count_queued_def assms(4) by (rule count_where_upd_le) (simp add: assms(8))
qed

lemma sq_complete_ok:
  assumes "sq_ok d" "sq_opened aid d"
  shows "\<exists>d'. sq_complete_attempt now aid res d = Inr d' \<and> sq_ok d' \<and> \<not> sq_opened aid d' \<and> sq_count_queued d' \<le> sq_count_queued d"
proof -
  from assms(2) obtain a where f: "List.find (\<lambda>a. sa_id a = aid \<and> sa_status a = AOpen) (sq_attempts d) = Some a"
    using sq_open_find by fastforce
  note a = sq_find_open [OF f]
  let ?J = "upd_where (\<lambda>k. sj_id k = sa_job a) (\<lambda>k. k\<lparr>sj_status := JDone, sj_artifact := artifact_ref res\<rparr>) (sq_jobs d)"
  from sq_okD(5) [OF assms(1) a(1)] obtain j where "j \<in> set (sq_jobs d)" "sj_id j = sa_job a" by blast
  then have "get_row sj_id (sa_job a) (sq_jobs d) \<noteq> None" by (auto simp: get_row_None)
  then have "get_row sj_id (sa_job a) ?J \<noteq> None" by (subst get_row_upd_where) simp_all
  then obtain j' where "get_row sj_id (sa_job a) ?J = Some j'" by blast
  then obtain d' where d': "sq_complete_attempt now aid res d = Inr d'"
    "sq_jobs d' = ?J" "sq_attempts d' = upd_where (\<lambda>x. sa_id x = sa_id a) (\<lambda>x. x\<lparr>sa_status := AOk, sa_result := Some res\<rparr>) (sq_attempts d)"
    "sq_next d \<le> sq_next d'"
    by (simp add: sq_complete_attempt_def f a(2) Let_def)
  from sq_close_ok [OF assms(1) a(1,3) d'(2-4)] a(2) d'(1) show ?thesis by simp
qed

lemma sq_fail_ok:
  assumes "sq_ok d" "sq_opened aid d"
  shows "\<exists>d'. sq_fail_attempt now aid res d = Inr d' \<and> sq_ok d' \<and> \<not> sq_opened aid d' \<and> sq_count_queued d' \<le> sq_count_queued d"
proof -
  from assms(2) obtain a where f: "List.find (\<lambda>a. sa_id a = aid \<and> sa_status a = AOpen) (sq_attempts d) = Some a"
    using sq_open_find by fastforce
  note a = sq_find_open [OF f]
  obtain d' where d': "sq_fail_attempt now aid res d = Inr d'"
    "sq_jobs d' = upd_where (\<lambda>k. sj_id k = sa_job a) (\<lambda>k. k\<lparr>sj_status := JFailed\<rparr>) (sq_jobs d)"
    "sq_attempts d' = upd_where (\<lambda>x. sa_id x = sa_id a) (\<lambda>x. x\<lparr>sa_status := AFailed, sa_result := Some res, sa_error := err_class res\<rparr>) (sq_attempts d)"
    "sq_next d \<le> sq_next d'"
    by (simp add: sq_fail_attempt_def f a(2))
  from sq_close_ok [OF assms(1) a(1,3) d'(2-4)] a(2) d'(1) show ?thesis by simp
qed

lemma sq_lost: "\<not> sq_opened aid d \<Longrightarrow> sq_complete_attempt now aid res d = Inl Lost_Lease \<and> sq_fail_attempt now aid res d = Inl Lost_Lease"
  by (simp add: sq_complete_attempt_def sq_fail_attempt_def sq_open_find [THEN iffD2])

lemma sq_job_open:
  assumes "sq_ok d"
  shows "sq_get_attempt_job aid d \<noteq> None \<longleftrightarrow> sq_opened aid d"
proof (cases "List.find (\<lambda>a. sa_id a = aid \<and> sa_status a = AOpen) (sq_attempts d)")
  case None
  then show ?thesis using sq_open_find [of aid d] by (simp add: sq_get_attempt_job_def sq_open_job_def)
next
  case (Some a)
  note a = sq_find_open [OF Some]
  from sq_okD(5) [OF assms a(1)] a(3) have "\<exists>j \<in> set (sq_jobs d). sj_id j = sa_job a \<and> sj_status j = JLeased" by blast
  then have "List.find (\<lambda>j. sj_id j = sa_job a \<and> sj_status j = JLeased) (sq_jobs d) \<noteq> None" by (auto simp: find_None_iff)
  with Some a show ?thesis by (auto simp: sq_get_attempt_job_def sq_open_job_def sq_opened_def)
qed

end
