(* ===== verification/Ledger_Recovery.thy ===== *)
theory Ledger_Recovery
  imports Ledger_System
begin

text \<open>
  Crash recovery and the per-repository counter: what \<^verbatim>\<open>reclaim_expired\<close> does to an expired
  lease and to an orphan, that \<^verbatim>\<open>reconcile_repo_concurrency\<close> restores the cached counter from
  any drift, and that without the cancel race the counter never drifts.
\<close>

section \<open>Orphans\<close>

definition no_orphans :: "db \<Rightarrow> bool" where
  "no_orphans d \<longleftrightarrow> (\<forall>a \<in> set (attempt d). \<not> orphan d a)"

lemma orphan_iff:
  assumes "keys_ok d" "a \<in> set (attempt d)" "j \<in> set (job d)" "j_id j = a_job a"
  shows "orphan d a \<longleftrightarrow> a_status a = AOpen \<and> \<not> live_status (j_status j)"
  using assms get_job_iff [OF assms(1), of "a_job a" j] by (simp add: orphan_def)

lemma expired_iff:
  assumes "keys_ok d" "a \<in> set (attempt d)" "j \<in> set (job d)" "j_id j = a_job a"
  shows "expired now d a \<longleftrightarrow> a_status a = AOpen \<and> a_expires a \<le> now \<and> live_status (j_status j)"
  using assms get_job_iff [OF assms(1), of "a_job a" j] by (simp add: expired_def)

lemma orphan_frame: "job d' = job d \<Longrightarrow> orphan d' a \<longleftrightarrow> orphan d a"
  by (simp add: orphan_def get_job_def)

lemma expired_frame: "job d' = job d \<Longrightarrow> expired now d' a \<longleftrightarrow> expired now d a"
  by (simp add: expired_def get_job_def)

lemma no_orphansI:
  assumes "keys_ok d" "\<And>a j. \<lbrakk>a \<in> set (attempt d); a_status a = AOpen; j \<in> set (job d); j_id j = a_job a\<rbrakk>
      \<Longrightarrow> live_status (j_status j)"
  shows "no_orphans d"
  unfolding no_orphans_def
proof
  fix a assume a: "a \<in> set (attempt d)"
  obtain j where "j \<in> set (job d)" "j_id j = a_job a" using keys_okD(5) [OF assms(1) a] by blast
  with assms a show "\<not> orphan d a" by (simp add: orphan_iff)
qed

lemma no_orphansD:
  "\<lbrakk>no_orphans d; keys_ok d; a \<in> set (attempt d); a_status a = AOpen; j \<in> set (job d); j_id j = a_job a\<rbrakk>
     \<Longrightarrow> live_status (j_status j)"
  by (auto simp: no_orphans_def orphan_iff)

text \<open>
  A settling that closes the open attempt of every job it takes out of the live states
  creates no orphan and lowers the hard count by exactly the attempts it closed.
\<close>

definition clean :: "(job_row \<Rightarrow> job_row) \<Rightarrow> (attempt_row \<Rightarrow> attempt_row) \<Rightarrow> db \<Rightarrow> bool" where
  "clean f g d \<longleftrightarrow> (\<forall>a \<in> set (attempt d). \<forall>j \<in> set (job d).
     j_id j = a_job a \<and> a_status (g a) = AOpen \<and> live_status (j_status j) \<longrightarrow> live_status (j_status (f j)))"

lemma settled_clean_no_orphans:
  assumes "settled reg f g d d'" "keys_ok d" "clean f g d"
    and "\<And>a j. \<lbrakk>a \<in> set (attempt d); a_status (g a) = AOpen; j \<in> set (job d); j_id j = a_job a\<rbrakk>
        \<Longrightarrow> live_status (j_status j)"
  shows "no_orphans d'"
proof (rule no_orphansI [OF settled_keys(4) [OF assms(1,2)]])
  fix x y assume x: "x \<in> set (attempt d')" "a_status x = AOpen" and y: "y \<in> set (job d')" "j_id y = a_job x"
  obtain a where a: "a \<in> set (attempt d)" "x = g a" using x settledD(2) [OF assms(1)] by auto
  obtain j where j: "j \<in> set (job d)" "y = f j" using y settledD(1) [OF assms(1)] by auto
  have id: "j_id j = a_job a"
    using y(2) a j settled_job(1) [OF assms(1) j(1)] settled_attempt(2) [OF assms(1) a(1)] by simp
  have open_g: "a_status (g a) = AOpen" using x(2) a(2) by simp
  have "live_status (j_status j)" by (rule assms(4) [OF a(1) open_g j(1) id])
  with assms(3) a j id open_g show "live_status (j_status y)" by (auto simp: clean_def)
qed

lemma settled_clean_counts:
  assumes "settled reg f g d d'" "keys_ok d" "clean f g d" "a \<in> set (attempt d)"
  shows "counts_for r d' (g a) \<longleftrightarrow> counts_for r d a \<and> a_status (g a) = AOpen"
proof -
  obtain j where j: "get_job (a_job a) d = Some j" using attempt_has_job [OF assms(2,4)] .
  then have jin: "j \<in> set (job d)" "j_id j = a_job a" using assms(2) by (simp_all add: get_job_iff)
  have j': "get_job (a_job (g a)) d' = Some (f j)"
    using j settled_get_job [OF assms(1,2)] settled_attempt(2) [OF assms(1,4)] by simp
  have "live_status (j_status (f j)) \<longleftrightarrow> live_status (j_status j)" if "a_status (g a) = AOpen"
    using that assms(3,4) jin settled_job(3) [OF assms(1) jin(1)] by (auto simp: clean_def)
  with j j' show ?thesis
    using settled_attempt(3) [OF assms(1,4)] settled_job(2) [OF assms(1) jin(1)]
    by (auto simp: counts_for_def)
qed

lemma settled_clean_open_count:
  assumes "settled reg f g d d'" "keys_ok d" "clean f g d"
  shows "open_count r d' + count_where (\<lambda>a. counts_for r d a \<and> a_status (g a) \<noteq> AOpen) (attempt d)
       = open_count r d"
proof -
  have "open_count r d' = count_where (\<lambda>a. counts_for r d a \<and> a_status (g a) = AOpen) (attempt d)"
    unfolding open_count_def settledD(2) [OF assms(1)]
    by (rule count_where_map_eq) (rule settled_clean_counts [OF assms])
  then show ?thesis
    using count_where_split [of "counts_for r d" "attempt d" "\<lambda>a. a_status (g a) = AOpen"]
    by (simp add: open_count_def)
qed

section \<open>The counter under the statements that write it\<close>

lemma rc_active_frame: "repo_concurrency d' = repo_concurrency d \<Longrightarrow> rc_active_of r d' = rc_active_of r d"
  by (simp add: rc_active_of_def)

lemma get_row_seed:
  "get_row rc_repo r (repo_concurrency (seed_rc q d)) = (case get_row rc_repo r (repo_concurrency d) of
     Some c \<Rightarrow> Some c | None \<Rightarrow> if r = q then Some \<lparr>rc_repo = q, rc_active = 0\<rparr> else None)"
proof (cases "get_row rc_repo q (repo_concurrency d)")
  case None
  have "get_row rc_repo r [\<lparr>rc_repo = q, rc_active = 0\<rparr>] = (if r = q then Some \<lparr>rc_repo = q, rc_active = 0\<rparr> else None)"
    by (simp add: get_row_def)
  with None show ?thesis by (cases "r = q") (simp_all add: seed_rc_def get_row_append split: option.split)
next
  case (Some c)
  then show ?thesis by (auto simp: seed_rc_def split: option.split)
qed

lemma get_row_set_rc:
  "get_row rc_repo r (repo_concurrency (set_rc q n d))
    = map_option (\<lambda>c. if r = q then c\<lparr>rc_active := n\<rparr> else c) (get_row rc_repo r (repo_concurrency d))"
proof (cases "get_row rc_repo r (repo_concurrency d)")
  case (Some c)
  from get_row_Some [OF this] Some show ?thesis by (simp add: set_rc_def get_row_upd_where)
qed (simp add: set_rc_def get_row_upd_where)

lemma rc_active_set: "rc_active_of r (set_rc q n (seed_rc q d)) = (if r = q then n else rc_active_of r d)"
  by (simp add: rc_active_of_def get_row_set_rc get_row_seed split: option.split)

lemma rc_active_dec:
  "rc_active_of r (dec_rc ro n d) = (if ro = Some r \<and> 0 \<le> n then max (rc_active_of r d - n) 0
     else if ro = Some r then rc_active_of r (dec_rc ro n d) else rc_active_of r d)"
  by (cases ro) (auto simp: rc_active_of_def dec_rc_def get_row_upd_where dest!: get_row_Some
      split: option.splits)

lemma rc_active_dec_fold:
  assumes "distinct rs"
  shows "rc_active_of r (fold (\<lambda>q. dec_rc (Some q) (int (m q))) rs d)
    = (if r \<in> set rs then max (rc_active_of r d - int (m r)) 0 else rc_active_of r d)"
  using assms by (induction rs arbitrary: d) (auto simp: rc_active_dec)

lemma rc_lock_order_props: "sorted (rc_lock_order rs)" "distinct (rc_lock_order rs)" "set (rc_lock_order rs) = set rs"
  by (simp_all add: rc_lock_order_def)

lemma rc_active_apply_decs:
  assumes "0 \<le> rc_active_of r d"
  shows "rc_active_of r (apply_decs rs d) = max (rc_active_of r d - int (count_list rs r)) 0"
proof -
  have "r \<notin> set rs \<Longrightarrow> count_list rs r = 0" by (simp add: count_list_0_iff)
  with assms show ?thesis
    unfolding apply_decs_def rc_active_dec_fold [OF rc_lock_order_props(2)] rc_lock_order_props(3)
    by auto
qed

section \<open>Exactness\<close>

text \<open>
  The counter is exact when no open attempt is orphaned and the cached number of every
  repository is the number of its open attempts.
\<close>

definition exact :: "db \<Rightarrow> bool" where
  "exact d \<longleftrightarrow> no_orphans d \<and> (\<forall>r. rc_active_of r d = int (open_count r d))"

lemma exactI: "\<lbrakk>no_orphans d; \<And>r. rc_active_of r d = int (open_count r d)\<rbrakk> \<Longrightarrow> exact d"
  by (simp add: exact_def)

lemma no_orphans_frame: "job d' = job d \<Longrightarrow> attempt d' = attempt d \<Longrightarrow> no_orphans d' \<longleftrightarrow> no_orphans d"
  by (simp add: no_orphans_def orphan_def get_job_def)

lemma exact_frame:
  "\<lbrakk>exact d; job d' = job d; attempt d' = attempt d; repo_concurrency d' = repo_concurrency d\<rbrakk> \<Longrightarrow> exact d'"
  unfolding exact_def by (metis no_orphans_frame rc_active_frame open_count_frame)

lemma exact_settled:
  assumes "settled reg f g d d'" "keys_ok d" "clean f g d" "exact d"
    and "\<And>r. rc_active_of r d' = max (rc_active_of r d
        - int (count_where (\<lambda>a. counts_for r d a \<and> a_status (g a) \<noteq> AOpen) (attempt d))) 0"
  shows "exact d'"
proof (rule exactI)
  show "no_orphans d'"
    using assms(4) settled_attempt(3) [OF assms(1)]
    by (intro settled_clean_no_orphans [OF assms(1-3)]) (auto simp: exact_def intro: no_orphansD [OF _ assms(2)])
  fix r
  show "rc_active_of r d' = int (open_count r d')"
    using assms(4) settled_clean_open_count [OF assms(1-3), of r] unfolding assms(5) exact_def by simp
qed

lemma exact_settled_one:
  assumes "settled reg f g d d'" "keys_ok d" "exact d"
    and a: "a \<in> set (attempt d)" "a_status a = AOpen" "j \<in> set (job d)" "j_id j = a_job a"
    and g: "\<And>x. x \<in> set (attempt d) \<Longrightarrow> a_status x = AOpen \<Longrightarrow> a_status (g x) \<noteq> AOpen \<longleftrightarrow> x = a"
    and f: "\<And>k. k \<in> set (job d) \<Longrightarrow> j_id k \<noteq> a_job a \<Longrightarrow> f k = k"
    and one: "one_open d" and rc: "repo_concurrency d' = repo_concurrency (dec_rc (j_repo j) 1 d)"
  shows "exact d'"
proof (rule exact_settled [OF assms(1,2) _ assms(3)])
  show "clean f g d"
    unfolding clean_def
  proof (intro ballI impI, elim conjE)
    fix x k assume x: "x \<in> set (attempt d)" "k \<in> set (job d)" "j_id k = a_job x" "a_status (g x) = AOpen"
      "live_status (j_status k)"
    have xo: "a_status x = AOpen" by (rule settled_attempt(3) [OF assms(1) x(1,4)])
    with g x have "x \<noteq> a" by blast
    then have "a_job x \<noteq> a_job a" using one xo x(1) a unfolding one_open_def by blast
    with f x show "live_status (j_status (f k))" by simp
  qed
  have live: "live_status (j_status j)" using assms(3) a no_orphansD [OF _ assms(2)] by (auto simp: exact_def)
  have job: "get_job (a_job a) d = Some j" using a assms(2) by (simp add: get_job_iff)
  fix r
  have "counts_for r d x \<and> a_status (g x) \<noteq> AOpen \<longleftrightarrow> a_id x = a_id a \<and> j_repo j = Some r"
    if "x \<in> set (attempt d)" for x
    using that g a job live attempt_same [OF assms(2) that a(1)] by (auto simp: counts_for_def)
  then have "count_where (\<lambda>x. counts_for r d x \<and> a_status (g x) \<noteq> AOpen) (attempt d)
      = count_where (\<lambda>x. a_id x = a_id a \<and> j_repo j = Some r) (attempt d)"
    by (rule count_where_cong)
  also have "\<dots> = (if j_repo j = Some r then 1 else 0)"
    by (rule count_where_key [OF keys_okD(2) [OF assms(2)] a(1)])
  finally have c: "count_where (\<lambda>x. counts_for r d x \<and> a_status (g x) \<noteq> AOpen) (attempt d)
      = (if j_repo j = Some r then 1 else 0)" .
  have "0 \<le> rc_active_of r d" using assms(3) by (simp add: exact_def)
  then show "rc_active_of r d' = max (rc_active_of r d
      - int (count_where (\<lambda>x. counts_for r d x \<and> a_status (g x) \<noteq> AOpen) (attempt d))) 0"
    unfolding c rc_active_frame [OF rc] by (simp add: rc_active_dec)
qed

section \<open>Every verb keeps the counter exact\<close>

lemma inserted_exact:
  assumes "keys_ok d" "exact d" "inserted j d d'" "repo_concurrency d' = repo_concurrency d" "keys_ok d'"
  shows "exact d'"
proof (rule exactI)
  note I = assms(3) [unfolded inserted_def]
  have fresh: "a_job a \<noteq> j_id j" if "a \<in> set (attempt d)" for a
    using that keys_okD(3,5) [OF assms(1)] I by fastforce
  have get: "get_job (a_job a) d' = get_job (a_job a) d" if "a \<in> set (attempt d)" for a
    using fresh [OF that] I by (simp add: get_job_def get_row_append) (simp add: get_row_def split: option.splits)
  show "no_orphans d'"
    using assms(2) I get by (simp add: exact_def no_orphans_def orphan_def)
  have "open_count r d' = open_count r d" for r
    using I get by (auto simp: open_count_def counts_for_def intro!: count_where_cong)
  with assms(2) rc_active_frame [OF assms(4)] show "rc_active_of r d' = int (open_count r d')" for r
    by (simp add: exact_def)
qed

lemma lease_iter_rc:
  assumes "lease_iter cap now worker locked skip d = (d', out)" "pick_job cap locked skip d = Some j"
  shows "rc_active_of r d' = (if j_repo j = Some r
     then int (open_count r d) + (if cap \<le> int (open_count r d) then 0 else 1) else rc_active_of r d)"
proof (cases "j_repo j")
  case None
  note j = pick_job_Some [OF assms(2)]
  with assms None have "repo_concurrency d' = repo_concurrency d"
    by (auto simp: lease_iter_def new_id_def claim_Some leasable_def)
  from rc_active_frame [OF this] None show ?thesis by simp
next
  case (Some q)
  define d2 where "d2 = seed_rc q (d\<lparr>next_id := Suc (next_id d)\<rparr>)"
  note j = pick_job_Some [OF assms(2)]
  have jj: "j \<in> set (job d2)" "j_status j = JQueued" using j by (simp_all add: d2_def leasable_def)
  have n: "open_count q d2 = open_count q d" unfolding d2_def by (rule open_count_frame) simp_all
  have base: "rc_active_of r (d\<lparr>next_id := Suc (next_id d)\<rparr>) = rc_active_of r d" by (rule rc_active_frame) simp
  have d': "d' = (if cap \<le> int (open_count q d) then set_rc q (int (open_count q d)) d2
      else set_rc q (int (open_count q d) + 1) (fst (claim now worker (j_id j) (next_id d) d2)))"
    using assms Some unfolding claim_Some [OF jj]
    by (auto simp: lease_iter_def new_id_def Let_def claim_Some [OF jj] n simp flip: d2_def split: if_splits)
  have frame: "repo_concurrency (set_rc q m (fst (claim now worker (j_id j) (next_id d) d2)))
      = repo_concurrency (set_rc q m d2)" for m
    unfolding claim_Some [OF jj] by (simp add: set_rc_def)
  have "rc_active_of r (set_rc q m d2) = (if r = q then m else rc_active_of r d)" for m
    unfolding d2_def rc_active_set base ..
  with Some show ?thesis unfolding d' using rc_active_frame [OF frame] by auto
qed

lemma claimed_no_orphans:
  assumes "keys_ok d" "no_orphans d" "claimed now worker j d d'" "keys_ok d'"
  shows "no_orphans d'"
proof (rule no_orphansI [OF assms(4)])
  note C = assms(3) [unfolded claimed_def]
  fix a k assume a: "a \<in> set (attempt d')" "a_status a = AOpen" "k \<in> set (job d')" "j_id k = a_job a"
  from a C obtain k0 where k0: "k0 \<in> set (job d)" "k = leased_row (j_id j) k0" by auto
  show "live_status (j_status k)"
  proof (cases "a \<in> set (attempt d)")
    case True
    with C a have "a_job a \<noteq> j_id j" by (auto simp: has_open_def)
    with k0 a have "k = k0" by simp
    with no_orphansD [OF assms(2,1) True a(2)] k0 a show ?thesis by simp
  next
    case False
    with a C have "a_job a = j_id j" by (simp add: new_attempt_def)
    with a k0 C job_same [OF assms(1)] have "k0 = j" by simp
    with k0 C show ?thesis by (simp add: leased_row_def live_status_def)
  qed
qed

lemma lease_exact:
  assumes "core reg cap d" "exact d" "lease_iter cap now worker locked skip d = (d', out)"
  shows "exact d'"
  using assms(3)
proof (cases rule: lease_iter_cases)
  case idle
  with assms show ?thesis by simp
next
  case (full j r)
  note rc = lease_iter_rc [OF assms(3) full(4)]
  from full open_count_frame [OF full(1,2)] rc no_orphans_frame [OF full(1,2)] assms(2) show ?thesis
    by (auto simp: exact_def)
next
  case (leased j)
  note K = coreD(1) [OF assms(1)] and K' = coreD(1) [OF lease_iter_core [OF assms(1,3)]]
  show ?thesis
  proof (rule exactI)
    show "no_orphans d'"
      using assms(2) by (intro claimed_no_orphans [OF K _ leased(2) K']) (simp add: exact_def)
    fix r
    show "rc_active_of r d' = int (open_count r d')"
      using lease_iter_rc [OF assms(3) leased(1), of r] leased(4) assms(2)
      by (auto simp: claimed_open_count [OF K leased(2)] exact_def)
  qed
qed

lemma dec_rc_rc:
  "repo_concurrency x = repo_concurrency y \<Longrightarrow> repo_concurrency (dec_rc ro n x) = repo_concurrency (dec_rc ro n y)"
  by (simp add: dec_rc_def split: option.split)

lemma complete_exact:
  assumes "core reg cap d" "exact d" "complete_attempt now aid res d = Inr d'"
  shows "exact d'"
proof -
  note K = coreD(1) [OF assms(1)]
  from assms(3) obtain a j where aj: "open_live aid d = Some (a, j)"
    by (auto simp: complete_attempt_def split: option.splits)
  note L = aj [unfolded open_live_iff [OF K]]
  show ?thesis
  proof (rule exact_settled_one [OF complete_settled [OF K aj assms(3)] K assms(2)])
    show "a \<in> set (attempt d)" "a_status a = AOpen" "j \<in> set (job d)" "j_id j = a_job a" using L by blast+
    show "one_open d" by (rule coreD(2) [OF assms(1)])
    show "repo_concurrency d' = repo_concurrency (dec_rc (j_repo j) 1 d)"
      using assms(3) aj by (auto simp: complete_attempt_def Let_def intro!: dec_rc_rc)
  qed (use open_live_unique(1) [OF K aj] in \<open>auto split: if_splits\<close>)
qed

lemma fail_exact:
  assumes "core reg cap d" "exact d" "fail_attempt reg now aid res d = Inr d'"
  shows "exact d'"
proof (rule fail_attempt_shape [OF assms(3)])
  note K = coreD(1) [OF assms(1)]
  fix a j st why
  assume a: "get_attempt aid d = Some a" "a_status a = AOpen" and j: "get_job (a_job a) d = Some j"
    and r: "fail_route reg res (j_to_agent j) (n_attempts (a_job a) d) = (st, why)"
    and d': "job d' = map (\<lambda>k. if j_id k = a_job a \<and> live_status (j_status k) then k\<lparr>j_status := st\<rparr> else k) (job d)"
      "attempt d' = map (\<lambda>x. if a_id x = aid then fail_row now res x else x) (attempt d)"
      "next_id d \<le> next_id d'"
    and e: "d' = dec_rc (j_repo j) 1 (case why of
       None \<Rightarrow> set_job_status (\<lambda>i. i = a_job a) live_status st
                (d\<lparr>attempt := upd_where (\<lambda>x. a_id x = aid) (fail_row now res) (attempt d)\<rparr>)
     | Some w \<Rightarrow> dead_letter_verb now (a_job a) w (set_job_status (\<lambda>i. i = a_job a) live_status st
                (d\<lparr>attempt := upd_where (\<lambda>x. a_id x = aid) (fail_row now res) (attempt d)\<rparr>)))"
  have ua: "x \<in> set (attempt d) \<Longrightarrow> a_id x = aid \<longleftrightarrow> x = a" for x
    using a(1) K by (metis get_attempt_iff attempt_same)
  show ?thesis
  proof (rule exact_settled_one [OF fail_settled [OF K a j r d'] K assms(2)])
    show "a \<in> set (attempt d)" "a_status a = AOpen" "j \<in> set (job d)" "j_id j = a_job a"
      using a j K by (simp_all add: get_attempt_iff get_job_iff)
    show "one_open d" by (rule coreD(2) [OF assms(1)])
    show "repo_concurrency d' = repo_concurrency (dec_rc (j_repo j) 1 d)"
      unfolding e by (rule dec_rc_rc) (simp split: option.split)
  qed (use ua in \<open>auto simp: fail_row_def split: if_splits\<close>)
qed

lemma cancel_rc:
  assumes "keys_ok d" "j \<in> set (job d)" "j_id j = i"
  shows "repo_concurrency (cancel now i d)
    = (if has_open i d then repo_concurrency (dec_rc (j_repo j) 1 d) else repo_concurrency d)"
proof -
  define d2 where "d2 = cancel_stmt2 i (fst (cancel_stmt1 now i d))"
  have d2: "repo_concurrency d2 = repo_concurrency d"
    by (simp add: d2_def cancel_stmt2_def cancel_stmt1_def)
  have "get_job i d = Some j" using assms by (simp add: get_job_iff)
  then have "\<exists>k. get_job i d2 = Some k \<and> j_repo k = j_repo j"
    by (simp add: d2_def cancel_stmt2_def cancel_stmt1_def get_job_def set_job_status_def get_row_upd_where)
  then have "cancel now i d = (if has_open i d then dec_rc (j_repo j) 1 d2 else d2)"
    by (auto simp: cancel_def cancel_stmt3_def d2_def cancel_stmt1_def)
  then show ?thesis using d2 dec_rc_rc [OF d2] by simp
qed

lemma cancel_exact:
  assumes "core reg cap d" "exact d"
  shows "exact (cancel now i d)"
proof -
  note K = coreD(1) [OF assms(1)] and s = cancel_settled [of reg i now d]
  show ?thesis
  proof (cases "has_open i d")
    case True
    then obtain a where a: "a \<in> set (attempt d)" "a_job a = i" "a_status a = AOpen" by (auto simp: has_open_def)
    then obtain j where j: "j \<in> set (job d)" "j_id j = a_job a" using keys_okD(5) [OF K] by blast
    have one: "one_open d" by (rule coreD(2) [OF assms(1)])
    show ?thesis
    proof (rule exact_settled_one [OF s K assms(2) a(1,3) j _ _ one])
      show "repo_concurrency (cancel now i d) = repo_concurrency (dec_rc (j_repo j) 1 d)"
        using cancel_rc [OF K j(1)] j a True by simp
    qed (use a one in \<open>auto simp: one_open_def\<close>)
  next
    case False
    then have idle: "\<not> (a_job a = i \<and> a_status a = AOpen)" if "a \<in> set (attempt d)" for a
      using that by (auto simp: has_open_def)
    have nl: "\<not> live_status (j_status j)" if "j \<in> set (job d)" "j_id j = i" for j
      using that False coreD(3) [OF assms(1)] by (auto simp: live_leased_def)
    have rc: "repo_concurrency (cancel now i d) = repo_concurrency d"
      using False by (simp add: cancel_def cancel_stmt1_def cancel_stmt2_def cancel_stmt3_def)
    show ?thesis
    proof (rule exact_settled [OF s K _ assms(2)])
      show "clean (\<lambda>k. if j_id k = i \<and> j_status k \<in> {JQueued, JLeased, JRunning} then k\<lparr>j_status := JDead\<rparr> else k)
          (\<lambda>a. if a_job a = i \<and> a_status a = AOpen
            then a\<lparr>a_status := AFailed, a_ended := Some now, a_error := Some Terminal\<rparr> else a) d"
        using nl by (auto simp: clean_def)
      fix r
      have "count_where (\<lambda>a. counts_for r d a \<and> a_status (if a_job a = i \<and> a_status a = AOpen
          then a\<lparr>a_status := AFailed, a_ended := Some now, a_error := Some Terminal\<rparr> else a) \<noteq> AOpen) (attempt d) = 0"
        using idle by (auto simp: count_where_0_iff counts_for_def)
      with rc_active_frame [OF rc] assms(2) show "rc_active_of r (cancel now i d) = max (rc_active_of r d
          - int (count_where (\<lambda>a. counts_for r d a \<and> a_status (if a_job a = i \<and> a_status a = AOpen
          then a\<lparr>a_status := AFailed, a_ended := Some now, a_error := Some Terminal\<rparr> else a) \<noteq> AOpen) (attempt d))) 0"
        by (simp add: exact_def)
    qed
  qed
qed

lemma heartbeat_exact:
  assumes "core reg cap d" "exact d" "heartbeat_attempt now aid d = Inr d'"
  shows "exact d'"
proof -
  from assms(3) have d': "d' = d\<lparr>attempt := upd_where (\<lambda>a. a_id a = aid)
       (\<lambda>a. a\<lparr>a_expires := now + HEARTBEAT_SECONDS\<rparr>) (attempt d)\<rparr>"
    by (auto simp: heartbeat_attempt_def split: option.splits)
  have "open_count r d' = open_count r d" for r
    unfolding open_count_def d' by (simp, rule count_where_upd_eq) (simp add: counts_for_def get_job_def)
  with assms(2) show ?thesis
    by (auto simp: exact_def no_orphans_def orphan_def get_job_def rc_active_of_def d' in_upd_where split: if_splits)
qed

lemma close_none: "(\<And>a. a \<in> set (attempt d) \<Longrightarrow> \<not> P (a_id a)) \<Longrightarrow> close_attempts P now e d = d"
  by (simp add: close_attempts_def upd_where_id)

lemma orphans_none:
  "no_orphans d \<Longrightarrow> filter (\<lambda>a. orphan d a \<and> a_id a \<notin> set locked) (attempt d) = []"
  by (auto simp: no_orphans_def filter_empty_conv)

lemma count_freed:
  assumes "\<And>a. a \<in> set rows \<Longrightarrow> a_status a = AOpen \<and> (\<exists>j. get_job (a_job a) d = Some j \<and> live_status (j_status j))"
  shows "count_list (freed_repos d rows) r = count_where (counts_for r d) rows"
  using assms
proof (induction rows)
  case (Cons a rows)
  then obtain j where "get_job (a_job a) d = Some j" "live_status (j_status j)" "a_status a = AOpen" by auto
  with Cons show ?case
    by (cases "j_repo j") (auto simp: freed_repos_def repo_of_attempt_def counts_for_def)
qed (simp add: freed_repos_def)

lemma count_where_part:
  assumes "distinct T" "set rows \<subseteq> set T" "distinct rows"
  shows "count_where (\<lambda>a. P a \<and> a \<in> set rows) T = count_where P rows"
proof -
  have "set (filter (\<lambda>a. P a \<and> a \<in> set rows) T) = set (filter P rows)" using assms(2) by auto
  then show ?thesis
    unfolding count_where_def using assms distinct_card distinct_filter by metis
qed

abbreviation (input) expire_row :: "time \<Rightarrow> attempt_row list \<Rightarrow> attempt_row \<Rightarrow> attempt_row" where
  "expire_row now rows a \<equiv> (if a_id a \<in> a_id ` set rows
     then a\<lparr>a_status := AFailed, a_ended := Some now, a_error := Some Retryable\<rparr> else a)"

text \<open>The batch of one reclaim: unlocked rows whose lease has expired, so their jobs are live.\<close>

definition reclaim_batch :: "time \<Rightarrow> db \<Rightarrow> attempt_row list \<Rightarrow> bool" where
  "reclaim_batch now d rows \<longleftrightarrow> distinct rows \<and> (\<forall>a \<in> set rows. a \<in> set (attempt d) \<and> expired now d a)"

lemma reclaim_batchD:
  assumes "reclaim_batch now d rows" "a \<in> set rows"
  shows "a \<in> set (attempt d)" "expired now d a" "a_status a = AOpen"
    "\<exists>j. get_job (a_job a) d = Some j \<and> live_status (j_status j)"
  using assms by (auto simp: reclaim_batch_def expired_def split: option.splits)

lemma reclaim_batch_ids:
  assumes "keys_ok d" "reclaim_batch now d rows" "a \<in> set (attempt d)"
  shows "a_id a \<in> a_id ` set rows \<longleftrightarrow> a \<in> set rows"
  using assms(3) reclaim_batchD(1) [OF assms(2)] attempt_same [OF assms(1)] by (auto simp: image_iff)

lemma reclaim_clean:
  assumes "keys_ok d" "one_open d" "reclaim_batch now d rows"
  shows "clean (reclaim_job_row reg d2 rows) (expire_row now rows) d"
  unfolding clean_def
proof (intro ballI impI, elim conjE)
  fix a j assume a: "a \<in> set (attempt d)" "j \<in> set (job d)" "j_id j = a_job a" "live_status (j_status j)"
    "a_status (expire_row now rows a) = AOpen"
  then have no: "a \<notin> set rows" "a_status a = AOpen"
    using reclaim_batch_ids [OF assms(1,3) a(1)] by (auto split: if_splits)
  have "a_job b \<noteq> j_id j" if "b \<in> set rows" for b
    using that no a reclaim_batchD(1,3) [OF assms(3) that] assms(2) unfolding one_open_def by metis
  with a show "live_status (j_status (reclaim_job_row reg d2 rows j))"
    by (auto simp: reclaim_job_row_def)
qed

lemma reclaim_closed_count:
  assumes "keys_ok d" "reclaim_batch now d rows"
  shows "count_where (\<lambda>a. counts_for r d a \<and> a_status (expire_row now rows a) \<noteq> AOpen) (attempt d)
    = count_list (freed_repos d rows) r"
proof -
  have dis: "distinct (attempt d)" using keys_okD(2) [OF assms(1)] by (simp add: distinct_map)
  have "count_where (\<lambda>a. counts_for r d a \<and> a_status (expire_row now rows a) \<noteq> AOpen) (attempt d)
      = count_where (\<lambda>a. counts_for r d a \<and> a \<in> set rows) (attempt d)"
    by (rule count_where_cong) (auto simp: reclaim_batch_ids [OF assms] counts_for_def)
  also have "\<dots> = count_where (counts_for r d) rows"
    by (rule count_where_part [OF dis]) (use assms(2) in \<open>auto simp: reclaim_batch_def\<close>)
  also have "\<dots> = count_list (freed_repos d rows) r"
    by (rule count_freed [symmetric]) (use reclaim_batchD(3,4) [OF assms(2)] in blast)
  finally show ?thesis .
qed

lemma reclaim_batch_take:
  assumes "keys_ok d" "rows = take n (filter (\<lambda>a. expired now d a \<and> unlocked locked a) (attempt d))"
  shows "reclaim_batch now d rows"
  unfolding reclaim_batch_def assms(2) using keys_okD(2) [OF assms(1)]
  by (auto simp: distinct_map dest!: in_set_takeD)

lemma reclaim_exact:
  assumes "core reg cap d" "exact d"
  shows "exact (fst (reclaim_expired reg now locked d))"
proof (rule reclaim_stages [OF coreD(1) [OF assms(1)] prod.collapse [symmetric]])
  let ?d' = "fst (reclaim_expired reg now locked d)"
  fix d1 d2 rows orphans
  assume o: "orphans = filter (\<lambda>a. orphan d a \<and> a_id a \<notin> set locked) (attempt d)"
    and d1: "d1 = close_attempts (\<lambda>i. i \<in> a_id ` set orphans) now Terminal d"
    and rows: "rows = take RECLAIM_BATCH (filter (\<lambda>a. expired now d1 a \<and> unlocked locked a) (attempt d1))"
    and d2: "d2 = close_attempts (\<lambda>i. i \<in> a_id ` set rows) now Retryable d1"
    and s: "settled reg (reclaim_job_row reg d2 rows) (\<lambda>a. expire_row now rows a) d1 ?d'"
    and rc: "repo_concurrency ?d' = repo_concurrency (apply_decs (freed_repos d orphans @ freed_repos d1 rows) d2)"
  have "orphans = []" unfolding o by (rule orphans_none) (use assms(2) in \<open>simp add: exact_def\<close>)
  then have d1: "d1 = d" and fr: "freed_repos d orphans = []" unfolding d1 by (simp_all add: close_none freed_repos_def)
  note K = coreD(1) [OF assms(1)] and s = s [unfolded d1] and rc = rc [unfolded d1 fr append_Nil]
  have b: "reclaim_batch now d rows" by (rule reclaim_batch_take [OF K rows [unfolded d1]])
  show ?thesis
  proof (rule exact_settled [OF s K reclaim_clean [OF K coreD(2) [OF assms(1)] b] assms(2)])
    fix r
    have e: "rc_active_of r d2 = rc_active_of r d" by (rule rc_active_frame) (simp add: d2 d1)
    have "0 \<le> rc_active_of r d2" using e assms(2) by (simp add: exact_def)
    from rc_active_apply_decs [OF this, of "freed_repos d rows"]
    show "rc_active_of r ?d' = max (rc_active_of r d - int (count_where (\<lambda>a. counts_for r d a
        \<and> a_status (expire_row now rows a) \<noteq> AOpen) (attempt d))) 0"
      unfolding reclaim_closed_count [OF K b] rc_active_frame [OF rc] e .
  qed
qed

lemma close_orphans_exact_part:
  assumes "keys_ok d" "\<And>a. a \<in> set (attempt d) \<Longrightarrow> orphan d a \<Longrightarrow> a_id a \<notin> set locked"
    and d1: "d1 = close_attempts (\<lambda>i. i \<in> a_id ` set (filter (\<lambda>a. orphan d a \<and> a_id a \<notin> set locked)
                (attempt d))) now e d"
  shows "no_orphans d1"
  unfolding no_orphans_def
proof
  fix x assume "x \<in> set (attempt d1)"
  then obtain a where a: "a \<in> set (attempt d)" "x = (if a_id a \<in> a_id ` set (filter (\<lambda>a. orphan d a \<and> a_id a \<notin> set locked)
      (attempt d)) then a\<lparr>a_status := AFailed, a_ended := Some now, a_error := Some e\<rparr> else a)"
    by (auto simp: d1 close_attempts_def in_upd_where)
  show "\<not> orphan d1 x"
  proof (cases "orphan d a")
    case True
    with a assms(2) have "a_status x = AFailed" by auto
    then show ?thesis by (simp add: orphan_def)
  next
    case False
    with orphans_pick(1) [OF assms(1) a(1), of locked] have "x = a" unfolding a(2) by (meson if_not_P)
    moreover have "orphan d1 a \<longleftrightarrow> orphan d a" by (rule orphan_frame) (simp add: d1)
    ultimately show ?thesis using False by simp
  qed
qed

lemma live_repos_iff: "r \<in> set (live_repos d) \<longleftrightarrow> 0 < open_count r d"
proof -
  have "(case get_job (a_job a) d of None \<Rightarrow> False | Some j \<Rightarrow> live_status (j_status j))
      \<and> r \<in> set (case repo_of_attempt d a of None \<Rightarrow> [] | Some r \<Rightarrow> [r]) \<longleftrightarrow>
    (case get_job (a_job a) d of None \<Rightarrow> False | Some j \<Rightarrow> j_repo j = Some r \<and> live_status (j_status j))" for a
    by (auto simp: repo_of_attempt_def split: option.splits)
  then show ?thesis
    unfolding open_count_def count_where_pos_iff counts_for_def live_repos_def freed_repos_def by force
qed

lemma live_repos_frame: "job d' = job d \<Longrightarrow> attempt d' = attempt d \<Longrightarrow> live_repos d' = live_repos d"
  by (simp add: live_repos_def freed_repos_def repo_of_attempt_def get_job_def)

lemma heal_fold_rc:
  "rc_active_of r (fold heal_rc rs d) = (if r \<in> set rs then int (open_count r d) else rc_active_of r d)"
proof (induction rs arbitrary: d)
  case (Cons q rs)
  have "rc_active_of r (heal_rc q d) = (if r = q then int (open_count q d) else rc_active_of r d)"
    unfolding heal_rc_def by (rule rc_active_set)
  moreover have "open_count r (heal_rc q d) = open_count r d"
    by (rule open_count_frame) (simp_all add: heal_rc_def)
  ultimately show ?case using Cons [of "heal_rc q d"] by (cases "r = q") simp_all
qed simp

lemma rc_active_zero_rest:
  "rc_active_of r (d\<lparr>repo_concurrency := upd_where (\<lambda>c. rc_active c \<noteq> 0 \<and> rc_repo c \<notin> L)
      (\<lambda>c. c\<lparr>rc_active := 0\<rparr>) (repo_concurrency d)\<rparr>) = (if r \<in> L then rc_active_of r d else 0)"
  by (auto simp: rc_active_of_def get_row_upd_where dest!: get_row_Some split: option.splits)

lemma reconcile_exact:
  assumes "keys_ok d" "\<And>a. a \<in> set (attempt d) \<Longrightarrow> orphan d a \<Longrightarrow> a_id a \<notin> set locked"
  shows "exact (fst (reconcile_repo_concurrency now locked d))"
proof (rule exactI)
  define d1 where "d1 = close_attempts (\<lambda>i. i \<in> a_id ` set (filter (\<lambda>a. orphan d a \<and> a_id a \<notin> set locked)
                                       (attempt d))) now Terminal d"
  define d2 where "d2 = fold heal_rc (live_repos d1) d1"
  let ?d' = "fst (reconcile_repo_concurrency now locked d)"
  have d': "?d' = d2\<lparr>repo_concurrency := upd_where (\<lambda>c. rc_active c \<noteq> 0 \<and> rc_repo c \<notin> set (live_repos d2))
               (\<lambda>c. c\<lparr>rc_active := 0\<rparr>) (repo_concurrency d2)\<rparr>"
    by (simp add: reconcile_repo_concurrency_def Let_def d1_def d2_def)
  have same: "job ?d' = job d1" "attempt ?d' = attempt d1" unfolding d' d2_def by simp_all
  show "no_orphans ?d'"
    unfolding no_orphans_frame [OF same] by (rule close_orphans_exact_part [OF assms d1_def])
  fix r
  have "live_repos d2 = live_repos d1" by (rule live_repos_frame) (simp_all add: d2_def)
  then have "rc_active_of r ?d' = (if r \<in> set (live_repos d1) then int (open_count r d1) else 0)"
    unfolding d' rc_active_zero_rest by (simp add: d2_def heal_fold_rc)
  then show "rc_active_of r ?d' = int (open_count r ?d')"
    unfolding open_count_frame [OF same] by (auto simp: live_repos_iff)
qed

lemma ledger_step_exact:
  assumes "core reg cap d" "exact d" "ledger_step False reg cap d d'"
  shows "exact d'"
  using assms(3)
proof cases
  case (submit now s i)
  note K' = coreD(1) [OF ledger_step_core [OF assms(1,3)]]
  from submit_job_cases [OF submit] show ?thesis
    by (metis exact_frame [OF assms(2)] inserted_exact [OF coreD(1) [OF assms(1)] assms(2) _ _ K'])
next
  case (log now aid st chunk)
  then show ?thesis
    by (intro exact_frame [OF assms(2)]) (auto simp: append_log_def split: if_splits)
next
  case (enqueue now i body x)
  then obtain j where "d' = enqueue_reply now j body d" by (rule enqueue_outbound_frame)
  then show ?thesis by (intro exact_frame [OF assms(2)]) simp_all
next
  case (reconcile now locked)
  then show ?thesis
    using assms(2) reconcile_exact [OF coreD(1) [OF assms(1)], of locked now] unfolding exact_def no_orphans_def by blast
qed (use assms in \<open>auto intro: lease_exact heartbeat_exact complete_exact fail_exact reclaim_exact cancel_exact
    exact_frame simp: mark_outbound_sent_def mark_outbound_sent_inline_def\<close>)

lemma exact_empty: "exact empty_db"
  by (simp add: exact_def no_orphans_def empty_db_def rc_active_of_def open_count_def get_row_def)

interpretation serial_ledger: invariant_system "ledger_step False reg cap" "\<lambda>d. core reg cap d \<and> exact d"
  for reg :: registry and cap :: int
  by unfold_locales (blast intro: ledger_step_core ledger_step_exact)

section \<open>Recovery\<close>

lemma close_orphans_expired:
  assumes "keys_ok d" and d1: "d1 = close_attempts (\<lambda>i. i \<in> a_id ` set (filter (\<lambda>a. orphan d a \<and> a_id a \<notin> set locked)
                (attempt d))) now e d"
  shows "count_where (\<lambda>a. expired t d1 a) (attempt d1) = count_where (\<lambda>a. expired t d a) (attempt d)"
    "a \<in> set (attempt d) \<Longrightarrow> expired t d a \<Longrightarrow> a \<in> set (attempt d1) \<and> expired t d1 a"
proof -
  let ?P = "\<lambda>i. i \<in> a_id ` set (filter (\<lambda>a. orphan d a \<and> a_id a \<notin> set locked) (attempt d))"
  have fr: "expired t d1 a \<longleftrightarrow> expired t d a" for a by (rule expired_frame) (simp add: d1)
  have no: "\<not> expired t d a" if "a \<in> set (attempt d)" "?P (a_id a)" for a
    using orphans_pick(1) [OF assms(1) that] by (auto simp: orphan_def expired_def split: option.splits)
  have at: "attempt d1 = upd_where (\<lambda>a. ?P (a_id a))
      (\<lambda>a. a\<lparr>a_status := AFailed, a_ended := Some now, a_error := Some e\<rparr>) (attempt d)"
    by (simp add: d1 close_attempts_def)
  have "(if ?P (a_id a) then expired t d1 (a\<lparr>a_status := AFailed, a_ended := Some now, a_error := Some e\<rparr>)
      else expired t d1 a) \<longleftrightarrow> expired t d a" if "a \<in> set (attempt d)" for a
    using no [OF that] fr by (auto simp: expired_def)
  then show "count_where (\<lambda>a. expired t d1 a) (attempt d1) = count_where (\<lambda>a. expired t d a) (attempt d)"
    unfolding at by (rule count_where_upd_eq)
  assume a: "a \<in> set (attempt d)" "expired t d a"
  with no have "\<not> ?P (a_id a)" by blast
  with a fr show "a \<in> set (attempt d1) \<and> expired t d1 a" unfolding at in_upd_where by auto
qed

lemma reclaim_job_row_fate:
  assumes "one_open d" "reclaim_batch now d rows" "a \<in> set rows" "j_id j = a_job a" "live_status (j_status j)"
  shows "reclaim_job_row reg d2 rows j = j\<lparr>j_status := if reclaim_fate reg d2 a = None then JQueued else JDead\<rparr>"
proof -
  have "b = a" if "b \<in> set rows" "a_job b = j_id j" for b
    using that assms(1,3,4) reclaim_batchD(1,3) [OF assms(2)] unfolding one_open_def by metis
  then have "(\<exists>b \<in> set rows. a_job b = j_id j \<and> P b) \<longleftrightarrow> P a" for P using assms(3,4) by metis
  with assms(5) show ?thesis by (simp add: reclaim_job_row_def)
qed

lemma reclaim_fate_iff:
  assumes "get_job (a_job a) d = Some j" "job d2 = job d" "n_attempts (a_job a) d2 = n_attempts (a_job a) d"
  shows "reclaim_fate reg d2 a = None \<longleftrightarrow> requeue_safe reg (j_to_agent j) \<and> n_attempts (a_job a) d < MAX_ATTEMPTS"
  using assms by (auto simp: reclaim_fate_def agent_of_attempt_def get_job_def)

lemma reclaim_recovers_core:
  assumes "core reg cap d" "a \<in> set (attempt d)" "expired now d a" "get_job (a_job a) d = Some j"
    and fits: "count_where (expired now d) (attempt d) \<le> RECLAIM_BATCH"
  shows "get_attempt (a_id a) (fst (reclaim_expired reg now [] d))
      = Some (a\<lparr>a_status := AFailed, a_ended := Some now, a_error := Some Retryable\<rparr>)"
    "get_job (a_job a) (fst (reclaim_expired reg now [] d)) = Some (j\<lparr>j_status :=
      if requeue_safe reg (j_to_agent j) \<and> n_attempts (a_job a) d < MAX_ATTEMPTS then JQueued else JDead\<rparr>)"
proof -
  let ?d' = "fst (reclaim_expired reg now [] d)"
  note K = coreD(1) [OF assms(1)]
  have "get_attempt (a_id a) ?d' = Some (a\<lparr>a_status := AFailed, a_ended := Some now, a_error := Some Retryable\<rparr>)
    \<and> get_job (a_job a) ?d' = Some (j\<lparr>j_status :=
      if requeue_safe reg (j_to_agent j) \<and> n_attempts (a_job a) d < MAX_ATTEMPTS then JQueued else JDead\<rparr>)"
  proof (rule reclaim_stages [OF K prod.collapse [symmetric]])
    fix d1 d2 rows orphans
    assume o: "orphans = filter (\<lambda>a. orphan d a \<and> a_id a \<notin> set []) (attempt d)"
      and d1: "d1 = close_attempts (\<lambda>i. i \<in> a_id ` set orphans) now Terminal d"
      and rows: "rows = take RECLAIM_BATCH (filter (\<lambda>a. expired now d1 a \<and> unlocked [] a) (attempt d1))"
      and d2: "d2 = close_attempts (\<lambda>i. i \<in> a_id ` set rows) now Retryable d1"
      and K1: "keys_ok d1" and s1: "settles reg d d1"
      and s: "settled reg (reclaim_job_row reg d2 rows) (\<lambda>a. expire_row now rows a) d1 ?d'"
    note E = close_orphans_expired [OF K d1 [unfolded o]]
    have "rows = filter (expired now d1) (attempt d1)"
      using fits E(1) [of now] by (simp add: rows unlocked_def count_where_def)
    then have ar: "a \<in> set rows" using E(2) [OF assms(2,3)] by simp
    have b: "reclaim_batch now d1 rows" by (rule reclaim_batch_take [OF K1 rows])
    have j1: "get_job (a_job a) d1 = Some j" using assms(4) by (simp add: d1)
    have live: "live_status (j_status j)" using assms(3,4) by (simp add: expired_def)
    have one: "one_open d1" using settles_core [OF s1 assms(1)] by (rule coreD(2))
    have jid: "j_id j = a_job a" using j1 K1 by (simp add: get_job_iff)
    have "get_job (a_job a) ?d' = Some (reclaim_job_row reg d2 rows j)"
      using settled_get_job [OF s K1] j1 by simp
    moreover have "get_attempt (a_id a) ?d' = Some (expire_row now rows a)"
      using settled_in(2) [OF s reclaim_batchD(1) [OF b ar]] ar settled_keys(4) [OF s K1]
      by (simp add: get_attempt_iff)
    moreover have "reclaim_fate reg d2 a = None \<longleftrightarrow> requeue_safe reg (j_to_agent j) \<and> n_attempts (a_job a) d < MAX_ATTEMPTS"
      by (rule reclaim_fate_iff [OF assms(4)]) (simp_all add: d2 d1)
    ultimately show ?thesis
      using reclaim_job_row_fate [OF one b ar jid live] ar by simp
  qed
  then show "get_attempt (a_id a) ?d' = Some (a\<lparr>a_status := AFailed, a_ended := Some now, a_error := Some Retryable\<rparr>)"
    "get_job (a_job a) ?d' = Some (j\<lparr>j_status :=
      if requeue_safe reg (j_to_agent j) \<and> n_attempts (a_job a) d < MAX_ATTEMPTS then JQueued else JDead\<rparr>)"
    by blast+
qed

section \<open>The theorems\<close>

text \<open>
  C6. Crash recovery: in any reachable database a janitor pass that sees no foreign row locks and
  whose batch covers the expired leases closes every expired attempt as a retryable failure and
  moves its job back to the queue exactly when its agent is retry-safe and the job is below the
  poison ceiling; otherwise the job goes dead.
\<close>

theorem reclaim_recovers:
  assumes "reach (ledger_step race reg cap) empty_db d"
    and "a \<in> set (attempt d)" "expired now d a" "get_job (a_job a) d = Some j"
    and "count_where (expired now d) (attempt d) \<le> RECLAIM_BATCH"
  shows "get_attempt (a_id a) (fst (reclaim_expired reg now [] d))
      = Some (a\<lparr>a_status := AFailed, a_ended := Some now, a_error := Some Retryable\<rparr>)
    \<and> get_job (a_job a) (fst (reclaim_expired reg now [] d)) = Some (j\<lparr>j_status :=
      if requeue_safe reg (j_to_agent j) \<and> n_attempts (a_job a) d < MAX_ATTEMPTS then JQueued else JDead\<rparr>)"
  using reclaim_recovers_core [OF reachable_core [OF assms(1)] assms(2-5)] by blast

text \<open>
  C7. The cached per-repository counter is exact as long as no cancel races with a lease: after
  any sequence of whole transactions it equals the number of open attempts of the repository,
  and no open attempt is orphaned. The clamp at zero is never what saves it.
\<close>

theorem counter_exact_serial:
  assumes "reach (ledger_step False reg cap) empty_db d"
  shows "rc_active_of r d = int (open_count r d) \<and> (\<forall>a. \<not> (a \<in> set (attempt d) \<and> orphan d a))"
  using serial_ledger.reach_inv [OF assms] core_empty exact_empty by (auto simp: exact_def no_orphans_def)

text \<open>
  Reconciliation heals any drift: from every reachable database, the cancel race included, one
  reconcile pass that meets no locked row leaves no orphaned open attempt and makes the cached
  counter of every repository, known or not, equal to the number of its open attempts.
\<close>

theorem reconcile_heals:
  assumes "reach (ledger_step race reg cap) empty_db d"
  shows "rc_active_of r (fst (reconcile_repo_concurrency now [] d))
      = int (open_count r (fst (reconcile_repo_concurrency now [] d)))
    \<and> (\<forall>a. \<not> (a \<in> set (attempt (fst (reconcile_repo_concurrency now [] d)))
         \<and> orphan (fst (reconcile_repo_concurrency now [] d)) a))"
  using reconcile_exact [OF coreD(1) [OF reachable_core [OF assms]], of "[]" now]
  by (auto simp: exact_def no_orphans_def)

end
