(* ===== verification/Ledger_Progress.thy ===== *)
theory Ledger_Progress
  imports Ledger_Recovery
begin

text \<open>
  What a lease call finds: the order it serves the queue in, and that its bounded re-PICK loop
  returns an attempt whenever a job is leasable and fewer repositories than the re-PICK budget
  have a stale cached counter.
\<close>

section \<open>Order\<close>

lemma pick_job_min:
  assumes "pick_job cap locked skip d = Some j" "k \<in> set (job d)" "leasable cap locked skip d k"
  shows "(- j_priority j, j_created_at j, j_id j) \<le> (- j_priority k, j_created_at k, j_id k)"
  using first_by_Some(2) [OF assms(1) [unfolded pick_job_def], of k] assms(2,3) by simp

lemma pick_job_None:
  "pick_job cap locked skip d = None \<longleftrightarrow> (\<forall>j \<in> set (job d). \<not> leasable cap locked skip d j)"
  by (simp add: pick_job_def first_by_None filter_empty_conv)

section \<open>Progress\<close>

text \<open>A repository whose cached counter admits a lease that the hard count refuses.\<close>

definition stale_repos :: "int \<Rightarrow> string list \<Rightarrow> db \<Rightarrow> string set" where
  "stale_repos cap skip d = {r. (\<exists>j \<in> set (job d). j_repo j = Some r) \<and> rc_active_of r d < cap
     \<and> cap \<le> int (open_count r d) \<and> r \<notin> set skip}"

text \<open>A job that both the cached counter and the hard count admit.\<close>

definition ready :: "int \<Rightarrow> uuid list \<Rightarrow> string list \<Rightarrow> db \<Rightarrow> job_row \<Rightarrow> bool" where
  "ready cap locked skip d j \<longleftrightarrow> j \<in> set (job d) \<and> leasable cap locked skip d j
     \<and> (case j_repo j of None \<Rightarrow> True | Some r \<Rightarrow> int (open_count r d) < cap)"

lemma finite_stale: "finite (stale_repos cap skip d)"
proof (rule finite_subset)
  show "stale_repos cap skip d \<subseteq> the ` j_repo ` set (job d)" by (force simp: stale_repos_def)
qed simp

lemma has_open_frame: "attempt d' = attempt d \<Longrightarrow> has_open i d' = has_open i d"
  by (simp add: has_open_def)

lemma lease_iter_full:
  assumes "lease_iter cap now worker locked skip d = (d', Repick skip')" "ready cap locked skip d k"
  shows "card (stale_repos cap skip' d') < card (stale_repos cap skip d)" "ready cap locked skip' d' k"
proof -
  from assms(1) obtain j r where f: "job d' = job d" "attempt d' = attempt d"
    "pick_job cap locked skip d = Some j" "j_repo j = Some r" "cap \<le> int (open_count r d)" "skip' = skip @ [r]"
    by (cases rule: lease_iter_cases) simp_all
  have oc: "open_count q d' = open_count q d" for q by (rule open_count_frame [OF f(1,2)])
  have rc: "rc_active_of q d' = (if q = r then int (open_count r d) else rc_active_of q d)" for q
    using lease_iter_rc [OF assms(1) f(3), of q] f(4,5) by auto
  note j = pick_job_Some [OF f(3)]
  have "r \<in> stale_repos cap skip d" using j f(4,5) by (auto simp: stale_repos_def leasable_def)
  moreover have "stale_repos cap skip' d' \<subseteq> stale_repos cap skip d - {r}"
    unfolding stale_repos_def oc rc f(1,6) by auto
  ultimately show "card (stale_repos cap skip' d') < card (stale_repos cap skip d)"
    using finite_stale [of cap skip d] by (meson card_Diff1_less card_mono finite_Diff order_le_less_trans)
  show "ready cap locked skip' d' k"
    using assms(2) f(5) unfolding ready_def leasable_def has_open_frame [OF f(2)] oc rc f(1,6)
    by (auto split: option.splits)
qed

lemma lease_loop_progress:
  assumes "card (stale_repos cap skip d) < n" "ready cap locked skip d k"
  shows "\<exists>aid. snd (lease_loop n cap now worker locked skip d) = Some aid"
  using assms
proof (induction n arbitrary: skip d)
  case (Suc n)
  obtain d' out where i: "lease_iter cap now worker locked skip d = (d', out)" by fastforce
  show ?case
  proof (cases out)
    case (Repick skip')
    with i have i': "lease_iter cap now worker locked skip d = (d', Repick skip')" by simp
    from lease_iter_full [OF i' Suc.prems(2)] Suc.prems(1)
    have "card (stale_repos cap skip' d') < n" "ready cap locked skip' d' k" by simp_all
    from Suc.IH [OF this] i' show ?thesis by simp
  next
    case Nothing_Leasable
    with i have "pick_job cap locked skip d = None" by (cases rule: lease_iter_cases) simp_all
    with Suc.prems(2) have False by (auto simp: pick_job_None ready_def)
    then show ?thesis ..
  qed (use i in simp)
qed simp

lemma lease_loop_sound:
  assumes "lease_loop n cap now worker locked skip d = (d', Some aid)"
  shows "\<exists>j d0 skip'. job d0 = job d \<and> attempt d0 = attempt d \<and> pick_job cap locked skip' d0 = Some j
    \<and> claimed now worker j d0 d' \<and> aid = next_id d0
    \<and> (case j_repo j of None \<Rightarrow> True | Some r \<Rightarrow> int (open_count r d) < cap)"
  using assms
proof (induction n arbitrary: skip d)
  case (Suc n)
  obtain e out where i: "lease_iter cap now worker locked skip d = (e, out)" by fastforce
  from i show ?case
  proof (cases rule: lease_iter_cases)
    case idle
    with i Suc.prems show ?thesis by simp
  next
    case (full j r)
    with i Suc.prems have "lease_loop n cap now worker locked (skip @ [r]) e = (d', Some aid)" by simp
    from Suc.IH [OF this] show ?thesis
      unfolding full(1,2) open_count_frame [OF full(1,2)] .
  next
    case (leased j)
    with i Suc.prems have "d' = e" "aid = next_id d" by simp_all
    with leased show ?thesis by (auto split: option.split intro!: exI [of _ j] exI [of _ d])
  qed
qed simp

section \<open>The theorems\<close>

text \<open>
  The queue is served in order: when a lease iteration opens an attempt, it is on a queued job
  without an open attempt, and no other job that was leasable then has a higher priority, nor the
  same priority and an earlier creation time.
\<close>

theorem lease_serves_first:
  assumes "lease_iter cap now worker locked skip d = (d', Leased_Attempt aid)"
  shows "\<exists>j. j \<in> set (job d) \<and> j_status j = JQueued \<and> \<not> has_open (j_id j) d
    \<and> attempt d' = attempt d @ [new_attempt now worker (j_id j) aid]
    \<and> (\<forall>k. \<not> (k \<in> set (job d) \<and> leasable cap locked skip d k \<and>
          (j_priority j < j_priority k \<or> j_priority j = j_priority k \<and> j_created_at k < j_created_at j)))"
  using assms
proof (cases rule: lease_iter_cases)
  case (leased j)
  have "\<not> (j_priority j < j_priority k \<or> j_priority j = j_priority k \<and> j_created_at k < j_created_at j)"
    if "k \<in> set (job d)" "leasable cap locked skip d k" for k
    using pick_job_min [OF leased(1) that] by auto
  with leased show ?thesis by (intro exI [of _ j]) (auto simp: claimed_def)
qed simp_all

text \<open>
  Lease progress: a lease call that runs without interference returns an attempt whenever a
  queued job is admitted by both the cached counter and the hard count and fewer than
  \<open>LEASE_MAX_REPICKS\<close> repositories have a cached counter below the cap while they are at it.
\<close>

theorem lease_job_progress:
  assumes "ready cap locked [] d j" "card (stale_repos cap [] d) < LEASE_MAX_REPICKS"
  shows "\<exists>aid. snd (lease_job cap now worker locked d) = Some aid"
  unfolding lease_job_def by (rule lease_loop_progress [OF assms(2,1)])

text \<open>
  C8. Without the cancel race a lease call is complete: it returns nothing exactly when every
  queued job belongs to a repository that is at its cap.
\<close>

theorem lease_job_complete_serial:
  assumes "reach (ledger_step False reg cap) empty_db d"
  shows "snd (lease_job cap now worker [] d) = None \<longleftrightarrow>
    (\<forall>j. \<not> (j \<in> set (job d) \<and> j_status j = JQueued
      \<and> (case j_repo j of None \<Rightarrow> True | Some r \<Rightarrow> int (open_count r d) < cap)))"
proof -
  have inv: "core reg cap d" "exact d"
    using serial_ledger.reach_inv [OF assms] core_empty exact_empty by blast+
  then have st: "stale_repos cap [] d = {}" by (auto simp: stale_repos_def exact_def)
  have no_open: "\<not> has_open (j_id j) d" if "j \<in> set (job d)" "j_status j = JQueued" for j
  proof
    assume "has_open (j_id j) d"
    then obtain a where "a \<in> set (attempt d)" "a_job a = j_id j" "a_status a = AOpen" by (auto simp: has_open_def)
    with that inv no_orphansD [OF _ coreD(1) [OF inv(1)]] have "live_status JQueued" by (metis exact_def)
    then show False by (simp add: live_status_def)
  qed
  show ?thesis
  proof
    assume none: "snd (lease_job cap now worker [] d) = None"
    have "ready cap [] [] d j" if "j \<in> set (job d)" "j_status j = JQueued"
      "case j_repo j of None \<Rightarrow> True | Some r \<Rightarrow> int (open_count r d) < cap" for j
      using that no_open [OF that(1,2)] inv(2) by (auto simp: ready_def leasable_def exact_def split: option.splits)
    with none lease_loop_progress [of cap "[]" d LEASE_MAX_REPICKS "[]" _ now worker] st
    show "\<forall>j. \<not> (j \<in> set (job d) \<and> j_status j = JQueued
      \<and> (case j_repo j of None \<Rightarrow> True | Some r \<Rightarrow> int (open_count r d) < cap))"
      by (fastforce simp: lease_job_def LEASE_MAX_REPICKS_def)
  next
    assume all: "\<forall>j. \<not> (j \<in> set (job d) \<and> j_status j = JQueued
      \<and> (case j_repo j of None \<Rightarrow> True | Some r \<Rightarrow> int (open_count r d) < cap))"
    show "snd (lease_job cap now worker [] d) = None"
    proof (rule ccontr)
      assume "snd (lease_job cap now worker [] d) \<noteq> None"
      then obtain d' aid where "lease_loop LEASE_MAX_REPICKS cap now worker [] [] d = (d', Some aid)"
        unfolding lease_job_def by (metis option.exhaust prod.collapse)
      from lease_loop_sound [OF this] all show False by (auto simp: claimed_def)
    qed
  qed
qed

end
