(* ===== verification/Worker.thy ===== *)
theory Worker
  imports Workspace Sqlite_Store Ledger_Progress
begin

text \<open>
  \<^verbatim>\<open>src/runtime/worker.py\<close>: one worker running leased attempts against any ledger with the
  \<^verbatim>\<open>WorkerLedger\<close> surface. The ledger is a record of operations on its state, so the same
  definitions drive the SQLite and the Postgres model; the contract they rely on is the locale
  \<open>worker_ledger\<close>, interpreted on both. What the worker awaits (the agent, git, other workers
  changing the ledger meanwhile) is the argument of type \<open>run\<close>.
\<close>

section \<open>The ledger a worker sees\<close>

record 's ledger_ops =
  lo_lease :: "time \<Rightarrow> string \<Rightarrow> 's \<Rightarrow> 's \<times> uuid option"
  lo_job :: "uuid \<Rightarrow> 's \<Rightarrow> Contracts.job option"
  lo_complete :: "time \<Rightarrow> uuid \<Rightarrow> result \<Rightarrow> 's \<Rightarrow> ledger_error + 's"
  lo_fail :: "time \<Rightarrow> uuid \<Rightarrow> result \<Rightarrow> 's \<Rightarrow> ledger_error + 's"
  lo_beat :: "(time \<Rightarrow> uuid \<Rightarrow> 's \<Rightarrow> ledger_error + 's) option"

section \<open>One attempt\<close>

text \<open>
  How the agent ends, and what happens in one heartbeat interval: the other workers change the
  ledger, then the heartbeat is sent.
\<close>

datatype agent_end = Returned result | Raised | Cancelled

record 's tick =
  tk_env :: "'s \<Rightarrow> 's"
  tk_now :: time

text \<open>
  The git calls run in a thread that a cancellation of the await does not stop. An abandoned creation takes
  effect before the clean-up or after it (\<open>True\<close>); an abandoned capture may have written its patch.
\<close>

datatype create_end = Create_Ends git_end | Create_Abandoned git_end bool

datatype diff_end = Diff pytext | Diff_Raises | Diff_Abandoned "pytext option"

record 's run =
  rn_lease_at :: time
  rn_create :: create_end
  rn_pointer :: "pytext option"
  rn_ticks :: "'s tick list"
  rn_awaited :: bool
  rn_agent :: "Contracts.job \<Rightarrow> agent_end"
  rn_diff :: diff_end
  rn_env :: "'s \<Rightarrow> 's"
  rn_record_at :: time
  rn_unlink :: bool
  rn_git :: git_call
  rn_rm :: rm_end
  rn_clean_cancelled :: bool

record 's world =
  led :: 's
  ws :: workspace
  running :: "uuid set"

datatype invoke_end = Agent_End agent_end | Lease_Lost | Beat_Failed

text \<open>
  \<^verbatim>\<open>_invoke\<close>: with a heartbeat the loop waits one interval at a time; a heartbeat that finds the lease
  gone, or fails otherwise, ends the wait. On every exit a task that has not ended is cancelled and awaited;
  whatever that wait raises is swallowed, so the task is over only if the wait was not itself interrupted
  (\<open>awaited\<close>). Without a heartbeat the agent is awaited directly and has ended when the call does.
\<close>

fun beat_loop ::
  "(time \<Rightarrow> uuid \<Rightarrow> 's \<Rightarrow> ledger_error + 's) \<Rightarrow> uuid \<Rightarrow> 's tick list \<Rightarrow> agent_end \<Rightarrow> 's \<Rightarrow> 's \<times> invoke_end" where
  "beat_loop beat aid [] fin s = (s, Agent_End fin)"
| "beat_loop beat aid (t # ts) fin s =
     (case beat (tk_now t) aid (tk_env t s) of
        Inr s' \<Rightarrow> beat_loop beat aid ts fin s'
      | Inl Lost_Lease \<Rightarrow> (tk_env t s, Lease_Lost)
      | Inl _ \<Rightarrow> (tk_env t s, Beat_Failed))"

text \<open>The task itself has ended when the agent returned or raised; on a cancellation from outside it has not.\<close>

definition task_done :: "invoke_end \<Rightarrow> bool" where
  "task_done e \<longleftrightarrow> (case e of Agent_End Cancelled \<Rightarrow> False | Agent_End _ \<Rightarrow> True | _ \<Rightarrow> False)"

definition invoke ::
  "'s ledger_ops \<Rightarrow> bool \<Rightarrow> bool \<Rightarrow> uuid \<Rightarrow> 's tick list \<Rightarrow> agent_end \<Rightarrow> 's world \<Rightarrow> 's world \<times> invoke_end" where
  "invoke L hb awaited aid ticks fin w =
     (let w1 = w\<lparr>running := insert aid (running w)\<rparr> in
      case (if hb then lo_beat L else None) of
        Some beat \<Rightarrow>
          (let (s, e) = beat_loop beat aid ticks fin (led w1) in
           (w1\<lparr>led := s, running := if task_done e \<or> awaited then running w1 - {aid} else running w1\<rparr>, e))
      | None \<Rightarrow> (w1\<lparr>led := fold tk_env ticks (led w1), running := running w1 - {aid}\<rparr>, Agent_End fin))"

datatype attempt_end = Recorded result_status | Not_Owner | Exn | Cancel_Exn

definition record_result ::
  "'s ledger_ops \<Rightarrow> bool \<Rightarrow> time \<Rightarrow> uuid \<Rightarrow> result \<Rightarrow> 's world \<Rightarrow> 's world \<times> attempt_end" where
  "record_result L unlink_ok now aid res w =
     (case (if status res = ROk then lo_complete L now aid res (led w) else lo_fail L now aid res (led w)) of
        Inr s \<Rightarrow> (w\<lparr>led := s\<rparr>, Recorded (status res))
      | Inl Lost_Lease \<Rightarrow> (w\<lparr>ws := unlink unlink_ok (artifact_ref res) (ws w)\<rparr>, Not_Owner)
      | Inl _ \<Rightarrow> (w, Exn))"

definition isolated :: "registry \<Rightarrow> Contracts.job \<Rightarrow> bool" where
  "isolated reg j \<longleftrightarrow>
     (case get_spec reg (to_agent j) of None \<Rightarrow> False | Some sp \<Rightarrow> auth sp = Workspace_Actor)
     \<and> (case repo_id j of None \<Rightarrow> False | Some r \<Rightarrow> r \<noteq> [])"

record site =
  st_base :: string
  st_str :: "uuid \<Rightarrow> string"
  st_reg :: registry

text \<open>After the agent returned: capture the diff of an isolated success, then record the result.\<close>

definition finish ::
  "'s ledger_ops \<Rightarrow> site \<Rightarrow> bool \<Rightarrow> uuid \<Rightarrow> 's run \<Rightarrow> result \<Rightarrow> 's world \<Rightarrow> 's world \<times> attempt_end" where
  "finish L st sep aid r res w =
     (let w1 = w\<lparr>led := rn_env r (led w)\<rparr> in
      if sep \<and> status res = ROk then
        (case rn_diff r of
           Diff_Raises \<Rightarrow> (w1, Exn)
         | Diff_Abandoned d \<Rightarrow>
             (w1\<lparr>ws := (case d of None \<Rightarrow> ws w1 | Some diff \<Rightarrow> fst (capture_diff (st_base st) diff (worktree_name (st_str st) aid) (ws w1)))\<rparr>,
              Cancel_Exn)
         | Diff diff \<Rightarrow>
             (let (ws1, art) = capture_diff (st_base st) diff (worktree_name (st_str st) aid) (ws w1)
              in record_result L (rn_unlink r) (rn_record_at r) aid (res\<lparr>artifact_ref := art\<rparr>) (w1\<lparr>ws := ws1\<rparr>)))
      else record_result L (rn_unlink r) (rn_record_at r) aid res w1)"

text \<open>The creation: what the attempt goes on with, or how it ended there.\<close>

definition make_worktree :: "create_end \<Rightarrow> string \<Rightarrow> pytext option \<Rightarrow> workspace \<Rightarrow> workspace \<times> attempt_end option" where
  "make_worktree c name ptr v = (case c of
     Create_Ends out \<Rightarrow> (case create out name ptr v of (v1, ok) \<Rightarrow> (v1, if ok then None else Some Exn))
   | Create_Abandoned out late \<Rightarrow> (if late then v else fst (create out name ptr v), Some Cancel_Exn))"

definition late_worktree :: "create_end \<Rightarrow> string \<Rightarrow> pytext option \<Rightarrow> workspace \<Rightarrow> workspace" where
  "late_worktree c name ptr v = (case c of Create_Abandoned out True \<Rightarrow> fst (create out name ptr v) | _ \<Rightarrow> v)"

definition attempt_body ::
  "'s ledger_ops \<Rightarrow> site \<Rightarrow> bool \<Rightarrow> bool \<Rightarrow> uuid \<Rightarrow> 's run \<Rightarrow> Contracts.job \<Rightarrow> 's world \<Rightarrow> 's world \<times> attempt_end" where
  "attempt_body L st hb sep aid r j w =
     (let (ws0, stop) = (if sep then make_worktree (rn_create r) (worktree_name (st_str st) aid) (rn_pointer r) (ws w) else (ws w, None));
          w0 = w\<lparr>ws := ws0\<rparr>
      in case stop of
           Some e \<Rightarrow> (w0, e)
         | None \<Rightarrow>
             (let j' = (if sep then j\<lparr>worktree_path := Some (worktree_path_of (st_base st) (st_str st) aid)\<rparr> else j)
              in case invoke L hb (rn_awaited r) aid (rn_ticks r) (rn_agent r j') w0 of
                   (w1, Lease_Lost) \<Rightarrow> (w1, Not_Owner)
                 | (w1, Beat_Failed) \<Rightarrow> (w1, Exn)
                 | (w1, Agent_End Raised) \<Rightarrow> (w1, Exn)
                 | (w1, Agent_End Cancelled) \<Rightarrow> (w1, Cancel_Exn)
                 | (w1, Agent_End (Returned res)) \<Rightarrow> finish L st sep aid r res w1))"

text \<open>
  The whole attempt. The clean-up runs on every path; an exception of its own replaces the outcome, and a
  cancellation that reaches the shielded await lets it run on but ends the attempt as cancelled.
\<close>

definition process_attempt ::
  "'s ledger_ops \<Rightarrow> site \<Rightarrow> bool \<Rightarrow> uuid \<Rightarrow> 's run \<Rightarrow> 's world \<Rightarrow> 's world \<times> attempt_end" where
  "process_attempt L st hb aid r w =
     (case lo_job L aid (led w) of
        None \<Rightarrow> (w, Not_Owner)
      | Some j \<Rightarrow>
          (let sep = isolated (st_reg st) j; name = worktree_name (st_str st) aid;
               (w1, e) = attempt_body L st hb sep aid r j w
           in if \<not> sep then (w1, e)
              else
                (let (v, steps, ok) = cleanup (rn_git r) (rn_rm r) (codes (the (repo_id j))) name (ws w1)
                 in (w1\<lparr>ws := late_worktree (rn_create r) name (rn_pointer r) v\<rparr>,
                     if rn_clean_cancelled r then Cancel_Exn else if ok then e else Exn))))"

definition run_one ::
  "'s ledger_ops \<Rightarrow> site \<Rightarrow> string \<Rightarrow> 's run \<Rightarrow> 's world \<Rightarrow> 's world \<times> attempt_end option" where
  "run_one L st worker r w =
     (case lo_lease L (rn_lease_at r) worker (led w) of
        (s, None) \<Rightarrow> (w\<lparr>led := s\<rparr>, None)
      | (s, Some aid) \<Rightarrow> (case process_attempt L st False aid r (w\<lparr>led := s\<rparr>) of (w', e) \<Rightarrow> (w', Some e)))"

text \<open>
  \<^verbatim>\<open>drain\<close>: run jobs until the queue is empty. An exception ends the drain; \<open>runs n\<close> is what happens in
  the n-th iteration. Fuel bounds the loop, and \<open>None\<close> means that it did not suffice.
\<close>

fun drain ::
  "nat \<Rightarrow> 's ledger_ops \<Rightarrow> site \<Rightarrow> string \<Rightarrow> (nat \<Rightarrow> 's run) \<Rightarrow> nat \<Rightarrow> 's world \<Rightarrow> ('s world \<times> nat \<times> bool) option" where
  "drain 0 L st worker runs n w = None"
| "drain (Suc fuel) L st worker runs n w =
     (case run_one L st worker (runs n) w of
        (w', None) \<Rightarrow> Some (w', n, True)
      | (w', Some Exn) \<Rightarrow> Some (w', n, False)
      | (w', Some Cancel_Exn) \<Rightarrow> Some (w', n, False)
      | (w', Some _) \<Rightarrow> drain fuel L st worker runs (Suc n) w')"

end
