(* ===== verification/Worker_Props.thy ===== *)
theory Worker_Props
  imports Worker
begin

text \<open>
  The contract between a worker and its ledger as a locale, interpreted on the SQLite and on the
  Postgres model, and what it gives: worktrees are always cleaned up, a worker that lost its lease
  writes nothing, the outcome a worker reports is the one in the ledger, and draining a queue ends.
\<close>

section \<open>Clean-up\<close>

lemma names_capture [simp]: "names (fst (capture_diff b diff n v)) = names v"
  by (simp add: capture_diff_def names_def)

text \<open>What an attempt does to the file system: nothing to entries of other names.\<close>

definition others :: "string \<Rightarrow> workspace \<Rightarrow> entry list" where
  "others n v = filter (\<lambda>e. en_name e \<noteq> n) (entries v)"

text \<open>Entries of a name are directories: then the sweep can take them.\<close>

definition all_dirs :: "string \<Rightarrow> workspace \<Rightarrow> bool" where
  "all_dirs n v \<longleftrightarrow> list_all (\<lambda>e. en_name e = n \<longrightarrow> en_is_dir e) (entries v)"

definition frame :: "string \<Rightarrow> workspace \<Rightarrow> workspace \<Rightarrow> bool" where
  "frame n v v' \<longleftrightarrow> others n v' = others n v \<and> (all_dirs n v \<longrightarrow> all_dirs n v')"

lemma frame_refl [simp]: "frame n v v"
  by (simp add: frame_def)

lemma frame_trans: "frame n u v \<Longrightarrow> frame n v w \<Longrightarrow> frame n u w"
  by (simp add: frame_def)

lemma create_frame: "frame n v (fst (create out n p v))" "patches (fst (create out n p v)) = patches v"
  by (auto simp: create_def add_dir_def frame_def others_def all_dirs_def split: git_end.split)

lemma capture_frame: "frame m v (fst (capture_diff base diff n v))"
  by (simp add: capture_diff_def frame_def others_def all_dirs_def)

lemma unlink_frame: "frame m v (unlink ok p v)"
  by (simp add: unlink_def frame_def others_def all_dirs_def split: option.split)

lemma rm_dir_frame: "frame n v (rm_dir n v)"
  by (simp add: rm_dir_def frame_def others_def all_dirs_def filter_filter list_all_iff)

lemma rmtree_frame: "frame n v (rmtree out n v)"
proof (cases out)
  case (Rm_Left p)
  let ?f = "\<lambda>e. if en_name e = n then e\<lparr>en_pointer := p\<rparr> else e"
  have "filter (\<lambda>e. en_name e \<noteq> n) (map ?f xs) = filter (\<lambda>e. en_name e \<noteq> n) xs
      \<and> list_all (\<lambda>e. en_name e = n \<longrightarrow> en_is_dir e) (map ?f xs) = list_all (\<lambda>e. en_name e = n \<longrightarrow> en_is_dir e) xs" for xs
    by (induction xs) auto
  from this [of "entries v"] show ?thesis unfolding Rm_Left rmtree_def rm_end.case frame_def others_def all_dirs_def by simp
qed (simp add: rmtree_def rm_dir_frame)

lemmas rm_frame = rm_dir_frame rmtree_frame

lemma make_frame: "make_worktree c n p v = (v', stop) \<Longrightarrow> frame n v v' \<and> patches v' = patches v"
  using create_frame by (auto simp: make_worktree_def split: create_end.splits prod.splits if_splits) (metis fst_conv)+

lemma late_frame: "frame n v (late_worktree c n p v)" "patches (late_worktree c n p v) = patches v"
  using create_frame by (auto simp: late_worktree_def split: create_end.split bool.split)

lemma cleanup_frame:
  assumes "cleanup git rm repo n v = (v', steps, ok)"
  shows "frame n v v'" "patches v' = patches v" "ok \<longleftrightarrow> git \<noteq> Git_Missing"
    "n \<in> names v' \<Longrightarrow> git = Git_Missing \<or> git = Git_Errs \<and> rm \<noteq> Rm_Gone"
  using assms rm_frame by (auto simp: cleanup_def names_rmtree split: git_call.splits if_splits)

lemma patches_unlink: "patches (unlink ok p v) \<subseteq> patches v"
  by (auto simp: unlink_def split: option.split)

lemma capture_unlink: "capture_diff base diff n v = (v', art) \<Longrightarrow> patches (unlink True art v') \<subseteq> patches v"
  by (auto simp: capture_diff_def unlink_def patch_path_def split: if_splits)

lemma invoke_frame:
  assumes "invoke L hb awaited aid ts fin w = (w', e)" "aid \<notin> running w"
  shows "ws w' = ws w" "running w' = running w \<or> running w' = insert aid (running w) \<and> hb \<and> lo_beat L \<noteq> None \<and> \<not> awaited \<and> \<not> task_done e"
  using assms by (auto simp: invoke_def Let_def split: option.splits prod.splits if_splits)

lemma record_frame:
  assumes "record_result L u now aid res w = (w', e)"
  shows "running w' = running w" "frame n (ws w) (ws w')"
    "e = Not_Owner \<Longrightarrow> ws w' = unlink u (artifact_ref res) (ws w) \<and> led w' = led w"
  using assms unlink_frame by (auto simp: record_result_def split: sum.splits ledger_error.splits)

lemma finish_cases:
  assumes "finish L st sep aid r res w = (w', e)"
  obtains (ends) "w' = w\<lparr>led := rn_env r (led w), ws := ws w'\<rparr>" "e = Exn \<or> e = Cancel_Exn"
      "ws w' = ws w \<or> (\<exists>d. ws w' = fst (capture_diff (st_base st) d (worktree_name (st_str st) aid) (ws w)))"
  | (plain) "record_result L (rn_unlink r) (rn_record_at r) aid res (w\<lparr>led := rn_env r (led w)\<rparr>) = (w', e)"
  | (diff) d v art where "capture_diff (st_base st) d (worktree_name (st_str st) aid) (ws w) = (v, art)"
      "record_result L (rn_unlink r) (rn_record_at r) aid (res\<lparr>artifact_ref := art\<rparr>) (w\<lparr>led := rn_env r (led w), ws := v\<rparr>) = (w', e)"
proof (cases "sep \<and> status res = ROk")
  case True
  show ?thesis
  proof (cases "rn_diff r")
    case (Diff d)
    obtain v art where c: "capture_diff (st_base st) d (worktree_name (st_str st) aid) (ws w) = (v, art)" by fastforce
    show ?thesis by (rule diff [OF c]) (use assms True Diff c in \<open>simp add: finish_def\<close>)
  next
    case Diff_Raises
    show ?thesis by (rule ends) (use assms True Diff_Raises in \<open>auto simp: finish_def Let_def\<close>)
  next
    case (Diff_Abandoned d)
    show ?thesis by (rule ends) (use assms True Diff_Abandoned in \<open>auto simp: finish_def Let_def split: option.splits\<close>)
  qed
next
  case False
  from assms show ?thesis unfolding finish_def Let_def if_not_P [OF False] by (rule plain)
qed

lemma finish_frame:
  assumes "finish L st sep aid r res w = (w', e)"
  shows "running w' = running w" "frame n (ws w) (ws w')"
    "e = Not_Owner \<Longrightarrow> rn_unlink r \<Longrightarrow> patches (ws w') \<subseteq> patches (ws w)"
proof -
  show "running w' = running w"
    using assms
  proof (cases rule: finish_cases)
    case ends
    have "running (w\<lparr>led := rn_env r (led w), ws := ws w'\<rparr>) = running w" by simp
    with ends(1) show ?thesis by simp
  qed (auto dest: record_frame(1))
  show "frame n (ws w) (ws w')"
    using assms
  proof (cases rule: finish_cases)
    case ends
    with capture_frame show ?thesis by auto
  next
    case plain
    from record_frame(2) [OF plain] show ?thesis by simp
  next
    case (diff d v art)
    from record_frame(2) [OF diff(2)] capture_frame [of n "ws w" "st_base st" d "worktree_name (st_str st) aid"] diff(1)
    show ?thesis by (auto intro: frame_trans)
  qed
  assume e: "e = Not_Owner" "rn_unlink r"
  show "patches (ws w') \<subseteq> patches (ws w)"
    using assms
  proof (cases rule: finish_cases)
    case plain
    from record_frame(3) [OF plain e(1)] patches_unlink show ?thesis by simp
  next
    case (diff d v art)
    from record_frame(3) [OF diff(2) e(1)] capture_unlink [OF diff(1)] e(2) show ?thesis by simp
  qed (use e in simp)
qed

text \<open>The attempt, taken apart: it stopped at the creation, or the agent was invoked.\<close>

lemma body_cases:
  assumes "attempt_body L st hb sep aid r j w = (w', e)"
  obtains (stop) v where "w' = w\<lparr>ws := v\<rparr>" "e = Exn \<or> e = Cancel_Exn" "sep"
      "make_worktree (rn_create r) (worktree_name (st_str st) aid) (rn_pointer r) (ws w) = (v, Some e)"
  | (ran) v w1 ie j' where "v = ws w \<or> make_worktree (rn_create r) (worktree_name (st_str st) aid) (rn_pointer r) (ws w) = (v, None)"
      "invoke L hb (rn_awaited r) aid (rn_ticks r) (rn_agent r j') (w\<lparr>ws := v\<rparr>) = (w1, ie)"
      "ie = Lease_Lost \<and> w' = w1 \<and> e = Not_Owner \<or> ie \<in> {Beat_Failed, Agent_End Raised} \<and> w' = w1 \<and> e = Exn
        \<or> ie = Agent_End Cancelled \<and> w' = w1 \<and> e = Cancel_Exn \<or> (\<exists>res. ie = Agent_End (Returned res) \<and> finish L st sep aid r res w1 = (w', e))"
proof -
  let ?n = "worktree_name (st_str st) aid"
  let ?j = "if sep then j\<lparr>worktree_path := Some (worktree_path_of (st_base st) (st_str st) aid)\<rparr> else j"
  obtain v stop' where c: "(if sep then make_worktree (rn_create r) ?n (rn_pointer r) (ws w) else (ws w, None)) = (v, stop')" by fastforce
  obtain w1 ie where i: "invoke L hb (rn_awaited r) aid (rn_ticks r) (rn_agent r ?j) (w\<lparr>ws := v\<rparr>) = (w1, ie)" by fastforce
  show thesis
  proof (cases stop')
    case (Some x)
    then have m: "sep" "make_worktree (rn_create r) ?n (rn_pointer r) (ws w) = (v, Some x)" using c by (auto split: if_splits)
    then have "x = Exn \<or> x = Cancel_Exn" by (auto simp: make_worktree_def split: create_end.splits prod.splits if_splits)
    moreover have "w' = w\<lparr>ws := v\<rparr>" "e = x" using assms Some unfolding attempt_body_def c Let_def prod.case by auto
    ultimately show thesis using m by (intro stop) simp_all
  next
    case None
    then have e: "(case ie of Lease_Lost \<Rightarrow> (w1, Not_Owner) | Beat_Failed \<Rightarrow> (w1, Exn) | Agent_End Raised \<Rightarrow> (w1, Exn)
        | Agent_End Cancelled \<Rightarrow> (w1, Cancel_Exn) | Agent_End (Returned res) \<Rightarrow> finish L st sep aid r res w1) = (w', e)"
      using assms unfolding attempt_body_def c Let_def prod.case i by simp
    have "v = ws w \<or> make_worktree (rn_create r) ?n (rn_pointer r) (ws w) = (v, None)" using c None by (auto split: if_splits)
    then show thesis
      by (rule ran [OF _ i]) (use e in \<open>auto split: invoke_end.splits agent_end.splits\<close>)
  qed
qed

lemma body_frame:
  assumes "attempt_body L st hb sep aid r j w = (w', e)" "aid \<notin> running w"
  shows "frame (worktree_name (st_str st) aid) (ws w) (ws w')"
    "running w' = running w \<or> running w' = insert aid (running w) \<and> hb \<and> lo_beat L \<noteq> None \<and> \<not> rn_awaited r"
    "e = Not_Owner \<Longrightarrow> rn_unlink r \<Longrightarrow> patches (ws w') \<subseteq> patches (ws w)"
proof -
  let ?n = "worktree_name (st_str st) aid"
  have "frame ?n (ws w) (ws w') \<and> (running w' = running w \<or> running w' = insert aid (running w) \<and> hb \<and> lo_beat L \<noteq> None \<and> \<not> rn_awaited r)
      \<and> (e = Not_Owner \<and> rn_unlink r \<longrightarrow> patches (ws w') \<subseteq> patches (ws w))"
    using assms(1)
  proof (cases rule: body_cases)
    case (stop v)
    with make_frame [OF stop(4)] show ?thesis by auto
  next
    case (ran v w1 ie j')
    have v: "frame ?n (ws w) v" "patches v = patches (ws w)" using ran(1) make_frame by auto
    have w1: "ws w1 = v" "running w1 = running w \<or> running w1 = insert aid (running w) \<and> hb \<and> lo_beat L \<noteq> None \<and> \<not> rn_awaited r"
      using invoke_frame [OF ran(2)] assms(2) by auto
    show ?thesis
    proof (cases "\<exists>res. ie = Agent_End (Returned res) \<and> finish L st sep aid r res w1 = (w', e)")
      case True
      then obtain res where f: "finish L st sep aid r res w1 = (w', e)" by blast
      from finish_frame(1,3) [OF f] finish_frame(2) [OF f, of ?n] v w1 show ?thesis by (auto intro: frame_trans)
    next
      case False
      with ran(3) v w1 show ?thesis by auto
    qed
  qed
  then show "frame ?n (ws w) (ws w')" "running w' = running w \<or> running w' = insert aid (running w) \<and> hb \<and> lo_beat L \<noteq> None \<and> \<not> rn_awaited r"
    "e = Not_Owner \<Longrightarrow> rn_unlink r \<Longrightarrow> patches (ws w') \<subseteq> patches (ws w)" by blast+
qed

definition created_late :: "create_end \<Rightarrow> bool" where
  "created_late c \<longleftrightarrow> (case c of Create_Abandoned out late \<Rightarrow> late \<and> out \<noteq> Git_Raises False | _ \<Rightarrow> False)"

lemma names_late: "n \<in> names (late_worktree c n p v) \<Longrightarrow> created_late c \<or> n \<in> names v"
  by (auto simp: late_worktree_def created_late_def create_def add_dir_def names_def split: create_end.splits git_end.splits bool.splits if_splits)

text \<open>
  C19. An isolated attempt cleans up after itself on every path, whether it records a result, loses its
  lease, meets an exception or is cancelled: no other entry below the root changes. Its worktree is gone
  unless git could not be run at all, git failed and the directory could not be removed either, or the
  creation was cancelled and its thread made the directory after the clean-up; in the first case the attempt
  ends in an exception. What is left is a directory of the attempt's name, which the first sweep that may
  reap it removes when its own calls succeed. Not the owner any more, the attempt leaves no new patch
  if the file can be unlinked, and its agent's task is over unless the wait for the cancelled task was
  interrupted.
\<close>

theorem attempt_cleans_up:
  assumes "process_attempt L st hb aid r w = (w', e)" "lo_job L aid (led w) = Some j" "isolated (st_reg st) j"
    and "aid \<notin> running w" "n = worktree_name (st_str st) aid"
  shows "others n (ws w') = others n (ws w)
    \<and> (n \<in> names (ws w') \<longrightarrow> rn_git r = Git_Missing \<or> rn_git r = Git_Errs \<and> rn_rm r \<noteq> Rm_Gone \<or> created_late (rn_create r))
    \<and> (rn_git r = Git_Missing \<longrightarrow> e = Exn \<or> e = Cancel_Exn)
    \<and> (all_dirs n (ws w) \<and> quiet_obs ob \<and> ro_rm ob n = Rm_Gone \<and> st_str st aid \<in> R
         \<longrightarrow> n \<notin> names (fst (sweep (st_base st) ob R (ws w'))))
    \<and> (e = Not_Owner \<and> rn_unlink r \<longrightarrow> patches (ws w') \<subseteq> patches (ws w))
    \<and> (running w' = running w \<or> running w' = insert aid (running w) \<and> hb \<and> lo_beat L \<noteq> None \<and> \<not> rn_awaited r)"
proof -
  obtain w1 e1 where b: "attempt_body L st hb True aid r j w = (w1, e1)" by fastforce
  obtain v steps ok where c: "cleanup (rn_git r) (rn_rm r) (codes (the (repo_id j))) n (ws w1) = (v, steps, ok)" by (metis prod_cases3)
  have w': "w' = w1\<lparr>ws := late_worktree (rn_create r) n (rn_pointer r) v\<rparr>"
    and e: "e = (if rn_clean_cancelled r then Cancel_Exn else if ok then e1 else Exn)"
    using assms(1-3) b c by (auto simp: process_attempt_def Let_def assms(5))
  note B = body_frame [OF b assms(4), folded assms(5)] and C = cleanup_frame [OF c]
  have f: "frame n (ws w) (ws w')" using frame_trans [OF B(1) frame_trans [OF C(1) late_frame(1)]] by (simp add: w')
  have sw: "n \<notin> names (fst (sweep (st_base st) ob R (ws w')))"
    if "all_dirs n (ws w)" "quiet_obs ob" "ro_rm ob n = Rm_Gone" "st_str st aid \<in> R"
  proof -
    obtain v' st' k where s: "sweep (st_base st) ob R (ws w') = (v', st', k)" by (metis prod_cases3)
    have "all_dirs n (ws w')" using f that(1) by (simp add: frame_def)
    then have "wt_prefix @ st_str st aid \<notin> names v'"
      using that assms(5) by (intro sweep_reaps [OF that(2) _ that(4) _ s]) (auto simp: all_dirs_def list_all_iff worktree_name_def)
    then show ?thesis by (simp add: s assms(5) worktree_name_def)
  qed
  show ?thesis
    using f sw B(2,3) C(2,3,4) names_late [of n "rn_create r" "rn_pointer r" v] e by (auto simp: frame_def w' late_frame(2))
qed

section \<open>The contract with the ledger\<close>

text \<open>
  What a worker relies on: a lease opens an attempt, a job is handed out exactly for an open attempt,
  recording closes an open attempt with the right outcome and answers \<open>Lost_Lease\<close> otherwise, and a
  heartbeat tells an owner from a stranger. \<open>calm\<close> is what the worker's own calls and its neighbours may
  do to the ledger while an attempt runs; it is a preorder.
\<close>

locale worker_ledger =
  fixes L :: "'s ledger_ops" and good :: "'s \<Rightarrow> bool" and opened :: "uuid \<Rightarrow> 's \<Rightarrow> bool"
    and outcome :: "uuid \<Rightarrow> 's \<Rightarrow> attempt_status option" and calm :: "'s \<Rightarrow> 's \<Rightarrow> bool"
  assumes calm_refl [simp]: "calm s s"
    and calm_trans: "\<lbrakk>calm s s'; calm s' s''\<rbrakk> \<Longrightarrow> calm s s''"
    and lease_some: "\<lbrakk>good s; lo_lease L t k s = (s', Some a)\<rbrakk> \<Longrightarrow> good s' \<and> opened a s'"
    and lease_none: "\<lbrakk>good s; lo_lease L t k s = (s', None)\<rbrakk> \<Longrightarrow> good s'"
    and job_iff: "good s \<Longrightarrow> lo_job L a s \<noteq> None \<longleftrightarrow> opened a s"
    and complete_open: "\<lbrakk>good s; opened a s\<rbrakk> \<Longrightarrow> \<exists>s'. lo_complete L t a r s = Inr s'"
    and complete_law: "\<lbrakk>good s; lo_complete L t a r s = Inr s'\<rbrakk> \<Longrightarrow>
      good s' \<and> \<not> opened a s' \<and> outcome a s' = Some AOk \<and> calm s s'"
    and complete_lost: "\<lbrakk>good s; lo_complete L t a r s = Inl e\<rbrakk> \<Longrightarrow> e = Lost_Lease"
    and fail_open: "\<lbrakk>good s; opened a s\<rbrakk> \<Longrightarrow> \<exists>s'. lo_fail L t a r s = Inr s'"
    and fail_law: "\<lbrakk>good s; lo_fail L t a r s = Inr s'\<rbrakk> \<Longrightarrow>
      good s' \<and> \<not> opened a s' \<and> outcome a s' = Some AFailed \<and> calm s s'"
    and fail_lost: "\<lbrakk>good s; lo_fail L t a r s = Inl e\<rbrakk> \<Longrightarrow> e = Lost_Lease"
    and beat_law: "\<lbrakk>lo_beat L = Some b; good s; b t a s = Inr s'\<rbrakk> \<Longrightarrow> good s' \<and> calm s s'"
    and beat_lost: "\<lbrakk>lo_beat L = Some b; good s; b t a s = Inl e\<rbrakk> \<Longrightarrow> e = Lost_Lease \<and> \<not> opened a s"
begin

definition keeps :: "('s \<Rightarrow> 's) \<Rightarrow> bool" where
  "keeps f \<longleftrightarrow> (\<forall>s. good s \<longrightarrow> good (f s) \<and> calm s (f s))"

definition keeps_run :: "'s run \<Rightarrow> bool" where
  "keeps_run r \<longleftrightarrow> list_all (\<lambda>t. keeps (tk_env t)) (rn_ticks r) \<and> keeps (rn_env r)"

lemma keepsD: "keeps f \<Longrightarrow> good s \<Longrightarrow> good (f s) \<and> calm s (f s)"
  by (simp add: keeps_def)

lemma calm_fold: "list_all (\<lambda>t. keeps (tk_env t)) ts \<Longrightarrow> good s \<Longrightarrow> good (fold tk_env ts s) \<and> calm s (fold tk_env ts s)"
proof (induction ts arbitrary: s)
  case (Cons t ts)
  then have "good (tk_env t s)" "calm s (tk_env t s)" using keepsD by auto
  with Cons.IH [of "tk_env t s"] Cons.prems calm_trans [of s "tk_env t s"] show ?case by simp
qed simp

lemma beat_loop_good:
  assumes "lo_beat L = Some b" "list_all (\<lambda>t. keeps (tk_env t)) ts" "good s" "beat_loop b aid ts fin s = (s', e)"
  shows "good s' \<and> calm s s' \<and> (e = Lease_Lost \<longrightarrow> \<not> opened aid s')"
  using assms(2-4)
proof (induction ts arbitrary: s)
  case (Cons t ts)
  have c: "good (tk_env t s)" "calm s (tk_env t s)" using Cons.prems keepsD by auto
  show ?case
  proof (cases "b (tk_now t) aid (tk_env t s)")
    case (Inl x)
    with beat_lost [OF assms(1) c(1) Inl] Cons.prems(3) c show ?thesis by auto
  next
    case (Inr s1)
    from beat_law [OF assms(1) c(1) Inr] have s1: "good s1" "calm s s1" using calm_trans [OF c(2)] by auto
    with Cons.IH [of s1] Cons.prems Inr have "good s'" "calm s1 s'" "e = Lease_Lost \<longrightarrow> \<not> opened aid s'" by auto
    with calm_trans [OF s1(2)] show ?thesis by blast
  qed
qed auto

lemma invoke_good:
  assumes "list_all (\<lambda>t. keeps (tk_env t)) ts" "good (led w)" "invoke L hb awaited aid ts fin w = (w', e)"
  shows "good (led w')" "calm (led w) (led w')" "e = Lease_Lost \<Longrightarrow> \<not> opened aid (led w')"
proof -
  have "good (led w') \<and> calm (led w) (led w') \<and> (e = Lease_Lost \<longrightarrow> \<not> opened aid (led w'))"
  proof (cases "\<exists>b. lo_beat L = Some b \<and> hb")
    case True
    then obtain b where b: "lo_beat L = Some b" "hb" by blast
    with assms(3) have "beat_loop b aid ts fin (led w) = (led w', e)"
      by (auto simp: invoke_def Let_def split: prod.splits)
    from beat_loop_good [OF b(1) assms(1,2) this] show ?thesis .
  next
    case False
    with assms(3) have "led w' = fold tk_env ts (led w)" "e = Agent_End fin"
      by (auto simp: invoke_def Let_def split: option.splits if_splits)
    with calm_fold [OF assms(1,2)] show ?thesis by simp
  qed
  then show "good (led w')" "calm (led w) (led w')" "e = Lease_Lost \<Longrightarrow> \<not> opened aid (led w')" by blast+
qed

text \<open>What an attempt that ended in \<open>e\<close> has left in the ledger.\<close>

definition settled_as :: "uuid \<Rightarrow> attempt_end \<Rightarrow> 's \<Rightarrow> bool" where
  "settled_as aid e s \<longleftrightarrow> (case e of
     Recorded st \<Rightarrow> \<not> opened aid s \<and> outcome aid s = Some (if st = ROk then AOk else AFailed)
   | Not_Owner \<Rightarrow> \<not> opened aid s
   | _ \<Rightarrow> True)"

lemma record_good:
  assumes "good (led w)" "record_result L u t aid res w = (w', e)"
  shows "good (led w') \<and> calm (led w) (led w') \<and> settled_as aid e (led w')"
proof (cases "if status res = ROk then lo_complete L t aid res (led w) else lo_fail L t aid res (led w)")
  case (Inl x)
  have "x = Lost_Lease \<and> \<not> opened aid (led w)"
  proof (cases "status res = ROk")
    case True
    with Inl have "lo_complete L t aid res (led w) = Inl x" by simp
    with complete_lost [OF assms(1) this] complete_open [OF assms(1), of aid t res] show ?thesis by force
  next
    case False
    with Inl have "lo_fail L t aid res (led w) = Inl x" by simp
    with fail_lost [OF assms(1) this] fail_open [OF assms(1), of aid t res] show ?thesis by force
  qed
  with Inl assms show ?thesis by (auto simp: record_result_def settled_as_def)
next
  case (Inr s)
  with assms(2) have "w' = w\<lparr>led := s\<rparr>" "e = Recorded (status res)" by (auto simp: record_result_def)
  with Inr complete_law [OF assms(1), of t aid res s] fail_law [OF assms(1), of t aid res s] show ?thesis
    by (auto simp: settled_as_def split: if_splits)
qed

lemma finish_good:
  assumes "good (led w)" "keeps (rn_env r)" "finish L st sep aid r res w = (w', e)"
  shows "good (led w') \<and> calm (led w) (led w') \<and> settled_as aid e (led w')"
proof -
  have c: "good (rn_env r (led w))" "calm (led w) (rn_env r (led w))" using keepsD [OF assms(2,1)] by auto
  have rec: "good (led w') \<and> calm (led w) (led w') \<and> settled_as aid e (led w')"
    if "record_result L u t aid res' w1 = (w', e)" "led w1 = rn_env r (led w)" for u t w1 res'
    using record_good [OF _ that(1)] calm_trans [OF c(2)] that(2) c(1) by simp
  show ?thesis
    using assms(3)
  proof (cases rule: finish_cases)
    case ends
    have "led w' = rn_env r (led w)" by (subst ends(1)) simp
    with c ends(2) show ?thesis by (auto simp: settled_as_def)
  next
    case plain
    then show ?thesis by (rule rec) simp
  next
    case (diff d v art)
    show ?thesis by (rule rec [OF diff(2)]) simp
  qed
qed

lemma body_good:
  assumes "good (led w)" "keeps_run r" "attempt_body L st hb sep aid r j w = (w', e)"
  shows "good (led w') \<and> calm (led w) (led w') \<and> settled_as aid e (led w')"
  using assms(3)
proof (cases rule: body_cases)
  case (stop v)
  with assms(1) show ?thesis by (auto simp: settled_as_def)
next
  case (ran v w1 ie j')
  have calm: "list_all (\<lambda>t. keeps (tk_env t)) (rn_ticks r)" "keeps (rn_env r)" using assms(2) by (simp_all add: keeps_run_def)
  have g: "good (led (w\<lparr>ws := v\<rparr>))" using assms(1) by simp
  note I = invoke_good [OF calm(1) g ran(2)]
  show ?thesis
  proof (cases "\<exists>res. ie = Agent_End (Returned res) \<and> finish L st sep aid r res w1 = (w', e)")
    case True
    then obtain res where f: "finish L st sep aid r res w1 = (w', e)" by blast
    from finish_good [OF I(1) calm(2) f] calm_trans [OF I(2)] show ?thesis by simp
  next
    case False
    with ran(3) I show ?thesis by (auto simp: settled_as_def)
  qed
qed

lemma process_good:
  assumes "good (led w)" "keeps_run r" "process_attempt L st hb aid r w = (w', e)"
  shows "good (led w') \<and> calm (led w) (led w') \<and> settled_as aid e (led w')"
proof (cases "lo_job L aid (led w)")
  case None
  with assms(1,3) job_iff [OF assms(1), of aid] show ?thesis by (auto simp: process_attempt_def settled_as_def)
next
  case (Some j)
  obtain w1 e1 where b: "attempt_body L st hb (isolated (st_reg st) j) aid r j w = (w1, e1)" by fastforce
  with assms(3) Some have "led w' = led w1" "e = e1 \<or> e = Exn \<or> e = Cancel_Exn"
    by (auto simp: process_attempt_def Let_def split: if_splits prod.splits)
  moreover have "settled_as aid Exn s" "settled_as aid Cancel_Exn s" for s by (simp_all add: settled_as_def)
  ultimately show ?thesis using body_good [OF assms(1,2) b] by auto
qed

end

text \<open>A ledger whose work runs out: every lease uses some of it up and no calm change adds to it.\<close>

locale finite_ledger = worker_ledger +
  fixes work :: "'a \<Rightarrow> nat"
  assumes calm_work: "calm s s' \<Longrightarrow> work s' \<le> work s"
    and lease_work: "\<lbrakk>good s; lo_lease L t k s = (s', Some a)\<rbrakk> \<Longrightarrow> work s' < work s"
begin

lemma run_one_good:
  assumes "good (led w)" "keeps_run r" "run_one L st k r w = (w', e)"
  shows "good (led w')" "e \<noteq> None \<Longrightarrow> work (led w') < work (led w)"
proof -
  obtain s a where l: "lo_lease L (rn_lease_at r) k (led w) = (s, a)" by fastforce
  have "good (led w') \<and> (e \<noteq> None \<longrightarrow> work (led w') < work (led w))"
  proof (cases a)
    case None
    with l lease_none [OF assms(1)] assms(3) show ?thesis by (auto simp: run_one_def)
  next
    case (Some aid)
    obtain w1 e1 where p: "process_attempt L st False aid r (w\<lparr>led := s\<rparr>) = (w1, e1)" by fastforce
    from lease_some [OF assms(1)] lease_work [OF assms(1)] l Some have s: "good s" "work s < work (led w)" by auto
    from process_good [OF _ assms(2) p] s(1) have "good (led w1)" "work (led w1) \<le> work s" using calm_work by auto
    with s p l Some assms(3) show ?thesis by (auto simp: run_one_def)
  qed
  then show "good (led w')" "e \<noteq> None \<Longrightarrow> work (led w') < work (led w)" by blast+
qed

lemma drain_ends:
  assumes "good (led w)" "\<And>n. keeps_run (runs n)" "work (led w) < fuel"
  shows "\<exists>w' m clean. drain fuel L st k runs n w = Some (w', m, clean) \<and> good (led w') \<and> n \<le> m \<and> m \<le> n + work (led w)
    \<and> (clean \<longrightarrow> (\<exists>s t. lo_lease L t k s = (led w', None)))"
  using assms(1,3)
proof (induction fuel arbitrary: n w)
  case (Suc fuel)
  obtain w1 e where r: "run_one L st k (runs n) w = (w1, e)" by fastforce
  note R = run_one_good [OF Suc.prems(1) assms(2) r]
  show ?case
  proof (cases "\<exists>x. e = Some x \<and> x \<noteq> Exn \<and> x \<noteq> Cancel_Exn")
    case True
    then obtain x where x: "e = Some x" "x \<noteq> Exn" "x \<noteq> Cancel_Exn" by blast
    from R Suc.prems(2) x have less: "work (led w1) < fuel" "work (led w1) < work (led w)" by auto
    have "drain (Suc fuel) L st k runs n w = drain fuel L st k runs (Suc n) w1"
      using r x by (cases x) simp_all
    moreover from Suc.IH [OF R(1) less(1), of "Suc n"] obtain w' m cl where
      "drain fuel L st k runs (Suc n) w1 = Some (w', m, cl)" "good (led w')" "Suc n \<le> m" "m \<le> Suc n + work (led w1)"
      "cl \<longrightarrow> (\<exists>s t. lo_lease L t k s = (led w', None))" by blast
    ultimately show ?thesis using less(2) by (intro exI [of _ w'] exI [of _ m] exI [of _ cl]) simp
  next
    case False
    then have "e = None \<and> drain (Suc fuel) L st k runs n w = Some (w1, n, True) \<or> drain (Suc fuel) L st k runs n w = Some (w1, n, False)"
      using r by (cases e) (auto split: attempt_end.split)
    moreover have "\<exists>s t. lo_lease L t k s = (led w1, None)" if "e = None"
    proof -
      have "lo_lease L (rn_lease_at (runs n)) k (led w) = (led w1, None)"
        using r that by (auto simp: run_one_def split: option.splits prod.splits)
      then show ?thesis by blast
    qed
    ultimately show ?thesis using R(1) by auto
  qed
qed simp

end

end
