(* ===== verification/Worker_Ledgers.thy ===== *)
theory Worker_Ledgers
  imports Worker_Props
begin

text \<open>
  Both ledgers satisfy the worker's contract: the locale \<open>worker_ledger\<close> interpreted on the SQLite and
  on the Postgres model. The work left is the number of queued jobs in SQLite, which never retries;
  in Postgres it is the number of attempts that the poison ceiling still allows.
\<close>

section \<open>SQLite\<close>

definition sq_ops :: "sq_db ledger_ops" where
  "sq_ops = \<lparr>lo_lease = sq_lease_job, lo_job = sq_get_attempt_job, lo_complete = sq_complete_attempt,
     lo_fail = sq_fail_attempt, lo_beat = None\<rparr>"

definition sq_outcome :: "uuid \<Rightarrow> sq_db \<Rightarrow> attempt_status option" where
  "sq_outcome aid d = map_option sa_status (get_row sa_id aid (sq_attempts d))"

lemma sq_outcome_upd:
  assumes "sq_ok d" "a \<in> set (sq_attempts d)" "\<And>x. sa_id (g x) = sa_id x \<and> sa_status (g x) = st"
    and "sq_attempts d' = upd_where (\<lambda>x. sa_id x = sa_id a) g (sq_attempts d)"
  shows "sq_outcome (sa_id a) d' = Some st"
proof -
  have "get_row sa_id (sa_id a) (sq_attempts d) = Some a" using assms(1,2) by (simp add: get_row_iff sq_okD(2))
  then show ?thesis using assms(3) unfolding sq_outcome_def assms(4) by (simp add: get_row_upd_where)
qed

lemma sq_complete_outcome:
  assumes "sq_ok d" "sq_complete_attempt now aid res d = Inr d'"
  shows "sq_outcome aid d' = Some AOk"
proof -
  from assms(2) obtain a where f: "List.find (\<lambda>a. sa_id a = aid \<and> sa_status a = AOpen) (sq_attempts d) = Some a"
    by (auto simp: sq_complete_attempt_def split: option.splits)
  note a = sq_find_open [OF f]
  have "sq_attempts d' = upd_where (\<lambda>x. sa_id x = sa_id a) (\<lambda>x. x\<lparr>sa_status := AOk, sa_result := Some res\<rparr>) (sq_attempts d)"
    using assms(2) f a(2) by (auto simp: sq_complete_attempt_def Let_def split: option.splits)
  from sq_outcome_upd [OF assms(1) a(1) _ this] a(2) show ?thesis by simp
qed

lemma sq_fail_outcome:
  assumes "sq_ok d" "sq_fail_attempt now aid res d = Inr d'"
  shows "sq_outcome aid d' = Some AFailed"
proof -
  from assms(2) obtain a where f: "List.find (\<lambda>a. sa_id a = aid \<and> sa_status a = AOpen) (sq_attempts d) = Some a"
    by (auto simp: sq_fail_attempt_def split: option.splits)
  note a = sq_find_open [OF f]
  have "sq_attempts d' = upd_where (\<lambda>x. sa_id x = sa_id a)
      (\<lambda>x. x\<lparr>sa_status := AFailed, sa_result := Some res, sa_error := err_class res\<rparr>) (sq_attempts d)"
    using assms(2) f a(2) by (auto simp: sq_fail_attempt_def)
  from sq_outcome_upd [OF assms(1) a(1) _ this] a(2) show ?thesis by simp
qed

interpretation sqlite: finite_ledger sq_ops sq_ok sq_opened sq_outcome
  "\<lambda>s s'. sq_count_queued s' \<le> sq_count_queued s" sq_count_queued
proof (unfold_locales, simp_all only: sq_ops_def ledger_ops.select_convs)
  fix s t k s' a assume s: "sq_ok s"
  show "sq_lease_job t k s = (s', Some a) \<Longrightarrow> sq_ok s' \<and> sq_opened a s'"
    "sq_lease_job t k s = (s', Some a) \<Longrightarrow> sq_count_queued s' < sq_count_queued s"
    using sq_lease_ok [OF s] by blast+
  show "sq_lease_job t k s = (s', None) \<Longrightarrow> sq_ok s'" using sq_lease_none s by blast
next
  fix s a assume "sq_ok s"
  then show "(sq_get_attempt_job a s \<noteq> None) = sq_opened a s" by (rule sq_job_open)
next
  fix s a t r s' assume s: "sq_ok s"
  show "sq_opened a s \<Longrightarrow> \<exists>s'. sq_complete_attempt t a r s = Inr s'" using sq_complete_ok [OF s] by blast
  show "sq_opened a s \<Longrightarrow> \<exists>s'. sq_fail_attempt t a r s = Inr s'" using sq_fail_ok [OF s] by blast
  show "sq_ok s' \<and> \<not> sq_opened a s' \<and> sq_outcome a s' = Some AOk \<and> sq_count_queued s' \<le> sq_count_queued s"
    if c: "sq_complete_attempt t a r s = Inr s'"
    using sq_complete_outcome [OF s c] sq_complete_ok [OF s, of a t r] sq_lost [of a s t r] c by fastforce
  show "sq_ok s' \<and> \<not> sq_opened a s' \<and> sq_outcome a s' = Some AFailed \<and> sq_count_queued s' \<le> sq_count_queued s"
    if c: "sq_fail_attempt t a r s = Inr s'"
    using sq_fail_outcome [OF s c] sq_fail_ok [OF s, of a t r] sq_lost [of a s t r] c by fastforce
  fix e
  show "sq_complete_attempt t a r s = Inl e \<Longrightarrow> e = Lost_Lease"
    using sq_complete_ok [OF s, of a t r] sq_lost [of a s t r] by force
  show "sq_fail_attempt t a r s = Inl e \<Longrightarrow> e = Lost_Lease"
    using sq_fail_ok [OF s, of a t r] sq_lost [of a s t r] by force
qed simp_all

section \<open>Postgres\<close>

definition pg_ops :: "registry \<Rightarrow> int \<Rightarrow> uuid list \<Rightarrow> db ledger_ops" where
  "pg_ops reg cap locked = \<lparr>lo_lease = (\<lambda>t k d. lease_job cap t k locked d), lo_job = get_attempt_job,
     lo_complete = complete_attempt, lo_fail = fail_attempt reg, lo_beat = Some heartbeat_attempt\<rparr>"

definition pg_opened :: "uuid \<Rightarrow> db \<Rightarrow> bool" where
  "pg_opened aid d \<longleftrightarrow> open_live aid d \<noteq> None"

definition pg_outcome :: "uuid \<Rightarrow> db \<Rightarrow> attempt_status option" where
  "pg_outcome aid d = map_option a_status (get_attempt aid d)"

definition pg_work :: "registry \<Rightarrow> db \<Rightarrow> nat" where
  "pg_work reg d = sum_list (map (attempt_limit reg) (job d)) - length (attempt d)"

lemma sum_single:
  assumes "distinct (map key J)" "j \<in> set J"
  shows "sum_list (map (\<lambda>k. if key j = key k then (1::nat) else 0) J) = 1"
  using assms
proof (induction J)
  case (Cons k J)
  show ?case
  proof (cases "j = k")
    case True
    with Cons.prems have "\<forall>x \<in> set J. key x \<noteq> key j" by (auto simp: image_iff)
    then have "sum_list (map (\<lambda>k. if key j = key k then (1::nat) else 0) J) = 0" by auto
    with True show ?thesis by simp
  next
    case False
    with Cons.prems have "j \<in> set J" "key j \<noteq> key k" by (auto simp: image_iff)
    with Cons show ?thesis by simp
  qed
qed simp

lemma length_by_key:
  fixes A :: "attempt_row list" and J :: "job_row list"
  assumes "distinct (map j_id J)" "\<And>a. a \<in> set A \<Longrightarrow> \<exists>j \<in> set J. j_id j = a_job a"
  shows "length A = sum_list (map (\<lambda>j. count_where (\<lambda>a. a_job a = j_id j) A) J)"
  using assms(2)
proof (induction A)
  case (Cons a A)
  then obtain j where j: "j \<in> set J" "j_id j = a_job a" by force
  have "sum_list (map (\<lambda>k. count_where (\<lambda>x. x_job x = k) (a # A)) K)
      = sum_list (map (\<lambda>k. if x_job a = k then 1 else 0) K) + sum_list (map (\<lambda>k. count_where (\<lambda>x. x_job x = k) A) K)"
    for K and x_job :: "attempt_row \<Rightarrow> uuid" by (induction K) auto
  from this [of a_job "map j_id J"] sum_single [OF assms(1) j(1)] Cons j show ?case by (simp add: o_def)
qed simp

lemma attempts_le_limits:
  assumes "core reg cap d"
  shows "length (attempt d) \<le> sum_list (map (attempt_limit reg) (job d))"
proof -
  note K = coreD [OF assms]
  have "length (attempt d) = sum_list (map (\<lambda>j. n_attempts (j_id j) d) (job d))"
    unfolding n_attempts_def by (rule length_by_key) (use keys_okD [OF K(1)] in auto)
  also have "\<dots> \<le> sum_list (map (attempt_limit reg) (job d))"
    by (rule sum_list_mono) (use K(5) in \<open>auto simp: poison_ok_def\<close>)
  finally show ?thesis .
qed

lemma settles_work:
  assumes "settles reg d d'"
  shows "pg_work reg d' = pg_work reg d"
proof -
  from assms obtain f g where s: "settled reg f g d d'" by (auto simp: settles_def)
  have "map (attempt_limit reg) (job d') = map (attempt_limit reg) (job d)"
    using settled_job(10) [OF s] s by (auto simp: settled_def attempt_limit_def)
  moreover have "length (attempt d') = length (attempt d)" using s by (simp add: settled_def)
  ultimately show ?thesis unfolding pg_work_def by (simp only:)
qed

lemma claimed_work:
  assumes "core reg cap d'" "claimed now k j d d'"
  shows "pg_work reg d' < pg_work reg d"
proof -
  have "map (attempt_limit reg) (job d') = map (attempt_limit reg) (job d)"
    using assms(2) by (simp add: claimed_def attempt_limit_def leased_row_def)
  moreover have "length (attempt d') = Suc (length (attempt d))" using assms(2) by (simp add: claimed_def)
  moreover have "sum_list (map (attempt_limit reg) (job d')) = sum_list (map (attempt_limit reg) (job d))"
    using calculation(1) by (simp only:)
  ultimately show ?thesis using attempts_le_limits [OF assms(1)] unfolding pg_work_def by linarith
qed

lemma lease_loop_law:
  assumes "core reg cap d" "lease_loop n cap now k locked skip d = (d', out)"
  shows "core reg cap d' \<and> (\<forall>aid. out = Some aid \<longrightarrow> pg_opened aid d' \<and> pg_work reg d' < pg_work reg d)"
  using assms
proof (induction n arbitrary: skip d)
  case (Suc n)
  obtain e oc where i: "lease_iter cap now k locked skip d = (e, oc)" by fastforce
  have ce: "core reg cap e" by (rule lease_iter_core [OF Suc.prems(1) i])
  from i show ?case
  proof (cases rule: lease_iter_cases)
    case idle
    with i Suc.prems show ?thesis by simp
  next
    case (full j r)
    have "pg_work reg e = pg_work reg d" unfolding pg_work_def full(1,2) ..
    moreover have "lease_loop n cap now k locked (skip @ [r]) e = (d', out)" using i full Suc.prems(2) by simp
    ultimately show ?thesis using Suc.IH [OF ce] by metis
  next
    case (leased j)
    with i Suc.prems(2) have d': "d' = e" "out = Some (next_id d)" by auto
    have "open_live (next_id d) e = Some (new_attempt now k (j_id j) (next_id d), leased_row (j_id j) j)"
      using leased(2) unfolding open_live_iff [OF coreD(1) [OF ce]]
      by (auto simp: claimed_def new_attempt_def leased_row_def)
    with d' ce claimed_work [OF ce leased(2)] show ?thesis by (simp add: pg_opened_def)
  qed
qed simp

lemma complete_law:
  assumes "core reg cap d" "complete_attempt t aid r d = Inr d'"
  shows "core reg cap d' \<and> \<not> pg_opened aid d' \<and> pg_outcome aid d' = Some AOk \<and> pg_work reg d' \<le> pg_work reg d"
proof -
  note K = coreD(1) [OF assms(1)]
  from assms(2) obtain a j where aj: "open_live aid d = Some (a, j)"
    by (auto simp: complete_attempt_def split: option.splits)
  note s = complete_settled [OF K aj assms(2), of reg]
  then have st: "settles reg d d'" by (auto simp: settles_def)
  have "a \<in> set (attempt d)" "a_id a = aid" using aj by (simp_all add: open_live_iff [OF K])
  then have "get_attempt aid d = Some a" by (simp add: get_attempt_iff [OF K])
  moreover have "get_attempt aid d' = map_option (\<lambda>x. if a_id x = aid then x\<lparr>a_status := AOk, a_ended := Some t, a_result := Some r\<rparr> else x) (get_attempt aid d)"
    unfolding get_attempt_def using s by (simp add: settled_def get_row_map)
  ultimately have g: "get_attempt aid d' = Some (a\<lparr>a_status := AOk, a_ended := Some t, a_result := Some r\<rparr>)"
    using \<open>a_id a = aid\<close> by simp
  then have "\<not> pg_opened aid d'" "pg_outcome aid d' = Some AOk" by (simp_all add: pg_opened_def open_live_def pg_outcome_def)
  with settles_core [OF st assms(1)] settles_work [OF st] show ?thesis by simp
qed

lemma fail_law:
  assumes "core reg cap d" "fail_attempt reg t aid r d = Inr d'"
  shows "core reg cap d' \<and> \<not> pg_opened aid d' \<and> pg_outcome aid d' = Some AFailed \<and> pg_work reg d' \<le> pg_work reg d"
proof -
  note K = coreD(1) [OF assms(1)]
  have st: "settles reg d d'" by (rule fail_settles [OF K assms(2)])
  from assms(2) obtain a where a: "get_attempt aid d = Some a"
    "attempt d' = map (\<lambda>x. if a_id x = aid then fail_row t r x else x) (attempt d)" by (rule fail_attempt_shape)
  then have "a_id a = aid" by (auto simp: get_attempt_def dest: get_row_Some)
  moreover have "get_attempt aid d' = map_option (\<lambda>x. if a_id x = aid then fail_row t r x else x) (get_attempt aid d)"
    unfolding get_attempt_def a(2) by (rule get_row_map) (simp add: fail_row_def)
  ultimately have "get_attempt aid d' = Some (fail_row t r a)" using a(1) by simp
  then have "\<not> pg_opened aid d'" "pg_outcome aid d' = Some AFailed"
    by (simp_all add: pg_opened_def open_live_def pg_outcome_def fail_row_def)
  with settles_core [OF st assms(1)] settles_work [OF st] show ?thesis by simp
qed

lemma fail_total:
  assumes "core reg cap d"
  shows "fail_attempt reg t aid r d = Inl e \<Longrightarrow> e = Lost_Lease" "pg_opened aid d \<Longrightarrow> \<exists>d'. fail_attempt reg t aid r d = Inr d'"
proof -
  note K = coreD(1) [OF assms]
  have j: "\<exists>k. \<forall>A. get_job (a_job a) (d\<lparr>attempt := A\<rparr>) = Some k" if a: "get_attempt aid d = Some a" for a
  proof -
    from a obtain k where "get_job (a_job a) d = Some k" using attempt_has_job [OF K] get_attempt_iff [OF K] by metis
    then show ?thesis by (simp add: get_job_def)
  qed
  show "e = Lost_Lease" if f: "fail_attempt reg t aid r d = Inl e"
  proof (cases "get_attempt aid d")
    case None
    with f show ?thesis by (simp add: fail_attempt_def)
  next
    case (Some a)
    with f j [OF Some] show ?thesis by (auto simp: fail_attempt_def Let_def split: option.splits if_splits prod.splits)
  qed
  assume "pg_opened aid d"
  then obtain a where a: "get_attempt aid d = Some a" "a_status a = AOpen"
    by (auto simp: pg_opened_def open_live_def split: option.splits if_splits)
  then show "\<exists>d'. fail_attempt reg t aid r d = Inr d'"
    using j [OF a(1)] by (auto simp: fail_attempt_def Let_def split: option.splits prod.splits)
qed

interpretation postgres: finite_ledger "pg_ops reg cap locked" "core reg cap" pg_opened pg_outcome
  "\<lambda>s s'. pg_work reg s' \<le> pg_work reg s" "pg_work reg"
proof (unfold_locales, simp_all only: pg_ops_def ledger_ops.select_convs)
  fix s t k s' a assume s: "core reg cap s"
  show "lease_job cap t k locked s = (s', Some a) \<Longrightarrow> core reg cap s' \<and> pg_opened a s'"
    "lease_job cap t k locked s = (s', Some a) \<Longrightarrow> pg_work reg s' < pg_work reg s"
    unfolding lease_job_def using lease_loop_law [OF s] by blast+
  show "lease_job cap t k locked s = (s', None) \<Longrightarrow> core reg cap s'"
    unfolding lease_job_def using lease_loop_law [OF s] by blast
next
  fix s a show "(get_attempt_job a s \<noteq> None) = pg_opened a s"
    by (auto simp: get_attempt_job_def pg_opened_def split: option.splits)
next
  fix s a t r s' e assume s: "core reg cap s"
  show "pg_opened a s \<Longrightarrow> \<exists>s'. complete_attempt t a r s = Inr s'"
    by (auto simp: complete_attempt_def pg_opened_def Let_def)
  show "complete_attempt t a r s = Inr s' \<Longrightarrow>
      core reg cap s' \<and> \<not> pg_opened a s' \<and> pg_outcome a s' = Some AOk \<and> pg_work reg s' \<le> pg_work reg s"
    by (rule complete_law [OF s])
  show "complete_attempt t a r s = Inl e \<Longrightarrow> e = Lost_Lease"
    by (auto simp: complete_attempt_def Let_def split: option.splits)
  show "pg_opened a s \<Longrightarrow> \<exists>s'. fail_attempt reg t a r s = Inr s'" by (rule fail_total(2) [OF s])
  show "fail_attempt reg t a r s = Inr s' \<Longrightarrow>
      core reg cap s' \<and> \<not> pg_opened a s' \<and> pg_outcome a s' = Some AFailed \<and> pg_work reg s' \<le> pg_work reg s"
    by (rule fail_law [OF s])
  show "fail_attempt reg t a r s = Inl e \<Longrightarrow> e = Lost_Lease" by (rule fail_total(1) [OF s])
next
  fix b s t a s' e assume "Some heartbeat_attempt = Some b" and s: "core reg cap s"
  then have b: "heartbeat_attempt = b" by simp
  show "b t a s = Inr s' \<Longrightarrow> core reg cap s' \<and> pg_work reg s' \<le> pg_work reg s"
    using heartbeat_settles [OF coreD(1) [OF s], of t a s' reg] settles_core [OF _ s] settles_work [of reg s s'] unfolding b [symmetric]
    by simp
  show "b t a s = Inl e \<Longrightarrow> e = Lost_Lease \<and> \<not> pg_opened a s"
    unfolding b [symmetric] by (auto simp: heartbeat_attempt_def pg_opened_def split: option.splits)
qed

text \<open>The same contract with unrestricted neighbours, who may submit work meanwhile.\<close>

interpretation busy: worker_ledger "pg_ops reg cap locked" "core reg cap" pg_opened pg_outcome "\<lambda>_ _. True"
proof (unfold_locales, goal_cases)
  case (3 s t k s' a) then show ?case by (rule postgres.lease_some)
next
  case (4 s t k s') then show ?case by (rule postgres.lease_none)
next
  case (5 s a) then show ?case by (rule postgres.job_iff)
next
  case (6 s a t r) then show ?case by (rule postgres.complete_open)
next
  case (7 s t a r s') then show ?case using postgres.complete_law by blast
next
  case (8 s t a r e) then show ?case by (rule postgres.complete_lost)
next
  case (9 s a t r) then show ?case by (rule postgres.fail_open)
next
  case (10 s t a r s') then show ?case using postgres.fail_law by blast
next
  case (11 s t a r e) then show ?case by (rule postgres.fail_lost)
next
  case (12 b s t a s') then show ?case using postgres.beat_law by blast
next
  case (13 b s t a e) then show ?case by (rule postgres.beat_lost)
qed simp_all

section \<open>Theorems\<close>

text \<open>
  C18. What a worker reports is what the ledger holds: when an attempt on a reachable Postgres ledger
  ends without an exception, whatever its neighbours did meanwhile, it is not open any more; a
  reported success is an attempt closed as ok, any other reported status one closed as failed, and
  an attempt that reports not to be the owner finds itself closed.
\<close>

theorem worker_report_recorded:
  assumes "reach (ledger_step race reg cap) empty_db (led w)"
    and "\<And>t s. t \<in> set (rn_ticks r) \<Longrightarrow> core reg cap s \<Longrightarrow> core reg cap (tk_env t s)"
    and "\<And>s. core reg cap s \<Longrightarrow> core reg cap (rn_env r s)"
    and "process_attempt (pg_ops reg cap locked) st hb aid r w = (w', e)" "e \<noteq> Exn" "e \<noteq> Cancel_Exn"
  shows "core reg cap (led w') \<and> open_live aid (led w') = None
    \<and> (\<forall>rs. e = Recorded rs \<longrightarrow> map_option a_status (get_attempt aid (led w')) = Some (if rs = ROk then AOk else AFailed))"
proof -
  have "busy.keeps_run reg cap r" using assms(2,3) by (auto simp: busy.keeps_run_def busy.keeps_def list_all_iff)
  from busy.process_good [OF reachable_core [OF assms(1)] this assms(4)] assms(5,6) show ?thesis
    unfolding busy.settled_as_def pg_opened_def pg_outcome_def by (cases e) (simp_all only: attempt_end.simps, blast+)
qed

text \<open>
  C20. Draining a Postgres queue ends: if the neighbours add no work, a drain of a reachable ledger
  returns after at most as many jobs as the poison ceiling leaves attempts, retries included.
\<close>

theorem postgres_drain_ends:
  assumes "reach (ledger_step race reg cap) empty_db (led w)"
    and "\<And>n f s. f = rn_env (runs n) \<or> f \<in> tk_env ` set (rn_ticks (runs n)) \<Longrightarrow> core reg cap s \<Longrightarrow>
      core reg cap (f s) \<and> pg_work reg (f s) \<le> pg_work reg s"
  shows "\<exists>w' m clean. drain (Suc (pg_work reg (led w))) (pg_ops reg cap locked) st k runs 0 w = Some (w', m, clean)
    \<and> m \<le> pg_work reg (led w)"
proof -
  have "postgres.keeps_run reg cap (runs n)" for n
    using assms(2) [of _ n] by (auto simp: postgres.keeps_run_def postgres.keeps_def list_all_iff)
  from postgres.drain_ends [where runs = runs and locked = locked and st = st and k = k and n = 0,
      OF reachable_core [OF assms(1)] this lessI]
  show ?thesis unfolding add_0 by blast
qed

text \<open>
  Draining the demo ledger empties it: a drain of a well-formed SQLite ledger without
  interference returns, and unless an exception stopped it no job is queued afterwards.
\<close>

theorem sqlite_drain_empties:
  assumes "sq_ok (led w)" "\<And>n. rn_env (runs n) = id" "\<And>n. tk_env ` set (rn_ticks (runs n)) \<subseteq> {id}"
  shows "\<exists>w' m clean. drain (Suc (sq_count_queued (led w))) sq_ops st k runs 0 w = Some (w', m, clean)
    \<and> sq_ok (led w') \<and> m \<le> sq_count_queued (led w) \<and> (clean \<longrightarrow> sq_count_queued (led w') = 0)"
proof -
  have "tk_env t = id" if "t \<in> set (rn_ticks (runs n))" for t n using assms(3) [of n] that by auto
  then have "sqlite.keeps_run (runs n)" for n using assms(2) [of n]
    by (auto simp: sqlite.keeps_run_def sqlite.keeps_def list_all_iff)
  from sqlite.drain_ends [where runs = runs and st = st and k = k and n = 0, OF assms(1) this lessI] obtain w' m clean where
    d: "drain (Suc (sq_count_queued (led w))) sq_ops st k runs 0 w = Some (w', m, clean)" "sq_ok (led w')"
      "m \<le> sq_count_queued (led w)" "clean \<longrightarrow> (\<exists>s t. lo_lease sq_ops t k s = (led w', None))" unfolding add_0 by blast
  have "sq_count_queued (led w') = 0" if "sq_lease_job t k s = (led w', None)" for s t
  proof -
    have e: "led w' = s" using sq_lease_none [OF that] .
    from that have "first_by sj_created (filter (\<lambda>j. sj_status j = JQueued) (sq_jobs s)) = None"
      by (auto simp: sq_lease_job_def split: option.splits)
    then show ?thesis unfolding e by (simp add: first_by_None sq_count_queued_def count_where_def)
  qed
  then have "clean \<longrightarrow> sq_count_queued (led w') = 0" using d(4) by (auto simp: sq_ops_def)
  with d(1-3) show ?thesis by blast
qed

end
