(* ===== verification/Pool.thy ===== *)
theory Pool
  imports Worker_Ledgers
begin

text \<open>
  \<^verbatim>\<open>src/runtime/pool.py\<close>: the concurrent worker pool. One turn of a worker's loop, one turn of the
  janitor's loop and one check of the idle monitor are functions; what the event loop interleaves is
  a sequence of such turns. A call into the ledger that raises is part of the turn's argument.
  Durations are rationals (the code's floats are only scaled by powers of two and compared).
\<close>

section \<open>Configuration\<close>

definition FAULT_BACKOFF_CAP_S :: rat where
  "FAULT_BACKOFF_CAP_S = 30"

record pool_config =
  pc_size :: nat
  pc_poll :: rat
  pc_janitor :: rat
  pc_heartbeat :: "rat option"
  pc_sweep :: rat
  pc_reconcile :: rat

record pool =
  pl_cfg :: pool_config
  pl_processed :: nat
  pl_reclaimed :: nat
  pl_swept :: nat
  pl_faults :: nat
  pl_truncated :: bool
  pl_reconciled :: nat
  pl_stop :: bool
  pl_inflight :: int
  pl_last :: rat
  pl_last_sweep :: rat
  pl_last_reconcile :: rat

datatype pool_error = Extend_Below_Lease | Heartbeat_Too_Slow | Already_Running | Poll_Too_Slow | Janitor_Too_Slow

definition mk_pool :: "int option \<Rightarrow> int option \<Rightarrow> pool_config \<Rightarrow> pool_error + pool" where
  "mk_pool lease ext cfg =
     (let has_lease = (case lease of None \<Rightarrow> False | Some l \<Rightarrow> l \<noteq> 0) in
      if has_lease \<and> (case ext of None \<Rightarrow> False | Some e \<Rightarrow> e < the lease) then Inl Extend_Below_Lease
      else if has_lease \<and> (case pc_heartbeat cfg of None \<Rightarrow> False | Some h \<Rightarrow> h \<noteq> 0 \<and> h > of_int (the lease) / 3)
      then Inl Heartbeat_Too_Slow
      else Inr \<lparr>pl_cfg = cfg, pl_processed = 0, pl_reclaimed = 0, pl_swept = 0, pl_faults = 0,
                pl_truncated = False, pl_reconciled = 0, pl_stop = False, pl_inflight = 0, pl_last = 0,
                pl_last_sweep = 0, pl_last_reconcile = 0\<rparr>)"

section \<open>Faults\<close>

definition fault_backoff :: "rat \<Rightarrow> int \<Rightarrow> rat" where
  "fault_backoff base streak =
     (if streak \<le> 0 then base else max base (min (base * 2 ^ nat (min streak 30)) FAULT_BACKOFF_CAP_S))"

datatype log_line = Traceback | One_Line int | Recovered int | Swept nat

definition log_fault :: "int \<Rightarrow> log_line" where
  "log_fault streak = (if streak = 1 then Traceback else One_Line streak)"

definition heartbeats :: "pool_config \<Rightarrow> bool" where
  "heartbeats cfg \<longleftrightarrow> (case pc_heartbeat cfg of None \<Rightarrow> False | Some h \<Rightarrow> h \<noteq> 0)"

definition touch :: "rat \<Rightarrow> pool \<Rightarrow> pool" where
  "touch now p = p\<lparr>pl_last := now\<rparr>"

section \<open>A worker's turn\<close>

record 's turn =
  tn_lease_raises :: bool
  tn_run :: "'s run"
  tn_leased_at :: rat
  tn_ended_at :: rat
  tn_fail_raises :: bool
  tn_fail_at :: time

datatype rest = Sleep rat | Pause rat | Go_On | Task_Ends

definition terminal_result :: result where
  "terminal_result = \<lparr>status = RError, res_text = map of_char ''worker caught an unexpected error'', exit_code = None,
     err_class = Some Terminal, artifact_ref = None, cost = None, ms = None\<rparr>"

definition fail_poison ::
  "'s ledger_ops \<Rightarrow> 's turn \<Rightarrow> uuid \<Rightarrow> 's world \<Rightarrow> 's world" where
  "fail_poison L t aid w =
     (if tn_fail_raises t then w
      else case lo_fail L (tn_fail_at t) aid terminal_result (led w) of Inl _ \<Rightarrow> w | Inr s \<Rightarrow> w\<lparr>led := s\<rparr>)"

definition worker_turn ::
  "'s ledger_ops \<Rightarrow> site \<Rightarrow> string \<Rightarrow> 's turn \<Rightarrow> int \<Rightarrow> pool \<Rightarrow> 's world
     \<Rightarrow> int \<times> pool \<times> 's world \<times> rest \<times> log_line list" where
  "worker_turn L st k t lf p w =
     (if tn_lease_raises t
      then (lf + 1, p\<lparr>pl_faults := pl_faults p + 1\<rparr>, w, Pause (fault_backoff (pc_poll (pl_cfg p)) (lf + 1)),
            [log_fault (lf + 1)])
      else
        (let (s, out) = lo_lease L (rn_lease_at (tn_run t)) k (led w);
             note = (if lf \<noteq> 0 then [Recovered lf] else [])
         in case out of
              None \<Rightarrow> (0, p, w\<lparr>led := s\<rparr>, Sleep (pc_poll (pl_cfg p)), note)
            | Some aid \<Rightarrow>
                (let p1 = touch (tn_leased_at t) (p\<lparr>pl_inflight := pl_inflight p + 1\<rparr>);
                     (w1, e) = process_attempt L st (heartbeats (pl_cfg p)) aid (tn_run t) (w\<lparr>led := s\<rparr>);
                     p2 = (case e of Recorded _ \<Rightarrow> p1\<lparr>pl_processed := pl_processed p1 + 1\<rparr> | _ \<Rightarrow> p1);
                     p3 = touch (tn_ended_at t) (p2\<lparr>pl_inflight := pl_inflight p2 - 1\<rparr>)
                 in case e of
                      Cancel_Exn \<Rightarrow> (0, p3, w1, Task_Ends, note)
                    | Exn \<Rightarrow> (0, p3\<lparr>pl_faults := pl_faults p3 + 1\<rparr>, fail_poison L t aid w1,
                              Sleep (pc_poll (pl_cfg p)), note @ [Traceback])
                    | _ \<Rightarrow> (0, p3, w1, Go_On, note))))"

section \<open>The janitor's turn\<close>

record jturn =
  jn_reclaim_raises :: bool
  jn_at :: time
  jn_clock :: rat
  jn_locked :: "uuid list"
  jn_sweep_raises :: bool
  jn_reap :: reap_obs
  jn_reconcile_raises :: bool

definition maybe_sweep :: "site \<Rightarrow> jturn \<Rightarrow> pool \<Rightarrow> db world \<Rightarrow> pool \<times> db world \<times> log_line list" where
  "maybe_sweep st t p w =
     (if jn_clock t - pl_last_sweep p < pc_sweep (pl_cfg p) then (p, w, [])
      else
        (let p1 = p\<lparr>pl_last_sweep := jn_clock t\<rparr> in
         if jn_sweep_raises t then (p1, w, [Traceback])
         else
           (let reapable = st_str st ` reapable_attempt_ids (jn_at t) LEASE_SECONDS (led w)
            in case sweep (st_base st) (jn_reap t) reapable (ws w) of
                 (v, plan, None) \<Rightarrow> (p1, w\<lparr>ws := v\<rparr>, [Traceback])
               | (v, plan, Some n) \<Rightarrow>
                   (p1\<lparr>pl_swept := pl_swept p1 + n\<rparr>, w\<lparr>ws := v\<rparr>, if n = 0 then [] else [Swept n]))))"

definition maybe_reconcile :: "jturn \<Rightarrow> pool \<Rightarrow> db world \<Rightarrow> pool \<times> db world \<times> log_line list" where
  "maybe_reconcile t p w =
     (if jn_clock t - pl_last_reconcile p < pc_reconcile (pl_cfg p) then (p, w, [])
      else
        (let p1 = p\<lparr>pl_last_reconcile := jn_clock t\<rparr> in
         if jn_reconcile_raises t then (p1, w, [Traceback])
         else
           (let (s, n) = reconcile_repo_concurrency (jn_at t) (jn_locked t) (led w)
            in (p1\<lparr>pl_reconciled := pl_reconciled p1 + n\<rparr>, w\<lparr>led := s\<rparr>, []))))"

definition janitor_turn ::
  "site \<Rightarrow> jturn \<Rightarrow> int \<Rightarrow> pool \<Rightarrow> db world \<Rightarrow> int \<times> pool \<times> db world \<times> log_line list" where
  "janitor_turn st t faults p w =
     (let (f1, p1, w1, l1) =
            (if jn_reclaim_raises t then (faults + 1, p, w, [log_fault (faults + 1)])
             else
               (let (s, n) = reclaim_expired (st_reg st) (jn_at t) (jn_locked t) (led w);
                    note = (if faults \<noteq> 0 then [Recovered faults] else [])
                in (0, if n = 0 then p else touch (jn_clock t) (p\<lparr>pl_reclaimed := pl_reclaimed p + n\<rparr>),
                    w\<lparr>led := s\<rparr>, note)));
          (p2, w2, l2) = maybe_sweep st t p1 w1;
          (p3, w3, l3) = maybe_reconcile t p2 w2
      in (f1, p3, w3, l1 @ l2 @ l3))"

section \<open>Running until idle\<close>

definition run_checks :: "bool \<Rightarrow> rat \<Rightarrow> pool \<Rightarrow> pool_error option" where
  "run_checks busy quiet p =
     (if busy then Some Already_Running
      else if pc_poll (pl_cfg p) \<ge> quiet then Some Poll_Too_Slow
      else if pc_janitor (pl_cfg p) \<ge> quiet then Some Janitor_Too_Slow
      else None)"

definition begin_run :: "rat \<Rightarrow> pool \<Rightarrow> pool" where
  "begin_run now p = (touch now (p\<lparr>pl_stop := False\<rparr>))\<lparr>pl_truncated := False\<rparr>"

datatype verdict = Keep_Running | Idle | Out_Of_Time

definition monitor :: "rat \<Rightarrow> rat \<Rightarrow> rat \<Rightarrow> nat \<Rightarrow> rat \<Rightarrow> pool \<Rightarrow> pool \<times> verdict" where
  "monitor quiet max_runtime started queued now p =
     (if pl_inflight p = 0 \<and> queued = 0 \<and> now - pl_last p > quiet then (p, Idle)
      else if now - started > max_runtime then (p\<lparr>pl_truncated := True\<rparr>, Out_Of_Time)
      else (p, Keep_Running))"

section \<open>Theorems\<close>

text \<open>
  The fault backoff is bounded and never speeds a loop up: with a positive cadence a retry waits at
  least the configured cadence and at most the larger of the cadence and thirty seconds, and a longer
  streak never waits less.
\<close>

theorem fault_backoff_bounds:
  assumes "0 < base" "streak \<le> streak'"
  shows "base \<le> fault_backoff base streak \<and> fault_backoff base streak \<le> max base 30
    \<and> fault_backoff base streak \<le> fault_backoff base streak'"
proof -
  define x y where "x = base * 2 ^ nat (min streak 30)" and "y = base * 2 ^ nat (min streak' 30)"
  have xy: "x \<le> y" unfolding x_def y_def using assms
    by (intro mult_left_mono power_increasing) (auto simp: nat_mono)
  have f: "fault_backoff base streak = (if streak \<le> 0 then base else max base (min x 30))"
    "fault_backoff base streak' = (if streak' \<le> 0 then base else max base (min y 30))"
    by (simp_all only: fault_backoff_def FAULT_BACKOFF_CAP_S_def x_def y_def)
  have b: "base \<le> max base (min x 30)" "max base (min x 30) \<le> max base 30" "max base (min x 30) \<le> max base (min y 30)"
    "base \<le> max base (min y 30)" "base \<le> max base 30" using xy by linarith+
  show ?thesis
  proof (cases "streak \<le> 0")
    case True
    with b show ?thesis unfolding f by (simp only: if_P split: if_split) blast
  next
    case False
    then have "\<not> streak' \<le> 0" using assms(2) by linarith
    with False b show ?thesis unfolding f by (simp only: if_False)
  qed
qed

text \<open>
  C21. No turn of a worker leaves the attempt it leased holding a live job: provided the task is not cancelled
  and the ledger does not fail the very call that records the failure, after the turn the attempt is
  closed or its job is no longer live (another worker or a cancellation took it), also when the job was
  poison or its clean-up raised, and the pool counts as many attempts in flight as before.
\<close>

theorem pool_turn_settles:
  assumes "reach (ledger_step race reg cap) empty_db (led w)"
    and "\<And>x s. x \<in> set (rn_ticks (tn_run t)) \<Longrightarrow> core reg cap s \<Longrightarrow> core reg cap (tk_env x s)"
    and "\<And>s. core reg cap s \<Longrightarrow> core reg cap (rn_env (tn_run t) s)"
    and "worker_turn (pg_ops reg cap locked) st k t lf p w = (lf', p', w', rest, lg)"
    and "lease_job cap (rn_lease_at (tn_run t)) k locked (led w) = (d, Some aid)"
    and "\<not> tn_lease_raises t" "\<not> tn_fail_raises t" "rest \<noteq> Task_Ends"
  shows "open_live aid (led w') = None \<and> pl_inflight p' = pl_inflight p \<and> lf' = 0"
proof -
  let ?L = "pg_ops reg cap locked"
  have keeps: "busy.keeps_run reg cap (tn_run t)" using assms(2,3) by (auto simp: busy.keeps_run_def busy.keeps_def list_all_iff)
  have l: "lo_lease ?L (rn_lease_at (tn_run t)) k (led w) = (d, Some aid)" using assms(5) by (simp add: pg_ops_def)
  have good: "core reg cap d" using busy.lease_some [OF reachable_core [OF assms(1)] l] by blast
  obtain w1 e where pa: "process_attempt ?L st (heartbeats (pl_cfg p)) aid (tn_run t) (w\<lparr>led := d\<rparr>) = (w1, e)" by fastforce
  from busy.process_good [OF _ keeps pa] good have w1: "core reg cap (led w1)" "busy.settled_as aid e (led w1)" by auto
  have turn: "(case e of
        Cancel_Exn \<Rightarrow> rest = Task_Ends
      | Exn \<Rightarrow> w' = fail_poison ?L t aid w1
      | _ \<Rightarrow> w' = w1) \<and> pl_inflight p' = pl_inflight p \<and> lf' = 0"
    using assms(4,6) l pa unfolding worker_turn_def by (cases e) (auto simp: touch_def)
  have "\<not> pg_opened aid (led (fail_poison ?L t aid w1))"
  proof (cases "lo_fail ?L (tn_fail_at t) aid terminal_result (led w1)")
    case (Inl x)
    then have "\<not> pg_opened aid (led w1)" using busy.fail_open [OF w1(1), where locked = locked and t = "tn_fail_at t" and r = terminal_result and a = aid] by force
    with Inl assms(7) show ?thesis by (simp add: fail_poison_def)
  next
    case (Inr s)
    with busy.fail_law [OF w1(1) Inr] assms(7) show ?thesis by (simp add: fail_poison_def)
  qed
  with turn w1(2) assms(8) have "\<not> pg_opened aid (led w')" by (cases e) (auto simp: busy.settled_as_def)
  then show ?thesis using turn unfolding pg_opened_def by blast
qed

text \<open>
  Heartbeats keep a lease: when the pool accepts a heartbeat interval for the Postgres ledger, a
  successful heartbeat protects the attempt from the janitor for three intervals, so two heartbeats in
  a row may be lost.
\<close>

theorem heartbeat_protects:
  assumes "mk_pool (Some LEASE_SECONDS) (Some HEARTBEAT_SECONDS) cfg = Inr p" "pc_heartbeat cfg = Some h" "h \<noteq> 0"
    and "heartbeat_attempt now aid d = Inr d'" "a \<in> set (attempt d')" "a_id a = aid"
    and "of_int (t - now) < 3 * h"
  shows "\<not> expired t d' a"
proof -
  have "h \<le> 40" using assms(1-3) by (simp add: mk_pool_def Let_def LEASE_SECONDS_def HEARTBEAT_SECONDS_def split: if_splits)
  with assms(7) have "of_int (t - now) < (120 :: rat)" by linarith
  then have t: "t < now + 120" by (metis diff_less_eq add.commute of_int_less_iff of_int_numeral)
  from assms(4) have "attempt d' = upd_where (\<lambda>a. a_id a = aid) (\<lambda>a. a\<lparr>a_expires := now + HEARTBEAT_SECONDS\<rparr>) (attempt d)"
    by (auto simp: heartbeat_attempt_def split: option.splits)
  with assms(5) obtain b where "b \<in> set (attempt d)" "a = (if a_id b = aid then b\<lparr>a_expires := now + HEARTBEAT_SECONDS\<rparr> else b)"
    by (auto simp: in_upd_where)
  with assms(6) have "a_expires a = now + 120" by (cases "a_id b = aid") (simp_all add: HEARTBEAT_SECONDS_def)
  with t have "\<not> a_expires a \<le> t" by simp
  then show ?thesis unfolding expired_def by blast
qed

end
