(* ===== verification/Ledger_Limits.thy ===== *)
theory Ledger_Limits
  imports Ledger_System
begin

text \<open>
  Admission and exactly-once dispatch: the delegation tree stays within its depth and fan-out
  limits, a platform event is stored once under its dedupe key, and an event has at most one
  job.
\<close>

section \<open>Rewriting jobs in place\<close>

text \<open>Claims and settlements keep the fields that place a job, and never revive a dead one.\<close>

definition keeps_place :: "(job_row \<Rightarrow> job_row) \<Rightarrow> db \<Rightarrow> bool" where
  "keeps_place f d \<longleftrightarrow> (\<forall>j \<in> set (job d). j_id (f j) = j_id j \<and> j_parent (f j) = j_parent j
     \<and> j_root (f j) = j_root j \<and> j_depth (f j) = j_depth j \<and> j_inbound (f j) = j_inbound j
     \<and> (j_status j = JDead \<longrightarrow> j_status (f j) = JDead))"

lemma keeps_placeD:
  assumes "keeps_place f d" "j \<in> set (job d)"
  shows "j_id (f j) = j_id j" "j_parent (f j) = j_parent j" "j_root (f j) = j_root j"
    "j_depth (f j) = j_depth j" "j_inbound (f j) = j_inbound j" "j_status (f j) \<noteq> JDead \<Longrightarrow> j_status j \<noteq> JDead"
  using assms by (auto simp: keeps_place_def)

lemma settled_keeps_place:
  assumes "settled reg f g d d'"
  shows "keeps_place f d" "job d' = map f (job d)"
proof -
  show "keeps_place f d"
    unfolding keeps_place_def using settled_job(1,4,6-9) [OF assms] by (simp add: terminal_status_def)
  show "job d' = map f (job d)" by (rule settledD(1) [OF assms])
qed

lemma claimed_keeps_place:
  assumes "claimed now worker j d d'"
  shows "keeps_place (leased_row (j_id j)) d" "job d' = map (leased_row (j_id j)) (job d)"
  using assms by (auto simp: keeps_place_def leased_row_def claimed_def)

text \<open>Every step inserts one placed job or rewrites the job table in place.\<close>

lemma ledger_step_jobs:
  assumes "ledger_step race reg cap d d'" "keys_ok d"
  obtains (insert) j where "job d' = job d @ [j]" "j_id j = next_id d" "tree_placed j d" "event_placed j d"
  | (rewrite) f where "keeps_place f d" "job d' = map f (job d)"
  using assms
proof (cases rule: ledger_step_shape)
  case (insert j)
  then show thesis by (intro that(1)) (auto simp: inserted_def)
next
  case (claim now worker j)
  from claimed_keeps_place [OF claim(1)] show thesis by (rule rewrite)
next
  case (settle d1)
  then obtain f g f2 g2 where s: "settled reg f g d d1" "settled reg f2 g2 d1 d'" by (auto simp: settles_def)
  note a = settled_keeps_place [OF s(1)] and b = settled_keeps_place [OF s(2)]
  have "keeps_place (f2 \<circ> f) d" using a b by (auto simp: keeps_place_def)
  moreover have "job d' = map (f2 \<circ> f) (job d)" using a(2) b(2) by simp
  ultimately show thesis by (rule rewrite)
qed

section \<open>The delegation tree\<close>

definition tree_ok :: "db \<Rightarrow> bool" where
  "tree_ok d \<longleftrightarrow> (\<forall>j \<in> set (job d). (case j_parent j of
       None \<Rightarrow> j_depth j = 0 \<and> j_root j = j_id j
     | Some p \<Rightarrow> (\<exists>k \<in> set (job d). j_id k = p \<and> j_depth j = Suc (j_depth k) \<and> j_root j = j_root k)))
     \<and> (\<forall>j \<in> set (job d). j_status j = JDead \<or> j_depth j \<le> MAX_DEPTH)
     \<and> (\<forall>p. count_children p d \<le> MAX_CHILDREN)"

lemma tree_ok_rewrite:
  assumes "tree_ok d" "keeps_place f d" "job d' = map f (job d)"
  shows "tree_ok d'"
proof -
  note P = keeps_placeD [OF assms(2)]
  have par: "case j_parent (f j) of None \<Rightarrow> j_depth (f j) = 0 \<and> j_root (f j) = j_id (f j)
     | Some p \<Rightarrow> \<exists>k \<in> set (job d'). j_id k = p \<and> j_depth (f j) = Suc (j_depth k) \<and> j_root (f j) = j_root k"
    if j: "j \<in> set (job d)" for j
  proof (cases "j_parent j")
    case None
    with assms(1) j P [OF j] show ?thesis by (auto simp: tree_ok_def)
  next
    case (Some p)
    with assms(1) j obtain k where k: "k \<in> set (job d)" "j_id k = p" "j_depth j = Suc (j_depth k)" "j_root j = j_root k"
      by (fastforce simp: tree_ok_def)
    have "f k \<in> set (job d')" using assms(3) k(1) by simp
    moreover have "j_id (f k) = p \<and> j_depth (f j) = Suc (j_depth (f k)) \<and> j_root (f j) = j_root (f k)"
      using k P [OF j] P [OF k(1)] by metis
    ultimately show ?thesis using Some P(2) [OF j] by auto
  qed
  have kids: "count_children p d' \<le> count_children p d" for p
    unfolding count_children_def assms(3) using P by (intro count_where_map_mono) auto
  show ?thesis
    unfolding tree_ok_def
  proof (intro conjI allI)
    show "\<forall>j \<in> set (job d'). case j_parent j of None \<Rightarrow> j_depth j = 0 \<and> j_root j = j_id j
     | Some p \<Rightarrow> \<exists>k \<in> set (job d'). j_id k = p \<and> j_depth j = Suc (j_depth k) \<and> j_root j = j_root k"
      using par assms(3) by auto
    show "\<forall>j \<in> set (job d'). j_status j = JDead \<or> j_depth j \<le> MAX_DEPTH"
      using assms(1,3) P by (fastforce simp: tree_ok_def)
    show "count_children p d' \<le> MAX_CHILDREN" for p
      using kids [of p] assms(1) by (auto simp: tree_ok_def intro: order_trans)
  qed
qed

lemma admission_None:
  "admission p d = None \<longleftrightarrow> j_status p \<in> {JQueued, JLeased, JRunning} \<and> Suc (j_depth p) \<le> MAX_DEPTH
     \<and> count_children (j_id p) d < MAX_CHILDREN"
  by (auto simp: admission_def)

lemma tree_ok_insert:
  assumes "keys_ok d" "tree_ok d" "job d' = job d @ [j]" "tree_placed j d"
  shows "tree_ok d'"
proof -
  have kids: "count_children p d' = count_children p d + (if j_parent j = Some p \<and> j_status j \<noteq> JDead then 1 else 0)" for p
    by (simp add: count_children_def assms(3))
  show ?thesis
  proof (cases "j_parent j")
    case None
    with assms kids show ?thesis by (auto simp: tree_ok_def tree_placed_def split: option.splits)
  next
    case (Some p)
    with assms(4) obtain par where par: "get_job p d = Some par" "j_depth j = Suc (j_depth par)" "j_root j = j_root par"
      "j_status j = (if admission par d = None then JQueued else JDead)" by (auto simp: tree_placed_def)
    then have "par \<in> set (job d)" "j_id par = p" using assms(1) by (simp_all add: get_job_iff)
    with assms(2,3) par Some kids admission_None [of par d] show ?thesis
      by (auto simp: tree_ok_def split: option.splits if_splits)
  qed
qed

lemma ledger_step_tree:
  assumes "core reg cap d" "tree_ok d" "ledger_step race reg cap d d'"
  shows "tree_ok d'"
  using assms(3) coreD(1) [OF assms(1)]
  by (cases rule: ledger_step_jobs) (use assms in \<open>blast intro: tree_ok_insert tree_ok_rewrite coreD(1)\<close>)+

section \<open>Events\<close>

definition events_ok :: "db \<Rightarrow> bool" where
  "events_ok d \<longleftrightarrow> distinct (map ie_dedupe (inbound_event d))
     \<and> distinct (map ie_id (inbound_event d)) \<and> (\<forall>x \<in> set (inbound_event d). ie_id x < next_id d)"

definition dispatched_ok :: "db \<Rightarrow> bool" where
  "dispatched_ok d \<longleftrightarrow> (\<forall>j \<in> set (job d). \<forall>e. j_inbound j = Some e \<longrightarrow> e \<in> ie_id ` set (inbound_event d))
     \<and> (\<forall>j \<in> set (job d). \<forall>k \<in> set (job d). j_inbound j \<noteq> None \<and> j_inbound j = j_inbound k \<longrightarrow> j = k)"

text \<open>The inbound table only grows, and only by an ingest.\<close>

lemma reclaim_inbound [simp]: "inbound_event (fst (reclaim_expired reg now locked d)) = inbound_event d"
  by (simp add: reclaim_expired_def Let_def)

lemma heal_fold_inbound [simp]: "inbound_event (fold heal_rc rs d) = inbound_event d"
  by (induction rs arbitrary: d) (simp_all add: heal_rc_def)

lemma reconcile_inbound [simp]: "inbound_event (fst (reconcile_repo_concurrency now locked d)) = inbound_event d"
  by (simp add: reconcile_repo_concurrency_def Let_def)

lemma cancel_inbound [simp]:
  "inbound_event (cancel now i d) = inbound_event d" "inbound_event (cancel_stmt2 i d) = inbound_event d"
  by (simp_all add: cancel_def cancel_stmt1_def cancel_stmt2_def cancel_stmt3_def)

lemma lease_iter_inbound:
  "lease_iter cap now worker locked skip d = (d', out) \<Longrightarrow> inbound_event d' = inbound_event d"
  by (auto simp: lease_iter_def new_id_def claim_def Let_def split: option.splits if_splits prod.splits)

lemma fail_inbound: "fail_attempt reg now aid res d = Inr d' \<Longrightarrow> inbound_event d' = inbound_event d"
  by (auto simp: fail_attempt_def Let_def split: option.splits if_splits prod.splits)

lemma outbox_inbound [simp]:
  "inbound_event (fst (claim_outbound tr locked d)) = inbound_event d"
  "inbound_event (fst (mark_sent_from src now oid pid d)) = inbound_event d"
  "inbound_event (mark_outbound_failed now oid d) = inbound_event d"
  by (auto simp: claim_outbound_def mark_sent_from_def mark_outbound_failed_def Let_def split: option.splits)

lemma ledger_step_inbound:
  assumes "ledger_step race reg cap d d'"
  obtains (same) "inbound_event d' = inbound_event d"
  | (ingest) now env body where "d' = fst (ingest_inbound now env body d)"
  using assms
proof cases
  case (submit now s i)
  from submit_job_cases [OF submit] show thesis by (metis same)
next
  case (enqueue now i body x)
  from enqueue_outbound_frame [OF enqueue] show thesis by (metis same enqueue_reply_frame(5))
qed (auto intro!: same intro: that(2) lease_iter_inbound fail_inbound simp: heartbeat_attempt_def complete_attempt_def
    append_log_def Let_def mark_outbound_sent_def mark_outbound_sent_inline_def split: option.splits if_splits)

lemma ingest_cases:
  assumes "ingest_inbound now env body d = (d', i)"
  obtains (known) x where "get_row ie_dedupe (dedupe_key env) (inbound_event d) = Some x" "i = ie_id x"
      "inbound_event d' = inbound_event d"
  | (new) x where "get_row ie_dedupe (dedupe_key env) (inbound_event d) = None" "i = next_id d"
      "inbound_event d' = inbound_event d @ [x]" "ie_id x = next_id d" "ie_dedupe x = dedupe_key env"
  using assms by (auto simp: ingest_inbound_def new_id_def split: option.splits)

lemma ingest_grows:
  assumes "ingest_inbound now env body d = (d', i)"
  shows "\<exists>xs. inbound_event d' = inbound_event d @ xs"
  using assms by (cases rule: ingest_cases) auto

lemma ledger_step_grows:
  assumes "ledger_step race reg cap d d'"
  shows "\<exists>xs. inbound_event d' = inbound_event d @ xs"
  using assms by (cases rule: ledger_step_inbound) (auto intro: ingest_grows [OF prod.collapse [symmetric]])

lemma reach_grows:
  assumes "reach (ledger_step race reg cap) d d'"
  shows "\<exists>xs. inbound_event d' = inbound_event d @ xs"
  using assms by (induction rule: reach.induct) (use ledger_step_grows in fastforce)+

lemma ledger_step_next_id:
  assumes "ledger_step race reg cap d d'" "keys_ok d"
  shows "next_id d \<le> next_id d'"
  using assms
  by (cases rule: ledger_step_shape)
    (auto simp: inserted_def claimed_def settles_def dest!: settledD(3))

lemma ledger_step_events:
  assumes "core reg cap d" "events_ok d" "ledger_step race reg cap d d'"
  shows "events_ok d'"
proof -
  have n: "next_id d \<le> next_id d'" by (rule ledger_step_next_id [OF assms(3) coreD(1) [OF assms(1)]])
  from assms(3) show ?thesis
  proof (cases rule: ledger_step_inbound)
    case same
    with assms(2) n show ?thesis by (auto simp: events_ok_def)
  next
    case (ingest now env body)
    have n': "next_id d' = Suc (next_id d)" using ingest by simp
    from prod.collapse [symmetric, of "ingest_inbound now env body d"] show ?thesis
    proof (cases rule: ingest_cases)
      case (known x)
      with assms(2) n ingest show ?thesis by (auto simp: events_ok_def)
    next
      case (new x)
      with assms(2) ingest n' show ?thesis
        by (auto simp: events_ok_def get_row_None image_iff less_SucI)
    qed
  qed
qed

lemma ledger_step_dispatched:
  assumes "core reg cap d" "dispatched_ok d" "ledger_step race reg cap d d'"
  shows "dispatched_ok d'"
proof -
  obtain xs where xs: "inbound_event d' = inbound_event d @ xs" using ledger_step_grows [OF assms(3)] by blast
  from assms(3) coreD(1) [OF assms(1)] show ?thesis
  proof (cases rule: ledger_step_jobs)
    case (insert j)
    have new: "e \<in> ie_id ` set (inbound_event d)" "k \<in> set (job d) \<Longrightarrow> j_inbound k \<noteq> Some e"
      if "j_inbound j = Some e" for e k
      using insert(4) that by (auto simp: event_placed_def get_row_None)
    have old: "e \<in> ie_id ` set (inbound_event d)" if "k \<in> set (job d)" "j_inbound k = Some e" for k e
      using assms(2) that by (simp add: dispatched_ok_def)
    have uni: "k = l" if "k \<in> set (job d)" "l \<in> set (job d)" "j_inbound k = Some e" "j_inbound l = Some e" for k l e
      using assms(2) that by (simp add: dispatched_ok_def)
    show ?thesis
      unfolding dispatched_ok_def insert(1) xs
    proof (intro conjI ballI allI impI)
      show "e \<in> ie_id ` set (inbound_event d @ xs)" if "k \<in> set (job d @ [j])" "j_inbound k = Some e" for k e
        using that new(1) [of e] old [of k e] by auto
      fix k l assume kl: "k \<in> set (job d @ [j])" "l \<in> set (job d @ [j])" "j_inbound k \<noteq> None \<and> j_inbound k = j_inbound l"
      then obtain e where "j_inbound k = Some e" "j_inbound l = Some e" by (metis option.exhaust)
      with kl new(2) [of e] uni [of k l e] show "k = l" by auto
    qed
  next
    case (rewrite f)
    note P = keeps_placeD(5) [OF rewrite(1)]
    have "f j = f k" if "j \<in> set (job d)" "k \<in> set (job d)" "j_inbound (f j) \<noteq> None" "j_inbound (f j) = j_inbound (f k)" for j k
      using that assms(2) P [OF that(1)] P [OF that(2)] unfolding dispatched_ok_def by metis
    moreover have "e \<in> ie_id ` set (inbound_event d')" if "j \<in> set (job d)" "j_inbound (f j) = Some e" for j e
      using that assms(2) P [OF that(1)] xs by (auto simp: dispatched_ok_def)
    ultimately show ?thesis unfolding dispatched_ok_def rewrite(2) set_map by blast
  qed
qed

definition intake_ok :: "registry \<Rightarrow> int \<Rightarrow> db \<Rightarrow> bool" where
  "intake_ok reg cap d \<longleftrightarrow> core reg cap d \<and> tree_ok d \<and> events_ok d \<and> dispatched_ok d"

interpretation intake: invariant_system "ledger_step race reg cap" "intake_ok reg cap"
  for race :: bool and reg :: registry and cap :: int
  by unfold_locales
    (auto simp: intake_ok_def intro: ledger_step_core ledger_step_tree ledger_step_events ledger_step_dispatched)

lemma intake_empty: "intake_ok reg cap empty_db"
  by (simp add: intake_ok_def core_empty)
    (simp add: tree_ok_def events_ok_def dispatched_ok_def empty_db_def count_children_def)

lemma reachable_intake: "reach (ledger_step race reg cap) empty_db d \<Longrightarrow> intake_ok reg cap d"
  by (rule intake.reach_inv [OF _ intake_empty])

section \<open>The theorems\<close>

text \<open>
  C9. Recursion is bounded: in every reachable database a job that is not dead has a depth of at
  most \<open>MAX_DEPTH\<close> and every job has at most \<open>MAX_CHILDREN\<close> children that are not dead.
\<close>

theorem delegation_bounded:
  assumes "reach (ledger_step race reg cap) empty_db d" "j \<in> set (job d)"
  shows "(j_status j = JDead \<or> j_depth j \<le> MAX_DEPTH) \<and> count_children (j_id j) d \<le> MAX_CHILDREN"
  using reachable_intake [OF assms(1)] assms(2) by (auto simp: intake_ok_def tree_ok_def)

text \<open>
  The delegation tree is consistent: a job without a parent is the root of its own tree, and
  a child's parent exists, is one level above it and belongs to the same tree.
\<close>

theorem delegation_tree:
  assumes "reach (ledger_step race reg cap) empty_db d" "j \<in> set (job d)"
  shows "case j_parent j of
      None \<Rightarrow> j_depth j = 0 \<and> j_root j = j_id j
    | Some p \<Rightarrow> (\<exists>k. k \<in> set (job d) \<and> j_id k = p \<and> j_depth j = Suc (j_depth k) \<and> j_root j = j_root k)"
proof -
  have "case j_parent j of None \<Rightarrow> j_depth j = 0 \<and> j_root j = j_id j
    | Some p \<Rightarrow> (\<exists>k \<in> set (job d). j_id k = p \<and> j_depth j = Suc (j_depth k) \<and> j_root j = j_root k)"
    using reachable_intake [OF assms(1)] assms(2) unfolding intake_ok_def tree_ok_def by blast
  then show ?thesis by (auto split: option.splits)
qed

text \<open>
  A redelivered platform event is stored and dispatched once: after an event has been
  ingested, whatever runs in between, a second ingest with the same dedupe key returns the
  identifier of the first and adds no row, and no two jobs carry that identifier.
\<close>

theorem redelivery_idempotent:
  assumes "reach (ledger_step race reg cap) empty_db d"
    and "ingest_inbound t1 env b1 d = (d1, e1)"
    and "reach (ledger_step race reg cap) d1 d2"
    and "ingest_inbound t2 env b2 d2 = (d3, e2)"
  shows "e2 = e1 \<and> inbound_event d3 = inbound_event d2
    \<and> count_where (\<lambda>j. j_inbound j = Some e1) (job d3) \<le> 1"
proof -
  have r2: "reach (ledger_step race reg cap) empty_db d1"
    by (rule reach_step [OF assms(1)]) (metis assms(2) fst_conv ledger_step.ingest)
  have trans: "reach (ledger_step race reg cap) empty_db d2"
    using assms(3) r2 by (induction rule: reach.induct) (auto intro: reach_step)
  have ok: "intake_ok reg cap d2" by (rule reachable_intake [OF trans])
  obtain x where x: "get_row ie_dedupe (dedupe_key env) (inbound_event d1) = Some x" "ie_id x = e1"
    using assms(2)
  proof (cases rule: ingest_cases)
    case (new x)
    then have "get_row ie_dedupe (dedupe_key env) (inbound_event d1) = Some x"
      by (simp add: get_row_append) (simp add: get_row_def)
    with new that show thesis by simp
  qed (use that in simp)
  obtain xs where "inbound_event d2 = inbound_event d1 @ xs" using reach_grows [OF assms(3)] by blast
  with x have x2: "get_row ie_dedupe (dedupe_key env) (inbound_event d2) = Some x" by (simp add: get_row_append)
  have e: "e2 = e1 \<and> inbound_event d3 = inbound_event d2"
    using assms(4) by (cases rule: ingest_cases) (use x2 x in simp_all)
  have j3: "job d3 = job d2" using assms(4) ingest_frame(1) by (metis fst_conv)
  have "distinct (job d2)" using ok keys_okD(1) coreD(1) by (auto simp: intake_ok_def distinct_map)
  moreover have "j = k" if "j \<in> set (job d2)" "k \<in> set (job d2)" "j_inbound j = Some e1" "j_inbound k = Some e1" for j k
    using that ok by (simp add: intake_ok_def dispatched_ok_def)
  ultimately have "count_where (\<lambda>j. j_inbound j = Some e1) (job d2) \<le> 1"
    by (rule count_where_le_1)
  with e j3 show ?thesis by simp
qed

end
