(* ===== verification/Ledger_Outbox.thy ===== *)
theory Ledger_Outbox
  imports Ledger_Limits
begin

text \<open>
  The outbox: a finished job that answers a platform event has its reply enqueued in the same
  transaction, delivery attempts are bounded, and a provider message identifier marks at most
  one row as sent.
\<close>

section \<open>What the verbs do to the outbox\<close>

lemma reclaim_outbound [simp]: "outbound (fst (reclaim_expired reg now locked d)) = outbound d"
  by (simp add: reclaim_expired_def Let_def)

lemma heal_fold_outbound [simp]: "outbound (fold heal_rc rs d) = outbound d"
  by (induction rs arbitrary: d) (simp_all add: heal_rc_def)

lemma reconcile_outbound [simp]: "outbound (fst (reconcile_repo_concurrency now locked d)) = outbound d"
  by (simp add: reconcile_repo_concurrency_def Let_def)

lemma cancel_outbound [simp]:
  "outbound (cancel now i d) = outbound d" "outbound (cancel_stmt2 i d) = outbound d"
  by (simp_all add: cancel_def cancel_stmt1_def cancel_stmt2_def cancel_stmt3_def)

lemma lease_iter_outbound:
  "lease_iter cap now worker locked skip d = (d', out) \<Longrightarrow> outbound d' = outbound d"
  by (auto simp: lease_iter_def new_id_def claim_def Let_def split: option.splits if_splits prod.splits)

lemma fail_outbound: "fail_attempt reg now aid res d = Inr d' \<Longrightarrow> outbound d' = outbound d"
  by (auto simp: fail_attempt_def Let_def split: option.splits if_splits prod.splits)

definition reply_row :: "db \<Rightarrow> outbound_row \<Rightarrow> bool" where
  "reply_row d x \<longleftrightarrow> o_id x = next_id d \<and> o_status x = OPending \<and> o_provider x = None \<and> o_tries x = 0"

lemma enqueue_reply_cases:
  obtains "outbound (enqueue_reply now j body d) = outbound d"
  | x where "outbound (enqueue_reply now j body d) = outbound d @ [x]" "reply_row d x" "o_job x = j_id j"
      "\<exists>e. j_inbound j = Some e"
  by (cases "case j_inbound j of None \<Rightarrow> None | Some e \<Rightarrow> get_row ie_id e (inbound_event d)")
    (auto simp: enqueue_reply_def new_id_def reply_row_def split: option.splits)

lemma ledger_step_outbound:
  assumes "ledger_step race reg cap d d'"
  obtains (same) "outbound d' = outbound d"
  | (reply) x where "outbound d' = outbound d @ [x]" "reply_row d x" "next_id d < next_id d'"
  | (claim) tr locked where "d' = fst (claim_outbound tr locked d)"
  | (sent) src now oid pid where "d' = fst (mark_sent_from src now oid pid d)" "src \<in> {OLeased, OPending}"
  | (failed) now oid where "d' = mark_outbound_failed now oid d"
  using assms
proof cases
  case (submit now s i)
  from submit_job_cases [OF submit] show thesis by (metis same)
next
  case (enqueue now i body x)
  then obtain j where d': "d' = enqueue_reply now j body d" by (rule enqueue_outbound_frame)
  show thesis by (rule enqueue_reply_cases [of now j body d]) (use d' same reply in auto)
next
  case (complete now aid res)
  then obtain a j e where d': "d' = enqueue_reply now j (res_text res) e" "outbound e = outbound d" "next_id e = next_id d"
    by (auto simp: complete_attempt_def Let_def split: option.splits)
  show thesis
    by (rule enqueue_reply_cases [of now j "res_text res" e]) (use d' same reply in \<open>auto simp: reply_row_def\<close>)
next
  case (sent now oid pid)
  then show thesis using that(4) by (auto simp: mark_outbound_sent_def)
next
  case (sent_inline now oid pid)
  then show thesis using that(4) by (auto simp: mark_outbound_sent_inline_def)
qed (auto intro!: same intro: claim failed lease_iter_outbound fail_outbound simp: heartbeat_attempt_def
    append_log_def split: option.splits if_splits)

section \<open>Delivery\<close>

definition outbox_ok :: "db \<Rightarrow> bool" where
  "outbox_ok d \<longleftrightarrow> distinct (map o_id (outbound d)) \<and> (\<forall>x \<in> set (outbound d). o_id x < next_id d)
     \<and> (\<forall>x \<in> set (outbound d). o_tries x \<le> OUTBOUND_MAX_TRIES
          \<and> (o_status x = OPending \<longrightarrow> o_tries x < OUTBOUND_MAX_TRIES))
     \<and> (\<forall>x \<in> set (outbound d). o_status x = OSent \<longleftrightarrow> o_provider x \<noteq> None)
     \<and> (\<forall>x \<in> set (outbound d). \<forall>y \<in> set (outbound d). o_provider x \<noteq> None \<and> o_provider x = o_provider y \<longrightarrow> x = y)"

text \<open>A rewrite of single rows that keeps the identifiers and never touches a sent row.\<close>

lemma outbox_ok_rewrite:
  assumes "outbox_ok d" "outbound d' = upd_where H f (outbound d)" "next_id d \<le> next_id d'"
    and f: "\<And>x. \<lbrakk>x \<in> set (outbound d); H x\<rbrakk> \<Longrightarrow> o_id (f x) = o_id x \<and> o_tries (f x) \<le> OUTBOUND_MAX_TRIES
        \<and> (o_status (f x) = OPending \<longrightarrow> o_tries (f x) < OUTBOUND_MAX_TRIES)
        \<and> o_status x \<noteq> OSent \<and> (o_status (f x) = OSent \<longleftrightarrow> o_provider (f x) \<noteq> None)"
    and u: "\<And>x y. \<lbrakk>x \<in> set (outbound d); H x; y \<in> set (outbound d); o_provider (f x) \<noteq> None;
        o_provider (f x) = (if H y then o_provider (f y) else o_provider y)\<rbrakk> \<Longrightarrow> x = y"
  shows "outbox_ok d'"
proof -
  let ?g = "\<lambda>x. if H x then f x else x"
  have ids: "map o_id (outbound d') = map o_id (outbound d)"
    unfolding assms(2) by (rule map_upd_where) (use f in blast)
  have in_d': "x \<in> set (outbound d') \<longleftrightarrow> (\<exists>y \<in> set (outbound d). x = ?g y)" for x
    unfolding assms(2) in_upd_where ..
  note O = assms(1) [unfolded outbox_ok_def]
  have less: "\<forall>i \<in> set (map o_id (outbound d)). i < next_id d'" using O assms(3) by auto
  show ?thesis
    unfolding outbox_ok_def
  proof (intro conjI)
    show "distinct (map o_id (outbound d'))" unfolding ids using O by blast
    show "\<forall>x \<in> set (outbound d'). o_id x < next_id d'" using less unfolding ids [symmetric] by simp
    have row: "(o_tries (?g y) \<le> OUTBOUND_MAX_TRIES \<and> (o_status (?g y) = OPending \<longrightarrow> o_tries (?g y) < OUTBOUND_MAX_TRIES))
        \<and> (o_status (?g y) = OSent \<longleftrightarrow> o_provider (?g y) \<noteq> None)" if y: "y \<in> set (outbound d)" for y
      using f [OF y] O y by (cases "H y") simp_all
    then show "\<forall>x \<in> set (outbound d'). o_tries x \<le> OUTBOUND_MAX_TRIES
          \<and> (o_status x = OPending \<longrightarrow> o_tries x < OUTBOUND_MAX_TRIES)"
      unfolding in_d' Ball_def by blast
    from row show "\<forall>x \<in> set (outbound d'). o_status x = OSent \<longleftrightarrow> o_provider x \<noteq> None"
      unfolding in_d' Ball_def by blast
    have "x = y" if "x \<in> set (outbound d)" "y \<in> set (outbound d)" "o_provider (?g x) \<noteq> None"
      "o_provider (?g x) = o_provider (?g y)" for x y
    proof (cases "H x \<or> H y")
      case True
      with that u [of x y] u [of y x] show ?thesis by (auto split: if_splits)
    next
      case False
      with that O show ?thesis by simp
    qed
    then show "\<forall>x \<in> set (outbound d'). \<forall>y \<in> set (outbound d').
        o_provider x \<noteq> None \<and> o_provider x = o_provider y \<longrightarrow> x = y"
      unfolding in_d' Ball_def by blast
  qed
qed

lemma outbox_unsent:
  assumes "outbox_ok d" "x \<in> set (outbound d)" "o_status x \<noteq> OSent"
  shows "o_provider x = None"
  using assms unfolding outbox_ok_def by blast

lemma outbox_same: "outbox_ok d \<Longrightarrow> x \<in> set (outbound d) \<Longrightarrow> y \<in> set (outbound d) \<Longrightarrow> o_id x = o_id y \<Longrightarrow> x = y"
  by (rule distinct_key_eq [of o_id "outbound d"]) (auto simp: outbox_ok_def)

lemma outbox_tries:
  assumes "outbox_ok d" "x \<in> set (outbound d)"
  shows "o_tries x \<le> OUTBOUND_MAX_TRIES" "o_status x = OPending \<Longrightarrow> o_tries x < OUTBOUND_MAX_TRIES"
  using assms by (simp_all add: outbox_ok_def)

lemma outbox_ok_touch:
  assumes "outbox_ok d" "outbound d' = upd_where H f (outbound d)" "next_id d \<le> next_id d'"
    and H: "\<And>y. \<lbrakk>y \<in> set (outbound d); H y\<rbrakk> \<Longrightarrow> y = x" and x: "x \<in> set (outbound d)" "o_status x \<noteq> OSent"
    and f: "o_id (f x) = o_id x" "o_tries (f x) \<le> OUTBOUND_MAX_TRIES" "o_status (f x) \<noteq> OSent"
      "o_provider (f x) = o_provider x" "o_status (f x) = OPending \<Longrightarrow> o_tries (f x) < OUTBOUND_MAX_TRIES"
  shows "outbox_ok d'"
proof (rule outbox_ok_rewrite [OF assms(1-3)])
  have p: "o_provider (f x) = None" using outbox_unsent [OF assms(1) x] f(4) by simp
  fix y assume y: "y \<in> set (outbound d)" "H y"
  then have "y = x" by (rule H)
  then show "o_id (f y) = o_id y \<and> o_tries (f y) \<le> OUTBOUND_MAX_TRIES
        \<and> (o_status (f y) = OPending \<longrightarrow> o_tries (f y) < OUTBOUND_MAX_TRIES)
        \<and> o_status y \<noteq> OSent \<and> (o_status (f y) = OSent \<longleftrightarrow> o_provider (f y) \<noteq> None)"
    unfolding \<open>y = x\<close> using f x p by simp
  fix z assume "o_provider (f y) \<noteq> None"
  with \<open>y = x\<close> p show "y = z" by simp
qed

lemma claim_outbound_ok:
  assumes "outbox_ok d"
  shows "outbox_ok (fst (claim_outbound tr locked d))"
proof (cases "first_by o_id (filter (\<lambda>x. o_transport x = tr \<and> o_status x = OPending \<and> o_id x \<notin> set locked) (outbound d))")
  case None
  with assms show ?thesis by (simp add: claim_outbound_def)
next
  case (Some x)
  then have x: "x \<in> set (outbound d)" "o_status x = OPending" using first_by_Some(1) by fastforce+
  have eq: "y = x" if "y \<in> set (outbound d)" "o_id y = o_id x" for y using outbox_same [OF assms that(1) x(1)] that by simp
  have "outbound (fst (claim_outbound tr locked d)) = upd_where (\<lambda>y. o_id y = o_id x)
        (\<lambda>y. y\<lparr>o_status := OLeased, o_tries := Suc (o_tries y)\<rparr>) (outbound d)"
    using Some by (simp add: claim_outbound_def)
  then show ?thesis
    by (rule outbox_ok_touch [OF assms, where x = x]) (use eq x outbox_tries(2) [OF assms x] in simp_all)
qed

lemma mark_sent_ok:
  assumes "outbox_ok d" "src \<in> {OLeased, OPending}"
  shows "outbox_ok (fst (mark_sent_from src now oid pid d))"
proof -
  define hit :: "outbound_row \<Rightarrow> bool" where "hit = (\<lambda>x. o_id x = oid \<and> o_status x = src)"
  define dup where "dup \<longleftrightarrow> list_ex hit (outbound d) \<and> (\<exists>x \<in> set (outbound d). o_provider x = Some pid \<and> o_id x \<noteq> oid)"
  have ob: "outbound (fst (mark_sent_from src now oid pid d)) = upd_where hit
      (\<lambda>x. if dup then x\<lparr>o_status := OFailed\<rparr> else x\<lparr>o_status := OSent, o_provider := Some pid\<rparr>) (outbound d)"
    by (cases dup) (simp_all only: mark_sent_from_def Let_def flip: hit_def dup_def, simp_all)
  have h: "o_status x \<noteq> OSent" "o_provider x = None" if "x \<in> set (outbound d)" "hit x" for x
    using that assms(2) outbox_unsent [OF assms(1) that(1)] by (auto simp: hit_def)
  have lone: "x = y" if "x \<in> set (outbound d)" "y \<in> set (outbound d)" "hit x" "\<not> dup"
    "o_provider y = Some pid \<or> hit y" for x y
  proof (rule outbox_same [OF assms(1) that(1,2)])
    show "o_id x = o_id y" using that by (auto simp: dup_def hit_def list_ex_iff)
  qed
  show ?thesis
  proof (rule outbox_ok_rewrite [OF assms(1) ob])
    fix x y assume "x \<in> set (outbound d)" "hit x" "y \<in> set (outbound d)"
      "o_provider (if dup then x\<lparr>o_status := OFailed\<rparr> else x\<lparr>o_status := OSent, o_provider := Some pid\<rparr>) \<noteq> None"
      "o_provider (if dup then x\<lparr>o_status := OFailed\<rparr> else x\<lparr>o_status := OSent, o_provider := Some pid\<rparr>)
       = (if hit y then o_provider (if dup then y\<lparr>o_status := OFailed\<rparr> else y\<lparr>o_status := OSent, o_provider := Some pid\<rparr>)
          else o_provider y)"
    then show "x = y" using h [of x] lone [of x y] by (cases dup) (auto split: if_splits)
  qed (use h outbox_tries [OF assms(1)] in auto)
qed

lemma mark_failed_ok:
  assumes "outbox_ok d"
  shows "outbox_ok (mark_outbound_failed now oid d)"
proof (cases "List.find (\<lambda>x. o_id x = oid \<and> o_status x = OLeased) (outbound d)")
  case None
  with assms show ?thesis by (simp add: mark_outbound_failed_def)
next
  case (Some x)
  then have x: "x \<in> set (outbound d)" "o_id x = oid" "o_status x = OLeased" by (auto simp: find_Some_iff)
  define st where "st = (if o_tries x \<ge> OUTBOUND_MAX_TRIES then OFailed else OPending)"
  have eq: "y = x" if "y \<in> set (outbound d)" "o_id y = oid" for y
    using outbox_same [OF assms that(1) x(1)] x that by simp
  have "outbound (mark_outbound_failed now oid d) = upd_where (\<lambda>y. o_id y = oid \<and> o_status y = OLeased)
        (\<lambda>y. y\<lparr>o_status := st\<rparr>) (outbound d)"
    using Some by (simp add: mark_outbound_failed_def st_def Let_def)
  then show ?thesis
  proof (rule outbox_ok_touch [OF assms, where x = x])
    show "y = x" if "y \<in> set (outbound d)" "o_id y = oid \<and> o_status y = OLeased" for y
      using that eq by blast
  qed (use x outbox_tries(1) [OF assms x(1)] in \<open>simp_all add: st_def split: if_splits\<close>)
qed

lemma reply_ok:
  assumes "outbox_ok d" "outbound d' = outbound d @ [x]" "reply_row d x" "next_id d < next_id d'"
  shows "outbox_ok d'"
  using assms by (auto simp: outbox_ok_def reply_row_def OUTBOUND_MAX_TRIES_def)

lemma ledger_step_outbox:
  assumes "core reg cap d" "outbox_ok d" "ledger_step race reg cap d d'"
  shows "outbox_ok d'"
  using assms(3)
proof (cases rule: ledger_step_outbound)
  case same
  with assms(2) ledger_step_next_id [OF assms(3) coreD(1) [OF assms(1)]] show ?thesis
    by (auto simp: outbox_ok_def)
next
  case (reply x)
  with assms(2) show ?thesis by (blast intro: reply_ok)
qed (use assms(2) claim_outbound_ok mark_sent_ok mark_failed_ok in blast)+

section \<open>Replies\<close>

definition replied_ok :: "db \<Rightarrow> bool" where
  "replied_ok d \<longleftrightarrow> (\<forall>j \<in> set (job d). j_status j = JDone \<and> j_inbound j \<noteq> None
     \<longrightarrow> j_id j \<in> o_job ` set (outbound d))"

text \<open>Only a completion makes a job done.\<close>

definition no_new_done :: "db \<Rightarrow> db \<Rightarrow> bool" where
  "no_new_done d d' \<longleftrightarrow> (\<forall>j' \<in> set (job d'). j_status j' = JDone
     \<longrightarrow> (\<exists>j \<in> set (job d). j_status j = JDone \<and> j_id j = j_id j' \<and> j_inbound j = j_inbound j'))"

lemma no_new_done_same: "job d' = job d \<Longrightarrow> no_new_done d d'"
  by (auto simp: no_new_done_def)

lemma no_new_done_map:
  assumes "keeps_place f d" "job d' = map f (job d)"
    and "\<And>j. j \<in> set (job d) \<Longrightarrow> j_status (f j) = JDone \<Longrightarrow> j_status j = JDone"
  shows "no_new_done d d'"
  using assms keeps_placeD(1,5) [OF assms(1)] by (fastforce simp: no_new_done_def)

lemma reclaim_no_new_done:
  assumes "keys_ok d"
  shows "no_new_done d (fst (reclaim_expired reg now locked d))"
proof (rule reclaim_stages [OF assms prod.collapse [symmetric]])
  fix d1 d2 rows orphans
  assume d1: "d1 = close_attempts (\<lambda>i. i \<in> a_id ` set orphans) now Terminal d"
    and s: "settled reg (reclaim_job_row reg d2 rows) (\<lambda>a. if a_id a \<in> a_id ` set rows
       then a\<lparr>a_status := AFailed, a_ended := Some now, a_error := Some Retryable\<rparr> else a) d1
       (fst (reclaim_expired reg now locked d))"
  have "no_new_done d1 (fst (reclaim_expired reg now locked d))"
    by (rule no_new_done_map [OF settled_keeps_place [OF s]]) (auto simp: reclaim_job_row_def split: if_splits)
  then show ?thesis by (simp add: no_new_done_def d1)
qed

lemma fail_no_new_done:
  assumes "keys_ok d" "fail_attempt reg now aid res d = Inr d'"
  shows "no_new_done d d'"
proof (rule fail_attempt_shape [OF assms(2)])
  fix a j st why
  assume F: "get_attempt aid d = Some a" "a_status a = AOpen" "get_job (a_job a) d = Some j"
    "fail_route reg res (j_to_agent j) (n_attempts (a_job a) d) = (st, why)"
    "job d' = map (\<lambda>k. if j_id k = a_job a \<and> live_status (j_status k) then k\<lparr>j_status := st\<rparr> else k) (job d)"
    "attempt d' = map (\<lambda>x. if a_id x = aid then fail_row now res x else x) (attempt d)"
    "next_id d \<le> next_id d'"
  have "st \<noteq> JDone" using F(4) by (auto simp: fail_route_def split: if_splits)
  then show ?thesis
    by (intro no_new_done_map [OF settled_keeps_place [OF fail_settled [OF assms(1) F]]]) (auto split: if_splits)
qed

lemma lease_no_new_done:
  assumes "lease_iter cap now worker locked skip d = (d', out)"
  shows "no_new_done d d'"
  using assms
proof (cases rule: lease_iter_cases)
  case (leased j)
  show ?thesis
    by (rule no_new_done_map [OF claimed_keeps_place [OF leased(2)]]) (auto simp: leased_row_def split: if_splits)
qed (auto intro: no_new_done_same)

lemma submit_no_new_done:
  assumes "submit_job now s d = Inr (d', i)"
  shows "no_new_done d d'"
  using assms
proof (cases rule: submit_job_cases)
  case (new j)
  then have "j_status j \<noteq> JDone" by (auto simp: tree_placed_def split: option.splits if_splits)
  with new(1) show ?thesis by (auto simp: no_new_done_def inserted_def)
qed (auto intro: no_new_done_same)

lemma cancel_late_no_new_done: "no_new_done d (cancel_stmt2 i d)"
  by (auto simp: no_new_done_def cancel_stmt2_def set_job_status_job split: if_splits)

lemma cancel_no_new_done: "no_new_done d (cancel now i d)"
proof -
  have "job (cancel now i d) = job (cancel_stmt2 i d)"
    by (simp add: cancel_def cancel_stmt1_def cancel_stmt3_def cancel_stmt2_def set_job_status_def)
  with cancel_late_no_new_done [of d i] show ?thesis by (simp add: no_new_done_def)
qed

lemma outbound_jobs_kept:
  assumes "ledger_step race reg cap d d'"
  shows "o_job ` set (outbound d) \<subseteq> o_job ` set (outbound d')"
proof -
  have m: "o_job ` set (outbound d) = o_job ` set (outbound d')" if "map o_job (outbound d') = map o_job (outbound d)"
    using that by (metis set_map)
  show ?thesis
    using assms
  proof (cases rule: ledger_step_outbound)
    case (claim tr locked)
    then show ?thesis
      by (intro equalityD1 m) (auto simp: claim_outbound_def map_upd_where split: option.splits)
  next
    case (sent src now oid pid)
    then show ?thesis by (intro equalityD1 m) (auto simp: mark_sent_from_def Let_def map_upd_where)
  next
    case (failed now oid)
    then show ?thesis
      by (intro equalityD1 m) (auto simp: mark_outbound_failed_def Let_def map_upd_where split: option.splits)
  qed auto
qed

lemma complete_replied:
  assumes "keys_ok d" "dispatched_ok d" "replied_ok d" "complete_attempt now aid res d = Inr d'"
  shows "replied_ok d'"
proof -
  from assms(4) obtain a j where aj: "open_live aid d = Some (a, j)"
    by (auto simp: complete_attempt_def split: option.splits)
  note L = aj [unfolded open_live_iff [OF assms(1)]]
  define e where "e = dec_rc (j_repo j) 1 (d\<lparr>attempt := upd_where (\<lambda>x. a_id x = aid)
      (\<lambda>x. x\<lparr>a_status := AOk, a_ended := Some now, a_result := Some res\<rparr>) (attempt d)\<rparr>)"
  have ob: "outbound d' = outbound (enqueue_reply now j (res_text res)
      (e\<lparr>job := upd_where (\<lambda>k. j_id k = a_job a \<and> live_status (j_status k))
         (\<lambda>k. k\<lparr>j_status := JDone, j_artifact := artifact_ref res\<rparr>) (job e)\<rparr>))"
    using assms(4) aj by (auto simp: complete_attempt_def Let_def e_def)
  have frame: "outbound e = outbound d" "inbound_event e = inbound_event d" by (simp_all add: e_def)
  have kept: "o_job ` set (outbound d) \<subseteq> o_job ` set (outbound d')"
    unfolding ob by (simp add: enqueue_reply_def new_id_def frame split: option.splits) blast
  have mine: "j_id j \<in> o_job ` set (outbound d')" if e: "j_inbound j = Some ev" for ev
  proof -
    have "ev \<in> ie_id ` set (inbound_event d)" using assms(2) L e unfolding dispatched_ok_def by blast
    then obtain x where "get_row ie_id ev (inbound_event d) = Some x"
      by (cases "get_row ie_id ev (inbound_event d)") (auto simp: get_row_None)
    then show ?thesis unfolding ob using e by (simp add: enqueue_reply_def new_id_def frame)
  qed
  have job: "job d' = map (\<lambda>k. if j_id k = a_job a \<and> live_status (j_status k)
      then k\<lparr>j_status := JDone, j_artifact := artifact_ref res\<rparr> else k) (job d)"
    by (rule settledD(1) [OF complete_settled [OF assms(1) aj assms(4)]])
  show ?thesis
    unfolding replied_ok_def job set_map
  proof (intro ballI impI, elim imageE)
    fix y k assume k: "k \<in> set (job d)" "j_status y = JDone \<and> j_inbound y \<noteq> None"
      "y = (if j_id k = a_job a \<and> live_status (j_status k)
        then k\<lparr>j_status := JDone, j_artifact := artifact_ref res\<rparr> else k)"
    show "j_id y \<in> o_job ` set (outbound d')"
    proof (cases "j_id k = a_job a")
      case True
      with open_live_unique(2) [OF assms(1) aj k(1)] have "k = j" by simp
      with k L mine show ?thesis by (auto split: if_splits)
    next
      case False
      with k assms(3) kept show ?thesis by (auto simp: replied_ok_def)
    qed
  qed
qed

lemma ledger_step_done:
  assumes "ledger_step race reg cap d d'" "keys_ok d"
  shows "no_new_done d d' \<or> (\<exists>now aid res. complete_attempt now aid res d = Inr d')"
  using assms(1)
proof cases
  case (enqueue now i body x)
  then obtain j where "d' = enqueue_reply now j body d" by (rule enqueue_outbound_frame)
  then show ?thesis by (simp add: no_new_done_same)
next
  case (reconcile now locked)
  then have "job d' = job d" by (simp add: reconcile_repo_concurrency_def Let_def)
  then show ?thesis by (simp add: no_new_done_same)
next
  case (heartbeat now aid)
  then have "job d' = job d" by (auto simp: heartbeat_attempt_def split: option.splits)
  then show ?thesis by (simp add: no_new_done_same)
next
  case (log now aid st chunk)
  then have "job d' = job d" by (auto simp: append_log_def split: if_splits)
  then show ?thesis by (simp add: no_new_done_same)
qed (use submit_no_new_done lease_no_new_done fail_no_new_done [OF assms(2)] reclaim_no_new_done [OF assms(2)]
      cancel_no_new_done cancel_late_no_new_done in
    \<open>auto simp: mark_outbound_sent_def mark_outbound_sent_inline_def no_new_done_same\<close>)

lemma ledger_step_replied:
  assumes "core reg cap d" "dispatched_ok d" "replied_ok d" "ledger_step race reg cap d d'"
  shows "replied_ok d'"
proof -
  note K = coreD(1) [OF assms(1)]
  have "replied_ok d'" if "no_new_done d d'"
    using that outbound_jobs_kept [OF assms(4)] assms(3) unfolding no_new_done_def replied_ok_def
    by (metis subsetD)
  with ledger_step_done [OF assms(4) K] complete_replied [OF K assms(2,3)] show ?thesis by blast
qed

definition outbox_inv :: "registry \<Rightarrow> int \<Rightarrow> db \<Rightarrow> bool" where
  "outbox_inv reg cap d \<longleftrightarrow> intake_ok reg cap d \<and> outbox_ok d \<and> replied_ok d"

interpretation outbox: invariant_system "ledger_step race reg cap" "outbox_inv reg cap"
  for race :: bool and reg :: registry and cap :: int
proof unfold_locales
  fix d d' assume a: "outbox_inv reg cap d" "ledger_step race reg cap d d'"
  have i: "intake_ok reg cap d'" by (rule intake.step_inv [OF _ a(2)]) (use a(1) in \<open>simp add: outbox_inv_def\<close>)
  with a show "outbox_inv reg cap d'"
    unfolding outbox_inv_def intake_ok_def by (blast intro: ledger_step_outbox ledger_step_replied)
qed

lemma outbox_empty: "outbox_inv reg cap empty_db"
  unfolding outbox_inv_def by (intro conjI intake_empty) (simp_all add: outbox_ok_def replied_ok_def empty_db_def)

lemma reachable_outbox: "reach (ledger_step race reg cap) empty_db d \<Longrightarrow> outbox_inv reg cap d"
  by (rule outbox.reach_inv [OF _ outbox_empty])

section \<open>The theorems\<close>

text \<open>
  C10. A finished job answers: in every reachable database a done job that was dispatched from a
  platform event has a reply in the outbox.
\<close>

theorem done_job_replied:
  assumes "reach (ledger_step race reg cap) empty_db d"
    and "j \<in> set (job d)" "j_status j = JDone" "j_inbound j = Some e"
  shows "\<exists>x. x \<in> set (outbound d) \<and> o_job x = j_id j"
proof -
  have "j_id j \<in> o_job ` set (outbound d)"
    using reachable_outbox [OF assms(1)] assms(2-4) by (simp add: outbox_inv_def replied_ok_def)
  then show ?thesis by force
qed

text \<open>
  C11. Delivery is bounded and recorded once: a reply is claimed at most \<open>OUTBOUND_MAX_TRIES\<close> times,
  a row is sent exactly when it carries a provider message identifier, and two rows never carry
  the same one.
\<close>

theorem delivery_bounded_once:
  assumes "reach (ledger_step race reg cap) empty_db d" "x \<in> set (outbound d)"
  shows "o_tries x \<le> OUTBOUND_MAX_TRIES \<and> (o_status x = OSent \<longleftrightarrow> o_provider x \<noteq> None)
    \<and> count_where (\<lambda>y. o_provider x \<noteq> None \<and> o_provider y = o_provider x) (outbound d) \<le> 1"
proof -
  have ok: "outbox_ok d" using reachable_outbox [OF assms(1)] by (simp add: outbox_inv_def)
  then have "distinct (outbound d)" by (auto simp: outbox_ok_def distinct_map)
  moreover have "y = z" if "y \<in> set (outbound d)" "z \<in> set (outbound d)"
    "o_provider x \<noteq> None \<and> o_provider y = o_provider x" "o_provider x \<noteq> None \<and> o_provider z = o_provider x" for y z
    using that ok unfolding outbox_ok_def by metis
  ultimately show ?thesis
    using ok assms(2) count_where_le_1 [of "outbound d" "\<lambda>y. o_provider x \<noteq> None \<and> o_provider y = o_provider x"]
    unfolding outbox_ok_def by blast
qed

end
