(* ===== verification/Ledger_Examples.thy ===== *)
theory Ledger_Examples
  imports Ledger_Progress Ledger_Outbox
begin

text \<open>
  A concrete run of the ledger (ingest, submit, lease, completion), evaluated in the kernel,
  and the witnesses of the ledger theorems on it.
\<close>

section \<open>A run\<close>

definition ex_env :: envelope where
  "ex_env = \<lparr>transport = ''terminal'', account = ''a'', sender_id = ''u'', channel_id = None,
     thread_id = None, reply_target = ''term:1'', provider_msg_id = None, dedupe_key = ''k1'',
     caps = \<lparr>max_len = 2000, chunking = True\<rparr>\<rparr>"

definition ex_args :: submit_args where
  "ex_args = \<lparr>s_to_agent = ''kilabz'', s_prompt = [104, 105], s_context = [], s_parent = None,
     s_inbound = Some 0, s_created_by = ''human'', s_repo = Some ''r'', s_base_ref = None, s_priority = 0\<rparr>"

definition ex_res :: result where
  "ex_res = \<lparr>status = ROk, res_text = [111, 107], exit_code = Some 0, err_class = None,
     artifact_ref = None, cost = None, ms = None\<rparr>"

definition ex_db1 :: db where
  "ex_db1 = empty_db\<lparr>inbound_event := [\<lparr>ie_id = 0, ie_transport = ''terminal'', ie_envelope = ex_env,
     ie_body = [104, 105], ie_received_at = 10, ie_dedupe = ''k1''\<rparr>], next_id := 1\<rparr>"

definition ex_job :: job_row where
  "ex_job = \<lparr>j_id = 1, j_parent = None, j_root = 1, j_depth = 0, j_created_by = ''human'',
     j_inbound = Some 0, j_to_agent = ''kilabz'', j_body = [104, 105], j_context = [], j_priority = 0,
     j_status = JQueued, j_repo = Some ''r'', j_base_ref = None, j_base_sha = None,
     j_worktree = None, j_artifact = None, j_created_at = 11\<rparr>"

definition ex_db2 :: db where
  "ex_db2 = ex_db1\<lparr>job := [ex_job], next_id := 2\<rparr>"

definition ex_attempt :: attempt_row where
  "ex_attempt = \<lparr>a_id = 2, a_job = 1, a_worker = ''w0'', a_expires = 132, a_started = 12,
     a_ended = None, a_status = AOpen, a_result = None, a_error = None\<rparr>"

definition ex_db3 :: db where
  "ex_db3 = ex_db2\<lparr>job := [ex_job\<lparr>j_status := JLeased\<rparr>], attempt := [ex_attempt],
     repo_concurrency := [\<lparr>rc_repo = ''r'', rc_active = 1\<rparr>], next_id := 3\<rparr>"

definition ex_db4 :: db where
  "ex_db4 = ex_db3\<lparr>job := [ex_job\<lparr>j_status := JDone\<rparr>],
     attempt := [ex_attempt\<lparr>a_status := AOk, a_ended := Some 13, a_result := Some ex_res\<rparr>],
     repo_concurrency := [\<lparr>rc_repo = ''r'', rc_active = 0\<rparr>],
     outbound := [\<lparr>o_id = 3, o_job = 1, o_transport = ''terminal'', o_target = ''term:1'',
       o_body = [111, 107], o_status = OPending, o_provider = None, o_tries = 0, o_created_at = 13\<rparr>],
     next_id := 4\<rparr>"

lemmas ex_defs = ex_env_def ex_args_def ex_res_def ex_db1_def ex_job_def ex_db2_def ex_attempt_def
  ex_db3_def ex_db4_def empty_db_def

lemmas verb_evals = ingest_inbound_def submit_job_def submit_queued_def insert_job_def mk_job_def
  new_id_def get_job_def get_attempt_def get_row_def utf8_safe_def unstorable_def lease_iter_def
  pick_job_def first_by_def leasable_def has_open_def rc_active_of_def seed_rc_def set_rc_def
  open_count_def counts_for_def claim_def complete_attempt_def open_live_def dec_rc_def
  enqueue_reply_def live_status_def policy_defs

lemma ex_ingest: "ingest_inbound 10 ex_env [104, 105] empty_db = (ex_db1, 0)"
  by (simp add: ex_defs verb_evals)

lemma ex_submit: "submit_job 11 ex_args ex_db1 = Inr (ex_db2, 1)"
  by (simp add: ex_defs verb_evals)

lemma ex_lease: "lease_iter 4 12 ''w0'' [] [] ex_db2 = (ex_db3, Leased_Attempt 2)"
  by (simp add: ex_defs verb_evals)

lemma ex_complete: "complete_attempt 13 2 ex_res ex_db3 = Inr ex_db4"
  by (simp add: ex_defs verb_evals)

lemma ex_reach2: "reach (ledger_step race reg cap) empty_db ex_db2"
proof -
  have "ledger_step race reg cap empty_db ex_db1"
    using ledger_step.ingest [of race reg cap empty_db 10 ex_env "[104, 105]"] by (simp add: ex_ingest)
  from reach_step [where stp = "ledger_step race reg cap", OF reach_refl this]
  show ?thesis by (rule reach_step) (rule ledger_step.submit [OF ex_submit])
qed

lemma ex_reach3: "reach (ledger_step race reg 4) empty_db ex_db3"
  by (rule reach_step [OF ex_reach2 ledger_step.lease [OF ex_lease]])

lemma ex_reach4: "reach (ledger_step race reg 4) empty_db ex_db4"
  by (rule reach_step [OF ex_reach3 ledger_step.complete [OF ex_complete]])

section \<open>Witnesses\<close>

theorem no_double_lease_witness:
  "a_status (last (attempt ex_db3)) = AOpen \<and> ex_attempt = last (attempt ex_db3)"
proof -
  have a: "ex_attempt \<in> set (attempt ex_db3)" "a_status ex_attempt = AOpen" "a_job ex_attempt = 1"
    "last (attempt ex_db3) \<in> set (attempt ex_db3)" "a_status (last (attempt ex_db3)) = AOpen"
    "a_job (last (attempt ex_db3)) = 1"
    by (simp_all add: ex_defs)
  with no_double_lease [OF ex_reach3 [of True v1_roster] a(1,4,2,5)] show ?thesis by simp
qed

theorem repo_cap_never_breached_witness:
  "int (open_count ''r'' ex_db3) \<le> 4 \<and> open_count ''r'' ex_db3 = 1"
proof -
  have "int (open_count ''r'' ex_db3) \<le> max 4 0"
    by (rule repo_cap_never_breached [OF ex_reach3 [of True v1_roster]])
  then show ?thesis by (simp add: ex_defs verb_evals)
qed

theorem attempts_bounded_witness:
  "n_attempts 1 ex_db3 = 1 \<and> n_attempts 1 ex_db3 \<le> 3"
proof -
  have "ex_job\<lparr>j_status := JLeased\<rparr> \<in> set (job ex_db3)" by (simp add: ex_db3_def)
  from attempts_bounded [OF ex_reach3 [of True v1_roster] this] show ?thesis
    by (simp add: v1_roster_requeue_safe MAX_ATTEMPTS_def ex_defs n_attempts_def)
qed

theorem live_job_reclaimable_witness:
  "\<exists>a \<in> set (attempt ex_db3). a_job a = 1 \<and> a_status a = AOpen"
proof -
  have "ex_job\<lparr>j_status := JLeased\<rparr> \<in> set (job ex_db3)" by (simp add: ex_db3_def)
  from live_job_reclaimable [OF ex_reach3 [of True v1_roster] this] show ?thesis
    by (simp add: ex_job_def)
qed

theorem terminal_jobs_absorbing_witness:
  "\<exists>j' \<in> set (job (cancel 14 1 ex_db4)). j' = ex_job\<lparr>j_status := JDone\<rparr>"
proof -
  have j: "ex_job\<lparr>j_status := JDone\<rparr> \<in> set (job ex_db4)" by (simp add: ex_db4_def)
  have "reach (ledger_step True v1_roster 4) ex_db4 (cancel 14 1 ex_db4)"
    by (rule reach_step, rule reach_refl, rule ledger_step.cancel_job)
  from terminal_jobs_absorbing [OF ex_reach4 this j] show ?thesis by auto
qed

theorem reclaim_recovers_witness:
  "get_job 1 (fst (reclaim_expired v1_roster 200 [] ex_db3)) = Some (ex_job\<lparr>j_status := JQueued\<rparr>)
   \<and> get_attempt 2 (fst (reclaim_expired v1_roster 200 [] ex_db3))
      = Some (ex_attempt\<lparr>a_status := AFailed, a_ended := Some 200, a_error := Some Retryable\<rparr>)"
proof -
  have a: "ex_attempt \<in> set (attempt ex_db3)" "expired 200 ex_db3 ex_attempt"
    "get_job (a_job ex_attempt) ex_db3 = Some (ex_job\<lparr>j_status := JLeased\<rparr>)"
    "count_where (expired 200 ex_db3) (attempt ex_db3) \<le> RECLAIM_BATCH" "n_attempts 1 ex_db3 < MAX_ATTEMPTS"
    by (simp_all add: ex_defs verb_evals expired_def n_attempts_def)
  have "requeue_safe v1_roster ''kilabz''" by (simp add: v1_roster_requeue_safe)
  with reclaim_recovers [OF ex_reach3 [of True v1_roster] a(1-4)] a(5) show ?thesis
    by (simp add: ex_attempt_def ex_job_def)
qed

theorem counter_exact_serial_witness: "rc_active_of ''r'' ex_db3 = int (open_count ''r'' ex_db3) \<and> open_count ''r'' ex_db3 = 1"
  using counter_exact_serial [OF ex_reach3 [of False v1_roster], of "''r''"] by (simp add: ex_defs verb_evals)

text \<open>A cached counter that has drifted: the cancel of the job of \<open>ex_db3\<close> whose first statement
  ran before the lease.\<close>

definition ex_db_drift :: db where "ex_db_drift = cancel_stmt2 1 ex_db3"

lemma ex_reach_drift: "reach (ledger_step True v1_roster 4) empty_db ex_db_drift"
  unfolding ex_db_drift_def by (rule reach_step [OF ex_reach3]) (simp add: ledger_step.cancel_late)

theorem reconcile_heals_witness:
  "rc_active_of ''r'' ex_db_drift = 1 \<and> open_count ''r'' ex_db_drift = 0
   \<and> rc_active_of ''r'' (fst (reconcile_repo_concurrency 20 [] ex_db_drift))
      = int (open_count ''r'' (fst (reconcile_repo_concurrency 20 [] ex_db_drift)))"
proof -
  have "rc_active_of ''r'' ex_db_drift = 1 \<and> open_count ''r'' ex_db_drift = 0"
    by (simp add: ex_db_drift_def cancel_stmt2_def set_job_status_def ex_defs verb_evals)
  with reconcile_heals [OF ex_reach_drift, of "''r''" 20] show ?thesis by simp
qed

theorem delegation_bounded_witness: "j_depth ex_job \<le> 8 \<and> count_children 1 ex_db2 \<le> 32"
proof -
  have "ex_job \<in> set (job ex_db2)" by (simp add: ex_db2_def)
  from delegation_bounded [OF ex_reach2 [of True v1_roster 4] this] show ?thesis
    by (simp add: ex_job_def policy_defs)
qed

theorem delegation_tree_witness: "j_depth ex_job = 0 \<and> j_root ex_job = j_id ex_job"
proof -
  have "ex_job \<in> set (job ex_db2)" by (simp add: ex_db2_def)
  from delegation_tree [OF ex_reach2 [of True v1_roster 4] this] show ?thesis
    by (simp add: ex_job_def)
qed

theorem redelivery_idempotent_witness:
  "snd (ingest_inbound 30 ex_env [1] ex_db2) = 0
   \<and> inbound_event (fst (ingest_inbound 30 ex_env [1] ex_db2)) = inbound_event ex_db2
   \<and> count_where (\<lambda>j. j_inbound j = Some 0) (job (fst (ingest_inbound 30 ex_env [1] ex_db2))) \<le> 1"
proof -
  have r: "reach (ledger_step True v1_roster 4) ex_db1 ex_db2"
    by (rule reach_step, rule reach_refl) (rule ledger_step.submit [OF ex_submit])
  show ?thesis
    by (rule redelivery_idempotent [OF reach_refl ex_ingest r prod.collapse [symmetric]])
qed

theorem done_job_replied_witness: "\<exists>x. x \<in> set (outbound ex_db4) \<and> o_job x = 1"
proof -
  have j: "ex_job\<lparr>j_status := JDone\<rparr> \<in> set (job ex_db4)" by (simp add: ex_db4_def)
  from done_job_replied [OF ex_reach4 [of True v1_roster] j, of 0] show ?thesis by (simp add: ex_job_def)
qed

theorem delivery_bounded_once_witness: "\<exists>x. outbound ex_db4 = [x] \<and> o_tries x \<le> 5 \<and> o_provider x = None"
proof -
  obtain x where x: "outbound ex_db4 = [x]" "o_status x = OPending" by (simp add: ex_db4_def)
  with delivery_bounded_once [OF ex_reach4 [of True v1_roster], of x] show ?thesis
    by (simp add: OUTBOUND_MAX_TRIES_def)
qed

theorem lease_serves_first_witness:
  "\<exists>j. j \<in> set (job ex_db2) \<and> j_status j = JQueued \<and> attempt ex_db3 = [new_attempt 12 ''w0'' (j_id j) 2]"
proof -
  have "attempt ex_db2 = []" by (simp add: ex_defs)
  with lease_serves_first [OF ex_lease] show ?thesis by auto
qed

theorem lease_job_progress_witness: "\<exists>aid. snd (lease_job 4 12 ''w0'' [] ex_db2) = Some aid"
proof (rule lease_job_progress)
  show "ready 4 [] [] ex_db2 ex_job" by (simp add: ready_def ex_defs verb_evals)
  show "card (stale_repos 4 [] ex_db2) < LEASE_MAX_REPICKS"
    by (simp add: stale_repos_def ex_defs verb_evals)
qed

theorem lease_job_complete_serial_witness: "snd (lease_job 4 12 ''w0'' [] ex_db3) = None"
  using lease_job_complete_serial [OF ex_reach3 [of False v1_roster], of 12 "''w0''"]
  by (simp add: ex_db3_def ex_job_def)

end
