(* ===== verification/Worker_Examples.thy ===== *)
theory Worker_Examples
  imports Pool Ledger_Examples
begin

text \<open>
  Concrete runs of workers and pool: the witnesses of the theorems of \<^verbatim>\<open>Workspace\<close>,
  \<^verbatim>\<open>Worker_Props\<close>, \<^verbatim>\<open>Worker_Ledgers\<close> and \<^verbatim>\<open>Pool\<close>, on the ledger states of
  \<^verbatim>\<open>Ledger_Examples\<close> and on a small SQLite ledger.
\<close>

definition ex_ustr :: "uuid \<Rightarrow> string" where
  "ex_ustr n = replicate n CHR ''x''"

lemma ex_ustr_inj: "inj ex_ustr"
  by (rule injI) (metis ex_ustr_def length_replicate)

definition ex_site :: site where
  "ex_site = \<lparr>st_base = ''/wt'', st_str = ex_ustr, st_reg = v1_roster\<rparr>"

definition ex_ws :: workspace where
  "ex_ws = \<lparr>entries = [\<lparr>en_name = worktree_name ex_ustr 2, en_is_dir = True, en_pointer = None\<rparr>], patches = {}\<rparr>"

definition ex_run :: "'s run" where
  "ex_run = \<lparr>rn_lease_at = 12, rn_create = Create_Ends Git_Ok, rn_pointer = None, rn_ticks = [], rn_awaited = True,
     rn_agent = (\<lambda>_. Returned ex_res), rn_diff = Diff [100], rn_env = (\<lambda>s. s), rn_record_at = 13, rn_unlink = True,
     rn_git = Git_Done, rn_rm = Rm_Gone, rn_clean_cancelled = False\<rparr>"

lemma ex_run_simps [simp]:
  "rn_lease_at ex_run = 12" "rn_ticks ex_run = []" "rn_env ex_run = (\<lambda>s. s)" "rn_agent ex_run j = Returned ex_res"
  "rn_create ex_run = Create_Ends Git_Ok" "rn_git ex_run = Git_Done" "rn_rm ex_run = Rm_Gone" "rn_clean_cancelled ex_run = False" "rn_awaited ex_run" "rn_unlink ex_run"
  "rn_diff ex_run = Diff [100]" "rn_record_at ex_run = 13"
  by (simp_all add: ex_run_def)

definition ex_reap :: reap_obs where
  "ex_reap = \<lparr>ro_git = (\<lambda>_. Git_Errs), ro_rm = (\<lambda>_. Rm_Gone), ro_prune = (\<lambda>_. Git_Done), ro_unlink = (\<lambda>_. True)\<rparr>"

theorem sweep_spares_open_witness:
  "\<lparr>en_name = worktree_name ex_ustr 2, en_is_dir = True, en_pointer = None\<rparr>
     \<in> set (entries (fst (sweep ''/wt'' ex_reap (ex_ustr ` reapable_attempt_ids 999 120 ex_db3) ex_ws)))"
proof -
  obtain v plan n where s: "sweep ''/wt'' ex_reap (ex_ustr ` reapable_attempt_ids 999 120 ex_db3) ex_ws = (v, plan, n)"
    by (metis prod_cases3)
  have "ex_attempt \<in> set (attempt ex_db3)" "a_status ex_attempt = AOpen" "a_id ex_attempt = 2" by (simp_all add: ex_defs)
  with sweep_spares_open [OF ex_ustr_inj ex_reach3 [of True v1_roster] this(1,2) _ _ s,
      of "\<lparr>en_name = worktree_name ex_ustr 2, en_is_dir = True, en_pointer = None\<rparr>"] s
  show ?thesis by (simp add: ex_ws_def)
qed

section \<open>A Postgres attempt\<close>

definition ex_world :: "db \<Rightarrow> db world" where
  "ex_world d = \<lparr>led = d, ws = ex_ws, running = {}\<rparr>"

lemma ex_job_of: "\<exists>j. get_attempt_job 2 ex_db3 = Some j \<and> to_agent j = ''kilabz''"
  by (simp add: get_attempt_job_def ex_defs verb_evals)

lemma ex_not_isolated: "to_agent j = ''kilabz'' \<Longrightarrow> \<not> isolated v1_roster j"
  by (simp add: isolated_def get_spec_def get_row_def v1_specs mk_spec_def)

lemma ex_process:
  "process_attempt (pg_ops v1_roster 4 []) ex_site False 2 ex_run (ex_world ex_db3) = (ex_world ex_db4, Recorded ROk)"
proof -
  from ex_job_of obtain j where j: "get_attempt_job 2 ex_db3 = Some j" "to_agent j = ''kilabz''" by blast
  have "status ex_res = ROk" by (simp add: ex_res_def)
  with j ex_not_isolated [OF j(2)] show ?thesis
    by (simp add: process_attempt_def pg_ops_def ex_world_def ex_site_def attempt_body_def invoke_def finish_def record_result_def ex_complete)
qed

theorem worker_report_recorded_witness:
  "map_option a_status (get_attempt 2 (led (ex_world ex_db4))) = Some AOk \<and> open_live 2 (led (ex_world ex_db4)) = None"
  using worker_report_recorded [OF _ _ _ ex_process, of True] ex_reach3 [of True v1_roster] by (simp add: ex_world_def)

theorem postgres_drain_ends_witness:
  "\<exists>w' m clean. drain (Suc (pg_work v1_roster ex_db2)) (pg_ops v1_roster 4 []) ex_site ''w0'' (\<lambda>_. ex_run) 0 (ex_world ex_db2)
     = Some (w', m, clean) \<and> m \<le> 3"
proof -
  have w: "pg_work v1_roster ex_db2 = 3"
    by (simp add: pg_work_def attempt_limit_def v1_roster_requeue_safe ex_defs MAX_ATTEMPTS_def)
  have "reach (ledger_step True v1_roster 4) empty_db (led (ex_world ex_db2))" by (simp add: ex_world_def ex_reach2)
  from postgres_drain_ends [OF this, of "\<lambda>_. ex_run" "[]" ex_site "''w0''"] w show ?thesis
    by (simp add: ex_world_def del: drain.simps)
qed

section \<open>A pool turn\<close>

definition ex_cfg :: pool_config where
  "ex_cfg = \<lparr>pc_size = 4, pc_poll = 1 / 50, pc_janitor = 1 / 5, pc_heartbeat = Some 30, pc_sweep = 300, pc_reconcile = 45\<rparr>"

definition ex_pool :: pool where
  "ex_pool = \<lparr>pl_cfg = ex_cfg, pl_processed = 0, pl_reclaimed = 0, pl_swept = 0, pl_faults = 0, pl_truncated = False,
     pl_reconciled = 0, pl_stop = False, pl_inflight = 0, pl_last = 0, pl_last_sweep = 0, pl_last_reconcile = 0\<rparr>"

text \<open>A poison job: the agent's adapter raises.\<close>

definition ex_turn :: "db turn" where
  "ex_turn = \<lparr>tn_lease_raises = False, tn_run = ex_run\<lparr>rn_agent := (\<lambda>_. Raised)\<rparr>, tn_leased_at = 1, tn_ended_at = 2,
     tn_fail_raises = False, tn_fail_at = 14\<rparr>"

lemma ex_lease_job: "lease_job 4 12 ''w0'' [] ex_db2 = (ex_db3, Some 2)"
  by (simp add: lease_job_def LEASE_MAX_REPICKS_def numeral_eq_Suc ex_lease)

theorem pool_turn_settles_witness:
  "\<exists>p' w' lg. worker_turn (pg_ops v1_roster 4 []) ex_site ''w0'' ex_turn 0 ex_pool (ex_world ex_db2)
      = (0, p', w', Sleep (1 / 50), lg)
    \<and> open_live 2 (led w') = None \<and> pl_inflight p' = 0"
proof -
  let ?L = "pg_ops v1_roster 4 []" and ?w = "ex_world ex_db2"
  from ex_job_of obtain j where j: "get_attempt_job 2 ex_db3 = Some j" "to_agent j = ''kilabz''" by blast
  have pa: "process_attempt ?L ex_site True 2 (ex_run\<lparr>rn_agent := (\<lambda>_. Raised)\<rparr>) (?w\<lparr>led := ex_db3\<rparr>) = (ex_world ex_db3, Exn)"
    using j ex_not_isolated [OF j(2)]
    by (simp add: process_attempt_def pg_ops_def ex_world_def ex_site_def attempt_body_def invoke_def Let_def task_done_def)
  have l: "lo_lease ?L 12 ''w0'' (led ?w) = (ex_db3, Some 2)" by (simp add: pg_ops_def ex_world_def ex_lease_job)
  obtain p' w' lg where t: "worker_turn ?L ex_site ''w0'' ex_turn 0 ex_pool ?w = (0, p', w', Sleep (1 / 50), lg)"
    using pa l by (simp add: worker_turn_def ex_turn_def ex_pool_def ex_cfg_def heartbeats_def Let_def)
  have "open_live 2 (led w') = None \<and> pl_inflight p' = pl_inflight ex_pool \<and> (0::int) = 0"
    by (rule pool_turn_settles [OF _ _ _ t, of True])
      (simp_all add: ex_world_def ex_reach2 ex_turn_def ex_lease_job)
  with t show ?thesis by (auto simp: ex_pool_def)
qed

section \<open>An isolated attempt\<close>

text \<open>A SQLite ledger with a leased job of a workspace actor; the agent is cancelled half-way.\<close>

definition ex_sq :: sq_db where
  "ex_sq = \<lparr>sq_jobs = [\<lparr>sj_id = 0, sj_parent = None, sj_agent = ''mack'', sj_body = [104], sj_context = [], sj_target = ''demo'',
       sj_repo = Some ''r'', sj_base_ref = None, sj_artifact = None, sj_status = JLeased, sj_created = 0\<rparr>],
     sq_attempts = [\<lparr>sa_id = 1, sa_job = 0, sa_worker = ''w1'', sa_status = AOpen, sa_result = None, sa_error = None\<rparr>],
     sq_outbox = [], sq_next = 2\<rparr>"

text \<open>Git fails when the worktree is to be removed and the directory stays; a later sweep takes it.\<close>

definition ex_messy_run :: "'s run" where
  "ex_messy_run = ex_run\<lparr>rn_agent := (\<lambda>_. Cancelled), rn_git := Git_Errs, rn_rm := Rm_Left None\<rparr>"

theorem attempt_cleans_up_witness:
  "\<exists>w'. process_attempt sq_ops ex_site False 1 ex_messy_run \<lparr>led = ex_sq, ws = ex_ws, running = {}\<rparr> = (w', Cancel_Exn)
    \<and> others (worktree_name ex_ustr 1) (ws w') = entries ex_ws \<and> running w' = {}
    \<and> worktree_name ex_ustr 1 \<notin> names (fst (sweep ''/wt'' ex_reap {ex_ustr 1} (ws w')))"
proof -
  let ?w = "\<lparr>led = ex_sq, ws = ex_ws, running = {}\<rparr>"
  obtain j where j: "lo_job sq_ops 1 (led ?w) = Some j" "to_agent j = ''mack''" "repo_id j = Some ''r''"
    by (simp add: sq_ops_def sq_get_attempt_job_def sq_open_job_def ex_sq_def)
  have iso: "isolated (st_reg ex_site) j"
    using j by (simp add: isolated_def ex_site_def get_spec_def get_row_def v1_specs mk_spec_def)
  obtain w' where p: "process_attempt sq_ops ex_site False 1 ex_messy_run ?w = (w', Cancel_Exn)"
    using j iso by (simp add: process_attempt_def attempt_body_def make_worktree_def invoke_def create_def cleanup_def ex_messy_run_def Let_def)
  have n: "st_str ex_site = ex_ustr" "st_base ex_site = ''/wt''" by (simp_all add: ex_site_def)
  have o: "others (worktree_name ex_ustr 1) ex_ws = entries ex_ws" "all_dirs (worktree_name ex_ustr 1) ex_ws"
    by (simp_all add: others_def all_dirs_def ex_ws_def worktree_name_inj [OF ex_ustr_inj])
  have "quiet_obs ex_reap" "ro_rm ex_reap m = Rm_Gone" for m by (simp_all add: ex_reap_def quiet_obs_def)
  with attempt_cleans_up [OF p j(1) iso _ refl, of ex_reap "{ex_ustr 1}"] p show ?thesis using o by (simp add: n)
qed

end
