(* ===== verification/Skillmatch.thy ===== *)
theory Skillmatch
  imports Pytext
begin

text \<open>
  \<^verbatim>\<open>src/runtime/skillmatch.py\<close>: matching of path triggers by segment, ranking by the
  alternative that matched, and the parse and lint of a \<^verbatim>\<open>SKILL.md\<close> at promotion. The
  compiled injection patterns are matched by Python's regular-expression engine, which is an
  argument (\<open>hit\<close>), as is lower-casing outside ASCII (\<open>lower\<close>).
\<close>

section \<open>Triggers\<close>

definition trigger_alternatives :: "pytext \<Rightarrow> pytext list" where
  "trigger_alternatives trigger = split_ws trigger"

definition segs :: "pytext \<Rightarrow> pytext list" where
  "segs p = split_on 47 p"

definition is_banned_trigger :: "pytext \<Rightarrow> bool" where
  "is_banned_trigger trigger =
     (let alts = trigger_alternatives trigger in
      alts = [] \<or> list_ex (\<lambda>alt. list_ex (\<lambda>s. s = codes ''*'' \<or> s = codes ''**'') (segs alt)) alts)"

definition alt_match :: "pytext \<Rightarrow> pytext list \<Rightarrow> bool" where
  "alt_match alt psegs \<longleftrightarrow> length (segs alt) = length psegs
     \<and> list_all (\<lambda>(t, p). fnmatchcase p t) (zip (segs alt) psegs)"

definition seg_match :: "pytext \<Rightarrow> pytext \<Rightarrow> bool" where
  "seg_match trigger path =
     list_ex (\<lambda>alt. alt_match alt (segs (strip path))) (trigger_alternatives trigger)"

definition alt_specificity :: "pytext \<Rightarrow> nat" where
  "alt_specificity alt = sum_list (map (\<lambda>s. if list_ex wild s then 0 else 1) (segs alt))"

definition specificity :: "pytext \<Rightarrow> nat" where
  "specificity trigger =
     (let alts = trigger_alternatives trigger in
      if alts = [] then 0 else Max (set (map alt_specificity alts)))"

text \<open>The loop over alternatives, keeping the best specificity of those that match a path.\<close>

fun best_match :: "pytext list list \<Rightarrow> nat option \<Rightarrow> pytext list \<Rightarrow> nat option" where
  "best_match psegs_list best [] = best"
| "best_match psegs_list best (alt # alts) =
     best_match psegs_list
       (if list_ex (alt_match alt) psegs_list
           \<and> (case best of None \<Rightarrow> True | Some b \<Rightarrow> alt_specificity alt > b)
        then Some (alt_specificity alt) else best) alts"

definition match_specificity :: "pytext \<Rightarrow> pytext list \<Rightarrow> nat option" where
  "match_specificity trigger paths =
     best_match (map (\<lambda>p. segs (strip p)) paths) None (trigger_alternatives trigger)"

section \<open>The injection tripwire\<close>

datatype injection_pattern = Ignore_Instructions | Role_Override | System_Prompt_Spoof | Fence_Break

definition injection_patterns :: "injection_pattern list" where
  "injection_patterns = [Ignore_Instructions, Role_Override, System_Prompt_Spoof, Fence_Break]"

definition scan_injection :: "(injection_pattern \<Rightarrow> pytext \<Rightarrow> bool) \<Rightarrow> pytext \<Rightarrow> injection_pattern option" where
  "scan_injection hit body = List.find (\<lambda>p. hit p body) injection_patterns"

section \<open>Parse and lint\<close>

definition desc_max :: nat where "desc_max = 60"
definition body_max :: nat where "body_max = 2048"

definition affordance_keys :: "pytext list" where
  "affordance_keys = map codes [''allowed-tools'', ''allowed_tools'', ''tools'', ''scripts'', ''script'',
     ''support_files'', ''support-files'', ''exec'', ''command'', ''commands'', ''run'', ''shell'', ''code'']"

definition name_char :: "nat \<Rightarrow> bool" where
  "name_char c \<longleftrightarrow> (97 \<le> c \<and> c \<le> 122) \<or> (48 \<le> c \<and> c \<le> 57)"

definition name_rest :: "nat \<Rightarrow> bool" where
  "name_rest c \<longleftrightarrow> name_char c \<or> c = 46 \<or> c = 95 \<or> c = 45"

text \<open>
  \<^verbatim>\<open>re.match\<close> with a final \<^verbatim>\<open>$\<close>, which also accepts one line feed before the end of
  the string.
\<close>

definition drop_final_newline :: "pytext \<Rightarrow> pytext" where
  "drop_final_newline s = (if s \<noteq> [] \<and> last s = 10 then butlast s else s)"

definition wf_name :: "pytext \<Rightarrow> bool" where
  "wf_name s \<longleftrightarrow> s \<noteq> [] \<and> name_char (hd s) \<and> list_all name_rest (tl s)"

definition skill_name_re :: "pytext \<Rightarrow> bool" where
  "skill_name_re s \<longleftrightarrow> wf_name s \<or> wf_name (drop_final_newline s)"

type_synonym meta = "(pytext \<times> pytext) list"

definition dash3 :: pytext where "dash3 = codes ''---''"

definition unquote :: "pytext \<Rightarrow> pytext" where
  "unquote v = (if length v \<ge> 2 \<and> hd v = last v \<and> (hd v = 34 \<or> hd v = 39)
                then butlast (tl v) else v)"

text \<open>Later keys replace earlier ones, as in a Python dictionary.\<close>

definition set_key :: "pytext \<Rightarrow> pytext \<Rightarrow> meta \<Rightarrow> meta" where
  "set_key k v m = (k, v) # filter (\<lambda>e. fst e \<noteq> k) m"

fun parse_meta :: "(pytext \<Rightarrow> pytext) \<Rightarrow> meta \<Rightarrow> pytext list \<Rightarrow> meta option" where
  "parse_meta lower m [] = Some m"
| "parse_meta lower m (ln # lns) =
     (if strip ln = [] \<or> prefix [35] (lstrip ln) then parse_meta lower m lns
      else if 58 \<notin> set ln then None
      else parse_meta lower
             (set_key (lower (strip (takeWhile (\<lambda>c. c \<noteq> 58) ln)))
                (unquote (strip (tl (dropWhile (\<lambda>c. c \<noteq> 58) ln)))) m) lns)"

definition parse_skill_md :: "(pytext \<Rightarrow> pytext) \<Rightarrow> pytext \<Rightarrow> (meta \<times> pytext) option" where
  "parse_skill_md lower raw =
     (let lines = split_on 10 raw in
      if lines = [] \<or> strip (hd lines) \<noteq> dash3 then None
      else
        (let front = takeWhile (\<lambda>l. strip l \<noteq> dash3) (tl lines);
             rest = dropWhile (\<lambda>l. strip l \<noteq> dash3) (tl lines)
         in case rest of
              [] \<Rightarrow> None
            | _ # after \<Rightarrow>
                (case parse_meta lower [] front of
                   None \<Rightarrow> None
                 | Some m \<Rightarrow> Some (m, strip (join_on [10] after)))))"

record skill_doc =
  sd_name :: pytext
  sd_description :: pytext
  sd_body :: pytext
  sd_trigger :: pytext

datatype lint_error =
    Bad_Name | Bad_Frontmatter | Affordance_Keys "pytext list" | Name_Mismatch | No_Description
  | Description_Too_Long nat | Banned_Trigger | Empty_Body | Body_Too_Long nat | Injection injection_pattern

definition meta_get :: "meta \<Rightarrow> string \<Rightarrow> pytext" where
  "meta_get m k = (case map_of m (codes k) of None \<Rightarrow> [] | Some v \<Rightarrow> v)"

definition lint_skill ::
  "(pytext \<Rightarrow> pytext) \<Rightarrow> (injection_pattern \<Rightarrow> pytext \<Rightarrow> bool) \<Rightarrow> pytext \<Rightarrow> pytext \<Rightarrow> lint_error + skill_doc" where
  "lint_skill lower hit name raw =
     (if \<not> skill_name_re name then Inl Bad_Name
      else case parse_skill_md lower raw of
        None \<Rightarrow> Inl Bad_Frontmatter
      | Some (m, body) \<Rightarrow>
          (let bad = sort (filter (\<lambda>k. k \<in> set affordance_keys) (map fst m));
               desc = meta_get m ''description''; trig = meta_get m ''path_trigger'' in
           if bad \<noteq> [] then Inl (Affordance_Keys bad)
           else if (case map_of m (codes ''name'') of None \<Rightarrow> False | Some v \<Rightarrow> v \<noteq> name) then Inl Name_Mismatch
           else if desc = [] then Inl No_Description
           else if length desc > desc_max then Inl (Description_Too_Long (length desc))
           else if is_banned_trigger trig then Inl Banned_Trigger
           else if body = [] then Inl Empty_Body
           else if length body > body_max then Inl (Body_Too_Long (length body))
           else case scan_injection hit body of
             Some p \<Rightarrow> Inl (Injection p)
           | None \<Rightarrow> Inr \<lparr>sd_name = name, sd_description = desc, sd_body = body, sd_trigger = trig\<rparr>))"

lemmas text_eval = codes_def is_space_def strip_def lstrip_def split_ws_def segs_def trigger_alternatives_def
  is_banned_trigger_def alt_match_def seg_match_def fnmatchcase_def in_class_def wild_def wf_name_def
  skill_name_re_def drop_final_newline_def name_char_def name_rest_def lint_skill_def parse_skill_md_def
  dash3_def unquote_def set_key_def meta_get_def affordance_keys_def desc_max_def body_max_def
  scan_injection_def injection_patterns_def

section \<open>Lemmas\<close>

lemma scan_injection_None: "scan_injection hit body = None \<longleftrightarrow> (\<forall>p. \<not> hit p body)"
proof -
  have "p \<in> set injection_patterns" for p by (cases p) (simp_all add: injection_patterns_def)
  then show ?thesis by (auto simp: scan_injection_def find_None_iff)
qed

lemma not_banned_iff:
  "\<not> is_banned_trigger t \<longleftrightarrow> trigger_alternatives t \<noteq> []
     \<and> (\<forall>alt \<in> set (trigger_alternatives t). \<forall>s \<in> set (segs alt). s \<noteq> codes ''*'' \<and> s \<noteq> codes ''**'')"
  by (auto simp: is_banned_trigger_def Let_def list_ex_iff)

lemma alt_match_literal:
  assumes "alt_match alt psegs" "i < length (segs alt)" "list_all (\<lambda>c. \<not> wild c) (segs alt ! i)"
  shows "psegs ! i = segs alt ! i"
proof -
  have "fnmatchcase (psegs ! i) (segs alt ! i)"
    using assms(1,2) by (auto simp: alt_match_def list_all_length)
  with assms(3) show ?thesis by (simp add: fnmatch_literal)
qed

lemma sort_Nil_iff: "sort xs = [] \<longleftrightarrow> xs = []"
  by (metis set_empty set_sort)

text \<open>The loop of \<open>match_specificity\<close> computes the maximum over the matching alternatives.\<close>

definition matching :: "pytext list list \<Rightarrow> pytext list \<Rightarrow> pytext set" where
  "matching pl alts = {alt \<in> set alts. \<exists>ps \<in> set pl. alt_match alt ps}"

lemma best_match_Some:
  "best_match pl (Some b) alts = Some (Max (insert b (alt_specificity ` matching pl alts)))"
proof (induction alts arbitrary: b)
  case Nil
  then show ?case by (simp add: matching_def)
next
  case (Cons a alts)
  have fin: "finite (alt_specificity ` matching pl alts)" by (simp add: matching_def)
  have m: "matching pl (a # alts) = (if list_ex (alt_match a) pl then insert a (matching pl alts) else matching pl alts)"
    by (auto simp: matching_def list_ex_iff)
  show ?case
  proof (cases "list_ex (alt_match a) pl")
    case True
    have "Max (insert (max b (alt_specificity a)) (alt_specificity ` matching pl alts))
        = Max (insert b (insert (alt_specificity a) (alt_specificity ` matching pl alts)))"
      using fin by (cases "matching pl alts = {}") (simp_all add: max.assoc)
    with True m Cons show ?thesis by (auto simp: max_def)
  next
    case False
    with m Cons show ?thesis by simp
  qed
qed

lemma best_match_None:
  "best_match pl None alts = (if matching pl alts = {} then None else Some (Max (alt_specificity ` matching pl alts)))"
proof (induction alts)
  case Nil
  then show ?case by (simp add: matching_def)
next
  case (Cons a alts)
  have m: "matching pl (a # alts) = (if list_ex (alt_match a) pl then insert a (matching pl alts) else matching pl alts)"
    by (auto simp: matching_def list_ex_iff)
  with Cons show ?case by (simp add: best_match_Some)
qed

lemma lint_accepts:
  assumes "lint_skill lower hit name raw = Inr d"
  shows "skill_name_re name" "sd_name d = name" "sd_description d \<noteq> []" "length (sd_description d) \<le> desc_max"
    "\<not> is_banned_trigger (sd_trigger d)" "sd_body d \<noteq> []" "length (sd_body d) \<le> body_max"
    "scan_injection hit (sd_body d) = None"
    "\<exists>m. parse_skill_md lower raw = Some (m, sd_body d) \<and> set (map fst m) \<inter> set affordance_keys = {}
      \<and> (map_of m (codes ''name'') = None \<or> map_of m (codes ''name'') = Some name)"
  using assms by (auto simp: lint_skill_def Let_def sort_Nil_iff filter_empty_conv image_iff
      split: if_splits option.splits prod.splits)

section \<open>The theorems\<close>

text \<open>
  A wildcard never crosses a path separator: a trigger that fires has an alternative with
  exactly as many segments as the changed path, and every segment of it without a wildcard equals
  the corresponding path segment.
\<close>

theorem seg_match_by_segment:
  assumes "seg_match trigger path"
  shows "\<exists>alt. alt \<in> set (trigger_alternatives trigger) \<and> length (segs alt) = length (segs (strip path))
    \<and> (\<forall>i. i < length (segs alt) \<and> list_all (\<lambda>c. \<not> wild c) (segs alt ! i)
          \<longrightarrow> segs (strip path) ! i = segs alt ! i)"
proof -
  from assms obtain alt where alt: "alt \<in> set (trigger_alternatives trigger)" "alt_match alt (segs (strip path))"
    by (auto simp: seg_match_def list_ex_iff)
  then show ?thesis by (intro exI [of _ alt]) (auto simp: alt_match_literal, simp add: alt_match_def)
qed

text \<open>
  C13. A skill ranks by what matched: the select-time rank is the largest specificity among the
  alternatives that match some changed path, and there is none exactly when no path fires the
  trigger; a decorative alternative that does not match cannot raise it.
\<close>

theorem match_specificity_max:
  "match_specificity trigger paths =
     (if \<exists>p. p \<in> set paths \<and> seg_match trigger p
      then Some (Max (alt_specificity ` {alt. alt \<in> set (trigger_alternatives trigger)
             \<and> (\<exists>p. p \<in> set paths \<and> alt_match alt (segs (strip p)))}))
      else None)"
proof -
  have m: "matching (map (\<lambda>p. segs (strip p)) paths) (trigger_alternatives trigger)
      = {alt. alt \<in> set (trigger_alternatives trigger) \<and> (\<exists>p. p \<in> set paths \<and> alt_match alt (segs (strip p)))}"
    by (auto simp: matching_def)
  have "(\<exists>p. p \<in> set paths \<and> seg_match trigger p) \<longleftrightarrow>
      matching (map (\<lambda>p. segs (strip p)) paths) (trigger_alternatives trigger) \<noteq> {}"
    by (auto simp: m seg_match_def list_ex_iff)
  then show ?thesis unfolding match_specificity_def best_match_None m by simp
qed

text \<open>
  The promotion lint admits only what the database accepts and the policy allows: an accepted
  document has a description of 1 to 60 characters, a body of 1 to 2048, a trigger whose every
  segment carries a literal, no executable-affordance key, no frontmatter name other than its
  directory, and no injection pattern matches its body.
\<close>

theorem lint_skill_sound:
  assumes "lint_skill lower hit name raw = Inr d"
  shows "sd_name d = name \<and> 1 \<le> length (sd_description d) \<and> length (sd_description d) \<le> 60
    \<and> 1 \<le> length (sd_body d) \<and> length (sd_body d) \<le> 2048
    \<and> trigger_alternatives (sd_trigger d) \<noteq> []
    \<and> (\<forall>alt s. \<not> (alt \<in> set (trigger_alternatives (sd_trigger d)) \<and> s \<in> set (segs alt) \<and> s = codes ''*''))
    \<and> (\<forall>p. \<not> hit p (sd_body d))
    \<and> (\<exists>m. parse_skill_md lower raw = Some (m, sd_body d) \<and> set (map fst m) \<inter> set affordance_keys = {}
        \<and> (map_of m (codes ''name'') = None \<or> map_of m (codes ''name'') = Some name))"
  using lint_accepts [OF assms] unfolding not_banned_iff scan_injection_None
  by (auto simp: desc_max_def body_max_def Suc_le_eq)

text \<open>
  The name check is weaker than the pattern it quotes: a directory name that ends in a line
  feed passes the lint although it is not of the form the message demands.
\<close>

theorem lint_skill_newline_name:
  "\<not> wf_name (codes ''fail-open'' @ [10])
   \<and> (\<exists>d. lint_skill id (\<lambda>_ _. False) (codes ''fail-open'' @ [10])
            (codes ''---'' @ [10] @ codes ''description: d'' @ [10] @ codes ''path_trigger: src/*.py'' @ [10]
             @ codes ''---'' @ [10] @ codes ''body'') = Inr d)"
proof
  show "\<not> wf_name (codes ''fail-open'' @ [10])" by (simp add: text_eval)
  show "\<exists>d. lint_skill id (\<lambda>_ _. False) (codes ''fail-open'' @ [10])
            (codes ''---'' @ [10] @ codes ''description: d'' @ [10] @ codes ''path_trigger: src/*.py'' @ [10]
             @ codes ''---'' @ [10] @ codes ''body'') = Inr d"
    by (rule exI [of _ "\<lparr>sd_name = codes ''fail-open'' @ [10], sd_description = codes ''d'',
        sd_body = codes ''body'', sd_trigger = codes ''src/*.py''\<rparr>"]) (simp add: text_eval)
qed

section \<open>Witnesses\<close>

theorem seg_match_by_segment_witness:
  "seg_match (codes ''tools/*.sh src/*.py'') (codes ''src/a.py'')
   \<and> (\<exists>alt. alt \<in> set (trigger_alternatives (codes ''tools/*.sh src/*.py''))
        \<and> length (segs alt) = length (segs (strip (codes ''src/a.py''))))
   \<and> \<not> seg_match (codes ''tools/*.sh src/*.py'') (codes ''src/sub/a.py'')"
proof -
  have m: "seg_match (codes ''tools/*.sh src/*.py'') (codes ''src/a.py'')" by (simp add: text_eval)
  have "\<not> seg_match (codes ''tools/*.sh src/*.py'') (codes ''src/sub/a.py'')" by (simp add: text_eval)
  with m seg_match_by_segment [OF m] show ?thesis by blast
qed

theorem lint_skill_sound_witness:
  "\<exists>d. lint_skill id (\<lambda>_ _. False) (codes ''x1'')
      (codes ''---'' @ [10] @ codes ''description: d'' @ [10] @ codes ''path_trigger: src/*.py'' @ [10]
       @ codes ''---'' @ [10] @ codes ''body'') = Inr d \<and> length (sd_body d) \<le> 2048"
proof -
  have "lint_skill id (\<lambda>_ _. False) (codes ''x1'')
      (codes ''---'' @ [10] @ codes ''description: d'' @ [10] @ codes ''path_trigger: src/*.py'' @ [10]
       @ codes ''---'' @ [10] @ codes ''body'')
    = Inr \<lparr>sd_name = codes ''x1'', sd_description = codes ''d'', sd_body = codes ''body'',
           sd_trigger = codes ''src/*.py''\<rparr>" by (simp add: text_eval)
  from lint_skill_sound [OF this] this show ?thesis by blast
qed

end
