(* ===== verification/Capture.thy ===== *)
theory Capture
  imports Skillmatch
begin

text \<open>
  \<^verbatim>\<open>src/runtime/capture.py\<close>, the pure core of auto-capture: the allowlisted tags, slugs and
  path isolation, globs from changed paths, the recurrence gate, field sanitising, the draft
  template, and the parse of reviewer-emitted tags. Lower-casing outside ASCII (\<open>lower\<close>), the
  regular-expression engine behind the injection tripwire (\<open>hit\<close>) and SHA-256 (\<open>sha\<close>) are
  arguments.
\<close>

section \<open>Tags, slugs and digests\<close>

record capture_defaults =
  MIN_RECUR :: int
  MIN_EVENTS :: int
  MIN_AUTHORS :: int
  MAX_OPEN :: int
  TTL_DAYS :: int
  REPROPOSE_MULT :: int

definition DEFAULTS :: capture_defaults where
  "DEFAULTS = \<lparr>MIN_RECUR = 3, MIN_EVENTS = 2, MIN_AUTHORS = 1, MAX_OPEN = 3, TTL_DAYS = 14,
     REPROPOSE_MULT = 2\<rparr>"

definition RULE_TAG_TAXONOMY :: "pytext list" where
  "RULE_TAG_TAXONOMY = map codes [''fail-open'', ''missing-file-lock'', ''unsanitized-injection'',
     ''silent-error-suppression'', ''missing-scoping'', ''python-in-bash-interp'', ''macos-incompat'',
     ''shared-marker-contention'', ''toctou-race'', ''migration-fail-open'', ''swiftdata-thread-safety'',
     ''swiftui-concurrency'']"

definition reserved_names :: "pytext list" where
  "reserved_names = map codes [''con'', ''prn'', ''aux'', ''nul'', ''com1'', ''lpt1'', ''skills'', ''auto'', ''.'']"

definition tag_form :: "pytext \<Rightarrow> bool" where
  "tag_form t \<longleftrightarrow> 2 \<le> length t \<and> length t \<le> 61 \<and> name_char (hd t)
     \<and> list_all (\<lambda>c. name_char c \<or> c = 45) (tl t)"

definition tag_re :: "pytext \<Rightarrow> bool" where
  "tag_re t \<longleftrightarrow> tag_form t \<or> tag_form (drop_final_newline t)"

definition raw_ctrl :: "nat \<Rightarrow> bool" where
  "raw_ctrl c \<longleftrightarrow> c < 32 \<or> c = 127"

definition is_allowed_tag :: "(pytext \<Rightarrow> pytext) \<Rightarrow> pytext \<Rightarrow> bool" where
  "is_allowed_tag lower tag = (let t = lower (strip tag) in tag_re t \<and> t \<in> set RULE_TAG_TAXONOMY)"

definition slug :: "(pytext \<Rightarrow> pytext) \<Rightarrow> pytext \<Rightarrow> pytext option" where
  "slug lower tag =
     (let t = lower (strip tag) in
      if \<not> tag_re t then None
      else if t \<in> set reserved_names then None
      else if \<not> is_ascii t then None
      else Some t)"

definition fingerprint :: "(pytext \<Rightarrow> string) \<Rightarrow> pytext \<Rightarrow> pytext \<Rightarrow> string" where
  "fingerprint sha repo tag = sha (repo @ [0] @ tag)"

definition hex_char :: "nat \<Rightarrow> bool" where
  "hex_char c \<longleftrightarrow> (48 \<le> c \<and> c \<le> 57) \<or> (97 \<le> c \<and> c \<le> 102)"

definition hex_sha :: "pytext \<Rightarrow> bool" where
  "hex_sha s \<longleftrightarrow> 7 \<le> length s \<and> length s \<le> 40 \<and> list_all hex_char s"

definition normalize_sha :: "(pytext \<Rightarrow> pytext) \<Rightarrow> pytext \<Rightarrow> pytext" where
  "normalize_sha lower s = lower (strip s)"

definition is_hex_sha :: "(pytext \<Rightarrow> pytext) \<Rightarrow> pytext \<Rightarrow> bool" where
  "is_hex_sha lower s = hex_sha (normalize_sha lower s)"

section \<open>Globs\<close>

text \<open>The extension of a base name, from its last dot, when the dot is not in the first place.\<close>

definition extension :: "pytext \<Rightarrow> pytext option" where
  "extension base =
     (let ext = rev (takeWhile (\<lambda>c. c \<noteq> 46) (rev base)) in
      if 46 \<in> set base \<and> length ext + 1 < length base then Some (46 # ext) else None)"

definition path_to_glob :: "pytext \<Rightarrow> pytext" where
  "path_to_glob path =
     (let p = strip_char 47 (strip path) in
      if p = [] then []
      else let parts = segs p in
        case extension (last parts) of
          None \<Rightarrow> join_on [47] parts
        | Some ext \<Rightarrow> join_on [47] (butlast parts @ [42 # ext]))"

definition candidate_glob :: "pytext \<Rightarrow> pytext option" where
  "candidate_glob path =
     (if path = [] \<or> list_ex raw_ctrl path then None
      else if list_ex is_space path then None
      else let g = path_to_glob path in
        if g = [] \<or> list_ex raw_ctrl g \<or> is_banned_trigger g then None else Some g)"

text \<open>Python's \<^verbatim>\<open>max(.., key=..)\<close>: the first element with the largest key.\<close>

fun py_max :: "('a \<Rightarrow> nat) \<Rightarrow> 'a \<Rightarrow> 'a list \<Rightarrow> 'a" where
  "py_max key b [] = b"
| "py_max key b (x # xs) = py_max key (if key x > key b then x else b) xs"

definition pick_glob :: "pytext list \<Rightarrow> pytext option" where
  "pick_glob paths =
     (case sort (remdups (List.map_filter candidate_glob paths)) of
        [] \<Rightarrow> None | g # gs \<Rightarrow> Some (py_max specificity g gs))"

section \<open>The recurrence gate\<close>

definition recurrence_ready :: "int \<Rightarrow> int \<Rightarrow> int \<Rightarrow> int \<Rightarrow> int \<Rightarrow> int \<Rightarrow> bool" where
  "recurrence_ready commits events authors min_recur min_events min_authors \<longleftrightarrow>
     commits \<ge> min_recur \<and> events \<ge> min_events \<and> authors \<ge> min_authors"

definition reready_threshold :: "int \<Rightarrow> int \<Rightarrow> int \<Rightarrow> int" where
  "reready_threshold decline_count min_recur mult = min_recur * mult ^ nat (max 0 decline_count)"

section \<open>Path isolation\<close>

definition skill_branch :: "pytext \<Rightarrow> pytext" where
  "skill_branch s = codes ''skill/auto/'' @ s"

definition skill_path :: "pytext \<Rightarrow> pytext" where
  "skill_path s = codes ''skills/'' @ s @ codes ''/SKILL.md''"

definition assert_only_skill_path :: "(pytext \<Rightarrow> pytext) \<Rightarrow> pytext list \<Rightarrow> pytext \<Rightarrow> bool" where
  "assert_only_skill_path lower changed s =
     (if slug lower s \<noteq> Some s then False
      else case changed of
        [p] \<Rightarrow> p = skill_path s
               \<and> \<not> (codes ''..'' \<in> set (segs p) \<or> prefix [47] p \<or> 92 \<in> set p)
      | _ \<Rightarrow> False)"

section \<open>Drafting\<close>

text \<open>
  One match of \<^verbatim>\<open><[^>\n]{0,200}>\<close> after the opening bracket: the rest of the text behind the
  closing one.
\<close>

fun tag_end :: "nat \<Rightarrow> pytext \<Rightarrow> pytext option" where
  "tag_end n [] = None"
| "tag_end n (c # s) =
     (if c = 62 then Some s else if c = 10 \<or> n = 0 then None else tag_end (n - 1) s)"

lemma tag_end_shorter: "tag_end n s = Some t \<Longrightarrow> length t < length s"
  by (induction n s rule: tag_end.induct) (auto split: if_splits)

function sub_tags :: "pytext \<Rightarrow> pytext" where
  "sub_tags [] = []"
| "sub_tags (c # s) =
     (if c = 60 then (case tag_end 200 s of Some t \<Rightarrow> 32 # sub_tags t | None \<Rightarrow> c # sub_tags s)
      else c # sub_tags s)"
  by pat_completeness auto
termination
  by (relation "measure length") (auto dest: tag_end_shorter)

definition sub_ctrl :: "pytext \<Rightarrow> pytext" where
  "sub_ctrl s = map (\<lambda>c. if raw_ctrl c then 32 else c) s"

definition ws_char :: "nat \<Rightarrow> bool" where
  "ws_char c \<longleftrightarrow> c = 32 \<or> c = 9 \<or> c = 13 \<or> c = 12 \<or> c = 11"

fun sub_ws :: "bool \<Rightarrow> pytext \<Rightarrow> pytext" where
  "sub_ws inrun [] = []"
| "sub_ws inrun (c # s) =
     (if ws_char c then (if inrun then sub_ws True s else 32 # sub_ws True s) else c # sub_ws False s)"

definition sanitize_field :: "pytext \<Rightarrow> nat \<Rightarrow> pytext" where
  "sanitize_field t maxlen = strip (take maxlen (strip (sub_ws False (sub_ctrl (sub_tags t)))))"

definition STUB_MARKER :: pytext where
  "STUB_MARKER = codes ''MDX-AUTOPROPOSED-STUB-UNAUTHORED''"

definition is_unauthored_stub :: "pytext \<Rightarrow> bool" where
  "is_unauthored_stub r \<longleftrightarrow> strip r = [] \<or> contains STUB_MARKER r"

definition or_else :: "pytext \<Rightarrow> pytext \<Rightarrow> pytext" where
  "or_else a b = (if a = [] then b else a)"

definition stub_line :: "pytext \<Rightarrow> pytext" where
  "stub_line wrong = (if wrong \<noteq> [] then [] else [10, 10] @ STUB_MARKER @
     codes '': replace the description + preferred-pattern with the real lesson and delete this line before merging (an unedited stub is refused at index).'')"

definition draft_body :: "pytext \<Rightarrow> pytext \<Rightarrow> pytext \<Rightarrow> pytext \<Rightarrow> pytext \<Rightarrow> pytext \<Rightarrow> pytext" where
  "draft_body wrong pref trig tag origin ids =
     or_else wrong (codes ''(no description captured)'') @ [10, 10]
     @ codes ''Preferred pattern: '' @ pref @ [10, 10]
     @ codes ''Flag any change matching `'' @ trig @ codes ''` that repeats this class of issue.'' @ [10, 10]
     @ codes ''(Auto-proposed from recurring reviewer findings ['' @ tag @ codes '']. ''
     @ codes ''Provenance: origin_repo='' @ origin @ codes ''; finding_ids='' @ ids @ codes ''. ''
     @ codes ''Drafted deterministically '' @ [8212] @ codes '' review before merge.)'' @ stub_line wrong"

definition draft_raw :: "pytext \<Rightarrow> pytext \<Rightarrow> pytext \<Rightarrow> pytext \<Rightarrow> pytext" where
  "draft_raw s desc trig body =
     codes ''---'' @ [10] @ codes ''name: '' @ s @ [10] @ codes ''description: '' @ desc @ [10]
     @ codes ''path_trigger: '' @ trig @ [10] @ codes ''---'' @ [10, 10] @ body @ [10]"

record draft_fields =
  df_wrong :: pytext
  df_preferred :: pytext
  df_ids :: "pytext list"
  df_origin :: pytext

definition render_skill_md ::
  "(pytext \<Rightarrow> pytext) \<Rightarrow> (injection_pattern \<Rightarrow> pytext \<Rightarrow> bool) \<Rightarrow> pytext \<Rightarrow> pytext \<Rightarrow> pytext \<Rightarrow> draft_fields
     \<Rightarrow> pytext option" where
  "render_skill_md lower hit s tag trig f =
     (if slug lower s \<noteq> Some s \<or> \<not> is_allowed_tag lower tag then None
      else if is_banned_trigger trig \<or> list_ex raw_ctrl trig then None
      else
        (let desc = sanitize_field (codes ''Recurring review finding: '' @ tag) 60;
             wrong = sanitize_field (df_wrong f) 700;
             pref = or_else (sanitize_field (df_preferred f) 700) (codes ''(no preferred pattern captured)'');
             ids = or_else (join_on (codes '', '') (map (\<lambda>i. sanitize_field i 40) (take 8 (df_ids f)))) (codes ''n/a'');
             origin = or_else (sanitize_field (df_origin f) 80) (codes ''n/a'');
             raw = draft_raw s desc trig (draft_body wrong pref trig tag origin ids)
         in case lint_skill lower hit s raw of Inl _ \<Rightarrow> None | Inr _ \<Rightarrow> Some raw))"

definition draft_hash :: "(pytext \<Rightarrow> string) \<Rightarrow> pytext \<Rightarrow> string" where
  "draft_hash sha rendered = sha rendered"

section \<open>Reviewer tags\<close>

text \<open>
  A case-insensitive letter class also matches four letters outside ASCII (U+0130, U+0131, U+017F
  and U+212A), which lower-casing and the allowlist then judge.
\<close>

definition ci_alnum :: "nat \<Rightarrow> bool" where
  "ci_alnum c \<longleftrightarrow> name_char (ascii_lower c) \<or> c \<in> {304, 305, 383, 8490}"

definition blank :: "nat \<Rightarrow> bool" where
  "blank c \<longleftrightarrow> c = 32 \<or> c = 9"

text \<open>One line against \<^verbatim>\<open>[ \t]*rule:[ \t]*(tag)[ \t\r]*\<close>.\<close>

definition rule_line :: "pytext \<Rightarrow> pytext option" where
  "rule_line ln =
     (let a = dropWhile blank ln in
      if map ascii_lower (take 5 a) \<noteq> codes ''rule:'' then None
      else
        (let b = dropWhile blank (drop 5 a);
             tag = takeWhile (\<lambda>c. ci_alnum c \<or> c = 45) b;
             rest = dropWhile (\<lambda>c. ci_alnum c \<or> c = 45) b
         in if 2 \<le> length tag \<and> length tag \<le> 61 \<and> ci_alnum (hd tag)
               \<and> list_all (\<lambda>c. blank c \<or> c = 13) rest
            then Some tag else None))"

definition parse_rule_tags :: "(pytext \<Rightarrow> pytext) \<Rightarrow> pytext \<Rightarrow> pytext list" where
  "parse_rule_tags lower text =
     remdups (map lower (filter (is_allowed_tag lower) (List.map_filter rule_line (split_on 10 text))))"

definition agreed_tags :: "(pytext \<Rightarrow> pytext) \<Rightarrow> pytext \<Rightarrow> pytext \<Rightarrow> pytext list" where
  "agreed_tags lower a b =
     sort (filter (\<lambda>t. t \<in> set (parse_rule_tags lower b)) (parse_rule_tags lower a))"

end
