(* ===== verification/Capture_Props.thy ===== *)
theory Capture_Props
  imports Capture
begin

text \<open>
  What the pure core of auto-capture guarantees: sanitised fields, globs that fire on the path they
  come from, drafts that parse back and that are recognised as stubs, isolated proposal paths,
  collision-free class keys and symmetric agreement.
\<close>

section \<open>Lower-casing\<close>

text \<open>The documented behaviour of \<^verbatim>\<open>str.lower\<close> on ASCII text, which the code relies on.\<close>

definition lower_law :: "(pytext \<Rightarrow> pytext) \<Rightarrow> bool" where
  "lower_law lower \<longleftrightarrow> (\<forall>s. is_ascii s \<longrightarrow> lower s = map ascii_lower s)"

lemma lower_lawD: "lower_law lower \<Longrightarrow> is_ascii s \<Longrightarrow> lower s = map ascii_lower s"
  by (simp add: lower_law_def)

lemma lower_law_ascii_map: "lower_law (map ascii_lower)"
  by (simp add: lower_law_def)

section \<open>Sanitised fields\<close>

lemma set_sub_ws: "set (sub_ws b s) \<subseteq> insert 32 (set s)"
  by (induction b s rule: sub_ws.induct) auto

lemma sub_ctrl_clean: "list_all (\<lambda>c. \<not> raw_ctrl c) (sub_ctrl s)"
  by (auto simp: sub_ctrl_def list_all_iff raw_ctrl_def)

lemma sanitize_clean: "list_all (\<lambda>c. \<not> raw_ctrl c) (sanitize_field t n)"
proof -
  have "set (sanitize_field t n) \<subseteq> insert 32 (set (sub_ctrl (sub_tags t)))"
    unfolding sanitize_field_def using set_strip set_sub_ws set_take_subset by (metis (no_types, lifting) order_trans)
  moreover have "\<not> raw_ctrl 32" by (simp add: raw_ctrl_def)
  ultimately show ?thesis using sub_ctrl_clean [of "sub_tags t"] unfolding list_all_iff by blast
qed

lemma strip_cases:
  assumes "strip s \<noteq> []"
  shows "\<not> is_space (hd (strip s))" "\<not> is_space (last (strip s))"
proof -
  define u where "u = lstrip s"
  have e: "strip s = rev (dropWhile is_space (rev u))" by (simp add: strip_def u_def)
  then have ne: "dropWhile is_space (rev u) \<noteq> []" using assms by simp
  then show "\<not> is_space (last (strip s))" using hd_dropWhile [OF ne] by (simp add: e last_rev)
  have "u \<noteq> []" using ne by auto
  then have hu: "\<not> is_space (hd u)" using hd_dropWhile [of is_space s] by (simp add: u_def lstrip_def)
  obtain v where v: "rev u = takeWhile is_space (rev u) @ dropWhile is_space (rev u)" by simp
  then have "u = rev (dropWhile is_space (rev u)) @ rev (takeWhile is_space (rev u))"
    by (metis rev_append rev_rev_ident)
  with ne have "hd u = hd (rev (dropWhile is_space (rev u)))" by (metis hd_append2 rev_is_Nil_conv)
  with hu show "\<not> is_space (hd (strip s))" by (simp add: e)
qed

lemma length_strip: "length (strip s) \<le> length s"
  unfolding strip_def lstrip_def by (metis length_dropWhile_le length_rev order_trans)

lemma sanitize_length: "length (sanitize_field t n) \<le> n"
  unfolding sanitize_field_def by (rule order_trans [OF length_strip]) simp

section \<open>Segments\<close>

lemma segs_join: "\<lbrakk>ps \<noteq> []; \<And>p. p \<in> set ps \<Longrightarrow> 47 \<notin> set p\<rbrakk> \<Longrightarrow> segs (join_on [47] ps) = ps"
  unfolding segs_def by (rule split_join)

lemma set_join: "set (join_on sep ps) \<subseteq> set sep \<union> \<Union> (set ` set ps)"
  by (induction sep ps rule: join_on.induct) auto

lemma segs_parts: "p \<in> set (segs s) \<Longrightarrow> 47 \<notin> set p" "p \<in> set (segs s) \<Longrightarrow> set p \<subseteq> set s"
proof -
  show "p \<in> set (segs s) \<Longrightarrow> 47 \<notin> set p" unfolding segs_def by (rule split_on_parts)
  have "\<Union> (set ` set (split_on c s)) \<subseteq> set s" for c
  proof (induction s)
    case (Cons x xs)
    then show ?case by (cases "split_on c xs") auto
  qed simp
  then show "p \<in> set (segs s) \<Longrightarrow> set p \<subseteq> set s" unfolding segs_def by blast
qed

lemma segs_Nil [simp]: "segs s \<noteq> []"
  by (simp add: segs_def)

lemma extension_split:
  assumes "extension base = Some ext"
  shows "\<exists>pre. pre \<noteq> [] \<and> base = pre @ ext"
proof -
  define t where "t = takeWhile (\<lambda>c. c \<noteq> 46) (rev base)"
  from assms have e: "46 \<in> set base" "ext = 46 # rev t" "length t + 1 < length base"
    by (auto simp: extension_def t_def Let_def split: if_splits)
  define d where "d = dropWhile (\<lambda>c. c \<noteq> 46) (rev base)"
  have d: "d \<noteq> []" "hd d = 46" using e(1) hd_dropWhile [of "\<lambda>c. c \<noteq> 46" "rev base"]
    by (auto simp: d_def)
  have "rev base = t @ d" by (simp add: t_def d_def)
  then have "base = rev d @ rev t" by (metis rev_append rev_rev_ident)
  also have "rev d = rev (tl d) @ [46]" using d by (cases d) simp_all
  finally have b: "base = rev (tl d) @ ext" using e(2) by simp
  have "rev (tl d) \<noteq> []"
  proof
    assume "rev (tl d) = []"
    with b e(2,3) show False by simp
  qed
  with b show ?thesis by blast
qed

lemma fnmatch_ext:
  assumes "list_all (\<lambda>c. \<not> wild c) ext"
  shows "fnmatchcase (pre @ ext) (42 # ext)"
proof -
  have "glob_parse (42 # ext) = Star # map Lit ext" using assms by (simp add: glob_parse_literal)
  moreover have "glob_match (map Lit ext) ext" by (simp add: glob_match_literal)
  ultimately have "glob_match (glob_parse (42 # ext)) (pre @ ext)" by (metis glob_match_star)
  then show ?thesis by (simp only: fnmatchcase_def)
qed

lemma glob_no_space:
  assumes "list_all (\<lambda>c. \<not> is_space c) g" "g \<noteq> []"
  shows "trigger_alternatives g = [g]"
  using assms by (simp add: trigger_alternatives_def split_ws_word)

lemma zip_snoc_last: "xs \<noteq> [] \<Longrightarrow> zip (butlast xs @ [y]) xs = zip (butlast xs) (butlast xs) @ [(y, last xs)]"
  by (cases xs rule: rev_cases) auto

lemma path_glob_match:
  assumes "p \<noteq> []" "list_all (\<lambda>c. \<not> wild c) p" "list_all (\<lambda>c. \<not> is_space c) p" "strip_char 47 p = p"
  shows "seg_match (path_to_glob p) p"
proof -
  have sp: "strip p = p" by (rule strip_idle [OF assms(3)])
  have seg_lit: "fnmatchcase q q" if "q \<in> set (segs p)" for q
    using that assms(2) segs_parts(2) [OF that] by (subst fnmatch_literal) (auto simp: list_all_iff)
  have parts: "segs p = butlast (segs p) @ [last (segs p)]" by simp
  show ?thesis
  proof (cases "extension (last (segs p))")
    case None
    then have g: "path_to_glob p = p" using assms(1,4) sp by (simp add: path_to_glob_def Let_def) (simp add: segs_def)
    have "alt_match p (segs p)" using seg_lit by (auto simp: alt_match_def list_all_iff zip_same)
    then show ?thesis unfolding g seg_match_def glob_no_space [OF assms(3,1)] sp by simp
  next
    case (Some ext)
    from extension_split [OF Some] obtain pre where pre: "last (segs p) = pre @ ext" by blast
    have sub: "set ext \<subseteq> set (last (segs p))" using pre by simp
    have last_in: "last (segs p) \<in> set (segs p)" by simp
    let ?ps = "butlast (segs p) @ [42 # ext]"
    have g: "path_to_glob p = join_on [47] ?ps" using Some assms(1,4) sp by (simp add: path_to_glob_def Let_def)
    have noslash: "47 \<notin> set q" if "q \<in> set ?ps" for q
      using that sub segs_parts(1) [OF last_in] segs_parts(1) [of q p] by (auto dest: in_set_butlastD)
    then have sg: "segs (path_to_glob p) = ?ps" unfolding g by (intro segs_join) auto
    have "set q \<subseteq> insert 42 (set p)" if "q \<in> set ?ps" for q
      using that sub segs_parts(2) [OF last_in] segs_parts(2) [of q p] by (auto dest: in_set_butlastD)
    then have "\<Union> (set ` set ?ps) \<subseteq> insert 42 (set p)" by blast
    then have "set (path_to_glob p) \<subseteq> insert 47 (insert 42 (set p))"
      unfolding g using set_join [of "[47]" ?ps] by fastforce
    moreover have ns: "list_all (\<lambda>c. \<not> is_space c) (path_to_glob p)"
    proof -
      have "\<not> is_space 47" "\<not> is_space 42" by (simp_all add: is_space_def)
      with calculation assms(3) show ?thesis unfolding list_all_iff by blast
    qed
    have ne: "path_to_glob p \<noteq> []"
    proof
      assume "path_to_glob p = []"
      then have "?ps = [[]]" using sg by (simp add: segs_def)
      then show False by (cases "butlast (segs p)") auto
    qed
    have "list_all (\<lambda>c. \<not> wild c) ext" using assms(2) sub segs_parts(2) [OF last_in] by (auto simp: list_all_iff)
    then have "fnmatchcase (last (segs p)) (42 # ext)" unfolding pre by (rule fnmatch_ext)
    moreover have "list_all (\<lambda>(t, q). fnmatchcase q t) (zip (butlast (segs p)) (butlast (segs p)))"
      using seg_lit in_set_butlastD [of _ "segs p"] by (auto simp: list_all_iff zip_same)
    ultimately have "list_all (\<lambda>(t, q). fnmatchcase q t) (zip ?ps (segs p))" by (simp add: zip_snoc_last)
    moreover have "length ?ps = length (segs p)" using parts by (metis length_append_singleton)
    ultimately have "alt_match (path_to_glob p) (segs p)" unfolding alt_match_def sg by blast
    then show ?thesis unfolding seg_match_def glob_no_space [OF ns ne] sp by simp
  qed
qed

section \<open>Slugs\<close>

lemma tag_form_ascii_lower:
  assumes "is_ascii s" "map ascii_lower (strip s) = s" "tag_re s"
  shows "tag_form s"
proof -
  have "\<not> (s \<noteq> [] \<and> last s = 10)"
  proof
    assume a: "s \<noteq> [] \<and> last s = 10"
    then have ne: "strip s \<noteq> []" using assms(2) by auto
    have "last s = ascii_lower (last (strip s))" using assms(2) ne by (metis last_map)
    with a have "last (strip s) = 10" by (auto simp: ascii_lower_def split: if_splits)
    with strip_cases(2) [OF ne] show False by (simp add: is_space_def)
  qed
  then have "drop_final_newline s = s" by (auto simp: drop_final_newline_def)
  with assms(3) show ?thesis by (simp add: tag_re_def)
qed

lemma set_strip_ascii: "is_ascii s \<Longrightarrow> is_ascii (strip s)"
  using set_strip [of s] by (auto simp: is_ascii_def list_all_iff)

lemma slug_self:
  assumes "lower_law lower" "slug lower s = Some s"
  shows "tag_form s" "s \<notin> set reserved_names" "is_ascii s"
proof -
  have s: "tag_re s" "s \<notin> set reserved_names" "is_ascii s" "lower (strip s) = s"
    using assms(2) by (auto simp: slug_def Let_def split: if_splits)
  then show "s \<notin> set reserved_names" "is_ascii s" by blast+
  have "map ascii_lower (strip s) = s"
    using lower_lawD [OF assms(1) set_strip_ascii [OF s(3)]] s(4) by simp
  from tag_form_ascii_lower [OF s(3) this s(1)] show "tag_form s" .
qed

lemma tag_form_chars: "tag_form s \<Longrightarrow> c \<in> set s \<Longrightarrow> name_char c \<or> c = 45"
  by (cases s) (auto simp: tag_form_def list_all_iff)

lemma skill_path_segs:
  assumes "tag_form s"
  shows "segs (skill_path s) = [codes ''skills'', s, codes ''SKILL.md'']"
proof -
  have "47 \<notin> set s" using tag_form_chars [OF assms, of 47] by (auto simp: name_char_def)
  moreover have "skill_path s = join_on [47] [codes ''skills'', s, codes ''SKILL.md'']"
    by (simp add: skill_path_def codes_def)
  ultimately show ?thesis by (simp only:) (rule segs_join, auto simp: codes_def)
qed

section \<open>Drafts\<close>

lemma contains_self: "contains m (m @ b)"
  unfolding contains_def list_ex_iff by (intro bexI [of _ "m @ b"]) auto

lemma contains_append:
  assumes "contains m s"
  shows "contains m (a @ s)"
proof -
  from assms obtain x where "suffix x s" "prefix m x" by (auto simp: contains_def list_ex_iff)
  moreover from this(1) have "suffix x (a @ s)" by (rule suffix_appendI)
  ultimately show ?thesis by (auto simp: contains_def list_ex_iff)
qed

lemma contains_Cons: "contains m s \<Longrightarrow> contains m (c # s)"
  using contains_append [of m s "[c]"] by simp

lemma lstrip_word: "\<lbrakk>k \<noteq> []; list_all (\<lambda>c. \<not> is_space c) k\<rbrakk> \<Longrightarrow> lstrip (k @ v) = k @ v"
  by (cases k) (auto simp: lstrip_def)

lemma strip_word_ne:
  assumes "k \<noteq> []" "list_all (\<lambda>c. \<not> is_space c) k"
  shows "strip (k @ v) \<noteq> []" "hd (strip (k @ v)) = hd k"
proof -
  let ?w = "rev (dropWhile is_space (rev (k @ v)))"
  have e: "strip (k @ v) = ?w" using lstrip_word [OF assms] by (simp add: strip_def)
  have "hd k \<in> set (rev (k @ v))" "\<not> is_space (hd k)" using assms by (cases k; simp)+
  then have ne: "dropWhile is_space (rev (k @ v)) \<noteq> []" by (metis dropWhile_eq_Nil_conv)
  then show "strip (k @ v) \<noteq> []" using e by simp
  have "k @ v = ?w @ rev (takeWhile is_space (rev (k @ v)))"
    by (metis rev_append rev_rev_ident takeWhile_dropWhile_id)
  with ne have "hd (k @ v) = hd ?w" by (metis hd_append2 rev_is_Nil_conv)
  with e assms(1) show "hd (strip (k @ v)) = hd k" by simp
qed

lemma strip_space [simp]: "strip (32 # v) = strip v"
  by (simp add: strip_def lstrip_def is_space_def)

text \<open>A frontmatter key as the template writes it.\<close>

definition plain_key :: "(pytext \<Rightarrow> pytext) \<Rightarrow> pytext \<Rightarrow> bool" where
  "plain_key lower k \<longleftrightarrow> k \<noteq> [] \<and> list_all (\<lambda>c. \<not> is_space c) k \<and> {10, 58} \<inter> set k = {} \<and> hd k \<noteq> 35
     \<and> hd k \<noteq> 45 \<and> lower k = k"

lemma parse_meta_line:
  assumes "plain_key lower k"
  shows "parse_meta lower m ((k @ 58 # 32 # v) # lns) = parse_meta lower (set_key k (unquote (strip v)) m) lns"
proof -
  note K = assms [unfolded plain_key_def]
  have "\<not> prefix [35] (lstrip (k @ 58 # 32 # v))" using lstrip_word [of k "58 # 32 # v"] K by (cases k) auto
  moreover have "takeWhile (\<lambda>c. c \<noteq> 58) (k @ 58 # 32 # v) = k" "dropWhile (\<lambda>c. c \<noteq> 58) (k @ 58 # 32 # v) = 58 # 32 # v"
    using K [THEN conjunct2, THEN conjunct2, THEN conjunct1] by (induction k) auto
  ultimately show ?thesis using K strip_word_ne(1) [of k "58 # 32 # v"] strip_idle [of k] by simp
qed

lemma line_not_dash:
  assumes "plain_key lower k"
  shows "strip (k @ v) \<noteq> dash3"
proof
  note K = assms [unfolded plain_key_def]
  assume "strip (k @ v) = dash3"
  with strip_word_ne(2) [of k v] K show False by (simp add: dash3_def codes_def)
qed

text \<open>What the parser makes of a draft: the three keys of the template and its body.\<close>

definition draft_meta :: "pytext \<Rightarrow> pytext \<Rightarrow> pytext \<Rightarrow> meta" where
  "draft_meta s desc trig =
     [(codes ''path_trigger'', unquote (strip trig)), (codes ''description'', unquote (strip desc)), (codes ''name'', unquote (strip s))]"

lemma draft_parse:
  assumes "lower_law lower" "10 \<notin> set s" "10 \<notin> set desc" "10 \<notin> set trig"
  shows "parse_skill_md lower (draft_raw s desc trig body) = Some (draft_meta s desc trig, strip (10 # body @ [10]))"
proof -
  let ?k1 = "codes ''name''" and ?k2 = "codes ''description''" and ?k3 = "codes ''path_trigger''"
  let ?l1 = "?k1 @ 58 # 32 # s" and ?l2 = "?k2 @ 58 # 32 # desc" and ?l3 = "?k3 @ 58 # 32 # trig"
  have k: "plain_key lower ?k1" "plain_key lower ?k2" "plain_key lower ?k3"
    using lower_lawD [OF assms(1), of ?k1] lower_lawD [OF assms(1), of ?k2] lower_lawD [OF assms(1), of ?k3]
    by (simp_all add: plain_key_def codes_def is_space_def is_ascii_def ascii_lower_def)
  have raw: "draft_raw s desc trig body = dash3 @ 10 # ?l1 @ 10 # ?l2 @ 10 # ?l3 @ 10 # dash3 @ 10 # (10 # body @ [10])"
    by (simp add: draft_raw_def dash3_def codes_def)
  have nl: "10 \<notin> set dash3" "10 \<notin> set ?l1" "10 \<notin> set ?l2" "10 \<notin> set ?l3"
    using assms(2-4) by (auto simp: dash3_def codes_def)
  have lines: "split_on 10 (draft_raw s desc trig body) = dash3 # ?l1 # ?l2 # ?l3 # dash3 # split_on 10 (10 # body @ [10])"
    unfolding raw by (simp only: split_on_append nl not_False_eq_True)
  have sd: "strip dash3 = dash3" by (simp add: dash3_def text_eval)
  have "parse_meta lower [] [?l1, ?l2, ?l3]
      = Some (set_key ?k3 (unquote (strip trig)) (set_key ?k2 (unquote (strip desc)) (set_key ?k1 (unquote (strip s)) [])))"
    unfolding k [THEN parse_meta_line] by simp
  also have "\<dots> = Some (draft_meta s desc trig)" by (simp add: draft_meta_def set_key_def codes_def)
  finally show ?thesis
    using k [THEN line_not_dash] sd join_split [of 10 "10 # body @ [10]"] unfolding parse_skill_md_def lines Let_def
    by (simp del: split_on.simps join_split)
qed

text \<open>The fields a draft is rendered from, sanitised.\<close>

definition draft_desc :: "pytext \<Rightarrow> pytext" where
  "draft_desc tag = sanitize_field (codes ''Recurring review finding: '' @ tag) 60"

definition draft_text :: "draft_fields \<Rightarrow> pytext \<Rightarrow> pytext \<Rightarrow> pytext" where
  "draft_text f trig tag =
     draft_body (sanitize_field (df_wrong f) 700) (or_else (sanitize_field (df_preferred f) 700) (codes ''(no preferred pattern captured)''))
       trig tag (or_else (sanitize_field (df_origin f) 80) (codes ''n/a''))
       (or_else (join_on (codes '', '') (map (\<lambda>i. sanitize_field i 40) (take 8 (df_ids f)))) (codes ''n/a''))"

lemma sanitize_ends:
  "sanitize_field t n \<noteq> [] \<Longrightarrow> \<not> is_space (hd (sanitize_field t n)) \<and> \<not> is_space (last (sanitize_field t n))"
  using strip_cases unfolding sanitize_field_def by blast

lemma draft_desc_head: "draft_desc tag \<noteq> [] \<and> hd (draft_desc tag) = 82"
proof -
  have "\<exists>v. sub_ws False (sub_ctrl (sub_tags (codes ''Recurring review finding: '' @ tag))) = 82 # v"
    by (simp add: codes_def sub_ctrl_def raw_ctrl_def ws_char_def)
  then obtain v where v: "sub_ws False (sub_ctrl (sub_tags (codes ''Recurring review finding: '' @ tag))) = [82] @ v" by auto
  have k: "[82] \<noteq> ([] :: pytext)" "list_all (\<lambda>c. \<not> is_space c) [82]" by (simp_all add: is_space_def)
  from strip_word_ne [OF k, of v] obtain u where u: "strip ([82] @ v) = 82 # u" by (metis list.sel(1) list.exhaust_sel)
  have "draft_desc tag = strip ([82] @ take 59 u)" unfolding draft_desc_def sanitize_field_def v u by simp
  then show ?thesis using strip_word_ne [OF k, of "take 59 u"] by simp
qed

lemma draft_desc_kept: "unquote (strip (draft_desc tag)) = draft_desc tag"
proof -
  have "strip (draft_desc tag) = draft_desc tag"
    by (rule strip_core(1)) (use draft_desc_head [of tag] sanitize_ends [of _ 60] in \<open>simp_all add: draft_desc_def is_space_def [of 82]\<close>)
  then show ?thesis using draft_desc_head [of tag] by (simp add: unquote_def)
qed

lemma last_codes: "w \<noteq> [] \<Longrightarrow> last (codes w) = of_char (last w)" "codes w = [] \<longleftrightarrow> w = []"
  by (simp_all add: codes_def last_map)

lemma draft_text_kept: "strip (10 # draft_text f trig tag @ [10]) = draft_text f trig tag" "draft_text f trig tag \<noteq> []"
proof -
  let ?w = "sanitize_field (df_wrong f) 700"
  have hd: "or_else ?w (codes ''(no description captured)'') \<noteq> []" "\<not> is_space (hd (or_else ?w (codes ''(no description captured)'')))"
    using sanitize_ends [of "df_wrong f" 700] by (auto simp: or_else_def codes_def is_space_def)
  then show ne: "draft_text f trig tag \<noteq> []" by (simp add: draft_text_def draft_body_def)
  have "\<not> is_space (hd (draft_text f trig tag))" using hd by (simp add: draft_text_def draft_body_def)
  moreover have "last (draft_text f trig tag) = (if ?w = [] then 46 else 41)"
    by (simp add: draft_text_def draft_body_def stub_line_def last_codes)
  then have "\<not> is_space (last (draft_text f trig tag))" by (simp add: is_space_def)
  ultimately show "strip (10 # draft_text f trig tag @ [10]) = draft_text f trig tag" by (rule strip_core(4) [OF ne])
qed

lemma slug_name:
  assumes "lower_law lower" "slug lower s = Some s"
  shows "skill_name_re s" "unquote (strip s) = s" "10 \<notin> set s"
proof -
  have t: "tag_form s" by (rule slug_self [OF assms])
  then show "skill_name_re s" by (auto simp: skill_name_re_def wf_name_def tag_form_def name_rest_def list_all_iff)
  have ns: "list_all (\<lambda>c. \<not> is_space c) s"
    unfolding list_all_iff
  proof
    fix c assume "c \<in> set s"
    from tag_form_chars [OF t this] show "\<not> is_space c" by (auto simp: name_char_def is_space_def)
  qed
  have "hd s \<noteq> 34" "hd s \<noteq> 39" using t by (auto simp: tag_form_def name_char_def)
  then show "unquote (strip s) = s" by (simp add: strip_idle [OF ns] unquote_def)
  show "10 \<notin> set s" using tag_form_chars [OF t, of 10] by (auto simp: name_char_def)
qed

text \<open>How the promotion lint judges a draft.\<close>

lemma draft_lint:
  assumes "lower_law lower" "slug lower s = Some s" "\<not> list_ex raw_ctrl trig"
  shows "lint_skill lower hit s (draft_raw s (draft_desc tag) trig (draft_text f trig tag)) =
    (if is_banned_trigger (unquote (strip trig)) then Inl Banned_Trigger
     else if length (draft_text f trig tag) > body_max then Inl (Body_Too_Long (length (draft_text f trig tag)))
     else case scan_injection hit (draft_text f trig tag) of
       Some p \<Rightarrow> Inl (Injection p)
     | None \<Rightarrow> Inr \<lparr>sd_name = s, sd_description = draft_desc tag, sd_body = draft_text f trig tag, sd_trigger = unquote (strip trig)\<rparr>)"
proof -
  note n = slug_name [OF assms(1,2)]
  have nl: "10 \<notin> set (draft_desc tag)" "10 \<notin> set trig"
    using sanitize_clean [of "codes ''Recurring review finding: '' @ tag" 60] assms(3)
    by (auto simp: draft_desc_def list_all_iff list_ex_iff raw_ctrl_def)
  note parse = draft_parse [OF assms(1) n(3) nl, of "draft_text f trig tag", unfolded draft_text_kept(1)]
  let ?m = "draft_meta s (draft_desc tag) trig"
  have keys: "filter (\<lambda>k. k \<in> set affordance_keys) (map fst ?m) = []"
    by (simp add: draft_meta_def affordance_keys_def codes_def)
  have get: "map_of ?m (codes ''name'') = Some s" "meta_get ?m ''description'' = draft_desc tag"
    "meta_get ?m ''path_trigger'' = unquote (strip trig)"
    by (simp_all add: draft_meta_def meta_get_def codes_def n(2) draft_desc_kept)
  have desc: "draft_desc tag \<noteq> []" "\<not> desc_max < length (draft_desc tag)"
    using draft_desc_head [of tag] sanitize_length [of "codes ''Recurring review finding: '' @ tag" 60]
    by (simp_all add: draft_desc_def desc_max_def)
  show ?thesis
    unfolding lint_skill_def parse Let_def option.case prod.case keys get
    using n(1) desc draft_text_kept(2) [of f trig tag] by simp
qed

section \<open>The theorems\<close>

text \<open>
  A sanitised field is one clean line: it has at most the given length, no control character
  (so no line feed that could forge a frontmatter line) and no space at either end.
\<close>

theorem sanitize_field_clean:
  "length (sanitize_field t n) \<le> n \<and> list_all (\<lambda>c. \<not> raw_ctrl c) (sanitize_field t n)
   \<and> (sanitize_field t n = [] \<or> \<not> is_space (hd (sanitize_field t n)) \<and> \<not> is_space (last (sanitize_field t n)))"
  using sanitize_length sanitize_clean strip_cases unfolding sanitize_field_def by blast

text \<open>
  A proposed trigger fires where it came from: the glob derived from a changed path without
  wildcard characters matches that path.
\<close>

theorem candidate_glob_fires:
  assumes "candidate_glob path = Some g" "list_all (\<lambda>c. \<not> wild c) path" "strip_char 47 path = path"
  shows "seg_match g path \<and> \<not> is_banned_trigger g"
proof -
  have p: "path \<noteq> []" "list_all (\<lambda>c. \<not> is_space c) path" "g = path_to_glob path" "\<not> is_banned_trigger g"
    using assms(1) by (auto simp: candidate_glob_def Let_def list_ex_iff list_all_iff split: if_splits)
  with path_glob_match [OF p(1) assms(2) p(2) assms(3)] show ?thesis by simp
qed

text \<open>
  A path with a bracketed directory, as dynamic routes have, yields a trigger that does not fire on
  that path: the bracket is read as a character class.
\<close>

theorem bracket_path_glob_misses:
  "candidate_glob (codes ''app/[id]/page.tsx'') = Some (codes ''app/[id]/*.tsx'')
   \<and> \<not> seg_match (codes ''app/[id]/*.tsx'') (codes ''app/[id]/page.tsx'')"
  by (simp add: candidate_glob_def path_to_glob_def extension_def strip_char_def raw_ctrl_def text_eval Let_def)

text \<open>
  The class key separates classes: two pairs of repository and tag with the same fingerprint are
  equal, since the repository has no NUL and the digest does not collide.
\<close>

theorem fingerprint_separates:
  assumes "inj sha" "0 \<notin> set repo" "0 \<notin> set repo'" "fingerprint sha repo tag = fingerprint sha repo' tag'"
  shows "repo = repo' \<and> tag = tag'"
proof -
  have "repo @ 0 # tag = repo' @ 0 # tag'" using assms(1,4) by (auto simp: fingerprint_def inj_def)
  moreover have "takeWhile (\<lambda>c. c \<noteq> 0) (r @ 0 # t) = r" if "0 \<notin> set r" for r t :: pytext
    using that by (induction r) auto
  ultimately have "repo = repo'" using assms(2,3) by metis
  with \<open>repo @ 0 # tag = repo' @ 0 # tag'\<close> show ?thesis by simp
qed

text \<open>
  C17. Rendering and linting fit together. A draft is rendered exactly if its slug and tag are valid, its
  trigger is neither banned nor has control characters, also not once it is stripped and unquoted as the
  parser will do, and its body is at most 2048 characters without an injection pattern; nothing else of
  the promotion lint can reject it. And the lint of a rendered draft reads back the slug, the sanitised
  description, the body as rendered, and the trigger stripped and unquoted, so the trigger it was
  rendered with whenever that has no outer white space and no enclosing quotes.
\<close>

theorem render_round_trip:
  assumes "lower_law lower"
  shows "render_skill_md lower hit s tag trig f =
      (if slug lower s = Some s \<and> is_allowed_tag lower tag \<and> \<not> is_banned_trigger trig \<and> \<not> list_ex raw_ctrl trig
          \<and> \<not> is_banned_trigger (unquote (strip trig)) \<and> length (draft_text f trig tag) \<le> 2048
          \<and> \<not> (\<exists>p. hit p (draft_text f trig tag))
       then Some (draft_raw s (draft_desc tag) trig (draft_text f trig tag)) else None)
    \<and> (render_skill_md lower hit s tag trig f = Some raw \<longrightarrow>
         lint_skill lower hit s raw = Inr \<lparr>sd_name = s, sd_description = draft_desc tag, sd_body = draft_text f trig tag,
           sd_trigger = unquote (strip trig)\<rparr>)"
proof (cases "slug lower s = Some s \<and> is_allowed_tag lower tag \<and> \<not> is_banned_trigger trig \<and> \<not> list_ex raw_ctrl trig")
  case True
  let ?raw = "draft_raw s (draft_desc tag) trig (draft_text f trig tag)"
  note lint = draft_lint [OF assms, of s trig hit tag f]
  have r: "render_skill_md lower hit s tag trig f = (case lint_skill lower hit s ?raw of Inl _ \<Rightarrow> None | Inr _ \<Rightarrow> Some ?raw)"
  proof -
    have "\<not> (slug lower s \<noteq> Some s \<or> \<not> is_allowed_tag lower tag)" "\<not> (is_banned_trigger trig \<or> list_ex raw_ctrl trig)" using True by auto
    then show ?thesis unfolding render_skill_md_def draft_text_def draft_desc_def Let_def by (simp only: if_False)
  qed
  show ?thesis
  proof (cases "is_banned_trigger (unquote (strip trig)) \<or> length (draft_text f trig tag) > 2048 \<or> (\<exists>p. hit p (draft_text f trig tag))")
    case bad: True
    then have "\<exists>e. lint_skill lower hit s ?raw = Inl e"
      using True lint scan_injection_None [of hit "draft_text f trig tag"] by (auto simp: body_max_def split: option.splits)
    with bad show ?thesis unfolding r by auto
  next
    case good: False
    then have "scan_injection hit (draft_text f trig tag) = None" by (simp add: scan_injection_None)
    then have "lint_skill lower hit s ?raw = Inr \<lparr>sd_name = s, sd_description = draft_desc tag, sd_body = draft_text f trig tag,
           sd_trigger = unquote (strip trig)\<rparr>"
      using True good lint by (simp add: body_max_def)
    with True good show ?thesis unfolding r by auto
  qed
next
  case False
  then have "render_skill_md lower hit s tag trig f = None" by (auto simp: render_skill_md_def)
  with False show ?thesis by auto
qed

lemma trigger_kept:
  assumes "list_all (\<lambda>c. \<not> is_space c) trig" "hd trig \<noteq> 34" "hd trig \<noteq> 39"
  shows "unquote (strip trig) = trig"
  using strip_idle [OF assms(1)] assms(2,3) by (simp add: unquote_def)

text \<open>
  A draft without a captured lesson is recognised: whenever the problem statement sanitises to
  nothing the rendered document is an unauthored stub, so the index gate refuses it.
\<close>

theorem unauthored_draft_is_stub:
  assumes "render_skill_md lower hit s tag trig f = Some raw" "sanitize_field (df_wrong f) 700 = []"
  shows "is_unauthored_stub raw"
proof -
  from assms obtain a b c pref origin ids where raw: "raw = draft_raw s a trig (draft_body [] pref trig tag origin ids)"
    by (auto simp: render_skill_md_def Let_def split: if_splits sum.splits)
  have "contains STUB_MARKER (stub_line [] @ [10])"
    by (simp add: stub_line_def contains_Cons contains_self)
  then have c: "contains STUB_MARKER (x @ stub_line [] @ [10])" for x by (rule contains_append)
  have "\<exists>x. raw = x @ stub_line [] @ [10]"
    unfolding raw draft_raw_def draft_body_def append_assoc [symmetric] by blast
  with c have "contains STUB_MARKER raw" by blast
  then show ?thesis by (simp add: is_unauthored_stub_def)
qed

text \<open>
  A proposal touches one file inside its own directory: if the check passes, the only changed
  path is \<^verbatim>\<open>skills/<slug>/SKILL.md\<close>, it has exactly those three segments, and the slug is a
  plain lower-case word of 2 to 61 characters.
\<close>

theorem proposal_path_isolated:
  assumes "lower_law lower" "assert_only_skill_path lower changed s"
  shows "changed = [skill_path s] \<and> segs (skill_path s) = [codes ''skills'', s, codes ''SKILL.md'']
    \<and> tag_form s \<and> s \<notin> set reserved_names"
proof -
  have "slug lower s = Some s" "changed = [skill_path s]"
    using assms(2) by (auto simp: assert_only_skill_path_def split: if_splits list.splits)
  with slug_self [OF assms(1)] skill_path_segs show ?thesis by blast
qed

end
