(* ===== verification/Capture_Store.thy ===== *)
theory Capture_Store
  imports Capture
begin

text \<open>
  The auto-capture verbs of \<^verbatim>\<open>src/runtime/ledger/postgres_store.py\<close>: the recurrence ledger of
  finding classes (\<^verbatim>\<open>capture_candidate\<close>, \<^verbatim>\<open>capture_occurrence\<close>) and its state machine from a
  first sighting to a promoted or declined proposal. Each verb is one statement or one transaction;
  times are in seconds.
\<close>

section \<open>Tables\<close>

datatype capture_state = Cap_New | Accumulating | Ready | Proposing | Proposed | Promoted | Declined
  | Cap_Stale | Cap_Error

record candidate_row =
  cc_fp :: string
  cc_repo :: pytext
  cc_tag :: pytext
  cc_glob :: "pytext option"
  cc_state :: capture_state
  cc_branch :: "pytext option"
  cc_draft :: "string option"
  cc_pr :: "int option"
  cc_declines :: nat
  cc_first :: time
  cc_last :: time
  cc_proposed_at :: "time option"

record occurrence_row =
  oc_fp :: string
  oc_commit :: pytext
  oc_event :: string
  oc_author :: string
  oc_glob :: "pytext option"
  oc_seen :: time

record capture_store =
  cands :: "candidate_row list"
  occs :: "occurrence_row list"

definition oc_key :: "occurrence_row \<Rightarrow> string \<times> pytext" where
  "oc_key o' = (oc_fp o', oc_commit o')"

section \<open>Recording a sighting\<close>

record sighting =
  sg_repo :: pytext
  sg_tag :: pytext
  sg_glob :: "pytext option"
  sg_commit :: pytext
  sg_event :: string
  sg_author :: string
  sg_cross_family :: bool

record thresholds =
  min_recur :: int
  min_events :: int
  min_authors :: int
  repropose_mult :: int

record ready_report =
  rr_fp :: string
  rr_repo :: pytext
  rr_tag :: pytext
  rr_glob :: "pytext option"
  rr_declines :: nat
  rr_commits :: int
  rr_events :: int
  rr_authors :: int

definition admissible :: "(pytext \<Rightarrow> pytext) \<Rightarrow> sighting \<Rightarrow> bool" where
  "admissible lower g \<longleftrightarrow> sg_cross_family g \<and> is_allowed_tag lower (sg_tag g) \<and> slug lower (sg_tag g) \<noteq> None
     \<and> \<not> (case sg_glob g of None \<Rightarrow> False | Some p \<Rightarrow> prefix (codes ''skills/'') p)"

definition upsert_candidate :: "time \<Rightarrow> string \<Rightarrow> sighting \<Rightarrow> candidate_row list \<Rightarrow> candidate_row list" where
  "upsert_candidate now fp g T =
     (if get_row cc_fp fp T = None
      then T @ [\<lparr>cc_fp = fp, cc_repo = sg_repo g, cc_tag = sg_tag g, cc_glob = sg_glob g, cc_state = Cap_New,
                 cc_branch = None, cc_draft = None, cc_pr = None, cc_declines = 0, cc_first = now, cc_last = now,
                 cc_proposed_at = None\<rparr>]
      else upd_where (\<lambda>c. cc_fp c = fp)
             (\<lambda>c. c\<lparr>cc_last := now, cc_glob := (case sg_glob g of None \<Rightarrow> cc_glob c | Some p \<Rightarrow> Some p)\<rparr>) T)"

definition insert_occurrence :: "time \<Rightarrow> string \<Rightarrow> sighting \<Rightarrow> occurrence_row list \<Rightarrow> occurrence_row list" where
  "insert_occurrence now fp g U =
     (if get_row oc_key (fp, sg_commit g) U = None
      then U @ [\<lparr>oc_fp = fp, oc_commit = sg_commit g, oc_event = sg_event g, oc_author = sg_author g,
                 oc_glob = sg_glob g, oc_seen = now\<rparr>]
      else U)"

definition class_occs :: "string \<Rightarrow> occurrence_row list \<Rightarrow> occurrence_row list" where
  "class_occs fp U = filter (\<lambda>u. oc_fp u = fp) U"

definition commits_of :: "string \<Rightarrow> occurrence_row list \<Rightarrow> int" where
  "commits_of fp U = int (length (class_occs fp U))"

definition events_of :: "string \<Rightarrow> occurrence_row list \<Rightarrow> int" where
  "events_of fp U = int (length (remdups (map oc_event (class_occs fp U))))"

definition authors_of :: "string \<Rightarrow> occurrence_row list \<Rightarrow> int" where
  "authors_of fp U = int (length (remdups (map oc_author (class_occs fp U))))"

definition eff_recur :: "thresholds \<Rightarrow> candidate_row \<Rightarrow> int" where
  "eff_recur th c =
     (if cc_state c \<in> {Declined, Cap_Stale}
      then reready_threshold (int (cc_declines c)) (min_recur th) (repropose_mult th) else min_recur th)"

definition class_ready :: "thresholds \<Rightarrow> candidate_row \<Rightarrow> occurrence_row list \<Rightarrow> bool" where
  "class_ready th c U = recurrence_ready (commits_of (cc_fp c) U) (events_of (cc_fp c) U) (authors_of (cc_fp c) U)
     (eff_recur th c) (min_events th) (min_authors th)"

definition set_state :: "string \<Rightarrow> capture_state \<Rightarrow> candidate_row list \<Rightarrow> candidate_row list" where
  "set_state fp st T = upd_where (\<lambda>c. cc_fp c = fp) (\<lambda>c. c\<lparr>cc_state := st\<rparr>) T"

definition record_capture ::
  "(pytext \<Rightarrow> pytext) \<Rightarrow> (pytext \<Rightarrow> string) \<Rightarrow> thresholds \<Rightarrow> time \<Rightarrow> sighting \<Rightarrow> capture_store
     \<Rightarrow> capture_store \<times> ready_report option" where
  "record_capture lower sha th now g st =
     (if \<not> admissible lower g then (st, None)
      else
        (let fp = fingerprint sha (sg_repo g) (sg_tag g);
             T = upsert_candidate now fp g (cands st);
             U = insert_occurrence now fp g (occs st)
         in case get_row cc_fp fp T of
              None \<Rightarrow> (st, None)
            | Some c \<Rightarrow>
                if cc_state c \<in> {Cap_New, Accumulating, Declined, Cap_Stale} \<and> class_ready th c U
                then (\<lparr>cands = set_state fp Ready T, occs = U\<rparr>,
                      Some \<lparr>rr_fp = fp, rr_repo = sg_repo g, rr_tag = sg_tag g, rr_glob = cc_glob c,
                            rr_declines = cc_declines c, rr_commits = commits_of fp U,
                            rr_events = events_of fp U, rr_authors = authors_of fp U\<rparr>)
                else (\<lparr>cands = if cc_state c = Cap_New then set_state fp Accumulating T else T, occs = U\<rparr>, None)))"

section \<open>The proposal state machine\<close>

definition claim_for_proposing ::
  "time \<Rightarrow> string \<Rightarrow> pytext \<Rightarrow> string \<Rightarrow> candidate_row list \<Rightarrow> candidate_row list \<times> bool" where
  "claim_for_proposing now fp branch draft T =
     cas (\<lambda>c. cc_fp c = fp \<and> cc_state c = Ready)
       (\<lambda>c. c\<lparr>cc_branch := Some branch, cc_draft := Some draft, cc_state := Proposing, cc_proposed_at := Some now\<rparr>) T"

definition unclaim :: "candidate_row \<Rightarrow> candidate_row" where
  "unclaim c = c\<lparr>cc_state := Ready, cc_branch := None, cc_draft := None\<rparr>"

definition older_than :: "time \<Rightarrow> time option \<Rightarrow> bool" where
  "older_than cutoff t \<longleftrightarrow> (case t of None \<Rightarrow> False | Some u \<Rightarrow> u < cutoff)"

definition reap_stuck_proposing :: "time \<Rightarrow> int \<Rightarrow> candidate_row list \<Rightarrow> candidate_row list \<times> nat" where
  "reap_stuck_proposing now mins T =
     (let P = (\<lambda>c. cc_state c = Proposing \<and> older_than (now - mins * 60) (cc_proposed_at c))
      in (upd_where P unclaim T, count_where P T))"

definition holds_claim :: "string \<Rightarrow> pytext \<Rightarrow> string \<Rightarrow> candidate_row \<Rightarrow> bool" where
  "holds_claim fp branch draft c \<longleftrightarrow>
     cc_fp c = fp \<and> cc_state c = Proposing \<and> cc_branch c = Some branch \<and> cc_draft c = Some draft"

definition mark_capture_proposed ::
  "time \<Rightarrow> string \<Rightarrow> pytext \<Rightarrow> string \<Rightarrow> int \<Rightarrow> candidate_row list \<Rightarrow> candidate_row list \<times> bool" where
  "mark_capture_proposed now fp branch draft pr T =
     cas (holds_claim fp branch draft) (\<lambda>c. c\<lparr>cc_state := Proposed, cc_pr := Some pr, cc_proposed_at := Some now\<rparr>) T"

definition release_proposing ::
  "string \<Rightarrow> pytext \<Rightarrow> string \<Rightarrow> candidate_row list \<Rightarrow> candidate_row list \<times> bool" where
  "release_proposing fp branch draft T = cas (holds_claim fp branch draft) unclaim T"

text \<open>A declined or expired proposal: the proposal columns are cleared and the decline counted.\<close>

definition retire :: "capture_state \<Rightarrow> candidate_row \<Rightarrow> candidate_row" where
  "retire st c = c\<lparr>cc_state := st, cc_declines := cc_declines c + 1, cc_branch := None, cc_draft := None,
     cc_pr := None, cc_proposed_at := None\<rparr>"

definition resolve_capture ::
  "string \<Rightarrow> string \<Rightarrow> candidate_row list \<Rightarrow> (candidate_row list \<times> bool) option" where
  "resolve_capture fp outcome T =
     (let P = (\<lambda>c. cc_fp c = fp \<and> cc_state c = Proposed) in
      if outcome = ''promoted'' then Some (cas P (\<lambda>c. c\<lparr>cc_state := Promoted\<rparr>) T)
      else if outcome = ''declined'' then Some (cas P (retire Declined) T)
      else if outcome = ''stale'' then Some (cas P (retire Cap_Stale) T)
      else None)"

definition expire_stale_captures ::
  "time \<Rightarrow> int \<Rightarrow> candidate_row list \<Rightarrow> candidate_row list \<times> (string \<times> int option) list" where
  "expire_stale_captures now days T =
     (let P = (\<lambda>c. cc_state c = Proposed \<and> older_than (now - days * 86400) (cc_proposed_at c))
      in (upd_where P (retire Cap_Stale) T, map (\<lambda>c. (cc_fp c, cc_pr c)) (filter P T)))"

section \<open>Queries\<close>

definition list_proposed :: "candidate_row list \<Rightarrow> candidate_row list" where
  "list_proposed T = sort_key (\<lambda>c. case cc_proposed_at c of None \<Rightarrow> (False, 0) | Some t \<Rightarrow> (True, t))
     (filter (\<lambda>c. cc_state c = Proposed \<and> cc_pr c \<noteq> None) T)"

definition in_flight :: "candidate_row \<Rightarrow> bool" where
  "in_flight c \<longleftrightarrow> cc_state c = Proposing \<or> cc_state c = Proposed"

definition count_open_proposals :: "candidate_row list \<Rightarrow> nat" where
  "count_open_proposals T = count_where in_flight T"

definition list_inflight_fingerprints :: "candidate_row list \<Rightarrow> string set" where
  "list_inflight_fingerprints T = set (map cc_fp (filter in_flight T))"

definition list_ready_candidates :: "nat \<Rightarrow> string \<Rightarrow> candidate_row list \<Rightarrow> candidate_row list" where
  "list_ready_candidates limit after T =
     take limit (sort_key cc_fp (filter (\<lambda>c. cc_state c = Ready \<and> after < cc_fp c) T))"

definition capture_provenance :: "string \<Rightarrow> nat \<Rightarrow> occurrence_row list \<Rightarrow> pytext list" where
  "capture_provenance fp limit U =
     map oc_commit (take limit (sort_key (\<lambda>u. (- oc_seen u, oc_commit u))
       (filter (\<lambda>u. oc_fp u = fp \<and> hex_sha (oc_commit u)) U)))"

end
