(* ===== verification/Capture_Store_Props.thy ===== *)
theory Capture_Store_Props
  imports Capture_Store
begin

text \<open>
  Properties of the recurrence ledger: the invariant of the capture state machine over every
  sequence of verbs, the recurrence gate with its exponential floor after declines, and the
  exclusiveness and fencing of proposal claims.
\<close>

lemmas claim_defs = claim_for_proposing_def mark_capture_proposed_def release_proposing_def
  reap_stuck_proposing_def expire_stale_captures_def unclaim_def retire_def holds_claim_def

section \<open>The invariant\<close>

definition cand_ok :: "candidate_row \<Rightarrow> bool" where
  "cand_ok c \<longleftrightarrow> (cc_branch c \<noteq> None \<longleftrightarrow> cc_state c \<in> {Proposing, Proposed, Promoted})
     \<and> (cc_draft c \<noteq> None \<longleftrightarrow> cc_state c \<in> {Proposing, Proposed, Promoted})
     \<and> (cc_pr c \<noteq> None \<longleftrightarrow> cc_state c \<in> {Proposed, Promoted})
     \<and> (cc_state c \<in> {Proposing, Proposed, Promoted} \<longrightarrow> cc_proposed_at c \<noteq> None)
     \<and> (cc_proposed_at c \<noteq> None \<longrightarrow> cc_state c \<in> {Ready, Proposing, Proposed, Promoted})
     \<and> (cc_state c \<in> {Declined, Cap_Stale} \<longrightarrow> 0 < cc_declines c)
     \<and> cc_state c \<noteq> Cap_Error"

definition cap_ok :: "capture_store \<Rightarrow> bool" where
  "cap_ok st \<longleftrightarrow> distinct (map cc_fp (cands st)) \<and> list_all cand_ok (cands st)
     \<and> distinct (map oc_key (occs st)) \<and> oc_fp ` set (occs st) \<subseteq> cc_fp ` set (cands st)"

inductive cap_step :: "(pytext \<Rightarrow> pytext) \<Rightarrow> (pytext \<Rightarrow> string) \<Rightarrow> capture_store \<Rightarrow> capture_store \<Rightarrow> bool"
  for lower sha where
  do_record: "record_capture lower sha th now g st = (st', rep) \<Longrightarrow> cap_step lower sha st st'"
| do_claim: "claim_for_proposing now fp br dr (cands st) = (T, won) \<Longrightarrow> cap_step lower sha st (st\<lparr>cands := T\<rparr>)"
| do_reap: "reap_stuck_proposing now mins (cands st) = (T, n) \<Longrightarrow> cap_step lower sha st (st\<lparr>cands := T\<rparr>)"
| do_mark: "mark_capture_proposed now fp br dr pr (cands st) = (T, won) \<Longrightarrow> cap_step lower sha st (st\<lparr>cands := T\<rparr>)"
| do_release: "release_proposing fp br dr (cands st) = (T, won) \<Longrightarrow> cap_step lower sha st (st\<lparr>cands := T\<rparr>)"
| do_resolve: "resolve_capture fp out (cands st) = Some (T, won) \<Longrightarrow> cap_step lower sha st (st\<lparr>cands := T\<rparr>)"
| do_expire: "expire_stale_captures now days (cands st) = (T, rows) \<Longrightarrow> cap_step lower sha st (st\<lparr>cands := T\<rparr>)"

definition empty_capture :: capture_store where
  "empty_capture = \<lparr>cands = [], occs = []\<rparr>"

text \<open>Every verb but the recorder is one update of candidate rows that keeps their keys.\<close>

lemma cand_upd_ok:
  assumes "cap_ok st" "\<And>c. cand_ok c \<Longrightarrow> P c \<Longrightarrow> cand_ok (f c)" "\<And>c. cc_fp (f c) = cc_fp c"
  shows "cap_ok (st\<lparr>cands := upd_where P f (cands st)\<rparr>)"
proof -
  have "map cc_fp (upd_where P f (cands st)) = map cc_fp (cands st)" by (rule map_upd_where) (rule assms(3))
  then have "distinct (map cc_fp (upd_where P f (cands st)))" "cc_fp ` set (upd_where P f (cands st)) = cc_fp ` set (cands st)"
    using assms(1) by (simp add: cap_ok_def, metis list.set_map)
  moreover have "list_all cand_ok (upd_where P f (cands st))"
    unfolding list_all_iff
  proof
    fix x assume "x \<in> set (upd_where P f (cands st))"
    then obtain c where c: "c \<in> set (cands st)" "x = (if P c then f c else c)" by (auto simp: in_upd_where)
    then have "cand_ok c" using assms(1) by (auto simp: cap_ok_def list_all_iff)
    with c assms(2) show "cand_ok x" by (cases "P c") simp_all
  qed
  ultimately show ?thesis using assms(1) by (simp add: cap_ok_def)
qed

lemma upsert_candidate_ok:
  assumes "cap_ok st"
  shows "cap_ok (st\<lparr>cands := upsert_candidate now fp g (cands st)\<rparr>)"
proof (cases "get_row cc_fp fp (cands st) = None")
  case True
  then have "fp \<notin> cc_fp ` set (cands st)" by (auto simp: get_row_None)
  with True assms show ?thesis by (auto simp: upsert_candidate_def cap_ok_def cand_ok_def)
next
  case False
  show ?thesis unfolding upsert_candidate_def if_not_P [OF False]
    by (rule cand_upd_ok [OF assms]) (simp_all add: cand_ok_def)
qed

lemma upsert_candidate_row:
  "\<exists>c. get_row cc_fp fp (upsert_candidate now fp g T) = Some c
     \<and> (case get_row cc_fp fp T of None \<Rightarrow> cc_state c = Cap_New | Some d \<Rightarrow> cc_state c = cc_state d \<and> cc_declines c = cc_declines d)"
proof (cases "get_row cc_fp fp T")
  case None
  then show ?thesis by (simp add: upsert_candidate_def get_row_append) (simp add: get_row_def)
next
  case (Some d)
  with get_row_Some [OF Some] show ?thesis by (simp add: upsert_candidate_def get_row_upd_where)
qed

lemma insert_occurrence_ok:
  assumes "cap_ok st" "fp \<in> cc_fp ` set (cands st)"
  shows "cap_ok (st\<lparr>occs := insert_occurrence now fp g (occs st)\<rparr>)"
proof (cases "get_row oc_key (fp, sg_commit g) (occs st) = None")
  case True
  then have "(fp, sg_commit g) \<notin> oc_key ` set (occs st)" by (auto simp: get_row_None)
  with True assms show ?thesis by (auto simp: insert_occurrence_def cap_ok_def oc_key_def)
next
  case False
  show ?thesis unfolding insert_occurrence_def if_not_P [OF False] using assms(1) by simp
qed

lemma set_state_ok:
  assumes "cap_ok st" "get_row cc_fp fp (cands st) = Some c"
    and "cc_state c \<in> {Cap_New, Accumulating, Declined, Cap_Stale}" "s \<in> {Ready, Accumulating}"
  shows "cap_ok (st\<lparr>cands := set_state fp s (cands st)\<rparr>)"
proof -
  let ?P = "\<lambda>d. cc_fp d = fp \<and> cc_state d \<in> {Cap_New, Accumulating, Declined, Cap_Stale}"
  have "set_state fp s (cands st) = upd_where ?P (\<lambda>d. d\<lparr>cc_state := s\<rparr>) (cands st)"
    unfolding set_state_def
  proof (rule upd_where_cong)
    fix d assume d: "d \<in> set (cands st)"
    have "cc_fp d = fp \<Longrightarrow> d = c"
      using get_row_Some [OF assms(2)] assms(1) d by (auto simp: cap_ok_def intro: distinct_key_eq [of cc_fp])
    with assms(3) show "cc_fp d = fp \<longleftrightarrow> ?P d" by blast
  qed simp
  moreover have "cap_ok (st\<lparr>cands := upd_where ?P (\<lambda>d. d\<lparr>cc_state := s\<rparr>) (cands st)\<rparr>)"
  proof (rule cand_upd_ok [OF assms(1)])
    fix d assume "cand_ok d" "?P d"
    with assms(4) show "cand_ok (d\<lparr>cc_state := s\<rparr>)" by (cases "cc_state d") (auto simp: cand_ok_def)
  qed simp
  ultimately show ?thesis by simp
qed

text \<open>The recorder, taken apart: what it leaves when the sighting is admissible.\<close>

lemma record_capture_cases:
  assumes "record_capture lower sha th now g st = (st', rep)"
  obtains (refused) "\<not> admissible lower g" "st' = st" "rep = None"
  | (recorded) fp T U c s where "admissible lower g" "fp = fingerprint sha (sg_repo g) (sg_tag g)"
      "T = upsert_candidate now fp g (cands st)" "U = insert_occurrence now fp g (occs st)"
      "get_row cc_fp fp T = Some c"
      "rep \<noteq> None \<longleftrightarrow> cc_state c \<in> {Cap_New, Accumulating, Declined, Cap_Stale} \<and> class_ready th c U"
      "st' = \<lparr>cands = (if rep \<noteq> None then set_state fp Ready T
                        else if cc_state c = Cap_New then set_state fp Accumulating T else T), occs = U\<rparr>"
      "rep = Some s \<longrightarrow> rr_fp s = fp \<and> rr_commits s = commits_of fp U \<and> rr_events s = events_of fp U
         \<and> rr_authors s = authors_of fp U \<and> rr_declines s = cc_declines c"
proof (cases "admissible lower g")
  case False
  with assms refused show thesis by (simp add: record_capture_def)
next
  case True
  define fp where "fp = fingerprint sha (sg_repo g) (sg_tag g)"
  define T where "T = upsert_candidate now fp g (cands st)"
  define U where "U = insert_occurrence now fp g (occs st)"
  from upsert_candidate_row [of fp now g "cands st"] obtain c where c: "get_row cc_fp fp T = Some c"
    unfolding T_def by blast
  let ?r = "cc_state c \<in> {Cap_New, Accumulating, Declined, Cap_Stale} \<and> class_ready th c U"
  note E = assms [unfolded record_capture_def Let_def, folded fp_def, folded T_def U_def]
  show thesis
  proof (cases ?r)
    case r: True
    show thesis
      by (rule recorded [OF True fp_def T_def U_def c, of "the rep"])
        (use E [unfolded c option.case if_P [OF r]] True r in auto)
  next
    case r: False
    show thesis
      by (rule recorded [OF True fp_def T_def U_def c, of "the rep"])
        (use E [unfolded c option.case if_not_P [OF r]] True r in simp_all)
  qed
qed

lemma record_capture_ok:
  assumes "record_capture lower sha th now g st = (st', rep)" "cap_ok st"
  shows "cap_ok st'"
  using assms(1)
proof (cases rule: record_capture_cases)
  case refused
  with assms show ?thesis by simp
next
  case (recorded fp T U c s)
  have "cap_ok (st\<lparr>cands := T\<rparr>)" unfolding recorded(3) by (rule upsert_candidate_ok [OF assms(2)])
  moreover have "fp \<in> cc_fp ` set T" using get_row_Some [OF recorded(5)] by auto
  ultimately have ok: "cap_ok \<lparr>cands = T, occs = U\<rparr>"
    using insert_occurrence_ok [of "st\<lparr>cands := T\<rparr>" fp now g] unfolding recorded(4) by (cases st) simp
  show ?thesis
    using set_state_ok [OF ok, of fp c Ready] set_state_ok [OF ok, of fp c Accumulating] ok recorded(5,6,7)
    by (cases "rep = None"; cases "cc_state c = Cap_New") simp_all
qed

lemma cap_step_ok:
  assumes "cap_step lower sha st st'" "cap_ok st"
  shows "cap_ok st'"
  using assms
proof (cases rule: cap_step.cases)
  case (do_record th now g rep)
  then show ?thesis using record_capture_ok assms(2) by blast
next
  case (do_claim now fp br dr T won)
  have "cap_ok (st\<lparr>cands := upd_where (\<lambda>c. cc_fp c = fp \<and> cc_state c = Ready)
      (\<lambda>c. c\<lparr>cc_branch := Some br, cc_draft := Some dr, cc_state := Proposing, cc_proposed_at := Some now\<rparr>) (cands st)\<rparr>)"
    by (rule cand_upd_ok [OF assms(2)]) (auto simp: cand_ok_def)
  with do_claim show ?thesis by (simp add: claim_for_proposing_def cas_def)
next
  case (do_reap now mins T n)
  have "cap_ok (st\<lparr>cands := upd_where (\<lambda>c. cc_state c = Proposing \<and> older_than (now - mins * 60) (cc_proposed_at c)) unclaim (cands st)\<rparr>)"
    by (rule cand_upd_ok [OF assms(2)]) (auto simp: unclaim_def cand_ok_def)
  with do_reap show ?thesis by (simp add: reap_stuck_proposing_def Let_def)
next
  case (do_mark now fp br dr pr T won)
  have "cap_ok (st\<lparr>cands := upd_where (holds_claim fp br dr)
      (\<lambda>c. c\<lparr>cc_state := Proposed, cc_pr := Some pr, cc_proposed_at := Some now\<rparr>) (cands st)\<rparr>)"
    by (rule cand_upd_ok [OF assms(2)]) (auto simp: holds_claim_def cand_ok_def)
  with do_mark show ?thesis by (simp add: mark_capture_proposed_def cas_def)
next
  case (do_release fp br dr T won)
  have "cap_ok (st\<lparr>cands := upd_where (holds_claim fp br dr) unclaim (cands st)\<rparr>)"
    by (rule cand_upd_ok [OF assms(2)]) (auto simp: holds_claim_def unclaim_def cand_ok_def)
  with do_release show ?thesis by (simp add: release_proposing_def cas_def)
next
  case (do_resolve fp out T won)
  have r: "cap_ok (st\<lparr>cands := upd_where (\<lambda>c. cc_fp c = fp \<and> cc_state c = Proposed) (retire s) (cands st)\<rparr>)"
    if "s \<in> {Declined, Cap_Stale}" for s
    by (rule cand_upd_ok [OF assms(2)]) (use that in \<open>auto simp: retire_def cand_ok_def\<close>)
  have p: "cap_ok (st\<lparr>cands := upd_where (\<lambda>c. cc_fp c = fp \<and> cc_state c = Proposed) (\<lambda>c. c\<lparr>cc_state := Promoted\<rparr>) (cands st)\<rparr>)"
    by (rule cand_upd_ok [OF assms(2)]) (auto simp: cand_ok_def)
  from do_resolve r p show ?thesis by (auto simp: resolve_capture_def Let_def cas_def split: if_splits)
next
  case (do_expire now days T rows)
  have "cap_ok (st\<lparr>cands := upd_where (\<lambda>c. cc_state c = Proposed \<and> older_than (now - days * 86400) (cc_proposed_at c)) (retire Cap_Stale) (cands st)\<rparr>)"
    by (rule cand_upd_ok [OF assms(2)]) (auto simp: retire_def cand_ok_def)
  with do_expire show ?thesis by (simp add: expire_stale_captures_def Let_def)
qed

interpretation capture: invariant_system "cap_step lower sha" cap_ok
  by unfold_locales (rule cap_step_ok)

lemma reachable_capture: "reach (cap_step lower sha) empty_capture st \<Longrightarrow> cap_ok st"
  by (erule capture.reach_inv) (simp add: cap_ok_def empty_capture_def)

section \<open>Updates of one class\<close>

lemma cap_row_unique:
  "cap_ok st \<Longrightarrow> c \<in> set (cands st) \<Longrightarrow> d \<in> set (cands st) \<Longrightarrow> cc_fp c = cc_fp d \<Longrightarrow> c = d"
  by (rule distinct_key_eq [of cc_fp "cands st"]) (auto simp: cap_ok_def)

lemma class_cas:
  assumes "distinct (map cc_fp T)" "cas (\<lambda>c. cc_fp c = fp \<and> G c) f T = (T', True)" "\<And>c. cc_fp (f c) = cc_fp c"
  obtains c where "get_row cc_fp fp T = Some c" "G c" "get_row cc_fp fp T' = Some (f c)" "distinct (map cc_fp T')"
proof -
  from assms(2) have T': "T' = upd_where (\<lambda>c. cc_fp c = fp \<and> G c) f T" and "list_ex (\<lambda>c. cc_fp c = fp \<and> G c) T"
    by (auto simp: cas_def)
  then obtain c where c: "c \<in> set T" "cc_fp c = fp" "G c" by (auto simp: list_ex_iff)
  then have g: "get_row cc_fp fp T = Some c" using assms(1) by (simp add: get_row_iff)
  show thesis
  proof (rule that [OF g c(3)])
    show "get_row cc_fp fp T' = Some (f c)" unfolding T' using g c assms(3) by (simp add: get_row_upd_where)
    show "distinct (map cc_fp T')" unfolding T' by (rule keyed_upd [OF assms(1)]) (rule assms(3))
  qed
qed

lemma class_cas_lost:
  assumes "distinct (map cc_fp T)" "get_row cc_fp fp T = Some c" "\<not> P c" "\<And>d. P d \<Longrightarrow> cc_fp d = fp"
  shows "cas P f T = (T, False)"
proof -
  have "\<not> P d" if "d \<in> set T" for d
  proof
    assume "P d"
    with that assms(1,4) have "get_row cc_fp fp T = Some d" by (simp add: get_row_iff)
    with assms(2,3) \<open>P d\<close> show False by simp
  qed
  then show ?thesis by (simp add: cas_def upd_where_id list_ex_iff)
qed

lemmas claim_cas = class_cas [where G = "\<lambda>c. cc_state c = Ready", folded claim_for_proposing_def]

lemma reap_row:
  assumes "get_row cc_fp fp T = Some c"
  shows "get_row cc_fp fp (fst (reap_stuck_proposing now mins T))
    = Some (if cc_state c = Proposing \<and> older_than (now - mins * 60) (cc_proposed_at c) then unclaim c else c)"
  using assms by (simp add: reap_stuck_proposing_def Let_def get_row_upd_where unclaim_def)

lemma reap_distinct: "distinct (map cc_fp T) \<Longrightarrow> distinct (map cc_fp (fst (reap_stuck_proposing now mins T)))"
  by (simp add: reap_stuck_proposing_def Let_def keyed_upd unclaim_def)

section \<open>Terminal states\<close>

definition promoted_as :: "string \<Rightarrow> int option \<Rightarrow> capture_store \<Rightarrow> bool" where
  "promoted_as fp pr st \<longleftrightarrow> (\<exists>c. get_row cc_fp fp (cands st) = Some c \<and> cc_state c = Promoted \<and> cc_pr c = pr)"

lemma promoted_upd:
  assumes "promoted_as fp pr st" "\<And>c. P c \<Longrightarrow> cc_state c \<noteq> Promoted" "\<And>c. cc_fp (f c) = cc_fp c"
  shows "promoted_as fp pr (st\<lparr>cands := upd_where P f (cands st)\<rparr>)"
proof -
  from assms(1) obtain c where c: "get_row cc_fp fp (cands st) = Some c" "cc_state c = Promoted" "cc_pr c = pr"
    by (auto simp: promoted_as_def)
  with assms(2) have "\<not> P c" by blast
  with c assms(3) show ?thesis by (simp add: promoted_as_def get_row_upd_where)
qed

lemma get_row_upd_other:
  assumes "fp \<noteq> fp'" "\<And>c. cc_fp (f c) = cc_fp c"
  shows "get_row cc_fp fp (upd_where (\<lambda>c. cc_fp c = fp') f T) = get_row cc_fp fp T"
  using assms get_row_Some [of cc_fp fp T] by (cases "get_row cc_fp fp T") (auto simp: get_row_upd_where)

lemma get_row_upsert_other:
  assumes "fp \<noteq> fp'"
  shows "get_row cc_fp fp (upsert_candidate now fp' g T) = get_row cc_fp fp T"
proof (cases "get_row cc_fp fp' T = None")
  case True
  with assms show ?thesis
    by (simp add: upsert_candidate_def get_row_append split: option.split) (simp add: get_row_def)
next
  case False
  show ?thesis unfolding upsert_candidate_def if_not_P [OF False] by (rule get_row_upd_other [OF assms]) simp
qed

lemma get_row_set_state_other: "fp \<noteq> fp' \<Longrightarrow> get_row cc_fp fp (set_state fp' s T) = get_row cc_fp fp T"
  unfolding set_state_def by (rule get_row_upd_other) simp_all

lemma upsert_promoted:
  assumes "get_row cc_fp fp T = Some d"
  shows "get_row cc_fp fp (upsert_candidate now fp g T)
    = Some (d\<lparr>cc_last := now, cc_glob := case sg_glob g of None \<Rightarrow> cc_glob d | Some p \<Rightarrow> Some p\<rparr>)"
  using assms get_row_Some [OF assms] by (simp add: upsert_candidate_def get_row_upd_where)

lemma promoted_record:
  assumes "record_capture lower sha th now g st = (st', rep)" "promoted_as fp pr st"
  shows "promoted_as fp pr st'"
  using assms(1)
proof (cases rule: record_capture_cases)
  case refused
  with assms(2) show ?thesis by simp
next
  case (recorded fp' T U c s)
  from assms(2) obtain d where d: "get_row cc_fp fp (cands st) = Some d" "cc_state d = Promoted" "cc_pr d = pr"
    by (auto simp: promoted_as_def)
  show ?thesis
  proof (cases "fp = fp'")
    case True
    with recorded(3,5) upsert_promoted [OF d(1), of now g]
    have c: "c = d\<lparr>cc_last := now, cc_glob := case sg_glob g of None \<Rightarrow> cc_glob d | Some p \<Rightarrow> Some p\<rparr>" by simp
    with d(2) have "rep = None" using recorded(6) by simp
    with recorded(7) c d have "cands st' = T" by simp
    with True recorded(5) c d show ?thesis by (simp add: promoted_as_def)
  next
    case False
    with recorded(3,7) d show ?thesis
      by (simp add: promoted_as_def get_row_set_state_other get_row_upsert_other)
  qed
qed

lemma promoted_step:
  assumes "cap_step lower sha st st'" "promoted_as fp pr st"
  shows "promoted_as fp pr st'"
  using assms(1)
proof (cases rule: cap_step.cases)
  case (do_record th now g rep)
  then show ?thesis using promoted_record assms(2) by blast
next
  case (do_claim now fp' br dr T won)
  have "promoted_as fp pr (st\<lparr>cands := fst (claim_for_proposing now fp' br dr (cands st))\<rparr>)"
    unfolding claim_for_proposing_def cas_fst by (rule promoted_upd [OF assms(2)]) auto
  with do_claim show ?thesis by simp
next
  case (do_reap now mins T n)
  have "promoted_as fp pr (st\<lparr>cands := fst (reap_stuck_proposing now mins (cands st))\<rparr>)"
    unfolding reap_stuck_proposing_def Let_def fst_conv by (rule promoted_upd [OF assms(2)]) (auto simp: unclaim_def)
  with do_reap show ?thesis by simp
next
  case (do_mark now fp' br dr no T won)
  have "promoted_as fp pr (st\<lparr>cands := fst (mark_capture_proposed now fp' br dr no (cands st))\<rparr>)"
    unfolding mark_capture_proposed_def cas_fst by (rule promoted_upd [OF assms(2)]) (auto simp: holds_claim_def)
  with do_mark show ?thesis by simp
next
  case (do_release fp' br dr T won)
  have "promoted_as fp pr (st\<lparr>cands := fst (release_proposing fp' br dr (cands st))\<rparr>)"
    unfolding release_proposing_def cas_fst by (rule promoted_upd [OF assms(2)]) (auto simp: holds_claim_def unclaim_def)
  with do_release show ?thesis by simp
next
  case (do_resolve fp' out T won)
  let ?P = "\<lambda>c. cc_fp c = fp' \<and> cc_state c = Proposed"
  have "promoted_as fp pr (st\<lparr>cands := upd_where ?P f (cands st)\<rparr>)" if "\<And>c. cc_fp (f c) = cc_fp c" for f
    by (rule promoted_upd [OF assms(2) _ that]) auto
  from this [of "retire Declined"] this [of "retire Cap_Stale"] this [of "\<lambda>c. c\<lparr>cc_state := Promoted\<rparr>"] do_resolve
  show ?thesis by (auto simp: resolve_capture_def Let_def cas_def retire_def split: if_splits)
next
  case (do_expire now days T rows)
  have "promoted_as fp pr (st\<lparr>cands := fst (expire_stale_captures now days (cands st))\<rparr>)"
    unfolding expire_stale_captures_def Let_def fst_conv by (rule promoted_upd [OF assms(2)]) (auto simp: retire_def)
  with do_expire show ?thesis by simp
qed

interpretation promoted: invariant_system "cap_step lower sha" "promoted_as fp pr"
  by unfold_locales (rule promoted_step)

lemma claim_row:
  assumes "distinct (map cc_fp T)" "claim_for_proposing now fp br dr T = (T', True)"
  shows "\<exists>c. get_row cc_fp fp T = Some c \<and> cc_state c = Ready \<and> distinct (map cc_fp T')
    \<and> get_row cc_fp fp T' = Some (c\<lparr>cc_branch := Some br, cc_draft := Some dr, cc_state := Proposing, cc_proposed_at := Some now\<rparr>)"
  by (rule class_cas [OF assms(1) assms(2) [unfolded claim_for_proposing_def]]) auto

section \<open>Theorems\<close>

text \<open>
  C15. The capture ledger is consistent in every reachable store: one row per class and one occurrence
  per class and commit; a branch and a draft are pinned exactly while a proposal is being made, open or
  merged, and a pull request is recorded exactly while one is open or merged. The time of a proposal is
  there in those three states, may be left over in the ready state by a claim that was reaped or
  released, and is there in no other state. A class that was declined or expired has its decline counted.
\<close>

theorem capture_store_consistent:
  assumes "reach (cap_step lower sha) empty_capture st" "c \<in> set (cands st)"
  shows "get_row cc_fp (cc_fp c) (cands st) = Some c \<and> distinct (map oc_key (occs st))
    \<and> (cc_branch c \<noteq> None \<longleftrightarrow> cc_state c \<in> {Proposing, Proposed, Promoted})
    \<and> (cc_draft c \<noteq> None \<longleftrightarrow> cc_state c \<in> {Proposing, Proposed, Promoted})
    \<and> (cc_pr c \<noteq> None \<longleftrightarrow> cc_state c \<in> {Proposed, Promoted})
    \<and> (cc_state c \<in> {Proposing, Proposed, Promoted} \<longrightarrow> cc_proposed_at c \<noteq> None)
    \<and> (cc_proposed_at c \<noteq> None \<longrightarrow> cc_state c \<in> {Ready, Proposing, Proposed, Promoted})
    \<and> (cc_state c \<in> {Declined, Cap_Stale} \<longrightarrow> 0 < cc_declines c)"
proof -
  have ok: "cap_ok st" by (rule reachable_capture [OF assms(1)])
  then have "cand_ok c" using assms(2) by (simp add: cap_ok_def list_all_iff)
  moreover have "get_row cc_fp (cc_fp c) (cands st) = Some c" using ok assms(2) by (simp add: cap_ok_def get_row_iff)
  ultimately show ?thesis using ok unfolding cap_ok_def cand_ok_def by blast
qed

text \<open>
  C14. A class is proposed only on independent recurrence: when recording a sighting makes a class
  ready, it was not already in flight or settled, the distinct commits recorded for it reach the floor
  (multiplied by the repropose factor once per earlier decline), so do the distinct events and the
  distinct authors, and the class is now in the ready state.
\<close>

theorem capture_gate:
  assumes "reach (cap_step lower sha) empty_capture st" "record_capture lower sha th now g st = (st', Some s)"
  shows "\<exists>c. get_row cc_fp (rr_fp s) (cands st') = Some c \<and> cc_state c = Ready
    \<and> int (card (oc_commit ` set (class_occs (rr_fp s) (occs st')))) \<ge> min_recur th
        * (if \<exists>d \<in> set (cands st). cc_fp d = rr_fp s \<and> cc_state d \<in> {Declined, Cap_Stale}
           then repropose_mult th ^ cc_declines c else 1)
    \<and> int (card (oc_event ` set (class_occs (rr_fp s) (occs st')))) \<ge> min_events th
    \<and> int (card (oc_author ` set (class_occs (rr_fp s) (occs st')))) \<ge> min_authors th
    \<and> \<not> (\<exists>d \<in> set (cands st). cc_fp d = rr_fp s \<and> cc_state d \<in> {Ready, Proposing, Proposed, Promoted})"
  using assms(2)
proof (cases rule: record_capture_cases)
  case (recorded fp T U c s')
  have ok: "cap_ok st" "cap_ok st'"
    using reachable_capture [OF assms(1)] record_capture_ok [OF assms(2)] by blast+
  have fp: "rr_fp s = fp" and st': "cands st' = set_state fp Ready T" "occs st' = U"
    and ready: "cc_state c \<in> {Cap_New, Accumulating, Declined, Cap_Stale}" "class_ready th c U"
    using assms(2) recorded unfolding record_capture_def Let_def by (auto split: if_splits)
  have dc: "length (class_occs fp U) = card (oc_commit ` set (class_occs fp U))"
  proof -
    have "distinct (map oc_key (class_occs fp U))"
      using ok(2) st' by (auto simp: cap_ok_def class_occs_def distinct_map_filter)
    moreover have "map oc_key (class_occs fp U) = map (Pair fp) (map oc_commit (class_occs fp U))"
      by (simp add: class_occs_def oc_key_def)
    ultimately have "distinct (map oc_commit (class_occs fp U))" by (metis distinct_map)
    then show ?thesis by (metis distinct_card length_map list.set_map)
  qed
  have rc: "card (f ` set (class_occs fp U)) = length (remdups (map f (class_occs fp U)))" for f :: "occurrence_row \<Rightarrow> string"
    by (metis length_remdups_card_conv list.set_map)
  have cfp: "cc_fp c = fp" using get_row_Some [OF recorded(5)] by blast
  have row: "get_row cc_fp fp (cands st') = Some (c\<lparr>cc_state := Ready\<rparr>)"
    unfolding st' set_state_def using recorded(5) cfp by (simp add: get_row_upd_where)
  have prev: "cc_state d = cc_state c \<and> cc_declines d = cc_declines c" if "d \<in> set (cands st)" "cc_fp d = fp" for d
  proof -
    have "get_row cc_fp fp (cands st) = Some d" using that ok(1) by (simp add: cap_ok_def get_row_iff)
    with upsert_candidate_row [of fp now g "cands st"] recorded(3,5) show ?thesis by auto
  qed
  have fresh: "cc_state c = Cap_New" if "\<forall>d \<in> set (cands st). cc_fp d \<noteq> fp"
    using that upsert_candidate_row [of fp now g "cands st"] recorded(3,5) by (auto simp: get_row_None [THEN iffD2])
  have many: "int (length (class_occs fp U)) \<ge> min_recur th
      * (if \<exists>d \<in> set (cands st). cc_fp d = fp \<and> cc_state d \<in> {Declined, Cap_Stale}
         then repropose_mult th ^ cc_declines c else 1)"
    using ready(2) cfp prev fresh
    by (auto simp: class_ready_def recurrence_ready_def eff_recur_def commits_of_def reready_threshold_def split: if_splits)
  have idle: "\<not> (\<exists>d \<in> set (cands st). cc_fp d = fp \<and> cc_state d \<in> {Ready, Proposing, Proposed, Promoted})"
    using prev ready(1) by fastforce
  have events: "int (length (remdups (map oc_event (class_occs fp U)))) \<ge> min_events th"
    "int (length (remdups (map oc_author (class_occs fp U)))) \<ge> min_authors th"
    using ready(2) cfp by (simp_all add: class_ready_def recurrence_ready_def events_of_def authors_of_def)
  show ?thesis
    using row many idle events unfolding fp st'(2) dc [symmetric] rc by (intro exI [of _ "c\<lparr>cc_state := Ready\<rparr>"]) (simp split del: if_split cong: if_cong)
qed simp

lemma reaped_row:
  assumes "get_row cc_fp fp T = Some c" "cc_state c = Proposing" "cc_proposed_at c = Some t"
  shows "get_row cc_fp fp (fst (reap_stuck_proposing now mins T)) = Some (if t < now - mins * 60 then unclaim c else c)"
  using assms get_row_Some [OF assms(1)]
  by (simp add: reap_stuck_proposing_def Let_def get_row_upd_where unclaim_def older_than_def)

lemma claim_wins_iff:
  assumes "distinct (map cc_fp T)" "get_row cc_fp fp T = Some c"
  shows "snd (claim_for_proposing now fp br dr T) \<longleftrightarrow> cc_state c = Ready"
proof -
  have "d = c" if "d \<in> set T" "cc_fp d = fp" for d
    using that assms get_row_Some [OF assms(2)] by (metis distinct_key_eq)
  with get_row_Some [OF assms(2)] show ?thesis by (auto simp: claim_for_proposing_def cas_won)
qed

text \<open>
  C16. A proposal claim is exclusive and fenced. Once a class is claimed, every further claim of it loses and
  changes nothing, whatever branch and draft it names, the same ones included; after a pass of the reaper
  a claim wins exactly if the first claim is older than the timeout. When the class was reaped and claimed
  again under another branch or draft, the first claimant can neither record its pull request nor
  release the new claim, and the new claimant can record its own.
\<close>

theorem proposal_claim_fenced:
  assumes "reach (cap_step lower sha) empty_capture st"
    and "claim_for_proposing t0 fp br dr (cands st) = (T1, True)"
  shows "claim_for_proposing t fp br1 dr1 T1 = (T1, False)
    \<and> (snd (claim_for_proposing t fp br1 dr1 (fst (reap_stuck_proposing now mins T1))) \<longleftrightarrow> t0 < now - mins * 60)
    \<and> (claim_for_proposing t1 fp br' dr' (fst (reap_stuck_proposing now mins T1)) = (T2, True) \<and> (br', dr') \<noteq> (br, dr) \<longrightarrow>
         mark_capture_proposed t fp br dr pr T2 = (T2, False) \<and> release_proposing fp br dr T2 = (T2, False)
         \<and> snd (mark_capture_proposed t fp br' dr' pr T2))"
proof (intro conjI impI)
  have "distinct (map cc_fp (cands st))" using reachable_capture [OF assms(1)] by (simp add: cap_ok_def)
  from claim_row [OF this assms(2)] obtain c where d1: "distinct (map cc_fp T1)"
    and c: "get_row cc_fp fp T1 = Some c" "cc_state c = Proposing" "cc_proposed_at c = Some t0" by auto
  show "claim_for_proposing t fp br1 dr1 T1 = (T1, False)"
    unfolding claim_for_proposing_def by (rule class_cas_lost [OF d1 c(1)]) (simp_all add: c(2))
  show "snd (claim_for_proposing t fp br1 dr1 (fst (reap_stuck_proposing now mins T1))) \<longleftrightarrow> t0 < now - mins * 60"
    using claim_wins_iff [OF reap_distinct [OF d1] reaped_row [OF c]] c(2) by (simp add: unclaim_def)
  assume again: "claim_for_proposing t1 fp br' dr' (fst (reap_stuck_proposing now mins T1)) = (T2, True) \<and> (br', dr') \<noteq> (br, dr)"
  from claim_row [OF reap_distinct [OF d1] conjunct1 [OF this]] obtain d where d2: "distinct (map cc_fp T2)"
    and d: "get_row cc_fp fp T2 = Some d" "holds_claim fp br' dr' d" by (auto simp: holds_claim_def dest: get_row_Some)
  have "\<not> holds_claim fp br dr d" using d again by (auto simp: holds_claim_def)
  then have lost: "cas (holds_claim fp br dr) f T2 = (T2, False)" for f
    by (rule class_cas_lost [OF d2 d(1)]) (simp add: holds_claim_def)
  show "mark_capture_proposed t fp br dr pr T2 = (T2, False)" "release_proposing fp br dr T2 = (T2, False)"
    by (simp_all add: mark_capture_proposed_def release_proposing_def lost)
  show "snd (mark_capture_proposed t fp br' dr' pr T2)"
    using d get_row_Some [OF d(1)] by (auto simp: mark_capture_proposed_def cas_won)
qed

text \<open>
  The fence is only as distinct as the claim identity: branch and draft are functions of the class and
  its evidence, so when the class is claimed again with the same draft after a reap, the first
  claimant's late release takes the second claim away.
\<close>

theorem equal_claim_not_fenced:
  assumes "reach (cap_step lower sha) empty_capture st"
    and "claim_for_proposing t0 fp br dr (cands st) = (T1, True)"
    and "claim_for_proposing t1 fp br dr (fst (reap_stuck_proposing now mins T1)) = (T2, True)"
  shows "snd (release_proposing fp br dr T2)"
proof -
  have "distinct (map cc_fp (cands st))" using reachable_capture [OF assms(1)] by (simp add: cap_ok_def)
  from claim_row [OF this assms(2)] have d1: "distinct (map cc_fp T1)" by blast
  from claim_row [OF reap_distinct [OF d1] assms(3)] obtain d where "get_row cc_fp fp T2 = Some d" "holds_claim fp br dr d"
    by (auto simp: holds_claim_def dest: get_row_Some)
  then show ?thesis by (auto simp: release_proposing_def cas_won dest: get_row_Some)
qed

text \<open>
  A merged proposal is final: once a class is promoted, every later sequence of verbs leaves it
  promoted with the same pull request.
\<close>

theorem promoted_is_final:
  assumes "reach (cap_step lower sha) st st'" "get_row cc_fp fp (cands st) = Some c" "cc_state c = Promoted"
  shows "\<exists>d. get_row cc_fp fp (cands st') = Some d \<and> cc_state d = Promoted \<and> cc_pr d = cc_pr c"
  using promoted.reach_inv [OF assms(1), of fp "cc_pr c"] assms(2,3) by (auto simp: promoted_as_def)

lemma sort_key_split:
  assumes "distinct (map f T)" "take n (sort_key f T) = page" "page \<noteq> []"
  shows "sort_key f T = page @ sort_key f (filter (\<lambda>c. f (last page) < f c) T)"
proof -
  let ?S = "sort_key f T"
  have d: "distinct (map f ?S)" using assms(1) by (metis distinct_map distinct_sort inj_on_def set_sort)
  have st: "sorted (map f ?S)" by simp
  have split: "?S = page @ drop n ?S" using assms(2) by (metis append_take_drop_id)
  have lt: "f x \<le> f (last page)" if "x \<in> set page" for x
  proof -
    have "sorted (map f page)" using st split by (metis map_append sorted_append)
    moreover have "page = butlast page @ [last page]" using assms(3) by simp
    ultimately have "\<forall>y \<in> set (butlast page). f y \<le> f (last page)" by (metis (no_types, lifting) image_eqI list.set_intros(1) list.set_map map_append list.simps(9) sorted_append)
    with that show ?thesis by (cases page rule: rev_cases) auto
  qed
  have gt: "f (last page) < f x" if "x \<in> set (drop n ?S)" for x
  proof -
    have "f (last page) \<le> f x" using st split that assms(3) by (metis (no_types, lifting) image_eqI last_in_set list.set_map map_append sorted_append)
    moreover have "f (last page) \<noteq> f x"
      using d split that assms(3) by (metis (no_types, lifting) disjoint_iff distinct_append image_eqI last_in_set list.set_map map_append)
    ultimately show ?thesis by simp
  qed
  have "filter (\<lambda>c. f (last page) < f c) ?S = drop n ?S"
    by (subst split) (use lt gt in \<open>auto simp: filter_empty_conv not_less\<close>)
  moreover have "sort_key f (filter (\<lambda>c. f (last page) < f c) T) = filter (\<lambda>c. f (last page) < f c) ?S"
    by (simp add: filter_sort)
  ultimately show ?thesis using split by simp
qed

text \<open>
  The rotating cursor skips nothing: all ready classes behind a cursor, in order, are the page read
  there followed by all ready classes behind the last class of that page.
\<close>

theorem ready_scan_no_skip:
  assumes "reach (cap_step lower sha) empty_capture st" "list_ready_candidates n after (cands st) = page" "page \<noteq> []"
  shows "list_ready_candidates (length (cands st)) after (cands st)
    = page @ list_ready_candidates (length (cands st)) (cc_fp (last page)) (cands st)"
proof -
  let ?F = "filter (\<lambda>c. cc_state c = Ready \<and> after < cc_fp c) (cands st)"
  have d: "distinct (map cc_fp ?F)" using reachable_capture [OF assms(1)] by (auto simp: cap_ok_def distinct_map_filter)
  have pg: "take n (sort_key cc_fp ?F) = page" using assms(2) by (simp add: list_ready_candidates_def)
  have "last page \<in> set ?F" using pg assms(3) by (metis in_set_takeD last_in_set set_sort)
  then have l: "after < cc_fp (last page)" by simp
  have all: "list_ready_candidates (length (cands st)) a (cands st) = sort_key cc_fp (filter (\<lambda>c. cc_state c = Ready \<and> a < cc_fp c) (cands st))" for a
    by (simp add: list_ready_candidates_def)
  have "filter (\<lambda>c. cc_fp (last page) < cc_fp c) ?F = filter (\<lambda>c. cc_state c = Ready \<and> cc_fp (last page) < cc_fp c) (cands st)"
    using l by (auto intro!: filter_cong)
  then show ?thesis unfolding all using sort_key_split [OF d pg assms(3)] by simp
qed

end
