(* ===== verification/Capture_Examples.thy ===== *)
theory Capture_Examples
  imports Capture_Props Capture_Store_Props
begin

text \<open>
  Concrete runs of auto-capture: each instantiates a theorem of \<^verbatim>\<open>Capture_Props\<close> or
  \<^verbatim>\<open>Capture_Store_Props\<close> at an input where its hypotheses hold. Lower-casing is the ASCII one, no
  tripwire pattern fires and every class has the digest \<open>''f''\<close>.
\<close>

theorem candidate_glob_fires_witness:
  "seg_match (codes ''src/app/*.py'') (codes ''src/app/main.py'') \<and> \<not> is_banned_trigger (codes ''src/app/*.py'')"
  by (rule candidate_glob_fires)
    (simp_all add: candidate_glob_def path_to_glob_def extension_def strip_char_def raw_ctrl_def wild_def text_eval Let_def)

theorem proposal_path_isolated_witness:
  "[skill_path (codes ''fail-open'')] = [skill_path (codes ''fail-open'')]
   \<and> segs (skill_path (codes ''fail-open'')) = [codes ''skills'', codes ''fail-open'', codes ''SKILL.md'']
   \<and> tag_form (codes ''fail-open'') \<and> codes ''fail-open'' \<notin> set reserved_names"
proof (rule proposal_path_isolated [OF lower_law_ascii_map])
  have "slug (map ascii_lower) (codes ''fail-open'') = Some (codes ''fail-open'')"
    by (simp add: slug_def tag_re_def tag_form_def reserved_names_def name_char_def is_ascii_def ascii_lower_def drop_final_newline_def text_eval Let_def)
  then show "assert_only_skill_path (map ascii_lower) [skill_path (codes ''fail-open'')] (codes ''fail-open'')"
    by (simp add: assert_only_skill_path_def skill_path_def text_eval)
qed

definition ex_fields :: draft_fields where
  "ex_fields = \<lparr>df_wrong = codes ''gate defaults open'', df_preferred = codes ''deny by default'', df_ids = [codes ''abcdef1''],
     df_origin = codes ''r''\<rparr>"

definition ex_draft :: "pytext option" where
  "ex_draft = render_skill_md (map ascii_lower) (\<lambda>_ _. False) (codes ''fail-open'') (codes ''fail-open'') (codes ''src/*.py'') ex_fields"

lemma ex_draft_some: "\<exists>raw. ex_draft = Some raw"
  unfolding ex_draft_def render_skill_md_def
  by (simp add: ex_fields_def slug_def is_allowed_tag_def RULE_TAG_TAXONOMY_def tag_re_def tag_form_def reserved_names_def is_ascii_def ascii_lower_def
      drop_final_newline_def sanitize_field_def sub_ctrl_def raw_ctrl_def ws_char_def or_else_def draft_raw_def draft_body_def
      stub_line_def lint_skill_def parse_skill_md_def text_eval Let_def)

theorem render_round_trip_witness:
  "\<exists>raw d. ex_draft = Some raw \<and> lint_skill (map ascii_lower) (\<lambda>_ _. False) (codes ''fail-open'') raw = Inr d
     \<and> sd_name d = codes ''fail-open'' \<and> sd_trigger d = codes ''src/*.py''"
proof -
  from ex_draft_some obtain raw where raw: "ex_draft = Some raw" by blast
  have "unquote (strip (codes ''src/*.py'')) = codes ''src/*.py''" by (rule trigger_kept) (simp_all add: codes_def is_space_def)
  with render_round_trip [OF lower_law_ascii_map] raw show ?thesis unfolding ex_draft_def by fastforce
qed

section \<open>The store\<close>

abbreviation ex_sha :: "pytext \<Rightarrow> string" where "ex_sha \<equiv> (\<lambda>_. ''f'')"

definition ex_sighting :: sighting where
  "ex_sighting = \<lparr>sg_repo = codes ''r'', sg_tag = codes ''fail-open'', sg_glob = None, sg_commit = codes ''abcdef1'',
     sg_event = ''e'', sg_author = ''a'', sg_cross_family = True\<rparr>"

definition ex_thresholds :: thresholds where
  "ex_thresholds = \<lparr>min_recur = 1, min_events = 1, min_authors = 1, repropose_mult = 2\<rparr>"

definition ex_ready :: candidate_row where
  "ex_ready = \<lparr>cc_fp = ''f'', cc_repo = codes ''r'', cc_tag = codes ''fail-open'', cc_glob = None, cc_state = Ready,
     cc_branch = None, cc_draft = None, cc_pr = None, cc_declines = 0, cc_first = 0, cc_last = 0, cc_proposed_at = None\<rparr>"

definition ex_store :: capture_store where
  "ex_store = \<lparr>cands = [ex_ready], occs = [\<lparr>oc_fp = ''f'', oc_commit = codes ''abcdef1'', oc_event = ''e'', oc_author = ''a'',
     oc_glob = None, oc_seen = 0\<rparr>]\<rparr>"

definition ex_report :: ready_report where
  "ex_report = \<lparr>rr_fp = ''f'', rr_repo = codes ''r'', rr_tag = codes ''fail-open'', rr_glob = None, rr_declines = 0,
     rr_commits = 1, rr_events = 1, rr_authors = 1\<rparr>"

lemma ex_admissible: "admissible (map ascii_lower) ex_sighting"
  by (simp add: admissible_def ex_sighting_def is_allowed_tag_def slug_def RULE_TAG_TAXONOMY_def tag_re_def tag_form_def
      reserved_names_def is_ascii_def ascii_lower_def text_eval Let_def)

lemma ex_record: "record_capture (map ascii_lower) ex_sha ex_thresholds 0 ex_sighting empty_capture = (ex_store, Some ex_report)"
  unfolding record_capture_def
  by (simp add: ex_admissible Let_def)
    (simp add: ex_sighting_def empty_capture_def fingerprint_def upsert_candidate_def insert_occurrence_def get_row_def
      class_ready_def commits_of_def events_of_def authors_of_def class_occs_def eff_recur_def ex_thresholds_def
      recurrence_ready_def set_state_def ex_store_def ex_ready_def ex_report_def)

lemma ex_reachable: "reach (cap_step (map ascii_lower) ex_sha) empty_capture ex_store"
  by (rule reach_step [OF reach_refl]) (rule do_record [OF ex_record])

theorem capture_store_consistent_witness:
  "get_row cc_fp ''f'' (cands ex_store) = Some ex_ready \<and> distinct (map oc_key (occs ex_store)) \<and> cc_branch ex_ready = None"
  using capture_store_consistent [OF ex_reachable, of ex_ready] by (simp add: ex_store_def) (simp add: ex_ready_def)

theorem capture_gate_witness:
  "\<exists>c. get_row cc_fp ''f'' (cands ex_store) = Some c \<and> cc_state c = Ready
     \<and> int (card (oc_commit ` set (class_occs ''f'' (occs ex_store)))) \<ge> 1"
  using capture_gate [OF reach_refl ex_record] by (auto simp: ex_report_def ex_thresholds_def empty_capture_def)

definition ex_claimed :: "time \<Rightarrow> string \<Rightarrow> candidate_row" where
  "ex_claimed now dr = ex_ready\<lparr>cc_branch := Some (codes ''b''), cc_draft := Some dr, cc_state := Proposing, cc_proposed_at := Some now\<rparr>"

lemma ex_claim: "claim_for_proposing 0 ''f'' (codes ''b'') ''d1'' (cands ex_store) = ([ex_claimed 0 ''d1''], True)"
  by (simp add: ex_store_def ex_claimed_def ex_ready_def claim_for_proposing_def cas_def)

lemma ex_claim_again:
  "claim_for_proposing 900 ''f'' (codes ''b'') ''d2'' (fst (reap_stuck_proposing 900 10 [ex_claimed 0 ''d1''])) = ([ex_claimed 900 ''d2''], True)"
  by (simp add: ex_claimed_def ex_ready_def claim_for_proposing_def cas_def reap_stuck_proposing_def older_than_def unclaim_def)

theorem proposal_claim_fenced_witness:
  "claim_for_proposing 1000 ''f'' (codes ''b'') ''d1'' [ex_claimed 0 ''d1''] = ([ex_claimed 0 ''d1''], False)
   \<and> mark_capture_proposed 1000 ''f'' (codes ''b'') ''d1'' 7 [ex_claimed 900 ''d2''] = ([ex_claimed 900 ''d2''], False)
   \<and> release_proposing ''f'' (codes ''b'') ''d1'' [ex_claimed 900 ''d2''] = ([ex_claimed 900 ''d2''], False)"
  using proposal_claim_fenced [OF ex_reachable ex_claim, of 1000 "codes ''b''" "''d1''" 900 10 900 "codes ''b''" "''d2''" "[ex_claimed 900 ''d2'']" 7]
    ex_claim_again by simp

end
