(* ===== verification/Cursors.thy ===== *)
theory Cursors
  imports Prelude
begin

text \<open>
  The controller loop's state in \<^verbatim>\<open>src/runtime/ledger/postgres_store.py\<close>: the review cursor
  (what has been reviewed, what is in flight), the Gmail cursor of the inbox assistant and the
  table of auto-merge decisions. Each verb is one guarded statement; it returns whether this
  caller won. Commit identifiers and history identifiers are opaque strings. A comparison with a
  \<^verbatim>\<open>NULL\<close> column is not true in SQL, which the guards write out.
\<close>

section \<open>The review cursor\<close>

datatype cursor_state = Baseline | Dispatching | Delivered | Blocked

record review_row =
  rv_repo :: string
  rv_ref :: string
  rv_baseline :: string
  rv_reviewed :: string
  rv_pending :: "string option"
  rv_state :: cursor_state
  rv_attempts :: nat
  rv_updated :: time

definition rv_key :: "review_row \<Rightarrow> string \<times> string" where
  "rv_key r = (rv_repo r, rv_ref r)"

definition get_cursor :: "string \<Rightarrow> string \<Rightarrow> review_row list \<Rightarrow> review_row option" where
  "get_cursor repo ref T = get_row rv_key (repo, ref) T"

definition upsert_baseline ::
  "time \<Rightarrow> string \<Rightarrow> string \<Rightarrow> string \<Rightarrow> review_row list \<Rightarrow> review_row list \<times> bool" where
  "upsert_baseline now repo ref head T =
     (if get_cursor repo ref T = None
      then (T @ [\<lparr>rv_repo = repo, rv_ref = ref, rv_baseline = head, rv_reviewed = head,
                  rv_pending = None, rv_state = Baseline, rv_attempts = 0, rv_updated = now\<rparr>], True)
      else (T, False))"

definition claimable :: "string \<Rightarrow> time \<Rightarrow> review_row \<Rightarrow> bool" where
  "claimable head stale_before r \<longleftrightarrow>
     rv_reviewed r \<noteq> head
     \<and> \<not> (rv_state r = Blocked \<and> (rv_pending r = Some head \<or> rv_pending r = None))
     \<and> (rv_pending r = None \<or> rv_state r = Blocked \<or> rv_updated r < stale_before)"

definition claim_dispatch ::
  "time \<Rightarrow> string \<Rightarrow> string \<Rightarrow> string \<Rightarrow> time \<Rightarrow> review_row list \<Rightarrow> review_row list \<times> bool" where
  "claim_dispatch now repo ref head stale_before T =
     cas (\<lambda>r. rv_key r = (repo, ref) \<and> claimable head stale_before r)
       (\<lambda>r. r\<lparr>rv_pending := Some head, rv_state := Dispatching,
              rv_attempts := (if rv_pending r \<noteq> Some head then 1 else rv_attempts r + 1),
              rv_updated := now\<rparr>) T"

definition release_dispatch ::
  "string \<Rightarrow> string \<Rightarrow> string \<Rightarrow> review_row list \<Rightarrow> review_row list \<times> bool" where
  "release_dispatch repo ref head T =
     cas (\<lambda>r. rv_key r = (repo, ref) \<and> rv_pending r = Some head \<and> rv_state r = Dispatching)
       (\<lambda>r. r\<lparr>rv_updated := 0\<rparr>) T"

definition forgive_transient ::
  "string \<Rightarrow> string \<Rightarrow> string \<Rightarrow> review_row list \<Rightarrow> review_row list \<times> bool" where
  "forgive_transient repo ref head T =
     cas (\<lambda>r. rv_key r = (repo, ref) \<and> rv_pending r = Some head \<and> rv_state r \<in> {Dispatching, Blocked})
       (\<lambda>r. r\<lparr>rv_updated := 0, rv_attempts := max (rv_attempts r - 1) 0, rv_state := Dispatching\<rparr>) T"

definition advance_cursor ::
  "time \<Rightarrow> string \<Rightarrow> string \<Rightarrow> string \<Rightarrow> review_row list \<Rightarrow> review_row list \<times> bool" where
  "advance_cursor now repo ref head T =
     cas (\<lambda>r. rv_key r = (repo, ref) \<and> rv_pending r = Some head)
       (\<lambda>r. r\<lparr>rv_reviewed := head, rv_pending := None, rv_state := Delivered,
              rv_attempts := 0, rv_updated := now\<rparr>) T"

definition skip_to ::
  "time \<Rightarrow> string \<Rightarrow> string \<Rightarrow> string \<Rightarrow> review_row list \<Rightarrow> review_row list \<times> bool" where
  "skip_to now repo ref head T =
     cas (\<lambda>r. rv_key r = (repo, ref) \<and> rv_reviewed r \<noteq> head)
       (\<lambda>r. r\<lparr>rv_reviewed := head, rv_pending := None, rv_state := Delivered,
              rv_attempts := 0, rv_updated := now\<rparr>) T"

definition mark_blocked ::
  "time \<Rightarrow> string \<Rightarrow> string \<Rightarrow> string \<Rightarrow> nat \<Rightarrow> review_row list \<Rightarrow> review_row list \<times> bool" where
  "mark_blocked now repo ref head max_attempts T =
     cas (\<lambda>r. rv_key r = (repo, ref) \<and> rv_pending r = Some head \<and> rv_attempts r \<ge> max_attempts
            \<and> rv_state r = Dispatching)
       (\<lambda>r. r\<lparr>rv_state := Blocked, rv_updated := now\<rparr>) T"

lemmas cursor_verbs = claim_dispatch_def release_dispatch_def forgive_transient_def advance_cursor_def
  skip_to_def mark_blocked_def

subsection \<open>The cursor as a state machine\<close>

text \<open>The verbs of the cursor as one function of the action a caller takes.\<close>

datatype cursor_act =
    Do_Seed time string string string
  | Do_Claim time string string string time
  | Do_Release string string string
  | Do_Forgive string string string
  | Do_Advance time string string string
  | Do_Skip time string string string
  | Do_Block time string string string nat

fun cursor_do :: "cursor_act \<Rightarrow> review_row list \<Rightarrow> review_row list \<times> bool" where
  "cursor_do (Do_Seed now repo ref head) T = upsert_baseline now repo ref head T"
| "cursor_do (Do_Claim now repo ref head sb) T = claim_dispatch now repo ref head sb T"
| "cursor_do (Do_Release repo ref head) T = release_dispatch repo ref head T"
| "cursor_do (Do_Forgive repo ref head) T = forgive_transient repo ref head T"
| "cursor_do (Do_Advance now repo ref head) T = advance_cursor now repo ref head T"
| "cursor_do (Do_Skip now repo ref head) T = skip_to now repo ref head T"
| "cursor_do (Do_Block now repo ref head n) T = mark_blocked now repo ref head n T"

definition cursor_run :: "cursor_act list \<Rightarrow> review_row list \<Rightarrow> review_row list" where
  "cursor_run acts T = foldl (\<lambda>U a. fst (cursor_do a U)) T acts"

inductive cursor_step :: "review_row list \<Rightarrow> review_row list \<Rightarrow> bool" where
  "cursor_step T (fst (upsert_baseline now repo ref head T))"
| "cursor_step T (fst (claim_dispatch now repo ref head sb T))"
| "cursor_step T (fst (release_dispatch repo ref head T))"
| "cursor_step T (fst (forgive_transient repo ref head T))"
| "cursor_step T (fst (advance_cursor now repo ref head T))"
| "cursor_step T (fst (skip_to now repo ref head T))"
| "cursor_step T (fst (mark_blocked now repo ref head n T))"

text \<open>
  A head is in flight exactly in the states dispatching and blocked, and it is never the head
  that has already been reviewed.
\<close>

definition row_ok :: "review_row \<Rightarrow> bool" where
  "row_ok r \<longleftrightarrow> (rv_pending r \<noteq> None \<longleftrightarrow> rv_state r \<in> {Dispatching, Blocked})
     \<and> rv_pending r \<noteq> Some (rv_reviewed r) \<and> (rv_state r = Baseline \<longrightarrow> rv_reviewed r = rv_baseline r)
     \<and> (rv_pending r = None \<longrightarrow> rv_attempts r = 0)"

definition cursor_ok :: "review_row list \<Rightarrow> bool" where
  "cursor_ok T \<longleftrightarrow> distinct (map rv_key T) \<and> (\<forall>r \<in> set T. row_ok r)"

lemma cursor_ok_upd:
  assumes "cursor_ok T" "\<And>r. \<lbrakk>r \<in> set T; P r; row_ok r\<rbrakk> \<Longrightarrow> row_ok (f r) \<and> rv_key (f r) = rv_key r"
  shows "cursor_ok (upd_where P f T)"
proof -
  have "distinct (map rv_key (upd_where P f T))"
    by (rule keyed_upd) (use assms in \<open>auto simp: cursor_ok_def\<close>)
  with assms show ?thesis by (auto simp: cursor_ok_def in_upd_where)
qed

lemma cursor_verb_ok [preserves]:
  assumes "cursor_ok T"
  shows "cursor_ok (fst (upsert_baseline now repo ref head T))"
    "cursor_ok (fst (claim_dispatch now repo ref head sb T))"
    "cursor_ok (fst (release_dispatch repo ref head T))"
    "cursor_ok (fst (forgive_transient repo ref head T))"
    "cursor_ok (fst (advance_cursor now repo ref head T))"
    "cursor_ok (fst (skip_to now repo ref head T))"
    "cursor_ok (fst (mark_blocked now repo ref head n T))"
proof -
  show "cursor_ok (fst (upsert_baseline now repo ref head T))"
    using assms by (auto simp: upsert_baseline_def cursor_ok_def row_ok_def get_cursor_def get_row_None rv_key_def)
qed (unfold cursor_verbs cas_fst, (rule cursor_ok_upd [OF assms],
    auto simp: row_ok_def rv_key_def claimable_def split: if_splits)+)

lemma cursor_step_ok: "cursor_ok T \<Longrightarrow> cursor_step T T' \<Longrightarrow> cursor_ok T'"
  by (erule cursor_step.cases) (auto intro: preserves)

interpretation cursor: invariant_system cursor_step cursor_ok
  by unfold_locales (rule cursor_step_ok)

section \<open>The inbox cursor\<close>

datatype inbox_state = Inbox_Active | Inbox_Error | Inbox_Stale

record inbox_row =
  ib_account :: string
  ib_history :: "string option"
  ib_state :: inbox_state
  ib_attempts :: nat
  ib_updated :: time

definition inbox_get_cursor :: "string \<Rightarrow> inbox_row list \<Rightarrow> inbox_row option" where
  "inbox_get_cursor acc T = get_row ib_account acc T"

definition inbox_advance_cursor ::
  "time \<Rightarrow> string \<Rightarrow> string \<Rightarrow> string option \<Rightarrow> inbox_row list \<Rightarrow> inbox_row list \<times> bool" where
  "inbox_advance_cursor now acc h expected T =
     (if inbox_get_cursor acc T = None
      then (T @ [\<lparr>ib_account = acc, ib_history = Some h, ib_state = Inbox_Active, ib_attempts = 0,
                  ib_updated = now\<rparr>], True)
      else cas (\<lambda>r. ib_account r = acc \<and> ib_history r = expected)
             (\<lambda>r. r\<lparr>ib_history := Some h, ib_state := Inbox_Active, ib_attempts := 0, ib_updated := now\<rparr>) T)"

text \<open>What the caller expects of the row: nothing, no history yet, or the history it read.\<close>

datatype expectation = Unbound | Expect_None | Expect string

definition bump :: "time \<Rightarrow> inbox_state \<Rightarrow> inbox_row \<Rightarrow> inbox_row" where
  "bump now st r = r\<lparr>ib_state := st, ib_attempts := ib_attempts r + 1, ib_updated := now\<rparr>"

definition inbox_mark_cursor_error ::
  "time \<Rightarrow> string \<Rightarrow> string \<Rightarrow> expectation \<Rightarrow> inbox_row list \<Rightarrow> (inbox_row list \<times> bool) option" where
  "inbox_mark_cursor_error now acc state ex T =
     (if state \<noteq> ''error'' \<and> state \<noteq> ''stale'' then None
      else let st = (if state = ''error'' then Inbox_Error else Inbox_Stale) in
        Some (case ex of
          Unbound \<Rightarrow> cas (\<lambda>r. ib_account r = acc) (bump now st) T
        | Expect_None \<Rightarrow>
            (if inbox_get_cursor acc T = None
             then (T @ [\<lparr>ib_account = acc, ib_history = None, ib_state = st, ib_attempts = 1,
                         ib_updated = now\<rparr>], True)
             else cas (\<lambda>r. ib_account r = acc \<and> ib_history r = None) (bump now st) T)
        | Expect h \<Rightarrow> cas (\<lambda>r. ib_account r = acc \<and> ib_history r = Some h) (bump now st) T))"

lemma bump_simps [simp]:
  "ib_account (bump now st r) = ib_account r" "ib_history (bump now st r) = ib_history r"
  "ib_attempts (bump now st r) = Suc (ib_attempts r)" "ib_state (bump now st r) = st"
  by (simp_all add: bump_def)

section \<open>Auto-merge decisions\<close>

datatype merge_decision = Merged | Needs_Fix | Skipped | Merge_Error

record automerge_row =
  am_key :: "string \<times> int \<times> string"
  am_decision :: merge_decision
  am_reason :: "string option"
  am_decided :: time

definition automerge_decision ::
  "string \<Rightarrow> int \<Rightarrow> string \<Rightarrow> automerge_row list \<Rightarrow> merge_decision option" where
  "automerge_decision repo pr head T = map_option am_decision (get_row am_key (repo, pr, head) T)"

definition record_automerge ::
  "time \<Rightarrow> string \<Rightarrow> int \<Rightarrow> string \<Rightarrow> merge_decision \<Rightarrow> string option \<Rightarrow> automerge_row list
     \<Rightarrow> automerge_row list option" where
  "record_automerge now repo pr head dec why T =
     (if pr \<le> 0 then None
      else Some (case get_row am_key (repo, pr, head) T of
        None \<Rightarrow> T @ [\<lparr>am_key = (repo, pr, head), am_decision = dec, am_reason = why, am_decided = now\<rparr>]
      | Some _ \<Rightarrow> upd_where (\<lambda>r. am_key r = (repo, pr, head))
                   (\<lambda>r. r\<lparr>am_decision := dec, am_reason := why, am_decided := now\<rparr>) T))"

text \<open>
  The decision table answers for the exact head: after a decision is recorded a lookup of the
  same repository, pull request and head returns it, and every other lookup is unchanged, so a new
  push is always undecided.
\<close>

theorem automerge_lookup:
  assumes "record_automerge now repo pr head dec why T = Some T'"
  shows "automerge_decision repo' pr' head' T'
    = (if (repo', pr', head') = (repo, pr, head) then Some dec else automerge_decision repo' pr' head' T)"
proof (cases "get_row am_key (repo, pr, head) T")
  case None
  with assms have T': "T' = T @ [\<lparr>am_key = (repo, pr, head), am_decision = dec, am_reason = why, am_decided = now\<rparr>]"
    by (auto simp: record_automerge_def split: if_splits)
  show ?thesis
  proof (cases "(repo', pr', head') = (repo, pr, head)")
    case True
    with None T' show ?thesis by (simp add: automerge_decision_def get_row_append) (simp add: get_row_def)
  next
    case False
    with T' show ?thesis
      by (simp add: automerge_decision_def get_row_append split: option.split) (auto simp: get_row_def)
  qed
next
  case (Some r)
  with assms have "T' = upd_where (\<lambda>r. am_key r = (repo, pr, head))
                   (\<lambda>r. r\<lparr>am_decision := dec, am_reason := why, am_decided := now\<rparr>) T"
    by (auto simp: record_automerge_def split: if_splits)
  with Some show ?thesis
    by (cases "(repo', pr', head') = (repo, pr, head)"; cases "get_row am_key (repo', pr', head') T")
      (auto simp: automerge_decision_def get_row_upd_where dest!: get_row_Some)
qed

section \<open>Theorems on the cursors\<close>

lemma cursor_key_unique:
  "cursor_ok T \<Longrightarrow> r \<in> set T \<Longrightarrow> s \<in> set T \<Longrightarrow> rv_key r = rv_key s \<Longrightarrow> r = s"
  by (rule distinct_key_eq [of rv_key T]) (auto simp: cursor_ok_def)

lemma reachable_cursor: "reach cursor_step [] T \<Longrightarrow> cursor_ok T"
  by (erule cursor.reach_inv) (simp add: cursor_ok_def)

text \<open>A won update on a keyed table is an update of the one row with that key.\<close>

lemma cursor_won:
  assumes "cursor_ok T" "cas (\<lambda>r. rv_key r = k \<and> G r) f T = (T', True)" "\<And>r. rv_key (f r) = rv_key r"
  obtains r where "r \<in> set T" "rv_key r = k" "G r" "get_row rv_key k T = Some r" "get_row rv_key k T' = Some (f r)"
    "\<And>x. x \<in> set T' \<Longrightarrow> rv_key x = k \<Longrightarrow> x = f r"
proof -
  from assms(2) have T': "T' = upd_where (\<lambda>r. rv_key r = k \<and> G r) f T" and "list_ex (\<lambda>r. rv_key r = k \<and> G r) T"
    by (auto simp: cas_def)
  then obtain r where r: "r \<in> set T" "rv_key r = k" "G r" by (auto simp: list_ex_iff)
  have g: "get_row rv_key k T = Some r"
    using assms(1) r by (simp add: cursor_ok_def get_row_iff)
  show thesis
  proof (rule that [OF r g])
    show "get_row rv_key k T' = Some (f r)" unfolding T' using g r assms(3) by (simp add: get_row_upd_where)
    fix x assume "x \<in> set T'" "rv_key x = k"
    then obtain y where y: "y \<in> set T" "x = (if rv_key y = k \<and> G y then f y else y)" by (auto simp: T' in_upd_where)
    with \<open>rv_key x = k\<close> assms(3) have "rv_key y = k" by (auto split: if_splits)
    with cursor_key_unique [OF assms(1) y(1) r(1)] r have "y = r" by simp
    with y r show "x = f r" by simp
  qed
qed

lemma cas_no_match: "(\<And>r. r \<in> set T \<Longrightarrow> \<not> P r) \<Longrightarrow> cas P f T = (T, False)"
  by (simp add: cas_def upd_where_id list_ex_iff)

lemma cas_match: "r \<in> set T \<Longrightarrow> P r \<Longrightarrow> snd (cas P f T)"
  by (auto simp: cas_won)

text \<open>
  The review cursor is consistent in every reachable table: one row per repository and ref, a
  pending head exactly while a dispatch is in flight or blocked, and the pending head is never the
  one already reviewed, so a delivered head is not dispatched again.
\<close>

theorem review_cursor_consistent:
  assumes "reach cursor_step [] T" "r \<in> set T"
  shows "get_cursor (rv_repo r) (rv_ref r) T = Some r
    \<and> (rv_pending r = None \<longleftrightarrow> rv_state r = Baseline \<or> rv_state r = Delivered)
    \<and> rv_pending r \<noteq> Some (rv_reviewed r)"
proof -
  have ok: "cursor_ok T" by (rule reachable_cursor [OF assms(1)])
  have "get_row rv_key (rv_key r) T = Some r" using ok assms(2) by (simp add: cursor_ok_def get_row_iff)
  moreover have "row_ok r" using ok assms(2) by (simp add: cursor_ok_def)
  ultimately show ?thesis by (cases "rv_state r") (auto simp: get_cursor_def rv_key_def row_ok_def)
qed

text \<open>
  What a caller may do to a cursor while a dispatch of \<open>head\<close> claimed at \<open>now\<close> is under way, without ending
  it: anything to another cursor, seeding, claims whose staleness cutoff is not later than the claim, and
  releasing, forgiving, advancing or blocking some other head. What ends it is a skip of the cursor, one
  of these verbs with its own head, or a claim that takes it for dead.
\<close>

fun spares :: "string \<Rightarrow> string \<Rightarrow> string \<Rightarrow> time \<Rightarrow> cursor_act \<Rightarrow> bool" where
  "spares repo ref head now (Do_Seed t r f h) \<longleftrightarrow> True"
| "spares repo ref head now (Do_Claim t r f h sb) \<longleftrightarrow> (r, f) \<noteq> (repo, ref) \<or> sb \<le> now"
| "spares repo ref head now (Do_Release r f h) \<longleftrightarrow> (r, f, h) \<noteq> (repo, ref, head)"
| "spares repo ref head now (Do_Forgive r f h) \<longleftrightarrow> (r, f, h) \<noteq> (repo, ref, head)"
| "spares repo ref head now (Do_Advance t r f h) \<longleftrightarrow> (r, f, h) \<noteq> (repo, ref, head)"
| "spares repo ref head now (Do_Skip t r f h) \<longleftrightarrow> (r, f) \<noteq> (repo, ref)"
| "spares repo ref head now (Do_Block t r f h n) \<longleftrightarrow> (r, f, h) \<noteq> (repo, ref, head)"

definition in_flight_row :: "string \<Rightarrow> time \<Rightarrow> review_row \<Rightarrow> bool" where
  "in_flight_row head now r \<longleftrightarrow> rv_pending r = Some head \<and> rv_state r = Dispatching \<and> rv_updated r = now"

lemma spared_row:
  assumes "spares repo ref head now a" "get_cursor repo ref T = Some r" "in_flight_row head now r"
  shows "get_cursor repo ref (fst (cursor_do a T)) = Some r"
proof (cases a)
  case (Do_Seed t r' f h)
  then show ?thesis using assms(2) by (auto simp: upsert_baseline_def get_cursor_def get_row_append)
qed (use assms get_row_Some [OF assms(2) [unfolded get_cursor_def]] in
    \<open>auto simp: cursor_verbs cas_fst get_cursor_def get_row_upd_where claimable_def rv_key_def in_flight_row_def\<close>)

lemma spared_run:
  assumes "list_all (spares repo ref head now) acts" "get_cursor repo ref T = Some r" "in_flight_row head now r"
  shows "get_cursor repo ref (cursor_run acts T) = Some r"
  using assms(1,2)
proof (induction acts arbitrary: T)
  case (Cons a acts)
  then have "get_cursor repo ref (fst (cursor_do a T)) = Some r" using spared_row [OF _ _ assms(3)] by simp
  with Cons show ?case by (simp add: cursor_run_def)
qed (simp add: cursor_run_def)

lemma cursor_do_step: "cursor_step T (fst (cursor_do a T))"
  by (cases a) (simp_all add: cursor_step.intros)

lemma cursor_run_ok: "cursor_ok T \<Longrightarrow> cursor_ok (cursor_run acts T)"
proof (induction acts arbitrary: T)
  case (Cons a acts)
  from Cons.IH [OF cursor_step_ok [OF Cons.prems cursor_do_step, of a]] show ?case by (simp add: cursor_run_def)
qed (simp add: cursor_run_def)

lemma in_flight_refused:
  assumes "cursor_ok T" "get_cursor repo ref T = Some r" "in_flight_row head now r" "sb \<le> now"
  shows "claim_dispatch now' repo ref head' sb T = (T, False)"
  unfolding claim_dispatch_def
proof (rule cas_no_match)
  fix x assume x: "x \<in> set T"
  note r = get_row_Some [OF assms(2) [unfolded get_cursor_def]]
  have "rv_key x = (repo, ref) \<Longrightarrow> x = r" using cursor_key_unique [OF assms(1) x, of r] r by simp
  then show "\<not> (rv_key x = (repo, ref) \<and> claimable head' sb x)"
    using assms(3,4) by (auto simp: in_flight_row_def claimable_def)
qed

text \<open>
  C12. No double dispatch: once a caller has won the dispatch of a head, then through any sequence of
  actions by any callers that does not end this dispatch, the row stays as the winner left it and every
  claim on the cursor, for the same or another head, loses and changes nothing as long as its staleness
  cutoff is not later than the winning claim. The actions that end a dispatch are a release, a
  forgiveness, an advance or a block of that very head, a skip of the cursor, and a claim with a later
  cutoff.
\<close>

theorem no_double_dispatch:
  assumes "reach cursor_step [] T" "claim_dispatch now repo ref head sb T = (T1, True)"
    and "list_all (spares repo ref head now) acts" "T2 = cursor_run acts T1" "sb' \<le> now"
  shows "claim_dispatch now' repo ref head' sb' T2 = (T2, False) \<and> get_cursor repo ref T2 = get_cursor repo ref T1
    \<and> map_option (\<lambda>r. (rv_pending r, rv_state r)) (get_cursor repo ref T2) = Some (Some head, Dispatching)"
proof -
  have ok: "cursor_ok T" by (rule reachable_cursor [OF assms(1)])
  obtain r where r: "get_cursor repo ref T1 = Some r" "in_flight_row head now r"
    by (rule cursor_won [OF ok assms(2) [unfolded claim_dispatch_def]]) (auto simp: rv_key_def get_cursor_def in_flight_row_def)
  have "cursor_ok T1" using cursor_verb_ok(2) [OF ok, of now repo ref head sb] assms(2) by simp
  then have ok2: "cursor_ok T2" unfolding assms(4) by (rule cursor_run_ok)
  have r2: "get_cursor repo ref T2 = Some r" unfolding assms(4) by (rule spared_run [OF assms(3) r])
  from in_flight_refused [OF ok2 r2 r(2) assms(5)] r r2 show ?thesis by (simp add: in_flight_row_def)
qed

text \<open>
  A released dispatch is the other way round: after its holder released it, a claim of any head that is
  not the reviewed one wins, with any cutoff after the epoch.
\<close>

theorem released_dispatch_claimable:
  assumes "reach cursor_step [] T" "release_dispatch repo ref head T = (T1, True)" "get_cursor repo ref T = Some r"
    and "head' \<noteq> rv_reviewed r" "0 < sb"
  shows "snd (claim_dispatch now' repo ref head' sb T1)"
proof -
  have ok: "cursor_ok T" by (rule reachable_cursor [OF assms(1)])
  obtain r0 where r0: "get_row rv_key (repo, ref) T = Some r0" "rv_pending r0 = Some head \<and> rv_state r0 = Dispatching"
    "get_row rv_key (repo, ref) T1 = Some (r0\<lparr>rv_updated := 0\<rparr>)"
    by (rule cursor_won [OF ok assms(2) [unfolded release_dispatch_def]]) (auto simp: rv_key_def)
  with assms(3) have "r0 = r" by (simp add: get_cursor_def)
  with r0 assms(4,5) have "claimable head' sb (r0\<lparr>rv_updated := 0\<rparr>)" by (auto simp: claimable_def)
  with get_row_Some [OF r0(3)] show ?thesis
    unfolding claim_dispatch_def by (intro cas_match [of "r0\<lparr>rv_updated := 0\<rparr>"]) blast+
qed

text \<open>
  A poison head stays blocked and only it: after the ceiling blocks a head, claims of that head
  lose whatever the cutoff, while a claim of any other head that is not the reviewed one wins and
  starts its count at one.
\<close>

theorem blocked_head_sticky:
  assumes "reach cursor_step [] T" "mark_blocked now repo ref head n T = (T1, True)"
  shows "claim_dispatch now' repo ref head sb T1 = (T1, False)
    \<and> (\<forall>head'. head' \<noteq> head \<and> get_cursor repo ref T = Some r \<and> head' \<noteq> rv_reviewed r \<longrightarrow>
        snd (claim_dispatch now' repo ref head' sb T1)
        \<and> map_option rv_attempts (get_cursor repo ref (fst (claim_dispatch now' repo ref head' sb T1))) = Some 1)"
proof (rule cursor_won [OF reachable_cursor [OF assms(1)] assms(2) [unfolded mark_blocked_def]])
  let ?b = "\<lambda>r. r\<lparr>rv_state := Blocked, rv_updated := now\<rparr>"
  fix r0 assume r0: "r0 \<in> set T" "rv_key r0 = (repo, ref)"
    "rv_pending r0 = Some head \<and> rv_attempts r0 \<ge> n \<and> rv_state r0 = Dispatching"
    "get_row rv_key (repo, ref) T = Some r0" "get_row rv_key (repo, ref) T1 = Some (?b r0)"
    and u: "\<And>x. x \<in> set T1 \<Longrightarrow> rv_key x = (repo, ref) \<Longrightarrow> x = ?b r0"
  have "claim_dispatch now' repo ref head sb T1 = (T1, False)"
    unfolding claim_dispatch_def
  proof (rule cas_no_match)
    fix x assume "x \<in> set T1"
    with u [of x] r0(3) show "\<not> (rv_key x = (repo, ref) \<and> claimable head sb x)" by (auto simp: claimable_def)
  qed
  moreover have "snd (claim_dispatch now' repo ref head' sb T1)
      \<and> map_option rv_attempts (get_cursor repo ref (fst (claim_dispatch now' repo ref head' sb T1))) = Some 1"
    if "head' \<noteq> head" "head' \<noteq> rv_reviewed r0" for head'
  proof -
    have m: "claimable head' sb (?b r0)" using that r0(3) by (auto simp: claimable_def)
    have b: "?b r0 \<in> set T1" using get_row_Some [OF r0(5)] by blast
    have k: "rv_key (?b r0) = (repo, ref)" using r0(2) by (simp add: rv_key_def)
    have "snd (claim_dispatch now' repo ref head' sb T1)"
      unfolding claim_dispatch_def by (rule cas_match [OF b]) (use m k in blast)
    moreover have "get_cursor repo ref (fst (claim_dispatch now' repo ref head' sb T1)) = Some ((?b r0)
        \<lparr>rv_pending := Some head', rv_state := Dispatching, rv_attempts := 1, rv_updated := now'\<rparr>)"
      unfolding get_cursor_def claim_dispatch_def cas_fst
      using r0(3,5) m k that by (subst get_row_upd_where) (simp_all add: rv_key_def)
    ultimately show ?thesis by simp
  qed
  ultimately show ?thesis using r0(4) by (auto simp: get_cursor_def)
qed (simp add: rv_key_def)

text \<open>
  Transient failures do not climb to the ceiling: re-claiming a stale dispatch of a head and
  forgiving it leaves the attempt count where it was, and a claim with any positive cutoff can take
  the head again at once.
\<close>

theorem transient_cycle_flat:
  assumes "reach cursor_step [] T" "get_cursor repo ref T = Some r" "rv_pending r = Some head"
    and "claim_dispatch now repo ref head sb T = (T1, True)" "0 < sb'"
  shows "\<exists>r2. get_cursor repo ref (fst (forgive_transient repo ref head T1)) = Some r2
    \<and> rv_attempts r2 = rv_attempts r \<and> rv_pending r2 = Some head \<and> claimable head sb' r2"
proof (rule cursor_won [OF reachable_cursor [OF assms(1)] assms(4) [unfolded claim_dispatch_def]])
  fix r0 assume r0: "get_row rv_key (repo, ref) T = Some r0" "claimable head sb r0"
    "get_row rv_key (repo, ref) T1 = Some (r0\<lparr>rv_pending := Some head, rv_state := Dispatching,
            rv_attempts := if rv_pending r0 \<noteq> Some head then 1 else rv_attempts r0 + 1, rv_updated := now\<rparr>)"
    "rv_key r0 = (repo, ref)"
  have "r0 = r" using r0(1) assms(2) by (simp add: get_cursor_def)
  with r0 assms(3,5) show ?thesis
    unfolding get_cursor_def forgive_transient_def cas_fst
    by (subst get_row_upd_where) (auto simp: rv_key_def claimable_def)
qed (simp add: rv_key_def)

text \<open>
  Inbox cursors never rewind: of two ticks that read the same history value, once one has
  advanced the cursor to a new value the other's advance loses and changes nothing.
\<close>

theorem inbox_no_rewind:
  assumes "inbox_advance_cursor now acc h ex T = (T1, True)" "ex \<noteq> Some h"
  shows "inbox_advance_cursor now' acc h' ex T1 = (T1, False)"
proof (cases "inbox_get_cursor acc T")
  case None
  with assms have T1: "T1 = T @ [\<lparr>ib_account = acc, ib_history = Some h, ib_state = Inbox_Active, ib_attempts = 0,
                  ib_updated = now\<rparr>]" by (simp add: inbox_advance_cursor_def)
  then have "inbox_get_cursor acc T1 \<noteq> None" by (simp add: inbox_get_cursor_def get_row_None)
  moreover have "\<not> (ib_account r = acc \<and> ib_history r = ex)" if "r \<in> set T1" for r
  proof (cases "r \<in> set T")
    case False
    with that T1 have "ib_history r = Some h" by simp
    with assms(2) show ?thesis by auto
  qed (use None in \<open>auto simp: inbox_get_cursor_def get_row_None\<close>)
  ultimately show ?thesis by (simp add: inbox_advance_cursor_def cas_no_match)
next
  case (Some r0)
  with assms have T1: "T1 = upd_where (\<lambda>r. ib_account r = acc \<and> ib_history r = ex)
      (\<lambda>r. r\<lparr>ib_history := Some h, ib_state := Inbox_Active, ib_attempts := 0, ib_updated := now\<rparr>) T"
    by (auto simp: inbox_advance_cursor_def cas_def)
  have "inbox_get_cursor acc T1 \<noteq> None"
    using Some unfolding inbox_get_cursor_def T1 by (subst get_row_upd_where) simp_all
  moreover have "\<not> (ib_account r = acc \<and> ib_history r = ex)" if "r \<in> set T1" for r
  proof -
    from that obtain y where "r = (if ib_account y = acc \<and> ib_history y = ex
        then y\<lparr>ib_history := Some h, ib_state := Inbox_Active, ib_attempts := 0, ib_updated := now\<rparr> else y)"
      unfolding T1 in_upd_where by blast
    with assms(2) show ?thesis by (cases "ib_account y = acc \<and> ib_history y = ex") auto
  qed
  ultimately show ?thesis by (simp add: inbox_advance_cursor_def cas_no_match)
qed

text \<open>
  Marking a failed tick never moves a cursor: whatever the caller expects, the history of every
  account that had a row is unchanged, and an account's attempts grow by at most one.
\<close>

theorem inbox_mark_keeps_history:
  assumes "inbox_mark_cursor_error now acc st ex T = Some (T1, won)" "inbox_get_cursor acc' T = Some r"
  shows "\<exists>r1. inbox_get_cursor acc' T1 = Some r1 \<and> ib_history r1 = ib_history r
    \<and> (ib_attempts r1 = ib_attempts r \<or> acc' = acc \<and> won \<and> ib_attempts r1 = Suc (ib_attempts r))"
proof -
  have upd: ?thesis if T1: "T1 = upd_where P (bump now s) T" "won = list_ex P T" "\<And>x. P x \<Longrightarrow> ib_account x = acc" for P s
  proof -
    note g = assms(2) [unfolded inbox_get_cursor_def]
    have "inbox_get_cursor acc' T1 = Some (if P r then bump now s r else r)"
      unfolding inbox_get_cursor_def T1(1) by (subst get_row_upd_where) (simp_all add: g)
    with get_row_Some [OF g] T1(2,3) show ?thesis by (auto simp: list_ex_iff)
  qed
  show ?thesis
  proof (cases "ex = Expect_None \<and> inbox_get_cursor acc T = None")
    case True
    with assms(1) obtain x where "T1 = T @ [x]"
      by (auto simp: inbox_mark_cursor_error_def Let_def split: if_splits)
    with assms(2) show ?thesis by (simp add: inbox_get_cursor_def get_row_append)
  next
    case False
    define s where "s = (if st = ''error'' then Inbox_Error else Inbox_Stale)"
    from False assms(1) have "\<exists>P. T1 = upd_where P (bump now s) T \<and> won = list_ex P T \<and> (\<forall>x. P x \<longrightarrow> ib_account x = acc)"
      by (cases ex) (auto simp: inbox_mark_cursor_error_def cas_def s_def [symmetric] Let_def split: if_splits)
    then show ?thesis using upd by blast
  qed
qed

section \<open>Witnesses\<close>

definition ex_seed :: "review_row list" where
  "ex_seed = [\<lparr>rv_repo = ''r'', rv_ref = ''main'', rv_baseline = ''a'', rv_reviewed = ''a'',
     rv_pending = None, rv_state = Baseline, rv_attempts = 0, rv_updated = 1\<rparr>]"

definition ex_claimed :: "review_row list" where
  "ex_claimed = [\<lparr>rv_repo = ''r'', rv_ref = ''main'', rv_baseline = ''a'', rv_reviewed = ''a'',
     rv_pending = Some ''b'', rv_state = Dispatching, rv_attempts = 1, rv_updated = 10\<rparr>]"

lemmas ex_cursor = ex_seed_def ex_claimed_def cursor_verbs upsert_baseline_def get_cursor_def rv_key_def
  claimable_def cas_def get_row_def

lemma ex_cursor_claim: "claim_dispatch 10 ''r'' ''main'' ''b'' 0 ex_seed = (ex_claimed, True)"
  by (simp add: ex_cursor)

lemma ex_reach_seed: "reach cursor_step [] ex_seed"
proof -
  have "cursor_step [] (fst (upsert_baseline 1 ''r'' ''main'' ''a'' []))" by (rule cursor_step.intros)
  moreover have "fst (upsert_baseline 1 ''r'' ''main'' ''a'' []) = ex_seed" by (simp add: ex_cursor)
  ultimately show ?thesis using reach_step [OF reach_refl] by metis
qed

lemma ex_reach_claimed: "reach cursor_step [] ex_claimed"
  by (rule reach_step [OF ex_reach_seed]) (metis cursor_step.intros(2) ex_cursor_claim fst_conv)

theorem automerge_lookup_witness:
  "automerge_decision ''r'' 7 ''h1'' [\<lparr>am_key = (''r'', 7, ''h1''), am_decision = Merged, am_reason = None, am_decided = 5\<rparr>]
     = Some Merged
   \<and> automerge_decision ''r'' 7 ''h2'' [\<lparr>am_key = (''r'', 7, ''h1''), am_decision = Merged, am_reason = None, am_decided = 5\<rparr>]
     = automerge_decision ''r'' 7 ''h2'' []"
proof -
  have "record_automerge 5 ''r'' 7 ''h1'' Merged None []
      = Some [\<lparr>am_key = (''r'', 7, ''h1''), am_decision = Merged, am_reason = None, am_decided = 5\<rparr>]"
    by (simp add: record_automerge_def get_row_def)
  from automerge_lookup [OF this] show ?thesis by simp
qed

theorem review_cursor_consistent_witness:
  "get_cursor ''r'' ''main'' ex_claimed = Some (hd ex_claimed) \<and> rv_pending (hd ex_claimed) \<noteq> Some ''a''"
proof -
  have "hd ex_claimed \<in> set ex_claimed" by (simp add: ex_claimed_def)
  from review_cursor_consistent [OF ex_reach_claimed this] show ?thesis by (simp add: ex_claimed_def)
qed

text \<open>
  A head other than the one in flight is not always claimed: while a dispatch is fresh, the claim of a
  new head loses.
\<close>

theorem new_head_waits:
  "get_cursor ''r'' ''main'' ex_claimed = Some (hd ex_claimed) \<and> rv_pending (hd ex_claimed) \<noteq> Some ''c''
   \<and> rv_reviewed (hd ex_claimed) \<noteq> ''c'' \<and> claim_dispatch 20 ''r'' ''main'' ''c'' 5 ex_claimed = (ex_claimed, False)"
  by (simp add: ex_cursor)

theorem no_double_dispatch_witness:
  "\<exists>T2. T2 = cursor_run [Do_Claim 15 ''r'' ''main'' ''b'' 5, Do_Release ''r'' ''main'' ''c'', Do_Advance 16 ''q'' ''main'' ''b''] ex_claimed
     \<and> claim_dispatch 20 ''r'' ''main'' ''c'' 9 T2 = (T2, False)"
  using no_double_dispatch [OF ex_reach_seed ex_cursor_claim,
      of "[Do_Claim 15 ''r'' ''main'' ''b'' 5, Do_Release ''r'' ''main'' ''c'', Do_Advance 16 ''q'' ''main'' ''b'']" _ 9 20 "''c''"]
  by simp

theorem released_dispatch_claimable_witness:
  "\<exists>T1. release_dispatch ''r'' ''main'' ''b'' ex_claimed = (T1, True) \<and> snd (claim_dispatch 20 ''r'' ''main'' ''b'' 5 T1)"
proof -
  obtain T1 where T1: "release_dispatch ''r'' ''main'' ''b'' ex_claimed = (T1, True)" by (simp add: ex_cursor)
  have "get_cursor ''r'' ''main'' ex_claimed = Some (hd ex_claimed)" "''b'' \<noteq> rv_reviewed (hd ex_claimed)"
    by (simp_all add: ex_cursor)
  from released_dispatch_claimable [OF ex_reach_claimed T1 this, of 5 20] T1 show ?thesis by auto
qed

theorem blocked_head_sticky_witness:
  "\<exists>T1. mark_blocked 11 ''r'' ''main'' ''b'' 1 ex_claimed = (T1, True)
    \<and> claim_dispatch 99 ''r'' ''main'' ''b'' 98 T1 = (T1, False)
    \<and> snd (claim_dispatch 99 ''r'' ''main'' ''c'' 98 T1)"
proof -
  obtain T1 where T1: "mark_blocked 11 ''r'' ''main'' ''b'' 1 ex_claimed = (T1, True)" by (simp add: ex_cursor)
  have "get_cursor ''r'' ''main'' ex_claimed = Some (hd ex_claimed)" "rv_reviewed (hd ex_claimed) = ''a''"
    by (simp_all add: ex_cursor)
  with blocked_head_sticky [OF ex_reach_claimed T1, of 99 98 "hd ex_claimed"] T1 show ?thesis by auto
qed

theorem transient_cycle_flat_witness:
  "\<exists>r2. get_cursor ''r'' ''main'' (fst (forgive_transient ''r'' ''main'' ''b''
       (fst (claim_dispatch 50 ''r'' ''main'' ''b'' 40 ex_claimed)))) = Some r2 \<and> rv_attempts r2 = 1"
proof -
  have "get_cursor ''r'' ''main'' ex_claimed = Some (hd ex_claimed)" "rv_pending (hd ex_claimed) = Some ''b''"
    "rv_attempts (hd ex_claimed) = 1"
    "claim_dispatch 50 ''r'' ''main'' ''b'' 40 ex_claimed = (fst (claim_dispatch 50 ''r'' ''main'' ''b'' 40 ex_claimed), True)"
    by (simp_all add: ex_cursor)
  with transient_cycle_flat [OF ex_reach_claimed this(1,2,4), of 1] show ?thesis by auto
qed

theorem inbox_no_rewind_witness:
  "inbox_advance_cursor 6 ''me'' ''h3'' None (fst (inbox_advance_cursor 5 ''me'' ''h2'' None []))
     = (fst (inbox_advance_cursor 5 ''me'' ''h2'' None []), False)"
  by (rule inbox_no_rewind [of 5 _ "''h2''" None "[]"])
    (simp_all add: inbox_advance_cursor_def inbox_get_cursor_def get_row_def)

theorem inbox_mark_keeps_history_witness:
  "\<exists>T1 r1. inbox_mark_cursor_error 9 ''me'' ''error'' (Expect ''h1'') (fst (inbox_advance_cursor 5 ''me'' ''h2'' None [])) = Some (T1, False)
     \<and> inbox_get_cursor ''me'' T1 = Some r1 \<and> ib_history r1 = Some ''h2''"
proof -
  let ?T = "fst (inbox_advance_cursor 5 ''me'' ''h2'' None [])"
  let ?r = "\<lparr>ib_account = ''me'', ib_history = Some ''h2'', ib_state = Inbox_Active, ib_attempts = 0, ib_updated = 5\<rparr>"
  have m: "inbox_mark_cursor_error 9 ''me'' ''error'' (Expect ''h1'') ?T = Some (?T, False)"
    by (simp add: inbox_mark_cursor_error_def inbox_advance_cursor_def inbox_get_cursor_def get_row_def cas_def)
  have "inbox_get_cursor ''me'' ?T = Some ?r"
    by (simp add: inbox_advance_cursor_def inbox_get_cursor_def get_row_def)
  from inbox_mark_keeps_history [OF m this] m show ?thesis by auto
qed

end
