(* ===== verification/Skills.thy ===== *)
theory Skills
  imports Skillmatch
begin

text \<open>
  The skill verbs of \<^verbatim>\<open>src/runtime/ledger/postgres_store.py\<close>: indexing from the trusted ref,
  selection for a review, usage accounting and the lifecycle prune. Digests are an argument
  (\<open>sha\<close>, the hexadecimal SHA-256 of a body); times are in seconds.
\<close>

section \<open>Tables and verbs\<close>

datatype skill_state = Sk_Active | Sk_Stale | Sk_Archived

record skill_row =
  sk_name :: pytext
  sk_description :: pytext
  sk_body :: pytext
  sk_body_sha :: string
  sk_content_sha :: string
  sk_repo :: string
  sk_trigger :: pytext
  sk_state :: skill_state
  sk_last_used :: "time option"
  sk_created :: time

record skill_use_row =
  su_id :: uuid
  su_play :: string
  su_skill :: pytext
  su_body_sha :: string
  su_repo :: string
  su_used :: time

text \<open>One item of the list the indexer passes: a linted document with its digests.\<close>

record skill_item =
  it_name :: pytext
  it_description :: pytext
  it_body :: pytext
  it_body_sha :: string
  it_content_sha :: string
  it_trigger :: pytext

definition SKILL_STALE_DAYS :: int where "SKILL_STALE_DAYS = 30"
definition SKILL_ARCHIVE_DAYS :: int where "SKILL_ARCHIVE_DAYS = 90"
definition day :: int where "day = 86400"

definition sk_key :: "skill_row \<Rightarrow> string \<times> pytext" where
  "sk_key r = (sk_repo r, sk_name r)"

definition refresh :: "skill_item \<Rightarrow> skill_row \<Rightarrow> skill_row" where
  "refresh s r = r\<lparr>sk_description := it_description s, sk_body := it_body s, sk_body_sha := it_body_sha s,
     sk_content_sha := it_content_sha s, sk_trigger := it_trigger s, sk_state := Sk_Active\<rparr>"

definition upsert_skill ::
  "time \<Rightarrow> string \<Rightarrow> skill_item \<Rightarrow> skill_row list \<Rightarrow> skill_row list \<times> bool" where
  "upsert_skill now repo s T =
     (if get_row sk_key (repo, it_name s) T = None
      then (T @ [\<lparr>sk_name = it_name s, sk_description = it_description s, sk_body = it_body s,
                  sk_body_sha = it_body_sha s, sk_content_sha = it_content_sha s, sk_repo = repo,
                  sk_trigger = it_trigger s, sk_state = Sk_Active, sk_last_used = None, sk_created = now\<rparr>], True)
      else cas (\<lambda>r. sk_key r = (repo, it_name s) \<and> sk_content_sha r \<noteq> it_content_sha s) (refresh s) T)"

fun upsert_all ::
  "time \<Rightarrow> string \<Rightarrow> skill_item list \<Rightarrow> skill_row list \<Rightarrow> skill_row list \<times> nat" where
  "upsert_all now repo [] T = (T, 0)"
| "upsert_all now repo (s # ss) T =
     (case upsert_skill now repo s T of
        (T1, b) \<Rightarrow> (case upsert_all now repo ss T1 of (T2, n) \<Rightarrow> (T2, if b then Suc n else n)))"

definition gone :: "string \<Rightarrow> pytext list \<Rightarrow> skill_row \<Rightarrow> bool" where
  "gone repo present r \<longleftrightarrow> sk_repo r = repo \<and> sk_state r \<noteq> Sk_Archived \<and> sk_name r \<notin> set present"

definition index_skills ::
  "time \<Rightarrow> string \<Rightarrow> skill_item list \<Rightarrow> skill_row list \<Rightarrow> skill_row list \<times> nat \<times> nat \<times> nat" where
  "index_skills now repo skills T =
     (let (T1, up) = upsert_all now repo skills T; present = map it_name skills in
      (upd_where (gone repo present) (\<lambda>r. r\<lparr>sk_state := Sk_Archived\<rparr>) T1,
       up, count_where (gone repo present) T1, length skills))"

text \<open>
  The loop of \<^verbatim>\<open>select_skills\<close> over the active rows: candidates with the specificity of the
  match, and the rows whose body no longer has its recorded digest.
\<close>

definition admits :: "pytext list \<Rightarrow> skill_row \<Rightarrow> nat option" where
  "admits paths r = (if is_banned_trigger (sk_trigger r) then None else match_specificity (sk_trigger r) paths)"

definition candidates ::
  "(pytext \<Rightarrow> string) \<Rightarrow> pytext list \<Rightarrow> skill_row list \<Rightarrow> (skill_row \<times> nat) list" where
  "candidates sha paths rows = concat (map (\<lambda>r. case admits paths r of
     None \<Rightarrow> [] | Some ms \<Rightarrow> if sha (sk_body r) \<noteq> sk_body_sha r then [] else [(r, ms)]) rows)"

definition drifted :: "(pytext \<Rightarrow> string) \<Rightarrow> pytext list \<Rightarrow> skill_row list \<Rightarrow> pytext list" where
  "drifted sha paths rows = map sk_name (filter (\<lambda>r. admits paths r \<noteq> None \<and> sha (sk_body r) \<noteq> sk_body_sha r) rows)"

definition rank :: "skill_row \<times> nat \<Rightarrow> bool \<times> int \<times> int" where
  "rank rm = (sk_last_used (fst rm) \<noteq> None, - int (snd rm),
     - (case sk_last_used (fst rm) of None \<Rightarrow> 0 | Some t \<Rightarrow> t))"

definition select_skills ::
  "(pytext \<Rightarrow> string) \<Rightarrow> string \<Rightarrow> pytext list \<Rightarrow> skill_row list \<Rightarrow> (pytext \<times> pytext) list \<times> pytext list" where
  "select_skills sha repo paths T =
     (let rows = filter (\<lambda>r. sk_repo r = repo \<and> sk_state r = Sk_Active) T;
          cand = map fst (sort_key rank (candidates sha paths rows))
      in (map (\<lambda>r. (sk_name r, sk_body r)) (take 2 cand), drifted sha paths rows))"

definition used_row :: "time \<Rightarrow> string \<Rightarrow> string \<Rightarrow> uuid \<times> pytext \<times> string \<Rightarrow> skill_use_row" where
  "used_row now repo play u = (case u of (i, name, bs) \<Rightarrow>
     \<lparr>su_id = i, su_play = play, su_skill = name, su_body_sha = bs, su_repo = repo, su_used = now\<rparr>)"

text \<open>The identifiers of the new audit rows are numbered from the next free one.\<close>

definition record_skill_use ::
  "time \<Rightarrow> string \<Rightarrow> string \<Rightarrow> (pytext \<times> string) list
     \<Rightarrow> skill_row list \<times> skill_use_row list \<times> uuid \<Rightarrow> skill_row list \<times> skill_use_row list \<times> uuid" where
  "record_skill_use now repo play used st =
     (case st of (T, U, n) \<Rightarrow>
        if used = [] then (T, U, n)
        else (upd_where (\<lambda>r. sk_repo r = repo \<and> sk_name r \<in> set (map fst used)
                 \<and> (case sk_last_used r of None \<Rightarrow> True | Some t \<Rightarrow> t < now - 3600))
                (\<lambda>r. r\<lparr>sk_last_used := Some now\<rparr>) T,
              U @ map (used_row now repo play) (zip [n ..< n + length used] used),
              n + length used))"

definition idle_since :: "skill_row \<Rightarrow> time" where
  "idle_since r = (case sk_last_used r of None \<Rightarrow> sk_created r | Some t \<Rightarrow> t)"

definition prune_skills :: "time \<Rightarrow> skill_row list \<Rightarrow> skill_row list \<times> nat \<times> nat" where
  "prune_skills now T =
     (let stale = (\<lambda>r. sk_state r = Sk_Active \<and> idle_since r < now - SKILL_STALE_DAYS * day);
          T1 = upd_where stale (\<lambda>r. r\<lparr>sk_state := Sk_Stale\<rparr>) T;
          arch = (\<lambda>r. sk_state r = Sk_Stale \<and> idle_since r < now - SKILL_ARCHIVE_DAYS * day)
      in (upd_where arch (\<lambda>r. r\<lparr>sk_state := Sk_Archived\<rparr>) T1, count_where stale T, count_where arch T1))"

section \<open>Selection\<close>

lemma in_candidates:
  "(r, ms) \<in> set (candidates sha paths rows) \<longleftrightarrow> r \<in> set rows \<and> admits paths r = Some ms \<and> sha (sk_body r) = sk_body_sha r"
proof -
  have "(r, ms) \<in> set (case admits paths x of None \<Rightarrow> [] | Some ms \<Rightarrow> if sha (sk_body x) \<noteq> sk_body_sha x then [] else [(x, ms)])
      \<longleftrightarrow> x = r \<and> admits paths r = Some ms \<and> sha (sk_body r) = sk_body_sha r" for x
    by (cases "admits paths x") auto
  then show ?thesis unfolding candidates_def set_concat set_map UN_iff image_iff by auto
qed

lemma admits_Some:
  "admits paths r = Some ms \<longleftrightarrow> \<not> is_banned_trigger (sk_trigger r) \<and> match_specificity (sk_trigger r) paths = Some ms"
  by (simp add: admits_def)

lemma take_sorted_best:
  fixes key :: "'a \<Rightarrow> 'k::linorder"
  assumes "x \<in> set (take n (sort_key key xs))" "y \<in> set xs" "y \<notin> set (take n (sort_key key xs))"
  shows "key x \<le> key y"
proof -
  define ys where "ys = sort_key key xs"
  have y: "y \<in> set (drop n ys)"
    using assms(2,3) by (metis Un_iff append_take_drop_id set_append set_sort ys_def)
  have "sorted (map key (take n ys @ drop n ys))" by (simp add: ys_def)
  then have "\<forall>a \<in> set (map key (take n ys)). \<forall>b \<in> set (map key (drop n ys)). a \<le> b"
    unfolding map_append sorted_append by blast
  with assms(1) y show ?thesis by (auto simp: ys_def)
qed

section \<open>Indexing\<close>

lemma refresh_simps [simp]:
  "sk_key (refresh s r) = sk_key r" "sk_content_sha (refresh s r) = it_content_sha s"
  "sk_state (refresh s r) = Sk_Active" "sk_repo (refresh s r) = sk_repo r" "sk_name (refresh s r) = sk_name r"
  by (simp_all add: refresh_def sk_key_def)

lemma upsert_get:
  assumes "upsert_skill now repo s T = (T1, b)"
  shows "get_row sk_key (repo, it_name s) T1 \<noteq> None"
    "\<And>k. k \<noteq> (repo, it_name s) \<Longrightarrow> get_row sk_key k T1 = get_row sk_key k T"
    "\<And>r. get_row sk_key (repo, it_name s) T1 = Some r \<Longrightarrow> sk_content_sha r = it_content_sha s"
proof -
  note D = assms [unfolded upsert_skill_def]
  have "get_row sk_key (repo, it_name s) T1 \<noteq> None
    \<and> (\<forall>k. k \<noteq> (repo, it_name s) \<longrightarrow> get_row sk_key k T1 = get_row sk_key k T)
    \<and> (\<forall>r. get_row sk_key (repo, it_name s) T1 = Some r \<longrightarrow> sk_content_sha r = it_content_sha s)"
  proof (cases "get_row sk_key (repo, it_name s) T")
    case None
    with D obtain x where x: "T1 = T @ [x]" "sk_key x = (repo, it_name s)" "sk_content_sha x = it_content_sha s"
      by (auto simp: sk_key_def)
    have "get_row sk_key k [x] = (if k = (repo, it_name s) then Some x else None)" for k
      using x(2) by (auto simp: get_row_def)
    with None x show ?thesis by (simp add: get_row_append split: option.split)
  next
    case (Some r0)
    with D have T1: "T1 = upd_where (\<lambda>r. sk_key r = (repo, it_name s) \<and> sk_content_sha r \<noteq> it_content_sha s) (refresh s) T"
      by (simp add: cas_def)
    have g: "get_row sk_key k T1 = map_option (\<lambda>r. if sk_key r = (repo, it_name s) \<and> sk_content_sha r \<noteq> it_content_sha s
        then refresh s r else r) (get_row sk_key k T)" for k
      unfolding T1 by (rule get_row_upd_where) simp
    have "get_row sk_key k T1 = get_row sk_key k T" if "k \<noteq> (repo, it_name s)" for k
      using that by (cases "get_row sk_key k T") (auto simp: g dest!: get_row_Some)
    with Some get_row_Some [OF Some] show ?thesis by (auto simp: g)
  qed
  then show "get_row sk_key (repo, it_name s) T1 \<noteq> None"
    "\<And>k. k \<noteq> (repo, it_name s) \<Longrightarrow> get_row sk_key k T1 = get_row sk_key k T"
    "\<And>r. get_row sk_key (repo, it_name s) T1 = Some r \<Longrightarrow> sk_content_sha r = it_content_sha s"
    by blast+
qed

lemma upsert_others:
  assumes "upsert_skill now repo s T = (T1, b)"
  shows "filter (\<lambda>r. sk_repo r \<noteq> repo) T1 = filter (\<lambda>r. sk_repo r \<noteq> repo) T"
proof -
  have "filter (\<lambda>r. sk_repo r \<noteq> repo) (upd_where P f U) = filter (\<lambda>r. sk_repo r \<noteq> repo) U"
    if "\<And>r. P r \<Longrightarrow> sk_repo r = repo \<and> sk_repo (f r) = repo" for P f and U :: "skill_row list"
    using that by (induction U) auto
  from this [of "\<lambda>r. sk_key r = (repo, it_name s) \<and> sk_content_sha r \<noteq> it_content_sha s" "refresh s" T]
  have "filter (\<lambda>r. sk_repo r \<noteq> repo) (upd_where (\<lambda>r. sk_key r = (repo, it_name s)
      \<and> sk_content_sha r \<noteq> it_content_sha s) (refresh s) T) = filter (\<lambda>r. sk_repo r \<noteq> repo) T"
    by (simp add: sk_key_def)
  with assms show ?thesis by (auto simp: upsert_skill_def cas_def split: if_splits)
qed

lemma upsert_keys:
  assumes "upsert_skill now repo s T = (T1, b)" "distinct (map sk_key T)"
  shows "distinct (map sk_key T1)"
proof (cases "get_row sk_key (repo, it_name s) T")
  case None
  with assms(1) obtain x where "T1 = T @ [x]" "sk_key x = (repo, it_name s)"
    by (auto simp: upsert_skill_def sk_key_def)
  with None assms(2) show ?thesis by (auto simp: get_row_None)
next
  case (Some r)
  with assms have "T1 = upd_where (\<lambda>r. sk_key r = (repo, it_name s) \<and> sk_content_sha r \<noteq> it_content_sha s) (refresh s) T"
    by (simp add: upsert_skill_def cas_def)
  with assms(2) show ?thesis by (simp add: keyed_upd)
qed

text \<open>A row that already has the item's digest is left alone, whatever its state.\<close>

lemma upsert_same:
  assumes "distinct (map sk_key T)" "get_row sk_key (repo, it_name s) T = Some r" "sk_content_sha r = it_content_sha s"
  shows "upsert_skill now repo s T = (T, False)"
proof -
  have "\<not> (sk_key x = (repo, it_name s) \<and> sk_content_sha x \<noteq> it_content_sha s)" if "x \<in> set T" for x
    using that assms get_row_iff [OF assms(1)] by (metis option.inject)
  then have "cas (\<lambda>r. sk_key r = (repo, it_name s) \<and> sk_content_sha r \<noteq> it_content_sha s) (refresh s) T = (T, False)"
    by (simp add: cas_def upd_where_id list_ex_iff)
  with assms(2) show ?thesis by (simp add: upsert_skill_def)
qed

lemma upsert_all_frame:
  assumes "upsert_all now repo ss T = (T1, n)" "distinct (map sk_key T)"
  shows "distinct (map sk_key T1) \<and> filter (\<lambda>r. sk_repo r \<noteq> repo) T1 = filter (\<lambda>r. sk_repo r \<noteq> repo) T
    \<and> (\<forall>k. k \<notin> Pair repo ` it_name ` set ss \<longrightarrow> get_row sk_key k T1 = get_row sk_key k T)"
  using assms
proof (induction ss arbitrary: T n)
  case (Cons s ss)
  obtain T' b where u: "upsert_skill now repo s T = (T', b)" by fastforce
  obtain n' where v: "upsert_all now repo ss T' = (T1, n')"
    using Cons.prems u by (auto split: prod.splits)
  from Cons.IH [OF v upsert_keys [OF u Cons.prems(2)]] upsert_others [OF u] upsert_get(2) [OF u]
  show ?case by auto
qed auto

lemmas upsert_all_keys = upsert_all_frame [THEN conjunct1]
  and upsert_all_others = upsert_all_frame [THEN conjunct2, THEN conjunct1]
  and upsert_all_get = upsert_all_frame [THEN conjunct2, THEN conjunct2, rule_format]

lemma upsert_all_indexed:
  assumes "upsert_all now repo ss T = (T1, n)" "distinct (map sk_key T)" "distinct (map it_name ss)" "s \<in> set ss"
  shows "\<exists>r. get_row sk_key (repo, it_name s) T1 = Some r \<and> sk_content_sha r = it_content_sha s"
  using assms
proof (induction ss arbitrary: T n)
  case (Cons x ss)
  obtain T' b where u: "upsert_skill now repo x T = (T', b)" by fastforce
  obtain n' where v: "upsert_all now repo ss T' = (T1, n')"
    using Cons.prems u by (auto split: prod.splits)
  note d = upsert_keys [OF u Cons.prems(2)]
  show ?case
  proof (cases "s \<in> set ss")
    case True
    with Cons.IH [OF v d] Cons.prems(3) show ?thesis by simp
  next
    case False
    with Cons.prems have "s = x" "(repo, it_name x) \<notin> Pair repo ` it_name ` set ss" by auto
    with upsert_all_get [OF v d] upsert_get(1,3) [OF u] show ?thesis by fastforce
  qed
qed simp

lemma upsert_all_fixed:
  assumes "\<And>s. s \<in> set ss \<Longrightarrow> upsert_skill now repo s T = (T, False)"
  shows "upsert_all now repo ss T = (T, 0)"
  using assms by (induction ss) auto

lemma archive_get:
  "get_row sk_key k (upd_where (gone repo present) (\<lambda>r. r\<lparr>sk_state := Sk_Archived\<rparr>) T)
     = map_option (\<lambda>r. if gone repo present r then r\<lparr>sk_state := Sk_Archived\<rparr> else r) (get_row sk_key k T)"
  by (rule get_row_upd_where) (simp add: sk_key_def)

section \<open>The theorems\<close>

text \<open>
  Selection is bounded and fail-closed: at most two skills are chosen, each is an active skill of
  the repository whose trigger is not banned and fires on a changed path, and its body still has
  the recorded digest; a name reported as drifted belongs to a row whose body does not.
\<close>

theorem select_skills_sound:
  assumes "select_skills sha repo paths T = (sel, drift)"
  shows "length sel \<le> 2
    \<and> (\<forall>x. x \<in> set sel \<longrightarrow> (\<exists>r ms. r \<in> set T \<and> x = (sk_name r, sk_body r) \<and> sk_repo r = repo \<and> sk_state r = Sk_Active
          \<and> \<not> is_banned_trigger (sk_trigger r) \<and> match_specificity (sk_trigger r) paths = Some ms
          \<and> sha (sk_body r) = sk_body_sha r))
    \<and> (\<forall>n. n \<in> set drift \<longrightarrow> (\<exists>r. r \<in> set T \<and> sk_name r = n \<and> sha (sk_body r) \<noteq> sk_body_sha r))"
proof -
  define rows where "rows = filter (\<lambda>r. sk_repo r = repo \<and> sk_state r = Sk_Active) T"
  define cand where "cand = map fst (sort_key rank (candidates sha paths rows))"
  have e: "sel = map (\<lambda>r. (sk_name r, sk_body r)) (take 2 cand)" "drift = drifted sha paths rows"
    using assms by (simp_all add: select_skills_def rows_def cand_def Let_def)
  have "\<exists>ms. (r, ms) \<in> set (candidates sha paths rows)" if "r \<in> set (take 2 cand)" for r
    using in_set_takeD [OF that] by (auto simp: cand_def)
  then have ok: "\<exists>ms. r \<in> set T \<and> sk_repo r = repo \<and> sk_state r = Sk_Active \<and> \<not> is_banned_trigger (sk_trigger r)
      \<and> match_specificity (sk_trigger r) paths = Some ms \<and> sha (sk_body r) = sk_body_sha r" if "r \<in> set (take 2 cand)" for r
    using that unfolding in_candidates admits_Some rows_def by fastforce
  show ?thesis
  proof (intro conjI allI impI)
    show "length sel \<le> 2" by (simp add: e)
    show "\<exists>r ms. r \<in> set T \<and> x = (sk_name r, sk_body r) \<and> sk_repo r = repo \<and> sk_state r = Sk_Active
          \<and> \<not> is_banned_trigger (sk_trigger r) \<and> match_specificity (sk_trigger r) paths = Some ms
          \<and> sha (sk_body r) = sk_body_sha r" if "x \<in> set sel" for x
      using that ok unfolding e set_map by blast
    show "\<exists>r. r \<in> set T \<and> sk_name r = n \<and> sha (sk_body r) \<noteq> sk_body_sha r" if "n \<in> set drift" for n
      using that by (auto simp: e drifted_def rows_def)
  qed
qed

text \<open>
  Selection prefers what it should: a candidate that is left out never ranks before one that was
  chosen, where a never-used skill comes before a used one, then the more specific match, then the
  more recent use.
\<close>

theorem select_skills_best:
  assumes "x \<in> set (take 2 (sort_key rank (candidates sha paths rows)))"
    and "y \<in> set (candidates sha paths rows)" "y \<notin> set (take 2 (sort_key rank (candidates sha paths rows)))"
  shows "(sk_last_used (fst y) = None \<longrightarrow> sk_last_used (fst x) = None)
    \<and> (sk_last_used (fst x) = sk_last_used (fst y) \<longrightarrow> snd y \<le> snd x)"
proof -
  have "rank x \<le> rank y" by (rule take_sorted_best [OF assms])
  then show ?thesis by (auto simp: rank_def less_eq_prod_def)
qed

text \<open>
  Indexing is idempotent: a second index of the same items, at any later time, changes no row,
  refreshes nothing and archives nothing.
\<close>

theorem index_skills_idempotent:
  assumes "distinct (map sk_key T)" "distinct (map it_name skills)"
  shows "index_skills now' repo skills (fst (index_skills now repo skills T))
    = (fst (index_skills now repo skills T), 0, 0, length skills)"
proof -
  obtain T1 n where u: "upsert_all now repo skills T = (T1, n)" by fastforce
  let ?p = "map it_name skills"
  define T2 where "T2 = upd_where (gone repo ?p) (\<lambda>r. r\<lparr>sk_state := Sk_Archived\<rparr>) T1"
  have T2: "fst (index_skills now repo skills T) = T2" by (simp add: index_skills_def u T2_def Let_def)
  have d1: "distinct (map sk_key T1)" by (rule upsert_all_keys [OF u assms(1)])
  have d2: "distinct (map sk_key T2)" unfolding T2_def by (rule keyed_upd [OF d1]) (simp add: sk_key_def)
  have "upsert_skill now' repo s T2 = (T2, False)" if s: "s \<in> set skills" for s
  proof -
    from upsert_all_indexed [OF u assms s] obtain r where r: "get_row sk_key (repo, it_name s) T1 = Some r"
      "sk_content_sha r = it_content_sha s" by blast
    then show ?thesis
      by (intro upsert_same [OF d2, of repo s "if gone repo ?p r then r\<lparr>sk_state := Sk_Archived\<rparr> else r"])
        (simp_all add: T2_def archive_get)
  qed
  then have fixed: "upsert_all now' repo skills T2 = (T2, 0)" by (rule upsert_all_fixed)
  have none: "\<not> gone repo ?p r" if "r \<in> set T2" for r
    using that by (auto simp: T2_def in_upd_where gone_def)
  then have "upd_where (gone repo ?p) f T2 = T2" "count_where (gone repo ?p) T2 = 0" for f
    by (auto intro: upd_where_id simp: count_where_0_iff)
  with fixed have "index_skills now' repo skills T2 = (T2, 0, 0, length skills)" by (simp add: index_skills_def Let_def)
  then show ?thesis unfolding T2 .
qed

text \<open>
  Indexing reconciles one repository and leaves the others alone: afterwards every skill of the
  repository that is not archived is among the items, every item has a row with its content digest,
  and the rows of other repositories are unchanged.
\<close>

theorem index_skills_reconciles:
  assumes "distinct (map sk_key T)" "distinct (map it_name skills)" "index_skills now repo skills T = (T', out)"
  shows "filter (\<lambda>r. sk_repo r \<noteq> repo) T' = filter (\<lambda>r. sk_repo r \<noteq> repo) T
    \<and> (\<forall>r. r \<in> set T' \<and> sk_repo r = repo \<and> sk_state r \<noteq> Sk_Archived \<longrightarrow> sk_name r \<in> it_name ` set skills)
    \<and> (\<forall>s. s \<in> set skills \<longrightarrow> (\<exists>r. get_row sk_key (repo, it_name s) T' = Some r \<and> sk_content_sha r = it_content_sha s))"
proof (intro conjI)
  obtain T1 n where u: "upsert_all now repo skills T = (T1, n)" by fastforce
  let ?p = "map it_name skills"
  have T': "T' = upd_where (gone repo ?p) (\<lambda>r. r\<lparr>sk_state := Sk_Archived\<rparr>) T1"
    using assms(3) by (simp add: index_skills_def u Let_def)
  have "filter (\<lambda>r. sk_repo r \<noteq> repo) (upd_where (gone repo p) (\<lambda>r. r\<lparr>sk_state := Sk_Archived\<rparr>) U)
      = filter (\<lambda>r. sk_repo r \<noteq> repo) U" for p and U :: "skill_row list"
    by (induction U) (auto simp: gone_def)
  with upsert_all_others [OF u assms(1)] show "filter (\<lambda>r. sk_repo r \<noteq> repo) T' = filter (\<lambda>r. sk_repo r \<noteq> repo) T"
    by (simp add: T')
  show "\<forall>r. r \<in> set T' \<and> sk_repo r = repo \<and> sk_state r \<noteq> Sk_Archived \<longrightarrow> sk_name r \<in> it_name ` set skills"
  proof (intro allI impI)
    fix r assume r: "r \<in> set T' \<and> sk_repo r = repo \<and> sk_state r \<noteq> Sk_Archived"
    then obtain y where "r = (if gone repo ?p y then y\<lparr>sk_state := Sk_Archived\<rparr> else y)" by (auto simp: T' in_upd_where)
    with r show "sk_name r \<in> it_name ` set skills" by (cases "gone repo ?p y") (auto simp: gone_def)
  qed
  show "\<forall>s. s \<in> set skills \<longrightarrow> (\<exists>r. get_row sk_key (repo, it_name s) T' = Some r \<and> sk_content_sha r = it_content_sha s)"
    using upsert_all_indexed [OF u assms(1,2)] by (fastforce simp: T' archive_get)
qed

text \<open>
  A removed skill that is restored unchanged stays archived: the upsert's guard compares the
  content digest only, so indexing it again does not bring it back.
\<close>

theorem restored_skill_stays_archived:
  "\<exists>T0 item. map sk_state T0 = [Sk_Active] \<and>
     (let T1 = fst (index_skills 1 ''r'' [] T0); T2 = fst (index_skills 2 ''r'' [item] T1) in
      map sk_name T0 = [it_name item] \<and> map sk_content_sha T0 = [it_content_sha item]
      \<and> map sk_state T1 = [Sk_Archived] \<and> map sk_state T2 = [Sk_Archived])"
proof (intro exI conjI)
  let ?i = "\<lparr>it_name = [97], it_description = [98], it_body = [99], it_body_sha = ''b'', it_content_sha = ''c'', it_trigger = [97]\<rparr>"
  let ?T = "[\<lparr>sk_name = [97], sk_description = [98], sk_body = [99], sk_body_sha = ''b'', sk_content_sha = ''c'',
     sk_repo = ''r'', sk_trigger = [97], sk_state = Sk_Active, sk_last_used = None, sk_created = 0\<rparr>]"
  show "map sk_state ?T = [Sk_Active]" by simp
  show "let T1 = fst (index_skills 1 ''r'' [] ?T); T2 = fst (index_skills 2 ''r'' [?i] T1) in
      map sk_name ?T = [it_name ?i] \<and> map sk_content_sha ?T = [it_content_sha ?i]
      \<and> map sk_state T1 = [Sk_Archived] \<and> map sk_state T2 = [Sk_Archived]"
    by (simp add: index_skills_def gone_def upsert_skill_def get_row_def sk_key_def cas_def Let_def)
qed

text \<open>The state a prune leaves a row in.\<close>

definition pruned :: "time \<Rightarrow> skill_row \<Rightarrow> skill_state" where
  "pruned now r =
     (if sk_state r \<noteq> Sk_Archived \<and> idle_since r < now - SKILL_ARCHIVE_DAYS * day then Sk_Archived
      else if sk_state r = Sk_Active \<and> idle_since r < now - SKILL_STALE_DAYS * day then Sk_Stale
      else sk_state r)"

text \<open>
  The prune only flips states, row by row: an idle row goes to stale after 30 days and to
  archived after 90, in one pass if need be; nothing is deleted, reactivated or otherwise changed.
\<close>

theorem prune_skills_spec:
  "fst (prune_skills now T) = map (\<lambda>r. r\<lparr>sk_state := pruned now r\<rparr>) T"
proof -
  have idle: "idle_since (r\<lparr>sk_state := s\<rparr>) = idle_since r" for r s by (simp add: idle_since_def split: option.split)
  have le: "now - SKILL_ARCHIVE_DAYS * day < now - SKILL_STALE_DAYS * day"
    by (simp add: SKILL_ARCHIVE_DAYS_def SKILL_STALE_DAYS_def day_def)
  show ?thesis
    unfolding prune_skills_def Let_def fst_conv upd_where_def map_map comp_def
  proof (rule map_cong [OF refl])
    fix r :: skill_row
    show "(if sk_state (if sk_state r = Sk_Active \<and> idle_since r < now - SKILL_STALE_DAYS * day
            then r\<lparr>sk_state := Sk_Stale\<rparr> else r) = Sk_Stale
          \<and> idle_since (if sk_state r = Sk_Active \<and> idle_since r < now - SKILL_STALE_DAYS * day
            then r\<lparr>sk_state := Sk_Stale\<rparr> else r) < now - SKILL_ARCHIVE_DAYS * day
        then (if sk_state r = Sk_Active \<and> idle_since r < now - SKILL_STALE_DAYS * day
            then r\<lparr>sk_state := Sk_Stale\<rparr> else r)\<lparr>sk_state := Sk_Archived\<rparr>
        else (if sk_state r = Sk_Active \<and> idle_since r < now - SKILL_STALE_DAYS * day
            then r\<lparr>sk_state := Sk_Stale\<rparr> else r)) = r\<lparr>sk_state := pruned now r\<rparr>"
      using le by (cases "sk_state r") (auto simp: pruned_def idle)
  qed
qed

section \<open>Witnesses\<close>

definition ex_skill :: "pytext \<Rightarrow> time option \<Rightarrow> skill_row" where
  "ex_skill n used = \<lparr>sk_name = n, sk_description = [100], sk_body = [98], sk_body_sha = ''s'', sk_content_sha = ''c'',
     sk_repo = ''r'', sk_trigger = codes ''src/*.py'', sk_state = Sk_Active, sk_last_used = used, sk_created = 0\<rparr>"

definition ex_skills :: "skill_row list" where
  "ex_skills = [ex_skill [97] (Some 5), ex_skill [98] (Some 9), ex_skill [99] None]"

definition ex_item :: skill_item where
  "ex_item = \<lparr>it_name = [97], it_description = [100], it_body = [98], it_body_sha = ''s'', it_content_sha = ''c2'',
     it_trigger = codes ''src/*.py''\<rparr>"

definition ex_paths :: "pytext list" where
  "ex_paths = [codes ''src/a.py'']"

lemma ex_fires: "match_specificity (codes ''src/*.py'') ex_paths = Some 1" "\<not> is_banned_trigger (codes ''src/*.py'')"
  by (simp_all add: ex_paths_def match_specificity_def alt_specificity_def text_eval)

lemma ex_candidates:
  "candidates (\<lambda>_. ''s'') ex_paths ex_skills = map (\<lambda>r. (r, 1)) ex_skills"
  by (simp add: candidates_def ex_skills_def ex_skill_def admits_def ex_fires)

theorem select_skills_sound_witness:
  "select_skills (\<lambda>_. ''s'') ''r'' ex_paths ex_skills = ([([99], [98]), ([98], [98])], [])
   \<and> length (fst (select_skills (\<lambda>_. ''s'') ''r'' ex_paths ex_skills)) \<le> 2"
proof -
  have rows: "filter (\<lambda>r. sk_repo r = ''r'' \<and> sk_state r = Sk_Active) ex_skills = ex_skills"
    by (simp add: ex_skills_def ex_skill_def)
  have "drifted (\<lambda>_. ''s'') ex_paths ex_skills = []" by (simp add: drifted_def ex_skills_def ex_skill_def)
  with rows ex_candidates have e: "select_skills (\<lambda>_. ''s'') ''r'' ex_paths ex_skills = ([([99], [98]), ([98], [98])], [])"
    by (simp add: select_skills_def ex_skills_def ex_skill_def rank_def)
  from select_skills_sound [OF this] e show ?thesis by simp
qed

theorem select_skills_best_witness:
  "sk_last_used (ex_skill [97] (Some 5)) = Some 5 \<and> sk_last_used (ex_skill [99] None) = None"
proof -
  have "(ex_skill [99] None, 1) \<in> set (take 2 (sort_key rank (candidates (\<lambda>_. ''s'') ex_paths ex_skills)))"
    "(ex_skill [97] (Some 5), 1) \<in> set (candidates (\<lambda>_. ''s'') ex_paths ex_skills)"
    "(ex_skill [97] (Some 5), 1) \<notin> set (take 2 (sort_key rank (candidates (\<lambda>_. ''s'') ex_paths ex_skills)))"
    by (simp_all add: ex_candidates, simp_all add: ex_skills_def ex_skill_def rank_def)
  from select_skills_best [OF this] show ?thesis by (simp add: ex_skill_def)
qed

lemma ex_skills_keys: "distinct (map sk_key ex_skills)" "distinct (map it_name [ex_item])"
  by (simp_all add: ex_skills_def ex_skill_def sk_key_def)

theorem index_skills_idempotent_witness:
  "index_skills 8 ''r'' [ex_item] (fst (index_skills 7 ''r'' [ex_item] ex_skills))
     = (fst (index_skills 7 ''r'' [ex_item] ex_skills), 0, 0, 1)"
  using index_skills_idempotent [OF ex_skills_keys, of 8 "''r''" 7] by simp

theorem index_skills_reconciles_witness:
  "\<exists>r. get_row sk_key (''r'', [97]) (fst (index_skills 7 ''r'' [ex_item] ex_skills)) = Some r \<and> sk_content_sha r = ''c2''"
proof -
  obtain T' out where "index_skills 7 ''r'' [ex_item] ex_skills = (T', out)"
    by (cases "index_skills 7 ''r'' [ex_item] ex_skills")
  with index_skills_reconciles [OF ex_skills_keys this] show ?thesis by (simp add: ex_item_def)
qed

end
