(* ===== verification/Outcomes.thy ===== *)
theory Outcomes
  imports Capture
begin

text \<open>
  \<^verbatim>\<open>src/runtime/outcomes.py\<close>, the pure core of the outcomes ledger: the identity of a finding, the
  parser of \<^verbatim>\<open>finding:\<close> lines, and the two reads of git objects that open and close a finding. Git is
  an argument (\<open>git\<close>, the output of a read or \<open>None\<close> when it fails), as are SHA-256 and lower-casing.
\<close>

definition OUTCOME_MAX_ROWS :: nat where
  "OUTCOME_MAX_ROWS = 50"

section \<open>Identity\<close>

text \<open>\<^verbatim>\<open>re.sub(r"\s+", " ", s)\<close>; the flag says whether a run of spaces has already been written.\<close>

fun sub_space :: "bool \<Rightarrow> pytext \<Rightarrow> pytext" where
  "sub_space inrun [] = []"
| "sub_space inrun (c # s) =
     (if is_space c then (if inrun then sub_space True s else 32 # sub_space True s) else c # sub_space False s)"

definition normalize_line :: "pytext \<Rightarrow> pytext" where
  "normalize_line content = strip (sub_space False content)"

definition line_hash :: "(pytext \<Rightarrow> string) \<Rightarrow> pytext \<Rightarrow> string" where
  "line_hash sha content = sha (normalize_line content)"

definition finding_key :: "(pytext \<Rightarrow> string) \<Rightarrow> pytext \<Rightarrow> pytext \<Rightarrow> pytext \<Rightarrow> string \<Rightarrow> string" where
  "finding_key sha repo tag path lh = sha (join_on [0] [repo, tag, path, codes lh])"

definition excluded_path :: "pytext \<Rightarrow> bool" where
  "excluded_path path \<longleftrightarrow> prefix (codes ''skills/'') path \<or> prefix (codes ''skill/auto/'') path"

section \<open>The parser\<close>

record finding =
  fi_tag :: pytext
  fi_path :: pytext
  fi_line :: nat

text \<open>
  A letter of the keyword under \<^verbatim>\<open>re.IGNORECASE\<close>: beside its upper case, \<^verbatim>\<open>i\<close> also matches the dotted
  capital and the dotless small letter.
\<close>

definition ci_eq :: "nat \<Rightarrow> nat \<Rightarrow> bool" where
  "ci_eq l c \<longleftrightarrow> ascii_lower c = l \<or> (l = 105 \<and> (c = 304 \<or> c = 305))"

definition finding_line :: "pytext \<Rightarrow> pytext option" where
  "finding_line ln =
     (let a = dropWhile blank ln; key = codes ''finding:''; rest = drop (length key) a in
      if length key \<le> length a \<and> list_all2 ci_eq key (take (length key) a) \<and> rest \<noteq> [] then Some rest else None)"

text \<open>\<^verbatim>\<open>partition\<close> at the first occurrence, and \<^verbatim>\<open>rsplit(sep, 1)\<close> through the reversed text.\<close>

fun split_first :: "pytext \<Rightarrow> pytext \<Rightarrow> (pytext \<times> pytext) option" where
  "split_first sep [] = (if sep = [] then Some ([], []) else None)"
| "split_first sep (c # s) =
     (if prefix sep (c # s) then Some ([], drop (length sep) (c # s))
      else map_option (\<lambda>(a, b). (c # a, b)) (split_first sep s))"

definition rsplit1 :: "pytext \<Rightarrow> pytext \<Rightarrow> (pytext \<times> pytext) option" where
  "rsplit1 sep s = map_option (\<lambda>(a, b). (rev b, rev a)) (split_first (rev sep) (rev s))"

definition SEP :: pytext where
  "SEP = codes '' @ ''"

definition digit :: "nat \<Rightarrow> bool" where
  "digit c \<longleftrightarrow> 48 \<le> c \<and> c \<le> 57"

definition nat_of_digits :: "pytext \<Rightarrow> nat" where
  "nat_of_digits s = foldl (\<lambda>n c. 10 * n + (c - 48)) 0 s"

text \<open>The interpreter refuses to convert a decimal text of more digits.\<close>

definition int_max_str_digits :: nat where
  "int_max_str_digits = 4300"

datatype parsed_line = Kept finding | Dropped | Value_Error_Raised

definition parse_line :: "(pytext \<Rightarrow> pytext) \<Rightarrow> pytext list \<Rightarrow> pytext \<Rightarrow> parsed_line" where
  "parse_line lower allowed raw =
     (if list_ex raw_ctrl raw then Dropped
      else case rsplit1 SEP raw of
        None \<Rightarrow> Dropped
      | Some (tag_part, chunk0) \<Rightarrow>
          (let tag = lower (strip tag_part) in
           if \<not> is_allowed_tag lower tag \<or> tag \<notin> set allowed then Dropped
           else
             (let chunk = strip chunk0 in
              case rsplit1 [58] chunk of
                None \<Rightarrow> Dropped
              | Some (before, after) \<Rightarrow>
                  if before = [] then Dropped
                  else
                    (let path = strip before; line_s = strip after in
                     if path = [] \<or> line_s = [] \<or> \<not> list_all digit line_s then Dropped
                     else if length line_s > int_max_str_digits then Value_Error_Raised
                     else if nat_of_digits line_s < 1 \<or> excluded_path path then Dropped
                     else Kept \<lparr>fi_tag = tag, fi_path = path, fi_line = nat_of_digits line_s\<rparr>))))"

fun parse_lines ::
  "(pytext \<Rightarrow> pytext) \<Rightarrow> pytext list \<Rightarrow> finding list \<Rightarrow> nat \<Rightarrow> pytext list \<Rightarrow> (finding list \<times> nat) option" where
  "parse_lines lower allowed fs dropped [] = Some (fs, dropped)"
| "parse_lines lower allowed fs dropped (raw # raws) =
     (case parse_line lower allowed raw of
        Value_Error_Raised \<Rightarrow> None
      | Dropped \<Rightarrow> parse_lines lower allowed fs (Suc dropped) raws
      | Kept f \<Rightarrow>
          if length fs \<ge> OUTCOME_MAX_ROWS then parse_lines lower allowed fs (Suc dropped) raws
          else parse_lines lower allowed (fs @ [f]) dropped raws)"

definition parse_finding_lines ::
  "(pytext \<Rightarrow> pytext) \<Rightarrow> pytext list \<Rightarrow> pytext \<Rightarrow> (finding list \<times> nat) option" where
  "parse_finding_lines lower allowed text =
     parse_lines lower allowed [] 0 (List.map_filter finding_line (split_on 10 text))"

section \<open>Reading git objects\<close>

datatype git_query = Cat_Blob string pytext | Ls_Tree string pytext

type_synonym git = "git_query \<Rightarrow> pytext option"

definition line_in_hunks :: "int \<Rightarrow> (int \<times> int) list \<Rightarrow> bool" where
  "line_in_hunks line hunks = list_ex (\<lambda>(start, cnt). cnt > 0 \<and> start \<le> line \<and> line \<le> start + cnt - 1) hunks"

definition resolve_and_hash ::
  "(pytext \<Rightarrow> string) \<Rightarrow> git option \<Rightarrow> string \<Rightarrow> pytext \<Rightarrow> int \<Rightarrow> (int \<times> int) list \<Rightarrow> string option" where
  "resolve_and_hash sha git tip path line hunks = (case git of
     None \<Rightarrow> None
   | Some g \<Rightarrow>
       if \<not> line_in_hunks line hunks then None
       else case g (Cat_Blob tip path) of
         None \<Rightarrow> None
       | Some out \<Rightarrow>
           (let lines = split_on 10 out in
            if line < 1 \<or> line > int (length lines) then None
            else let content = lines ! nat (line - 1) in
              if normalize_line content = [] then None else Some (line_hash sha content)))"

definition rstrip_nl :: "pytext \<Rightarrow> pytext" where
  "rstrip_nl s = rev (dropWhile (\<lambda>c. c = 13 \<or> c = 10) (rev s))"

definition file_line_hashes ::
  "(pytext \<Rightarrow> string) \<Rightarrow> git option \<Rightarrow> string \<Rightarrow> pytext \<Rightarrow> string set option" where
  "file_line_hashes sha git tip path = (case git of
     None \<Rightarrow> None
   | Some g \<Rightarrow>
       (case g (Cat_Blob tip path) of
          Some out \<Rightarrow> Some (line_hash sha ` {c \<in> set (split_on 10 out). normalize_line c \<noteq> []})
        | None \<Rightarrow>
            (case g (Ls_Tree tip path) of
               None \<Rightarrow> None
             | Some listed0 \<Rightarrow>
                 (let listed = rstrip_nl listed0 in
                  if listed = [] then Some {}
                  else
                    (let fields = split_ws listed;
                         obj_type = (if length fields \<ge> 2 then fields ! 1 else [])
                     in if obj_type = codes ''blob'' then None else Some {})))))"

section \<open>Facts\<close>

definition rstrip :: "pytext \<Rightarrow> pytext" where
  "rstrip s = rev (dropWhile is_space (rev s))"

lemma strip_rstrip: "strip s = rstrip (lstrip s)"
  by (simp add: strip_def rstrip_def)

lemma rstrip_append: "rstrip z \<noteq> [] \<Longrightarrow> rstrip (y @ z) = y @ rstrip z"
  unfolding rstrip_def by (simp add: dropWhile_append) (metis dropWhile_eq_Nil_conv)

lemma rstrip_idle: "x \<noteq> [] \<Longrightarrow> \<not> is_space (last x) \<Longrightarrow> rstrip x = x"
  unfolding rstrip_def by (cases x rule: rev_cases) auto

lemma rstrip_space: "x \<noteq> [] \<Longrightarrow> \<not> is_space (last x) \<Longrightarrow> rstrip (x @ [32]) = x"
  unfolding rstrip_def by (cases x rule: rev_cases) (auto simp: is_space_def)

lemma join_words_ne: "acc \<noteq> [] \<Longrightarrow> join_on [32] (words_acc acc s) \<noteq> []"
proof (induction acc s rule: words_acc.induct)
  case (2 acc x xs)
  then show ?case by (cases "words_acc [] xs") auto
qed simp

lemma join_Cons: "join_on sep (w # ws) = w @ (if ws = [] then [] else sep @ join_on sep ws)"
  by (cases ws) simp_all

lemma rstrip_words:
  "(acc \<noteq> [] \<longrightarrow> list_all (\<lambda>c. \<not> is_space c) acc \<longrightarrow> rstrip (rev acc @ sub_space False s) = join_on [32] (words_acc acc s))
   \<and> (x \<noteq> [] \<longrightarrow> \<not> is_space (last x) \<longrightarrow> rstrip (x @ 32 # sub_space True s)
        = x @ (if words_acc [] s = [] then [] else 32 # join_on [32] (words_acc [] s)))"
proof (induction s arbitrary: acc x)
  case Nil
  then show ?case using rstrip_idle [of "rev acc"] rstrip_space [of x] by (auto simp: last_rev list_all_iff)
next
  case (Cons c s)
  show ?case
  proof (cases "is_space c")
    case True
    have "\<not> is_space (last (rev acc))" if "acc \<noteq> []" "list_all (\<lambda>c. \<not> is_space c) acc"
      using that by (simp add: last_rev list_all_iff)
    with True Cons.IH [of "[]" "rev acc"] Cons.IH [of "[]" x] show ?thesis by (auto simp: join_Cons)
  next
    case False
    have A: "rstrip (c # sub_space False s) = join_on [32] (words_acc [c] s)" using False Cons.IH [of "[c]"] by simp
    then have ne: "rstrip (c # sub_space False s) \<noteq> []" "words_acc [c] s \<noteq> []" using join_words_ne [of "[c]" s] by auto
    from rstrip_append [OF ne(1), of "x @ [32]"] A ne(2) False Cons.IH [of "c # acc"] show ?thesis by auto
  qed
qed

lemma strip_sub_space: "strip (sub_space b s) = join_on [32] (split_ws s)"
  unfolding split_ws_def
proof (induction s arbitrary: b)
  case Nil
  show ?case by (simp add: strip_def lstrip_def)
next
  case (Cons c s)
  show ?case
  proof (cases "is_space c")
    case True
    with Cons.IH show ?thesis by (cases b) (simp_all add: strip_def lstrip_def is_space_def)
  next
    case False
    then have "strip (sub_space b (c # s)) = rstrip (c # sub_space False s)" by (simp add: strip_rstrip lstrip_def)
    with False rstrip_words [of "[c]" s] show ?thesis by simp
  qed
qed

lemma normalize_words: "normalize_line s = join_on [32] (split_ws s)"
  by (simp add: normalize_line_def strip_sub_space)

lemma words_join:
  assumes "\<And>w. w \<in> set ws \<Longrightarrow> w \<noteq> [] \<and> list_all (\<lambda>c. \<not> is_space c) w"
  shows "split_ws (join_on [32] ws) = ws"
proof -
  have word: "words_acc acc (w @ 32 # s) = (rev acc @ w) # words_acc [] s" if "list_all (\<lambda>c. \<not> is_space c) w" "acc @ w \<noteq> []" for acc w s
    using that by (induction w arbitrary: acc) (auto simp: is_space_def)
  from assms show ?thesis unfolding split_ws_def
  proof (induction "[32::nat]" ws rule: join_on.induct)
    case (3 p q ps)
    then show ?case using word [of p "[]"] by simp
  qed (simp_all add: words_acc_word)
qed

lemma normalize_idem: "normalize_line (normalize_line s) = normalize_line s"
  unfolding normalize_words by (simp add: words_join split_ws_parts)

lemma rsplit1_Some: "rsplit1 sep s = Some (a, b) \<Longrightarrow> s = a @ sep @ b"
proof -
  have "split_first sep s = Some (a, b) \<Longrightarrow> s = a @ sep @ b" for sep s a b
  proof (induction s arbitrary: a)
    case (Cons c s)
    then show ?case by (auto split: if_splits elim: prefixE)
  qed (simp split: if_splits)
  from this [of "rev sep" "rev s"] show "rsplit1 sep s = Some (a, b) \<Longrightarrow> s = a @ sep @ b"
    by (auto simp: rsplit1_def) (metis rev_append rev_rev_ident append_assoc)
qed

definition finding_ok :: "(pytext \<Rightarrow> pytext) \<Rightarrow> pytext list \<Rightarrow> finding \<Rightarrow> bool" where
  "finding_ok lower allowed f \<longleftrightarrow> fi_tag f \<in> set allowed \<and> is_allowed_tag lower (fi_tag f) \<and> fi_path f \<noteq> []
     \<and> list_all (\<lambda>c. \<not> raw_ctrl c) (fi_path f) \<and> \<not> excluded_path (fi_path f) \<and> 1 \<le> fi_line f"

lemma parse_line_Kept:
  assumes "parse_line lower allowed raw = Kept f"
  shows "finding_ok lower allowed f"
proof -
  from assms obtain t c b a where r: "\<not> list_ex raw_ctrl raw" "rsplit1 SEP raw = Some (t, c)" "rsplit1 [58] (strip c) = Some (b, a)"
    and f: "fi_path f = strip b" "strip b \<noteq> []" "fi_tag f = lower (strip t)" "is_allowed_tag lower (fi_tag f)" "fi_tag f \<in> set allowed"
      "\<not> excluded_path (strip b)" "1 \<le> fi_line f"
    by (auto simp: parse_line_def Let_def split: if_splits option.splits prod.splits)
  have "set (strip b) \<subseteq> set b" "set b \<subseteq> set (strip c)" "set (strip c) \<subseteq> set c" "set c \<subseteq> set raw"
    using set_strip [of b] set_strip [of c] rsplit1_Some [OF r(2)] rsplit1_Some [OF r(3)] by (auto simp del: set_append) auto
  then have "set (strip b) \<subseteq> set raw" by blast
  with r(1) have "list_all (\<lambda>c. \<not> raw_ctrl c) (strip b)" unfolding list_ex_iff list_all_iff by blast
  with f show ?thesis unfolding finding_ok_def by simp
qed

lemma parse_lines_inv:
  assumes "parse_lines lower allowed fs n raws = Some (fs', n')" "list_all (finding_ok lower allowed) fs" "length fs \<le> OUTCOME_MAX_ROWS"
  shows "list_all (finding_ok lower allowed) fs' \<and> length fs' \<le> OUTCOME_MAX_ROWS \<and> length fs' + n' = length fs + n + length raws"
  using assms
proof (induction lower allowed fs n raws rule: parse_lines.induct)
  case (2 lower allowed fs n raw raws)
  show ?case
  proof (cases "parse_line lower allowed raw")
    case (Kept f)
    show ?thesis
    proof (cases "length fs \<ge> OUTCOME_MAX_ROWS")
      case True
      with 2 Kept show ?thesis by simp
    next
      case False
      with 2(2) [OF Kept False] 2(4-6) Kept parse_line_Kept [OF Kept] show ?thesis by simp
    qed
  next
    case Dropped
    with 2(3) [OF Dropped] 2(4-6) show ?thesis by simp
  qed (use 2(4) in simp)
qed simp

section \<open>Theorems\<close>

text \<open>
  Only well-formed findings leave the parser and none is lost silently: every kept finding has an
  allowlisted tag, a path without control characters outside the skills corpus and a positive line,
  at most fifty are kept, and the kept and the dropped ones add up to the \<^verbatim>\<open>finding:\<close> lines of the text.
\<close>

theorem parse_finding_lines_sound:
  assumes "parse_finding_lines lower allowed text = Some (fs, dropped)"
  shows "list_all (finding_ok lower allowed) fs \<and> length fs \<le> 50
    \<and> length fs + dropped = length (List.map_filter finding_line (split_on 10 text))"
  using parse_lines_inv [OF assms [unfolded parse_finding_lines_def]] by (simp add: OUTCOME_MAX_ROWS_def)

text \<open>
  The parser promises never to raise, but an allowlisted finding whose line number has more digits
  than the interpreter converts raises.
\<close>

theorem parse_long_number_raises:
  assumes "is_allowed_tag lower tag" "tag \<in> set allowed" "lower (strip t) = tag" "int_max_str_digits < n"
    and "rsplit1 SEP raw = Some (t, p @ 58 # replicate n 49)" "\<not> list_ex raw_ctrl raw"
    and "p \<noteq> []" "list_all (\<lambda>c. \<not> is_space c) p"
  shows "parse_line lower allowed raw = Value_Error_Raised"
proof -
  have one: "list_all (\<lambda>c. \<not> is_space c) (replicate n 49)" by (induction n) (simp_all add: is_space_def)
  then have ns: "list_all (\<lambda>c. \<not> is_space c) (p @ 58 # replicate n 49)" using assms(8) by (simp add: is_space_def [of 58])
  have dig: "list_all digit (replicate n 49)" by (induction n) (simp_all add: digit_def)
  have "split_first [58] (replicate n 49 @ 58 # rev p) = Some (replicate n 49, rev p)" by (induction n) simp_all
  then have r: "rsplit1 [58] (p @ 58 # replicate n 49) = Some (p, replicate n 49)" by (simp add: rsplit1_def)
  have "n \<noteq> 0" using assms(4) by simp
  then show ?thesis using assms strip_idle [OF ns] strip_idle [OF one] strip_idle [OF assms(8)] r dig
    by (simp add: parse_line_def Let_def)
qed

text \<open>
  The read that opens a finding agrees with the read that closes it: a line that resolves to a hash
  at a commit is in the set of hashes of its file at that commit, so the review that records a finding
  cannot close it.
\<close>

theorem resolved_line_is_present:
  assumes "resolve_and_hash sha git tip path line hunks = Some h"
  shows "\<exists>S. file_line_hashes sha git tip path = Some S \<and> h \<in> S"
proof -
  from assms obtain g out where g: "git = Some g" "g (Cat_Blob tip path) = Some out"
    and l: "\<not> line < 1" "\<not> line > int (length (split_on 10 out))"
    and c: "normalize_line (split_on 10 out ! nat (line - 1)) \<noteq> []" "h = line_hash sha (split_on 10 out ! nat (line - 1))"
    by (auto simp: resolve_and_hash_def Let_def split: option.splits if_splits)
  have "nat (line - 1) < length (split_on 10 out)" using l by linarith
  then have "split_on 10 out ! nat (line - 1) \<in> set (split_on 10 out)" by (rule nth_mem)
  with c g show ?thesis by (auto simp: file_line_hashes_def)
qed

text \<open>
  Two findings with the same key are the same tag on the same line content of the same file of the
  same repository, since none of the fields holds a NUL and the digest does not collide.
\<close>

theorem finding_key_separates:
  assumes "inj sha" "0 \<notin> set repo \<union> set tag \<union> set path" "0 \<notin> set repo' \<union> set tag' \<union> set path'"
    and "0 \<notin> set (codes lh)" "0 \<notin> set (codes lh')"
    and "finding_key sha repo tag path lh = finding_key sha repo' tag' path' lh'"
  shows "repo = repo' \<and> tag = tag' \<and> path = path' \<and> lh = lh'"
proof -
  have j: "join_on [0] [repo, tag, path, codes lh] = join_on [0] [repo', tag', path', codes lh']"
    using assms(1,6) by (auto simp: finding_key_def inj_def)
  have one: "split_on 0 (join_on [0] [repo, tag, path, codes lh]) = [repo, tag, path, codes lh]"
    by (rule split_join) (use assms(2,4) in auto)
  have two: "split_on 0 (join_on [0] [repo', tag', path', codes lh']) = [repo', tag', path', codes lh']"
    by (rule split_join) (use assms(3,5) in auto)
  have "[repo, tag, path, codes lh] = [repo', tag', path', codes lh']"
    by (rule trans [OF trans [OF one [symmetric] arg_cong [OF j, of "split_on 0"]] two])
  then have "repo = repo'" "tag = tag'" "path = path'" "codes lh = codes lh'" by (simp_all only: list.inject)
  moreover have "inj (map (of_char :: char \<Rightarrow> nat))" by (rule inj_mapI) (rule inj_of_char)
  ultimately show ?thesis unfolding codes_def by (simp add: inj_eq)
qed

end
