(* ===== verification/Outcomes_Store.thy ===== *)
theory Outcomes_Store
  imports Outcomes Complex_Main "HOL-Library.AList"
begin

text \<open>
  The outcomes ledger of \<^verbatim>\<open>src/runtime/ledger/postgres_store.py\<close>: the append-only table
  \<^verbatim>\<open>finding_outcome\<close> with its checks, the views over it (\<^verbatim>\<open>finding_current\<close>,
  \<^verbatim>\<open>finding_current_human\<close>, \<^verbatim>\<open>finding_labelqueue\<close>, the precision views) and the verbs that
  write and read it. Each verb is one transaction: a violated check rolls all of it back. A fetch
  without an \<^verbatim>\<open>ORDER BY\<close> is taken in key order.
\<close>

section \<open>The table\<close>

datatype finding_outcome = Opened | Applied_Fixed | Dismissed_FP | Dismissed_Wontfix | Reverted | Expired
  | Confirmed_Real | Exec_Real_Prior | Panel_Real | Panel_FP

datatype outcome_source = Review_Raised | Auto_Fix_Landed | Auto_Git_Revert | Human_Dismiss | Ttl_Sweep
  | Panel_Proposed | Exec_Verified | Human_Confirm

record finding_event =
  fo_key :: string
  fo_repo :: pytext
  fo_ref :: string
  fo_tag :: pytext
  fo_family :: string
  fo_path :: pytext
  fo_hash :: string
  fo_event :: string
  fo_tip :: string
  fo_outcome :: finding_outcome
  fo_source :: outcome_source

record outcome_row = finding_event +
  fo_seq :: nat
  fo_at :: time

record outcome_store =
  fos :: "outcome_row list"
  fo_next :: nat

definition REVIEWER_FAMILIES :: "string list" where
  "REVIEWER_FAMILIES = [''kilabz'', ''oracle'']"

fun legal_pair :: "outcome_source \<Rightarrow> finding_outcome \<Rightarrow> bool" where
  "legal_pair Review_Raised o' = (o' = Opened)"
| "legal_pair Auto_Fix_Landed o' = (o' = Applied_Fixed)"
| "legal_pair Auto_Git_Revert o' = (o' = Reverted)"
| "legal_pair Human_Dismiss o' = (o' \<in> {Dismissed_FP, Dismissed_Wontfix})"
| "legal_pair Ttl_Sweep o' = (o' = Expired)"
| "legal_pair Human_Confirm o' = (o' = Confirmed_Real)"
| "legal_pair Exec_Verified o' = (o' = Exec_Real_Prior)"
| "legal_pair Panel_Proposed o' = (o' \<in> {Panel_Real, Panel_FP})"

definition row_check :: "'a finding_event_scheme \<Rightarrow> bool" where
  "row_check e \<longleftrightarrow> fo_family e \<in> set REVIEWER_FAMILIES \<and> legal_pair (fo_source e) (fo_outcome e)"

definition event_key :: "'a finding_event_scheme \<Rightarrow> string \<times> string \<times> finding_outcome \<times> outcome_source \<times> string" where
  "event_key e = (fo_key e, fo_family e, fo_outcome e, fo_source e, fo_event e)"

definition stamp :: "nat \<Rightarrow> time \<Rightarrow> finding_event \<Rightarrow> outcome_row" where
  "stamp n now e = finding_event.extend e \<lparr>fo_seq = n, fo_at = now\<rparr>"

text \<open>
  One \<^verbatim>\<open>INSERT .. ON CONFLICT .. DO NOTHING\<close>: \<open>None\<close> when a check fails, else the store and whether a
  row was written. The sequence advances even when the row conflicts.
\<close>

definition insert_event :: "time \<Rightarrow> finding_event \<Rightarrow> outcome_store \<Rightarrow> (outcome_store \<times> bool) option" where
  "insert_event now e st =
     (if \<not> row_check e then None
      else if event_key e \<in> event_key ` set (fos st) then Some (st\<lparr>fo_next := Suc (fo_next st)\<rparr>, False)
      else Some (\<lparr>fos = fos st @ [stamp (fo_next st) now e], fo_next = Suc (fo_next st)\<rparr>, True))"

section \<open>The views\<close>

definition human :: "outcome_row \<Rightarrow> bool" where
  "human r \<longleftrightarrow> fo_source r \<in> {Human_Dismiss, Human_Confirm}"

definition about :: "string \<times> string \<Rightarrow> outcome_row \<Rightarrow> bool" where
  "about kf r \<longleftrightarrow> (fo_key r, fo_family r) = kf"

definition finding_rows :: "string \<times> string \<Rightarrow> outcome_store \<Rightarrow> outcome_row list" where
  "finding_rows kf st = filter (about kf) (fos st)"

definition latest :: "outcome_row list \<Rightarrow> outcome_row option" where
  "latest T = first_by (\<lambda>r. - int (fo_seq r)) T"

definition findings :: "outcome_store \<Rightarrow> (string \<times> string) list" where
  "findings st = sort (remdups (map (\<lambda>r. (fo_key r, fo_family r)) (fos st)))"

definition finding_current :: "string \<times> string \<Rightarrow> outcome_store \<Rightarrow> outcome_row option" where
  "finding_current kf st = first_by (\<lambda>r. (\<not> human r, - int (fo_seq r))) (finding_rows kf st)"

definition finding_current_human :: "string \<times> string \<Rightarrow> outcome_store \<Rightarrow> outcome_row option" where
  "finding_current_human kf st = latest (filter human (finding_rows kf st))"

definition lifecycle :: "outcome_row \<Rightarrow> bool" where
  "lifecycle r \<longleftrightarrow> fo_source r \<in> {Review_Raised, Ttl_Sweep}"

definition in_labelqueue :: "string \<times> string \<Rightarrow> outcome_store \<Rightarrow> bool" where
  "in_labelqueue kf st \<longleftrightarrow> \<not> list_ex human (finding_rows kf st)
     \<and> map_option fo_outcome (latest (filter lifecycle (finding_rows kf st))) \<noteq> Some Expired"

definition current_view :: "outcome_store \<Rightarrow> outcome_row list" where
  "current_view st = List.map_filter (\<lambda>kf. finding_current kf st) (findings st)"

definition human_view :: "outcome_store \<Rightarrow> outcome_row list" where
  "human_view st = List.map_filter (\<lambda>kf. finding_current_human kf st) (findings st)"

definition labelqueue_view :: "outcome_store \<Rightarrow> outcome_row list" where
  "labelqueue_view st =
     List.map_filter (\<lambda>kf. if in_labelqueue kf st then latest (finding_rows kf st) else None) (findings st)"

record precision_row =
  pv_tag :: pytext
  pv_family :: string
  pv_good :: nat
  pv_bad :: nat
  pv_volume :: nat
  pv_precision :: "rat option"

definition precision_of :: "finding_outcome \<Rightarrow> outcome_row list \<Rightarrow> pytext \<times> string \<Rightarrow> precision_row" where
  "precision_of good V c =
     (let G = filter (\<lambda>r. (fo_tag r, fo_family r) = c) V;
          g = count_where (\<lambda>r. fo_outcome r = good) G;
          b = count_where (\<lambda>r. fo_outcome r = Dismissed_FP) G;
          d = count_where (\<lambda>r. fo_outcome r \<in> {good, Dismissed_FP}) G
      in \<lparr>pv_tag = fst c, pv_family = snd c, pv_good = g, pv_bad = b, pv_volume = length G,
          pv_precision = (if d = 0 then None else Some (of_nat g / of_nat d))\<rparr>)"

definition precision_view :: "finding_outcome \<Rightarrow> outcome_row list \<Rightarrow> precision_row list" where
  "precision_view good V = map (precision_of good V) (sort (remdups (map (\<lambda>r. (fo_tag r, fo_family r)) V)))"

definition finding_precision_raw :: "outcome_store \<Rightarrow> precision_row list" where
  "finding_precision_raw st = precision_view Applied_Fixed (current_view st)"

definition finding_precision_promoted :: "outcome_store \<Rightarrow> precision_row list" where
  "finding_precision_promoted st = precision_view Confirmed_Real (human_view st)"

section \<open>Recording a review\<close>

record raised =
  ra_tag :: pytext
  ra_path :: pytext
  ra_hash :: string
  ra_family :: string

record review =
  rv_repo :: pytext
  rv_ref :: string
  rv_tip :: string
  rv_play :: string
  rv_changed :: "pytext list"
  rv_open :: "raised list"
  rv_present :: "(pytext \<rightharpoonup> string set option) option"

record findings_report =
  fr_closed :: nat
  fr_opened :: nat
  fr_skipped :: nat
  fr_rows :: "(string \<times> raised) list"

definition review_event :: "review \<Rightarrow> string" where
  "review_event v = ''review:'' @ rv_play v"

definition present_in :: "review \<Rightarrow> pytext \<Rightarrow> string set option" where
  "present_in v p = (case rv_present v of None \<Rightarrow> None | Some d \<Rightarrow> (case d p of None \<Rightarrow> None | Some s \<Rightarrow> s))"

definition by_key :: "(pytext \<Rightarrow> string) \<Rightarrow> review \<Rightarrow> ((string \<times> string) \<times> raised) list" where
  "by_key sha v =
     foldl (\<lambda>d f. AList.update (finding_key sha (rv_repo v) (ra_tag f) (ra_path f) (ra_hash f), ra_family f) f d)
       [] (rv_open v)"

definition origin_ref :: "string \<times> string \<Rightarrow> outcome_store \<Rightarrow> string option" where
  "origin_ref kf st = map_option fo_ref (first_by fo_seq (filter (\<lambda>r. fo_outcome r = Opened) (finding_rows kf st)))"

definition open_rows :: "review \<Rightarrow> outcome_store \<Rightarrow> outcome_row list" where
  "open_rows v st =
     filter (\<lambda>r. fo_repo r = rv_repo v \<and> fo_outcome r = Opened \<and> fo_path r \<in> set (rv_changed v)
               \<and> origin_ref (fo_key r, fo_family r) st = Some (rv_ref v)) (current_view st)"

definition gone :: "review \<Rightarrow> outcome_row \<Rightarrow> bool" where
  "gone v r \<longleftrightarrow> (case present_in v (fo_path r) of None \<Rightarrow> False | Some s \<Rightarrow> fo_hash r \<notin> s)"

definition close_event :: "review \<Rightarrow> outcome_row \<Rightarrow> finding_event" where
  "close_event v r =
     \<lparr>fo_key = fo_key r, fo_repo = rv_repo v, fo_ref = rv_ref v, fo_tag = fo_tag r, fo_family = fo_family r,
      fo_path = fo_path r, fo_hash = fo_hash r, fo_event = review_event v, fo_tip = rv_tip v,
      fo_outcome = Applied_Fixed, fo_source = Auto_Fix_Landed\<rparr>"

definition open_event :: "review \<Rightarrow> string \<times> string \<Rightarrow> raised \<Rightarrow> finding_event" where
  "open_event v kf f =
     \<lparr>fo_key = fst kf, fo_repo = rv_repo v, fo_ref = rv_ref v, fo_tag = ra_tag f, fo_family = snd kf,
      fo_path = ra_path f, fo_hash = ra_hash f, fo_event = review_event v, fo_tip = rv_tip v,
      fo_outcome = Opened, fo_source = Review_Raised\<rparr>"

fun close_phase :: "time \<Rightarrow> review \<Rightarrow> outcome_row list \<Rightarrow> outcome_store \<Rightarrow> nat \<Rightarrow> (outcome_store \<times> nat) option" where
  "close_phase now v [] st n = Some (st, n)"
| "close_phase now v (r # rs) st n =
     (if \<not> gone v r then close_phase now v rs st n
      else case insert_event now (close_event v r) st of
        None \<Rightarrow> None
      | Some (st', ins) \<Rightarrow> close_phase now v rs st' (if ins then Suc n else n))"

definition sticky :: "string \<times> string \<Rightarrow> outcome_store \<Rightarrow> bool" where
  "sticky kf st \<longleftrightarrow> (case finding_current kf st of None \<Rightarrow> False
     | Some r \<Rightarrow> fo_outcome r \<in> {Dismissed_FP, Dismissed_Wontfix, Confirmed_Real})"

fun open_phase ::
  "time \<Rightarrow> review \<Rightarrow> ((string \<times> string) \<times> raised) list \<Rightarrow> outcome_store \<Rightarrow> findings_report
     \<Rightarrow> (outcome_store \<times> findings_report) option" where
  "open_phase now v [] st rep = Some (st, rep)"
| "open_phase now v ((kf, f) # fs) st rep =
     (if sticky kf st then open_phase now v fs st (rep\<lparr>fr_skipped := Suc (fr_skipped rep)\<rparr>)
      else case insert_event now (open_event v kf f) st of
        None \<Rightarrow> None
      | Some (st', ins) \<Rightarrow>
          open_phase now v fs st'
            (if ins then rep\<lparr>fr_opened := Suc (fr_opened rep), fr_rows := fr_rows rep @ [(fst kf, f)]\<rparr> else rep))"

definition record_findings ::
  "(pytext \<Rightarrow> string) \<Rightarrow> time \<Rightarrow> review \<Rightarrow> outcome_store \<Rightarrow> outcome_store \<times> findings_report option" where
  "record_findings sha now v st =
     (case close_phase now v (open_rows v st) st 0 of
        None \<Rightarrow> (st, None)
      | Some (st', n) \<Rightarrow>
          (case open_phase now v (by_key sha v) st' \<lparr>fr_closed = n, fr_opened = 0, fr_skipped = 0, fr_rows = []\<rparr> of
             None \<Rightarrow> (st, None)
           | Some (st'', rep) \<Rightarrow> (st'', Some rep)))"

section \<open>Human labels\<close>

datatype label_result = Permission_Error | Value_Error | Short_Prefix | No_Match | Ambiguous "string list"
  | Check_Violation | Written nat string | No_Such_Finding string

definition HUMAN_ROLES :: "string list" where
  "HUMAN_ROLES = [''human'', ''admin'']"

definition clean_prefix :: "(pytext \<Rightarrow> pytext) \<Rightarrow> pytext option \<Rightarrow> pytext" where
  "clean_prefix lower p = lower (strip (case p of None \<Rightarrow> [] | Some s \<Rightarrow> s))"

definition prefix_ok :: "pytext \<Rightarrow> bool" where
  "prefix_ok p \<longleftrightarrow> 12 \<le> length p \<and> list_all (\<lambda>c. c \<in> set (codes ''0123456789abcdef'')) p"

definition families_of :: "string \<Rightarrow> string list option" where
  "families_of a = (let fams = (if a = ''all'' then REVIEWER_FAMILIES else [a]) in
     if list_ex (\<lambda>f. f \<notin> set REVIEWER_FAMILIES) fams then None else Some fams)"

definition keys_with :: "pytext \<Rightarrow> outcome_store \<Rightarrow> string list" where
  "keys_with p st = sort (remdups (filter (\<lambda>k. prefix p (codes k)) (map fo_key (fos st))))"

definition human_event :: "string \<Rightarrow> string \<Rightarrow> string" where
  "human_event fk kind = ''human:'' @ take 12 fk @ '':'' @ kind"

text \<open>A new row for an existing finding: everything but the label is copied from its current row.\<close>

definition relabel :: "outcome_row \<Rightarrow> string \<Rightarrow> string \<Rightarrow> finding_outcome \<Rightarrow> outcome_source \<Rightarrow> finding_event" where
  "relabel r ev tip o' s =
     \<lparr>fo_key = fo_key r, fo_repo = fo_repo r, fo_ref = fo_ref r, fo_tag = fo_tag r, fo_family = fo_family r,
      fo_path = fo_path r, fo_hash = fo_hash r, fo_event = ev, fo_tip = tip, fo_outcome = o', fo_source = s\<rparr>"

text \<open>The loop over the families; \<open>labels\<close> says which current outcomes the verb accepts.\<close>

fun write_labels ::
  "time \<Rightarrow> (finding_outcome \<Rightarrow> bool) \<Rightarrow> string \<Rightarrow> string \<Rightarrow> finding_outcome \<Rightarrow> outcome_source \<Rightarrow> string list
     \<Rightarrow> outcome_store \<Rightarrow> nat \<Rightarrow> (outcome_store \<times> nat) option" where
  "write_labels now labels fk ev o' s [] st n = Some (st, n)"
| "write_labels now labels fk ev o' s (fam # fams) st n =
     (case finding_current (fk, fam) st of
        None \<Rightarrow> write_labels now labels fk ev o' s fams st n
      | Some r \<Rightarrow>
          if \<not> labels (fo_outcome r) then write_labels now labels fk ev o' s fams st n
          else (case insert_event now (relabel r ev (fo_tip r) o' s) st of
                  None \<Rightarrow> None
                | Some (st', ins) \<Rightarrow> write_labels now labels fk ev o' s fams st' (if ins then Suc n else n)))"

definition label_finding ::
  "time \<Rightarrow> (finding_outcome \<Rightarrow> bool) \<Rightarrow> pytext \<Rightarrow> string list \<Rightarrow> string \<Rightarrow> finding_outcome \<Rightarrow> outcome_source
     \<Rightarrow> outcome_store \<Rightarrow> outcome_store \<times> label_result" where
  "label_finding now labels p fams kind o' s st =
     (case keys_with p st of
        [] \<Rightarrow> (st, No_Match)
      | [fk] \<Rightarrow>
          (case write_labels now labels fk (human_event fk kind) o' s fams st 0 of
             None \<Rightarrow> (st, Check_Violation)
           | Some (st', n) \<Rightarrow> (st', Written n fk))
      | ks \<Rightarrow> (st, Ambiguous ks))"

definition human_dismiss ::
  "(pytext \<Rightarrow> pytext) \<Rightarrow> time \<Rightarrow> string \<Rightarrow> pytext option \<Rightarrow> string \<Rightarrow> string \<Rightarrow> outcome_store
     \<Rightarrow> outcome_store \<times> label_result" where
  "human_dismiss lower now role pre fam_arg kind st =
     (if role \<notin> set HUMAN_ROLES then (st, Permission_Error)
      else
        (let p = clean_prefix lower pre in
         if \<not> prefix_ok p then (st, Short_Prefix)
         else if kind \<noteq> ''fp'' \<and> kind \<noteq> ''wontfix'' then (st, Value_Error)
         else case families_of fam_arg of
           None \<Rightarrow> (st, Value_Error)
         | Some fams \<Rightarrow>
             label_finding now (\<lambda>o'. o' \<in> {Opened, Dismissed_FP, Dismissed_Wontfix}) p fams kind
               (if kind = ''fp'' then Dismissed_FP else Dismissed_Wontfix) Human_Dismiss st))"

definition confirm_pair :: "string \<Rightarrow> (outcome_source \<times> finding_outcome) option" where
  "confirm_pair kind =
     (if kind = ''real'' then Some (Human_Confirm, Confirmed_Real)
      else if kind = ''fp'' then Some (Human_Dismiss, Dismissed_FP)
      else if kind = ''wontfix'' then Some (Human_Dismiss, Dismissed_Wontfix)
      else None)"

definition confirm_outcome ::
  "(pytext \<Rightarrow> pytext) \<Rightarrow> time \<Rightarrow> string \<Rightarrow> pytext option \<Rightarrow> string \<Rightarrow> string \<Rightarrow> outcome_store
     \<Rightarrow> outcome_store \<times> label_result" where
  "confirm_outcome lower now role pre fam_arg kind st =
     (if role \<notin> set HUMAN_ROLES then (st, Permission_Error)
      else case confirm_pair kind of
        None \<Rightarrow> (st, Value_Error)
      | Some (s, o') \<Rightarrow>
          (let p = clean_prefix lower pre in
           if \<not> prefix_ok p then (st, Short_Prefix)
           else case families_of fam_arg of
             None \<Rightarrow> (st, Value_Error)
           | Some fams \<Rightarrow> label_finding now (\<lambda>_. True) p fams kind o' s st))"

section \<open>Machine labels and the sweep\<close>

text \<open>The write of a machine verb on one existing finding.\<close>

definition machine_label ::
  "time \<Rightarrow> string \<times> string \<Rightarrow> (outcome_row \<Rightarrow> finding_event) \<Rightarrow> outcome_store \<Rightarrow> outcome_store \<times> label_result" where
  "machine_label now kf ev st =
     (case finding_current kf st of
        None \<Rightarrow> (st, No_Such_Finding (fst kf))
      | Some r \<Rightarrow>
          (case insert_event now (ev r) st of
             None \<Rightarrow> (st, Check_Violation)
           | Some (st', ins) \<Rightarrow> (st', Written (if ins then 1 else 0) (fst kf))))"

definition record_exec_prior ::
  "time \<Rightarrow> string \<Rightarrow> string \<Rightarrow> string \<times> string \<Rightarrow> string \<Rightarrow> outcome_store \<Rightarrow> outcome_store \<times> label_result" where
  "record_exec_prior now utcday role kf tip st =
     (if role \<noteq> ''exec_oracle'' then (st, Permission_Error)
      else if length tip < 12 then (st, Value_Error)
      else machine_label now kf
             (\<lambda>r. relabel r (''probe:'' @ utcday @ '':'' @ take 12 tip) tip Exec_Real_Prior Exec_Verified) st)"

definition propose_outcome ::
  "time \<Rightarrow> string \<Rightarrow> string \<times> string \<Rightarrow> string \<Rightarrow> string \<Rightarrow> outcome_store \<Rightarrow> outcome_store \<times> label_result" where
  "propose_outcome now role kf verdict play st =
     (if role \<noteq> ''labeler'' then (st, Permission_Error)
      else if verdict \<noteq> ''real'' \<and> verdict \<noteq> ''fp'' then (st, Value_Error)
      else machine_label now kf
             (\<lambda>r. relabel r (''panel:'' @ play) (fo_tip r) (if verdict = ''real'' then Panel_Real else Panel_FP)
                    Panel_Proposed) st)"

definition raised_at :: "string \<times> string \<Rightarrow> outcome_store \<Rightarrow> time option" where
  "raised_at kf st = (case filter (\<lambda>r. fo_source r = Review_Raised) (finding_rows kf st) of
     [] \<Rightarrow> None | r # rs \<Rightarrow> Some (foldl max (fo_at r) (map fo_at rs)))"

fun insert_all :: "time \<Rightarrow> finding_event list \<Rightarrow> outcome_store \<Rightarrow> nat \<Rightarrow> (outcome_store \<times> nat) option" where
  "insert_all now [] st n = Some (st, n)"
| "insert_all now (e # es) st n =
     (case insert_event now e st of
        None \<Rightarrow> None
      | Some (st', ins) \<Rightarrow> insert_all now es st' (if ins then Suc n else n))"

definition overdue :: "time \<Rightarrow> int \<Rightarrow> outcome_row \<Rightarrow> outcome_store \<Rightarrow> bool" where
  "overdue now ttl_days r st \<longleftrightarrow>
     (case raised_at (fo_key r, fo_family r) st of None \<Rightarrow> False | Some t \<Rightarrow> t < now - 86400 * ttl_days)"

definition expire_open :: "time \<Rightarrow> string \<Rightarrow> int \<Rightarrow> outcome_store \<Rightarrow> outcome_store \<times> nat option" where
  "expire_open now utcday ttl_days st =
     (case insert_all now
             (map (\<lambda>r. relabel r (''sweep:'' @ utcday) (fo_tip r) Expired Ttl_Sweep)
               (filter (\<lambda>r. overdue now ttl_days r st) (labelqueue_view st))) st 0 of
        None \<Rightarrow> (st, None)
      | Some (st', n) \<Rightarrow> (st', Some n))"

section \<open>Reads\<close>

definition outcome_stats :: "outcome_store \<Rightarrow> precision_row list \<times> nat" where
  "outcome_stats st = (finding_precision_raw st, count_where (\<lambda>r. fo_outcome r = Opened) (current_view st))"

definition latest_raise :: "string \<times> string \<Rightarrow> (nat \<Rightarrow> bool) \<Rightarrow> outcome_store \<Rightarrow> outcome_row option" where
  "latest_raise kf inb st =
     latest (filter (\<lambda>r. fo_source r = Review_Raised \<and> inb (fo_seq r)) (finding_rows kf st))"

record queue_entry =
  qe_tag :: pytext
  qe_family :: string
  qe_key12 :: string
  qe_path :: pytext
  qe_ref :: string
  qe_event :: string
  qe_seq :: nat

definition label_queue :: "outcome_store \<Rightarrow> queue_entry list" where
  "label_queue st =
     sort_key (\<lambda>q. (qe_tag q, qe_family q, qe_path q))
       (List.map_filter
         (\<lambda>r. map_option
            (\<lambda>x. \<lparr>qe_tag = fo_tag r, qe_family = fo_family r, qe_key12 = take 12 (fo_key r), qe_path = fo_path r,
                  qe_ref = fo_ref x, qe_event = fo_event x, qe_seq = fo_seq x\<rparr>)
            (latest_raise (fo_key r, fo_family r) (\<lambda>_. True) st))
         (labelqueue_view st))"

record dial_label =
  dl_tag :: pytext
  dl_family :: string
  dl_outcome :: finding_outcome
  dl_source :: outcome_source
  dl_seq :: nat
  dl_ref :: string
  dl_play :: "string option"

definition play_of :: "string \<Rightarrow> string option" where
  "play_of ev = (if prefix ''review:'' ev then Some (drop 7 ev) else None)"

definition dial_shadow_labels :: "nat option \<Rightarrow> outcome_store \<Rightarrow> dial_label list" where
  "dial_shadow_labels cutoff st =
     (let inb = (\<lambda>n. case cutoff of None \<Rightarrow> True | Some c \<Rightarrow> n \<le> c) in
      map (\<lambda>h. let x = latest_raise (fo_key h, fo_family h) inb st in
           \<lparr>dl_tag = fo_tag h, dl_family = fo_family h, dl_outcome = fo_outcome h, dl_source = fo_source h,
            dl_seq = fo_seq h, dl_ref = (case x of None \<Rightarrow> fo_ref h | Some r \<Rightarrow> fo_ref r),
            dl_play = (case x of None \<Rightarrow> None | Some r \<Rightarrow> play_of (fo_event r))\<rparr>)
        (sort_key (\<lambda>h. (fo_tag h, fo_family h, fo_seq h)) (filter (\<lambda>h. inb (fo_seq h)) (human_view st))))"

definition max_finding_seq :: "outcome_store \<Rightarrow> nat" where
  "max_finding_seq st = foldl max 0 (map fo_seq (fos st))"

end
