(* ===== verification/Outcomes_Store_Props.thy ===== *)
theory Outcomes_Store_Props
  imports Outcomes_Store
begin

text \<open>
  Properties of the outcomes ledger. Every verb is a sequence of conflict-free inserts (\<open>adds\<close>), so the
  log is append-only and well formed; a machine identity can neither change a human label nor take an
  unlabelled finding out of the queue before its time; and a finding is closed only on a determined
  absence of its line.
\<close>

section \<open>Sequences of inserts\<close>

definition log_ok :: "outcome_store \<Rightarrow> bool" where
  "log_ok st \<longleftrightarrow> distinct (map event_key (fos st)) \<and> list_all row_check (fos st)
     \<and> sorted_wrt (<) (map fo_seq (fos st)) \<and> (\<forall>r \<in> set (fos st). fo_seq r < fo_next st)"

definition empty_log :: outcome_store where
  "empty_log = \<lparr>fos = [], fo_next = 1\<rparr>"

inductive adds :: "(outcome_store \<Rightarrow> finding_event \<Rightarrow> bool) \<Rightarrow> outcome_store \<Rightarrow> outcome_store \<Rightarrow> bool" for P where
  adds_none: "adds P st st"
| adds_one: "P st e \<Longrightarrow> insert_event now e st = Some (t, ins) \<Longrightarrow> adds P t u \<Longrightarrow> adds P st u"

lemma stamp_sel [simp]:
  "fo_key (stamp n now e) = fo_key e" "fo_repo (stamp n now e) = fo_repo e" "fo_ref (stamp n now e) = fo_ref e"
  "fo_tag (stamp n now e) = fo_tag e" "fo_family (stamp n now e) = fo_family e" "fo_path (stamp n now e) = fo_path e"
  "fo_hash (stamp n now e) = fo_hash e" "fo_event (stamp n now e) = fo_event e" "fo_tip (stamp n now e) = fo_tip e"
  "fo_outcome (stamp n now e) = fo_outcome e" "fo_source (stamp n now e) = fo_source e"
  "fo_seq (stamp n now e) = n" "fo_at (stamp n now e) = now"
  by (simp_all add: stamp_def finding_event.extend_def)

lemma event_key_stamp [simp]: "event_key (stamp n now e) = event_key e"
  by (simp add: event_key_def)

lemma row_check_stamp [simp]: "row_check (stamp n now e) = row_check e"
  by (simp add: row_check_def)

lemma adds_trans: "adds P s t \<Longrightarrow> adds P t u \<Longrightarrow> adds P s u"
  by (induction rule: adds.induct) (auto intro: adds.intros)

lemma adds_mono: "adds P s t \<Longrightarrow> (\<And>x e. P x e \<Longrightarrow> Q x e) \<Longrightarrow> adds Q s t"
  by (induction rule: adds.induct) (auto intro: adds.intros)

lemma insert_event_cases:
  assumes "insert_event now e st = Some (t, ins)"
  obtains (conflict) "row_check e" "event_key e \<in> event_key ` set (fos st)" "fos t = fos st" "fo_next t = Suc (fo_next st)" "\<not> ins"
  | (new) "row_check e" "event_key e \<notin> event_key ` set (fos st)" "fos t = fos st @ [stamp (fo_next st) now e]"
      "fo_next t = Suc (fo_next st)" "ins"
proof (cases "event_key e \<in> event_key ` set (fos st)")
  case True
  with assms that(1) show ?thesis by (auto simp: insert_event_def split: if_splits)
next
  case False
  with assms that(2) show ?thesis by (auto simp: insert_event_def split: if_splits)
qed

lemma insert_event_ok:
  assumes "insert_event now e st = Some (t, ins)" "log_ok st"
  shows "log_ok t"
  using assms(1)
proof (cases rule: insert_event_cases)
  case conflict
  with assms(2) show ?thesis by (auto simp: log_ok_def)
next
  case new
  with assms(2) show ?thesis by (auto simp: log_ok_def sorted_wrt_append)
qed

lemma adds_ok: "adds P s t \<Longrightarrow> log_ok s \<Longrightarrow> log_ok t"
  by (induction rule: adds.induct) (auto intro: insert_event_ok)

lemma adds_rows:
  assumes "adds P s t"
  shows "\<exists>rows. fos t = fos s @ rows \<and> (\<forall>r \<in> set rows. \<exists>x n now e. P x e \<and> r = stamp n now e)"
  using assms
proof (induction rule: adds.induct)
  case (adds_none st)
  show ?case by simp
next
  case (adds_one st e now t ins u)
  from adds_one.IH obtain rows where r: "fos u = fos t @ rows" "\<forall>r \<in> set rows. \<exists>x n now e. P x e \<and> r = stamp n now e" by blast
  from adds_one.hyps(2) show ?case
  proof (cases rule: insert_event_cases)
    case conflict
    with r show ?thesis by (intro exI [of _ rows]) simp
  next
    case new
    with r adds_one.hyps(1) show ?thesis by (intro exI [of _ "stamp (fo_next st) now e # rows"]) auto
  qed
qed

lemma adds_filter:
  assumes "adds P s t" "\<And>x e n now. P x e \<Longrightarrow> \<not> Q (stamp n now e)"
  shows "filter Q (fos t) = filter Q (fos s)"
proof -
  obtain rows where "fos t = fos s @ rows" "\<forall>r \<in> set rows. \<exists>x n now e. P x e \<and> r = stamp n now e"
    using adds_rows [OF assms(1)] by blast
  moreover from this(2) assms(2) have "filter Q rows = []" by (auto simp: filter_empty_conv)
  ultimately show ?thesis by simp
qed

section \<open>Every verb is a sequence of inserts\<close>

lemma close_phase_adds:
  "close_phase now v rs st n = Some (t, m) \<Longrightarrow> adds (\<lambda>_ e. \<exists>r \<in> set rs. gone v r \<and> e = close_event v r) st t"
proof (induction now v rs st n rule: close_phase.induct)
  case (2 now v r rs st n)
  show ?case
  proof (cases "gone v r")
    case False
    with 2(1,3) have "adds (\<lambda>_ e. \<exists>r \<in> set rs. gone v r \<and> e = close_event v r) st t" by simp
    then show ?thesis by (rule adds_mono) auto
  next
    case True
    with 2(3) obtain s ins where i: "insert_event now (close_event v r) st = Some (s, ins)"
      and c: "close_phase now v rs s (if ins then Suc n else n) = Some (t, m)"
      by (auto split: option.splits)
    have "adds (\<lambda>_ e. \<exists>r \<in> set rs. gone v r \<and> e = close_event v r) s t" using 2(2) True i c by auto
    then have "adds (\<lambda>_ e. \<exists>r \<in> set (r # rs). gone v r \<and> e = close_event v r) s t" by (rule adds_mono) auto
    with i True show ?thesis by (intro adds_one [OF _ i]) auto
  qed
qed (auto intro: adds.intros)

lemma open_phase_adds:
  "open_phase now v fs st rep = Some (t, rep') \<Longrightarrow>
     adds (\<lambda>x e. \<exists>(kf, f) \<in> set fs. \<not> sticky kf x \<and> e = open_event v kf f) st t"
proof (induction now v fs st rep rule: open_phase.induct)
  case (2 now v kf f fs st rep)
  show ?case
  proof (cases "sticky kf st")
    case True
    with 2(1,3) have "adds (\<lambda>x e. \<exists>(kf, f) \<in> set fs. \<not> sticky kf x \<and> e = open_event v kf f) st t" by simp
    then show ?thesis by (rule adds_mono) auto
  next
    case False
    with 2(3) obtain s ins rep2 where i: "insert_event now (open_event v kf f) st = Some (s, ins)"
      and c: "open_phase now v fs s (if ins then rep\<lparr>fr_opened := Suc (fr_opened rep), fr_rows := fr_rows rep @ [(fst kf, f)]\<rparr> else rep) = Some (t, rep')"
      by (auto split: option.splits)
    have "adds (\<lambda>x e. \<exists>(kf, f) \<in> set fs. \<not> sticky kf x \<and> e = open_event v kf f) s t" using 2(2) False i c by auto
    then have "adds (\<lambda>x e. \<exists>(kf, f) \<in> set ((kf, f) # fs). \<not> sticky kf x \<and> e = open_event v kf f) s t" by (rule adds_mono) auto
    with i False show ?thesis by (intro adds_one [OF _ i]) auto
  qed
qed (auto intro: adds.intros)

lemma write_labels_adds:
  "write_labels now L fk ev o' s fams st n = Some (t, m) \<Longrightarrow>
     adds (\<lambda>x e. \<exists>fam \<in> set fams. \<exists>r. finding_current (fk, fam) x = Some r \<and> e = relabel r ev (fo_tip r) o' s) st t"
proof (induction now L fk ev o' s fams st n rule: write_labels.induct)
  case (2 now L fk ev o' s fam fams st n)
  let ?P = "\<lambda>F x e. \<exists>fam \<in> set F. \<exists>r. finding_current (fk, fam) x = Some r \<and> e = relabel r ev (fo_tip r) o' s"
  have up: "adds (?P fams) x t \<Longrightarrow> adds (?P (fam # fams)) x t" for x by (erule adds_mono) auto
  show ?case
  proof (cases "finding_current (fk, fam) st")
    case None
    with 2(1,4) up show ?thesis by simp
  next
    case (Some r)
    show ?thesis
    proof (cases "L (fo_outcome r)")
      case False
      with Some 2(2,4) up show ?thesis by simp
    next
      case True
      with Some 2(4) obtain x ins where i: "insert_event now (relabel r ev (fo_tip r) o' s) st = Some (x, ins)"
        and c: "write_labels now L fk ev o' s fams x (if ins then Suc n else n) = Some (t, m)"
        by (auto split: option.splits)
      have "adds (?P fams) x t" using 2(3) Some True i c by auto
      with i Some show ?thesis by (intro adds_one [OF _ i up]) auto
    qed
  qed
qed (auto intro: adds.intros)

lemma insert_all_adds:
  "insert_all now es st n = Some (t, m) \<Longrightarrow> adds (\<lambda>_ e. e \<in> set es) st t"
proof (induction now es st n rule: insert_all.induct)
  case (2 now e es st n)
  then obtain x ins where i: "insert_event now e st = Some (x, ins)"
    and c: "insert_all now es x (if ins then Suc n else n) = Some (t, m)"
    by (auto split: option.splits)
  have "adds (\<lambda>_ e. e \<in> set es) x t" using 2(1) i c by auto
  then have "adds (\<lambda>_ x. x \<in> set (e # es)) x t" by (rule adds_mono) auto
  then show ?case by (intro adds_one [OF _ i]) auto
qed (auto intro: adds.intros)

lemma record_findings_adds:
  assumes "record_findings sha now v st = (t, rep)"
  shows "adds (\<lambda>x e. (\<exists>r \<in> set (open_rows v st). gone v r \<and> e = close_event v r)
      \<or> (\<exists>(kf, f) \<in> set (by_key sha v). \<not> sticky kf x \<and> e = open_event v kf f)) st t"
proof (cases rep)
  case None
  with assms show ?thesis by (auto simp: record_findings_def split: option.splits intro: adds.intros)
next
  case (Some rp)
  with assms obtain x n rep0 where c: "close_phase now v (open_rows v st) st 0 = Some (x, n)"
    and o': "open_phase now v (by_key sha v) x rep0 = Some (t, rp)"
    by (auto simp: record_findings_def split: option.splits)
  show ?thesis
    by (rule adds_trans [OF adds_mono [OF close_phase_adds [OF c]] adds_mono [OF open_phase_adds [OF o']]]) auto
qed

lemma machine_label_adds:
  assumes "machine_label now kf ev st = (t, res)"
  shows "adds (\<lambda>x e. \<exists>r. finding_current kf x = Some r \<and> e = ev r) st t"
proof (cases "finding_current kf st")
  case None
  with assms show ?thesis by (auto simp: machine_label_def intro: adds.intros)
next
  case (Some r)
  show ?thesis
  proof (cases "insert_event now (ev r) st")
    case None
    with Some assms show ?thesis by (auto simp: machine_label_def intro: adds.intros)
  next
    fix p assume i: "insert_event now (ev r) st = Some p"
    with Some assms have "insert_event now (ev r) st = Some (t, snd p)" by (cases p) (auto simp: machine_label_def)
    then show ?thesis using Some by (intro adds_one [OF _ _ adds_none]) auto
  qed
qed

lemma label_finding_adds:
  assumes "label_finding now L p fams kind o' s st = (t, res)"
  shows "adds (\<lambda>_ e. fo_source e = s \<and> fo_outcome e = o') st t"
proof (cases "t = st")
  case True
  then show ?thesis by (simp add: adds_none)
next
  case False
  with assms obtain fk n where "write_labels now L fk (human_event fk kind) o' s fams st 0 = Some (t, n)"
    by (auto simp: label_finding_def split: list.splits option.splits)
  from write_labels_adds [OF this] show ?thesis by (rule adds_mono) (auto simp: relabel_def)
qed

section \<open>The log\<close>

text \<open>The machine identities: the recorder of reviews, the sweep, the execution oracle and the labeler.\<close>

inductive machine_step :: "(pytext \<Rightarrow> string) \<Rightarrow> outcome_store \<Rightarrow> outcome_store \<Rightarrow> bool" for sha where
  do_record: "record_findings sha now v st = (t, rep) \<Longrightarrow> machine_step sha st t"
| do_expire: "expire_open now day ttl st = (t, n) \<Longrightarrow> machine_step sha st t"
| do_exec: "record_exec_prior now day role kf tip st = (t, res) \<Longrightarrow> machine_step sha st t"
| do_propose: "propose_outcome now role kf verdict play st = (t, res) \<Longrightarrow> machine_step sha st t"

inductive outcome_step :: "(pytext \<Rightarrow> pytext) \<Rightarrow> (pytext \<Rightarrow> string) \<Rightarrow> outcome_store \<Rightarrow> outcome_store \<Rightarrow> bool"
  for lower sha where
  do_machine: "machine_step sha st t \<Longrightarrow> outcome_step lower sha st t"
| do_dismiss: "human_dismiss lower now role pre fam kind st = (t, res) \<Longrightarrow> outcome_step lower sha st t"
| do_confirm: "confirm_outcome lower now role pre fam kind st = (t, res) \<Longrightarrow> outcome_step lower sha st t"

definition machine_event :: "finding_event \<Rightarrow> bool" where
  "machine_event e \<longleftrightarrow> fo_source e \<notin> {Human_Dismiss, Human_Confirm}"

lemma expire_open_adds:
  assumes "expire_open now day ttl st = (t, n)"
  shows "adds (\<lambda>_ e. \<exists>r \<in> set (labelqueue_view st). overdue now ttl r st
      \<and> e = relabel r (''sweep:'' @ day) (fo_tip r) Expired Ttl_Sweep) st t"
proof (cases "t = st")
  case True
  then show ?thesis by (simp add: adds_none)
next
  case False
  with assms obtain m where "insert_all now (map (\<lambda>r. relabel r (''sweep:'' @ day) (fo_tip r) Expired Ttl_Sweep)
      (filter (\<lambda>r. overdue now ttl r st) (labelqueue_view st))) st 0 = Some (t, m)"
    by (auto simp: expire_open_def split: option.splits)
  from insert_all_adds [OF this] show ?thesis by (rule adds_mono) auto
qed

lemma exec_adds:
  assumes "record_exec_prior now day role kf tip st = (t, res)"
  shows "adds (\<lambda>_ e. fo_source e = Exec_Verified) st t"
proof (cases "t = st")
  case True
  then show ?thesis by (simp add: adds_none)
next
  case False
  with assms have "machine_label now kf (\<lambda>r. relabel r (''probe:'' @ day @ '':'' @ take 12 tip) tip Exec_Real_Prior Exec_Verified) st = (t, res)"
    by (auto simp: record_exec_prior_def split: if_splits)
  from machine_label_adds [OF this] show ?thesis by (rule adds_mono) (auto simp: relabel_def)
qed

lemma propose_adds:
  assumes "propose_outcome now role kf verdict play st = (t, res)"
  shows "adds (\<lambda>_ e. fo_source e = Panel_Proposed) st t"
proof (cases "t = st")
  case True
  then show ?thesis by (simp add: adds_none)
next
  case False
  with assms have "machine_label now kf (\<lambda>r. relabel r (''panel:'' @ play) (fo_tip r)
      (if verdict = ''real'' then Panel_Real else Panel_FP) Panel_Proposed) st = (t, res)"
    by (simp add: propose_outcome_def split: if_splits)
  from machine_label_adds [OF this] show ?thesis by (rule adds_mono) (auto simp: relabel_def)
qed

lemma machine_step_adds: "machine_step sha st t \<Longrightarrow> adds (\<lambda>_. machine_event) st t"
proof (induction rule: machine_step.induct)
  case (do_record now v st t rep)
  from record_findings_adds [OF this] show ?case
    by (rule adds_mono) (auto simp: machine_event_def close_event_def open_event_def)
next
  case (do_expire now day ttl st t n)
  from expire_open_adds [OF this] show ?case by (rule adds_mono) (auto simp: machine_event_def relabel_def)
next
  case (do_exec now day role kf tip st t res)
  from exec_adds [OF this] show ?case by (rule adds_mono) (simp add: machine_event_def)
next
  case (do_propose now role kf verdict play st t res)
  from propose_adds [OF this] show ?case by (rule adds_mono) (simp add: machine_event_def)
qed

lemma dismiss_adds:
  assumes "human_dismiss lower now role pre fam kind st = (t, res)"
  shows "adds (\<lambda>_ _. True) st t"
proof (cases "t = st")
  case True
  then show ?thesis by (simp add: adds_none)
next
  case False
  with assms obtain p fams where "label_finding now (\<lambda>o'. o' \<in> {Opened, Dismissed_FP, Dismissed_Wontfix}) p fams kind
      (if kind = ''fp'' then Dismissed_FP else Dismissed_Wontfix) Human_Dismiss st = (t, res)"
    by (simp add: human_dismiss_def Let_def split: if_splits option.splits)
  from label_finding_adds [OF this] show ?thesis by (rule adds_mono) simp
qed

lemma confirm_adds:
  assumes "confirm_outcome lower now role pre fam kind st = (t, res)"
  shows "adds (\<lambda>_ _. True) st t"
proof (cases "t = st")
  case True
  then show ?thesis by (simp add: adds_none)
next
  case False
  with assms obtain p fams o' s where "label_finding now (\<lambda>_. True) p fams kind o' s st = (t, res)"
    by (auto simp: confirm_outcome_def Let_def split: if_splits option.splits)
  from label_finding_adds [OF this] show ?thesis by (rule adds_mono) simp
qed

lemma outcome_step_adds: "outcome_step lower sha st t \<Longrightarrow> adds (\<lambda>_ _. True) st t"
  by (induction rule: outcome_step.induct)
    (auto intro: dismiss_adds confirm_adds adds_mono [OF machine_step_adds])

interpretation outcomes_log: invariant_system "outcome_step lower sha" log_ok
  by unfold_locales (metis adds_ok outcome_step_adds)

interpretation machines: invariant_system "machine_step sha" log_ok
  by unfold_locales (metis adds_ok machine_step_adds)

lemma reachable_log_ok: "reach (outcome_step lower sha) empty_log st \<Longrightarrow> log_ok st"
  by (erule outcomes_log.reach_inv) (simp add: log_ok_def empty_log_def)

lemma adds_prefix: "adds P s t \<Longrightarrow> prefix (fos s) (fos t)"
  using adds_rows [of P s t] by (auto simp: prefix_def)

text \<open>
  The outcomes ledger is an append-only log of legal events: whatever sequence of verbs runs, from
  the empty table every row has a known family and a legal pair of source and outcome, no event is
  recorded twice and sequence numbers increase, and no verb changes or removes a row that is there.
\<close>

theorem outcome_log_append_only:
  assumes "reach (outcome_step lower sha) empty_log st" "reach (outcome_step lower sha) st t"
  shows "log_ok st \<and> prefix (fos st) (fos t)"
proof -
  have ok: "log_ok st" using assms(1) by (rule reachable_log_ok)
  from assms(2) this have "prefix (fos st) (fos t)"
    by (rule outcomes_log.reach_rel [where R = "\<lambda>s t. prefix (fos s) (fos t)"])
      (auto dest: outcome_step_adds adds_prefix intro: prefix_order.trans)
  with ok show ?thesis by simp
qed

section \<open>Views\<close>

lemma first_by_unique:
  assumes "inj_on key (set T)" "r \<in> set T" "\<And>s. s \<in> set T \<Longrightarrow> key r \<le> key s"
  shows "first_by key T = Some r"
proof (cases "first_by key T")
  case None
  with assms(2) show ?thesis by (simp add: first_by_None)
next
  case (Some q)
  from first_by_Some [OF Some] assms have "key q = key r" by (intro antisym) auto
  with first_by_Some(1) [OF Some] assms(1,2) have "q = r" by (auto dest: inj_onD)
  with Some show ?thesis by simp
qed

lemma log_ok_inj: "log_ok st \<Longrightarrow> inj_on fo_seq (set (fos st))"
  unfolding log_ok_def by (metis distinct_map sorted_wrt_map strict_sorted_iff)

lemma finding_rows_set: "set (finding_rows kf st) \<subseteq> set (fos st)"
  by (auto simp: finding_rows_def)

lemma current_is_human:
  assumes "log_ok st" "finding_current_human kf st = Some r"
  shows "finding_current kf st = Some r"
proof -
  have r: "r \<in> set (finding_rows kf st)" "human r" "\<And>s. s \<in> set (finding_rows kf st) \<Longrightarrow> human s \<Longrightarrow> fo_seq s \<le> fo_seq r"
    using first_by_Some [OF assms(2) [unfolded finding_current_human_def latest_def]] by auto
  have "inj_on fo_seq (set (finding_rows kf st))" using log_ok_inj [OF assms(1)] finding_rows_set by (rule inj_on_subset)
  then have "inj_on (\<lambda>r. (\<not> human r, - int (fo_seq r))) (set (finding_rows kf st))" by (auto simp: inj_on_def)
  then show ?thesis unfolding finding_current_def
  proof (rule first_by_unique)
    fix s assume "s \<in> set (finding_rows kf st)"
    with r show "(\<not> human r, - int (fo_seq r)) \<le> (\<not> human s, - int (fo_seq s))" by (cases "human s") auto
  qed (rule r(1))
qed

lemma human_rows_only:
  assumes "filter human (fos t) = filter human (fos s)"
  shows "finding_current_human kf t = finding_current_human kf s"
proof -
  have "filter human (finding_rows kf t) = filter human (finding_rows kf s)"
    unfolding finding_rows_def by (metis (no_types, lifting) assms filter_filter conj_commute filter_cong)
  then show ?thesis by (simp add: finding_current_human_def)
qed

lemma map_filter_filter: "List.map_filter f xs = map (\<lambda>x. the (f x)) (filter (\<lambda>x. f x \<noteq> None) xs)"
  by (simp add: List.map_filter_def comp_def)

lemma findings_labelled:
  "filter (\<lambda>kf. finding_current_human kf st \<noteq> None) (findings st)
     = sort (remdups (map (\<lambda>r. (fo_key r, fo_family r)) (filter human (fos st))))" (is "?A = ?B")
proof (rule sorted_distinct_set_unique)
  show "sorted ?A" "distinct ?A" "sorted ?B" "distinct ?B"
    by (simp_all add: findings_def sorted_wrt_filter)
  have "finding_current_human kf st \<noteq> None \<longleftrightarrow> (\<exists>r \<in> set (fos st). human r \<and> about kf r)" for kf
    by (auto simp: finding_current_human_def latest_def first_by_None filter_empty_conv finding_rows_def)
  then show "set ?A = set ?B" by (auto simp: findings_def about_def image_iff) metis
qed

lemma human_view_only:
  assumes "filter human (fos t) = filter human (fos s)"
  shows "human_view t = human_view s"
  unfolding human_view_def map_filter_filter findings_labelled using human_rows_only [OF assms] assms by simp

lemma machine_keeps_human: "machine_step sha s t \<Longrightarrow> filter human (fos t) = filter human (fos s)"
  by (rule adds_filter [OF machine_step_adds]) (auto simp: machine_event_def human_def)

text \<open>
  C22. The self-labelling fence: whatever sequence of machine verbs runs (recorded reviews, sweeps,
  execution priors, panel proposals), the human labels and the promoted precision that gates autonomy
  are what they were, and a finding a human has labelled still has that label as its current state.
\<close>

theorem human_labels_fenced:
  assumes "reach (outcome_step lower sha) empty_log st" "reach (machine_step sha) st t"
  shows "human_view t = human_view st \<and> finding_precision_promoted t = finding_precision_promoted st
    \<and> (\<forall>kf r. finding_current_human kf st = Some r \<longrightarrow> finding_current kf t = Some r)"
proof -
  have ok: "log_ok st" using assms(1) by (rule reachable_log_ok)
  have same: "filter human (fos t) = filter human (fos st)"
    using assms(2) ok by (rule machines.reach_rel [where R = "\<lambda>s t. filter human (fos t) = filter human (fos s)"])
      (simp_all add: machine_keeps_human)
  have "log_ok t" using assms(2) ok by (rule machines.reach_inv)
  then show ?thesis
    using human_view_only [OF same] human_rows_only [OF same] current_is_human
    by (simp add: finding_precision_promoted_def)
qed

section \<open>The label queue\<close>

lemma queue_same:
  assumes "filter human (fos t) = filter human (fos s)" "filter lifecycle (fos t) = filter lifecycle (fos s)"
  shows "in_labelqueue kf t = in_labelqueue kf s"
proof -
  have "filter lifecycle (finding_rows kf t) = filter lifecycle (finding_rows kf s)"
    unfolding finding_rows_def by (metis (no_types, lifting) assms(2) filter_filter conj_commute filter_cong)
  moreover have "list_ex human (finding_rows kf t) = list_ex human (finding_rows kf s)"
  proof -
    have "x \<in> set (fos t) \<and> human x \<longleftrightarrow> x \<in> set (fos s) \<and> human x" for x using arg_cong [OF assms(1), of set] by auto
    then show ?thesis unfolding finding_rows_def list_ex_iff by auto
  qed
  ultimately show ?thesis by (simp add: in_labelqueue_def)
qed

lemma latest_append:
  assumes "\<And>x y. x \<in> set T \<Longrightarrow> y \<in> set U \<Longrightarrow> fo_seq x < fo_seq y" "U \<noteq> []"
  shows "\<exists>r \<in> set U. latest (T @ U) = Some r"
proof -
  obtain r where r: "latest (T @ U) = Some r" using assms(2) by (cases "latest (T @ U)") (auto simp: latest_def first_by_None)
  obtain u where u: "u \<in> set U" using assms(2) by (cases U) auto
  from first_by_Some [OF r [unfolded latest_def]] have m: "r \<in> set (T @ U)" "fo_seq u \<le> fo_seq r" using u by auto
  from m assms(1) [of r u] u have "r \<in> set U" by auto
  with r show ?thesis by blast
qed

text \<open>Rows added to a queued finding leave it queued unless one of them expires it.\<close>

lemma queue_kept:
  assumes "log_ok t" "fos t = fos s @ rows" "in_labelqueue kf s"
    and "\<And>r. r \<in> set rows \<Longrightarrow> about kf r \<Longrightarrow> \<not> human r \<and> fo_outcome r \<noteq> Expired"
  shows "in_labelqueue kf t"
proof -
  have rw: "finding_rows kf t = finding_rows kf s @ filter (about kf) rows" by (simp add: finding_rows_def assms(2))
  let ?T = "filter lifecycle (finding_rows kf s)" and ?U = "filter lifecycle (filter (about kf) rows)"
  have nh: "\<not> list_ex human (finding_rows kf t)" using assms(3,4) by (auto simp: rw in_labelqueue_def list_ex_iff)
  have "map_option fo_outcome (latest (?T @ ?U)) \<noteq> Some Expired"
  proof (cases "?U = []")
    case True
    with assms(3) show ?thesis by (simp add: in_labelqueue_def)
  next
    case False
    have "fo_seq x < fo_seq y" if "x \<in> set ?T" "y \<in> set ?U" for x y
      using that assms(1,2) by (auto simp: finding_rows_def log_ok_def sorted_wrt_append)
    then obtain z where z: "z \<in> set ?U" "latest (?T @ ?U) = Some z" using latest_append [of ?T ?U] False by blast
    from z(1) assms(4) [of z] have "fo_outcome z \<noteq> Expired" by simp
    with z(2) show ?thesis by simp
  qed
  with nh show ?thesis by (simp add: in_labelqueue_def rw)
qed

lemma adds_queue:
  assumes "log_ok s" "adds P s t" "in_labelqueue kf s"
    and "\<And>x e. P x e \<Longrightarrow> (fo_key e, fo_family e) = kf \<Longrightarrow> fo_source e \<notin> {Human_Dismiss, Human_Confirm} \<and> fo_outcome e \<noteq> Expired"
  shows "in_labelqueue kf t"
proof -
  obtain rows where r: "fos t = fos s @ rows" "\<forall>r \<in> set rows. \<exists>x n now e. P x e \<and> r = stamp n now e"
    using adds_rows [OF assms(2)] by blast
  show ?thesis
  proof (rule queue_kept [OF adds_ok [OF assms(2,1)] r(1) assms(3)])
    fix r assume "r \<in> set rows" "about kf r"
    with r(2) assms(4) show "\<not> human r \<and> fo_outcome r \<noteq> Expired" by (fastforce simp: about_def human_def)
  qed
qed

text \<open>
  No machine identity takes a finding that awaits a human label out of the queue: a recorded review
  (which may close it), an execution prior and a panel proposal leave it queued, and the sweep drops it
  only when its latest raise is older than the time to live.
\<close>

theorem machines_leave_queue:
  assumes "reach (outcome_step lower sha) empty_log st" "in_labelqueue kf st"
  shows "in_labelqueue kf (fst (record_findings sha now v st))
    \<and> in_labelqueue kf (fst (record_exec_prior now day role kf' tip st))
    \<and> in_labelqueue kf (fst (propose_outcome now role kf' verdict play st))
    \<and> (in_labelqueue kf (fst (expire_open now day ttl st)) \<or> (\<exists>t. raised_at kf st = Some t \<and> t < now - 86400 * ttl))"
  (is "?rec \<and> ?exec \<and> ?panel \<and> (?sweep \<or> ?late)")
proof (intro conjI)
  note ok = reachable_log_ok [OF assms(1)]
  show ?rec by (rule adds_queue [OF ok record_findings_adds [OF prod.collapse [symmetric]] assms(2)])
      (auto simp: close_event_def open_event_def)
  have same: "in_labelqueue kf t" if "adds P st t" "\<And>x e. P x e \<Longrightarrow> fo_source e \<in> {Exec_Verified, Panel_Proposed}" for P t
  proof -
    have "filter human (fos t) = filter human (fos st)" "filter lifecycle (fos t) = filter lifecycle (fos st)"
      by (rule adds_filter [OF that(1)]; use that(2) in \<open>fastforce simp: human_def lifecycle_def\<close>)+
    from queue_same [OF this] assms(2) show ?thesis by simp
  qed
  show ?exec by (rule same [OF exec_adds [OF prod.collapse [symmetric]]]) simp
  show ?panel by (rule same [OF propose_adds [OF prod.collapse [symmetric]]]) simp
  show "?sweep \<or> ?late"
  proof (cases ?late)
    case False
    then have "\<not> overdue now ttl r st" if "(fo_key r, fo_family r) = kf" for r
      unfolding overdue_def that by (simp split: option.splits)
    then show ?thesis
      by (intro disjI1 adds_queue [OF ok expire_open_adds [OF prod.collapse [symmetric]] assms(2)]) (auto simp: relabel_def)
  qed simp
qed

section \<open>Closing\<close>

lemma current_row:
  assumes "finding_current kf st = Some q"
  shows "q \<in> set (fos st)" "fo_key q = fst kf" "fo_family q = snd kf"
  using first_by_Some(1) [OF assms [unfolded finding_current_def]] by (auto simp: finding_rows_def about_def)

lemma current_view_row:
  "r \<in> set (current_view st) \<longleftrightarrow> finding_current (fo_key r, fo_family r) st = Some r"
proof
  assume "r \<in> set (current_view st)"
  then obtain kf where "finding_current kf st = Some r" unfolding current_view_def map_filter_filter by auto
  with current_row [OF this] show "finding_current (fo_key r, fo_family r) st = Some r" by simp
next
  assume c: "finding_current (fo_key r, fo_family r) st = Some r"
  have "(fo_key r, fo_family r) \<in> set (findings st)" using current_row(1) [OF c] by (auto simp: findings_def)
  with c show "r \<in> set (current_view st)" unfolding current_view_def map_filter_filter by force
qed

lemma close_phase_closes:
  assumes "close_phase now v rs st n = Some (t, m)" "r \<in> set rs" "gone v r"
  shows "event_key (close_event v r) \<in> event_key ` set (fos t)"
  using assms
proof (induction now v rs st n rule: close_phase.induct)
  case (2 now v q rs st n)
  show ?case
  proof (cases "gone v q")
    case False
    with 2 show ?thesis by auto
  next
    case True
    with 2(3) obtain x ins where i: "insert_event now (close_event v q) st = Some (x, ins)"
      and c: "close_phase now v rs x (if ins then Suc n else n) = Some (t, m)"
      by (auto split: option.splits)
    have in_x: "event_key (close_event v q) \<in> event_key ` set (fos x)" using i by (cases rule: insert_event_cases) auto
    have "set (fos x) \<subseteq> set (fos t)" using adds_prefix [OF close_phase_adds [OF c]] by (rule set_mono_prefix)
    with in_x have "event_key (close_event v q) \<in> event_key ` set (fos t)" by (rule subsetD [OF image_mono, rotated])
    moreover have "r \<in> set rs \<Longrightarrow> ?thesis" using 2(2) True i c 2(5) by auto
    ultimately show ?thesis using 2(4) by auto
  qed
qed simp

text \<open>
  What a review may close: the finding is open, on a path the review changed, raised first on the
  review's own ref, and the file at the reviewed tip is known not to hold its line.
\<close>

definition closable :: "review \<Rightarrow> outcome_store \<Rightarrow> outcome_row \<Rightarrow> bool" where
  "closable v st c \<longleftrightarrow> finding_current (fo_key c, fo_family c) st = Some c \<and> fo_outcome c = Opened
     \<and> fo_repo c = rv_repo v \<and> fo_path c \<in> set (rv_changed v)
     \<and> origin_ref (fo_key c, fo_family c) st = Some (rv_ref v)
     \<and> (\<exists>s. present_in v (fo_path c) = Some s \<and> fo_hash c \<notin> s)"

lemma closable_iff: "closable v st c \<longleftrightarrow> c \<in> set (open_rows v st) \<and> gone v c"
  by (auto simp: closable_def open_rows_def current_view_row gone_def split: option.splits)

text \<open>
  C23. A review closes exactly the findings it may close: each new \<^verbatim>\<open>applied_fixed\<close> row belongs to a
  finding that was open, raised on the same ref, on a changed path, and whose line is determined to be
  absent (an unknown presence never closes), and when the recorder returns every such finding has its
  closing event.
\<close>

theorem close_exact:
  assumes "record_findings sha now v st = (t, rep)"
  shows "(\<forall>r \<in> set (fos t) - set (fos st). fo_outcome r = Applied_Fixed \<longrightarrow>
        (\<exists>c. closable v st c \<and> fo_key r = fo_key c \<and> fo_family r = fo_family c \<and> fo_tip r = rv_tip v))
    \<and> (rep \<noteq> None \<longrightarrow> (\<forall>c. closable v st c \<longrightarrow> event_key (close_event v c) \<in> event_key ` set (fos t)))"
proof (intro conjI ballI impI allI)
  fix r assume r: "r \<in> set (fos t) - set (fos st)" "fo_outcome r = Applied_Fixed"
  obtain rows where rows: "fos t = fos st @ rows" "\<forall>q \<in> set rows. \<exists>x n w e. ((\<exists>c \<in> set (open_rows v st). gone v c \<and> e = close_event v c)
      \<or> (\<exists>(kf, f) \<in> set (by_key sha v). \<not> sticky kf x \<and> e = open_event v kf f)) \<and> q = stamp n w e"
    using adds_rows [OF record_findings_adds [OF assms]] by blast
  have "r \<in> set rows" using r(1) rows(1) by auto
  with rows(2) obtain x n w e where e: "r = stamp n w e" and p: "(\<exists>c \<in> set (open_rows v st). gone v c \<and> e = close_event v c)
      \<or> (\<exists>(kf, f) \<in> set (by_key sha v). \<not> sticky kf x \<and> e = open_event v kf f)" by blast
  from e r(2) have "fo_outcome e = Applied_Fixed" by simp
  with p obtain c where "c \<in> set (open_rows v st)" "gone v c" "e = close_event v c" by (auto simp: open_event_def)
  then show "\<exists>c. closable v st c \<and> fo_key r = fo_key c \<and> fo_family r = fo_family c \<and> fo_tip r = rv_tip v"
    unfolding closable_iff e by (intro exI [of _ c]) (simp add: close_event_def)
next
  fix c assume "rep \<noteq> None" "closable v st c"
  with assms obtain x n rep0 rep1 where c: "close_phase now v (open_rows v st) st 0 = Some (x, n)"
    and o': "open_phase now v (by_key sha v) x rep0 = Some (t, rep1)"
    by (auto simp: record_findings_def split: option.splits)
  from \<open>closable v st c\<close> have "c \<in> set (open_rows v st)" "gone v c" by (simp_all add: closable_iff)
  from close_phase_closes [OF c this] set_mono_prefix [OF adds_prefix [OF open_phase_adds [OF o']]]
  show "event_key (close_event v c) \<in> event_key ` set (fos t)" by (rule subsetD [OF image_mono, rotated])
qed

section \<open>Labels\<close>

text \<open>A new human row becomes the current state of its finding.\<close>

lemma new_label_current:
  assumes "log_ok t" "fos t = T @ r # U" "human r" "\<And>u. u \<in> set U \<Longrightarrow> \<not> (about (fo_key r, fo_family r) u \<and> human u)"
  shows "finding_current (fo_key r, fo_family r) t = Some r"
proof (rule current_is_human [OF assms(1)])
  let ?H = "filter human (finding_rows (fo_key r, fo_family r) t)"
  have "inj_on fo_seq (set ?H)" by (rule inj_on_subset [OF log_ok_inj [OF assms(1)]]) (auto simp: finding_rows_def)
  then have "inj_on (\<lambda>r. - int (fo_seq r)) (set ?H)" by (auto simp: inj_on_def)
  then show "finding_current_human (fo_key r, fo_family r) t = Some r"
    unfolding finding_current_human_def latest_def
  proof (rule first_by_unique)
    show "r \<in> set ?H" using assms(2,3) by (simp add: finding_rows_def about_def)
    fix s assume "s \<in> set ?H"
    then have "s \<in> set (T @ r # U)" "about (fo_key r, fo_family r) s \<and> human s" unfolding finding_rows_def assms(2) set_filter by blast+
    with assms(4) [of s] have "s \<in> set T \<or> s = r" by auto
    with assms(1,2) show "- int (fo_seq r) \<le> - int (fo_seq s)" by (auto simp: log_ok_def sorted_wrt_append)
  qed
qed

lemma write_labels_current:
  assumes "write_labels now L fk ev o' s fams st n = Some (t, m)" "log_ok st" "s \<in> {Human_Dismiss, Human_Confirm}"
    and "fam \<in> set fams" "distinct fams" "finding_current (fk, fam) st = Some c" "L (fo_outcome c)"
    and "(fk, fam, o', s, ev) \<notin> event_key ` set (fos st)"
  shows "map_option fo_outcome (finding_current (fk, fam) t) = Some o'"
  using assms
proof (induction now L fk ev o' s fams st n rule: write_labels.induct)
  case (2 now L fk ev o' s f fams st n)
  let ?P = "\<lambda>F x e. \<exists>fam \<in> set F. \<exists>r. finding_current (fk, fam) x = Some r \<and> e = relabel r ev (fo_tip r) o' s"
  show ?case
  proof (cases "f = fam")
    case True
    with 2(4,9,10) obtain x ins where i: "insert_event now (relabel c ev (fo_tip c) o' s) st = Some (x, ins)"
      and w: "write_labels now L fk ev o' s fams x (if ins then Suc n else n) = Some (t, m)"
      by (auto split: option.splits)
    have k: "fo_key c = fk" "fo_family c = fam" using current_row [OF 2(9)] by auto
    then have "event_key (relabel c ev (fo_tip c) o' s) \<notin> event_key ` set (fos st)" using 2(11) by (simp add: event_key_def relabel_def)
    with i obtain r where r: "fos x = fos st @ [r]" "r = stamp (fo_next st) now (relabel c ev (fo_tip c) o' s)"
      by (cases rule: insert_event_cases) auto
    obtain U where U: "fos t = fos x @ U" "\<forall>u \<in> set U. \<exists>y n now e. ?P fams y e \<and> u = stamp n now e"
      using adds_rows [OF write_labels_adds [OF w]] by blast
    have "\<not> about (fo_key r, fo_family r) u" if u: "u \<in> set U" for u
    proof
      assume a: "about (fo_key r, fo_family r) u"
      from U(2) u obtain y n now e fam' q where "fam' \<in> set fams" "finding_current (fk, fam') y = Some q"
        "u = stamp n now (relabel q ev (fo_tip q) o' s)" by blast
      with current_row [of "(fk, fam')" y q] a k r(2) 2(8) True show False by (simp add: about_def relabel_def)
    qed
    moreover have "log_ok t" by (rule adds_ok [OF write_labels_adds [OF w] insert_event_ok [OF i 2(5)]])
    moreover have "human r" using 2(6) r(2) by (auto simp: human_def relabel_def)
    ultimately have "finding_current (fo_key r, fo_family r) t = Some r"
      using U(1) r(1) by (intro new_label_current [where T = "fos st" and U = U]) auto
    with k r(2) show ?thesis by (simp add: relabel_def)
  next
    case False
    then have mem: "fam \<in> set fams" "distinct fams" using 2(7,8) by auto
    show ?thesis
    proof (cases "\<exists>q. finding_current (fk, f) st = Some q \<and> L (fo_outcome q)")
      case skip: False
      then have "write_labels now L fk ev o' s fams st n = Some (t, m)" using 2(4) by (auto split: option.splits if_splits)
      with skip 2(1,2) 2(5,6) mem 2(9-11) show ?thesis by (cases "finding_current (fk, f) st") auto
    next
      case True
      then obtain q where q: "finding_current (fk, f) st = Some q" "L (fo_outcome q)" by blast
      with 2(4) obtain x ins where i: "insert_event now (relabel q ev (fo_tip q) o' s) st = Some (x, ins)"
        and w: "write_labels now L fk ev o' s fams x (if ins then Suc n else n) = Some (t, m)"
        by (auto split: option.splits)
      have k: "fo_key q = fk" "fo_family q = f" using current_row [OF q(1)] by auto
      from i have "finding_rows (fk, fam) x = finding_rows (fk, fam) st \<and> (fk, fam, o', s, ev) \<notin> event_key ` set (fos x)"
        by (cases rule: insert_event_cases) (use 2(11) False k in \<open>auto simp: finding_rows_def about_def event_key_def relabel_def\<close>)
      then have "finding_current (fk, fam) x = Some c" "(fk, fam, o', s, ev) \<notin> event_key ` set (fos x)"
        using 2(9) by (auto simp: finding_current_def)
      with 2(3) [OF q(1)] q(2) i w insert_event_ok [OF i 2(5)] 2(6) mem 2(10) show ?thesis by auto
    qed
  qed
qed simp

text \<open>
  A label takes: when a human or an admin confirms a finding under a prefix that names exactly one key,
  every requested family that raised it has that label as its current state and leaves the queue,
  provided the same label was not written before and corrected since.
\<close>

theorem confirm_takes:
  assumes "log_ok st" "confirm_outcome lower now role pre arg kind st = (t, Written n fk)"
    and "confirm_pair kind = Some (s, o')" "families_of arg = Some fams" "fam \<in> set fams" "finding_rows (fk, fam) st \<noteq> []"
    and "(fk, fam, o', s, human_event fk kind) \<notin> event_key ` set (fos st)"
  shows "role \<in> {''human'', ''admin''} \<and> keys_with (clean_prefix lower pre) st = [fk]
    \<and> map_option fo_outcome (finding_current (fk, fam) t) = Some o'"
proof -
  from assms(2,3,4) have r: "role \<in> {''human'', ''admin''}"
    and l: "label_finding now (\<lambda>_. True) (clean_prefix lower pre) fams kind o' s st = (t, Written n fk)"
    by (auto simp: confirm_outcome_def Let_def HUMAN_ROLES_def split: if_splits)
  from l have k: "keys_with (clean_prefix lower pre) st = [fk]"
    and w: "write_labels now (\<lambda>_. True) fk (human_event fk kind) o' s fams st 0 = Some (t, n)"
    by (auto simp: label_finding_def split: list.splits option.splits)
  obtain c where c: "finding_current (fk, fam) st = Some c"
    using assms(6) by (cases "finding_current (fk, fam) st") (auto simp: finding_current_def first_by_None)
  have "s \<in> {Human_Dismiss, Human_Confirm}" using assms(3) by (auto simp: confirm_pair_def split: if_splits)
  moreover have "distinct fams" using assms(4) by (auto simp: families_of_def REVIEWER_FAMILIES_def Let_def split: if_splits)
  ultimately show ?thesis using write_labels_current [OF w assms(1) _ assms(5) _ c _ assms(7)] r k by simp
qed

end
