(* ===== verification/Outcomes_Examples.thy ===== *)
theory Outcomes_Examples
  imports Outcomes_Store_Props
begin

text \<open>
  Concrete runs of the outcomes ledger: a review raises a finding, a human confirms it, a panel proposes
  the opposite and a later review finds the line gone.
\<close>

definition ex_key :: string where
  "ex_key = ''0123456789ab''"

definition ex_review :: review where
  "ex_review = \<lparr>rv_repo = [114], rv_ref = ''main'', rv_tip = ''t1'', rv_play = ''p1'', rv_changed = [[97]],
     rv_open = [\<lparr>ra_tag = [120], ra_path = [97], ra_hash = ''h'', ra_family = ''kilabz''\<rparr>], rv_present = None\<rparr>"

definition ex_fix :: review where
  "ex_fix = \<lparr>rv_repo = [114], rv_ref = ''main'', rv_tip = ''t2'', rv_play = ''p2'', rv_changed = [[97]],
     rv_open = [], rv_present = Some [[97] \<mapsto> Some {''g''}]\<rparr>"

definition ex_row :: outcome_row where
  "ex_row = \<lparr>fo_key = ex_key, fo_repo = [114], fo_ref = ''main'', fo_tag = [120], fo_family = ''kilabz'',
     fo_path = [97], fo_hash = ''h'', fo_event = ''review:p1'', fo_tip = ''t1'', fo_outcome = Opened,
     fo_source = Review_Raised, fo_seq = 1, fo_at = 0\<rparr>"

definition ex_raised :: outcome_store where
  "ex_raised = \<lparr>fos = [ex_row], fo_next = 2\<rparr>"

lemmas outcome_eval = record_findings_def insert_event_def row_check_def REVIEWER_FAMILIES_def stamp_def
  finding_event.extend_def by_key_def open_rows_def current_view_def findings_def List.map_filter_def
  finding_current_def finding_current_human_def finding_rows_def latest_def first_by_def about_def human_def
  sticky_def gone_def present_in_def origin_ref_def event_key_def finding_key_def open_event_def close_event_def
  review_event_def

lemma ex_raise: "record_findings (\<lambda>_. ex_key) 0 ex_review empty_log
    = (ex_raised, Some \<lparr>fr_closed = 0, fr_opened = 1, fr_skipped = 0,
        fr_rows = [(ex_key, \<lparr>ra_tag = [120], ra_path = [97], ra_hash = ''h'', ra_family = ''kilabz''\<rparr>)]\<rparr>)"
  by (simp add: outcome_eval ex_review_def ex_raised_def ex_row_def ex_key_def empty_log_def)

definition ex_label :: outcome_row where
  "ex_label = ex_row\<lparr>fo_event := ''human:0123456789ab:real'', fo_outcome := Confirmed_Real, fo_source := Human_Confirm,
     fo_seq := 2, fo_at := 5\<rparr>"

definition ex_labelled :: outcome_store where
  "ex_labelled = \<lparr>fos = [ex_row, ex_label], fo_next = 3\<rparr>"

lemma ex_confirm: "confirm_outcome id 5 ''human'' (Some (codes ex_key)) ''kilabz'' ''real'' ex_raised
    = (ex_labelled, Written 1 ex_key)"
proof -
  have p: "clean_prefix id (Some (codes ex_key)) = codes ex_key"
    by (simp add: clean_prefix_def ex_key_def codes_def strip_def lstrip_def is_space_def)
  have o': "prefix_ok (codes ex_key)" by (simp add: prefix_ok_def ex_key_def codes_def)
  have k: "keys_with (codes ex_key) ex_raised = [ex_key]" by (simp add: keys_with_def ex_raised_def ex_row_def)
  have w: "write_labels 5 (\<lambda>_. True) ex_key (human_event ex_key ''real'') Confirmed_Real Human_Confirm [''kilabz''] ex_raised 0
      = Some (ex_labelled, 1)"
    by (simp add: outcome_eval relabel_def human_event_def ex_raised_def ex_row_def ex_labelled_def ex_label_def ex_key_def)
  show ?thesis unfolding confirm_outcome_def Let_def p
    by (simp add: o' k w HUMAN_ROLES_def confirm_pair_def families_of_def REVIEWER_FAMILIES_def label_finding_def del: write_labels.simps)
qed

definition ex_doubted :: outcome_store where
  "ex_doubted = fst (propose_outcome 6 ''labeler'' (ex_key, ''kilabz'') ''fp'' ''p3'' ex_labelled)"

lemma ex_reach: "reach (outcome_step id (\<lambda>_. ex_key)) empty_log ex_raised" "reach (outcome_step id (\<lambda>_. ex_key)) empty_log ex_labelled"
proof -
  show r: "reach (outcome_step id (\<lambda>_. ex_key)) empty_log ex_raised"
    by (rule reach_step, rule reach_refl, rule do_machine, rule do_record, rule ex_raise)
  show "reach (outcome_step id (\<lambda>_. ex_key)) empty_log ex_labelled"
    by (rule reach_step, rule r, rule do_confirm, rule ex_confirm)
qed

theorem human_labels_fenced_witness:
  "finding_current_human (ex_key, ''kilabz'') ex_labelled = Some ex_label
    \<and> length (fos ex_doubted) = 3 \<and> finding_current (ex_key, ''kilabz'') ex_doubted = Some ex_label"
proof -
  have "reach (machine_step (\<lambda>_. ex_key)) ex_labelled ex_doubted"
    unfolding ex_doubted_def by (rule reach_step, rule reach_refl, rule do_propose, rule prod.collapse [symmetric])
  note f = human_labels_fenced [OF ex_reach(2) this]
  have h: "finding_current_human (ex_key, ''kilabz'') ex_labelled = Some ex_label"
    by (simp add: outcome_eval ex_labelled_def ex_row_def ex_label_def ex_key_def)
  have "length (fos ex_doubted) = 3"
    by (simp add: ex_doubted_def propose_outcome_def machine_label_def outcome_eval relabel_def ex_labelled_def ex_row_def ex_label_def ex_key_def)
  with f h show ?thesis by blast
qed

lemma ex_queued: "in_labelqueue (ex_key, ''kilabz'') ex_raised"
  by (simp add: in_labelqueue_def lifecycle_def outcome_eval ex_raised_def ex_row_def ex_key_def)

theorem machines_leave_queue_witness:
  "in_labelqueue (ex_key, ''kilabz'') (fst (record_findings (\<lambda>_. ex_key) 7 ex_fix ex_raised))
    \<and> in_labelqueue (ex_key, ''kilabz'') (fst (propose_outcome 7 ''labeler'' (ex_key, ''kilabz'') ''fp'' ''p3'' ex_raised))"
  using machines_leave_queue [OF ex_reach(1) ex_queued] by blast

definition ex_closed :: outcome_row where
  "ex_closed = ex_row\<lparr>fo_event := ''review:p2'', fo_tip := ''t2'', fo_outcome := Applied_Fixed, fo_source := Auto_Fix_Landed,
     fo_seq := 2, fo_at := 7\<rparr>"

lemma ex_fixed: "record_findings (\<lambda>_. ex_key) 7 ex_fix ex_raised
    = (\<lparr>fos = [ex_row, ex_closed], fo_next = 3\<rparr>, Some \<lparr>fr_closed = 1, fr_opened = 0, fr_skipped = 0, fr_rows = []\<rparr>)"
  by (simp add: outcome_eval ex_fix_def ex_raised_def ex_row_def ex_key_def ex_closed_def)

theorem close_exact_witness:
  "(\<exists>c. closable ex_fix ex_raised c \<and> fo_key ex_closed = fo_key c \<and> fo_family ex_closed = fo_family c \<and> fo_tip ex_closed = ''t2'')
    \<and> closable ex_fix ex_raised ex_row"
proof -
  have "ex_closed \<in> set [ex_row, ex_closed] - set [ex_row]" "fo_outcome ex_closed = Applied_Fixed"
    by (simp_all add: ex_closed_def ex_row_def)
  moreover have "rv_tip ex_fix = ''t2''" by (simp add: ex_fix_def)
  ultimately have "\<exists>c. closable ex_fix ex_raised c \<and> fo_key ex_closed = fo_key c \<and> fo_family ex_closed = fo_family c \<and> fo_tip ex_closed = ''t2''"
    using close_exact [OF ex_fixed] by (simp add: ex_raised_def)
  moreover have "closable ex_fix ex_raised ex_row"
    by (simp add: closable_def outcome_eval ex_fix_def ex_raised_def ex_row_def ex_key_def)
  ultimately show ?thesis by blast
qed

text \<open>A body with one well-formed line, one without a line number and one unrelated line.\<close>

definition ex_body :: pytext where
  "ex_body = codes ''finding: fail-open @ a.py:7'' @ 10 # codes ''finding: x @ b.py'' @ 10 # codes ''hello''"

lemma ex_parse: "parse_finding_lines (map ascii_lower) [codes ''fail-open''] ex_body
    = Some ([\<lparr>fi_tag = codes ''fail-open'', fi_path = codes ''a.py'', fi_line = 7\<rparr>], 1)"
  by (simp add: parse_finding_lines_def parse_line_def ex_body_def finding_line_def ci_eq_def rsplit1_def SEP_def List.map_filter_def
      blank_def raw_ctrl_def digit_def nat_of_digits_def excluded_path_def int_max_str_digits_def OUTCOME_MAX_ROWS_def
      is_allowed_tag_def tag_re_def tag_form_def name_char_def is_ascii_def drop_final_newline_def RULE_TAG_TAXONOMY_def ascii_lower_def text_eval Let_def)

theorem parse_finding_lines_sound_witness:
  "finding_ok (map ascii_lower) [codes ''fail-open''] \<lparr>fi_tag = codes ''fail-open'', fi_path = codes ''a.py'', fi_line = 7\<rparr>
    \<and> length (List.map_filter finding_line (split_on 10 ex_body)) = 2"
  using parse_finding_lines_sound [OF ex_parse] by simp

end
