(* ===== verification/Knowledge_Store.thy ===== *)
theory Knowledge_Store
  imports Pytext Complex_Main
begin

text \<open>
  The knowledge verbs of \<^verbatim>\<open>src/runtime/ledger/postgres_store.py\<close>: the derived index of a document
  corpus, an append-only table read through the views \<^verbatim>\<open>knowledge_doc_current\<close> and
  \<^verbatim>\<open>knowledge_doc_active\<close>, and the commit fence (generation plus the highest sequence number of a
  scope) that rejects a walk taken before another commit. Each verb is one transaction under the
  advisory lock of its scope. The full-text machinery of the database is a set of arguments: \<open>fits\<close> says
  whether the search vector of a document is below its limit, \<open>rank\<close> ranks a row for a query.
\<close>

section \<open>Tables and views\<close>

datatype doc_status = Doc_Active | Doc_Archived

type_synonym date = "nat \<times> nat \<times> nat"

record doc_record =
  dr_path :: pytext
  dr_title :: pytext
  dr_tags :: pytext
  dr_date :: "pytext option"
  dr_body :: pytext
  dr_sha :: string
  dr_lossy :: bool

record knowledge_row =
  kd_seq :: nat
  kd_scope :: string
  kd_path :: pytext
  kd_title :: pytext
  kd_tags :: pytext
  kd_date :: "date option"
  kd_body :: pytext
  kd_sha :: string
  kd_status :: doc_status
  kd_lossy :: bool

record knowledge_store =
  kdocs :: "knowledge_row list"
  kd_next :: nat
  kd_gen :: "string \<rightharpoonup> nat"

definition doc_rows :: "string \<Rightarrow> pytext \<Rightarrow> knowledge_store \<Rightarrow> knowledge_row list" where
  "doc_rows scope p st = filter (\<lambda>r. kd_scope r = scope \<and> kd_path r = p) (kdocs st)"

definition doc_current :: "string \<Rightarrow> pytext \<Rightarrow> knowledge_store \<Rightarrow> knowledge_row option" where
  "doc_current scope p st = first_by (\<lambda>r. - int (kd_seq r)) (doc_rows scope p st)"

definition scope_paths :: "string \<Rightarrow> knowledge_store \<Rightarrow> pytext list" where
  "scope_paths scope st = sort (remdups (map kd_path (filter (\<lambda>r. kd_scope r = scope) (kdocs st))))"

definition knowledge_doc_current :: "string \<Rightarrow> knowledge_store \<Rightarrow> knowledge_row list" where
  "knowledge_doc_current scope st = List.map_filter (\<lambda>p. doc_current scope p st) (scope_paths scope st)"

definition knowledge_doc_active :: "string \<Rightarrow> knowledge_store \<Rightarrow> knowledge_row list" where
  "knowledge_doc_active scope st = filter (\<lambda>r. kd_status r = Doc_Active) (knowledge_doc_current scope st)"

section \<open>The fence\<close>

definition max_seq :: "string \<Rightarrow> knowledge_store \<Rightarrow> nat" where
  "max_seq scope st = foldl max 0 (map kd_seq (filter (\<lambda>r. kd_scope r = scope) (kdocs st)))"

definition scope_gen :: "string \<Rightarrow> knowledge_store \<Rightarrow> nat" where
  "scope_gen scope st = (case kd_gen st scope of None \<Rightarrow> 0 | Some g \<Rightarrow> g)"

definition knowledge_fence :: "string \<Rightarrow> knowledge_store \<Rightarrow> nat" where
  "knowledge_fence scope st = scope_gen scope st + max_seq scope st"

definition gen_bump :: "string \<Rightarrow> knowledge_store \<Rightarrow> knowledge_store" where
  "gen_bump scope st = st\<lparr>kd_gen := (kd_gen st)(scope \<mapsto> scope_gen scope st + 1)\<rparr>"

definition stale :: "string \<Rightarrow> int option \<Rightarrow> knowledge_store \<Rightarrow> bool" where
  "stale scope expect st \<longleftrightarrow> (case expect of None \<Rightarrow> False | Some f \<Rightarrow> int (knowledge_fence scope st) \<noteq> f)"

section \<open>Writing rows\<close>

text \<open>
  \<^verbatim>\<open>date.fromisoformat\<close> on the form the walk produces (four digits, two, two, with hyphens); every
  other text is taken as not a date.
\<close>

definition leap :: "nat \<Rightarrow> bool" where
  "leap y \<longleftrightarrow> y mod 4 = 0 \<and> (y mod 100 \<noteq> 0 \<or> y mod 400 = 0)"

definition days_in_month :: "nat \<Rightarrow> nat \<Rightarrow> nat" where
  "days_in_month y mo = (if mo = 2 then (if leap y then 29 else 28) else if mo \<in> {4, 6, 9, 11} then 30 else 31)"

definition digits_value :: "pytext \<Rightarrow> nat option" where
  "digits_value s = (if list_all (\<lambda>c. 48 \<le> c \<and> c \<le> 57) s then Some (foldl (\<lambda>n c. 10 * n + (c - 48)) 0 s) else None)"

definition iso_date :: "pytext \<Rightarrow> date option" where
  "iso_date s =
     (case split_on 45 s of
        [y, mo, d] \<Rightarrow>
          (if length y = 4 \<and> length mo = 2 \<and> length d = 2
           then (case (digits_value y, digits_value mo, digits_value d) of
                   (Some y', Some m', Some d') \<Rightarrow>
                     (if 1 \<le> y' \<and> 1 \<le> m' \<and> m' \<le> 12 \<and> 1 \<le> d' \<and> d' \<le> days_in_month y' m' then Some (y', m', d') else None)
                 | _ \<Rightarrow> None)
           else None)
      | _ \<Rightarrow> None)"

definition knowledge_date :: "pytext option \<Rightarrow> date option" where
  "knowledge_date iso' = (case iso' of None \<Rightarrow> None | Some s \<Rightarrow> if s = [] then None else iso_date s)"

definition append_row :: "(nat \<Rightarrow> knowledge_row) \<Rightarrow> knowledge_store \<Rightarrow> knowledge_store" where
  "append_row mk st = st\<lparr>kdocs := kdocs st @ [mk (kd_next st)], kd_next := Suc (kd_next st)\<rparr>"

definition active_row :: "string \<Rightarrow> doc_record \<Rightarrow> nat \<Rightarrow> knowledge_row" where
  "active_row scope d n =
     \<lparr>kd_seq = n, kd_scope = scope, kd_path = dr_path d, kd_title = dr_title d, kd_tags = dr_tags d,
      kd_date = knowledge_date (dr_date d), kd_body = dr_body d, kd_sha = dr_sha d, kd_status = Doc_Active,
      kd_lossy = dr_lossy d\<rparr>"

definition archived_row :: "string \<Rightarrow> pytext \<Rightarrow> nat \<Rightarrow> knowledge_row" where
  "archived_row scope p n =
     \<lparr>kd_seq = n, kd_scope = scope, kd_path = p, kd_title = [], kd_tags = [], kd_date = None, kd_body = [],
      kd_sha = ''absent'', kd_status = Doc_Archived, kd_lossy = False\<rparr>"

text \<open>The savepoint undoes the row of an oversize document but not the sequence number it drew.\<close>

definition insert_active ::
  "(doc_record \<Rightarrow> bool) \<Rightarrow> string \<Rightarrow> doc_record \<Rightarrow> knowledge_store \<Rightarrow> knowledge_store \<times> bool" where
  "insert_active fits scope d st =
     (if fits d then (append_row (active_row scope d) st, True) else (st\<lparr>kd_next := Suc (kd_next st)\<rparr>, False))"

definition tombstone :: "string \<Rightarrow> pytext \<Rightarrow> knowledge_store \<Rightarrow> knowledge_store" where
  "tombstone scope p st = append_row (archived_row scope p) st"

section \<open>Sync and rebuild\<close>

record sync_report =
  sr_inserted :: nat
  sr_tombstoned :: nat
  sr_unchanged :: nat
  sr_skipped :: "pytext list"

definition no_report :: sync_report where
  "no_report = \<lparr>sr_inserted = 0, sr_tombstoned = 0, sr_unchanged = 0, sr_skipped = []\<rparr>"

datatype sync_result = Conflict | Committed sync_report

type_synonym doc_view = "pytext \<Rightarrow> (string \<times> doc_status) option"

definition cur_of :: "string \<Rightarrow> knowledge_store \<Rightarrow> doc_view" where
  "cur_of scope st = (\<lambda>p. map_option (\<lambda>r. (kd_sha r, kd_status r)) (doc_current scope p st))"

definition is_active :: "(string \<times> doc_status) option \<Rightarrow> bool" where
  "is_active c \<longleftrightarrow> (case c of None \<Rightarrow> False | Some (_, s) \<Rightarrow> s = Doc_Active)"

definition sync_doc ::
  "(doc_record \<Rightarrow> bool) \<Rightarrow> string \<Rightarrow> doc_view \<Rightarrow> doc_record \<Rightarrow> knowledge_store \<times> sync_report \<Rightarrow> knowledge_store \<times> sync_report" where
  "sync_doc fits scope cur d acc =
     (let (st, rep) = acc; prev = cur (dr_path d) in
      if prev = Some (dr_sha d, Doc_Active) then (st, rep\<lparr>sr_unchanged := sr_unchanged rep + 1\<rparr>)
      else case insert_active fits scope d st of
        (st', True) \<Rightarrow> (st', rep\<lparr>sr_inserted := sr_inserted rep + 1\<rparr>)
      | (st', False) \<Rightarrow>
          (let rep' = rep\<lparr>sr_skipped := sr_skipped rep @ [dr_path d]\<rparr> in
           if is_active prev then (tombstone scope (dr_path d) st', rep'\<lparr>sr_tombstoned := sr_tombstoned rep' + 1\<rparr>)
           else (st', rep')))"

definition tombstone_missing ::
  "string \<Rightarrow> pytext list \<Rightarrow> knowledge_store \<times> sync_report \<Rightarrow> knowledge_store \<times> sync_report" where
  "tombstone_missing scope gone acc =
     foldl (\<lambda>(st, rep) p. (tombstone scope p st, rep\<lparr>sr_tombstoned := sr_tombstoned rep + 1\<rparr>)) acc gone"

definition knowledge_sync ::
  "(doc_record \<Rightarrow> bool) \<Rightarrow> string \<Rightarrow> doc_record list \<Rightarrow> bool \<Rightarrow> int option \<Rightarrow> knowledge_store \<Rightarrow> knowledge_store \<times> sync_result" where
  "knowledge_sync fits scope docs missing expect st =
     (if stale scope expect st then (st, Conflict)
      else
        (let st1 = gen_bump scope st;
             cur = cur_of scope st1;
             acc = foldl (\<lambda>a d. sync_doc fits scope cur d a) (st1, no_report) docs;
             gone = filter (\<lambda>p. is_active (cur p) \<and> p \<notin> dr_path ` set docs) (scope_paths scope st1);
             (st2, rep) = (if missing then tombstone_missing scope gone acc else acc)
         in (st2, Committed rep)))"

definition reingest ::
  "(doc_record \<Rightarrow> bool) \<Rightarrow> string \<Rightarrow> doc_record \<Rightarrow> knowledge_store \<times> sync_report \<Rightarrow> knowledge_store \<times> sync_report" where
  "reingest fits scope d acc =
     (let (st, rep) = acc in
      case insert_active fits scope d st of
        (st', True) \<Rightarrow> (st', rep\<lparr>sr_inserted := sr_inserted rep + 1\<rparr>)
      | (st', False) \<Rightarrow> (st', rep\<lparr>sr_skipped := sr_skipped rep @ [dr_path d]\<rparr>))"

definition knowledge_rebuild ::
  "(doc_record \<Rightarrow> bool) \<Rightarrow> string \<Rightarrow> doc_record list \<Rightarrow> int option \<Rightarrow> knowledge_store \<Rightarrow> knowledge_store \<times> sync_result" where
  "knowledge_rebuild fits scope docs expect st =
     (if stale scope expect st then (st, Conflict)
      else
        (let st1 = gen_bump scope st;
             acc = tombstone_missing scope (map kd_path (knowledge_doc_active scope st1)) (st1, no_report);
             (st2, rep) = foldl (\<lambda>a d. reingest fits scope d a) acc docs
         in (st2, Committed rep)))"

section \<open>Recall\<close>

record recall_hit =
  rh_path :: pytext
  rh_title :: pytext
  rh_date :: "date option"
  rh_lossy :: bool
  rh_rank :: "rat option"
  rh_headline :: pytext

text \<open>The ranked rungs: \<open>rank\<close> is the rank of a row that matches the query, \<open>headline\<close> its excerpt.\<close>

definition recall_ranked ::
  "(knowledge_row \<Rightarrow> rat option) \<Rightarrow> (knowledge_row \<Rightarrow> pytext) \<Rightarrow> string \<Rightarrow> nat \<Rightarrow> knowledge_store \<Rightarrow> recall_hit list" where
  "recall_ranked rank headline scope k st =
     map (\<lambda>(n, r). \<lparr>rh_path = kd_path r, rh_title = kd_title r, rh_date = kd_date r, rh_lossy = kd_lossy r,
                    rh_rank = Some n, rh_headline = headline r\<rparr>)
       (take k (sort_key (\<lambda>(n, r). (- n, kd_path r))
         (List.map_filter (\<lambda>r. map_option (\<lambda>n. (n, r)) (rank r)) (knowledge_doc_active scope st))))"

definition or_tokens :: "pytext \<Rightarrow> pytext list \<Rightarrow> pytext" where
  "or_tokens sep tokens = join_on sep (map (\<lambda>t. t @ codes '':*'') tokens)"

definition knowledge_recall_fts ::
  "(pytext \<Rightarrow> knowledge_row \<Rightarrow> rat option) \<Rightarrow> (pytext \<Rightarrow> knowledge_row \<Rightarrow> pytext) \<Rightarrow> string \<Rightarrow> pytext \<Rightarrow> nat
     \<Rightarrow> knowledge_store \<Rightarrow> recall_hit list" where
  "knowledge_recall_fts rank headline scope query k st = recall_ranked (rank query) (headline query) scope k st"

definition knowledge_recall_prefix ::
  "(pytext \<Rightarrow> knowledge_row \<Rightarrow> rat option) \<Rightarrow> (pytext \<Rightarrow> knowledge_row \<Rightarrow> pytext) \<Rightarrow> string \<Rightarrow> pytext list \<Rightarrow> nat
     \<Rightarrow> knowledge_store \<Rightarrow> recall_hit list" where
  "knowledge_recall_prefix rank headline scope tokens k st =
     (if tokens = [] then []
      else let tsq = or_tokens (codes '' & '') tokens in recall_ranked (rank tsq) (headline tsq) scope k st)"

definition knowledge_recall_or ::
  "(pytext \<Rightarrow> knowledge_row \<Rightarrow> rat option) \<Rightarrow> (pytext \<Rightarrow> knowledge_row \<Rightarrow> pytext) \<Rightarrow> string \<Rightarrow> pytext list \<Rightarrow> nat
     \<Rightarrow> knowledge_store \<Rightarrow> recall_hit list" where
  "knowledge_recall_or rank headline scope tokens k st =
     (if tokens = [] then []
      else let tsq = or_tokens (codes '' | '') tokens in recall_ranked (rank tsq) (headline tsq) scope k st)"

text \<open>Rows with a date come first, the newest at the front; \<open>ilike\<close> is the pattern match.\<close>

definition date_desc :: "date option \<Rightarrow> nat \<times> int \<times> int \<times> int" where
  "date_desc d = (case d of None \<Rightarrow> (1, 0, 0, 0) | Some (y, mo, x) \<Rightarrow> (0, - int y, - int mo, - int x))"

definition knowledge_recall_ilike ::
  "(pytext \<Rightarrow> pytext \<Rightarrow> bool) \<Rightarrow> string \<Rightarrow> pytext \<Rightarrow> nat \<Rightarrow> knowledge_store \<Rightarrow> recall_hit list" where
  "knowledge_recall_ilike ilike scope pattern k st =
     map (\<lambda>r. \<lparr>rh_path = kd_path r, rh_title = kd_title r, rh_date = kd_date r, rh_lossy = kd_lossy r,
               rh_rank = None, rh_headline = take 200 (kd_body r)\<rparr>)
       (take k (sort_key (\<lambda>r. (date_desc (kd_date r), kd_path r))
         (filter (\<lambda>r. ilike pattern (kd_title r) \<or> ilike pattern (kd_body r)) (knowledge_doc_active scope st))))"

end
