(* ===== verification/Knowledge_Store_Props.thy ===== *)
theory Knowledge_Store_Props
  imports Knowledge_Store
begin

text \<open>
  Properties of the knowledge index: a sync refines the map it is meant to compute (every path to the
  digest on disk, to a tombstone, or to what it was), leaves other scopes alone and is idempotent; and a walk taken
  before an accepted commit is always rejected, while commits to other scopes never cause a rejection.
\<close>

section \<open>The log\<close>

definition index_ok :: "knowledge_store \<Rightarrow> bool" where
  "index_ok st \<longleftrightarrow> sorted_wrt (<) (map kd_seq (kdocs st)) \<and> (\<forall>r \<in> set (kdocs st). kd_seq r < kd_next st)"

definition empty_index :: knowledge_store where
  "empty_index = \<lparr>kdocs = [], kd_next = 1, kd_gen = Map.empty\<rparr>"

text \<open>The rows a verb writes: they are appended, belong to its scope and keep the generation.\<close>

definition wrote :: "string \<Rightarrow> knowledge_store \<Rightarrow> knowledge_store \<Rightarrow> bool" where
  "wrote scope s t \<longleftrightarrow> (index_ok s \<longrightarrow> index_ok t) \<and> kd_gen t = kd_gen s
     \<and> (\<exists>rows. kdocs t = kdocs s @ rows \<and> (\<forall>r \<in> set rows. kd_scope r = scope))"

lemma wrote_refl [intro, simp]: "wrote scope s s"
  by (simp add: wrote_def)

lemma wrote_trans:
  assumes "wrote scope s t" "wrote scope t u"
  shows "wrote scope s u"
proof -
  from assms obtain a b where "kdocs t = kdocs s @ a" "kdocs u = kdocs t @ b"
    "\<forall>r \<in> set a. kd_scope r = scope" "\<forall>r \<in> set b. kd_scope r = scope" by (auto simp: wrote_def)
  then have "kdocs u = kdocs s @ (a @ b) \<and> (\<forall>r \<in> set (a @ b). kd_scope r = scope)" by auto
  then have "\<exists>rows. kdocs u = kdocs s @ rows \<and> (\<forall>r \<in> set rows. kd_scope r = scope)" by (rule exI)
  with assms show ?thesis by (simp add: wrote_def)
qed

lemma append_row_ok:
  assumes "\<And>n. kd_seq (mk n) = n" "index_ok st"
  shows "index_ok (append_row mk st)"
  using assms by (auto simp: index_ok_def append_row_def sorted_wrt_append)

lemma append_row_wrote:
  assumes "\<And>n. kd_seq (mk n) = n" "\<And>n. kd_scope (mk n) = scope"
  shows "wrote scope st (append_row mk st)"
  using append_row_ok [OF assms(1)] assms(2) by (auto simp: wrote_def append_row_def)

lemma tombstone_wrote: "wrote scope st (tombstone scope p st)"
  unfolding tombstone_def by (rule append_row_wrote) (simp_all add: archived_row_def)

lemma draw_wrote: "wrote scope st (st\<lparr>kd_next := Suc (kd_next st)\<rparr>)"
  by (auto simp: wrote_def index_ok_def)

lemma insert_active_wrote: "wrote scope st (fst (insert_active fits scope d st))"
  unfolding insert_active_def using append_row_wrote [of "active_row scope d" scope st] draw_wrote
  by (simp add: active_row_def)

lemma sync_doc_wrote: "wrote scope (fst acc) (fst (sync_doc fits scope cur d acc))"
proof -
  obtain st rep where a: "acc = (st, rep)" by (cases acc)
  obtain st' b where i: "insert_active fits scope d st = (st', b)" by fastforce
  then have "wrote scope st st'" using insert_active_wrote [of scope st fits d] by simp
  with i show ?thesis unfolding a
    by (cases b) (auto simp: sync_doc_def Let_def intro: wrote_trans [OF _ tombstone_wrote])
qed

lemma reingest_wrote: "wrote scope (fst acc) (fst (reingest fits scope d acc))"
proof -
  obtain st rep where a: "acc = (st, rep)" by (cases acc)
  obtain st' b where i: "insert_active fits scope d st = (st', b)" by fastforce
  then have "wrote scope st st'" using insert_active_wrote [of scope st fits d] by simp
  with i show ?thesis unfolding a by (cases b) (auto simp: reingest_def Let_def)
qed

lemma foldl_wrote:
  assumes "\<And>a x. wrote scope (fst a) (fst (f a x))"
  shows "wrote scope (fst acc) (fst (foldl f acc xs))"
proof (induction xs arbitrary: acc)
  case (Cons x xs)
  from wrote_trans [OF assms [of acc x] Cons.IH [of "f acc x"]] show ?case by simp
qed simp

lemma tombstones_wrote: "wrote scope (fst acc) (fst (tombstone_missing scope gone acc))"
  unfolding tombstone_missing_def by (rule foldl_wrote) (simp add: split_beta tombstone_wrote)

section \<open>The fence\<close>

lemma foldl_max_ge: "(n :: nat) \<le> foldl max n xs"
  by (induction xs arbitrary: n) (auto intro: order_trans [OF max.cobounded1])

lemma max_seq_wrote: "wrote scope s t \<Longrightarrow> max_seq scope s \<le> max_seq scope t"
  by (auto simp: wrote_def max_seq_def foldl_max_ge)

lemma wrote_other:
  assumes "wrote scope s t" "sc \<noteq> scope"
  shows "filter (\<lambda>r. kd_scope r = sc) (kdocs t) = filter (\<lambda>r. kd_scope r = sc) (kdocs s)"
proof -
  from assms(1) obtain rows where r: "kdocs t = kdocs s @ rows" "\<forall>r \<in> set rows. kd_scope r = scope" by (auto simp: wrote_def)
  from r(2) assms(2) have "filter (\<lambda>r. kd_scope r = sc) rows = []" by (auto simp: filter_empty_conv)
  with r(1) show ?thesis by simp
qed

text \<open>An accepted commit of a scope: a sync or a rebuild that returns a report.\<close>

inductive commits :: "string \<Rightarrow> knowledge_store \<Rightarrow> knowledge_store \<Rightarrow> bool" for scope where
  do_sync: "knowledge_sync fits scope docs missing expect st = (t, Committed rep) \<Longrightarrow> commits scope st t"
| do_rebuild: "knowledge_rebuild fits scope docs expect st = (t, Committed rep) \<Longrightarrow> commits scope st t"

lemma commit_wrote:
  assumes "commits scope s t"
  shows "wrote scope (gen_bump scope s) t"
  using assms
proof cases
  case (do_sync fits docs missing expect rep)
  let ?s = "gen_bump scope s"
  let ?acc = "foldl (\<lambda>a d. sync_doc fits scope (cur_of scope ?s) d a) (?s, no_report) docs"
  let ?gone = "filter (\<lambda>p. is_active (cur_of scope ?s p) \<and> p \<notin> dr_path ` set docs) (scope_paths scope ?s)"
  have t: "t = fst (if missing then tombstone_missing scope ?gone ?acc else ?acc)"
    using do_sync by (auto simp: knowledge_sync_def Let_def split_beta split: if_splits)
  have "wrote scope (fst (?s, no_report)) (fst ?acc)" by (rule foldl_wrote) (rule sync_doc_wrote)
  then have "wrote scope ?s (fst ?acc)" by simp
  then show ?thesis unfolding t using wrote_trans [OF _ tombstones_wrote] by (cases missing) simp_all
next
  case (do_rebuild fits docs expect rep)
  let ?s = "gen_bump scope s"
  let ?acc = "tombstone_missing scope (map kd_path (knowledge_doc_active scope ?s)) (?s, no_report)"
  have t: "t = fst (foldl (\<lambda>a d. reingest fits scope d a) ?acc docs)"
    using do_rebuild by (auto simp: knowledge_rebuild_def Let_def split_beta split: if_splits)
  have "wrote scope (fst ?acc) t" unfolding t by (rule foldl_wrote) (rule reingest_wrote)
  with tombstones_wrote [of scope "(?s, no_report)"] show ?thesis by (auto intro: wrote_trans)
qed

lemma gen_bump_simps [simp]:
  "kdocs (gen_bump scope s) = kdocs s" "kd_next (gen_bump scope s) = kd_next s"
  "scope_gen sc (gen_bump scope s) = (if sc = scope then scope_gen scope s + 1 else scope_gen sc s)"
  by (auto simp: gen_bump_def scope_gen_def)

lemma gen_bump_ok [simp]: "index_ok (gen_bump scope s) = index_ok s"
  by (simp add: index_ok_def)

lemma scope_gen_wrote: "wrote scope s t \<Longrightarrow> scope_gen sc t = scope_gen sc s"
  by (simp add: wrote_def scope_gen_def)

lemma commit_moves_fence:
  assumes "commits scope s t"
  shows "knowledge_fence scope s < knowledge_fence scope t"
  using scope_gen_wrote [OF commit_wrote [OF assms], of scope] max_seq_wrote [OF commit_wrote [OF assms]]
  by (simp add: knowledge_fence_def max_seq_def)

lemma commit_other_fence:
  assumes "commits scope s t" "sc \<noteq> scope"
  shows "knowledge_fence sc t = knowledge_fence sc s"
  using scope_gen_wrote [OF commit_wrote [OF assms(1)], of sc] wrote_other [OF commit_wrote [OF assms(1)] assms(2)] assms(2)
  by (simp add: knowledge_fence_def max_seq_def)

inductive index_step :: "knowledge_store \<Rightarrow> knowledge_store \<Rightarrow> bool" where
  "commits scope s t \<Longrightarrow> index_step s t"

lemma index_step_ok: "index_ok s \<Longrightarrow> index_step s t \<Longrightarrow> index_ok t"
  by (auto elim!: index_step.cases dest!: commit_wrote simp: wrote_def)

interpretation index_log: invariant_system index_step index_ok
  by unfold_locales (rule index_step_ok)

lemma fence_mono:
  assumes "index_step s t"
  shows "knowledge_fence sc s \<le> knowledge_fence sc t"
  using assms
proof cases
  case (1 scope)
  then show ?thesis using commit_moves_fence commit_other_fence by (cases "sc = scope") (auto simp: less_imp_le)
qed

lemma fence_reach: "reach index_step s t \<Longrightarrow> knowledge_fence sc s \<le> knowledge_fence sc t"
  by (induction rule: reach.induct) (auto intro: order_trans fence_mono)

text \<open>
  C24. A stale walk is never committed: once a sync or a rebuild of the scope has been accepted after the
  fence was read, true no-ops included, every sync and rebuild that carries the old fence is rejected
  and changes nothing, whatever is committed in between; and as long as only other scopes commit, the
  fence does not move and the walk is not rejected.
\<close>

theorem stale_walk_rejected:
  assumes "reach index_step s t" "commits scope t u" "reach index_step u w"
  shows "knowledge_sync fits scope docs missing (Some (int (knowledge_fence scope s))) w = (w, Conflict)
    \<and> knowledge_rebuild fits scope docs (Some (int (knowledge_fence scope s))) w = (w, Conflict)
    \<and> (sc \<noteq> scope \<longrightarrow> \<not> stale sc (Some (int (knowledge_fence sc t))) u)"
proof -
  have "knowledge_fence scope s < knowledge_fence scope w"
    using fence_reach [OF assms(1), of scope] commit_moves_fence [OF assms(2)] fence_reach [OF assms(3), of scope] by simp
  then have "stale scope (Some (int (knowledge_fence scope s))) w" by (simp add: stale_def)
  moreover have "sc \<noteq> scope \<Longrightarrow> \<not> stale sc (Some (int (knowledge_fence sc t))) u"
    using commit_other_fence [OF assms(2)] by (simp add: stale_def)
  ultimately show ?thesis by (simp add: knowledge_sync_def knowledge_rebuild_def)
qed

section \<open>The index mirrors the corpus\<close>

lemma cur_append:
  assumes "index_ok st" "\<And>n. kd_seq (mk n) = n"
  shows "cur_of scope (append_row mk st) p =
    (let r = mk (kd_next st) in if kd_scope r = scope \<and> kd_path r = p then Some (kd_sha r, kd_status r) else cur_of scope st p)"
proof (cases "kd_scope (mk (kd_next st)) = scope \<and> kd_path (mk (kd_next st)) = p")
  case False
  then show ?thesis by (auto simp: cur_of_def doc_current_def doc_rows_def append_row_def Let_def)
next
  case True
  let ?r = "mk (kd_next st)" and ?T = "doc_rows scope p (append_row mk st)"
  have T: "?T = doc_rows scope p st @ [?r]" using True by (simp add: doc_rows_def append_row_def)
  obtain q where q: "doc_current scope p (append_row mk st) = Some q"
    using T by (cases "doc_current scope p (append_row mk st)") (auto simp: doc_current_def first_by_None)
  from first_by_Some [OF q [unfolded doc_current_def]] have m: "q \<in> set ?T" "kd_seq ?r \<le> kd_seq q" using T by auto
  have "kd_seq x < kd_seq ?r" if "x \<in> set (doc_rows scope p st)" for x
    using that assms by (auto simp: doc_rows_def index_ok_def)
  with m have "q = ?r" using T by fastforce
  with q True show ?thesis by (simp add: cur_of_def Let_def)
qed

lemma cur_tombstone: "index_ok st \<Longrightarrow> cur_of scope (tombstone scope p st) = (cur_of scope st)(p \<mapsto> (''absent'', Doc_Archived))"
  by (rule ext) (simp add: tombstone_def cur_append archived_row_def Let_def)

lemma cur_insert:
  assumes "index_ok st"
  shows "cur_of scope (fst (insert_active fits scope d st))
    = (if fits d then (cur_of scope st)(dr_path d \<mapsto> (dr_sha d, Doc_Active)) else cur_of scope st)"
proof (cases "fits d")
  case True
  then show ?thesis using assms by (intro ext) (simp add: insert_active_def cur_append active_row_def Let_def)
next
  case False
  then show ?thesis by (simp add: insert_active_def cur_of_def doc_current_def doc_rows_def)
qed

text \<open>What a sync means for one document on disk, and for a path without one.\<close>

definition sync_cell :: "(doc_record \<Rightarrow> bool) \<Rightarrow> doc_record \<Rightarrow> (string \<times> doc_status) option \<Rightarrow> (string \<times> doc_status) option" where
  "sync_cell fits d c =
     (if c = Some (dr_sha d, Doc_Active) \<or> fits d then Some (dr_sha d, Doc_Active)
      else if is_active c then Some (''absent'', Doc_Archived) else c)"

definition sync_spec :: "(doc_record \<Rightarrow> bool) \<Rightarrow> bool \<Rightarrow> doc_record list \<Rightarrow> doc_view \<Rightarrow> doc_view" where
  "sync_spec fits missing docs cur p =
     (case List.find (\<lambda>d. dr_path d = p) docs of
        Some d \<Rightarrow> sync_cell fits d (cur p)
      | None \<Rightarrow> if missing \<and> is_active (cur p) then Some (''absent'', Doc_Archived) else cur p)"

lemma sync_doc_cur:
  assumes "index_ok st" "cur_of scope st (dr_path d) = cur (dr_path d)"
  shows "cur_of scope (fst (sync_doc fits scope cur d (st, rep))) = (cur_of scope st)(dr_path d := sync_cell fits d (cur (dr_path d)))"
proof (cases "cur (dr_path d) = Some (dr_sha d, Doc_Active)")
  case True
  with assms(2) show ?thesis by (auto simp: sync_doc_def sync_cell_def Let_def)
next
  case False
  obtain st' b where i: "insert_active fits scope d st = (st', b)" by fastforce
  then have b: "b = fits d" by (auto simp: insert_active_def split: if_splits)
  have c: "cur_of scope st' = (if fits d then (cur_of scope st)(dr_path d \<mapsto> (dr_sha d, Doc_Active)) else cur_of scope st)"
    using cur_insert [OF assms(1), of scope fits d] i by simp
  have ok: "index_ok st'" using insert_active_wrote [of scope st fits d] i assms(1) by (simp add: wrote_def)
  show ?thesis
  proof (cases "fits d")
    case True
    with False i b c show ?thesis by (simp add: sync_doc_def sync_cell_def Let_def)
  next
    case unfit: False
    with False i b c assms(2) cur_tombstone [OF ok, of scope "dr_path d"] show ?thesis
      by (auto simp: sync_doc_def sync_cell_def Let_def)
  qed
qed

lemma sync_docs_cur:
  assumes "index_ok st" "distinct (map dr_path docs)" "\<And>d. d \<in> set docs \<Longrightarrow> cur_of scope st (dr_path d) = cur (dr_path d)"
  shows "cur_of scope (fst (foldl (\<lambda>a d. sync_doc fits scope cur d a) (st, rep) docs)) p
    = (case List.find (\<lambda>d. dr_path d = p) docs of Some d \<Rightarrow> sync_cell fits d (cur p) | None \<Rightarrow> cur_of scope st p)"
  using assms
proof (induction docs arbitrary: st rep)
  case (Cons d docs)
  obtain st' rep' where s: "sync_doc fits scope cur d (st, rep) = (st', rep')" by fastforce
  have c: "cur_of scope st' = (cur_of scope st)(dr_path d := sync_cell fits d (cur (dr_path d)))"
    using sync_doc_cur [of st scope d cur fits rep] Cons.prems s by simp
  have ok: "index_ok st'" using sync_doc_wrote [of scope "(st, rep)" fits cur d] s Cons.prems(1) by (simp add: wrote_def)
  have rest: "cur_of scope st' (dr_path e) = cur (dr_path e)" if "e \<in> set docs" for e
    using that Cons.prems(2,3) c by (auto simp: image_iff)
  have none: "List.find (\<lambda>e. dr_path e = dr_path d) docs = None"
    using Cons.prems(2) unfolding find_None_iff by (metis distinct.simps(2) image_eqI list.set_map list.simps(9))
  from Cons.IH [OF ok _ rest] Cons.prems(2) s c none show ?case by (cases "dr_path d = p") (auto cong: option.case_cong)
qed simp

lemma tombstones_cur:
  assumes "index_ok (fst acc)"
  shows "cur_of scope (fst (tombstone_missing scope gone acc)) p
    = (if p \<in> set gone then Some (''absent'', Doc_Archived) else cur_of scope (fst acc) p)"
  using assms
proof (induction gone arbitrary: acc)
  case (Cons g gone)
  obtain st rep where a: "acc = (st, rep)" by (cases acc)
  have ok: "index_ok (tombstone scope g st)" using tombstone_wrote [of scope st g] Cons.prems a by (simp add: wrote_def)
  have "cur_of scope (fst (tombstone_missing scope gone (tombstone scope g st, rep\<lparr>sr_tombstoned := sr_tombstoned rep + 1\<rparr>))) p
      = (if p \<in> set gone then Some (''absent'', Doc_Archived) else cur_of scope (tombstone scope g st) p)"
    using Cons.IH [of "(tombstone scope g st, rep\<lparr>sr_tombstoned := sr_tombstoned rep + 1\<rparr>)"] ok by simp
  with Cons.prems a show ?case by (simp add: tombstone_missing_def cur_tombstone)
qed (simp add: tombstone_missing_def)

lemma cur_gen_bump [simp]: "cur_of sc (gen_bump scope s) = cur_of sc s" "scope_paths sc (gen_bump scope s) = scope_paths sc s"
  by (simp_all add: cur_of_def doc_current_def doc_rows_def scope_paths_def)

lemma cur_path: "is_active (cur_of scope st p) \<Longrightarrow> p \<in> set (scope_paths scope st)"
proof -
  assume "is_active (cur_of scope st p)"
  then obtain r where "doc_current scope p st = Some r" by (auto simp: is_active_def cur_of_def split: option.splits)
  from first_by_Some(1) [OF this [unfolded doc_current_def]] show ?thesis by (auto simp: scope_paths_def doc_rows_def)
qed

lemma cur_other:
  assumes "wrote scope s t" "sc \<noteq> scope"
  shows "cur_of sc t = cur_of sc s"
proof -
  have "doc_rows sc p u = filter (\<lambda>r. kd_path r = p) (filter (\<lambda>r. kd_scope r = sc) (kdocs u))" for p u
    by (simp add: doc_rows_def conj_commute)
  then have "doc_rows sc p t = doc_rows sc p s" for p using wrote_other [OF assms] by metis
  then show ?thesis by (simp add: cur_of_def doc_current_def)
qed

lemma find_distinct:
  "distinct (map dr_path docs) \<Longrightarrow> d \<in> set docs \<Longrightarrow> List.find (\<lambda>e. dr_path e = dr_path d) docs = Some d"
  by (induction docs) (auto simp: rev_image_eqI)

lemma sync_refines:
  assumes "reach index_step empty_index st" "distinct (map dr_path docs)"
    and "knowledge_sync fits scope docs missing expect st = (t, Committed rep)"
  shows "cur_of scope t = sync_spec fits missing docs (cur_of scope st) \<and> (sc \<noteq> scope \<longrightarrow> cur_of sc t = cur_of sc st)"
proof -
  have ok: "index_ok st" using assms(1) by (rule index_log.reach_inv) (simp add: index_ok_def empty_index_def)
  let ?s = "gen_bump scope st" and ?cur = "cur_of scope st"
  let ?acc = "foldl (\<lambda>a d. sync_doc fits scope ?cur d a) (?s, no_report) docs"
  let ?gone = "filter (\<lambda>p. is_active (?cur p) \<and> p \<notin> dr_path ` set docs) (scope_paths scope st)"
  have t: "t = fst (if missing then tombstone_missing scope ?gone ?acc else ?acc)"
    using assms(3) by (auto simp: knowledge_sync_def Let_def split_beta split: if_splits)
  have a: "cur_of scope (fst ?acc) p = (case List.find (\<lambda>d. dr_path d = p) docs of Some d \<Rightarrow> sync_cell fits d (?cur p) | None \<Rightarrow> ?cur p)" for p
    using sync_docs_cur [of ?s docs scope ?cur fits no_report p] ok assms(2) by (simp cong: option.case_cong)
  have "wrote scope (fst (?s, no_report)) (fst ?acc)" by (rule foldl_wrote) (rule sync_doc_wrote)
  then have "index_ok (fst ?acc)" using ok by (simp add: wrote_def)
  note tm = tombstones_cur [OF this, of scope ?gone]
  have "cur_of scope t p = sync_spec fits missing docs ?cur p" for p
  proof (cases "List.find (\<lambda>d. dr_path d = p) docs")
    case None
    then have "p \<notin> dr_path ` set docs" by (auto simp: find_None_iff)
    then show ?thesis using None tm [of p] a [of p] cur_path [of scope st p] by (auto simp: t sync_spec_def)
  next
    case (Some d)
    then have "p \<in> dr_path ` set docs" by (auto simp: find_Some_iff)
    then show ?thesis using Some tm [of p] a [of p] by (auto simp: t sync_spec_def)
  qed
  moreover have "cur_of sc t = cur_of sc st" if "sc \<noteq> scope"
    using cur_other [OF commit_wrote [OF do_sync [OF assms(3)]] that] by simp
  ultimately show ?thesis by auto
qed

text \<open>
  C25. An accepted sync of distinct paths, on an index reached by accepted commits, gives every path of its
  scope exactly one fate. A walked document whose digest is the active one stays; one that can be
  indexed becomes the active digest; one that cannot be indexed is archived if the path was active, and
  leaves the path as it was otherwise. A path that was not walked is archived if it was active and
  missing documents are to be tombstoned, and is left as it was otherwise. No other scope changes.
\<close>

theorem knowledge_sync_refines:
  assumes "reach index_step empty_index st" "distinct (map dr_path docs)"
    and "knowledge_sync fits scope docs missing expect st = (t, Committed rep)"
  shows "cur_of scope t = sync_spec fits missing docs (cur_of scope st)
    \<and> (\<forall>d \<in> set docs. cur_of scope t (dr_path d) =
          (if cur_of scope st (dr_path d) = Some (dr_sha d, Doc_Active) \<or> fits d then Some (dr_sha d, Doc_Active)
           else if is_active (cur_of scope st (dr_path d)) then Some (''absent'', Doc_Archived)
           else cur_of scope st (dr_path d)))
    \<and> (\<forall>p. p \<notin> dr_path ` set docs \<longrightarrow> cur_of scope t p =
          (if missing \<and> is_active (cur_of scope st p) then Some (''absent'', Doc_Archived) else cur_of scope st p))
    \<and> (sc \<noteq> scope \<longrightarrow> cur_of sc t = cur_of sc st)"
proof -
  note r = sync_refines [OF assms, of sc]
  have "List.find (\<lambda>e. dr_path e = dr_path d) docs = Some d" if "d \<in> set docs" for d
    using assms(2) that by (rule find_distinct)
  moreover have "List.find (\<lambda>e. dr_path e = p) docs = None" if "p \<notin> dr_path ` set docs" for p
    using that by (auto simp: find_None_iff)
  ultimately show ?thesis using r by (simp add: sync_spec_def sync_cell_def)
qed

text \<open>
  A document that was active and has grown past the index's limit does not keep its last good row, as the
  note on the insert has it: the sync archives the path.
\<close>

theorem oversize_row_archived:
  assumes "reach index_step empty_index st" "is_active (cur_of scope st (dr_path d))"
    and "cur_of scope st (dr_path d) \<noteq> Some (dr_sha d, Doc_Active)" "\<not> fits d"
    and "knowledge_sync fits scope [d] missing expect st = (t, Committed rep)"
  shows "cur_of scope t (dr_path d) = Some (''absent'', Doc_Archived)"
  using sync_refines [OF assms(1) _ assms(5)] assms(2-4) by (simp add: sync_spec_def sync_cell_def)

end
