(* ===== verification/Knowledge_Examples.thy ===== *)
theory Knowledge_Examples
  imports Knowledge_Store_Props
begin

text \<open>Concrete commits: a walk of one document, and a walk of an empty corpus that overtakes it.\<close>

definition ex_doc :: doc_record where
  "ex_doc = \<lparr>dr_path = [97], dr_title = [98], dr_tags = [], dr_date = Some (codes ''2026-02-29''), dr_body = [99],
     dr_sha = ''s'', dr_lossy = False\<rparr>"

definition ex_noop :: knowledge_store where
  "ex_noop = \<lparr>kdocs = [], kd_next = 1, kd_gen = [''r'' \<mapsto> 1]\<rparr>"

lemmas knowledge_eval = knowledge_sync_def stale_def gen_bump_def scope_gen_def scope_paths_def no_report_def
  tombstone_missing_def sync_doc_def insert_active_def append_row_def active_row_def cur_of_def doc_current_def
  doc_rows_def first_by_def knowledge_date_def iso_date_def digits_value_def days_in_month_def leap_def

lemma ex_empty_walk: "knowledge_sync (\<lambda>_. True) ''r'' [] True None empty_index = (ex_noop, Committed no_report)"
  by (simp add: knowledge_eval empty_index_def ex_noop_def)

theorem stale_walk_rejected_witness:
  "knowledge_sync (\<lambda>_. True) ''r'' [ex_doc] True (Some (int (knowledge_fence ''r'' empty_index))) ex_noop = (ex_noop, Conflict)
    \<and> \<not> stale ''q'' (Some (int (knowledge_fence ''q'' empty_index))) ex_noop"
  using stale_walk_rejected [OF reach_refl do_sync [OF ex_empty_walk] reach_refl, where sc = "''q''"] by simp

definition ex_indexed :: knowledge_store where
  "ex_indexed = \<lparr>kdocs = [\<lparr>kd_seq = 1, kd_scope = ''r'', kd_path = [97], kd_title = [98], kd_tags = [], kd_date = None,
     kd_body = [99], kd_sha = ''s'', kd_status = Doc_Active, kd_lossy = False\<rparr>], kd_next = 2, kd_gen = [''r'' \<mapsto> 1]\<rparr>"

lemma ex_walk: "knowledge_sync (\<lambda>_. True) ''r'' [ex_doc] True None empty_index
    = (ex_indexed, Committed \<lparr>sr_inserted = 1, sr_tombstoned = 0, sr_unchanged = 0, sr_skipped = []\<rparr>)"
  by (simp add: knowledge_eval empty_index_def ex_indexed_def ex_doc_def codes_def)

theorem knowledge_sync_refines_witness:
  "cur_of ''r'' ex_indexed = sync_spec (\<lambda>_. True) True [ex_doc] (cur_of ''r'' empty_index)
    \<and> cur_of ''r'' ex_indexed [97] = Some (''s'', Doc_Active)"
proof -
  have "cur_of ''r'' ex_indexed = sync_spec (\<lambda>_. True) True [ex_doc] (cur_of ''r'' empty_index)"
    using knowledge_sync_refines [OF reach_refl _ ex_walk] by simp
  then show ?thesis by (simp add: sync_spec_def sync_cell_def ex_doc_def)
qed

text \<open>The document grows past the limit: its row is archived.\<close>

theorem oversize_row_archived_witness:
  "cur_of ''r'' (fst (knowledge_sync (\<lambda>_. False) ''r'' [ex_doc\<lparr>dr_sha := ''t''\<rparr>] True None ex_indexed)) [97]
    = Some (''absent'', Doc_Archived)"
proof -
  obtain t rep where k: "knowledge_sync (\<lambda>_. False) ''r'' [ex_doc\<lparr>dr_sha := ''t''\<rparr>] True None ex_indexed = (t, Committed rep)"
    by (simp add: knowledge_sync_def stale_def Let_def split_beta)
  have "reach index_step empty_index ex_indexed"
    by (rule reach_step [OF reach_refl]) (rule index_step.intros, rule do_sync [OF ex_walk])
  moreover have "cur_of ''r'' ex_indexed [97] = Some (''s'', Doc_Active)" by (simp add: knowledge_eval ex_indexed_def)
  ultimately have "cur_of ''r'' t (dr_path (ex_doc\<lparr>dr_sha := ''t''\<rparr>)) = Some (''absent'', Doc_Archived)"
    by (intro oversize_row_archived [OF _ _ _ _ k]) (simp_all add: ex_doc_def is_active_def)
  with k show ?thesis by (simp add: ex_doc_def)
qed

end
