(* ===== verification/Chunker.thy ===== *)
theory Chunker
  imports Pytext
begin

text \<open>
  The review-size budget of \<^verbatim>\<open>src/runtime/controller.py\<close>: the environment knobs, the two sizes of a diff
  and \<^verbatim>\<open>_choose_review_target\<close>, which picks what one dispatch reviews. A git command is an argument that
  also takes the number of the call, since the same command may fail once and succeed on a retry;
  \<open>None\<close> is a timeout, a missing binary or a non-zero exit.
\<close>

section \<open>Knobs\<close>

definition ascii_digit :: "nat \<Rightarrow> bool" where
  "ascii_digit c \<longleftrightarrow> 48 \<le> c \<and> c \<le> 57"

definition decimal :: "pytext \<Rightarrow> nat" where
  "decimal s = foldl (\<lambda>n c. 10 * n + (c - 48)) 0 s"

definition int_max :: nat where
  "int_max = 2 ^ 31 - 1"

definition int_env :: "pytext option \<Rightarrow> nat \<Rightarrow> nat" where
  "int_env v dflt =
     (let val = (case v of None \<Rightarrow> [] | Some s \<Rightarrow> s) in
      if val = [] \<or> \<not> list_all ascii_digit val then dflt
      else
        (let sig = dropWhile (\<lambda>c. c = 48) val;
             val' = (if sig = [] then [48] else sig)
         in if length val' > 10 then int_max else min (decimal val') int_max))"

definition worker_lock_floor :: "nat \<Rightarrow> nat" where
  "worker_lock_floor rct = 3 * 180 + 3 * rct + 360"

definition clamp :: "nat \<Rightarrow> nat \<Rightarrow> nat" where
  "clamp dflt n = (if n < 1 then dflt else n)"

record ctl_config =
  max_tick :: nat
  max_day :: nat
  ctl_max_attempts :: nat
  transient_alert :: nat
  defer_alert :: nat
  pending_stale :: nat
  max_lines :: nat
  max_bytes :: nat
  walk_cap :: nat
  dry_run :: bool
  test_mode :: bool
  dispatch_override :: bool

type_synonym environ = "string \<Rightarrow> pytext option"

definition mk_config :: "environ \<Rightarrow> ctl_config" where
  "mk_config e =
     \<lparr>max_tick = int_env (e ''MYNDAIX_CONTROLLER_MAX_DISPATCH'') 3,
      max_day = int_env (e ''MYNDAIX_CONTROLLER_MAX_DAY'') 20,
      ctl_max_attempts = int_env (e ''MYNDAIX_CONTROLLER_MAX_ATTEMPTS'') 3,
      transient_alert = int_env (e ''MYNDAIX_CONTROLLER_TRANSIENT_STREAK'') 3,
      defer_alert = int_env (e ''MYNDAIX_CONTROLLER_DEFER_STREAK'') 3,
      pending_stale = max (max (int_env (e ''MYNDAIX_CONTROLLER_PENDING_STALE'') 7200)
                            (worker_lock_floor (int_env (e ''PLAY_REVIEW_CALL_TIMEOUT'') 1200)))
                        (int_env (e ''PLAY_STALE'') 0),
      max_lines = clamp 1500 (int_env (e ''MYNDAIX_CONTROLLER_MAX_REVIEW_LINES'') 1500),
      max_bytes = clamp 262144 (int_env (e ''MYNDAIX_CONTROLLER_MAX_REVIEW_BYTES'') 262144),
      walk_cap = clamp 200 (int_env (e ''MYNDAIX_CONTROLLER_CHUNK_WALK'') 200),
      dry_run = (e ''MYNDAIX_CONTROLLER_DRY_RUN'' = Some [49]),
      test_mode = (e ''MYNDAIX_CONTROLLER_TEST_MODE'' = Some [49]),
      dispatch_override = (e ''MYNDAIX_CONTROLLER_DISPATCH_OVERRIDE'' \<notin> {None, Some []})\<rparr>"

section \<open>Sizes\<close>

text \<open>\<^verbatim>\<open>str.splitlines\<close>, where a carriage return before a newline leaves an empty line more; it has no fields.\<close>

definition line_break :: "nat \<Rightarrow> bool" where
  "line_break c \<longleftrightarrow> c \<in> {10, 11, 12, 13, 28, 29, 30, 133, 8232, 8233}"

fun split_lines :: "pytext \<Rightarrow> pytext list" where
  "split_lines [] = [[]]"
| "split_lines (c # s) =
     (if line_break c then [] # split_lines s
      else case split_lines s of [] \<Rightarrow> [[c]] | l # ls \<Rightarrow> (c # l) # ls)"

text \<open>The numbers git prints are ASCII decimals; a binary file has a hyphen in both columns.\<close>

definition numstat_line :: "pytext \<Rightarrow> nat" where
  "numstat_line ln =
     (let parts = split_on 9 ln in
      if length parts < 3 then 0
      else sum_list (map (\<lambda>p. if p \<noteq> [] \<and> list_all ascii_digit p then decimal p else 0) (take 2 parts)))"

definition numstat_total :: "pytext \<Rightarrow> nat" where
  "numstat_total out = sum_list (map numstat_line (split_lines out))"

definition patch_size :: "pytext \<Rightarrow> nat" where
  "patch_size out = length (dropWhile (\<lambda>c. c = 10) (rev out))"

text \<open>
  What git answers about the range of one choice, whose base (the reviewed commit) is fixed for the whole
  choice: the k-th call's numstat and patch from that base to a commit, and the commits of the range.
\<close>

record git_sizes =
  git_numstat :: "nat \<Rightarrow> string \<Rightarrow> pytext option"
  git_patch :: "nat \<Rightarrow> string \<Rightarrow> pytext option"
  git_rev_list :: "string list option"

definition diff_lines :: "git_sizes \<Rightarrow> nat \<Rightarrow> string \<Rightarrow> nat option" where
  "diff_lines g k c = map_option numstat_total (git_numstat g k c)"

definition diff_bytes :: "git_sizes \<Rightarrow> nat \<Rightarrow> string \<Rightarrow> nat option" where
  "diff_bytes g k c = map_option patch_size (git_patch g k c)"

section \<open>The choice of a target\<close>

text \<open>The per-tick memo: known sizes are kept, failures are not; \<open>calls\<close> counts the git calls.\<close>

record sizer =
  lc :: "string \<rightharpoonup> nat"
  bc :: "string \<rightharpoonup> nat"
  calls :: nat

definition new_sizer :: sizer where
  "new_sizer = \<lparr>lc = Map.empty, bc = Map.empty, calls = 0\<rparr>"

definition dl :: "git_sizes \<Rightarrow> string \<Rightarrow> sizer \<Rightarrow> nat option \<times> sizer" where
  "dl g c s =
     (case lc s c of
        Some n \<Rightarrow> (Some n, s)
      | None \<Rightarrow> (let r = diff_lines g (calls s) c in (r, s\<lparr>lc := (lc s)(c := r), calls := Suc (calls s)\<rparr>)))"

definition db :: "git_sizes \<Rightarrow> string \<Rightarrow> sizer \<Rightarrow> nat option \<times> sizer" where
  "db g c s =
     (case bc s c of
        Some n \<Rightarrow> (Some n, s)
      | None \<Rightarrow> (let r = diff_bytes g (calls s) c in (r, s\<lparr>bc := (bc s)(c := r), calls := Suc (calls s)\<rparr>)))"

datatype target_mode = Dispatch | Advance | Defer

record target =
  tg_mode :: target_mode
  tg_sha :: string
  tg_lines :: int
  tg_bytes :: int

definition hex_lower :: "char \<Rightarrow> bool" where
  "hex_lower c \<longleftrightarrow> c \<in> set ''0123456789abcdef''"

definition sha_re :: "string \<Rightarrow> bool" where
  "sha_re s \<longleftrightarrow> length s = 40 \<and> list_all hex_lower s"

text \<open>The walk over the candidates; the last one that fits wins.\<close>

type_synonym best = "(string \<times> nat \<times> nat) option"

definition try_commit :: "git_sizes \<Rightarrow> ctl_config \<Rightarrow> string \<Rightarrow> best \<times> sizer \<Rightarrow> string \<Rightarrow> best \<times> sizer" where
  "try_commit g cfg head acc c =
     (let (best, s) = acc in
      if c = head then (best, s)
      else case dl g c s of
        (None, s1) \<Rightarrow> (best, s1)
      | (Some n, s1) \<Rightarrow>
          if n > max_lines cfg then (best, s1)
          else case db g c s1 of
            (None, s2) \<Rightarrow> (best, s2)
          | (Some b, s2) \<Rightarrow> if b = 0 \<or> b > max_bytes cfg then (best, s2) else (Some (c, n, b), s2))"

definition walk :: "git_sizes \<Rightarrow> ctl_config \<Rightarrow> string \<Rightarrow> string list \<Rightarrow> sizer \<Rightarrow> best \<times> sizer" where
  "walk g cfg head cs s = foldl (try_commit g cfg head) (None, s) cs"

definition defer_to :: "string \<Rightarrow> int \<Rightarrow> target" where
  "defer_to c n = \<lparr>tg_mode = Defer, tg_sha = c, tg_lines = n, tg_bytes = -1\<rparr>"

definition first_commit :: "git_sizes \<Rightarrow> string \<Rightarrow> sizer \<Rightarrow> target" where
  "first_commit g first s =
     (let (n, s1) = dl g first s; (b, s2) = db g first s1 in
      case (n, b) of
        (Some n', Some b') \<Rightarrow>
          (if b' = 0 then \<lparr>tg_mode = Advance, tg_sha = first, tg_lines = 0, tg_bytes = 0\<rparr>
           else \<lparr>tg_mode = Advance, tg_sha = first, tg_lines = int n', tg_bytes = int b'\<rparr>)
      | _ \<Rightarrow> defer_to first (-1))"

definition split_range :: "git_sizes \<Rightarrow> ctl_config \<Rightarrow> string \<Rightarrow> nat \<Rightarrow> int \<Rightarrow> sizer \<Rightarrow> target" where
  "split_range g cfg head total_l total_b s =
     (case git_rev_list g of
        None \<Rightarrow> defer_to head (-1)
      | Some out \<Rightarrow>
          (case filter sha_re out of
             [] \<Rightarrow> \<lparr>tg_mode = Advance, tg_sha = head, tg_lines = int total_l, tg_bytes = total_b\<rparr>
           | first # rest \<Rightarrow>
               (case walk g cfg head (take (walk_cap cfg) (first # rest)) s of
                  (Some (c, n, b), _) \<Rightarrow> \<lparr>tg_mode = Dispatch, tg_sha = c, tg_lines = int n, tg_bytes = int b\<rparr>
                | (None, s') \<Rightarrow> first_commit g first s')))"

definition choose_review_target :: "git_sizes \<Rightarrow> ctl_config \<Rightarrow> string \<Rightarrow> target" where
  "choose_review_target g cfg head =
     (case dl g head new_sizer of
        (None, _) \<Rightarrow> defer_to head (-1)
      | (Some total_l, s1) \<Rightarrow>
          (case db g head s1 of
             (Some total_b, s2) \<Rightarrow>
               if total_l \<le> max_lines cfg \<and> total_b \<le> max_bytes cfg
               then \<lparr>tg_mode = Dispatch, tg_sha = head, tg_lines = int total_l, tg_bytes = int total_b\<rparr>
               else split_range g cfg head total_l (int total_b) s2
           | (None, s2) \<Rightarrow>
               if total_l \<le> max_lines cfg then defer_to head (int total_l)
               else split_range g cfg head total_l (-1) s2))"

definition oversized :: "ctl_config \<Rightarrow> target \<Rightarrow> bool" where
  "oversized cfg t \<longleftrightarrow> tg_lines t > int (max_lines cfg) \<or> tg_bytes t > int (max_bytes cfg) \<or> tg_bytes t < 0"

section \<open>Properties\<close>

text \<open>Every knob is a 31-bit number or its default, whatever the environment holds.\<close>

lemma int_env_bound: "int_env v d \<le> max d int_max"
  by (auto simp: int_env_def Let_def)

lemma budgets_positive: "0 < max_lines (mk_config e) \<and> 0 < max_bytes (mk_config e) \<and> 0 < walk_cap (mk_config e)"
  by (simp add: mk_config_def clamp_def)

text \<open>A claim is never taken for stale while the worker it started may still run.\<close>

lemma pending_outlives_worker:
  "worker_lock_floor (int_env (e ''PLAY_REVIEW_CALL_TIMEOUT'') 1200) \<le> pending_stale (mk_config e)
   \<and> int_env (e ''PLAY_STALE'') 0 \<le> pending_stale (mk_config e)"
  by (simp add: mk_config_def)

text \<open>What a memo knows was reported by git on some call.\<close>

definition sized :: "git_sizes \<Rightarrow> sizer \<Rightarrow> bool" where
  "sized g s \<longleftrightarrow> (\<forall>c n. lc s c = Some n \<longrightarrow> (\<exists>k. diff_lines g k c = Some n))
     \<and> (\<forall>c n. bc s c = Some n \<longrightarrow> (\<exists>k. diff_bytes g k c = Some n))"

lemma dl_sized:
  assumes "sized g s" "dl g c s = (r, s')"
  shows "sized g s'" "r = Some n \<Longrightarrow> \<exists>k. diff_lines g k c = Some n" "bc s' = bc s" "lc s' c = r"
    "d \<noteq> c \<Longrightarrow> lc s' d = lc s d" "lc s d = Some n' \<Longrightarrow> lc s' d = Some n'"
  using assms by (auto simp: dl_def sized_def Let_def split: option.splits if_splits)

lemma db_sized:
  assumes "sized g s" "db g c s = (r, s')"
  shows "sized g s'" "r = Some n \<Longrightarrow> \<exists>k. diff_bytes g k c = Some n" "lc s' = lc s" "bc s' c = r"
    "d \<noteq> c \<Longrightarrow> bc s' d = bc s d" "bc s d = Some n' \<Longrightarrow> bc s' d = Some n'"
  using assms by (auto simp: db_def sized_def Let_def split: option.splits if_splits)

definition fitting :: "git_sizes \<Rightarrow> ctl_config \<Rightarrow> string \<Rightarrow> nat \<Rightarrow> nat \<Rightarrow> bool" where
  "fitting g cfg c n b \<longleftrightarrow> n \<le> max_lines cfg \<and> b \<le> max_bytes cfg
     \<and> (\<exists>k. diff_lines g k c = Some n) \<and> (\<exists>k. diff_bytes g k c = Some b)"

text \<open>The state of the walk: the best candidate fits, and is one of the commits.\<close>

definition walk_ok :: "git_sizes \<Rightarrow> ctl_config \<Rightarrow> string set \<Rightarrow> best \<times> sizer \<Rightarrow> bool" where
  "walk_ok g cfg C acc \<longleftrightarrow> sized g (snd acc)
     \<and> (\<forall>c n b. fst acc = Some (c, n, b) \<longrightarrow> c \<in> C \<and> fitting g cfg c n b \<and> b \<noteq> 0)"

lemma try_commit_ok:
  assumes "walk_ok g cfg C acc" "c \<in> C"
  shows "walk_ok g cfg C (try_commit g cfg head acc c)"
proof (cases "c = head")
  case True
  with assms show ?thesis by (simp add: try_commit_def split_beta Let_def)
next
  case False
  obtain best s where a: "acc = (best, s)" by (cases acc)
  obtain n s1 where n: "dl g c s = (n, s1)" by fastforce
  have sz: "sized g s" using assms(1) a by (simp add: walk_ok_def)
  note d = dl_sized [OF sz n]
  show ?thesis
  proof (cases "n = None \<or> the n > max_lines cfg")
    case True
    then have "try_commit g cfg head acc c = (best, s1)" using a n False by (cases n) (auto simp: try_commit_def)
    with assms(1) a d(1) show ?thesis by (simp add: walk_ok_def)
  next
    case le: False
    then obtain n' where n': "n = Some n'" "n' \<le> max_lines cfg" by (cases n) auto
    obtain b s2 where b: "db g c s1 = (b, s2)" by fastforce
    note e = db_sized [OF d(1) b]
    show ?thesis
    proof (cases "b = None \<or> the b = 0 \<or> the b > max_bytes cfg")
      case True
      then have "try_commit g cfg head acc c = (best, s2)" using a n n' b False by (cases b) (auto simp: try_commit_def)
      with assms(1) a e(1) show ?thesis by (simp add: walk_ok_def)
    next
      case fits: False
      then obtain b' where b': "b = Some b'" "b' \<le> max_bytes cfg" "b' \<noteq> 0" by (cases b) auto
      have "fitting g cfg c n' b'" using d(2) [OF n'(1)] e(2) [OF b'(1)] n'(2) b'(2) by (simp add: fitting_def)
      with a n n' b b' e(1) False assms(2) show ?thesis by (simp add: try_commit_def walk_ok_def)
    qed
  qed
qed

lemma walk_fits:
  assumes "sized g s" "walk g cfg head cs s = (res, s')"
  shows "walk_ok g cfg (set cs) (res, s')"
proof -
  have "walk_ok g cfg C (foldl (try_commit g cfg head) acc xs)" if "walk_ok g cfg C acc" "set xs \<subseteq> C" for acc xs C
    using that
  proof (induction xs arbitrary: acc)
    case (Cons x xs)
    then have "walk_ok g cfg C (try_commit g cfg head acc x)" by (intro try_commit_ok) auto
    from Cons.IH [OF this] Cons.prems show ?case by simp
  qed simp
  from this [of "set cs" "(None, s)" cs] assms show ?thesis by (simp add: walk_def walk_ok_def)
qed

lemma new_sizer_sized: "sized g new_sizer"
  by (simp add: sized_def new_sizer_def)

lemma split_range_cases:
  assumes "split_range g cfg head tot tb s = t" "sized g s"
  shows "case tg_mode t of
      Dispatch \<Rightarrow> (\<exists>n b. tg_lines t = int n \<and> tg_bytes t = int b \<and> fitting g cfg (tg_sha t) n b \<and> b \<noteq> 0)
        \<and> (\<exists>out. git_rev_list g = Some out \<and> tg_sha t \<in> set (take (walk_cap cfg) (filter sha_re out)))
    | Advance \<Rightarrow> (\<exists>out. git_rev_list g = Some out \<and>
          (filter sha_re out = [] \<and> tg_sha t = head \<and> tg_lines t = int tot \<and> tg_bytes t = tb
           \<or> (\<exists>rest n b. filter sha_re out = tg_sha t # rest \<and> (\<exists>k. diff_lines g k (tg_sha t) = Some n) \<and> (\<exists>k. diff_bytes g k (tg_sha t) = Some b)
                \<and> tg_bytes t = int b \<and> (b = 0 \<or> tg_lines t = int n))))
    | Defer \<Rightarrow> True"
proof (cases "git_rev_list g")
  case None
  with assms(1) show ?thesis by (auto simp: split_range_def defer_to_def)
next
  case (Some out)
  show ?thesis
  proof (cases "filter sha_re out")
    case Nil
    with Some assms(1) show ?thesis by (auto simp: split_range_def)
  next
    case (Cons first rest)
    obtain res s' where w: "walk g cfg head (take (walk_cap cfg) (first # rest)) s = (res, s')" by fastforce
    note ok = walk_fits [OF assms(2) w]
    show ?thesis
    proof (cases res)
      case (Some r)
      obtain c n b where r: "r = (c, n, b)" by (cases r)
      with ok Some have "c \<in> set (take (walk_cap cfg) (first # rest))" "fitting g cfg c n b" "b \<noteq> 0" by (auto simp: walk_ok_def)
      with assms(1) \<open>git_rev_list g = Some out\<close> Cons w Some r show ?thesis by (auto simp: split_range_def)
    next
      case None
      obtain n s1 where n: "dl g first s' = (n, s1)" by fastforce
      obtain b s2 where b: "db g first s1 = (b, s2)" by fastforce
      have sz: "sized g s'" using ok by (simp add: walk_ok_def)
      note d = dl_sized [OF sz n] note e = db_sized [OF d(1) b]
      have t: "t = first_commit g first s'" using assms(1) Some Cons w None by (auto simp: split_range_def)
      show ?thesis
      proof (cases "n = None \<or> b = None")
        case True
        with t n b show ?thesis by (auto simp: first_commit_def defer_to_def Let_def split: option.splits)
      next
        case False
        then obtain n' b' where nb: "n = Some n'" "b = Some b'" by (cases n; cases b) auto
        with t n b d(2) [OF nb(1)] e(2) [OF nb(2)] Some Cons show ?thesis by (auto simp: first_commit_def)
      qed
    qed
  qed
qed

text \<open>
  No review is dispatched blind: whatever git answers, and however calls fail and recover, a target
  that is dispatched has sizes git reported, within both budgets; it is the head, or a non-empty
  first-parent commit of the range within the walk cap.
\<close>

lemma dispatch_fits_budget:
  assumes "choose_review_target g cfg head = t" "tg_mode t = Dispatch"
  shows "\<exists>n b. tg_lines t = int n \<and> tg_bytes t = int b \<and> n \<le> max_lines cfg \<and> b \<le> max_bytes cfg
    \<and> (\<exists>k. diff_lines g k (tg_sha t) = Some n) \<and> (\<exists>k. diff_bytes g k (tg_sha t) = Some b)
    \<and> (tg_sha t = head \<or> (b \<noteq> 0 \<and> (\<exists>out. git_rev_list g = Some out \<and> tg_sha t \<in> set (take (walk_cap cfg) (filter sha_re out)))))"
proof -
  obtain n s1 where n: "dl g head new_sizer = (n, s1)" by fastforce
  obtain b s2 where b: "db g head s1 = (b, s2)" by fastforce
  note d = dl_sized [OF new_sizer_sized n] note e = db_sized [OF d(1) b]
  have split: ?thesis if "split_range g cfg head tot tb s2 = t" for tot tb
    using split_range_cases [OF that e(1)] assms(2) by (auto simp: fitting_def)
  show ?thesis
  proof (cases n)
    case None
    with assms n show ?thesis by (auto simp: choose_review_target_def defer_to_def)
  next
    case (Some n')
    show ?thesis
    proof (cases b)
      case None
      with assms n b Some split show ?thesis by (auto simp: choose_review_target_def defer_to_def split: if_splits)
    next
      fix b' assume b': "b = Some b'"
      show ?thesis
      proof (cases "n' \<le> max_lines cfg \<and> b' \<le> max_bytes cfg")
        case True
        with assms n b Some b' d(2) [OF Some] e(2) [OF b'] show ?thesis by (auto simp: choose_review_target_def)
      next
        case False
        then have "split_range g cfg head n' (int b') s2 = t" using assms(1) n b Some b' by (auto simp: choose_review_target_def)
        then show ?thesis by (rule split)
      qed
    qed
  qed
qed

section \<open>Stable sizes\<close>

text \<open>Git answers the same question the same way within a tick, failures included.\<close>

definition stable :: "git_sizes \<Rightarrow> bool" where
  "stable g \<longleftrightarrow> (\<forall>k c. diff_lines g k c = diff_lines g 0 c \<and> diff_bytes g k c = diff_bytes g 0 c)"

definition reviewable :: "git_sizes \<Rightarrow> ctl_config \<Rightarrow> string \<Rightarrow> string \<Rightarrow> bool" where
  "reviewable g cfg head c \<longleftrightarrow> c \<noteq> head \<and>
     (case (diff_lines g 0 c, diff_bytes g 0 c) of
        (Some n, Some b) \<Rightarrow> n \<le> max_lines cfg \<and> b \<le> max_bytes cfg \<and> b \<noteq> 0
      | _ \<Rightarrow> False)"

lemma dl_stable:
  assumes "stable g" "sized g s" "dl g c s = (r, s')"
  shows "r = diff_lines g 0 c"
proof (cases "lc s c")
  case None
  with assms show ?thesis by (auto simp: dl_def stable_def Let_def)
next
  case (Some n)
  with assms(2) obtain k where "diff_lines g k c = Some n" unfolding sized_def by blast
  then have "diff_lines g 0 c = Some n" using assms(1) unfolding stable_def by metis
  with assms(3) Some show ?thesis by (simp add: dl_def)
qed

lemma db_stable:
  assumes "stable g" "sized g s" "db g c s = (r, s')"
  shows "r = diff_bytes g 0 c"
proof (cases "bc s c")
  case None
  with assms show ?thesis by (auto simp: db_def stable_def Let_def)
next
  case (Some n)
  with assms(2) obtain k where "diff_bytes g k c = Some n" unfolding sized_def by blast
  then have "diff_bytes g 0 c = Some n" using assms(1) unfolding stable_def by metis
  with assms(3) Some show ?thesis by (simp add: db_def)
qed

lemma try_commit_stable:
  assumes "stable g" "sized g s"
  shows "fst (try_commit g cfg head (best, s) c)
    = (if reviewable g cfg head c then Some (c, the (diff_lines g 0 c), the (diff_bytes g 0 c)) else best)"
proof -
  obtain n s1 where n: "dl g c s = (n, s1)" by fastforce
  obtain b s2 where b: "db g c s1 = (b, s2)" by fastforce
  note d = dl_sized [OF assms(2) n]
  have "n = diff_lines g 0 c" "b = diff_bytes g 0 c"
    by (rule dl_stable [OF assms n], rule db_stable [OF assms(1) d(1) b])
  with n b show ?thesis by (auto simp: try_commit_def reviewable_def split: option.splits)
qed

text \<open>On stable sizes the walk finds the last reviewable commit.\<close>

lemma walk_last:
  assumes "stable g" "sized g s"
  shows "fst (walk g cfg head cs s) = (case filter (reviewable g cfg head) cs of [] \<Rightarrow> None
    | xs \<Rightarrow> Some (last xs, the (diff_lines g 0 (last xs)), the (diff_bytes g 0 (last xs))))"
proof -
  let ?pick = "\<lambda>c. Some (c, the (diff_lines g 0 c), the (diff_bytes g 0 c))"
  have "fst (foldl (try_commit g cfg head) acc cs)
      = (case filter (reviewable g cfg head) cs of [] \<Rightarrow> fst acc | xs \<Rightarrow> ?pick (last xs))" if "walk_ok g cfg UNIV acc" for acc
    using that
  proof (induction cs arbitrary: acc)
    case (Cons c cs)
    obtain best s where a: "acc = (best, s)" by (cases acc)
    with Cons.prems have "sized g s" by (simp add: walk_ok_def)
    note st = try_commit_stable [OF assms(1) this, of cfg head best c]
    have "walk_ok g cfg UNIV (try_commit g cfg head acc c)" by (rule try_commit_ok [OF Cons.prems]) simp
    from Cons.IH [OF this] st a show ?case by (auto split: list.splits)
  qed simp
  from this [of "(None, s)"] assms(2) show ?thesis by (simp add: walk_def walk_ok_def cong: list.case_cong)
qed

text \<open>
  On stable sizes nothing reviewable is skipped: a target that is passed over without review is
  reported as oversized (which raises an alert), or its diff is empty; and a commit chosen from a range
  over budget is the last of the range, within the walk cap, that fits both budgets.
\<close>

theorem skip_only_unreviewable:
  assumes "stable g" "0 < walk_cap cfg" "choose_review_target g cfg head = t"
  shows "(tg_mode t = Advance \<longrightarrow> oversized cfg t \<or> diff_bytes g 0 (tg_sha t) = Some 0)
    \<and> (tg_mode t = Dispatch \<and> tg_sha t \<noteq> head \<longrightarrow> (\<exists>out. git_rev_list g = Some out
          \<and> tg_sha t = last (filter (reviewable g cfg head) (take (walk_cap cfg) (filter sha_re out)))))"
proof -
  obtain n s1 where n: "dl g head new_sizer = (n, s1)" by fastforce
  obtain b s2 where b: "db g head s1 = (b, s2)" by fastforce
  note d = dl_sized [OF new_sizer_sized n] note e = db_sized [OF d(1) b]
  have nb: "n = diff_lines g 0 head" "b = diff_bytes g 0 head"
    by (rule dl_stable [OF assms(1) new_sizer_sized n], rule db_stable [OF assms(1) d(1) b])
  show ?thesis
  proof (cases "\<exists>n' tb. n = Some n' \<and> split_range g cfg head n' tb s2 = t
      \<and> (n' > max_lines cfg \<or> tb > int (max_bytes cfg)) \<and> (case b of None \<Rightarrow> tb = -1 | Some b' \<Rightarrow> tb = int b')")
    case False
    with assms(3) n b have "tg_mode t = Defer \<or> tg_mode t = Dispatch \<and> tg_sha t = head"
      by (auto simp: choose_review_target_def defer_to_def split: option.splits if_splits)
    then show ?thesis by auto
  next
    case True
    then obtain n' tb where n': "n = Some n'" and sp: "split_range g cfg head n' tb s2 = t"
      and over: "n' > max_lines cfg \<or> tb > int (max_bytes cfg)" and tb: "case b of None \<Rightarrow> tb = -1 | Some b' \<Rightarrow> tb = int b'" by blast
    show ?thesis
    proof (cases "git_rev_list g")
      case None
      with sp show ?thesis by (auto simp: split_range_def defer_to_def)
    next
      case (Some out)
      show ?thesis
      proof (cases "filter sha_re out")
        case Nil
        with Some sp over show ?thesis by (auto simp: split_range_def oversized_def)
      next
        case (Cons first rest)
        let ?cs = "take (walk_cap cfg) (first # rest)"
        obtain res s' where w: "walk g cfg head ?cs s2 = (res, s')" by fastforce
        have last': "res = (case filter (reviewable g cfg head) ?cs of [] \<Rightarrow> None
            | xs \<Rightarrow> Some (last xs, the (diff_lines g 0 (last xs)), the (diff_bytes g 0 (last xs))))"
          using walk_last [OF assms(1) e(1), of cfg head ?cs] w by simp
        show ?thesis
        proof (cases res)
          case (Some r)
          with sp \<open>git_rev_list g = Some out\<close> Cons w last' show ?thesis
            by (auto simp: split_range_def split: list.splits prod.splits)
        next
          case None
          have t: "t = first_commit g first s'" using sp Some Cons w None by (auto simp: split_range_def)
          have "first \<in> set ?cs" using assms(2) by (cases "walk_cap cfg") auto
          moreover have "filter (reviewable g cfg head) ?cs = []" using None last' by (auto split: list.splits)
          ultimately have nr: "\<not> reviewable g cfg head first" by (auto simp: filter_empty_conv)
          have sz: "sized g s'" using walk_fits [OF e(1) w] by (simp add: walk_ok_def)
          obtain n1 u1 where d1: "dl g first s' = (n1, u1)" by fastforce
          obtain b1 u2 where e1: "db g first u1 = (b1, u2)" by fastforce
          have nb1: "n1 = diff_lines g 0 first" "b1 = diff_bytes g 0 first"
            by (rule dl_stable [OF assms(1) sz d1], rule db_stable [OF assms(1) dl_sized(1) [OF sz d1] e1])
          show ?thesis
          proof (cases "n1 = None \<or> b1 = None \<or> b1 = Some 0")
            case True
            with t d1 e1 nb1 show ?thesis by (auto simp: first_commit_def defer_to_def split: option.splits)
          next
            case False
            then obtain x y where xy: "n1 = Some x" "b1 = Some y" "y \<noteq> 0" by auto
            have "x > max_lines cfg \<or> y > max_bytes cfg"
            proof (cases "first = head")
              case True
              with xy nb1 nb n' over tb show ?thesis by auto
            next
              case False
              with nr xy nb1 show ?thesis by (auto simp: reviewable_def)
            qed
            with t d1 e1 xy show ?thesis by (auto simp: first_commit_def oversized_def)
          qed
        qed
      qed
    qed
  qed
qed

section \<open>Sizes that recover\<close>

section \<open>A size that recovers\<close>

definition ex_head :: string where
  "ex_head = replicate 40 CHR ''b''"

definition ex_first :: string where
  "ex_first = replicate 40 CHR ''a''"

definition ex_flaky :: git_sizes where
  "ex_flaky = \<lparr>git_numstat = (\<lambda>k c. if c = ex_head then Some (codes ''9000'' @ 9 # codes ''0'' @ 9 # codes ''f'')
        else if k = 2 then None else Some (codes ''3'' @ 9 # codes ''1'' @ 9 # codes ''f'')),
     git_patch = (\<lambda>k c. Some (if c = ex_head then replicate 20 120 else replicate 5 120)),
     git_rev_list = Some [ex_first, ex_head]\<rparr>"

text \<open>
  The fallback on the first commit takes it for over budget because the walk would have chosen it
  otherwise. A failed size is asked for again, though: when the walk could not size the first commit
  and the retry can, a small, non-empty commit is passed over as if it were empty, without an alert.
\<close>

theorem recovered_size_skips:
  "let t = choose_review_target ex_flaky (mk_config (\<lambda>_. None)) ex_head in
   tg_mode t = Advance \<and> tg_sha t = ex_first \<and> tg_lines t = 4 \<and> tg_bytes t = 5 \<and> \<not> oversized (mk_config (\<lambda>_. None)) t"
proof -
  let ?cfg = "mk_config (\<lambda>_. None)"
  have c: "max_lines ?cfg = 1500" "max_bytes ?cfg = 262144" "walk_cap ?cfg = 200"
    by (simp_all add: mk_config_def clamp_def int_env_def)
  have ne: "ex_first \<noteq> ex_head" by (simp add: ex_first_def ex_head_def replicate_eqI)
  have re: "sha_re ex_first" "sha_re ex_head" by (simp_all add: sha_re_def ex_first_def ex_head_def hex_lower_def list_all_iff)
  have l: "diff_lines ex_flaky k ex_head = Some 9000" "diff_lines ex_flaky 2 ex_first = None" "diff_lines ex_flaky 3 ex_first = Some 4" for k
    using ne by (simp_all add: diff_lines_def ex_flaky_def numstat_total_def numstat_line_def line_break_def codes_def ascii_digit_def decimal_def Let_def)
  have b: "diff_bytes ex_flaky k ex_head = Some 20" "diff_bytes ex_flaky k ex_first = Some 5" for k
    using ne by (simp_all add: diff_bytes_def ex_flaky_def patch_size_def)
  have r: "git_rev_list ex_flaky = Some [ex_first, ex_head]" by (simp add: ex_flaky_def)
  show ?thesis using ne
    by (simp add: choose_review_target_def dl_def db_def new_sizer_def c l b r re split_range_def walk_def try_commit_def
        first_commit_def oversized_def numeral_2_eq_2 [symmetric] numeral_3_eq_3 [symmetric] Let_def)
qed

end
