(* ===== verification/Controller.thy ===== *)
theory Controller
  imports Chunker Cursors Skills Capture
begin

text \<open>
  \<^verbatim>\<open>src/runtime/controller.py\<close>, the review loop: the trusted repository list, the skill indexer with its
  branch-protection gate, one repository's reconcile step and the tick over all of them. The state is
  what the controller keeps: the cursor and skill tables, the marker, streak, block and counter files of
  its state directory, the pinned refs, the alerts and the dispatched reviews. What git, gh, the file
  system and the review trigger answer in a tick is the record \<open>observed\<close>; a command that raises ends
  the step where it stands, as the tick catches the exception. Markers that workers write while the step
  runs arrive at the three points where the code looks for them.
\<close>

section \<open>Names and configuration\<close>

definition slug_char :: "char \<Rightarrow> bool" where
  "slug_char c \<longleftrightarrow> c \<in> set ''ABCDEFGHIJKLMNOPQRSTUVWXYZabcdefghijklmnopqrstuvwxyz0123456789._-''"

definition ref_slug :: "string \<Rightarrow> string" where
  "ref_slug ref = map (\<lambda>c. if slug_char c then c else CHR ''-'') ref"

definition ctl_head_ref :: "string \<Rightarrow> string" where
  "ctl_head_ref ref = ''refs/myndaix/controller/'' @ ref_slug ref"

definition ctl_reviewed_ref :: "string \<Rightarrow> string" where
  "ctl_reviewed_ref ref = ''refs/myndaix/reviewed/'' @ ref_slug ref"

definition ctl_pending_ref :: "string \<Rightarrow> string" where
  "ctl_pending_ref ref = ''refs/myndaix/pending/'' @ ref_slug ref"

record repo =
  rp_id :: string
  rp_base :: string
  rp_ref :: string

definition done_marker :: "repo \<Rightarrow> string \<Rightarrow> string \<Rightarrow> string" where
  "done_marker rp ref sha = ''done-'' @ ref_slug (rp_base rp) @ ''-'' @ ref_slug ref @ ''-'' @ sha"

definition transient_marker :: "repo \<Rightarrow> string \<Rightarrow> string \<Rightarrow> string" where
  "transient_marker rp ref sha = ''transient-'' @ ref_slug (rp_base rp) @ ''-'' @ ref_slug ref @ ''-'' @ sha"

definition transient_streak_file :: "string \<Rightarrow> string" where
  "transient_streak_file rid = ''transient-streak-'' @ ref_slug rid"

definition defer_streak_file :: "string \<Rightarrow> string" where
  "defer_streak_file rid = ''defer-streak-'' @ ref_slug rid"

text \<open>The pattern ends in a dollar, which a final newline also satisfies.\<close>

definition ref_first :: "char \<Rightarrow> bool" where
  "ref_first c \<longleftrightarrow> slug_char c \<and> c \<noteq> CHR ''-''"

definition ref_re :: "string \<Rightarrow> bool" where
  "ref_re s =
     (let t = (if s \<noteq> [] \<and> last s = CHR 0x0A then butlast s else s); r = drop 11 t in
      prefix ''refs/heads/'' t \<and> r \<noteq> [] \<and> ref_first (hd r) \<and> list_all (\<lambda>c. slug_char c \<or> c = CHR ''/'') (tl r))"

text \<open>
  The trusted list: a JSON value of an entry is missing, a string, another false value or another true
  value. \<open>resolve\<close> gives the final component of the resolved path and whether it is a git repository.
  \<open>None\<close> is an uncaught exception.
\<close>

datatype json_field = F_Missing | F_Str string | F_False | F_True

datatype config_entry = Not_Object | Config_Entry json_field json_field

datatype repos_json = Json_Missing | Json_Bad | Json_Not_Object | Json_Object "(string \<times> config_entry) list"

definition DEFAULT_WATCH_REF :: string where
  "DEFAULT_WATCH_REF = ''refs/heads/main''"

fun load_entries :: "(string \<Rightarrow> string \<times> bool) \<Rightarrow> repo list \<Rightarrow> (string \<times> config_entry) list \<Rightarrow> repo list option" where
  "load_entries resolve repos [] = Some repos"
| "load_entries resolve repos ((key, entry) # es) =
     (if prefix ''_'' key then load_entries resolve repos es
      else case entry of
        Not_Object \<Rightarrow> load_entries resolve repos es
      | Config_Entry p wr \<Rightarrow>
          (case p of
             F_Str path \<Rightarrow>
               (if path = [] then load_entries resolve repos es
                else
                  (let (name, is_git) = resolve path in
                   if \<not> is_git then load_entries resolve repos es
                   else case wr of
                     F_False \<Rightarrow> None
                   | F_True \<Rightarrow> None
                   | _ \<Rightarrow>
                       (let ref = (case wr of F_Str r \<Rightarrow> r | _ \<Rightarrow> DEFAULT_WATCH_REF) in
                        if \<not> ref_re ref then load_entries resolve repos es
                        else if name \<in> rp_id ` set repos then load_entries resolve repos es
                        else load_entries resolve (repos @ [\<lparr>rp_id = name, rp_base = name, rp_ref = ref\<rparr>]) es)))
           | F_True \<Rightarrow> None
           | _ \<Rightarrow> load_entries resolve repos es))"

definition load_config :: "(string \<Rightarrow> string \<times> bool) \<Rightarrow> repos_json \<Rightarrow> repo list option" where
  "load_config resolve raw = (case raw of Json_Object es \<Rightarrow> load_entries resolve [] es | _ \<Rightarrow> Some [])"

section \<open>State and observations\<close>

datatype alert =
    Transient_Alert string pytext
  | Defer_Alert string string
  | Skip_Alert string string string
  | Blocked_Alert string string nat
  | Skills_Blocked string
  | Skills_Disarmed string
  | Skills_Fail_Open string
  | Skills_Tainted string string
  | Skills_Rejected string "string list"
  | Skills_Index_Failed string

text \<open>
  A counter file of the state directory: missing, a number as \<^verbatim>\<open>int\<close> reads it (an empty file is zero), or
  a text that is none. A file that cannot be read counts as zero. The day's counter is one file per UTC
  day.
\<close>

datatype count_file = File_Missing | File_Count int | File_Bad

definition read_count :: "bool \<Rightarrow> count_file \<Rightarrow> int" where
  "read_count readable f = (case f of File_Count n \<Rightarrow> if readable then n else 0 | _ \<Rightarrow> 0)"

definition day_file :: "string \<Rightarrow> string" where
  "day_file utcday = ''controller-day-'' @ utcday"

record ctl_world =
  cw_cursors :: "review_row list"
  cw_done :: "string set"
  cw_transient :: "string \<rightharpoonup> pytext"
  cw_streaks :: "string \<Rightarrow> count_file"
  cw_day :: "string \<Rightarrow> count_file"
  cw_budget :: nat
  cw_alerts :: "alert list"
  cw_pins :: "(string \<times> string) list"
  cw_dispatched :: "(string \<times> string \<times> string \<times> string) list"
  cw_skills :: "skill_row list"
  cw_blocked :: "string set"
  cw_tree :: "string \<rightharpoonup> string"
  cw_taint :: "string \<rightharpoonup> string"
  cw_armed :: bool

datatype 'a git_out = Out 'a | Nonzero | Raised

record protection =
  pr_reviews :: bool
  pr_admins :: bool
  pr_force :: bool

datatype script_stat = No_Script | Script bool bool bool bool bool

datatype trigger_run = Trigger_Raises | Trigger_Exit int

text \<open>
  \<open>ob_day\<close> is the UTC day the clock shows at the daily gate (0), when the charge names its file (1) and when
  the charge counts (2); \<open>ob_day_read\<close> says whether the day's file can be read at the gate (0) and at the
  charge (1). A write that fails leaves its file as it was.
\<close>

record observed =
  ob_now :: time
  ob_day :: "nat \<Rightarrow> string"
  ob_day_read :: "nat \<Rightarrow> bool"
  ob_arrive :: "nat \<Rightarrow> (string \<rightharpoonup> pytext) \<times> string set"
  ob_read_ok :: "string \<Rightarrow> bool"
  ob_write_ok :: "string \<Rightarrow> bool"
  ob_unlink_ok :: "string \<Rightarrow> bool"
  ob_alert_ok :: "alert \<Rightarrow> bool"
  ob_url :: "string git_out"
  ob_fetch :: "unit git_out"
  ob_head :: "string git_out"
  ob_has :: "string \<Rightarrow> unit git_out"
  ob_quiet :: "unit git_out"
  ob_sizes :: git_sizes
  ob_pin :: "string \<Rightarrow> string \<Rightarrow> unit git_out"
  ob_script :: script_stat
  ob_run :: trigger_run
  ob_record_ok :: bool
  ob_nwo :: "string option"
  ob_prot :: "protection option"
  ob_tree :: "string git_out"
  ob_ls :: "string list git_out"
  ob_blob :: "string \<Rightarrow> pytext git_out"
  ob_index_raises :: bool

definition arrive :: "observed \<Rightarrow> nat \<Rightarrow> ctl_world \<Rightarrow> ctl_world" where
  "arrive ob i w = w\<lparr>cw_transient := cw_transient w ++ fst (ob_arrive ob i), cw_done := cw_done w \<union> snd (ob_arrive ob i)\<rparr>"

definition alert_jefe :: "observed \<Rightarrow> alert \<Rightarrow> ctl_world \<Rightarrow> ctl_world \<times> bool" where
  "alert_jefe ob a w = (if ob_alert_ok ob a then (w\<lparr>cw_alerts := cw_alerts w @ [a]\<rparr>, True) else (w, False))"

definition pin :: "observed \<Rightarrow> string \<Rightarrow> string \<Rightarrow> ctl_world \<Rightarrow> ctl_world \<times> unit git_out" where
  "pin ob refname sha w =
     (case ob_pin ob refname sha of
        Out u \<Rightarrow> (w\<lparr>cw_pins := cw_pins w @ [(refname, sha)]\<rparr>, Out u)
      | r \<Rightarrow> (w, r))"

definition bump_streak :: "observed \<Rightarrow> string \<Rightarrow> ctl_world \<Rightarrow> ctl_world \<times> int" where
  "bump_streak ob f w =
     (let n = read_count (ob_read_ok ob f) (cw_streaks w f) + 1 in
      (if ob_write_ok ob f then w\<lparr>cw_streaks := (cw_streaks w)(f := File_Count n)\<rparr> else w, n))"

definition reset_streak :: "observed \<Rightarrow> string \<Rightarrow> ctl_world \<Rightarrow> ctl_world" where
  "reset_streak ob f w = (if ob_unlink_ok ob f then w\<lparr>cw_streaks := (cw_streaks w)(f := File_Missing)\<rparr> else w)"

section \<open>The remote and the trigger\<close>

definition url_ok :: "string \<Rightarrow> bool" where
  "url_ok url \<longleftrightarrow> \<not> sublist ''::'' url \<and> list_ex (\<lambda>p. prefix p url) [''https://'', ''ssh://'', ''file://'', ''git@'']"

definition remote_url :: "observed \<Rightarrow> string option" where
  "remote_url ob = (case ob_url ob of Out url \<Rightarrow> if url = [] \<or> \<not> url_ok url then None else Some url | _ \<Rightarrow> None)"

text \<open>A script is a symbolic link, a regular file, ours, writable by others, executable.\<close>

definition trusted_script :: "script_stat \<Rightarrow> bool" where
  "trusted_script st = (case st of No_Script \<Rightarrow> False
     | Script link reg own wr ex \<Rightarrow> \<not> link \<and> reg \<and> own \<and> \<not> wr \<and> ex)"

text \<open>\<open>None\<close> is an exception: the test seam could not write its record.\<close>

definition trigger_review :: "ctl_config \<Rightarrow> observed \<Rightarrow> bool option" where
  "trigger_review cfg ob =
     (if test_mode cfg \<and> dispatch_override cfg then (if ob_record_ok ob then Some True else None)
      else if dispatch_override cfg \<and> \<not> test_mode cfg then Some False
      else Some (trusted_script (ob_script ob) \<and> ob_run ob = Trigger_Exit 0))"

section \<open>Transient aborts\<close>

definition cause_char :: "nat \<Rightarrow> bool" where
  "cause_char c \<longleftrightarrow> c \<in> set (codes ''ABCDEFGHIJKLMNOPQRSTUVWXYZabcdefghijklmnopqrstuvwxyz0123456789 ():,.?-'')"

definition clean_cause :: "pytext \<Rightarrow> pytext" where
  "clean_cause raw = strip (take 80 (filter cause_char raw))"

definition try_forgive_transient ::
  "ctl_config \<Rightarrow> observed \<Rightarrow> repo \<Rightarrow> string \<Rightarrow> ctl_world \<Rightarrow> ctl_world \<times> bool" where
  "try_forgive_transient cfg ob rp sha w =
     (let rid = rp_id rp; ref = rp_ref rp; tm = transient_marker rp ref sha in
      case cw_transient w tm of
        None \<Rightarrow> (w, False)
      | Some content \<Rightarrow>
          (let cause = (if ob_read_ok ob tm then clean_cause content else []) in
           if \<not> ob_unlink_ok ob tm then (w, False)
           else
             (let w1 = w\<lparr>cw_transient := (cw_transient w)(tm := None)\<rparr>;
                  (T, won) = forgive_transient rid ref sha (cw_cursors w1);
                  w2 = w1\<lparr>cw_cursors := T\<rparr>
              in if \<not> won then (w2, False)
                 else
                   (let (w3, n) = bump_streak ob (transient_streak_file rid) w2 in
                    (if n = int (transient_alert cfg) then fst (alert_jefe ob (Transient_Alert rid cause) w3) else w3, True)))))"

section \<open>The skill indexer\<close>

definition block_repo_skills :: "ctl_config \<Rightarrow> observed \<Rightarrow> string \<Rightarrow> ctl_world \<Rightarrow> ctl_world" where
  "block_repo_skills cfg ob rid w =
     (if dry_run cfg then w
      else if ob_write_ok ob (''skills-blocked-'' @ rid)
      then
        (let w1 = w\<lparr>cw_blocked := insert rid (cw_blocked w)\<rparr> in
         if rid \<in> cw_blocked w then w1 else fst (alert_jefe ob (Skills_Blocked rid) w1))
      else if \<not> cw_armed w \<or> ob_unlink_ok ob ''SKILLS_ENABLED''
      then fst (alert_jefe ob (Skills_Disarmed rid) (w\<lparr>cw_armed := False\<rparr>))
      else fst (alert_jefe ob (Skills_Fail_Open rid) w))"

definition branch_of :: "string \<Rightarrow> string" where
  "branch_of ref = drop 11 ref"

definition branch_protection_ok :: "observed \<Rightarrow> repo \<Rightarrow> bool" where
  "branch_protection_ok ob rp =
     (let branch = branch_of (rp_ref rp) in
      if branch = [] \<or> sublist ''..'' branch \<or> prefix ''.'' branch \<or> sublist ''/.'' branch then False
      else case ob_prot ob of None \<Rightarrow> False | Some p \<Rightarrow> pr_reviews p \<and> pr_admins p \<and> \<not> pr_force p)"

definition clear_taint :: "observed \<Rightarrow> string \<Rightarrow> ctl_world \<Rightarrow> ctl_world" where
  "clear_taint ob rid w = (if ob_unlink_ok ob (''skills-taint-'' @ rid) then w\<lparr>cw_taint := (cw_taint w)(rid := None)\<rparr> else w)"

definition split_slash :: "string \<Rightarrow> string list" where
  "split_slash s = foldr (\<lambda>c acc. if c = CHR ''/'' then [] # acc else (c # hd acc) # tl acc) s [[]]"

text \<open>
  One path of the listing: not a skill document, rejected, or a skill to index; \<open>None\<close> when reading the
  document raises. Whitespace around a listed path is stripped by the code; git lists none.
\<close>

datatype skill_verdict = Not_Skill | Reject | Index skill_item

definition skill_of_path ::
  "(pytext \<Rightarrow> pytext) \<Rightarrow> (injection_pattern \<Rightarrow> pytext \<Rightarrow> bool) \<Rightarrow> (pytext \<Rightarrow> string) \<Rightarrow> observed \<Rightarrow> string \<Rightarrow> skill_verdict option" where
  "skill_of_path lower hit sha ob p =
     (case split_slash p of
        [d, name, f] \<Rightarrow>
          (if d \<noteq> ''skills'' \<or> f \<noteq> ''SKILL.md'' then Some Not_Skill
           else case ob_blob ob p of
             Raised \<Rightarrow> None
           | Nonzero \<Rightarrow> Some Reject
           | Out blob \<Rightarrow>
               (case lint_skill lower hit (codes name) blob of
                  Inl _ \<Rightarrow> Some Reject
                | Inr d \<Rightarrow>
                    if is_unauthored_stub blob then Some Reject
                    else Some (Index \<lparr>it_name = sd_name d, it_description = sd_description d, it_body = sd_body d,
                                      it_body_sha = sha (sd_body d), it_content_sha = sha blob, it_trigger = sd_trigger d\<rparr>)))
      | _ \<Rightarrow> Some Not_Skill)"

fun read_skills ::
  "(string \<Rightarrow> skill_verdict option) \<Rightarrow> string list \<Rightarrow> (skill_item list \<times> string list) option" where
  "read_skills judge [] = Some ([], [])"
| "read_skills judge (p # ps) =
     (case judge p of
        None \<Rightarrow> None
      | Some v \<Rightarrow>
          (case read_skills judge ps of
             None \<Rightarrow> None
           | Some (items, rejects) \<Rightarrow>
               Some (case v of Not_Skill \<Rightarrow> (items, rejects) | Reject \<Rightarrow> (items, p # rejects) | Index i \<Rightarrow> (i # items, rejects))))"

definition listing :: "observed \<Rightarrow> string \<Rightarrow> string list option" where
  "listing ob tree = (if tree = ''none'' then Some [] else case ob_ls ob of Out ps \<Rightarrow> Some ps | _ \<Rightarrow> None)"

definition store_skills ::
  "ctl_config \<Rightarrow> observed \<Rightarrow> string \<Rightarrow> string \<Rightarrow> skill_item list \<times> string list \<Rightarrow> ctl_world \<Rightarrow> ctl_world" where
  "store_skills cfg ob rid tree found w =
     (let (items, rejects) = found;
          w1 = (if rejects \<noteq> [] \<and> \<not> dry_run cfg then fst (alert_jefe ob (Skills_Rejected rid rejects) w) else w)
      in if dry_run cfg then w1
         else if ob_index_raises ob then fst (alert_jefe ob (Skills_Index_Failed rid) w1)
         else
           (let w2 = w1\<lparr>cw_skills := fst (index_skills (ob_now ob) rid items (cw_skills w1))\<rparr> in
            if ob_write_ok ob (''skills-tree-'' @ rid) then w2\<lparr>cw_tree := (cw_tree w2)(rid \<mapsto> tree)\<rparr> else w2))"

definition changed_while_blocked :: "string \<Rightarrow> string \<Rightarrow> bool" where
  "changed_while_blocked tree prev \<longleftrightarrow> tree \<noteq> prev \<and> \<not> (tree = ''none'' \<and> prev \<in> {'''', ''none''})"

definition mark_taint :: "ctl_config \<Rightarrow> observed \<Rightarrow> string \<Rightarrow> string \<Rightarrow> ctl_world \<Rightarrow> ctl_world" where
  "mark_taint cfg ob rid tree w =
     (if dry_run cfg \<or> cw_taint w rid = Some tree then w
      else
        (let w1 = fst (alert_jefe ob (Skills_Tainted rid tree) w) in
         if ob_write_ok ob (''skills-taint-'' @ rid) then w1\<lparr>cw_taint := (cw_taint w1)(rid \<mapsto> tree)\<rparr> else w1))"

definition unblock :: "ctl_config \<Rightarrow> observed \<Rightarrow> string \<Rightarrow> ctl_world \<Rightarrow> ctl_world" where
  "unblock cfg ob rid w =
     (if dry_run cfg then w
      else clear_taint ob rid
             (if rid \<in> cw_blocked w \<and> ob_unlink_ok ob (''skills-blocked-'' @ rid)
              then w\<lparr>cw_blocked := cw_blocked w - {rid}\<rparr> else w))"

definition index_repo_skills ::
  "(pytext \<Rightarrow> pytext) \<Rightarrow> (injection_pattern \<Rightarrow> pytext \<Rightarrow> bool) \<Rightarrow> (pytext \<Rightarrow> string) \<Rightarrow> ctl_config \<Rightarrow> observed \<Rightarrow> repo
     \<Rightarrow> ctl_world \<Rightarrow> ctl_world" where
  "index_repo_skills lower hit sha cfg ob rp w =
     (let rid = rp_id rp in
      if (case ob_nwo ob of None \<Rightarrow> True | Some n \<Rightarrow> CHR ''/'' \<notin> set n) then block_repo_skills cfg ob rid w
      else if \<not> branch_protection_ok ob rp then block_repo_skills cfg ob rid w
      else case ob_tree ob of
        Raised \<Rightarrow> w
      | tr \<Rightarrow>
          (let tree = (case tr of Out t \<Rightarrow> t | _ \<Rightarrow> ''none'');
               prev = (case cw_tree w rid of None \<Rightarrow> '''' | Some t \<Rightarrow> t)
           in if rid \<in> cw_blocked w \<and> changed_while_blocked tree prev then mark_taint cfg ob rid tree w
              else
                (let w1 = unblock cfg ob rid w in
                 if tree = prev \<and> prev \<noteq> '''' then w1
                 else case listing ob tree of
                   None \<Rightarrow> w1
                 | Some ps \<Rightarrow>
                     (case read_skills (skill_of_path lower hit sha ob) ps of
                        None \<Rightarrow> w1
                      | Some found \<Rightarrow> store_skills cfg ob rid tree found w1))))"

section \<open>One repository\<close>

definition cursor_of :: "repo \<Rightarrow> ctl_world \<Rightarrow> review_row option" where
  "cursor_of rp w = get_cursor (rp_id rp) (rp_ref rp) (cw_cursors w)"

definition pending_of :: "review_row option \<Rightarrow> string option" where
  "pending_of cur = (case cur of None \<Rightarrow> None | Some r \<Rightarrow> rv_pending r)"

definition is_done :: "repo \<Rightarrow> string \<Rightarrow> ctl_world \<Rightarrow> bool" where
  "is_done rp sha w \<longleftrightarrow> done_marker rp (rp_ref rp) sha \<in> cw_done w"

text \<open>A pass returns the state and the cursor it goes on with, or \<open>None\<close> when the step ends there.\<close>

type_synonym pass = "ctl_world \<times> review_row option option"

definition advance_pass :: "observed \<Rightarrow> repo \<Rightarrow> ctl_world \<Rightarrow> pass" where
  "advance_pass ob rp w =
     (case pending_of (cursor_of rp w) of
        None \<Rightarrow> (w, Some (cursor_of rp w))
      | Some ps \<Rightarrow>
          if \<not> is_done rp ps w then (w, Some (cursor_of rp w))
          else case pin ob (ctl_reviewed_ref (rp_ref rp)) ps w of
            (w1, Raised) \<Rightarrow> (w1, None)
          | (w1, Nonzero) \<Rightarrow> (w1, Some (cursor_of rp w1))
          | (w1, Out _) \<Rightarrow>
              (let (T, won) = advance_cursor (ob_now ob) (rp_id rp) (rp_ref rp) ps (cw_cursors w1);
                   w2 = w1\<lparr>cw_cursors := T\<rparr>;
                   w3 = (if won then reset_streak ob (transient_streak_file (rp_id rp)) w2 else w2)
               in (w3, Some (cursor_of rp w3))))"

definition transient_pass :: "ctl_config \<Rightarrow> observed \<Rightarrow> repo \<Rightarrow> review_row option \<Rightarrow> ctl_world \<Rightarrow> ctl_world \<times> review_row option" where
  "transient_pass cfg ob rp cur w =
     (case pending_of cur of
        None \<Rightarrow> (w, cur)
      | Some ps \<Rightarrow>
          if is_done rp ps w then (w, cur)
          else (let (w1, forgiven) = try_forgive_transient cfg ob rp ps w in
                (w1, if forgiven then cursor_of rp w1 else cur)))"

definition observe_head :: "observed \<Rightarrow> string option" where
  "observe_head ob =
     (if remote_url ob = None \<or> ob_fetch ob \<noteq> Out () then None
      else case ob_head ob of Out h \<Rightarrow> if sha_re h then Some h else None | _ \<Rightarrow> None)"

definition seed_baseline :: "ctl_config \<Rightarrow> observed \<Rightarrow> repo \<Rightarrow> string \<Rightarrow> ctl_world \<Rightarrow> ctl_world" where
  "seed_baseline cfg ob rp head w =
     (if dry_run cfg then w
      else case pin ob (ctl_reviewed_ref (rp_ref rp)) head w of
        (w1, Out _) \<Rightarrow> w1\<lparr>cw_cursors := fst (upsert_baseline (ob_now ob) (rp_id rp) (rp_ref rp) head (cw_cursors w1))\<rparr>
      | (w1, _) \<Rightarrow> w1)"

definition skip_past :: "observed \<Rightarrow> repo \<Rightarrow> string \<Rightarrow> ctl_world \<Rightarrow> ctl_world" where
  "skip_past ob rp sha w =
     (case pin ob (ctl_reviewed_ref (rp_ref rp)) sha w of
        (w1, Out _) \<Rightarrow> w1\<lparr>cw_cursors := fst (skip_to (ob_now ob) (rp_id rp) (rp_ref rp) sha (cw_cursors w1))\<rparr>
      | (w1, _) \<Rightarrow> w1)"

definition defer_tick :: "ctl_config \<Rightarrow> observed \<Rightarrow> repo \<Rightarrow> string \<Rightarrow> ctl_world \<Rightarrow> ctl_world" where
  "defer_tick cfg ob rp sha w =
     (let (w1, n) = bump_streak ob (defer_streak_file (rp_id rp)) w in
      if n = int (defer_alert cfg) \<and> \<not> dry_run cfg then fst (alert_jefe ob (Defer_Alert (rp_id rp) sha) w1) else w1)"

definition advance_without_review :: "ctl_config \<Rightarrow> observed \<Rightarrow> repo \<Rightarrow> string \<Rightarrow> target \<Rightarrow> ctl_world \<Rightarrow> ctl_world" where
  "advance_without_review cfg ob rp base t w =
     (if dry_run cfg then w
      else if oversized cfg t
      then (case alert_jefe ob (Skip_Alert (rp_id rp) base (tg_sha t)) w of
              (w1, True) \<Rightarrow> skip_past ob rp (tg_sha t) w1
            | (w1, False) \<Rightarrow> w1)
      else skip_past ob rp (tg_sha t) w)"

definition day_count :: "observed \<Rightarrow> ctl_world \<Rightarrow> int" where
  "day_count ob w = read_count (ob_day_read ob 0) (cw_day w (ob_day ob 0))"

definition charge_day :: "observed \<Rightarrow> ctl_world \<Rightarrow> ctl_world" where
  "charge_day ob w =
     (if ob_write_ok ob (day_file (ob_day ob 1))
      then w\<lparr>cw_day := (cw_day w)(ob_day ob 1 := File_Count (read_count (ob_day_read ob 1) (cw_day w (ob_day ob 2)) + 1))\<rparr>
      else w)"

definition release :: "repo \<Rightarrow> string \<Rightarrow> ctl_world \<Rightarrow> ctl_world" where
  "release rp sha w = w\<lparr>cw_cursors := fst (release_dispatch (rp_id rp) (rp_ref rp) sha (cw_cursors w))\<rparr>"

definition dispatch :: "ctl_config \<Rightarrow> observed \<Rightarrow> repo \<Rightarrow> string \<Rightarrow> string \<Rightarrow> ctl_world \<Rightarrow> ctl_world" where
  "dispatch cfg ob rp base sha w =
     (if cw_budget w \<ge> max_tick cfg then w
      else if \<not> dry_run cfg \<and> day_count ob w \<ge> int (max_day cfg) then w
      else if dry_run cfg then w
      else
        (let (T, won) = claim_dispatch (ob_now ob) (rp_id rp) (rp_ref rp) sha (ob_now ob - int (pending_stale cfg)) (cw_cursors w);
             w1 = w\<lparr>cw_cursors := T\<rparr>
         in if \<not> won then w1
            else case pin ob (ctl_pending_ref (rp_ref rp)) sha w1 of
              (w2, Raised) \<Rightarrow> w2
            | (w2, Nonzero) \<Rightarrow> release rp sha w2
            | (w2, Out _) \<Rightarrow>
                (case trigger_review cfg ob of
                   None \<Rightarrow> w2
                 | Some True \<Rightarrow>
                     charge_day ob (w2\<lparr>cw_budget := cw_budget w2 + 1,
                                      cw_dispatched := cw_dispatched w2 @ [(rp_id rp, rp_ref rp, base, sha)]\<rparr>)
                 | Some False \<Rightarrow> release rp sha w2)))"

definition at_ceiling :: "ctl_config \<Rightarrow> review_row \<Rightarrow> string \<Rightarrow> bool" where
  "at_ceiling cfg cur sha \<longleftrightarrow> rv_pending cur = Some sha \<and> rv_attempts cur \<ge> ctl_max_attempts cfg \<and> rv_state cur \<noteq> Blocked"

definition review_target :: "ctl_config \<Rightarrow> observed \<Rightarrow> repo \<Rightarrow> review_row \<Rightarrow> string \<Rightarrow> ctl_world \<Rightarrow> ctl_world" where
  "review_target cfg ob rp cur sha w =
     (if \<not> at_ceiling cfg cur sha then dispatch cfg ob rp (rv_reviewed cur) sha w
      else case try_forgive_transient cfg ob rp sha (arrive ob 2 w) of
        (w1, True) \<Rightarrow> dispatch cfg ob rp (rv_reviewed cur) sha w1
      | (w1, False) \<Rightarrow>
          (let (T, won) = mark_blocked (ob_now ob) (rp_id rp) (rp_ref rp) sha (ctl_max_attempts cfg) (cw_cursors w1);
               w2 = w1\<lparr>cw_cursors := T\<rparr>
           in if won \<and> \<not> dry_run cfg then fst (alert_jefe ob (Blocked_Alert (rp_id rp) sha (rv_attempts cur)) w2) else w2))"

definition decide :: "ctl_config \<Rightarrow> observed \<Rightarrow> repo \<Rightarrow> string \<Rightarrow> review_row option \<Rightarrow> ctl_world \<Rightarrow> ctl_world" where
  "decide cfg ob rp head cur w =
     (case cur of
        None \<Rightarrow> seed_baseline cfg ob rp head w
      | Some r \<Rightarrow>
          if head = rv_reviewed r then w
          else if ob_has ob head \<noteq> Out () \<or> ob_has ob (rv_reviewed r) \<noteq> Out () then w
          else case ob_quiet ob of
            Raised \<Rightarrow> w
          | Out _ \<Rightarrow> if dry_run cfg then w else skip_past ob rp head w
          | Nonzero \<Rightarrow>
              (let t = choose_review_target (ob_sizes ob) cfg head in
               if tg_mode t = Defer then defer_tick cfg ob rp (tg_sha t) w
               else
                 (let w1 = reset_streak ob (defer_streak_file (rp_id rp)) w in
                  if tg_mode t = Advance then advance_without_review cfg ob rp (rv_reviewed r) t w1
                  else review_target cfg ob rp r (tg_sha t) w1)))"

definition process_repo ::
  "(pytext \<Rightarrow> pytext) \<Rightarrow> (injection_pattern \<Rightarrow> pytext \<Rightarrow> bool) \<Rightarrow> (pytext \<Rightarrow> string) \<Rightarrow> ctl_config \<Rightarrow> observed \<Rightarrow> repo
     \<Rightarrow> ctl_world \<Rightarrow> ctl_world" where
  "process_repo lower hit sha cfg ob rp w =
     (case advance_pass ob rp (arrive ob 0 w) of
        (w1, None) \<Rightarrow> w1
      | (w1, Some cur1) \<Rightarrow>
          (let (w2, cur2) = transient_pass cfg ob rp cur1 (arrive ob 1 w1) in
           case observe_head ob of
             None \<Rightarrow> w2
           | Some head \<Rightarrow> decide cfg ob rp head cur2 (index_repo_skills lower hit sha cfg ob rp w2)))"

section \<open>The tick\<close>

record tick_site =
  tk_json :: repos_json
  tk_resolve :: "string \<Rightarrow> string \<times> bool"
  tk_lock :: bool
  tk_migrate_ok :: bool
  tk_prune_ok :: bool
  tk_now :: time
  tk_obs :: "string \<Rightarrow> observed"

definition tick ::
  "(pytext \<Rightarrow> pytext) \<Rightarrow> (injection_pattern \<Rightarrow> pytext \<Rightarrow> bool) \<Rightarrow> (pytext \<Rightarrow> string) \<Rightarrow> ctl_config \<Rightarrow> tick_site
     \<Rightarrow> ctl_world \<Rightarrow> ctl_world option" where
  "tick lower hit sha cfg ts w =
     (case load_config (tk_resolve ts) (tk_json ts) of
        None \<Rightarrow> None
      | Some repos \<Rightarrow>
          Some (if repos = [] \<or> \<not> tk_lock ts then w
                else if \<not> dry_run cfg \<and> \<not> tk_migrate_ok ts then w
                else
                  (let w1 = foldl (\<lambda>u rp. process_repo lower hit sha cfg (tk_obs ts (rp_id rp)) rp u) (w\<lparr>cw_budget := 0\<rparr>) repos in
                   if dry_run cfg \<or> \<not> tk_prune_ok ts then w1
                   else w1\<lparr>cw_skills := fst (prune_skills (tk_now ts) (cw_skills w1))\<rparr>)))"

end
