(* ===== verification/Controller_Props.thy ===== *)
theory Controller_Props
  imports Controller
begin

text \<open>
  Properties of the review loop: a step is a sequence of cursor verbs; the cursor moves only past code
  that was reviewed, is empty, or was flagged to a human, and only onto a pinned commit; the budgets
  bound the dispatches of a tick; the skill table changes only under full branch protection and never
  from a tree that changed while protection was down.
\<close>

section \<open>Frames\<close>

lemma pin_cases:
  obtains (ok) w' where "pin ob r s w = (w', Out ())" "w' = w\<lparr>cw_pins := cw_pins w @ [(r, s)]\<rparr>"
  | (failed) "pin ob r s w = (w, Nonzero)"
  | (raised) "pin ob r s w = (w, Raised)"
  by (cases "ob_pin ob r s") (auto simp: pin_def)

lemma alert_frame [simp]:
  "cw_cursors (fst (alert_jefe ob a w)) = cw_cursors w" "cw_dispatched (fst (alert_jefe ob a w)) = cw_dispatched w"
  "cw_budget (fst (alert_jefe ob a w)) = cw_budget w" "cw_day (fst (alert_jefe ob a w)) = cw_day w"
  "cw_skills (fst (alert_jefe ob a w)) = cw_skills w" "cw_blocked (fst (alert_jefe ob a w)) = cw_blocked w"
  "cw_pins (fst (alert_jefe ob a w)) = cw_pins w" "cw_done (fst (alert_jefe ob a w)) = cw_done w"
  "cw_tree (fst (alert_jefe ob a w)) = cw_tree w" "cw_armed (fst (alert_jefe ob a w)) = cw_armed w"
  "cw_taint (fst (alert_jefe ob a w)) = cw_taint w"
  by (simp_all add: alert_jefe_def)

lemma alert_set [simp]: "set (cw_alerts (fst (alert_jefe ob a w))) = set (cw_alerts w) \<union> (if ob_alert_ok ob a then {a} else {})"
  by (simp add: alert_jefe_def)

lemma arrive_frame [simp]:
  "cw_cursors (arrive ob i w) = cw_cursors w" "cw_dispatched (arrive ob i w) = cw_dispatched w"
  "cw_budget (arrive ob i w) = cw_budget w" "cw_day (arrive ob i w) = cw_day w" "cw_skills (arrive ob i w) = cw_skills w"
  "cw_blocked (arrive ob i w) = cw_blocked w" "cw_pins (arrive ob i w) = cw_pins w" "cw_alerts (arrive ob i w) = cw_alerts w"
  "cw_tree (arrive ob i w) = cw_tree w" "cw_armed (arrive ob i w) = cw_armed w" "cw_taint (arrive ob i w) = cw_taint w"
  by (simp_all add: arrive_def)

lemma streak_frame [simp]:
  "cw_cursors (fst (bump_streak ob f w)) = cw_cursors w" "cw_dispatched (fst (bump_streak ob f w)) = cw_dispatched w"
  "cw_budget (fst (bump_streak ob f w)) = cw_budget w" "cw_day (fst (bump_streak ob f w)) = cw_day w"
  "cw_skills (fst (bump_streak ob f w)) = cw_skills w" "cw_blocked (fst (bump_streak ob f w)) = cw_blocked w"
  "cw_pins (fst (bump_streak ob f w)) = cw_pins w" "cw_alerts (fst (bump_streak ob f w)) = cw_alerts w"
  "cw_tree (fst (bump_streak ob f w)) = cw_tree w" "cw_armed (fst (bump_streak ob f w)) = cw_armed w"
  "cw_taint (fst (bump_streak ob f w)) = cw_taint w" "cw_done (fst (bump_streak ob f w)) = cw_done w"
  "cw_cursors (reset_streak ob f w) = cw_cursors w" "cw_dispatched (reset_streak ob f w) = cw_dispatched w"
  "cw_budget (reset_streak ob f w) = cw_budget w" "cw_day (reset_streak ob f w) = cw_day w"
  "cw_skills (reset_streak ob f w) = cw_skills w" "cw_blocked (reset_streak ob f w) = cw_blocked w"
  "cw_pins (reset_streak ob f w) = cw_pins w" "cw_alerts (reset_streak ob f w) = cw_alerts w"
  "cw_tree (reset_streak ob f w) = cw_tree w" "cw_armed (reset_streak ob f w) = cw_armed w"
  "cw_taint (reset_streak ob f w) = cw_taint w" "cw_done (reset_streak ob f w) = cw_done w"
  by (simp_all add: bump_streak_def reset_streak_def Let_def)

text \<open>The part of the state the review path works on, which the skill indexer leaves alone.\<close>

definition review_part :: "ctl_world \<Rightarrow> review_row list \<times> (string \<times> string \<times> string \<times> string) list \<times> nat \<times> (string \<Rightarrow> count_file)
    \<times> (string \<times> string) list \<times> string set" where
  "review_part w = (cw_cursors w, cw_dispatched w, cw_budget w, cw_day w, cw_pins w, cw_done w)"

definition skill_part :: "ctl_world \<Rightarrow> skill_row list \<times> string set \<times> (string \<rightharpoonup> string) \<times> (string \<rightharpoonup> string) \<times> bool" where
  "skill_part w = (cw_skills w, cw_blocked w, cw_tree w, cw_taint w, cw_armed w)"

lemma skill_frames:
  "review_part (block_repo_skills cfg ob rid w) = review_part w"
  "review_part (mark_taint cfg ob rid tree w) = review_part w"
  "review_part (unblock cfg ob rid w) = review_part w"
  "review_part (store_skills cfg ob rid tree found w) = review_part w"
  by (simp_all add: review_part_def block_repo_skills_def mark_taint_def unblock_def clear_taint_def store_skills_def Let_def split_beta)

lemma skill_alerts:
  "set (cw_alerts w) \<subseteq> set (cw_alerts (block_repo_skills cfg ob rid w))"
  "set (cw_alerts w) \<subseteq> set (cw_alerts (mark_taint cfg ob rid tree w))"
  "set (cw_alerts w) \<subseteq> set (cw_alerts (unblock cfg ob rid w))"
  "set (cw_alerts w) \<subseteq> set (cw_alerts (store_skills cfg ob rid tree found w))"
  by (auto simp: block_repo_skills_def mark_taint_def unblock_def clear_taint_def store_skills_def Let_def split_beta)

definition tree_of :: "observed \<Rightarrow> string" where
  "tree_of ob = (case ob_tree ob of Out t \<Rightarrow> t | _ \<Rightarrow> ''none'')"

definition last_tree :: "string \<Rightarrow> ctl_world \<Rightarrow> string" where
  "last_tree rid w = (case cw_tree w rid of None \<Rightarrow> '''' | Some t \<Rightarrow> t)"

lemma index_cases:
  obtains (block) "index_repo_skills lower hit sha cfg ob rp w = block_repo_skills cfg ob (rp_id rp) w"
  | (same) "index_repo_skills lower hit sha cfg ob rp w = w"
  | (taint) "index_repo_skills lower hit sha cfg ob rp w = mark_taint cfg ob (rp_id rp) (tree_of ob) w"
  | (clear) "index_repo_skills lower hit sha cfg ob rp w = unblock cfg ob (rp_id rp) w"
  | (store) ps found where "branch_protection_ok ob rp"
      "\<not> (rp_id rp \<in> cw_blocked w \<and> changed_while_blocked (tree_of ob) (last_tree (rp_id rp) w))"
      "listing ob (tree_of ob) = Some ps" "read_skills (skill_of_path lower hit sha ob) ps = Some found"
      "index_repo_skills lower hit sha cfg ob rp w
         = store_skills cfg ob (rp_id rp) (tree_of ob) found (unblock cfg ob (rp_id rp) w)"
proof -
  let ?i = "index_repo_skills lower hit sha cfg ob rp w" and ?rid = "rp_id rp" and ?t = "tree_of ob" and ?p = "last_tree (rp_id rp) w"
  let ?gate = "(case ob_nwo ob of None \<Rightarrow> True | Some n \<Rightarrow> CHR ''/'' \<notin> set n) \<or> \<not> branch_protection_ok ob rp"
  have gate: "?gate \<Longrightarrow> ?i = block_repo_skills cfg ob ?rid w"
    by (auto simp: index_repo_skills_def Let_def split: option.splits)
  have pass: "?i = (if ob_tree ob = Raised then w else if ?rid \<in> cw_blocked w \<and> changed_while_blocked ?t ?p then mark_taint cfg ob ?rid ?t w
      else if ?t = ?p \<and> ?p \<noteq> '''' then unblock cfg ob ?rid w
      else case listing ob ?t of None \<Rightarrow> unblock cfg ob ?rid w
        | Some ps \<Rightarrow> (case read_skills (skill_of_path lower hit sha ob) ps of None \<Rightarrow> unblock cfg ob ?rid w
                      | Some found \<Rightarrow> store_skills cfg ob ?rid ?t found (unblock cfg ob ?rid w)))" if "\<not> ?gate"
    using that unfolding index_repo_skills_def Let_def tree_of_def last_tree_def
    by (cases "ob_tree ob") (simp_all split del: if_split cong: if_cong option.case_cong)
  show thesis
  proof (cases ?gate)
    case True
    then show ?thesis using gate block by blast
  next
    case False
    note eq = pass [OF False]
    consider "ob_tree ob = Raised" | "?rid \<in> cw_blocked w \<and> changed_while_blocked ?t ?p" "ob_tree ob \<noteq> Raised"
      | "\<not> (?rid \<in> cw_blocked w \<and> changed_while_blocked ?t ?p)" "ob_tree ob \<noteq> Raised" by blast
    then show ?thesis
    proof cases
      case 1
      with eq same show ?thesis by simp
    next
      case 2
      with eq taint show ?thesis by simp
    next
      case 3
      show ?thesis
      proof (cases "?t = ?p \<and> ?p \<noteq> ''''")
        case True
        with 3 eq clear show ?thesis by (simp only: if_False if_True simp_thms)
      next
        case differs: False
        have eq': "?i = (case listing ob ?t of None \<Rightarrow> unblock cfg ob ?rid w
          | Some ps \<Rightarrow> (case read_skills (skill_of_path lower hit sha ob) ps of None \<Rightarrow> unblock cfg ob ?rid w
                      | Some found \<Rightarrow> store_skills cfg ob ?rid ?t found (unblock cfg ob ?rid w)))"
          using eq by (simp only: if_not_P [OF differs] if_not_P [OF 3(1)] if_not_P [OF 3(2)])
        show ?thesis
        proof (cases "listing ob ?t")
          case None
          with eq' clear show ?thesis by simp
        next
          case (Some ps)
          then show ?thesis
          proof (cases "read_skills (skill_of_path lower hit sha ob) ps")
            case None
            with eq' Some clear show ?thesis by simp
          next
            fix found assume r: "read_skills (skill_of_path lower hit sha ob) ps = Some found"
            show ?thesis by (rule store [OF _ 3(1) Some r]) (use False eq' Some r in simp_all)
          qed
        qed
      qed
    qed
  qed
qed

lemma index_review_part: "review_part (index_repo_skills lower hit sha cfg ob rp w) = review_part w"
  by (cases rule: index_cases [of lower hit sha cfg ob rp w]) (simp_all add: skill_frames)

lemma index_alerts: "set (cw_alerts w) \<subseteq> set (cw_alerts (index_repo_skills lower hit sha cfg ob rp w))"
proof (cases rule: index_cases [of lower hit sha cfg ob rp w])
  case (store ps found)
  have "set (cw_alerts w) \<subseteq> set (cw_alerts (unblock cfg ob (rp_id rp) w))" by (rule skill_alerts)
  also have "\<dots> \<subseteq> set (cw_alerts (store_skills cfg ob (rp_id rp) (tree_of ob) found (unblock cfg ob (rp_id rp) w)))" by (rule skill_alerts)
  finally show ?thesis by (simp add: store)
qed (simp_all add: skill_alerts)

section \<open>A step is a sequence of cursor verbs\<close>

definition grows :: "ctl_world \<Rightarrow> ctl_world \<Rightarrow> bool" where
  "grows w w' \<longleftrightarrow> set (cw_pins w) \<subseteq> set (cw_pins w') \<and> set (cw_alerts w) \<subseteq> set (cw_alerts w') \<and> cw_done w \<subseteq> cw_done w'"

definition moves :: "ctl_world \<Rightarrow> ctl_world \<Rightarrow> bool" where
  "moves w w' \<longleftrightarrow> reach cursor_step (cw_cursors w) (cw_cursors w') \<and> grows w w'"

lemma moves_same: "cw_cursors w' = cw_cursors w \<Longrightarrow> grows w w' \<Longrightarrow> moves w w'"
  by (simp add: moves_def reach_refl)

lemma moves_verb: "cursor_step (cw_cursors w) (cw_cursors w') \<Longrightarrow> grows w w' \<Longrightarrow> moves w w'"
  by (simp add: moves_def reach_step [OF reach_refl])

lemma moves_refl [simp]: "moves w w"
  by (simp add: moves_same grows_def)

lemma moves_arrive: "moves w (arrive ob i w)"
  by (rule moves_same) (auto simp: grows_def arrive_def)

lemma moves_trans: "moves u v \<Longrightarrow> moves v w \<Longrightarrow> moves u w"
proof -
  have "reach cursor_step S T \<Longrightarrow> reach cursor_step R S \<Longrightarrow> reach cursor_step R T" for R S T :: "review_row list"
    by (induction rule: reach.induct) (auto intro: reach.intros)
  then show "moves u v \<Longrightarrow> moves v w \<Longrightarrow> moves u w" by (auto simp: moves_def grows_def)
qed

lemma forgive_moves: "moves w (fst (try_forgive_transient cfg ob rp sha w))"
proof -
  obtain T won where f: "forgive_transient (rp_id rp) (rp_ref rp) sha (cw_cursors w) = (T, won)" by fastforce
  then have T: "T = fst (forgive_transient (rp_id rp) (rp_ref rp) sha (cw_cursors w))" by simp
  have g: "grows w (fst (try_forgive_transient cfg ob rp sha w))"
    by (auto simp: try_forgive_transient_def grows_def f Let_def split_beta split: option.split)
  have "cw_cursors (fst (try_forgive_transient cfg ob rp sha w)) \<in> {cw_cursors w, T}"
    by (simp add: try_forgive_transient_def f Let_def split_beta split: option.split)
  then show ?thesis
    using moves_verb [of w] cursor_step.intros(4) [of "cw_cursors w" "rp_id rp" "rp_ref rp" sha] g by (auto simp: T intro: moves_same)
qed

lemma advance_pass_moves: "moves w (fst (advance_pass ob rp w))"
proof (cases "pending_of (cursor_of rp w)")
  case None
  then show ?thesis by (simp add: advance_pass_def)
next
  case (Some ps)
  show ?thesis
  proof (cases "is_done rp ps w")
    case False
    with Some show ?thesis by (simp add: advance_pass_def)
  next
    case True
    show ?thesis
    proof (cases rule: pin_cases [of ob "ctl_reviewed_ref (rp_ref rp)" ps w])
      case (ok w1)
      with Some True have "cw_cursors (fst (advance_pass ob rp w)) = fst (advance_cursor (ob_now ob) (rp_id rp) (rp_ref rp) ps (cw_cursors w))"
        by (simp add: advance_pass_def Let_def split_beta)
      moreover have "grows w (fst (advance_pass ob rp w))"
        using ok Some True by (auto simp: advance_pass_def grows_def Let_def split_beta)
      ultimately show ?thesis by (intro moves_verb) (simp_all add: cursor_step.intros)
    qed (use Some True in \<open>simp_all add: advance_pass_def\<close>)
  qed
qed

lemma skip_past_moves: "moves w (skip_past ob rp sha w)"
proof (cases rule: pin_cases [of ob "ctl_reviewed_ref (rp_ref rp)" sha w])
  case (ok w')
  then show ?thesis by (intro moves_verb) (auto simp: skip_past_def grows_def cursor_step.intros)
qed (simp_all add: skip_past_def)

lemma seed_moves: "moves w (seed_baseline cfg ob rp head w)"
proof (cases "dry_run cfg")
  case False
  show ?thesis
  proof (cases rule: pin_cases [of ob "ctl_reviewed_ref (rp_ref rp)" head w])
    case (ok w')
    with False show ?thesis by (intro moves_verb) (auto simp: seed_baseline_def grows_def cursor_step.intros)
  qed (simp_all add: seed_baseline_def)
qed (simp add: seed_baseline_def)

lemma unreviewed_range: "advance_without_review cfg ob rp base t w
    \<in> {w, skip_past ob rp (tg_sha t) w, skip_past ob rp (tg_sha t) (fst (alert_jefe ob (Skip_Alert (rp_id rp) base (tg_sha t)) w))}"
  by (simp add: advance_without_review_def alert_jefe_def)

lemma release_moves: "moves w (release rp sha w)"
  by (rule moves_verb) (simp_all add: release_def grows_def cursor_step.intros)

text \<open>A dispatch does nothing, claims the cursor without sending, or claims, pins and sends.\<close>

definition claimed :: "ctl_config \<Rightarrow> observed \<Rightarrow> repo \<Rightarrow> string \<Rightarrow> ctl_world \<Rightarrow> review_row list \<times> bool" where
  "claimed cfg ob rp sha w = claim_dispatch (ob_now ob) (rp_id rp) (rp_ref rp) sha (ob_now ob - int (pending_stale cfg)) (cw_cursors w)"

lemma dispatch_cases:
  obtains (refused) "dispatch cfg ob rp base sha w = w"
  | (claim) w1 where "dispatch cfg ob rp base sha w \<in> {w1, release rp sha w1}"
      "w1 = w\<lparr>cw_cursors := fst (claimed cfg ob rp sha w), cw_pins := cw_pins w1\<rparr>" "set (cw_pins w) \<subseteq> set (cw_pins w1)"
  | (sent) w1 where "\<not> dry_run cfg" "cw_budget w < max_tick cfg" "day_count ob w < int (max_day cfg)" "snd (claimed cfg ob rp sha w)"
      "dispatch cfg ob rp base sha w
         = charge_day ob (w1\<lparr>cw_budget := cw_budget w1 + 1, cw_dispatched := cw_dispatched w1 @ [(rp_id rp, rp_ref rp, base, sha)]\<rparr>)"
      "w1 = w\<lparr>cw_cursors := fst (claimed cfg ob rp sha w), cw_pins := cw_pins w @ [(ctl_pending_ref (rp_ref rp), sha)]\<rparr>"
proof (cases "cw_budget w \<ge> max_tick cfg \<or> dry_run cfg \<or> day_count ob w \<ge> int (max_day cfg)")
  case True
  then have "dispatch cfg ob rp base sha w = w" by (auto simp: dispatch_def)
  then show thesis by (rule refused)
next
  case False
  let ?w = "w\<lparr>cw_cursors := fst (claimed cfg ob rp sha w)\<rparr>"
  have d: "dispatch cfg ob rp base sha w = (if \<not> snd (claimed cfg ob rp sha w) then ?w
      else case pin ob (ctl_pending_ref (rp_ref rp)) sha ?w of (w2, Raised) \<Rightarrow> w2 | (w2, Nonzero) \<Rightarrow> release rp sha w2
        | (w2, Out _) \<Rightarrow> (case trigger_review cfg ob of None \<Rightarrow> w2
             | Some True \<Rightarrow> charge_day ob (w2\<lparr>cw_budget := cw_budget w2 + 1, cw_dispatched := cw_dispatched w2 @ [(rp_id rp, rp_ref rp, base, sha)]\<rparr>)
             | Some False \<Rightarrow> release rp sha w2))"
    using False by (simp add: dispatch_def claimed_def split_beta Let_def)
  have here: thesis if "dispatch cfg ob rp base sha w \<in> {?w, release rp sha ?w}" by (rule claim [OF that]) simp_all
  show thesis
  proof (cases "snd (claimed cfg ob rp sha w)")
    case lost: False
    with d show ?thesis by (intro here) simp
  next
    case won: True
    show ?thesis
    proof (cases rule: pin_cases [of ob "ctl_pending_ref (rp_ref rp)" sha ?w])
      case (ok w2)
      have w2: "w2 = w\<lparr>cw_cursors := fst (claimed cfg ob rp sha w), cw_pins := cw_pins w @ [(ctl_pending_ref (rp_ref rp), sha)]\<rparr>"
        by (simp add: ok)
      show ?thesis
      proof (cases "trigger_review cfg ob = Some True")
        case True
        with d ok won have "dispatch cfg ob rp base sha w
          = charge_day ob (w2\<lparr>cw_budget := cw_budget w2 + 1, cw_dispatched := cw_dispatched w2 @ [(rp_id rp, rp_ref rp, base, sha)]\<rparr>)"
          by simp
        with False won show ?thesis by (intro sent [OF _ _ _ _ _ w2]) auto
      next
        case False
        with d ok won have "dispatch cfg ob rp base sha w \<in> {w2, release rp sha w2}"
          by (simp split: option.splits bool.splits)
        then show ?thesis by (rule claim) (auto simp: w2)
      qed
    qed (use d won in \<open>(intro here, simp)+\<close>)
  qed
qed

lemma dispatch_moves: "moves w (dispatch cfg ob rp base sha w)"
proof (cases rule: dispatch_cases [of cfg ob rp base sha w])
  case refused
  then show ?thesis by simp
next
  case (claim w1)
  have "cw_cursors w1 = fst (claimed cfg ob rp sha w)" "cw_alerts w1 = cw_alerts w" "cw_done w1 = cw_done w"
    by (subst claim(2), simp)+
  then have "moves w w1" by (intro moves_verb) (simp_all add: claim(3) claimed_def grows_def cursor_step.intros)
  with claim(1) moves_trans [OF this release_moves] show ?thesis by auto
next
  case (sent w1)
  show ?thesis
    by (rule moves_verb) (auto simp: sent(5,6) charge_day_def claimed_def grows_def intro: cursor_step.intros)
qed

lemma review_target_moves: "moves w (review_target cfg ob rp cur sha w)"
proof (cases "at_ceiling cfg cur sha")
  case False
  then show ?thesis by (simp add: review_target_def dispatch_moves)
next
  case True
  obtain w1 won where f: "try_forgive_transient cfg ob rp sha (arrive ob 2 w) = (w1, won)" by fastforce
  have m: "moves w w1" using moves_trans [OF moves_arrive forgive_moves [of "arrive ob 2 w" cfg ob rp sha]] f by simp
  show ?thesis
  proof (cases won)
    case True
    with f \<open>at_ceiling cfg cur sha\<close> show ?thesis using moves_trans [OF m dispatch_moves] by (simp add: review_target_def)
  next
    case False
    have "moves w1 (review_target cfg ob rp cur sha w)"
      by (rule moves_verb) (use f False True in \<open>auto simp: review_target_def grows_def Let_def split_beta intro: cursor_step.intros\<close>)
    then show ?thesis by (rule moves_trans [OF m])
  qed
qed

lemma decide_moves: "moves w (decide cfg ob rp head cur w)"
proof -
  have r: "moves w (reset_streak ob f w)" for f by (rule moves_same) (simp_all add: grows_def)
  have "moves w (defer_tick cfg ob rp sha w)" for sha by (rule moves_same) (auto simp: defer_tick_def grows_def Let_def split_beta)
  moreover have "moves w (advance_without_review cfg ob rp base t (reset_streak ob f w))" for base t f
  proof -
    let ?w = "reset_streak ob f w" and ?a = "Skip_Alert (rp_id rp) base (tg_sha t)"
    have "moves ?w (skip_past ob rp (tg_sha t) (fst (alert_jefe ob ?a ?w)))"
      by (rule moves_trans [OF moves_same skip_past_moves]) (auto simp: grows_def)
    then have "moves ?w (advance_without_review cfg ob rp base t ?w)"
      using unreviewed_range [of cfg ob rp base t ?w] skip_past_moves moves_refl by fastforce
    then show ?thesis by (rule moves_trans [OF r])
  qed
  moreover have "moves w (review_target cfg ob rp c sha (reset_streak ob f w))" for c sha f
    by (rule moves_trans [OF r review_target_moves])
  ultimately show ?thesis
    using seed_moves skip_past_moves by (auto simp: decide_def Let_def split: option.split git_out.split)
qed

lemma transient_pass_moves: "moves w (fst (transient_pass cfg ob rp cur w))"
  by (auto simp: transient_pass_def split_beta Let_def intro: forgive_moves split: option.split)

lemma index_moves: "moves w (index_repo_skills lower hit sha cfg ob rp w)"
  using index_review_part [of lower hit sha cfg ob rp w] index_alerts [of w lower hit sha cfg ob rp]
  by (intro moves_same) (simp_all add: review_part_def grows_def)

lemma advance_pass_cursor: "advance_pass ob rp w = (w1, Some cur) \<Longrightarrow> cur = cursor_of rp w1"
  by (auto simp: advance_pass_def Let_def split_beta split: option.splits if_splits prod.splits git_out.splits)

lemma process_cases:
  obtains (stopped) "process_repo lower hit sha cfg ob rp w = fst (advance_pass ob rp (arrive ob 0 w))"
  | (idle) w1 w2 cur where "advance_pass ob rp (arrive ob 0 w) = (w1, Some (cursor_of rp w1))"
      "transient_pass cfg ob rp (cursor_of rp w1) (arrive ob 1 w1) = (w2, cur)" "process_repo lower hit sha cfg ob rp w = w2"
  | (head) w1 w2 cur h where "advance_pass ob rp (arrive ob 0 w) = (w1, Some (cursor_of rp w1))"
      "transient_pass cfg ob rp (cursor_of rp w1) (arrive ob 1 w1) = (w2, cur)" "observe_head ob = Some h"
      "process_repo lower hit sha cfg ob rp w = decide cfg ob rp h cur (index_repo_skills lower hit sha cfg ob rp w2)"
proof -
  obtain w1 c where a: "advance_pass ob rp (arrive ob 0 w) = (w1, c)" by fastforce
  show thesis
  proof (cases c)
    case None
    with a stopped show ?thesis by (simp add: process_repo_def)
  next
    case (Some cur1)
    have c: "cur1 = cursor_of rp w1" by (rule advance_pass_cursor [OF a [unfolded Some]])
    obtain w2 cur where t: "transient_pass cfg ob rp (cursor_of rp w1) (arrive ob 1 w1) = (w2, cur)" by fastforce
    show ?thesis
    proof (cases "observe_head ob")
      case None
      with a Some c t show ?thesis by (intro idle [of w1 w2 cur]) (simp_all add: process_repo_def)
    next
      fix h assume "observe_head ob = Some h"
      with a Some c t show ?thesis by (intro head [of w1 w2 cur h]) (simp_all add: process_repo_def)
    qed
  qed
qed

lemma process_repo_moves: "moves w (process_repo lower hit sha cfg ob rp w)"
proof -
  have a: "moves w (fst (advance_pass ob rp (arrive ob 0 w)))" by (rule moves_trans [OF moves_arrive advance_pass_moves])
  have t: "moves w1 (fst (transient_pass cfg ob rp cur (arrive ob 1 w1)))" for w1 cur
    by (rule moves_trans [OF moves_arrive transient_pass_moves])
  show ?thesis
  proof (cases rule: process_cases [of lower hit sha cfg ob rp w])
    case stopped
    with a show ?thesis by simp
  next
    case (idle w1 w2 cur)
    with a t [of w1 "cursor_of rp w1"] show ?thesis by (auto intro: moves_trans)
  next
    case (head w1 w2 cur h)
    with a t [of w1 "cursor_of rp w1"] have "moves w w2" by (auto intro: moves_trans)
    from moves_trans [OF moves_trans [OF this index_moves] decide_moves] head(4) show ?thesis by metis
  qed
qed

section \<open>Where the reviewed commit goes\<close>

definition reviewed_at :: "repo \<Rightarrow> ctl_world \<Rightarrow> string option" where
  "reviewed_at rp w = map_option rv_reviewed (cursor_of rp w)"

lemma cursor_upd:
  assumes "\<And>r. rv_key (f r) = rv_key r" "cw_cursors w' = fst (cas P f (cw_cursors w))"
  shows "cursor_of rp w' = map_option (\<lambda>r. if P r then f r else r) (cursor_of rp w)"
  unfolding cursor_of_def get_cursor_def assms(2) cas_fst by (rule get_row_upd_where) (rule assms(1))

lemma cursor_key: "cursor_of rp w = Some r \<Longrightarrow> rv_key r = (rp_id rp, rp_ref rp)"
  by (auto simp: cursor_of_def get_cursor_def dest: get_row_Some)

lemma cursor_same: "cw_cursors w' = cw_cursors w \<Longrightarrow> cursor_of rp w' = cursor_of rp w"
  by (simp add: cursor_of_def)

lemma reviewed_upd:
  assumes "\<And>r. rv_key (f r) = rv_key r" "\<And>r. rv_reviewed (f r) = rv_reviewed r" "cw_cursors w' = fst (cas P f (cw_cursors w))"
  shows "reviewed_at rp w' = reviewed_at rp w"
proof -
  have "rv_reviewed (if P r then f r else r) = rv_reviewed r" for r by (simp add: assms(2))
  with cursor_upd [OF assms(1,3)] show ?thesis by (simp add: reviewed_at_def option.map_comp o_def)
qed

lemma reviewed_kept:
  "cw_cursors w' = fst (claim_dispatch now rid ref h sb (cw_cursors w)) \<Longrightarrow> reviewed_at rp w' = reviewed_at rp w"
  "cw_cursors w' = fst (release_dispatch rid ref h (cw_cursors w)) \<Longrightarrow> reviewed_at rp w' = reviewed_at rp w"
  "cw_cursors w' = fst (forgive_transient rid ref h (cw_cursors w)) \<Longrightarrow> reviewed_at rp w' = reviewed_at rp w"
  "cw_cursors w' = fst (mark_blocked now rid ref h n (cw_cursors w)) \<Longrightarrow> reviewed_at rp w' = reviewed_at rp w"
  unfolding cursor_verbs by (erule reviewed_upd [rotated 2]; simp add: rv_key_def)+

lemma reviewed_same: "cw_cursors w' = cw_cursors w \<Longrightarrow> reviewed_at rp w' = reviewed_at rp w"
  by (simp add: reviewed_at_def cursor_of_def)

lemma reviewed_skip:
  assumes "cw_cursors w' = fst (skip_to now (rp_id rp) (rp_ref rp) h (cw_cursors w))"
  shows "reviewed_at rp w' = map_option (\<lambda>_. h) (reviewed_at rp w)"
  unfolding reviewed_at_def using assms [unfolded skip_to_def]
  by (subst cursor_upd [of _ w' _ w]; cases "cursor_of rp w") (auto simp: rv_key_def dest: cursor_key)

lemma reviewed_advance:
  assumes "cw_cursors w' = fst (advance_cursor now (rp_id rp) (rp_ref rp) h (cw_cursors w))"
  shows "reviewed_at rp w' = (if pending_of (cursor_of rp w) = Some h then Some h else reviewed_at rp w)"
  unfolding reviewed_at_def using assms [unfolded advance_cursor_def]
  by (subst cursor_upd [of _ w' _ w]) (auto simp: rv_key_def pending_of_def dest: cursor_key split: option.splits)

lemma forgive_reviewed: "reviewed_at rp' (fst (try_forgive_transient cfg ob rp sha w)) = reviewed_at rp' w"
proof -
  obtain T won where f: "forgive_transient (rp_id rp) (rp_ref rp) sha (cw_cursors w) = (T, won)" by fastforce
  have "cw_cursors (fst (try_forgive_transient cfg ob rp sha w)) \<in> {cw_cursors w, T}"
    by (simp add: try_forgive_transient_def f Let_def split_beta split: option.split)
  then show ?thesis using f reviewed_kept(3) reviewed_same by (metis empty_iff fst_conv insertE)
qed

lemma dispatch_reviewed: "reviewed_at rp' (dispatch cfg ob rp base sha w) = reviewed_at rp' w"
proof (cases rule: dispatch_cases [of cfg ob rp base sha w])
  case refused
  then show ?thesis by simp
next
  case (claim w1)
  have "cw_cursors w1 = fst (claimed cfg ob rp sha w)" by (subst claim(2)) simp
  then have "reviewed_at rp' w1 = reviewed_at rp' w" unfolding claimed_def by (rule reviewed_kept)
  moreover have "reviewed_at rp' (release rp sha w1) = reviewed_at rp' w1" by (rule reviewed_kept(2)) (simp add: release_def)
  ultimately show ?thesis using claim(1) by auto
next
  case (sent w1)
  show ?thesis by (rule reviewed_kept(1)) (simp add: sent(5,6) charge_day_def claimed_def)
qed

lemma review_target_reviewed: "reviewed_at rp' (review_target cfg ob rp cur sha w) = reviewed_at rp' w"
proof (cases "at_ceiling cfg cur sha")
  case False
  then show ?thesis by (simp add: review_target_def dispatch_reviewed)
next
  case True
  obtain w1 won where f: "try_forgive_transient cfg ob rp sha (arrive ob 2 w) = (w1, won)" by fastforce
  have w1: "reviewed_at rp' w1 = reviewed_at rp' w"
    using forgive_reviewed [of rp' cfg ob rp sha "arrive ob 2 w"] f by (simp add: reviewed_same [of "arrive ob 2 w" w])
  show ?thesis
  proof (cases won)
    case True
    with f \<open>at_ceiling cfg cur sha\<close> w1 show ?thesis by (simp add: review_target_def dispatch_reviewed)
  next
    case False
    have "reviewed_at rp' (review_target cfg ob rp cur sha w) = reviewed_at rp' w1"
      by (rule reviewed_kept(4)) (use f False True in \<open>auto simp: review_target_def Let_def split_beta\<close>)
    with w1 show ?thesis by simp
  qed
qed

text \<open>What may move the reviewed commit to \<open>c\<close>: a completed review, an empty range, or a target that is not reviewed.\<close>

definition unreviewed_ok :: "ctl_config \<Rightarrow> observed \<Rightarrow> repo \<Rightarrow> string \<Rightarrow> string \<Rightarrow> ctl_world \<Rightarrow> bool" where
  "unreviewed_ok cfg ob rp head c w \<longleftrightarrow>
     ob_quiet ob = Out () \<and> c = head
     \<or> ob_quiet ob = Nonzero \<and> tg_mode (choose_review_target (ob_sizes ob) cfg head) = Advance
       \<and> c = tg_sha (choose_review_target (ob_sizes ob) cfg head)
       \<and> (oversized cfg (choose_review_target (ob_sizes ob) cfg head) \<longrightarrow> (\<exists>base. Skip_Alert (rp_id rp) base c \<in> set (cw_alerts w)))"

lemma skip_past_effect:
  assumes "reviewed_at rp (skip_past ob rp h w) = Some c" "reviewed_at rp w \<noteq> Some c"
  shows "c = h \<and> (ctl_reviewed_ref (rp_ref rp), c) \<in> set (cw_pins (skip_past ob rp h w)) \<and> cw_alerts (skip_past ob rp h w) = cw_alerts w"
proof (cases rule: pin_cases [of ob "ctl_reviewed_ref (rp_ref rp)" h w])
  case (ok w')
  let ?s = "w'\<lparr>cw_cursors := fst (skip_to (ob_now ob) (rp_id rp) (rp_ref rp) h (cw_cursors w'))\<rparr>"
  have "reviewed_at rp ?s = map_option (\<lambda>_. h) (reviewed_at rp w)" by (rule reviewed_skip [of _ "ob_now ob"]) (simp add: ok)
  with ok assms(1) have "map_option (\<lambda>_. h) (reviewed_at rp w) = Some c" by (simp add: skip_past_def)
  then have "c = h" by (cases "reviewed_at rp w") simp_all
  with ok show ?thesis by (simp add: skip_past_def)
qed (use assms in \<open>simp_all add: skip_past_def\<close>)

lemma unreviewed_effect:
  assumes "reviewed_at rp (advance_without_review cfg ob rp base t w) = Some c" "reviewed_at rp w \<noteq> Some c"
  shows "(ctl_reviewed_ref (rp_ref rp), c) \<in> set (cw_pins (advance_without_review cfg ob rp base t w)) \<and> c = tg_sha t
    \<and> (oversized cfg t \<longrightarrow> Skip_Alert (rp_id rp) base c \<in> set (cw_alerts (advance_without_review cfg ob rp base t w)))"
proof -
  let ?a = "Skip_Alert (rp_id rp) base (tg_sha t)"
  have r: "reviewed_at rp (fst (alert_jefe ob ?a w)) = reviewed_at rp w" by (rule reviewed_same) simp
  have "advance_without_review cfg ob rp base t w \<noteq> w" using assms by auto
  then have "\<not> dry_run cfg" by (auto simp: advance_without_review_def)
  show ?thesis
  proof (cases "oversized cfg t")
    case False
    with \<open>\<not> dry_run cfg\<close> have "advance_without_review cfg ob rp base t w = skip_past ob rp (tg_sha t) w"
      by (simp add: advance_without_review_def)
    with skip_past_effect [of rp ob "tg_sha t" w c] assms False show ?thesis by metis
  next
    case True
    have "advance_without_review cfg ob rp base t w = w" if "\<not> ob_alert_ok ob ?a"
      using that True by (simp add: advance_without_review_def alert_jefe_def)
    then have ok: "ob_alert_ok ob ?a" using assms by metis
    then have eq: "advance_without_review cfg ob rp base t w = skip_past ob rp (tg_sha t) (fst (alert_jefe ob ?a w))"
      using True \<open>\<not> dry_run cfg\<close> by (simp add: advance_without_review_def alert_jefe_def)
    from skip_past_effect [OF assms(1) [unfolded eq]] assms(2) r ok show ?thesis unfolding eq by auto
  qed
qed

lemma decide_effect:
  assumes "reviewed_at rp (decide cfg ob rp head cur w) = Some c" "reviewed_at rp w \<noteq> Some c"
  shows "(ctl_reviewed_ref (rp_ref rp), c) \<in> set (cw_pins (decide cfg ob rp head cur w))
    \<and> (cur = None \<and> c = head \<or> unreviewed_ok cfg ob rp head c (decide cfg ob rp head cur w))"
proof (cases cur)
  case None
  have ne: "\<not> dry_run cfg" using assms None by (auto simp: decide_def seed_baseline_def)
  show ?thesis
  proof (cases rule: pin_cases [of ob "ctl_reviewed_ref (rp_ref rp)" head w])
    case (ok w')
    let ?s = "w'\<lparr>cw_cursors := fst (upsert_baseline (ob_now ob) (rp_id rp) (rp_ref rp) head (cw_cursors w'))\<rparr>"
    have d: "decide cfg ob rp head cur w = ?s" using None ok ne by (simp add: decide_def seed_baseline_def)
    have "reviewed_at rp ?s = (if reviewed_at rp w = None then Some head else reviewed_at rp w)"
      by (cases "get_row rv_key (rp_id rp, rp_ref rp) (cw_cursors w)")
        (simp_all add: ok reviewed_at_def cursor_of_def upsert_baseline_def get_cursor_def get_row_append, simp add: get_row_def rv_key_def)
    with assms d have "c = head" by (auto split: if_splits)
    with d ok None show ?thesis by simp
  qed (use assms ne None in \<open>auto simp: decide_def seed_baseline_def\<close>)
next
  case (Some r)
  let ?w = "reset_streak ob (defer_streak_file (rp_id rp)) w" and ?t = "choose_review_target (ob_sizes ob) cfg head"
  have rs: "reviewed_at rp ?w = reviewed_at rp w" by (rule reviewed_same) simp
  have df: "reviewed_at rp (defer_tick cfg ob rp sha w) = reviewed_at rp w" for sha
    by (rule reviewed_same) (simp add: defer_tick_def Let_def split_beta)
  have ne: "decide cfg ob rp head cur w \<noteq> w" using assms by auto
  have "head = rv_reviewed r \<Longrightarrow> decide cfg ob rp head cur w = w" using Some by (simp add: decide_def)
  moreover have "ob_has ob head \<noteq> Out () \<or> ob_has ob (rv_reviewed r) \<noteq> Out () \<Longrightarrow> decide cfg ob rp head cur w = w"
    using Some by (simp add: decide_def)
  ultimately have go: "head \<noteq> rv_reviewed r" "\<not> (ob_has ob head \<noteq> Out () \<or> ob_has ob (rv_reviewed r) \<noteq> Out ())"
    using ne by blast+
  consider (raised) "ob_quiet ob = Raised" | (quiet) "ob_quiet ob = Out ()" | (diff) "ob_quiet ob = Nonzero"
    by (cases "ob_quiet ob") auto
  then show ?thesis
  proof cases
    case raised
    with ne Some go show ?thesis by (simp add: decide_def)
  next
    case quiet
    have d: "decide cfg ob rp head cur w = skip_past ob rp head w"
      using ne Some go quiet by (auto simp: decide_def split: if_splits)
    from skip_past_effect [OF assms(1) [unfolded d] assms(2)] quiet show ?thesis unfolding d unreviewed_ok_def by blast
  next
    case diff
    have d: "decide cfg ob rp head cur w = (if tg_mode ?t = Defer then defer_tick cfg ob rp (tg_sha ?t) w
        else if tg_mode ?t = Advance then advance_without_review cfg ob rp (rv_reviewed r) ?t ?w
        else review_target cfg ob rp r (tg_sha ?t) ?w)"
      using Some go diff by (simp add: decide_def Let_def)
    with assms rs df review_target_reviewed [of rp cfg ob rp r "tg_sha ?t" ?w] have m: "tg_mode ?t = Advance"
      by (cases "tg_mode ?t") auto
    with d have d: "decide cfg ob rp head cur w = advance_without_review cfg ob rp (rv_reviewed r) ?t ?w" by simp
    from unreviewed_effect [OF assms(1) [unfolded d]] assms(2) rs d m diff show ?thesis by (auto simp: unreviewed_ok_def)
  qed
qed

lemma advance_pass_effect:
  "reviewed_at rp (fst (advance_pass ob rp w)) = reviewed_at rp w
   \<or> (\<exists>ps. pending_of (cursor_of rp w) = Some ps \<and> is_done rp ps w
        \<and> reviewed_at rp (fst (advance_pass ob rp w)) = Some ps \<and> (ctl_reviewed_ref (rp_ref rp), ps) \<in> set (cw_pins (fst (advance_pass ob rp w))))"
proof (cases "pending_of (cursor_of rp w)")
  case None
  then show ?thesis by (simp add: advance_pass_def)
next
  case (Some ps)
  show ?thesis
  proof (cases "is_done rp ps w")
    case False
    with Some show ?thesis by (simp add: advance_pass_def)
  next
    case True
    show ?thesis
    proof (cases rule: pin_cases [of ob "ctl_reviewed_ref (rp_ref rp)" ps w])
      case (ok w1)
      have "cw_cursors (fst (advance_pass ob rp w)) = fst (advance_cursor (ob_now ob) (rp_id rp) (rp_ref rp) ps (cw_cursors w))"
        using ok Some True by (simp add: advance_pass_def Let_def split_beta)
      then have "reviewed_at rp (fst (advance_pass ob rp w)) = Some ps" by (simp add: reviewed_advance Some)
      moreover have "cw_pins (fst (advance_pass ob rp w)) = cw_pins w @ [(ctl_reviewed_ref (rp_ref rp), ps)]"
        using ok Some True by (simp add: advance_pass_def Let_def split_beta)
      ultimately show ?thesis using Some True by simp
    qed (use Some True in \<open>simp_all add: advance_pass_def\<close>)
  qed
qed

lemma no_pending_pass: "pending_of (cursor_of rp w) = None \<Longrightarrow> advance_pass ob rp w = (w, Some (cursor_of rp w))"
  by (simp add: advance_pass_def)

lemma transient_pass_effect:
  assumes "transient_pass cfg ob rp cur w = (w', cur')" "cur = cursor_of rp w"
  shows "reviewed_at rp w' = reviewed_at rp w" "map_option rv_reviewed cur' = reviewed_at rp w'" "cur = None \<Longrightarrow> w' = w \<and> cur' = None"
proof -
  show r: "reviewed_at rp w' = reviewed_at rp w"
    using assms(1) forgive_reviewed [of rp cfg ob rp _ w]
    by (auto simp: transient_pass_def split_beta Let_def split: option.splits if_splits)
  show "map_option rv_reviewed cur' = reviewed_at rp w'"
    using assms r by (auto simp: transient_pass_def reviewed_at_def split_beta Let_def split: option.splits if_splits)
  show "cur = None \<Longrightarrow> w' = w \<and> cur' = None" using assms(1) by (simp add: transient_pass_def pending_of_def)
qed

section \<open>Dispatches and budgets\<close>

definition spend :: "ctl_world \<Rightarrow> (string \<times> string \<times> string \<times> string) list \<times> nat \<times> (string \<Rightarrow> count_file)" where
  "spend w = (cw_dispatched w, cw_budget w, cw_day w)"

lemma pin_spend: "spend (fst (pin ob r s w)) = spend w"
  by (cases rule: pin_cases [of ob r s w]) (simp_all add: spend_def)

lemma spend_frames:
  "spend (arrive ob i w) = spend w" "spend (fst (try_forgive_transient cfg ob rp c w)) = spend w"
  "spend (index_repo_skills lower hit sha cfg ob rp w) = spend w" "spend (reset_streak ob f w) = spend w"
  "spend (defer_tick cfg ob rp c w) = spend w" "spend (release rp c w) = spend w"
  "spend (w\<lparr>cw_cursors := T\<rparr>) = spend w" "spend (fst (alert_jefe ob a w)) = spend w"
proof -
  show "spend (index_repo_skills lower hit sha cfg ob rp w) = spend w"
    using index_review_part [of lower hit sha cfg ob rp w] by (simp add: spend_def review_part_def)
qed (simp_all add: spend_def try_forgive_transient_def defer_tick_def release_def Let_def split_beta split: option.split)

lemma skip_spend: "spend (skip_past ob rp c w) = spend w"
  by (cases rule: pin_cases [of ob "ctl_reviewed_ref (rp_ref rp)" c w]) (simp_all add: skip_past_def spend_def)

lemma seed_spend: "spend (seed_baseline cfg ob rp c w) = spend w"
  by (cases rule: pin_cases [of ob "ctl_reviewed_ref (rp_ref rp)" c w]) (simp_all add: seed_baseline_def spend_def)

lemma unreviewed_spend: "spend (advance_without_review cfg ob rp base t w) = spend w"
  using unreviewed_range [of cfg ob rp base t w] skip_spend spend_frames(8) by auto

lemma advance_pass_spend: "spend (fst (advance_pass ob rp w)) = spend w"
proof -
  have "spend (fst (advance_pass ob rp w)) = spend w" if "pending_of (cursor_of rp w) = Some ps" for ps
    using that by (cases rule: pin_cases [of ob "ctl_reviewed_ref (rp_ref rp)" ps w])
      (simp_all add: advance_pass_def spend_def Let_def split_beta)
  then show ?thesis by (cases "pending_of (cursor_of rp w)") (simp_all add: advance_pass_def)
qed

lemma transient_pass_spend: "spend (fst (transient_pass cfg ob rp cur w)) = spend w"
  by (simp add: transient_pass_def spend_frames split_beta Let_def split: option.split)

text \<open>One dispatch: the entry that is sent, what it costs and what it needed.\<close>

definition sent_one :: "ctl_config \<Rightarrow> observed \<Rightarrow> repo \<Rightarrow> string \<Rightarrow> string \<Rightarrow> ctl_world \<Rightarrow> ctl_world \<Rightarrow> bool" where
  "sent_one cfg ob rp base c w w' \<longleftrightarrow>
     \<not> dry_run cfg \<and> cw_budget w < max_tick cfg \<and> day_count ob w < int (max_day cfg)
     \<and> spend w' = (cw_dispatched w @ [(rp_id rp, rp_ref rp, base, c)], Suc (cw_budget w),
                   cw_day (charge_day ob w))
     \<and> (ctl_pending_ref (rp_ref rp), c) \<in> set (cw_pins w')
     \<and> (cursor_ok (cw_cursors w) \<longrightarrow> pending_of (cursor_of rp w') = Some c)"

lemma claim_pending:
  assumes "cursor_ok T" "claim_dispatch now rid ref h sb T = (T', True)"
  shows "\<exists>r. get_cursor rid ref T' = Some r \<and> rv_pending r = Some h"
  by (rule cursor_won [OF assms(1) assms(2) [unfolded claim_dispatch_def]]) (auto simp: rv_key_def get_cursor_def)

lemma dispatch_sent: "spend (dispatch cfg ob rp base c w) = spend w \<or> sent_one cfg ob rp base c w (dispatch cfg ob rp base c w)"
proof (cases rule: dispatch_cases [of cfg ob rp base c w])
  case refused
  then show ?thesis by simp
next
  case (claim w1)
  have "spend w1 = spend w" by (subst claim(2)) (simp add: spend_def)
  with claim(1) spend_frames(6) show ?thesis by auto
next
  case (sent w1)
  have "pending_of (cursor_of rp (dispatch cfg ob rp base c w)) = Some c" if ok: "cursor_ok (cw_cursors w)"
  proof -
    have "claimed cfg ob rp c w = (fst (claimed cfg ob rp c w), True)" using sent(4) by (simp add: prod_eq_iff)
    then obtain r where "get_cursor (rp_id rp) (rp_ref rp) (fst (claimed cfg ob rp c w)) = Some r" "rv_pending r = Some c"
      using claim_pending [OF ok] unfolding claimed_def by blast
    then show ?thesis by (simp add: sent(5,6) charge_day_def cursor_of_def pending_of_def)
  qed
  then show ?thesis using sent(1,2,3) by (auto simp: sent(5,6) sent_one_def charge_day_def spend_def)
qed

lemma sent_one_frame:
  assumes "sent_one cfg ob rp base c w1 w'" "spend w1 = spend w" "cursor_ok (cw_cursors w) \<Longrightarrow> cursor_ok (cw_cursors w1)"
  shows "sent_one cfg ob rp base c w w'"
  using assms by (auto simp: sent_one_def spend_def day_count_def charge_day_def)

lemma moves_ok: "moves w w' \<Longrightarrow> cursor_ok (cw_cursors w) \<Longrightarrow> cursor_ok (cw_cursors w')"
  by (auto simp: moves_def intro: cursor.reach_inv)

lemma review_target_sent:
  "spend (review_target cfg ob rp cur c w) = spend w
   \<or> sent_one cfg ob rp (rv_reviewed cur) c w (review_target cfg ob rp cur c w)"
proof (cases "at_ceiling cfg cur c")
  case False
  then show ?thesis using dispatch_sent by (simp add: review_target_def)
next
  case True
  obtain w1 won where f: "try_forgive_transient cfg ob rp c (arrive ob 2 w) = (w1, won)" by fastforce
  have s: "spend w1 = spend w" using spend_frames(1,2) f by (metis fst_conv)
  have m: "moves w w1" using moves_trans [OF moves_arrive forgive_moves] f by (metis fst_conv)
  show ?thesis
  proof (cases won)
    case False
    then have "spend (review_target cfg ob rp cur c w) = spend w1"
      using True f by (simp add: review_target_def split_beta Let_def spend_frames)
    with s show ?thesis by simp
  next
    case w: True
    then have "review_target cfg ob rp cur c w = dispatch cfg ob rp (rv_reviewed cur) c w1"
      using True f by (simp add: review_target_def)
    with dispatch_sent [of cfg ob rp "rv_reviewed cur" c w1] show ?thesis
      using sent_one_frame [OF _ s moves_ok [OF m]] s by auto
  qed
qed

lemma decide_sent:
  "spend (decide cfg ob rp head cur w) = spend w
   \<or> (\<exists>r. cur = Some r \<and> tg_mode (choose_review_target (ob_sizes ob) cfg head) = Dispatch
        \<and> sent_one cfg ob rp (rv_reviewed r) (tg_sha (choose_review_target (ob_sizes ob) cfg head)) w (decide cfg ob rp head cur w))"
proof (cases cur)
  case None
  then show ?thesis by (simp add: decide_def seed_spend)
next
  case (Some r)
  let ?t = "choose_review_target (ob_sizes ob) cfg head" and ?w = "reset_streak ob (defer_streak_file (rp_id rp)) w"
  have d: "decide cfg ob rp head cur w \<in> {w, skip_past ob rp head w, defer_tick cfg ob rp (tg_sha ?t) w,
        advance_without_review cfg ob rp (rv_reviewed r) ?t ?w}
      \<or> tg_mode ?t = Dispatch \<and> decide cfg ob rp head cur w = review_target cfg ob rp r (tg_sha ?t) ?w"
    unfolding decide_def Some
    by (cases "tg_mode ?t"; cases "ob_quiet ob") (simp_all add: Let_def)
  have s: "spend ?w = spend w" by (rule spend_frames)
  have "spend (review_target cfg ob rp r c ?w) = spend w \<or> sent_one cfg ob rp (rv_reviewed r) c w (review_target cfg ob rp r c ?w)" for c
    using review_target_sent [of cfg ob rp r c ?w] sent_one_frame [OF _ s] s by auto
  with d Some s skip_spend spend_frames(5) unreviewed_spend show ?thesis by (elim disjE) auto
qed

end
