(* ===== verification/Controller_Safety.thy ===== *)
theory Controller_Safety
  imports Controller_Props
begin

text \<open>
  The theorems on the review loop: the cursor moves only past code that was reviewed, is empty or was
  flagged to a human; a dispatch is pinned, claimed and within the size budgets; a tick stays within its
  dispatch budgets; the skill table changes only under branch protection and only with linted documents;
  and what a dry run does and does not leave alone.
\<close>

section \<open>The reviewed cursor\<close>

lemma process_repo_ok: "cursor_ok (cw_cursors w) \<Longrightarrow> cursor_ok (cw_cursors (process_repo lower hit sha cfg ob rp w))"
  by (rule moves_ok [OF process_repo_moves])

lemma index_cursor [simp]: "cursor_of rp' (index_repo_skills lower hit sha cfg ob rp w) = cursor_of rp' w"
  using index_review_part [of lower hit sha cfg ob rp w] by (simp add: cursor_of_def review_part_def)

lemma index_reviewed [simp]: "reviewed_at rp' (index_repo_skills lower hit sha cfg ob rp w) = reviewed_at rp' w"
  by (simp add: reviewed_at_def)

lemma arrive_cursor [simp]: "cursor_of rp (arrive ob i w) = cursor_of rp w" "reviewed_at rp (arrive ob i w) = reviewed_at rp w"
  by (simp_all add: cursor_of_def reviewed_at_def)

text \<open>
  C26. The cursor never skips unseen code silently: when a reconcile step of a repository changes its
  reviewed commit, the new commit is pinned under the reviewed ref, and it is the in-flight commit with a
  completion marker, or the first sight of the repository at the fetched head, or the fetched head of a
  range with no net diff, or a commit chosen for advancing without review, with the alert to the human
  on file when that commit is over a size budget.
\<close>

theorem cursor_moves_honestly:
  assumes "reviewed_at rp (process_repo lower hit sha cfg ob rp w) = Some c" "reviewed_at rp w \<noteq> Some c"
    and "w' = process_repo lower hit sha cfg ob rp w"
  shows "(ctl_reviewed_ref (rp_ref rp), c) \<in> set (cw_pins w')
    \<and> (pending_of (cursor_of rp w) = Some c \<and> done_marker rp (rp_ref rp) c \<in> cw_done w'
       \<or> (\<exists>head. observe_head ob = Some head
            \<and> (cursor_of rp w = None \<and> c = head \<or> unreviewed_ok cfg ob rp head c w')))"
proof -
  let ?w0 = "arrive ob 0 w"
  have by_done: ?thesis
    if "grows (fst (advance_pass ob rp ?w0)) w'" "reviewed_at rp (fst (advance_pass ob rp ?w0)) = Some c"
  proof -
    from advance_pass_effect [of rp ob ?w0] that(2) assms(2)
    have "pending_of (cursor_of rp w) = Some c" "is_done rp c ?w0" "(ctl_reviewed_ref (rp_ref rp), c) \<in> set (cw_pins (fst (advance_pass ob rp ?w0)))"
      by auto
    moreover have "cw_done ?w0 \<subseteq> cw_done (fst (advance_pass ob rp ?w0))"
      using advance_pass_moves [of ?w0 ob rp] by (simp add: moves_def grows_def)
    ultimately show ?thesis using that(1) by (auto simp: grows_def is_done_def)
  qed
  show ?thesis
  proof (cases rule: process_cases [of lower hit sha cfg ob rp w])
    case stopped
    with by_done assms(1,3) show ?thesis by (simp add: grows_def)
  next
    case (idle w1 w2 cur)
    note t = transient_pass_effect [OF idle(2)]
    have "moves w1 w2"
      using moves_trans [OF moves_arrive transient_pass_moves [of "arrive ob 1 w1" cfg ob rp "cursor_of rp w1"]] idle(2) by simp
    moreover have "reviewed_at rp w1 = Some c" using t(1) assms(1) idle(3) by simp
    ultimately show ?thesis using idle(1,3) assms(3) by (intro by_done) (simp_all add: moves_def)
  next
    case (head w1 w2 cur h)
    note t = transient_pass_effect [OF head(2)]
    let ?w3 = "index_repo_skills lower hit sha cfg ob rp w2"
    have "moves w1 w2"
      using moves_trans [OF moves_arrive transient_pass_moves [of "arrive ob 1 w1" cfg ob rp "cursor_of rp w1"]] head(2) by simp
    then have m: "moves w1 w'"
      using moves_trans [OF moves_trans [OF _ index_moves] decide_moves] assms(3) head(4) by metis
    have r: "reviewed_at rp ?w3 = reviewed_at rp w1" using t(1) by simp
    show ?thesis
    proof (cases "reviewed_at rp w1 = Some c")
      case True
      with head(1) m show ?thesis by (intro by_done) (simp_all add: moves_def)
    next
      case False
      from decide_effect [OF assms(1) [unfolded head(4)]] False r
      have d: "(ctl_reviewed_ref (rp_ref rp), c) \<in> set (cw_pins w')" "cur = None \<and> c = h \<or> unreviewed_ok cfg ob rp h c w'"
        by (simp_all add: assms(3) head(4))
      have "cursor_of rp w = None" if "cur = None"
      proof -
        have "reviewed_at rp w1 = None" using that t by simp
        then have "reviewed_at rp (fst (advance_pass ob rp ?w0)) = None" using head(1) by simp
        then have "reviewed_at rp w = None" using advance_pass_effect [of rp ob ?w0] by auto
        then show ?thesis by (simp add: reviewed_at_def)
      qed
      with d head(3) show ?thesis by blast
    qed
  qed
qed

section \<open>Dispatches\<close>

lemma process_sent:
  "spend (process_repo lower hit sha cfg ob rp w) = spend w
   \<or> (\<exists>h base. observe_head ob = Some h \<and> reviewed_at rp (process_repo lower hit sha cfg ob rp w) = Some base
        \<and> tg_mode (choose_review_target (ob_sizes ob) cfg h) = Dispatch
        \<and> sent_one cfg ob rp base (tg_sha (choose_review_target (ob_sizes ob) cfg h)) w (process_repo lower hit sha cfg ob rp w))"
proof (cases rule: process_cases [of lower hit sha cfg ob rp w])
  case stopped
  then show ?thesis by (simp add: advance_pass_spend spend_frames)
next
  case (idle w1 w2 cur)
  have "spend w1 = spend w" "spend w2 = spend w1"
    using advance_pass_spend [of ob rp "arrive ob 0 w"] transient_pass_spend [of cfg ob rp "cursor_of rp w1" "arrive ob 1 w1"] idle
    by (simp_all add: spend_frames)
  with idle(3) show ?thesis by simp
next
  case (head w1 w2 cur h)
  let ?w3 = "index_repo_skills lower hit sha cfg ob rp w2" and ?t = "choose_review_target (ob_sizes ob) cfg h"
  have "spend w1 = spend w" "spend w2 = spend w1"
    using advance_pass_spend [of ob rp "arrive ob 0 w"] transient_pass_spend [of cfg ob rp "cursor_of rp w1" "arrive ob 1 w1"] head
    by (simp_all add: spend_frames)
  then have s: "spend ?w3 = spend w" by (simp add: spend_frames)
  have "moves w ?w3"
    using moves_trans [OF moves_arrive advance_pass_moves [of "arrive ob 0 w" ob rp]]
      moves_trans [OF moves_arrive transient_pass_moves [of "arrive ob 1 w1" cfg ob rp "cursor_of rp w1"]] head
    by (auto intro: moves_trans index_moves)
  note frame = sent_one_frame [OF _ s moves_ok [OF this]]
  from decide_sent [of cfg ob rp h cur ?w3] show ?thesis
  proof (elim disjE exE conjE)
    assume "spend (decide cfg ob rp h cur ?w3) = spend ?w3"
    with s head(4) show ?thesis by simp
  next
    fix r assume r: "cur = Some r" "tg_mode ?t = Dispatch" "sent_one cfg ob rp (rv_reviewed r) (tg_sha ?t) ?w3 (decide cfg ob rp h cur ?w3)"
    have base: "reviewed_at rp ?w3 = Some (rv_reviewed r)" using transient_pass_effect(2) [OF head(2)] r(1) by simp
    have "reviewed_at rp (decide cfg ob rp h cur ?w3) = Some (rv_reviewed r)"
    proof (rule ccontr)
      assume ne: "reviewed_at rp (decide cfg ob rp h cur ?w3) \<noteq> Some (rv_reviewed r)"
      have d: "decide cfg ob rp h cur ?w3 \<in> {?w3, skip_past ob rp h ?w3}
          \<or> decide cfg ob rp h cur ?w3 = review_target cfg ob rp r (tg_sha ?t) (reset_streak ob (defer_streak_file (rp_id rp)) ?w3)"
        unfolding decide_def r(1) by (cases "ob_quiet ob") (simp_all add: Let_def r(2))
      have "reviewed_at rp (reset_streak ob (defer_streak_file (rp_id rp)) ?w3) = reviewed_at rp ?w3" by (rule reviewed_same) simp
      with d ne base review_target_reviewed [of rp cfg ob rp r "tg_sha ?t" "reset_streak ob (defer_streak_file (rp_id rp)) ?w3"]
      have "decide cfg ob rp h cur ?w3 = skip_past ob rp h ?w3" by auto
      then have "spend (decide cfg ob rp h cur ?w3) = spend ?w3" by (simp add: skip_spend)
      with r(3) show False by (auto simp: sent_one_def spend_def)
    qed
    with frame [OF r(3)] r(2) head(3,4) show ?thesis by auto
  qed
qed

text \<open>
  C27. A dispatched review is claimed, pinned and bounded: a reconcile step dispatches at most one review,
  never in a dry run; its base is the reviewed commit of the cursor, its head is in flight in the cursor
  and pinned under the pending ref, and git reported for it a number of lines and of patch bytes within
  both budgets.
\<close>

theorem dispatch_claimed_and_bounded:
  assumes "reach cursor_step [] (cw_cursors w)" "w' = process_repo lower hit sha cfg ob rp w" "cw_dispatched w' \<noteq> cw_dispatched w"
  shows "\<exists>base c n b. cw_dispatched w' = cw_dispatched w @ [(rp_id rp, rp_ref rp, base, c)] \<and> \<not> dry_run cfg
    \<and> reviewed_at rp w' = Some base \<and> pending_of (cursor_of rp w') = Some c \<and> base \<noteq> c
    \<and> (ctl_pending_ref (rp_ref rp), c) \<in> set (cw_pins w')
    \<and> (\<exists>k. diff_lines (ob_sizes ob) k c = Some n) \<and> n \<le> max_lines cfg
    \<and> (\<exists>k. diff_bytes (ob_sizes ob) k c = Some b) \<and> b \<le> max_bytes cfg"
proof -
  have ok: "cursor_ok (cw_cursors w)" by (rule reachable_cursor [OF assms(1)])
  have "spend w' \<noteq> spend w" using assms(3) by (simp add: spend_def)
  with process_sent [of lower hit sha cfg ob rp w] assms(2) obtain h base t where t: "t = choose_review_target (ob_sizes ob) cfg h"
    "tg_mode t = Dispatch" "reviewed_at rp w' = Some base" "sent_one cfg ob rp base (tg_sha t) w w'" by auto
  from dispatch_fits_budget [OF t(1) [symmetric] t(2)] obtain n b where nb:
    "\<exists>k. diff_lines (ob_sizes ob) k (tg_sha t) = Some n" "n \<le> max_lines cfg"
    "\<exists>k. diff_bytes (ob_sizes ob) k (tg_sha t) = Some b" "b \<le> max_bytes cfg" by blast
  have p: "pending_of (cursor_of rp w') = Some (tg_sha t)" using t(4) ok by (simp add: sent_one_def)
  obtain r where r: "cursor_of rp w' = Some r" "rv_reviewed r = base" using t(3) by (auto simp: reviewed_at_def)
  have "row_ok r"
    using process_repo_ok [OF ok, of lower hit sha cfg ob rp] r(1) get_row_Some
    by (fastforce simp: assms(2) cursor_of_def get_cursor_def cursor_ok_def)
  with p r have "base \<noteq> tg_sha t" by (auto simp: row_ok_def pending_of_def)
  with t(3,4) p nb show ?thesis by (auto simp: sent_one_def spend_def)
qed

text \<open>The budgets over the repositories of a tick.\<close>

definition within_budget :: "ctl_config \<Rightarrow> ctl_world \<Rightarrow> ctl_world \<Rightarrow> bool" where
  "within_budget cfg w w' \<longleftrightarrow> (\<exists>xs. cw_dispatched w' = cw_dispatched w @ xs \<and> cw_budget w' = cw_budget w + length xs)
     \<and> cw_budget w' \<le> max (cw_budget w) (max_tick cfg)"

text \<open>
  \<open>steady_day\<close>: a step whose clock reads stay within one UTC day and which can read and write that day's file.
\<close>

definition steady_day :: "string \<Rightarrow> observed \<Rightarrow> bool" where
  "steady_day D ob \<longleftrightarrow> (\<forall>i. ob_day ob i = D) \<and> (\<forall>i. ob_day_read ob i) \<and> ob_write_ok ob (day_file D)"

definition day_counted :: "string \<Rightarrow> ctl_config \<Rightarrow> ctl_world \<Rightarrow> ctl_world \<Rightarrow> bool" where
  "day_counted D cfg w w' \<longleftrightarrow>
     read_count True (cw_day w' D) = read_count True (cw_day w D) + (int (length (cw_dispatched w')) - int (length (cw_dispatched w)))
     \<and> read_count True (cw_day w' D) \<le> max (read_count True (cw_day w D)) (int (max_day cfg))
     \<and> (\<forall>E. E \<noteq> D \<longrightarrow> cw_day w' E = cw_day w E)"

lemma process_within: "within_budget cfg w (process_repo lower hit sha cfg ob rp w)"
  using process_sent [of lower hit sha cfg ob rp w] by (auto simp: within_budget_def sent_one_def spend_def)

lemma process_day:
  assumes "steady_day D ob"
  shows "day_counted D cfg w (process_repo lower hit sha cfg ob rp w)"
proof -
  have c: "cw_day (charge_day ob w) = (cw_day w)(D := File_Count (read_count True (cw_day w D) + 1))"
    "day_count ob w = read_count True (cw_day w D)"
    using assms by (simp_all add: steady_day_def charge_day_def day_count_def)
  have "read_count True (File_Count n) = n" for n by (simp add: read_count_def)
  with process_sent [of lower hit sha cfg ob rp w] c show ?thesis
    by (auto simp: day_counted_def sent_one_def spend_def)
qed

lemma within_trans: "within_budget cfg u v \<Longrightarrow> within_budget cfg v w \<Longrightarrow> within_budget cfg u w"
  by (auto simp: within_budget_def)

lemma day_trans: "day_counted D cfg u v \<Longrightarrow> day_counted D cfg v w \<Longrightarrow> day_counted D cfg u w"
  by (auto simp: day_counted_def)

definition run_repos where
  "run_repos lower hit sha cfg ts = foldl (\<lambda>u rp. process_repo lower hit sha cfg (tk_obs ts (rp_id rp)) rp u)"

lemma run_rel:
  assumes "\<And>w. R w w" "\<And>u v w. R u v \<Longrightarrow> R v w \<Longrightarrow> R u w"
    and "\<And>w rp. R w (process_repo lower hit sha cfg (tk_obs ts (rp_id rp)) rp w)"
  shows "R w (run_repos lower hit sha cfg ts w repos)"
proof (induction repos arbitrary: w)
  case Nil
  then show ?case by (simp add: run_repos_def assms(1))
next
  case (Cons rp repos)
  from assms(2) [OF assms(3) [of w rp] Cons.IH] show ?case by (simp add: run_repos_def)
qed

lemma tick_cases:
  assumes "tick lower hit sha cfg ts w = Some w'"
  obtains (idle) "w' = w"
  | (ran) repos w1 where "load_config (tk_resolve ts) (tk_json ts) = Some repos" "dry_run cfg \<or> tk_migrate_ok ts"
      "w1 = run_repos lower hit sha cfg ts (w\<lparr>cw_budget := 0\<rparr>) repos"
      "w' = w1 \<or> w' = w1\<lparr>cw_skills := fst (prune_skills (tk_now ts) (cw_skills w1))\<rparr>" "dry_run cfg \<longrightarrow> w' = w1"
proof (cases "load_config (tk_resolve ts) (tk_json ts)")
  case None
  with assms show thesis by (simp add: tick_def)
next
  case (Some repos)
  let ?w1 = "run_repos lower hit sha cfg ts (w\<lparr>cw_budget := 0\<rparr>) repos"
  have w': "w' = (if repos = [] \<or> \<not> tk_lock ts then w else if \<not> dry_run cfg \<and> \<not> tk_migrate_ok ts then w
      else if dry_run cfg \<or> \<not> tk_prune_ok ts then ?w1 else ?w1\<lparr>cw_skills := fst (prune_skills (tk_now ts) (cw_skills ?w1))\<rparr>)"
    using assms Some unfolding tick_def run_repos_def Let_def by (simp only: option.case option.inject)
  show thesis
  proof (cases "(repos = [] \<or> \<not> tk_lock ts) \<or> \<not> dry_run cfg \<and> \<not> tk_migrate_ok ts")
    case True
    with w' idle show ?thesis by metis
  next
    case False
    then have "w' = (if dry_run cfg \<or> \<not> tk_prune_ok ts then ?w1 else ?w1\<lparr>cw_skills := fst (prune_skills (tk_now ts) (cw_skills ?w1))\<rparr>)"
      using w' by metis
    with False show ?thesis by (intro ran [OF Some _ refl]) (metis, metis, metis)
  qed
qed

text \<open>
  C28. Dispatch budgets: a tick appends at most the per-tick number of reviews to what was dispatched
  before, whatever its clock and counter files do. When all of its clock reads show one UTC day and that
  day's counter can be read and written throughout, the counter (zero when missing or no number) grows by
  exactly the number of those reviews and never past the larger of its old value and the daily limit,
  and no other day's counter changes. A counter that cannot be read counts as zero, so the daily limit
  holds only under that condition.
\<close>

theorem tick_within_budgets:
  assumes "tick lower hit sha cfg ts w = Some w'"
  shows "\<exists>xs. cw_dispatched w' = cw_dispatched w @ xs \<and> length xs \<le> max_tick cfg
    \<and> ((\<forall>rid. steady_day D (tk_obs ts rid))
       \<longrightarrow> read_count True (cw_day w' D) = read_count True (cw_day w D) + int (length xs)
         \<and> read_count True (cw_day w' D) \<le> max (read_count True (cw_day w D)) (int (max_day cfg))
         \<and> (\<forall>E. E \<noteq> D \<longrightarrow> cw_day w' E = cw_day w E))"
  using assms
proof (cases rule: tick_cases)
  case idle
  then show ?thesis by simp
next
  case (ran repos w1)
  let ?w = "w\<lparr>cw_budget := 0\<rparr>"
  have "within_budget cfg ?w w1"
    unfolding ran(3) by (rule run_rel [where R = "within_budget cfg"], simp add: within_budget_def, erule (1) within_trans, rule process_within)
  moreover have "day_counted D cfg ?w w1" if "\<forall>rid. steady_day D (tk_obs ts rid)"
    unfolding ran(3)
    by (rule run_rel [where R = "day_counted D cfg"], simp add: day_counted_def, erule (1) day_trans, rule process_day, simp add: that)
  moreover have "cw_dispatched w' = cw_dispatched w1" "cw_day w' = cw_day w1" using ran(4) by auto
  ultimately show ?thesis by (auto simp: within_budget_def day_counted_def)
qed

section \<open>The skill table\<close>

text \<open>Outside the indexer a step leaves everything about skills alone.\<close>

lemma skill_part_frames:
  "skill_part (arrive ob i w) = skill_part w" "skill_part (fst (try_forgive_transient cfg ob rp c w)) = skill_part w"
  "skill_part (reset_streak ob f w) = skill_part w" "skill_part (defer_tick cfg ob rp c w) = skill_part w"
  "skill_part (release rp c w) = skill_part w" "skill_part (fst (alert_jefe ob a w)) = skill_part w"
  by (simp_all add: skill_part_def try_forgive_transient_def defer_tick_def release_def Let_def split_beta split: option.split)

lemma skip_skill_part: "skill_part (skip_past ob rp c w) = skill_part w"
  by (cases rule: pin_cases [of ob "ctl_reviewed_ref (rp_ref rp)" c w]) (simp_all add: skip_past_def skill_part_def)

lemma seed_skill_part: "skill_part (seed_baseline cfg ob rp c w) = skill_part w"
  by (cases rule: pin_cases [of ob "ctl_reviewed_ref (rp_ref rp)" c w]) (simp_all add: seed_baseline_def skill_part_def)

lemma dispatch_skill_part: "skill_part (dispatch cfg ob rp base c w) = skill_part w"
proof (cases rule: dispatch_cases [of cfg ob rp base c w])
  case refused
  then show ?thesis by simp
next
  case (claim w1)
  have "skill_part w1 = skill_part w" by (subst claim(2)) (simp add: skill_part_def)
  with claim(1) skill_part_frames(5) show ?thesis by auto
next
  case (sent w1)
  then show ?thesis by (simp add: charge_day_def skill_part_def)
qed

lemma review_target_skill_part: "skill_part (review_target cfg ob rp cur c w) = skill_part w"
proof -
  obtain w1 won where f: "try_forgive_transient cfg ob rp c (arrive ob 2 w) = (w1, won)" by fastforce
  have "skill_part w1 = skill_part w" using skill_part_frames(1,2) f by (metis fst_conv)
  moreover have "skill_part (w1\<lparr>cw_cursors := T\<rparr>) = skill_part w1" for T by (simp add: skill_part_def)
  ultimately show ?thesis
    by (cases won) (simp_all add: review_target_def f dispatch_skill_part skill_part_frames split_beta Let_def)
qed

lemma decide_skill_part: "skill_part (decide cfg ob rp head cur w) = skill_part w"
proof -
  have "skill_part (advance_without_review cfg ob rp base t w) = skill_part w" for base t w
    using unreviewed_range [of cfg ob rp base t w] skip_skill_part skill_part_frames(6) by auto
  then show ?thesis
    by (cases "ob_quiet ob") (simp_all add: decide_def Let_def seed_skill_part skip_skill_part skill_part_frames review_target_skill_part split: option.split)
qed

lemma advance_pass_skill_part: "skill_part (fst (advance_pass ob rp w)) = skill_part w"
proof -
  have "skill_part (fst (advance_pass ob rp w)) = skill_part w" if "pending_of (cursor_of rp w) = Some ps" for ps
    using that by (cases rule: pin_cases [of ob "ctl_reviewed_ref (rp_ref rp)" ps w])
      (simp_all add: advance_pass_def skill_part_def Let_def split_beta)
  then show ?thesis by (cases "pending_of (cursor_of rp w)") (simp_all add: advance_pass_def)
qed

lemma transient_pass_skill_part: "skill_part (fst (transient_pass cfg ob rp cur w)) = skill_part w"
  by (simp add: transient_pass_def skill_part_frames split_beta Let_def split: option.split)

lemma process_skill_part:
  obtains (kept) "skill_part (process_repo lower hit sha cfg ob rp w) = skill_part w"
  | (indexed) w2 where "skill_part w2 = skill_part w"
      "skill_part (process_repo lower hit sha cfg ob rp w) = skill_part (index_repo_skills lower hit sha cfg ob rp w2)"
proof (cases rule: process_cases [of lower hit sha cfg ob rp w])
  case stopped
  then show ?thesis by (intro kept) (simp add: advance_pass_skill_part skill_part_frames)
next
  case (idle w1 w2 cur)
  have "skill_part w1 = skill_part w" "skill_part w2 = skill_part w1"
    using advance_pass_skill_part [of ob rp "arrive ob 0 w"] transient_pass_skill_part [of cfg ob rp "cursor_of rp w1" "arrive ob 1 w1"] idle
    by (simp_all add: skill_part_frames)
  with idle(3) show ?thesis by (intro kept) simp
next
  case (head w1 w2 cur h)
  have "skill_part w1 = skill_part w" "skill_part w2 = skill_part w1"
    using advance_pass_skill_part [of ob rp "arrive ob 0 w"] transient_pass_skill_part [of cfg ob rp "cursor_of rp w1" "arrive ob 1 w1"] head
    by (simp_all add: skill_part_frames)
  with head(4) show ?thesis by (intro indexed [of w2]) (simp_all add: decide_skill_part)
qed

text \<open>What a listed path must be for its skill to be indexed.\<close>

definition accepted_document ::
  "(pytext \<Rightarrow> pytext) \<Rightarrow> (injection_pattern \<Rightarrow> pytext \<Rightarrow> bool) \<Rightarrow> (pytext \<Rightarrow> string) \<Rightarrow> observed \<Rightarrow> skill_item \<Rightarrow> bool" where
  "accepted_document lower hit sha ob i \<longleftrightarrow>
     (\<exists>p name blob d. split_slash p = [''skills'', name, ''SKILL.md''] \<and> ob_blob ob p = Out blob
        \<and> lint_skill lower hit (codes name) blob = Inr d \<and> \<not> is_unauthored_stub blob
        \<and> it_name i = sd_name d \<and> it_body i = sd_body d \<and> it_content_sha i = sha blob)"

lemma skill_of_path_accepted: "skill_of_path lower hit sha ob p = Some (Index i) \<Longrightarrow> accepted_document lower hit sha ob i"
  unfolding skill_of_path_def accepted_document_def
  by (force split: list.splits if_splits git_out.splits sum.splits)

lemma read_skills_items:
  assumes "read_skills judge ps = Some (items, rejects)" "i \<in> set items"
  shows "\<exists>p \<in> set ps. judge p = Some (Index i)"
  using assms
  by (induction ps arbitrary: items rejects) (fastforce split: option.splits prod.splits skill_verdict.splits)+

lemma store_changed:
  assumes "cw_skills (store_skills cfg ob rid tree found w) \<noteq> cw_skills w"
  shows "\<not> dry_run cfg \<and> cw_skills (store_skills cfg ob rid tree found w) = fst (index_skills (ob_now ob) rid (fst found) (cw_skills w))"
  using assms by (auto simp: store_skills_def Let_def split_beta split: if_splits)

lemma other_skills: "cw_skills (block_repo_skills cfg ob rid w) = cw_skills w" "cw_skills (mark_taint cfg ob rid tree w) = cw_skills w"
  "cw_skills (unblock cfg ob rid w) = cw_skills w"
  by (simp_all add: block_repo_skills_def mark_taint_def unblock_def clear_taint_def Let_def)

text \<open>
  C29. Skills cannot be laundered through a protection gap: when a reconcile step changes the skill table,
  the watched branch is fully protected in that tick (reviews required, administrators included, force
  pushes off); if the repository was blocked, its skill tree is the one that was last indexed, or there is
  and was none; and every indexed item comes from a document under \<open>skills\<close> of the fetched tree that
  passes the lint under its directory's name and is not an unauthored stub.
\<close>

theorem skills_change_only_protected:
  assumes "w' = process_repo lower hit sha cfg ob rp w" "cw_skills w' \<noteq> cw_skills w"
  shows "(\<exists>p. ob_prot ob = Some p \<and> pr_reviews p \<and> pr_admins p \<and> \<not> pr_force p) \<and> \<not> dry_run cfg
    \<and> (rp_id rp \<in> cw_blocked w \<longrightarrow> \<not> changed_while_blocked (tree_of ob) (last_tree (rp_id rp) w))
    \<and> (\<exists>items. cw_skills w' = fst (index_skills (ob_now ob) (rp_id rp) items (cw_skills w))
         \<and> (\<forall>i \<in> set items. accepted_document lower hit sha ob i))"
proof (cases rule: process_skill_part [of lower hit sha cfg ob rp w])
  case kept
  with assms show ?thesis by (simp add: skill_part_def)
next
  case (indexed w2)
  let ?i = "index_repo_skills lower hit sha cfg ob rp w2"
  have eq: "cw_skills w2 = cw_skills w" "cw_blocked w2 = cw_blocked w" "cw_tree w2 = cw_tree w" "cw_skills w' = cw_skills ?i"
    using indexed assms(1) by (simp_all add: skill_part_def)
  show ?thesis
  proof (cases rule: index_cases [of lower hit sha cfg ob rp w2])
    case (store ps found)
    obtain items rejects where f: "found = (items, rejects)" by fastforce
    have "cw_skills ?i \<noteq> cw_skills (unblock cfg ob (rp_id rp) w2)" using assms(2) eq by (simp add: other_skills)
    from store_changed [OF this [unfolded store(5)]] have c: "\<not> dry_run cfg"
      "cw_skills w' = fst (index_skills (ob_now ob) (rp_id rp) items (cw_skills w))"
      by (simp_all add: eq store(5) other_skills f)
    have "accepted_document lower hit sha ob i" if "i \<in> set items" for i
      using read_skills_items [OF store(4) [unfolded f] that] skill_of_path_accepted by blast
    moreover have "\<exists>p. ob_prot ob = Some p \<and> pr_reviews p \<and> pr_admins p \<and> \<not> pr_force p"
      using store(1) by (auto simp: branch_protection_ok_def Let_def split: if_splits option.splits)
    ultimately show ?thesis using c store(2) eq by (auto simp: last_tree_def)
  qed (use assms(2) eq in \<open>simp_all add: other_skills\<close>)
qed

section \<open>Configuration and dry runs\<close>

definition trusted_repo :: "(string \<Rightarrow> string \<times> bool) \<Rightarrow> repo \<Rightarrow> bool" where
  "trusted_repo resolve rp \<longleftrightarrow> ref_re (rp_ref rp) \<and> rp_base rp = rp_id rp \<and> (\<exists>path. resolve path = (rp_id rp, True))"

lemma load_entries_step:
  assumes "load_entries resolve acc (e # es) = Some repos"
  shows "\<exists>acc'. load_entries resolve acc' es = Some repos
    \<and> (acc' = acc \<or> (\<exists>rp. acc' = acc @ [rp] \<and> rp_id rp \<notin> rp_id ` set acc \<and> trusted_repo resolve rp))"
proof -
  obtain key entry where e: "e = (key, entry)" by fastforce
  have add: ?thesis if "load_entries resolve (acc @ [\<lparr>rp_id = n, rp_base = n, rp_ref = ref\<rparr>]) es = Some repos"
    "n \<notin> rp_id ` set acc" "ref_re ref" "resolve path = (n, True)" for n ref path
    using that by (intro exI [of _ "acc @ [\<lparr>rp_id = n, rp_base = n, rp_ref = ref\<rparr>]"]) (auto simp: trusted_repo_def)
  show ?thesis
    using assms unfolding e load_entries.simps Let_def
    by (auto split: if_splits config_entry.splits json_field.splits prod.splits intro: add)
qed

lemma load_entries_trusted:
  "load_entries resolve acc es = Some repos \<Longrightarrow> distinct (map rp_id acc) \<Longrightarrow> list_all (trusted_repo resolve) acc
    \<Longrightarrow> distinct (map rp_id repos) \<and> list_all (trusted_repo resolve) repos"
proof (induction es arbitrary: acc)
  case (Cons e es)
  from load_entries_step [OF Cons.prems(1)] obtain acc' where a: "load_entries resolve acc' es = Some repos"
    "acc' = acc \<or> (\<exists>rp. acc' = acc @ [rp] \<and> rp_id rp \<notin> rp_id ` set acc \<and> trusted_repo resolve rp)" by blast
  show ?case by (rule Cons.IH [OF a(1)]) (use a(2) Cons.prems(2,3) in auto)
qed simp

lemma load_config_trusted:
  "load_config resolve raw = Some repos \<Longrightarrow> distinct (map rp_id repos) \<and> list_all (trusted_repo resolve) repos"
  by (cases raw) (auto simp: load_config_def dest: load_entries_trusted)

lemma dry_index: "dry_run cfg \<Longrightarrow> skill_part (index_repo_skills lower hit sha cfg ob rp w) = skill_part w"
  by (cases rule: index_cases [of lower hit sha cfg ob rp w])
    (simp_all add: block_repo_skills_def mark_taint_def unblock_def store_skills_def split_beta)

lemma dry_process:
  assumes "dry_run cfg"
  shows "skill_part (process_repo lower hit sha cfg ob rp w) = skill_part w" "spend (process_repo lower hit sha cfg ob rp w) = spend w"
proof -
  show "skill_part (process_repo lower hit sha cfg ob rp w) = skill_part w"
    by (cases rule: process_skill_part [of lower hit sha cfg ob rp w]) (simp_all add: dry_index assms)
  show "spend (process_repo lower hit sha cfg ob rp w) = spend w"
    using process_sent [of lower hit sha cfg ob rp w] assms by (auto simp: sent_one_def)
qed

text \<open>
  A dry run sends nothing and trusts nothing: over a whole tick no review is dispatched, the day's
  count stays, and the skill table with its block, tree and taint marks is as before.
\<close>

theorem dry_run_sends_nothing:
  assumes "dry_run cfg" "tick lower hit sha cfg ts w = Some w'"
  shows "cw_dispatched w' = cw_dispatched w \<and> cw_day w' = cw_day w \<and> cw_skills w' = cw_skills w
    \<and> cw_blocked w' = cw_blocked w \<and> cw_tree w' = cw_tree w \<and> cw_taint w' = cw_taint w \<and> cw_armed w' = cw_armed w"
  using assms(2)
proof (cases rule: tick_cases)
  case (ran repos w1)
  let ?w = "w\<lparr>cw_budget := 0\<rparr>"
  have "(skill_part ?w, spend ?w) = (skill_part w1, spend w1)"
    unfolding ran(3)
    by (rule run_rel [where R = "\<lambda>u v. (skill_part u, spend u) = (skill_part v, spend v)"]) (simp_all add: dry_process assms(1))
  with ran(5) assms(1) show ?thesis by (simp add: skill_part_def spend_def)
qed simp

end
