(* ===== verification/Controller_Examples.thy ===== *)
theory Controller_Examples
  imports Controller_Safety
begin

text \<open>
  Concrete ticks of the review loop: each instantiates a theorem of \<^verbatim>\<open>Controller_Safety\<close> or
  \<^verbatim>\<open>Chunker\<close> at a state where its hypotheses hold, and three closed runs show where the comments of the
  code promise more than it does.
\<close>

section \<open>A repository with one unreviewed commit\<close>

definition ex_ref :: string where "ex_ref = ''refs/heads/main''"

definition ex_repo :: repo where "ex_repo = \<lparr>rp_id = ''r'', rp_base = ''r'', rp_ref = ex_ref\<rparr>"

definition ex_cfg :: ctl_config where
  "ex_cfg = \<lparr>max_tick = 3, max_day = 20, ctl_max_attempts = 3, transient_alert = 3, defer_alert = 3, pending_stale = 100,
     max_lines = 10, max_bytes = 50, walk_cap = 5, dry_run = False, test_mode = False, dispatch_override = False\<rparr>"

definition ex_small :: git_sizes where
  "ex_small = \<lparr>git_numstat = (\<lambda>_ _. Some (codes ''3'' @ 9 # codes ''1'' @ 9 # codes ''f'')), git_patch = (\<lambda>_ _. Some (replicate 5 120)),
     git_rev_list = Some []\<rparr>"

definition ex_ob :: observed where
  "ex_ob = \<lparr>ob_now = 1000, ob_day = (\<lambda>_. ''20260301''), ob_day_read = (\<lambda>_. True), ob_arrive = (\<lambda>_. (Map.empty, {})), ob_read_ok = (\<lambda>_. True), ob_write_ok = (\<lambda>_. True),
     ob_unlink_ok = (\<lambda>_. True), ob_alert_ok = (\<lambda>_. True), ob_url = Out ''https://h/r'', ob_fetch = Out (), ob_head = Out ex_head,
     ob_has = (\<lambda>_. Out ()), ob_quiet = Nonzero, ob_sizes = ex_small, ob_pin = (\<lambda>_ _. Out ()),
     ob_script = Script False True True False True, ob_run = Trigger_Exit 0, ob_record_ok = True, ob_nwo = None, ob_prot = None,
     ob_tree = Nonzero, ob_ls = Out [], ob_blob = (\<lambda>_. Nonzero), ob_index_raises = False\<rparr>"

definition ex_cursor_row :: "string option \<Rightarrow> cursor_state \<Rightarrow> nat \<Rightarrow> review_row" where
  "ex_cursor_row p st n = \<lparr>rv_repo = ''r'', rv_ref = ex_ref, rv_baseline = ex_first, rv_reviewed = ex_first, rv_pending = p,
     rv_state = st, rv_attempts = n, rv_updated = 1\<rparr>"

definition ex_ctl_world :: "review_row list \<Rightarrow> ctl_world" where
  "ex_ctl_world T = \<lparr>cw_cursors = T, cw_done = {}, cw_transient = Map.empty, cw_streaks = (\<lambda>_. File_Missing), cw_day = (\<lambda>_. File_Missing), cw_budget = 0,
     cw_alerts = [], cw_pins = [], cw_dispatched = [], cw_skills = [], cw_blocked = {}, cw_tree = Map.empty, cw_taint = Map.empty,
     cw_armed = True\<rparr>"

lemma ex_ctl_world_sel [simp]:
  "cw_cursors (ex_ctl_world T) = T" "cw_done (ex_ctl_world T) = {}" "cw_pins (ex_ctl_world T) = []" "cw_dispatched (ex_ctl_world T) = []"
  "cw_budget (ex_ctl_world T) = 0" "cw_day (ex_ctl_world T) = (\<lambda>_. File_Missing)" "cw_blocked (ex_ctl_world T) = {}" "cw_skills (ex_ctl_world T) = []"
  "cw_tree (ex_ctl_world T) = Map.empty" "cw_transient (ex_ctl_world T) = Map.empty" "cw_streaks (ex_ctl_world T) = (\<lambda>_. File_Missing)"
  by (simp_all add: ex_ctl_world_def)

lemma ex_shas: "ex_first \<noteq> ex_head" "ex_head \<noteq> ex_first" "sha_re ex_head" "sha_re ex_first"
proof -
  show "ex_first \<noteq> ex_head" by (simp add: ex_first_def ex_head_def replicate_eqI)
  then show "ex_head \<noteq> ex_first" by simp
qed (simp_all add: sha_re_def ex_first_def ex_head_def hex_lower_def list_all_iff)

lemma ex_target: "choose_review_target ex_small ex_cfg h = \<lparr>tg_mode = Dispatch, tg_sha = h, tg_lines = 4, tg_bytes = 5\<rparr>"
proof -
  have "diff_lines ex_small k h = Some 4" "diff_bytes ex_small k h = Some 5" for k
    by (simp_all add: diff_lines_def diff_bytes_def patch_size_def ex_small_def numstat_total_def numstat_line_def line_break_def codes_def
        ascii_digit_def decimal_def Let_def)
  then show ?thesis by (simp add: choose_review_target_def dl_def db_def new_sizer_def ex_cfg_def Let_def)
qed

lemma ex_observe: "observe_head ex_ob = Some ex_head"
  by (simp add: observe_head_def remote_url_def ex_ob_def url_ok_def sublist_code ex_shas)

lemmas ex_ctl = ex_ob_def ex_cfg_def ex_repo_def ex_cursor_row_def cursor_of_def get_cursor_def get_row_def rv_key_def pending_of_def
  arrive_def pin_def reset_streak_def alert_jefe_def cas_def upd_where_def

definition ex_dispatch_world :: ctl_world where
  "ex_dispatch_world = ex_ctl_world [ex_cursor_row None Baseline 0]"

lemma ex_reach_row: "reach cursor_step [] [ex_cursor_row None Baseline 0]"
proof -
  have "cursor_step [] (fst (upsert_baseline 1 ''r'' ex_ref ex_first []))" by (rule cursor_step.intros)
  moreover have "fst (upsert_baseline 1 ''r'' ex_ref ex_first []) = [ex_cursor_row None Baseline 0]"
    by (simp add: upsert_baseline_def ex_cursor_row_def get_cursor_def get_row_def)
  ultimately show ?thesis using reach_step [OF reach_refl] by metis
qed

lemma ex_repo_sel [simp]: "rp_id ex_repo = ''r''" "rp_ref ex_repo = ex_ref" "rp_base ex_repo = ''r''" "cw_dispatched ex_dispatch_world = []"
  "cw_day ex_dispatch_world = (\<lambda>_. File_Missing)" "cw_skills ex_dispatch_world = []"
  by (simp_all add: ex_repo_def ex_dispatch_world_def)

lemma ex_arrive [simp]: "arrive ex_ob i w = w"
  by (simp add: arrive_def ex_ob_def)

lemma ex_dispatched:
  "cw_dispatched (process_repo lower hit sha ex_cfg ex_ob ex_repo ex_dispatch_world) = [(''r'', ex_ref, ex_first, ex_head)]"
proof -
  let ?r = "ex_cursor_row None Baseline 0" and ?w = "ex_dispatch_world"
  let ?i = "index_repo_skills lower hit sha ex_cfg ex_ob ex_repo ?w"
  have c: "cursor_of ex_repo ?w = Some ?r" by (simp add: ex_ctl ex_dispatch_world_def)
  have p: "pending_of (Some ?r) = None" "rv_reviewed ?r = ex_first" by (simp_all add: pending_of_def ex_cursor_row_def)
  have pr: "process_repo lower hit sha ex_cfg ex_ob ex_repo ?w = decide ex_cfg ex_ob ex_repo ex_head (Some ?r) ?i"
    by (simp add: process_repo_def advance_pass_def transient_pass_def c p ex_observe)
  have "\<not> at_ceiling ex_cfg ?r ex_head" by (simp add: at_ceiling_def ex_cursor_row_def)
  then have d: "decide ex_cfg ex_ob ex_repo ex_head (Some ?r) ?i
      = dispatch ex_cfg ex_ob ex_repo ex_first ex_head (reset_streak ex_ob (defer_streak_file ''r'') ?i)"
    by (simp add: decide_def review_target_def p ex_shas ex_target ex_ob_def Let_def)
  let ?v = "reset_streak ex_ob (defer_streak_file ''r'') ?i"
  have v: "cw_cursors ?v = [?r]" "cw_budget ?v = 0" "cw_day ?v = (\<lambda>_. File_Missing)" "cw_dispatched ?v = []"
    using index_review_part [of lower hit sha ex_cfg ex_ob ex_repo ?w] by (simp_all add: review_part_def) (simp_all add: ex_dispatch_world_def)
  have "cw_dispatched (dispatch ex_cfg ex_ob ex_repo ex_first ex_head v) = [(''r'', ex_ref, ex_first, ex_head)]"
    if "cw_cursors v = [?r]" "cw_budget v = 0" "cw_day v = (\<lambda>_. File_Missing)" "cw_dispatched v = []" for v
    using that by (simp add: dispatch_def claim_dispatch_def claimable_def ex_ctl trigger_review_def trusted_script_def charge_day_def day_count_def read_count_def ex_shas Let_def)
  from this [OF v] show ?thesis unfolding pr d .
qed

theorem dispatch_claimed_and_bounded_witness:
  "\<exists>w'. reviewed_at ex_repo w' = Some ex_first \<and> pending_of (cursor_of ex_repo w') = Some ex_head
     \<and> (ctl_pending_ref ex_ref, ex_head) \<in> set (cw_pins w') \<and> cw_dispatched w' = [(''r'', ex_ref, ex_first, ex_head)]"
proof -
  let ?w = "process_repo id (\<lambda>_ _. False) (\<lambda>_. ''f'') ex_cfg ex_ob ex_repo ex_dispatch_world"
  have "reach cursor_step [] (cw_cursors ex_dispatch_world)" by (simp add: ex_dispatch_world_def ex_reach_row)
  moreover have "cw_dispatched ?w \<noteq> cw_dispatched ex_dispatch_world" unfolding ex_dispatched by (simp add: ex_dispatch_world_def)
  ultimately show ?thesis
    using dispatch_claimed_and_bounded [of ex_dispatch_world ?w id "\<lambda>_ _. False" "\<lambda>_. ''f''" ex_cfg ex_ob ex_repo]
    by (intro exI [of _ ?w]) (auto simp: ex_dispatched)
qed

section \<open>A completed review\<close>

definition ex_pending_world :: ctl_world where
  "ex_pending_world = (ex_ctl_world [ex_cursor_row (Some ex_head) Dispatching 1])\<lparr>cw_done := {done_marker ex_repo ex_ref ex_head}\<rparr>"

text \<open>The fetch fails, so the step ends after its first two passes.\<close>

definition ex_offline :: observed where
  "ex_offline = ex_ob\<lparr>ob_fetch := Nonzero\<rparr>"

lemma ex_offline_arrive [simp]: "arrive ex_offline i w = w"
  by (simp add: arrive_def ex_offline_def ex_ob_def)

lemma ex_completed:
  "reviewed_at ex_repo (process_repo lower hit sha cfg ex_offline ex_repo ex_pending_world) = Some ex_head"
  "reviewed_at ex_repo ex_pending_world = Some ex_first"
proof -
  have o: "observe_head ex_offline = None" by (simp add: observe_head_def ex_offline_def)
  have p: "pending_of (cursor_of ex_repo ex_pending_world) = Some ex_head" "is_done ex_repo ex_head ex_pending_world"
    by (simp_all add: ex_ctl ex_pending_world_def is_done_def)
  let ?a = "advance_pass ex_offline ex_repo ex_pending_world"
  have f: "ob_pin ex_offline r s = Out ()" "ob_now ex_offline = 1000" "rp_id ex_repo = ''r''" "rp_ref ex_repo = ex_ref" for r s
    by (simp_all add: ex_offline_def ex_ob_def ex_repo_def)
  have "snd ?a = Some (cursor_of ex_repo (fst ?a))" by (simp add: advance_pass_def p pin_def f split_beta Let_def)
  then obtain w1 where a: "?a = (w1, Some (cursor_of ex_repo w1))" by (cases ?a) simp
  have "cw_cursors (fst ?a) = fst (advance_cursor 1000 ''r'' ex_ref ex_head (cw_cursors ex_pending_world))"
    by (simp add: advance_pass_def p pin_def f split_beta Let_def)
  then have "reviewed_at ex_repo w1 = Some ex_head"
    using reviewed_advance [of w1 1000 ex_repo ex_head ex_pending_world] a p by (simp add: f)
  moreover obtain w2 cur where t: "transient_pass cfg ex_offline ex_repo (cursor_of ex_repo w1) w1 = (w2, cur)" by fastforce
  ultimately show "reviewed_at ex_repo (process_repo lower hit sha cfg ex_offline ex_repo ex_pending_world) = Some ex_head"
    using transient_pass_effect(1) [OF t] by (simp add: process_repo_def a t o)
  show "reviewed_at ex_repo ex_pending_world = Some ex_first"
    by (simp add: reviewed_at_def ex_ctl ex_pending_world_def)
qed

theorem cursor_moves_honestly_witness:
  "\<exists>w'. reviewed_at ex_repo w' = Some ex_head \<and> (ctl_reviewed_ref ex_ref, ex_head) \<in> set (cw_pins w')
     \<and> w' = process_repo id (\<lambda>_ _. False) (\<lambda>_. ''f'') ex_cfg ex_offline ex_repo ex_pending_world"
proof -
  have "reviewed_at ex_repo ex_pending_world \<noteq> Some ex_head" using ex_completed(2) ex_shas by simp
  from cursor_moves_honestly [OF ex_completed(1) this refl] ex_completed(1) show ?thesis by (simp add: ex_repo_def)
qed

section \<open>A whole tick\<close>

definition ex_site :: tick_site where
  "ex_site = \<lparr>tk_json = Json_Object [(''r'', Config_Entry (F_Str ''/r'') F_Missing)], tk_resolve = (\<lambda>_. (''r'', True)), tk_lock = True,
     tk_migrate_ok = True, tk_prune_ok = False, tk_now = 1000, tk_obs = (\<lambda>_. ex_ob)\<rparr>"

lemma ex_config: "load_config (tk_resolve ex_site) (tk_json ex_site) = Some [ex_repo]"
  by (simp add: load_config_def ex_site_def DEFAULT_WATCH_REF_def ref_re_def ref_first_def slug_char_def ex_repo_def ex_ref_def Let_def)

lemma ex_budget_reset: "ex_dispatch_world\<lparr>cw_budget := 0\<rparr> = ex_dispatch_world"
  by (simp add: ex_dispatch_world_def ex_ctl_world_def)

lemma ex_tick: "tick lower hit sha cfg ex_site ex_dispatch_world = Some (process_repo lower hit sha cfg ex_ob ex_repo ex_dispatch_world)"
  unfolding tick_def ex_config ex_budget_reset by (simp add: ex_site_def)

theorem tick_within_budgets_witness:
  "\<exists>w'. tick id (\<lambda>_ _. False) (\<lambda>_. ''f'') ex_cfg ex_site ex_dispatch_world = Some w'
     \<and> cw_dispatched w' = [(''r'', ex_ref, ex_first, ex_head)] \<and> read_count True (cw_day w' ''20260301'') = 1"
proof -
  have "steady_day ''20260301'' (tk_obs ex_site rid)" for rid by (simp add: ex_site_def ex_ob_def steady_day_def)
  moreover have "read_count True File_Missing = 0" by (simp add: read_count_def)
  ultimately show ?thesis using tick_within_budgets [OF ex_tick [of id "\<lambda>_ _. False" "\<lambda>_. ''f''" ex_cfg], of "''20260301''"]
    by (auto simp: ex_tick ex_dispatched)
qed

text \<open>The daily limit fails open: a full counter stops the dispatch, and the same counter unread does not.\<close>

theorem unread_counter_dispatches:
  "let w = ex_dispatch_world\<lparr>cw_day := (\<lambda>_. File_Count 20)\<rparr> in
   dispatch ex_cfg ex_ob ex_repo ex_first ex_head w = w
   \<and> cw_dispatched (dispatch ex_cfg (ex_ob\<lparr>ob_day_read := (\<lambda>_. False)\<rparr>) ex_repo ex_first ex_head w) = [(''r'', ex_ref, ex_first, ex_head)]"
  by (simp add: ex_dispatch_world_def dispatch_def claim_dispatch_def claimable_def ex_ctl trigger_review_def trusted_script_def charge_day_def
      day_count_def read_count_def ex_shas Let_def)

section \<open>Dry runs\<close>

definition ex_dry :: ctl_config where
  "ex_dry = ex_cfg\<lparr>dry_run := True\<rparr>"

theorem dry_run_sends_nothing_witness:
  "\<exists>w'. tick id (\<lambda>_ _. False) (\<lambda>_. ''f'') ex_dry ex_site ex_dispatch_world = Some w' \<and> cw_dispatched w' = [] \<and> cw_skills w' = []"
proof -
  have "dry_run ex_dry" by (simp add: ex_dry_def)
  from dry_run_sends_nothing [OF this ex_tick [of id "\<lambda>_ _. False" "\<lambda>_. ''f''"]] show ?thesis by (simp add: ex_tick)
qed

text \<open>
  A dry run is documented to write nothing; it still advances the cursor of a repository whose
  completion marker is there, pins the commit, and takes the marker of a transient abort.
\<close>

theorem dry_run_still_writes:
  "let w' = process_repo id (\<lambda>_ _. False) (\<lambda>_. ''f'') ex_dry ex_offline ex_repo ex_pending_world in
   dry_run ex_dry \<and> reviewed_at ex_repo ex_pending_world = Some ex_first \<and> reviewed_at ex_repo w' = Some ex_head"
  by (simp add: ex_completed Let_def) (simp add: ex_dry_def)

section \<open>Skills\<close>

definition ex_skill_blob :: pytext where
  "ex_skill_blob = codes ''---'' @ [10] @ codes ''description: d'' @ [10] @ codes ''path_trigger: src/*.py'' @ [10]
     @ codes ''---'' @ [10] @ codes ''body''"

definition ex_skill_ob :: observed where
  "ex_skill_ob = ex_ob\<lparr>ob_nwo := Some ''o/r'', ob_prot := Some \<lparr>pr_reviews = True, pr_admins = True, pr_force = False\<rparr>,
     ob_tree := Out ''t'', ob_ls := Out [''skills/x1/SKILL.md''], ob_blob := (\<lambda>_. Out ex_skill_blob)\<rparr>"

definition ex_skill :: skill_item where
  "ex_skill = \<lparr>it_name = codes ''x1'', it_description = codes ''d'', it_body = codes ''body'', it_body_sha = ''f'', it_content_sha = ''f'',
     it_trigger = codes ''src/*.py''\<rparr>"

lemma ex_skill_path: "skill_of_path id (\<lambda>_ _. False) (\<lambda>_. ''f'') ex_skill_ob ''skills/x1/SKILL.md'' = Some (Index ex_skill)"
proof -
  have l: "lint_skill id (\<lambda>_ _. False) (codes ''x1'') ex_skill_blob
    = Inr \<lparr>sd_name = codes ''x1'', sd_description = codes ''d'', sd_body = codes ''body'', sd_trigger = codes ''src/*.py''\<rparr>"
    unfolding ex_skill_blob_def by (simp add: text_eval)
  have "\<not> is_unauthored_stub ex_skill_blob"
    by (simp add: is_unauthored_stub_def STUB_MARKER_def ex_skill_blob_def contains_def text_eval)
  moreover have "split_slash ''skills/x1/SKILL.md'' = [''skills'', ''x1'', ''SKILL.md'']" by (simp add: split_slash_def)
  moreover have "ob_blob ex_skill_ob p = Out ex_skill_blob" for p by (simp add: ex_skill_ob_def)
  ultimately show ?thesis by (simp add: skill_of_path_def l ex_skill_def)
qed

lemma ex_indexed:
  "cw_skills (process_repo id (\<lambda>_ _. False) (\<lambda>_. ''f'') ex_cfg ex_skill_ob ex_repo ex_dispatch_world) = fst (index_skills 1000 ''r'' [ex_skill] [])"
proof -
  let ?w = "ex_dispatch_world"
  let ?i = "index_repo_skills id (\<lambda>_ _. False) (\<lambda>_. ''f'') ex_cfg ex_skill_ob ex_repo ?w"
  have f: "arrive ex_skill_ob i v = v" "ob_nwo ex_skill_ob = Some ''o/r''" "ob_tree ex_skill_ob = Out ''t''" "ob_index_raises ex_skill_ob = False"
    "ob_now ex_skill_ob = 1000" "ob_ls ex_skill_ob = Out [''skills/x1/SKILL.md'']" "dry_run ex_cfg = False" for i v
    by (simp_all add: ex_skill_ob_def ex_ob_def ex_cfg_def arrive_def)
  have c: "pending_of (cursor_of ex_repo ?w) = None" by (simp add: ex_ctl ex_dispatch_world_def)
  have o: "observe_head ex_skill_ob = Some ex_head" by (simp add: observe_head_def remote_url_def ex_skill_ob_def ex_ob_def url_ok_def sublist_code ex_shas)
  have p: "branch_protection_ok ex_skill_ob ex_repo" "cw_blocked ?w = {}" "cw_tree ?w = Map.empty"
    by (simp_all add: branch_protection_ok_def ex_skill_ob_def branch_of_def ex_ref_def ex_dispatch_world_def sublist_code)
  have r: "read_skills (skill_of_path id (\<lambda>_ _. False) (\<lambda>_. ''f'') ex_skill_ob) [''skills/x1/SKILL.md''] = Some ([ex_skill], [])"
    by (simp add: ex_skill_path)
  have "process_repo id (\<lambda>_ _. False) (\<lambda>_. ''f'') ex_cfg ex_skill_ob ex_repo ?w
      = decide ex_cfg ex_skill_ob ex_repo ex_head (cursor_of ex_repo ?w) ?i"
    by (simp add: process_repo_def advance_pass_def transient_pass_def c f o)
  then have "cw_skills (process_repo id (\<lambda>_ _. False) (\<lambda>_. ''f'') ex_cfg ex_skill_ob ex_repo ?w) = cw_skills ?i"
    using decide_skill_part [of ex_cfg ex_skill_ob ex_repo ex_head "cursor_of ex_repo ?w" ?i] by (simp add: skill_part_def)
  also have "?i = store_skills ex_cfg ex_skill_ob ''r'' ''t'' ([ex_skill], []) (unblock ex_cfg ex_skill_ob ''r'' ?w)"
    unfolding index_repo_skills_def by (simp add: f p listing_def r Let_def del: read_skills.simps)
  also have "cw_skills \<dots> = fst (index_skills 1000 ''r'' [ex_skill] [])"
    by (simp add: store_skills_def f other_skills Let_def)
  finally show ?thesis .
qed

theorem skills_change_only_protected_witness:
  "\<exists>items. fst (index_skills 1000 ''r'' [ex_skill] []) = fst (index_skills 1000 ''r'' items []) \<and> items \<noteq> []
     \<and> list_all (accepted_document id (\<lambda>_ _. False) (\<lambda>_. ''f'') ex_skill_ob) items"
proof -
  let ?w = "process_repo id (\<lambda>_ _. False) (\<lambda>_. ''f'') ex_cfg ex_skill_ob ex_repo ex_dispatch_world"
  have ne: "fst (index_skills 1000 ''r'' [ex_skill] []) \<noteq> []"
    by (simp add: index_skills_def upsert_skill_def get_row_def Let_def split_beta upd_where_def)
  have e: "fst (index_skills 1000 ''r'' [] []) = []" by (simp add: index_skills_def upd_where_def)
  have "cw_skills ?w \<noteq> cw_skills ex_dispatch_world" unfolding ex_indexed using ne by simp
  from skills_change_only_protected [OF refl this] obtain items where
    "cw_skills ?w = fst (index_skills 1000 ''r'' items [])" "\<forall>i \<in> set items. accepted_document id (\<lambda>_ _. False) (\<lambda>_. ''f'') ex_skill_ob i"
    by (auto simp: ex_skill_ob_def ex_ob_def)
  with ne e show ?thesis unfolding ex_indexed by (intro exI [of _ items]) (auto simp: list_all_iff)
qed

section \<open>Targets\<close>

definition ex_huge :: git_sizes where
  "ex_huge = ex_small\<lparr>git_patch := (\<lambda>_ _. Some (replicate 60 120)), git_rev_list := Some [ex_head]\<rparr>"

lemma ex_skipped: "choose_review_target ex_huge ex_cfg ex_head = \<lparr>tg_mode = Advance, tg_sha = ex_head, tg_lines = 4, tg_bytes = 60\<rparr>"
proof -
  have "diff_lines ex_huge k h = Some 4" "diff_bytes ex_huge k h = Some 60" for k h
    by (simp_all add: diff_lines_def diff_bytes_def patch_size_def ex_huge_def ex_small_def numstat_total_def numstat_line_def line_break_def
        codes_def ascii_digit_def decimal_def Let_def)
  moreover have "git_rev_list ex_huge = Some [ex_head]" by (simp add: ex_huge_def)
  ultimately show ?thesis
    by (simp add: choose_review_target_def dl_def db_def new_sizer_def ex_cfg_def split_range_def walk_def try_commit_def first_commit_def ex_shas Let_def)
qed

theorem skip_only_unreviewable_witness:
  "oversized ex_cfg \<lparr>tg_mode = Advance, tg_sha = ex_head, tg_lines = 4, tg_bytes = 60\<rparr>
   \<or> diff_bytes ex_huge 0 ex_head = Some 0"
proof -
  have "stable ex_huge" by (simp add: stable_def ex_huge_def ex_small_def diff_lines_def diff_bytes_def)
  moreover have "0 < walk_cap ex_cfg" by (simp add: ex_cfg_def)
  ultimately show ?thesis using skip_only_unreviewable [OF _ _ ex_skipped] by simp
qed

section \<open>Marker names\<close>

text \<open>
  The completion marker is named after the directory with every other character made a dash, so two
  watched repositories can share it: a review of one commit in the first then advances the second.
\<close>

lemma markers_collide:
  "done_marker \<lparr>rp_id = ''my app'', rp_base = ''my app'', rp_ref = ex_ref\<rparr> ex_ref sha
   = done_marker \<lparr>rp_id = ''my-app'', rp_base = ''my-app'', rp_ref = ex_ref\<rparr> ex_ref sha"
  by (simp add: done_marker_def ref_slug_def slug_char_def)

end
