(* ===== verification/Automerge_Gate.thy ===== *)
theory Automerge_Gate
  imports Skillmatch
begin

text \<open>
  The pure core of \<^verbatim>\<open>src/runtime/automerge.py\<close>, its security boundary: the strict parser of
  \<^verbatim>\<open>git diff --raw -z\<close> and the classification of a change as documentation only. Bytes and code points
  are numbers; \<open>lower\<close> is Python's lower-casing. Shown here: the parser accepts exactly the outputs that
  are a sequence of complete entries, and what the classification admits.
\<close>

section \<open>Paths\<close>

definition DENY_DIRS :: "pytext list" where
  "DENY_DIRS = map codes [''.github'', ''.claude'', ''.codex'', ''.cursor'', ''.agents'', ''rules'', ''skills'', ''prompts'', ''substrate'']"

definition DENY_BASENAMES :: "pytext list" where
  "DENY_BASENAMES = map codes [''CLAUDE.md'', ''AGENTS.md'', ''GEMINI.md'', ''CODEOWNERS'', ''DESIGN.md'', ''.cursorrules'']"

definition is_denylisted :: "(pytext \<Rightarrow> pytext) \<Rightarrow> pytext \<Rightarrow> bool" where
  "is_denylisted lower path =
     (let parts = split_on 47 path; base = last parts; dirs = butlast parts; low = lower base in
      list_ex (\<lambda>d. d \<in> set DENY_DIRS) dirs
      \<or> base \<in> set DENY_BASENAMES
      \<or> (prefix (codes ''copilot'') low \<or> prefix (codes ''security'') low) \<and> suffix (codes ''.md'') low
      \<or> suffix (codes ''-design.md'') low \<or> suffix (codes ''-spec.md'') low
      \<or> path = codes ''docs/OPERATING.md'')"

definition doc_path :: "(pytext \<Rightarrow> pytext) \<Rightarrow> pytext \<Rightarrow> bool" where
  "doc_path lower path \<longleftrightarrow> suffix (codes ''.md'') path \<and> \<not> is_denylisted lower path"

section \<open>Decoding\<close>

type_synonym bytes = "nat list"

definition ascii_decode :: "bytes \<Rightarrow> pytext option" where
  "ascii_decode b = (if list_all (\<lambda>x. x < 128) b then Some b else None)"

definition cont :: "nat \<Rightarrow> bool" where
  "cont b \<longleftrightarrow> 128 \<le> b \<and> b \<le> 191"

text \<open>One character of strict UTF-8: no overlong form, no surrogate, nothing above U+10FFFF.\<close>

definition utf8_head :: "nat \<Rightarrow> bytes \<Rightarrow> (nat \<times> bytes) option" where
  "utf8_head a bs =
     (if a < 128 then Some (a, bs)
      else if 194 \<le> a \<and> a \<le> 223 then
        (case bs of b # r \<Rightarrow> if cont b then Some ((a - 192) * 64 + (b - 128), r) else None | _ \<Rightarrow> None)
      else if 224 \<le> a \<and> a \<le> 239 then
        (case bs of b # c # r \<Rightarrow>
            if cont b \<and> cont c \<and> (a = 224 \<longrightarrow> 160 \<le> b) \<and> (a = 237 \<longrightarrow> b \<le> 159)
            then Some ((a - 224) * 4096 + (b - 128) * 64 + (c - 128), r) else None
         | _ \<Rightarrow> None)
      else if 240 \<le> a \<and> a \<le> 244 then
        (case bs of b # c # d # r \<Rightarrow>
            if cont b \<and> cont c \<and> cont d \<and> (a = 240 \<longrightarrow> 144 \<le> b) \<and> (a = 244 \<longrightarrow> b \<le> 143)
            then Some ((a - 240) * 262144 + (b - 128) * 4096 + (c - 128) * 64 + (d - 128), r) else None
         | _ \<Rightarrow> None)
      else None)"

lemma utf8_head_shorter: "utf8_head a bs = Some (x, r) \<Longrightarrow> length r \<le> length bs"
  by (auto simp: utf8_head_def split: if_splits list.splits)

function utf8_decode :: "bytes \<Rightarrow> pytext option" where
  "utf8_decode [] = Some []"
| "utf8_decode (a # bs) =
     (case utf8_head a bs of None \<Rightarrow> None | Some (x, r) \<Rightarrow> map_option (Cons x) (utf8_decode r))"
  by pat_completeness auto
termination
  by (relation "measure length") (auto dest!: utf8_head_shorter)

section \<open>The raw diff\<close>

datatype raw_error = Not_Info bytes | Field_Count nat | Non_Ascii | Truncated pytext | Non_Utf8 bytes

record raw_entry =
  re_omode :: pytext
  re_nmode :: pytext
  re_status :: pytext
  re_paths :: "pytext list"

definition n_paths :: "pytext \<Rightarrow> nat" where
  "n_paths st = (if take 1 st = codes ''R'' \<or> take 1 st = codes ''C'' then 2 else 1)"

fun decode_paths :: "bytes list \<Rightarrow> raw_error + pytext list" where
  "decode_paths [] = Inr []"
| "decode_paths (p # ps) =
     (case utf8_decode p of None \<Rightarrow> Inl (Non_Utf8 p)
      | Some s \<Rightarrow> (case decode_paths ps of Inl e \<Rightarrow> Inl e | Inr ss \<Rightarrow> Inr (s # ss)))"

text \<open>One information line and the tokens behind it: an entry and the number of its paths.\<close>

definition parse_entry :: "bytes \<Rightarrow> bytes list \<Rightarrow> raw_error + raw_entry" where
  "parse_entry t rest =
     (if \<not> prefix [58] t then Inl (Not_Info t)
      else case split_on 32 (tl t) of
        [omode, nmode, osha, nsha, status] \<Rightarrow>
          (case (ascii_decode status, ascii_decode omode, ascii_decode nmode) of
             (Some st, Some om, Some nm) \<Rightarrow>
               (let raw = take (n_paths st) rest in
                if length raw \<noteq> n_paths st then Inl (Truncated st)
                else case decode_paths raw of
                  Inl e \<Rightarrow> Inl e
                | Inr ps \<Rightarrow> Inr \<lparr>re_omode = om, re_nmode = nm, re_status = st, re_paths = ps\<rparr>)
           | _ \<Rightarrow> Inl Non_Ascii)
      | fs \<Rightarrow> Inl (Field_Count (length fs)))"

function parse_tokens :: "bytes list \<Rightarrow> raw_error + raw_entry list" where
  "parse_tokens [] = Inr []"
| "parse_tokens (t # rest) =
     (case parse_entry t rest of
        Inl e \<Rightarrow> Inl e
      | Inr e \<Rightarrow> (case parse_tokens (drop (n_paths (re_status e)) rest) of Inl x \<Rightarrow> Inl x | Inr es \<Rightarrow> Inr (e # es)))"
  by pat_completeness auto
termination
  by (relation "measure length") (auto simp: le_imp_less_Suc)

definition tokens_of :: "bytes \<Rightarrow> bytes list" where
  "tokens_of out = (let toks = split_on 0 out in if last toks = [] then butlast toks else toks)"

definition parse_raw_z :: "bytes \<Rightarrow> raw_error + raw_entry list" where
  "parse_raw_z out = (if out = [] then Inr [] else parse_tokens (tokens_of out))"

section \<open>The class of a change\<close>

definition status_re :: "pytext \<Rightarrow> bool" where
  "status_re st =
     (let t = drop_final_newline st in
      t \<in> set (map codes [''A'', ''D'', ''M''])
      \<or> (take 1 t = codes ''R'' \<or> take 1 t = codes ''C'') \<and> 2 \<le> length t \<and> length t \<le> 4 \<and> list_all (\<lambda>c. 48 \<le> c \<and> c \<le> 57) (tl t))"

datatype class_why = Empty_Change | Bad_Status pytext | Not_Doc pytext | Bad_Modes pytext pytext

abbreviation regular_mode :: pytext where "regular_mode \<equiv> codes ''100644''"
abbreviation no_mode :: pytext where "no_mode \<equiv> codes ''000000''"

definition modes_ok :: "raw_entry \<Rightarrow> bool" where
  "modes_ok e =
     (let code = take 1 (re_status e) in
      if code = codes ''A'' then re_omode e = no_mode \<and> re_nmode e = regular_mode
      else if code = codes ''D'' then re_omode e = regular_mode \<and> re_nmode e = no_mode
      else re_omode e = regular_mode \<and> re_nmode e = regular_mode)"

text \<open>\<open>None\<close> is the verdict that the change is documentation only.\<close>

definition classify_entry :: "(pytext \<Rightarrow> pytext) \<Rightarrow> raw_entry \<Rightarrow> class_why option" where
  "classify_entry lower e =
     (if \<not> status_re (re_status e) then Some (Bad_Status (re_status e))
      else case find (\<lambda>p. \<not> doc_path lower p) (re_paths e) of
        Some p \<Rightarrow> Some (Not_Doc p)
      | None \<Rightarrow> if modes_ok e then None else Some (Bad_Modes (re_omode e) (re_nmode e)))"

fun classify_entries :: "(pytext \<Rightarrow> pytext) \<Rightarrow> raw_entry list \<Rightarrow> class_why option" where
  "classify_entries lower [] = None"
| "classify_entries lower (e # es) =
     (case classify_entry lower e of Some why \<Rightarrow> Some why | None \<Rightarrow> classify_entries lower es)"

definition classify_diff :: "(pytext \<Rightarrow> pytext) \<Rightarrow> raw_entry list \<Rightarrow> class_why option" where
  "classify_diff lower es = (if es = [] then Some Empty_Change else classify_entries lower es)"

section \<open>The parser is exact\<close>

text \<open>The tokens of an entry: its information line, then one path, or two for a rename or copy.\<close>

definition entry_tokens :: "raw_entry \<Rightarrow> bytes list \<Rightarrow> bool" where
  "entry_tokens e ts \<longleftrightarrow>
     (\<exists>osha nsha raw. ts = (58 # join_on [32] [re_omode e, re_nmode e, osha, nsha, re_status e]) # raw
        \<and> 32 \<notin> set (re_omode e @ re_nmode e @ osha @ nsha @ re_status e)
        \<and> is_ascii (re_omode e @ re_nmode e @ re_status e)
        \<and> length raw = n_paths (re_status e) \<and> map utf8_decode raw = map Some (re_paths e))"

lemma decode_paths_iff: "decode_paths raw = Inr ps \<longleftrightarrow> map utf8_decode raw = map Some ps"
proof (induction raw arbitrary: ps)
  case Nil
  show ?case by auto
next
  case (Cons p raw)
  show ?case
  proof (cases "utf8_decode p")
    case None
    then show ?thesis by (auto simp: Cons_eq_map_conv)
  next
    case (Some s)
    have "decode_paths (p # raw) = Inr ps \<longleftrightarrow> (\<exists>ss. decode_paths raw = Inr ss \<and> ps = s # ss)"
      using Some by (auto split: sum.splits)
    also have "\<dots> \<longleftrightarrow> map utf8_decode (p # raw) = map Some ps" using Some Cons.IH by (auto simp: Cons_eq_map_conv)
    finally show ?thesis .
  qed
qed

lemma ascii_decode_Some: "ascii_decode b = Some s \<longleftrightarrow> s = b \<and> is_ascii b"
  by (auto simp: ascii_decode_def is_ascii_def)

lemma split_five:
  "split_on 32 s = [a, b, c, d, e] \<longleftrightarrow> s = join_on [32] [a, b, c, d, e] \<and> 32 \<notin> set (a @ b @ c @ d @ e)"
proof
  assume l: "split_on 32 s = [a, b, c, d, e]"
  have "32 \<notin> set p" if "p \<in> {a, b, c, d, e}" for p using split_on_parts [of p 32 s] that by (auto simp: l)
  moreover have "s = join_on [32] [a, b, c, d, e]" using join_split [of 32 s] by (simp add: l)
  ultimately show "s = join_on [32] [a, b, c, d, e] \<and> 32 \<notin> set (a @ b @ c @ d @ e)" by simp
next
  assume r: "s = join_on [32] [a, b, c, d, e] \<and> 32 \<notin> set (a @ b @ c @ d @ e)"
  then show "split_on 32 s = [a, b, c, d, e]" using split_join [of "[a, b, c, d, e]" 32] by auto
qed

lemma parse_entry_fields:
  assumes "split_on 32 s = [om, nm, osha, nsha, st]"
  shows "parse_entry (58 # s) rest = Inr e \<longleftrightarrow> is_ascii (om @ nm @ st) \<and> re_omode e = om \<and> re_nmode e = nm \<and> re_status e = st
    \<and> n_paths st \<le> length rest \<and> map utf8_decode (take (n_paths st) rest) = map Some (re_paths e)"
proof (cases "is_ascii (om @ nm @ st)")
  case False
  then have "ascii_decode st = None \<or> ascii_decode om = None \<or> ascii_decode nm = None" by (auto simp: ascii_decode_def is_ascii_def)
  with False assms show ?thesis by (auto simp: parse_entry_def split: option.splits)
next
  case True
  then have d: "ascii_decode st = Some st" "ascii_decode om = Some om" "ascii_decode nm = Some nm"
    by (simp_all add: ascii_decode_def is_ascii_def)
  have "parse_entry (58 # s) rest = Inr e \<longleftrightarrow> length (take (n_paths st) rest) = n_paths st
      \<and> (\<exists>ps. decode_paths (take (n_paths st) rest) = Inr ps \<and> e = \<lparr>re_omode = om, re_nmode = nm, re_status = st, re_paths = ps\<rparr>)"
    using assms d by (auto simp: parse_entry_def Let_def split: sum.splits)
  also have "length (take (n_paths st) rest) = n_paths st \<longleftrightarrow> n_paths st \<le> length rest" by auto
  finally show ?thesis using True by (cases e) (auto simp: decode_paths_iff)
qed

lemma parse_entry_iff:
  "parse_entry t rest = Inr e \<longleftrightarrow> n_paths (re_status e) \<le> length rest \<and> entry_tokens e (t # take (n_paths (re_status e)) rest)"
proof
  assume p: "parse_entry t rest = Inr e"
  then obtain s where t: "t = 58 # s" by (cases t) (auto simp: parse_entry_def split: if_splits)
  with p obtain om nm osha nsha st where f: "split_on 32 s = [om, nm, osha, nsha, st]"
    by (auto simp: parse_entry_def split: list.splits)
  from p have "is_ascii (om @ nm @ st) \<and> re_omode e = om \<and> re_nmode e = nm \<and> re_status e = st
      \<and> n_paths st \<le> length rest \<and> map utf8_decode (take (n_paths st) rest) = map Some (re_paths e)"
    unfolding t parse_entry_fields [OF f] .
  with f [unfolded split_five] show "n_paths (re_status e) \<le> length rest \<and> entry_tokens e (t # take (n_paths (re_status e)) rest)"
    unfolding entry_tokens_def t by auto
next
  assume r: "n_paths (re_status e) \<le> length rest \<and> entry_tokens e (t # take (n_paths (re_status e)) rest)"
  then obtain osha nsha where t: "t = 58 # join_on [32] [re_omode e, re_nmode e, osha, nsha, re_status e]"
    and o: "32 \<notin> set (re_omode e @ re_nmode e @ osha @ nsha @ re_status e)" "is_ascii (re_omode e @ re_nmode e @ re_status e)"
      "map utf8_decode (take (n_paths (re_status e)) rest) = map Some (re_paths e)"
    unfolding entry_tokens_def by auto
  have f: "split_on 32 (join_on [32] [re_omode e, re_nmode e, osha, nsha, re_status e]) = [re_omode e, re_nmode e, osha, nsha, re_status e]"
    using o(1) split_five by blast
  show "parse_entry t rest = Inr e" unfolding t parse_entry_fields [OF f] using r o by simp
qed

lemma entry_tokens_length: "entry_tokens e ts \<Longrightarrow> \<exists>t raw. ts = t # raw \<and> length raw = n_paths (re_status e)"
  by (auto simp: entry_tokens_def)

lemma parse_tokens_iff: "parse_tokens toks = Inr es \<longleftrightarrow> (\<exists>tss. list_all2 entry_tokens es tss \<and> concat tss = toks)"
proof (induction toks arbitrary: es rule: parse_tokens.induct)
  case 1
  have "entry_tokens e [] \<Longrightarrow> False" for e by (simp add: entry_tokens_def)
  then show ?case by (cases es) (auto simp: list_all2_Cons1)
next
  case (2 t rest)
  have IH: "parse_tokens (drop (n_paths (re_status e)) rest) = Inr es'
      \<longleftrightarrow> (\<exists>tss. list_all2 entry_tokens es' tss \<and> concat tss = drop (n_paths (re_status e)) rest)"
    if "parse_entry t rest = Inr e" for e es' using 2 that by blast
  show ?case
  proof
    assume "parse_tokens (t # rest) = Inr es"
    then obtain e es' where e: "parse_entry t rest = Inr e" "parse_tokens (drop (n_paths (re_status e)) rest) = Inr es'" "es = e # es'"
      by (auto split: sum.splits)
    then obtain tss where tss: "list_all2 entry_tokens es' tss" "concat tss = drop (n_paths (re_status e)) rest" using IH by blast
    show "\<exists>tss. list_all2 entry_tokens es tss \<and> concat tss = t # rest"
      by (rule exI [of _ "(t # take (n_paths (re_status e)) rest) # tss"]) (use e tss parse_entry_iff in auto)
  next
    assume "\<exists>tss. list_all2 entry_tokens es tss \<and> concat tss = t # rest"
    then obtain e es' ts tss where s: "es = e # es'" "entry_tokens e ts" "list_all2 entry_tokens es' tss" "ts @ concat tss = t # rest"
      by (cases es) (auto simp: list_all2_Cons1)
    then obtain raw where raw: "ts = t # raw" "length raw = n_paths (re_status e)" "raw @ concat tss = rest"
      using entry_tokens_length [OF s(2)] by auto
    then have "take (n_paths (re_status e)) rest = raw" "drop (n_paths (re_status e)) rest = concat tss" by auto
    moreover then have p: "parse_entry t rest = Inr e" using s(2) raw by (auto simp: parse_entry_iff)
    ultimately have "parse_tokens (drop (n_paths (re_status e)) rest) = Inr es'" using s(3) IH [OF p, of es'] by metis
    with p s(1) show "parse_tokens (t # rest) = Inr es" by simp
  qed
qed

text \<open>
  C31. The diff parser neither skips nor invents: it accepts an output exactly when its tokens are, in
  order and without remainder, the tokens of the entries it returns, each an information line of five
  fields and one path, or two paths for a rename or a copy, in strict UTF-8.
\<close>

theorem parse_raw_z_exact:
  "parse_raw_z out = Inr es \<longleftrightarrow>
     (\<exists>tss. list_all2 entry_tokens es tss \<and> concat tss = (if out = [] then [] else tokens_of out))"
proof (cases "out = []")
  case True
  then show ?thesis using parse_tokens_iff [of "[]" es] by (auto simp: parse_raw_z_def)
next
  case False
  then show ?thesis by (simp add: parse_raw_z_def parse_tokens_iff)
qed

section \<open>What the classification admits\<close>

definition docs_only :: "(pytext \<Rightarrow> pytext) \<Rightarrow> raw_entry \<Rightarrow> bool" where
  "docs_only lower e \<longleftrightarrow> status_re (re_status e) \<and> modes_ok e \<and> (\<forall>p \<in> set (re_paths e). doc_path lower p)"

lemma classify_entry_None: "classify_entry lower e = None \<longleftrightarrow> docs_only lower e"
proof -
  have "find (\<lambda>p. \<not> doc_path lower p) (re_paths e) = None \<longleftrightarrow> (\<forall>p \<in> set (re_paths e). doc_path lower p)"
    by (auto simp: find_None_iff)
  then show ?thesis
    by (cases "find (\<lambda>p. \<not> doc_path lower p) (re_paths e)") (simp_all add: classify_entry_def docs_only_def)
qed

lemma classify_diff_None: "classify_diff lower es = None \<longleftrightarrow> es \<noteq> [] \<and> (\<forall>e \<in> set es. docs_only lower e)"
proof -
  have "classify_entries lower es = None \<longleftrightarrow> (\<forall>e \<in> set es. docs_only lower e)"
    by (induction es) (auto simp: classify_entry_None [symmetric] split: option.splits)
  then show ?thesis by (auto simp: classify_diff_def)
qed

text \<open>An admitted entry is a regular file on every side it has, and lies under no denied directory.\<close>

lemma docs_only_inert:
  assumes "docs_only lower e"
  shows "re_omode e \<in> {no_mode, regular_mode}" "re_nmode e \<in> {no_mode, regular_mode}" "re_omode e = regular_mode \<or> re_nmode e = regular_mode"
    "p \<in> set (re_paths e) \<Longrightarrow> suffix (codes ''.md'') p"
    "p \<in> set (re_paths e) \<Longrightarrow> set (butlast (split_on 47 p)) \<inter> set DENY_DIRS = {}"
    "p \<in> set (re_paths e) \<Longrightarrow> last (split_on 47 p) \<notin> set DENY_BASENAMES"
  using assms
  by (auto simp: docs_only_def modes_ok_def doc_path_def is_denylisted_def Let_def list_ex_iff split: if_splits)

end
