(* ===== verification/Automerge.thy ===== *)
theory Automerge
  imports Automerge_Gate Chunker Cursors
begin

text \<open>
  \<^verbatim>\<open>src/runtime/automerge.py\<close> around its pure gate: the knobs, the counters in the state directory, the
  evaluation of one pull request and the tick. What gh, git, the review script and the file system answer
  is the record \<open>am_obs\<close>; an answer may also be an exception, which nothing catches, so it ends the tick.
  The state holds the counters, the decision table, the shadow markers and, to state what the gate
  protects, every merge that reached the server and every paid review. The wording of a recorded reason
  is an argument.
\<close>

section \<open>Knobs\<close>

record am_config =
  am_max_tick :: nat
  am_max_day :: nat
  am_max_author_day :: nat
  am_authors :: "pytext list"
  am_max_diff :: nat
  am_max_diff_lines :: nat
  am_max_attempts :: nat
  am_rate_floor :: nat
  am_shadow_code :: bool
  am_dry_run :: bool
  am_test_mode :: bool
  am_override :: bool
  am_fake_verdict :: string

definition parse_authors :: "pytext \<Rightarrow> pytext list" where
  "parse_authors raw = filter (\<lambda>a. a \<noteq> []) (map strip (split_on 44 raw))"

definition env_flag :: "pytext option \<Rightarrow> bool" where
  "env_flag v \<longleftrightarrow> v = Some [49]"

definition mk_am_config :: "environ \<Rightarrow> string \<Rightarrow> am_config" where
  "mk_am_config e fake =
     \<lparr>am_max_tick = int_env (e ''MYNDAIX_AUTOMERGE_MAX_TICK'') 1,
      am_max_day = int_env (e ''MYNDAIX_AUTOMERGE_MAX_DAY'') 3,
      am_max_author_day = int_env (e ''MYNDAIX_AUTOMERGE_MAX_AUTHOR_DAY'') 1,
      am_authors = parse_authors (case e ''MYNDAIX_AUTOMERGE_AUTHORS'' of None \<Rightarrow> codes ''redeyefit'' | Some s \<Rightarrow> s),
      am_max_diff = int_env (e ''MYNDAIX_AUTOMERGE_MAX_DIFF'') 262144,
      am_max_diff_lines = int_env (e ''MYNDAIX_AUTOMERGE_MAX_DIFF_LINES'') 2000,
      am_max_attempts = int_env (e ''MYNDAIX_AUTOMERGE_MAX_REVIEW_ATTEMPTS'') 3,
      am_rate_floor = int_env (e ''MYNDAIX_AUTOMERGE_RATE_FLOOR'') 100,
      am_shadow_code = env_flag (e ''MYNDAIX_AUTOMERGE_SHADOW_CODE''),
      am_dry_run = (env_flag (e ''MYNDAIX_AUTOMERGE_DRY_RUN'') \<or> env_flag (e ''MYNDAIX_AUTOMERGE_SHADOW_CODE'')),
      am_test_mode = env_flag (e ''MYNDAIX_AUTOMERGE_TEST_MODE''),
      am_override = (e ''MYNDAIX_AUTOMERGE_MERGE_OVERRIDE'' \<notin> {None, Some []}),
      am_fake_verdict = fake\<rparr>"

text \<open>The pattern ends in a dollar, which a final newline also satisfies.\<close>

definition am_sha_re :: "string \<Rightarrow> bool" where
  "am_sha_re s \<longleftrightarrow> sha_re s \<or> (s \<noteq> [] \<and> last s = CHR 0x0A \<and> sha_re (butlast s))"

section \<open>Answers and state\<close>

text \<open>A command answers, fails, or raises. A failed gh call and an answer of the wrong shape are the same.\<close>

datatype 'a ans = Ans 'a | Fail | Raise

record pull =
  pl_number :: "int option"
  pl_head :: string
  pl_base :: string
  pl_author :: "pytext option"
  pl_draft :: bool
  pl_cross :: bool
  pl_merge :: string

datatype check_run = Bad_Json | Check "string option" "string option"

datatype verdict_file = No_Verdict | Not_Dict | Verdict "string option" "string option" "string option" "string option"

record review_obs =
  ro_dir_ok :: bool
  ro_run_id :: string
  ro_rc :: "int option"
  ro_verdict :: verdict_file

record pr_view =
  vw_state :: string
  vw_head :: string
  vw_base :: string
  vw_merge :: string

datatype put_reply = Put_Raises | Put_Unconfirmed | Put_Merged

text \<open>
  The files the gate counts in. \<open>ao_read_ok\<close> says whether one can be read when the caps are checked (0) and
  when a merge or a transient review is counted (1); a write that fails leaves the file as it was.
  \<open>ao_day\<close> is the UTC day the clock shows at each of its five reads: the day's cap (0), the author's cap (1),
  and in the charge the day's file (2), the day's count (3) and the author's file (4).
\<close>

datatype am_file = Day_File | Author_File pytext | Attempt_File | Shadow_File | Seam_File

record am_obs =
  ao_queue :: "string option list ans"
  ao_fetch :: "unit ans"
  ao_hpin :: "string option"
  ao_mpin :: "string option"
  ao_merge_base :: "string ans"
  ao_raw :: "bytes ans"
  ao_content :: "bytes ans"
  ao_numstat :: "pytext ans"
  ao_ci :: "check_run list ans"
  ao_review :: review_obs
  ao_view :: "pr_view ans"
  ao_queue2 :: "string option list ans"
  ao_ci2 :: "check_run list ans"
  ao_put_merged :: bool
  ao_put :: put_reply
  ao_write_ok :: "am_file \<Rightarrow> bool"
  ao_read_ok :: "nat \<Rightarrow> am_file \<Rightarrow> bool"
  ao_day :: "nat \<Rightarrow> string"

datatype counter = Absent | Count int | Corrupt

record am_world =
  aw_day :: "string \<Rightarrow> counter"
  aw_author_day :: "string \<Rightarrow> pytext \<Rightarrow> counter"
  aw_attempts :: "int \<times> string \<Rightarrow> counter"
  aw_shadow :: "(int \<times> string) set"
  aw_dirs :: "string set"
  aw_budget :: nat
  aw_decisions :: "automerge_row list"
  aw_reviews :: "(int \<times> string) list"
  aw_merged :: "(int \<times> string) list"
  aw_seam :: "(int \<times> string \<times> string) list"

section \<open>Counters\<close>

text \<open>A file that exists and cannot be read, or holds no number, counts as over every cap.\<close>

definition count_of :: "bool \<Rightarrow> counter \<Rightarrow> int" where
  "count_of readable c = (case c of Absent \<Rightarrow> 0 | Count n \<Rightarrow> if readable then n else 2 ^ 30 | Corrupt \<Rightarrow> 2 ^ 30)"

definition charge :: "am_obs \<Rightarrow> pytext \<Rightarrow> am_world \<Rightarrow> am_world" where
  "charge ob author w =
     (if \<not> ao_write_ok ob Day_File then w
      else
        (let w1 = w\<lparr>aw_day := (aw_day w)(ao_day ob 2 := Count (count_of (ao_read_ok ob 1 Day_File) (aw_day w (ao_day ob 3)) + 1))\<rparr>;
             q = ao_day ob 4;
             c = count_of (ao_read_ok ob 1 (Author_File author)) (aw_author_day w1 q author) + 1
         in if \<not> ao_write_ok ob (Author_File author) then w1
            else w1\<lparr>aw_author_day := (aw_author_day w1)(q := (aw_author_day w1 q)(author := Count c))\<rparr>))"

definition bump_attempt :: "am_obs \<Rightarrow> int \<times> string \<Rightarrow> am_world \<Rightarrow> am_world \<times> int" where
  "bump_attempt ob k w =
     (if ao_write_ok ob Attempt_File
      then (let c = count_of (ao_read_ok ob 1 Attempt_File) (aw_attempts w k) + 1 in (w\<lparr>aw_attempts := (aw_attempts w)(k := Count c)\<rparr>, c))
      else (w, 2 ^ 30))"

section \<open>Checks\<close>

fun ci_runs :: "check_run list \<Rightarrow> bool option" where
  "ci_runs [] = Some True"
| "ci_runs (Bad_Json # rs) = None"
| "ci_runs (Check st co # rs) =
     (if st \<noteq> Some ''completed'' then None else if co \<noteq> Some ''success'' then Some False else ci_runs rs)"

text \<open>\<open>None\<close> outside is an exception, \<open>Some None\<close> a transient answer.\<close>

definition ci_green :: "check_run list ans \<Rightarrow> bool option option" where
  "ci_green a = (case a of Raise \<Rightarrow> None | Fail \<Rightarrow> Some None | Ans rs \<Rightarrow> Some (if rs = [] then None else ci_runs rs))"

definition merge_queue :: "string option list ans \<Rightarrow> bool option option" where
  "merge_queue a = (case a of Raise \<Rightarrow> None | Fail \<Rightarrow> Some None | Ans ts \<Rightarrow> Some (Some (Some ''merge_queue'' \<in> set ts)))"

definition review_pass :: "am_config \<Rightarrow> review_obs \<Rightarrow> string \<Rightarrow> string \<Rightarrow> string option" where
  "review_pass cfg ro B H =
     (if am_test_mode cfg then Some (am_fake_verdict cfg)
      else if \<not> ro_dir_ok ro then Some ''transient''
      else case ro_rc ro of
        None \<Rightarrow> Some ''transient''
      | Some rc \<Rightarrow>
          (case ro_verdict ro of
             No_Verdict \<Rightarrow> Some ''transient''
           | Not_Dict \<Rightarrow> None
           | Verdict rid b h v \<Rightarrow>
               (let fresh = (rid = Some (ro_run_id ro) \<and> b = Some B \<and> h = Some H) in
                if rc = 0 \<and> fresh \<and> v = Some ''PASS'' then Some ''pass''
                else if rc = 1 \<and> fresh \<and> v = Some ''NEEDS-FIX'' then Some ''needs_fix''
                else Some ''transient'')))"

definition mergeable :: "string \<Rightarrow> bool" where
  "mergeable st \<longleftrightarrow> st = ''CLEAN'' \<or> st = ''BEHIND''"

text \<open>The recheck before the merge; \<open>None\<close> is an exception.\<close>

definition recheck :: "am_obs \<Rightarrow> string \<Rightarrow> string \<Rightarrow> bool option" where
  "recheck ob H M =
     (case ao_view ob of
        Raise \<Rightarrow> None
      | Fail \<Rightarrow> Some False
      | Ans v \<Rightarrow>
          if vw_state v \<noteq> ''OPEN'' \<or> vw_head v \<noteq> H \<or> vw_base v \<noteq> M then Some False
          else if \<not> mergeable (vw_merge v) then Some False
          else case merge_queue (ao_queue2 ob) of
            None \<Rightarrow> None
          | Some q \<Rightarrow> if q \<noteq> Some False then Some False else map_option (\<lambda>c. c = Some True) (ci_green (ao_ci2 ob)))"

section \<open>One pull request\<close>

datatype am_reason =
    Fork_PR
  | Author_Not_Allowed "pytext option"
  | Unparseable raw_error
  | Not_Docs class_why
  | Over_Bytes nat
  | Over_Lines nat
  | CI_Failed
  | Review_Transient int
  | Review_Needs_Fix
  | Seam_Merge
  | Merge_Done

datatype am_end = Crashed | Deferred | Decided merge_decision am_reason

text \<open>A gate ends the evaluation or lets it go on.\<close>

definition scope_gate :: "am_config \<Rightarrow> am_obs \<Rightarrow> pull \<Rightarrow> am_end option" where
  "scope_gate cfg ob pr =
     (if \<not> (am_sha_re (pl_head pr) \<and> am_sha_re (pl_base pr)) then Some Deferred
      else if pl_draft pr then Some Deferred
      else if pl_cross pr then Some (Decided Skipped Fork_PR)
      else if pl_author pr \<notin> Some ` set (am_authors cfg) then Some (Decided Skipped (Author_Not_Allowed (pl_author pr)))
      else if \<not> mergeable (pl_merge pr) then Some Deferred
      else case merge_queue (ao_queue ob) of None \<Rightarrow> Some Crashed | Some q \<Rightarrow> if q \<noteq> Some False then Some Deferred else None)"

text \<open>The base of the range that is judged.\<close>

definition pin_range :: "am_obs \<Rightarrow> pull \<Rightarrow> am_end + string" where
  "pin_range ob pr =
     (case ao_fetch ob of
        Raise \<Rightarrow> Inl Crashed
      | Fail \<Rightarrow> Inl Deferred
      | Ans _ \<Rightarrow>
          (case (ao_hpin ob, ao_mpin ob) of
             (Some hpin, Some mpin) \<Rightarrow>
               if hpin \<noteq> pl_head pr then Inl Deferred
               else if \<not> am_sha_re mpin then Inl Deferred
               else (case ao_merge_base ob of
                       Raise \<Rightarrow> Inl Crashed
                     | Fail \<Rightarrow> Inl Deferred
                     | Ans b \<Rightarrow> if am_sha_re b then Inr b else Inl Deferred)
           | _ \<Rightarrow> Inl Crashed))"

definition class_gate :: "(pytext \<Rightarrow> pytext) \<Rightarrow> am_config \<Rightarrow> am_obs \<Rightarrow> am_end option" where
  "class_gate lower cfg ob =
     (case ao_raw ob of
        Raise \<Rightarrow> Some Crashed
      | Fail \<Rightarrow> Some Deferred
      | Ans out \<Rightarrow>
          (case parse_raw_z out of
             Inl e \<Rightarrow> Some (Decided Skipped (Unparseable e))
           | Inr es \<Rightarrow>
               (case classify_diff lower es of
                  None \<Rightarrow> None
                | Some why \<Rightarrow> if am_shadow_code cfg then None else Some (Decided Skipped (Not_Docs why)))))"

definition size_gate :: "am_config \<Rightarrow> am_obs \<Rightarrow> am_end option" where
  "size_gate cfg ob =
     (case ao_content ob of
        Raise \<Rightarrow> Some Crashed
      | Fail \<Rightarrow> Some Deferred
      | Ans c \<Rightarrow>
          if patch_size c > am_max_diff cfg then Some (Decided Skipped (Over_Bytes (patch_size c)))
          else case ao_numstat ob of
            Raise \<Rightarrow> Some Crashed
          | Fail \<Rightarrow> Some Deferred
          | Ans ns \<Rightarrow> if numstat_total ns > am_max_diff_lines cfg then Some (Decided Skipped (Over_Lines (numstat_total ns))) else None)"

definition ci_gate :: "am_obs \<Rightarrow> am_end option" where
  "ci_gate ob =
     (case ci_green (ao_ci ob) of
        None \<Rightarrow> Some Crashed
      | Some None \<Rightarrow> Some Deferred
      | Some (Some False) \<Rightarrow> Some (Decided Skipped CI_Failed)
      | Some (Some True) \<Rightarrow> None)"

definition cap_gate :: "am_config \<Rightarrow> am_obs \<Rightarrow> int \<Rightarrow> pull \<Rightarrow> pytext \<Rightarrow> am_world \<Rightarrow> am_end option" where
  "cap_gate cfg ob n pr author w =
     (if aw_budget w \<ge> am_max_tick cfg then Some Deferred
      else if \<not> am_dry_run cfg \<and> count_of (ao_read_ok ob 0 Day_File) (aw_day w (ao_day ob 0)) \<ge> int (am_max_day cfg) then Some Deferred
      else if \<not> am_dry_run cfg \<and> count_of (ao_read_ok ob 0 (Author_File author)) (aw_author_day w (ao_day ob 1) author) \<ge> int (am_max_author_day cfg)
      then Some Deferred
      else if am_shadow_code cfg \<and> (n, take 16 (pl_head pr)) \<in> aw_shadow w then Some Deferred
      else None)"

text \<open>
  The shadow marker is a file whose name starts with \<^verbatim>\<open>shadow-\<close> and the full name of the repository,
  owner and slash included, so that it lies in a directory of its own. Touching it makes no directory.
\<close>

definition shadow_parent :: "string \<Rightarrow> string option" where
  "shadow_parent nwo =
     (if CHR ''/'' \<in> set nwo then Some (''shadow-'' @ rev (tl (dropWhile (\<lambda>c. c \<noteq> CHR ''/'') (rev nwo)))) else None)"

definition can_touch :: "am_obs \<Rightarrow> string \<Rightarrow> am_world \<Rightarrow> bool" where
  "can_touch ob nwo w \<longleftrightarrow> ao_write_ok ob Shadow_File \<and> (case shadow_parent nwo of None \<Rightarrow> True | Some d \<Rightarrow> d \<in> aw_dirs w)"

definition merge_step :: "am_config \<Rightarrow> am_obs \<Rightarrow> string \<Rightarrow> int \<Rightarrow> pull \<Rightarrow> pytext \<Rightarrow> string \<Rightarrow> am_world \<Rightarrow> am_world \<times> am_end" where
  "merge_step cfg ob nwo n pr author B w =
     (let H = pl_head pr in
      if am_dry_run cfg then
        (if am_shadow_code cfg
         then if can_touch ob nwo w then (w\<lparr>aw_shadow := insert (n, take 16 H) (aw_shadow w)\<rparr>, Deferred) else (w, Crashed)
         else (w, Deferred))
      else if am_test_mode cfg \<and> am_override cfg then
        (if ao_write_ok ob Seam_File
         then (charge ob author (w\<lparr>aw_seam := aw_seam w @ [(n, H, B)], aw_budget := aw_budget w + 1\<rparr>), Decided Merged Seam_Merge)
         else (w, Crashed))
      else case recheck ob H (pl_base pr) of
        None \<Rightarrow> (w, Crashed)
      | Some False \<Rightarrow> (w, Deferred)
      | Some True \<Rightarrow>
          (let w1 = (if ao_put_merged ob then w\<lparr>aw_merged := aw_merged w @ [(n, H)]\<rparr> else w) in
           case ao_put ob of
             Put_Raises \<Rightarrow> (w1, Crashed)
           | Put_Unconfirmed \<Rightarrow> (w1, Deferred)
           | Put_Merged \<Rightarrow> (charge ob author (w1\<lparr>aw_budget := aw_budget w1 + 1\<rparr>), Decided Merged Merge_Done)))"

definition review_step :: "am_config \<Rightarrow> am_obs \<Rightarrow> string \<Rightarrow> int \<Rightarrow> pull \<Rightarrow> pytext \<Rightarrow> string \<Rightarrow> am_world \<Rightarrow> am_world \<times> am_end" where
  "review_step cfg ob nwo n pr author B w =
     (let H = pl_head pr; w1 = w\<lparr>aw_reviews := aw_reviews w @ [(n, H)]\<rparr> in
      case review_pass cfg (ao_review ob) B H of
        None \<Rightarrow> (w1, Crashed)
      | Some verdict \<Rightarrow>
          if verdict = ''transient'' then
            (let (w2, attempts) = bump_attempt ob (n, H) w1 in
             (w2, if attempts \<ge> int (am_max_attempts cfg) then Decided Skipped (Review_Transient attempts) else Deferred))
          else if verdict = ''needs_fix'' then (w1, Decided Needs_Fix Review_Needs_Fix)
          else merge_step cfg ob nwo n pr author B w1)"

definition first_end :: "am_end option list \<Rightarrow> am_end option" where
  "first_end gs = (case find (\<lambda>g. g \<noteq> None) gs of None \<Rightarrow> None | Some g \<Rightarrow> g)"

definition evaluate_pr :: "(pytext \<Rightarrow> pytext) \<Rightarrow> am_config \<Rightarrow> am_obs \<Rightarrow> string \<Rightarrow> int \<Rightarrow> pull \<Rightarrow> am_world \<Rightarrow> am_world \<times> am_end" where
  "evaluate_pr lower cfg ob nwo n pr w =
     (case scope_gate cfg ob pr of
        Some e \<Rightarrow> (w, e)
      | None \<Rightarrow>
          (let author = (case pl_author pr of None \<Rightarrow> [] | Some a \<Rightarrow> a) in
           case pin_range ob pr of
             Inl e \<Rightarrow> (w, e)
           | Inr B \<Rightarrow>
               (case first_end [class_gate lower cfg ob, size_gate cfg ob, ci_gate ob, cap_gate cfg ob n pr author w] of
                  Some e \<Rightarrow> (w, e)
                | None \<Rightarrow> review_step cfg ob nwo n pr author B w)))"

section \<open>The tick\<close>

definition out_of_budget :: "am_config \<Rightarrow> am_world \<Rightarrow> bool" where
  "out_of_budget cfg w \<longleftrightarrow> aw_budget w \<ge> am_max_tick cfg"

text \<open>The loop over the listed pull requests; the flag says whether it ended without an exception.\<close>

fun run_prs ::
  "(pytext \<Rightarrow> pytext) \<Rightarrow> (am_reason \<Rightarrow> string) \<Rightarrow> am_config \<Rightarrow> time \<Rightarrow> string \<Rightarrow> string \<Rightarrow> (pull \<times> am_obs) list \<Rightarrow> am_world
     \<Rightarrow> am_world \<times> bool" where
  "run_prs lower wording cfg now rid nwo [] w = (w, True)"
| "run_prs lower wording cfg now rid nwo ((pr, ob) # prs) w =
     (case pl_number pr of
        None \<Rightarrow> run_prs lower wording cfg now rid nwo prs w
      | Some n \<Rightarrow>
          if \<not> am_sha_re (pl_head pr) \<or> automerge_decision rid n (pl_head pr) (aw_decisions w) \<noteq> None
          then run_prs lower wording cfg now rid nwo prs w
          else case evaluate_pr lower cfg ob nwo n pr w of
            (w1, Crashed) \<Rightarrow> (w1, False)
          | (w1, Deferred) \<Rightarrow>
              if out_of_budget cfg w1 then (w1, True) else run_prs lower wording cfg now rid nwo prs w1
          | (w1, Decided d why) \<Rightarrow>
              (case record_automerge now rid n (pl_head pr) d (Some (wording why)) (aw_decisions w1) of
                 None \<Rightarrow> (w1, False)
               | Some T \<Rightarrow>
                   (let w2 = w1\<lparr>aw_decisions := T\<rparr> in
                    if out_of_budget cfg w2 then (w2, True) else run_prs lower wording cfg now rid nwo prs w2)))"

text \<open>
  The watched repository is the first entry of the trusted list whose full name gh resolves to a name
  with a slash; the entries that are not git repositories are left out of the argument.
\<close>

fun load_repo :: "(string \<times> string ans) list \<Rightarrow> (string \<times> string) option ans" where
  "load_repo [] = Ans None"
| "load_repo ((rid, a) # cands) =
     (case a of
        Raise \<Rightarrow> Raise
      | Fail \<Rightarrow> load_repo cands
      | Ans nwo \<Rightarrow> if CHR ''/'' \<in> set nwo then Ans (Some (rid, nwo)) else load_repo cands)"

record am_site =
  as_repos :: "(string \<times> string ans) list"
  as_enabled :: bool
  as_rate :: "int ans"
  as_lock :: bool
  as_prs :: "(pull \<times> am_obs) list ans"
  as_now :: time

definition am_tick :: "(pytext \<Rightarrow> pytext) \<Rightarrow> (am_reason \<Rightarrow> string) \<Rightarrow> am_config \<Rightarrow> am_site \<Rightarrow> am_world \<Rightarrow> am_world \<times> bool" where
  "am_tick lower wording cfg site w =
     (case load_repo (as_repos site) of
        Ans (Some (rid, nwo)) \<Rightarrow>
          (if \<not> as_enabled site then (w, True)
           else case as_rate site of
             Raise \<Rightarrow> (w, False)
           | Fail \<Rightarrow> (w, True)
           | Ans remaining \<Rightarrow>
               if remaining < int (am_rate_floor cfg) \<or> \<not> as_lock site then (w, True)
               else case as_prs site of
                 Raise \<Rightarrow> (w, False)
               | Fail \<Rightarrow> (w, True)
               | Ans prs \<Rightarrow> run_prs lower wording cfg (as_now site) rid nwo prs (w\<lparr>aw_budget := 0\<rparr>))
      | Raise \<Rightarrow> (w, False)
      | _ \<Rightarrow> (w, True))"

end
