(* ===== verification/Automerge_Props.thy ===== *)
theory Automerge_Props
  imports Automerge
begin

text \<open>
  Properties of the auto-merge gate: a merge that reaches the server passed every gate, the caps bound
  the confirmed merges, a decided head is left alone, and what the shadow mode does to its marker.
\<close>

section \<open>The gates of an evaluation\<close>

lemma first_end_None: "first_end gs = None \<longleftrightarrow> set gs \<subseteq> {None}"
  by (induction gs) (auto simp: first_end_def)

lemma evaluate_cases:
  obtains (ended) "fst (evaluate_pr lower cfg ob nwo n pr w) = w"
  | (review) B author where "scope_gate cfg ob pr = None" "pl_author pr = Some author" "pin_range ob pr = Inr B"
      "class_gate lower cfg ob = None" "size_gate cfg ob = None" "ci_gate ob = None" "cap_gate cfg ob n pr author w = None"
      "evaluate_pr lower cfg ob nwo n pr w = review_step cfg ob nwo n pr author B w"
proof (cases "scope_gate cfg ob pr")
  case (Some e)
  then show thesis by (intro ended) (simp add: evaluate_pr_def)
next
  case None
  then obtain author where a: "pl_author pr = Some author" by (auto simp: scope_gate_def split: if_splits)
  let ?g = "first_end [class_gate lower cfg ob, size_gate cfg ob, ci_gate ob, cap_gate cfg ob n pr author w]"
  show thesis
  proof (cases "pin_range ob pr")
    case (Inl e)
    with None show thesis by (intro ended) (simp add: evaluate_pr_def Let_def)
  next
    case (Inr B)
    show thesis
    proof (cases ?g)
      case (Some e)
      with None a Inr show thesis by (intro ended) (simp add: evaluate_pr_def Let_def)
    next
      case g: None
      then have "set [class_gate lower cfg ob, size_gate cfg ob, ci_gate ob, cap_gate cfg ob n pr author w] \<subseteq> {None}"
        by (simp only: first_end_None)
      with None a Inr g show thesis by (intro review [of author B]) (simp_all add: evaluate_pr_def Let_def)
    qed
  qed
qed

lemma charge_frame [simp]:
  "aw_merged (charge ob a w) = aw_merged w" "aw_budget (charge ob a w) = aw_budget w" "aw_shadow (charge ob a w) = aw_shadow w"
  "aw_decisions (charge ob a w) = aw_decisions w" "aw_reviews (charge ob a w) = aw_reviews w" "aw_dirs (charge ob a w) = aw_dirs w"
  "aw_attempts (charge ob a w) = aw_attempts w" "aw_seam (charge ob a w) = aw_seam w"
  by (simp_all add: charge_def Let_def)

lemma bump_frame [simp]:
  "aw_merged (fst (bump_attempt ob k w)) = aw_merged w" "aw_budget (fst (bump_attempt ob k w)) = aw_budget w"
  "aw_shadow (fst (bump_attempt ob k w)) = aw_shadow w" "aw_decisions (fst (bump_attempt ob k w)) = aw_decisions w"
  "aw_reviews (fst (bump_attempt ob k w)) = aw_reviews w" "aw_dirs (fst (bump_attempt ob k w)) = aw_dirs w"
  "aw_day (fst (bump_attempt ob k w)) = aw_day w" "aw_author_day (fst (bump_attempt ob k w)) = aw_author_day w"
  by (simp_all add: bump_attempt_def Let_def)

text \<open>What a merge step can do: nothing to the merges and counters, or send one merge, or record one in the test seam.\<close>

lemma merge_step_cases:
  obtains (quiet) "aw_merged (fst (merge_step cfg ob nwo n pr a B w)) = aw_merged w"
      "aw_budget (fst (merge_step cfg ob nwo n pr a B w)) = aw_budget w" "aw_day (fst (merge_step cfg ob nwo n pr a B w)) = aw_day w"
      "aw_author_day (fst (merge_step cfg ob nwo n pr a B w)) = aw_author_day w"
  | (seam) w1 where "\<not> am_dry_run cfg" "am_test_mode cfg \<and> am_override cfg" "fst (merge_step cfg ob nwo n pr a B w) = charge ob a w1"
      "w1 = w\<lparr>aw_seam := aw_seam w1, aw_budget := aw_budget w + 1\<rparr>"
  | (sent) w1 where "\<not> am_dry_run cfg \<and> \<not> (am_test_mode cfg \<and> am_override cfg)" "recheck ob (pl_head pr) (pl_base pr) = Some True"
      "w1 = (if ao_put_merged ob then w\<lparr>aw_merged := aw_merged w @ [(n, pl_head pr)]\<rparr> else w)"
      "fst (merge_step cfg ob nwo n pr a B w) = (if ao_put ob = Put_Merged then charge ob a (w1\<lparr>aw_budget := aw_budget w1 + 1\<rparr>) else w1)"
proof (cases "am_dry_run cfg")
  case True
  then show thesis by (intro quiet) (simp_all add: merge_step_def Let_def)
next
  case live: False
  show thesis
  proof (cases "am_test_mode cfg \<and> am_override cfg")
    case True
    show thesis
    proof (cases "ao_write_ok ob Seam_File")
      case False
      with True live show thesis by (intro quiet) (simp_all add: merge_step_def Let_def)
    next
      case ok: True
      with True live show thesis
        by (intro seam [of "w\<lparr>aw_seam := aw_seam w @ [(n, pl_head pr, B)], aw_budget := aw_budget w + 1\<rparr>"]) (simp_all add: merge_step_def Let_def)
    qed
  next
    case False
    show thesis
    proof (cases "recheck ob (pl_head pr) (pl_base pr) = Some True")
      case True
      let ?w1 = "if ao_put_merged ob then w\<lparr>aw_merged := aw_merged w @ [(n, pl_head pr)]\<rparr> else w"
      have "fst (merge_step cfg ob nwo n pr a B w) = (if ao_put ob = Put_Merged then charge ob a (?w1\<lparr>aw_budget := aw_budget ?w1 + 1\<rparr>) else ?w1)"
        using True False live by (cases "ao_put ob") (simp_all add: merge_step_def Let_def if_not_P [OF False])
      from sent [OF conjI [OF live False] True refl this] show thesis .
    next
      case no: False
      then have "recheck ob (pl_head pr) (pl_base pr) \<in> {None, Some False}" by (cases "recheck ob (pl_head pr) (pl_base pr)") auto
      then have "fst (merge_step cfg ob nwo n pr a B w) = w" using False live by (auto simp: merge_step_def Let_def)
      then show thesis by (intro quiet) simp_all
    qed
  qed
qed

definition reviewed :: "int \<Rightarrow> pull \<Rightarrow> am_world \<Rightarrow> am_world" where
  "reviewed n pr w = w\<lparr>aw_reviews := aw_reviews w @ [(n, pl_head pr)]\<rparr>"

lemma reviewed_frame [simp]:
  "aw_merged (reviewed n pr w) = aw_merged w" "aw_budget (reviewed n pr w) = aw_budget w" "aw_day (reviewed n pr w) = aw_day w"
  "aw_author_day (reviewed n pr w) = aw_author_day w" "aw_decisions (reviewed n pr w) = aw_decisions w"
  "aw_reviews (reviewed n pr w) = aw_reviews w @ [(n, pl_head pr)]" "aw_shadow (reviewed n pr w) = aw_shadow w" "aw_dirs (reviewed n pr w) = aw_dirs w"
  by (simp_all add: reviewed_def)

lemma review_step_cases:
  obtains (verdict) "aw_merged (fst (review_step cfg ob nwo n pr a B w)) = aw_merged w"
      "aw_budget (fst (review_step cfg ob nwo n pr a B w)) = aw_budget w" "aw_day (fst (review_step cfg ob nwo n pr a B w)) = aw_day w"
      "aw_author_day (fst (review_step cfg ob nwo n pr a B w)) = aw_author_day w"
  | (passed) v where "review_pass cfg (ao_review ob) B (pl_head pr) = Some v" "v \<noteq> ''transient''" "v \<noteq> ''needs_fix''"
      "review_step cfg ob nwo n pr a B w = merge_step cfg ob nwo n pr a B (reviewed n pr w)"
proof (cases "review_pass cfg (ao_review ob) B (pl_head pr)")
  case None
  then show thesis by (intro verdict) (simp_all add: review_step_def Let_def)
next
  case (Some v)
  show thesis
  proof (cases "v = ''transient'' \<or> v = ''needs_fix''")
    case True
    with Some show thesis by (intro verdict) (auto simp: review_step_def Let_def split_beta)
  next
    case False
    with Some show thesis by (intro passed [OF Some]) (simp_all add: review_step_def reviewed_def Let_def)
  qed
qed

section \<open>Merges pass every gate\<close>

text \<open>What a documentation-only merge of a head means, gate by gate.\<close>

definition gated :: "(pytext \<Rightarrow> pytext) \<Rightarrow> am_config \<Rightarrow> am_obs \<Rightarrow> int \<Rightarrow> pull \<Rightarrow> am_world \<Rightarrow> bool" where
  "gated lower cfg ob n pr w \<longleftrightarrow>
     (\<exists>author B out es v. pl_author pr = Some author \<and> author \<in> set (am_authors cfg) \<and> \<not> pl_draft pr \<and> \<not> pl_cross pr
        \<and> ao_hpin ob = Some (pl_head pr) \<and> ao_merge_base ob = Ans B
        \<and> ao_raw ob = Ans out \<and> parse_raw_z out = Inr es \<and> es \<noteq> [] \<and> (\<forall>e \<in> set es. docs_only lower e)
        \<and> ci_green (ao_ci ob) = Some (Some True) \<and> ci_green (ao_ci2 ob) = Some (Some True)
        \<and> merge_queue (ao_queue2 ob) = Some (Some False)
        \<and> review_pass cfg (ao_review ob) B (pl_head pr) = Some v \<and> (am_test_mode cfg \<or> v = ''pass'')
        \<and> (\<exists>view. ao_view ob = Ans view \<and> vw_state view = ''OPEN'' \<and> vw_head view = pl_head pr \<and> vw_base view = pl_base pr)
        \<and> aw_budget w < am_max_tick cfg \<and> count_of (ao_read_ok ob 0 Day_File) (aw_day w (ao_day ob 0)) < int (am_max_day cfg)
        \<and> count_of (ao_read_ok ob 0 (Author_File author)) (aw_author_day w (ao_day ob 1) author) < int (am_max_author_day cfg))"

lemma recheck_True:
  "recheck ob H M = Some True \<Longrightarrow> ci_green (ao_ci2 ob) = Some (Some True) \<and> merge_queue (ao_queue2 ob) = Some (Some False)
    \<and> (\<exists>view. ao_view ob = Ans view \<and> vw_state view = ''OPEN'' \<and> vw_head view = H \<and> vw_base view = M)"
  by (auto simp: recheck_def split: ans.splits if_splits option.splits)

lemma review_pass_pass: "review_pass cfg ro B H = Some v \<Longrightarrow> v \<noteq> ''transient'' \<Longrightarrow> v \<noteq> ''needs_fix'' \<Longrightarrow> am_test_mode cfg \<or> v = ''pass''"
  by (auto simp: review_pass_def Let_def split: if_splits option.splits verdict_file.splits)

text \<open>
  C30. Nothing but reviewed documentation is merged: when the evaluation of a pull request sends a merge,
  it sends one, for the head it pinned and outside dry runs and the shadow mode, and the change from the
  merge base to that head parses and consists of entries that are documentation only; the author is on
  the allow list, the tests of that head are green before the review and again before the merge, no merge
  queue is in front, the review passed, the pull request is still open with the same head and base, and
  the tick's, the day's and the author's caps were free.
\<close>

theorem merge_passes_every_gate:
  assumes "cfg = mk_am_config env fake" "w' = fst (evaluate_pr lower cfg ob nwo n pr w)" "aw_merged w' \<noteq> aw_merged w"
  shows "aw_merged w' = aw_merged w @ [(n, pl_head pr)] \<and> \<not> am_dry_run cfg \<and> gated lower cfg ob n pr w"
proof (cases rule: evaluate_cases [of lower cfg ob nwo n pr w])
  case ended
  with assms show ?thesis by simp
next
  case (review B author)
  let ?w = "reviewed n pr w"
  have live: "\<not> am_dry_run cfg \<and> recheck ob (pl_head pr) (pl_base pr) = Some True \<and> aw_merged w' = aw_merged w @ [(n, pl_head pr)]
      \<and> (\<exists>v. review_pass cfg (ao_review ob) B (pl_head pr) = Some v \<and> (am_test_mode cfg \<or> v = ''pass''))"
  proof (cases rule: review_step_cases [of cfg ob nwo n pr author B w])
    case verdict
    with assms review show ?thesis by simp
  next
    case (passed v)
    have w': "w' = fst (merge_step cfg ob nwo n pr author B ?w)" using assms(2) review(8) passed(4) by simp
    show ?thesis
    proof (cases rule: merge_step_cases [of cfg ob nwo n pr author B ?w])
      case quiet
      with assms(3) w' show ?thesis by simp
    next
      case (seam w1)
      have "aw_merged w1 = aw_merged w" by (subst seam(4)) simp
      with assms(3) w' seam(3) show ?thesis by simp
    next
      case (sent w1)
      then have "aw_merged w' = aw_merged w1" using w' by simp
      with assms(3) sent(3) have "aw_merged w' = aw_merged w @ [(n, pl_head pr)]" by (auto split: if_splits)
      with sent(1,2) passed review_pass_pass [OF passed(1-3)] show ?thesis by blast
    qed
  qed
  have shadow: "\<not> am_shadow_code cfg" using live assms(1) by (simp add: mk_am_config_def)
  obtain out es where cls: "ao_raw ob = Ans out" "parse_raw_z out = Inr es" "es \<noteq> []" "\<forall>e \<in> set es. docs_only lower e"
    using review(4) shadow by (auto simp: class_gate_def classify_diff_None split: ans.splits sum.splits option.splits)
  have "author \<in> set (am_authors cfg)" "\<not> pl_draft pr" "\<not> pl_cross pr"
    using review(1,2) by (auto simp: scope_gate_def split: if_splits)
  moreover have "ao_hpin ob = Some (pl_head pr)" "ao_merge_base ob = Ans B"
    using review(3) by (auto simp: pin_range_def split: ans.splits option.splits if_splits)
  moreover have "ci_green (ao_ci ob) = Some (Some True)" using review(6) by (auto simp: ci_gate_def split: option.splits bool.splits)
  moreover have "aw_budget w < am_max_tick cfg" "count_of (ao_read_ok ob 0 Day_File) (aw_day w (ao_day ob 0)) < int (am_max_day cfg)"
    "count_of (ao_read_ok ob 0 (Author_File author)) (aw_author_day w (ao_day ob 1) author) < int (am_max_author_day cfg)"
    using review(7) live by (auto simp: cap_gate_def split: if_splits)
  ultimately show ?thesis unfolding gated_def using live cls review(2) recheck_True [of ob "pl_head pr" "pl_base pr"] by blast
qed

section \<open>Caps\<close>

text \<open>
  An evaluation counts its pull request or not. \<open>tally\<close> says what a list of counted pull requests does to
  the budget, to the counters of one UTC day when they can be read and written, and to the merges when
  the server's replies are truthful.
\<close>

definition truthful :: "am_obs \<Rightarrow> bool" where
  "truthful ob \<longleftrightarrow> (ao_put_merged ob \<longleftrightarrow> ao_put ob = Put_Merged)"

definition steady :: "string \<Rightarrow> am_obs \<Rightarrow> bool" where
  "steady D ob \<longleftrightarrow> (\<forall>i. ao_day ob i = D) \<and> (\<forall>i. ao_read_ok ob i Day_File \<and> (\<forall>a. ao_read_ok ob i (Author_File a)))
     \<and> ao_write_ok ob Day_File \<and> (\<forall>a. ao_write_ok ob (Author_File a))"

definition by_author :: "pytext \<Rightarrow> pull list \<Rightarrow> nat" where
  "by_author a ms = length (filter (\<lambda>pr. pl_author pr = Some a) ms)"

definition merge_of :: "am_config \<Rightarrow> pull list \<Rightarrow> (int \<times> string) list" where
  "merge_of cfg ms = (if am_test_mode cfg \<and> am_override cfg then [] else map (\<lambda>pr. (the (pl_number pr), pl_head pr)) ms)"

definition counted :: "string \<Rightarrow> am_config \<Rightarrow> pull list \<Rightarrow> am_world \<Rightarrow> am_world \<Rightarrow> bool" where
  "counted D cfg ms w w' \<longleftrightarrow>
     count_of True (aw_day w' D) = count_of True (aw_day w D) + int (length ms)
     \<and> count_of True (aw_day w' D) \<le> max (count_of True (aw_day w D)) (int (am_max_day cfg))
     \<and> (\<forall>a. count_of True (aw_author_day w' D a) = count_of True (aw_author_day w D a) + int (by_author a ms)
          \<and> count_of True (aw_author_day w' D a) \<le> max (count_of True (aw_author_day w D a)) (int (am_max_author_day cfg)))
     \<and> (\<forall>E. E \<noteq> D \<longrightarrow> aw_day w' E = aw_day w E \<and> aw_author_day w' E = aw_author_day w E)"

definition tally :: "am_obs set \<Rightarrow> string \<Rightarrow> am_config \<Rightarrow> am_world \<Rightarrow> am_world \<Rightarrow> pull list \<Rightarrow> bool" where
  "tally obs D cfg w w' ms \<longleftrightarrow>
     aw_budget w' = aw_budget w + length ms \<and> aw_budget w' \<le> max (aw_budget w) (am_max_tick cfg)
     \<and> ((\<forall>ob \<in> obs. steady D ob) \<longrightarrow> counted D cfg ms w w')
     \<and> ((\<forall>ob \<in> obs. truthful ob) \<longrightarrow> aw_merged w' = aw_merged w @ merge_of cfg ms)"

lemma by_author_append [simp]: "by_author a (xs @ ys) = by_author a xs + by_author a ys"
  by (simp add: by_author_def)

lemma counted_refl: "counted D cfg [] w w"
  by (simp add: counted_def by_author_def)

lemma max_trans: "(a :: int) \<le> max b m \<Longrightarrow> b \<le> max c m \<Longrightarrow> a \<le> max c m"
  by (auto simp: max_def split: if_splits)

lemma counted_trans:
  assumes "counted D cfg xs u v" "counted D cfg ys v w"
  shows "counted D cfg (xs @ ys) u w"
proof -
  have "count_of True (aw_author_day w D a) \<le> max (count_of True (aw_author_day u D a)) (int (am_max_author_day cfg))" for a
    using assms unfolding counted_def by (meson max_trans)
  moreover have "count_of True (aw_day w D) \<le> max (count_of True (aw_day u D)) (int (am_max_day cfg))"
    using assms unfolding counted_def by (meson max_trans)
  ultimately show ?thesis using assms by (simp add: counted_def)
qed

lemma tally_refl: "tally obs D cfg w w []"
  by (simp add: tally_def counted_refl merge_of_def)

lemma tally_trans: "tally obs D cfg u v xs \<Longrightarrow> tally obs D cfg v w ys \<Longrightarrow> tally obs D cfg u w (xs @ ys)"
  unfolding tally_def by (auto intro: counted_trans simp: merge_of_def)

lemma tally_same:
  assumes "aw_budget w' = aw_budget w" "aw_day w' = aw_day w" "aw_author_day w' = aw_author_day w" "aw_merged w' = aw_merged w"
  shows "tally obs D cfg w w' []"
  using assms by (simp add: tally_def counted_def by_author_def merge_of_def)

text \<open>One charge, in a state whose counters are those of the state before the evaluation.\<close>

lemma charge_counted:
  assumes "steady D ob" "pl_author pr = Some author" "aw_day u = aw_day w" "aw_author_day u = aw_author_day w"
    and "count_of (ao_read_ok ob 0 Day_File) (aw_day w (ao_day ob 0)) < int (am_max_day cfg)"
    and "count_of (ao_read_ok ob 0 (Author_File author)) (aw_author_day w (ao_day ob 1) author) < int (am_max_author_day cfg)"
  shows "counted D cfg [pr] w (charge ob author u)"
proof -
  have c: "count_of True (Count n) = n" for n by (simp add: count_of_def)
  have s: "ao_day ob i = D" "ao_read_ok ob i Day_File" "ao_read_ok ob i (Author_File a)" "ao_write_ok ob Day_File" "ao_write_ok ob (Author_File a)" for i a
    using assms(1) by (simp_all add: steady_def)
  have "aw_day (charge ob author u) = (aw_day w)(D := Count (count_of True (aw_day w D) + 1))"
    "aw_author_day (charge ob author u) = (aw_author_day w)(D := (aw_author_day w D)(author := Count (count_of True (aw_author_day w D author) + 1)))"
    using assms(3,4) s by (simp_all add: charge_def Let_def)
  moreover have "count_of True (aw_day w D) < int (am_max_day cfg)" "count_of True (aw_author_day w D author) < int (am_max_author_day cfg)"
    using assms(5,6) s by simp_all
  ultimately show ?thesis using assms(2) c by (auto simp: counted_def by_author_def)
qed

lemma merge_step_tally:
  assumes "ob \<in> obs" "pl_number pr = Some n" "pl_author pr = Some a" "cap_gate cfg ob n pr a w = None"
    and "aw_budget u = aw_budget w" "aw_day u = aw_day w" "aw_author_day u = aw_author_day w" "aw_merged u = aw_merged w"
    and "w' = fst (merge_step cfg ob nwo n pr a B u)"
  shows "\<exists>ms \<in> {[], [pr]}. tally obs D cfg w w' ms"
proof -
  have room: "aw_budget w < am_max_tick cfg" using assms(4) by (auto simp: cap_gate_def split: if_splits)
  have counts: "counted D cfg [pr] w (charge ob a v)"
    if "\<not> am_dry_run cfg" "aw_day v = aw_day w" "aw_author_day v = aw_author_day w" "\<forall>ob \<in> obs. steady D ob" for v
    by (rule charge_counted) (use that assms(1-4) in \<open>auto simp: cap_gate_def split: if_splits\<close>)
  show ?thesis
  proof (cases rule: merge_step_cases [of cfg ob nwo n pr a B u])
    case quiet
    then show ?thesis using assms(5-9) by (intro bexI [of _ "[]"] tally_same) simp_all
  next
    case (seam w1)
    have f: "aw_budget w1 = Suc (aw_budget w)" "aw_day w1 = aw_day w" "aw_author_day w1 = aw_author_day w" "aw_merged w1 = aw_merged w"
      by (subst seam(4), simp add: assms(5-8))+
    have "tally obs D cfg w w' [pr]"
      unfolding tally_def assms(9) seam(3) using f room seam(1,2) counts by (simp add: merge_of_def)
    then show ?thesis by blast
  next
    case (sent w1)
    have f: "aw_budget w1 = aw_budget w" "aw_day w1 = aw_day w" "aw_author_day w1 = aw_author_day w"
      "aw_merged w1 = aw_merged w @ (if ao_put_merged ob then [(n, pl_head pr)] else [])"
      using sent(3) assms(5-8) by simp_all
    show ?thesis
    proof (cases "ao_put ob = Put_Merged")
      case True
      have "counted D cfg [pr] w w'" if "\<forall>ob \<in> obs. steady D ob"
        using counts [OF _ _ _ that, of "w1\<lparr>aw_budget := aw_budget w1 + 1\<rparr>"] sent(1,4) True f assms(9) by simp
      moreover have "ao_put_merged ob" if "\<forall>ob \<in> obs. truthful ob" using that assms(1) True by (auto simp: truthful_def)
      ultimately have "tally obs D cfg w w' [pr]"
        unfolding tally_def using f room sent(1,4) True assms(2,9) by (auto simp: merge_of_def)
      then show ?thesis by blast
    next
      case False
      have "\<not> ao_put_merged ob" if "\<forall>ob \<in> obs. truthful ob" using that assms(1) False by (auto simp: truthful_def)
      then have "tally obs D cfg w w' []"
        unfolding tally_def using f sent(4) False assms(9) by (simp add: merge_of_def counted_def by_author_def)
      then show ?thesis by blast
    qed
  qed
qed

lemma evaluate_tally:
  assumes "ob \<in> obs" "pl_number pr = Some n" "w' = fst (evaluate_pr lower cfg ob nwo n pr w)"
  shows "\<exists>ms \<in> {[], [pr]}. tally obs D cfg w w' ms"
proof (cases rule: evaluate_cases [of lower cfg ob nwo n pr w])
  case ended
  with assms(3) tally_refl show ?thesis by (intro bexI [of _ "[]"]) simp_all
next
  case (review B author)
  show ?thesis
  proof (cases rule: review_step_cases [of cfg ob nwo n pr author B w])
    case verdict
    then show ?thesis using assms(3) review(8) by (intro bexI [of _ "[]"] tally_same) simp_all
  next
    case (passed v)
    show ?thesis by (rule merge_step_tally [OF assms(1,2) review(2,7), of "reviewed n pr w"]) (simp_all add: assms(3) review(8) passed(4))
  qed
qed

text \<open>
  A relation that holds across evaluations of undecided heads and across records holds across the loop.
  The relation may name the pull requests that count; they are a part of the list, in its order.
\<close>

lemma run_prs_list:
  assumes "\<And>w. R w w []" "\<And>u v w xs ys. R u v xs \<Longrightarrow> R v w ys \<Longrightarrow> R u w (xs @ ys)"
    and "\<And>w n h d why T. record_automerge now rid n h d why (aw_decisions w) = Some T \<Longrightarrow> R w (w\<lparr>aw_decisions := T\<rparr>) []"
    and "\<And>w pr ob n. (pr, ob) \<in> set prs \<Longrightarrow> pl_number pr = Some n \<Longrightarrow> automerge_decision rid n (pl_head pr) (aw_decisions w) = None
      \<Longrightarrow> \<exists>ms \<in> {[], [pr]}. R w (fst (evaluate_pr lower cfg ob nwo n pr w)) ms"
  shows "\<exists>ms. subseq ms (map fst prs) \<and> R w (fst (run_prs lower wording cfg now rid nwo prs w)) ms"
  using assms(4)
proof (induction prs arbitrary: w)
  case Nil
  then show ?case using assms(1) by auto
next
  case (Cons p prs)
  obtain pr ob where p: "p = (pr, ob)" by fastforce
  let ?run = "run_prs lower wording cfg now rid nwo" and ?ok = "\<lambda>u v qs. \<exists>ms. subseq ms (map fst qs) \<and> R u v ms"
  have IH: "?ok u (fst (?run prs u)) prs" for u by (rule Cons.IH) (use Cons.prems in auto)
  have more: "?ok u v (p # prs)" if "?ok u v prs" for u v using that by auto
  have next_ok: "?ok w (fst (if c then (u, True) else ?run prs u)) (p # prs)" if u: "ms \<in> {[], [pr]}" "R w u ms" for u c ms
  proof -
    obtain xs where xs: "subseq xs (map fst prs)" "R u (fst (?run prs u)) xs" using IH by blast
    have "subseq ms (map fst (p # prs))" "subseq (ms @ xs) (map fst (p # prs))" using u(1) xs(1) by (auto simp: p)
    with u(2) assms(2) [OF u(2) xs(2)] show ?thesis by (cases c) auto
  qed
  show ?case
  proof (cases "pl_number pr")
    case None
    with more [OF IH] p show ?thesis by simp
  next
    case (Some n)
    obtain w1 e where e: "evaluate_pr lower cfg ob nwo n pr w = (w1, e)" by fastforce
    show ?thesis
    proof (cases "\<not> am_sha_re (pl_head pr) \<or> automerge_decision rid n (pl_head pr) (aw_decisions w) \<noteq> None")
      case True
      then have "?run (p # prs) w = ?run prs w" using p Some by (simp only: run_prs.simps option.case if_True)
      with more [OF IH] show ?thesis by metis
    next
      case False
      have "\<exists>ms \<in> {[], [pr]}. R w (fst (evaluate_pr lower cfg ob nwo n pr w)) ms" by (rule Cons.prems) (use False Some p in auto)
      then obtain ms where ms: "ms \<in> {[], [pr]}" "R w w1 ms" using e by auto
      have stop: "?ok w w1 (p # prs)" using next_ok [OF ms, of True] by simp
      from False have run: "?run (p # prs) w = (case (w1, e) of (w1, Crashed) \<Rightarrow> (w1, False)
          | (w1, Deferred) \<Rightarrow> if out_of_budget cfg w1 then (w1, True) else ?run prs w1
          | (w1, Decided d why) \<Rightarrow> (case record_automerge now rid n (pl_head pr) d (Some (wording why)) (aw_decisions w1) of None \<Rightarrow> (w1, False)
               | Some T \<Rightarrow> (let w2 = w1\<lparr>aw_decisions := T\<rparr> in if out_of_budget cfg w2 then (w2, True) else ?run prs w2)))"
        using p Some e by (simp only: run_prs.simps option.case if_False)
      show ?thesis
      proof (cases e)
        case Crashed
        with run stop show ?thesis by simp
      next
        case Deferred
        with run next_ok [OF ms, of "out_of_budget cfg w1"] show ?thesis by simp
      next
        case (Decided d why)
        show ?thesis
        proof (cases "record_automerge now rid n (pl_head pr) d (Some (wording why)) (aw_decisions w1)")
          case None
          with run Decided stop show ?thesis by simp
        next
          fix T assume T: "record_automerge now rid n (pl_head pr) d (Some (wording why)) (aw_decisions w1) = Some T"
          with run Decided next_ok [OF ms(1) assms(2) [OF ms(2) assms(3) [OF T], simplified], of "out_of_budget cfg (w1\<lparr>aw_decisions := T\<rparr>)"]
          show ?thesis by (simp add: Let_def)
        qed
      qed
    qed
  qed
qed

lemma run_prs_rel:
  assumes "\<And>w. R w w" "\<And>u v w. R u v \<Longrightarrow> R v w \<Longrightarrow> R u w"
    and "\<And>w n h d why T. record_automerge now rid n h d why (aw_decisions w) = Some T \<Longrightarrow> R w (w\<lparr>aw_decisions := T\<rparr>)"
    and "\<And>w pr ob n. (pr, ob) \<in> set prs \<Longrightarrow> automerge_decision rid n (pl_head pr) (aw_decisions w) = None
      \<Longrightarrow> R w (fst (evaluate_pr lower cfg ob nwo n pr w))"
  shows "R w (fst (run_prs lower wording cfg now rid nwo prs w))"
  using run_prs_list [where R = "\<lambda>u v _. R u v", of now rid prs lower cfg nwo w wording] assms by auto

lemma am_tick_cases:
  obtains (idle) "fst (am_tick lower wording cfg site w) = w"
  | (ran) rid nwo prs where "load_repo (as_repos site) = Ans (Some (rid, nwo))" "as_enabled site" "as_prs site = Ans prs"
      "am_tick lower wording cfg site w = run_prs lower wording cfg (as_now site) rid nwo prs (w\<lparr>aw_budget := 0\<rparr>)"
proof (cases "\<exists>rid nwo prs remaining. load_repo (as_repos site) = Ans (Some (rid, nwo)) \<and> as_enabled site \<and> as_rate site = Ans remaining
    \<and> \<not> (remaining < int (am_rate_floor cfg) \<or> \<not> as_lock site) \<and> as_prs site = Ans prs")
  case True
  then show thesis using ran by (auto simp: am_tick_def)
next
  case False
  then have "fst (am_tick lower wording cfg site w) = w"
    by (auto simp: am_tick_def split: ans.splits option.splits)
  then show thesis by (rule idle)
qed

definition site_pulls :: "am_site \<Rightarrow> (pull \<times> am_obs) list" where
  "site_pulls site = (case as_prs site of Ans prs \<Rightarrow> prs | _ \<Rightarrow> [])"

text \<open>
  C32. The caps hold: the pull requests a tick counts as merged are a part of the list it was given, in its
  order, and at most the per-tick number. When every clock read shows one UTC day and that day's
  counters can be read and written, the day's counter grows by exactly their number and every author's
  counter by exactly the number of that author's, neither past the larger of its old value and its
  daily limit, and no other day's counters change. When the server's reply tells whether it merged, the
  merges that reach it are those pull requests at the heads that were judged, in that order (none in the
  test seam, which only records them).
\<close>

theorem tick_within_caps:
  assumes "w' = fst (am_tick lower wording cfg site (w\<lparr>aw_budget := 0\<rparr>))"
  shows "\<exists>ms. subseq ms (map fst (site_pulls site)) \<and> aw_budget w' = length ms \<and> length ms \<le> am_max_tick cfg
    \<and> ((\<forall>ob \<in> snd ` set (site_pulls site). steady D ob) \<longrightarrow>
         count_of True (aw_day w' D) = count_of True (aw_day w D) + int (length ms)
         \<and> count_of True (aw_day w' D) \<le> max (count_of True (aw_day w D)) (int (am_max_day cfg))
         \<and> (\<forall>a. count_of True (aw_author_day w' D a)
                = count_of True (aw_author_day w D a) + int (length (filter (\<lambda>pr. pl_author pr = Some a) ms))
              \<and> count_of True (aw_author_day w' D a) \<le> max (count_of True (aw_author_day w D a)) (int (am_max_author_day cfg)))
         \<and> (\<forall>E. E \<noteq> D \<longrightarrow> aw_day w' E = aw_day w E \<and> aw_author_day w' E = aw_author_day w E))
    \<and> ((\<forall>ob \<in> snd ` set (site_pulls site). truthful ob) \<longrightarrow>
         aw_merged w' = aw_merged w @ (if am_test_mode cfg \<and> am_override cfg then [] else map (\<lambda>pr. (the (pl_number pr), pl_head pr)) ms))"
proof -
  let ?w = "w\<lparr>aw_budget := 0\<rparr>" and ?obs = "snd ` set (site_pulls site)"
  have "\<exists>ms. subseq ms (map fst (site_pulls site)) \<and> tally ?obs D cfg ?w w' ms"
  proof (cases rule: am_tick_cases [of lower wording cfg site ?w])
    case idle
    with assms tally_refl show ?thesis by (intro exI [of _ "[]"]) simp
  next
    case (ran rid nwo prs)
    have prs: "site_pulls site = prs" using ran(3) by (simp add: site_pulls_def)
    have w': "w' = fst (run_prs lower wording cfg (as_now site) rid nwo prs ?w)" using assms ran(4) by simp
    show ?thesis unfolding w' prs
      by (rule run_prs_list [where R = "tally (snd ` set prs) D cfg"])
        (rule tally_refl, erule (1) tally_trans, rule tally_same, simp, simp, simp, simp, rule evaluate_tally [OF _ _ refl], force)
  qed
  then obtain ms where ms: "subseq ms (map fst (site_pulls site))" "tally ?obs D cfg ?w w' ms" by blast
  have frame: "counted D cfg ms ?w w' \<longleftrightarrow> counted D cfg ms w w'" by (simp add: counted_def)
  have "aw_budget w' = length ms \<and> length ms \<le> am_max_tick cfg" using ms(2) by (auto simp: tally_def)
  moreover have "(\<forall>ob \<in> ?obs. steady D ob) \<longrightarrow> counted D cfg ms w w'" using ms(2) unfolding tally_def frame by blast
  moreover have "(\<forall>ob \<in> ?obs. truthful ob) \<longrightarrow> aw_merged w' = aw_merged w @ merge_of cfg ms" using ms(2) by (simp add: tally_def)
  ultimately show ?thesis using ms(1) unfolding counted_def by_author_def merge_of_def by blast
qed

section \<open>Decided heads and the shadow marker\<close>

text \<open>Only the head under evaluation is reviewed or merged, and the decision table is the tick's.\<close>

lemma evaluate_other:
  assumes "w' = fst (evaluate_pr lower cfg ob nwo n pr w)"
  shows "aw_decisions w' = aw_decisions w" "\<exists>k. aw_reviews w' = aw_reviews w @ replicate k (n, pl_head pr)"
    "\<exists>k. aw_merged w' = aw_merged w @ replicate k (n, pl_head pr)"
proof -
  have m: "aw_decisions (fst (merge_step cfg ob nwo n pr a B u)) = aw_decisions u \<and> aw_reviews (fst (merge_step cfg ob nwo n pr a B u)) = aw_reviews u
      \<and> (\<exists>k. aw_merged (fst (merge_step cfg ob nwo n pr a B u)) = aw_merged u @ replicate k (n, pl_head pr))" for a B u
  proof -
    have "\<exists>k. aw_merged (fst (merge_step cfg ob nwo n pr a B u)) = aw_merged u @ replicate k (n, pl_head pr)"
    proof (cases rule: merge_step_cases [of cfg ob nwo n pr a B u])
      case quiet
      then show ?thesis by (intro exI [of _ 0]) simp
    next
      case (seam w1)
      have "aw_merged w1 = aw_merged u" by (subst seam(4)) simp
      with seam(3) show ?thesis by (intro exI [of _ 0]) simp
    next
      case (sent w1)
      then show ?thesis by (intro exI [of _ "if ao_put_merged ob then 1 else 0"]) simp
    qed
    then show ?thesis by (auto simp: merge_step_def Let_def split: option.splits bool.splits put_reply.splits)
  qed
  have "aw_decisions w' = aw_decisions w \<and> (\<exists>k. aw_reviews w' = aw_reviews w @ replicate k (n, pl_head pr))
      \<and> (\<exists>k. aw_merged w' = aw_merged w @ replicate k (n, pl_head pr))"
  proof (cases rule: evaluate_cases [of lower cfg ob nwo n pr w])
    case ended
    then show ?thesis unfolding assms by (auto intro: exI [of _ 0])
  next
    case (review B author)
    let ?u = "reviewed n pr w" and ?v = "fst (bump_attempt ob (n, pl_head pr) (reviewed n pr w))"
    have "w' \<in> {?u, ?v, fst (merge_step cfg ob nwo n pr author B ?u)}"
      unfolding assms review(8) by (simp add: review_step_def reviewed_def Let_def split_beta split: option.split)
    moreover have "aw_reviews ?u = aw_reviews w @ replicate 1 (n, pl_head pr)" by simp
    moreover have "aw_merged w = aw_merged w @ replicate 0 (n, pl_head pr)" by simp
    ultimately show ?thesis using m [of author B ?u] by (metis bump_frame(1,4,5) empty_iff insert_iff reviewed_frame(1,5))
  qed
  then show "aw_decisions w' = aw_decisions w" "\<exists>k. aw_reviews w' = aw_reviews w @ replicate k (n, pl_head pr)"
    "\<exists>k. aw_merged w' = aw_merged w @ replicate k (n, pl_head pr)" by blast+
qed

definition leaves_head :: "string \<Rightarrow> int \<Rightarrow> string \<Rightarrow> am_world \<Rightarrow> am_world \<Rightarrow> bool" where
  "leaves_head rid n h w w' \<longleftrightarrow> automerge_decision rid n h (aw_decisions w) \<noteq> None \<longrightarrow>
     automerge_decision rid n h (aw_decisions w') \<noteq> None
     \<and> filter ((=) (n, h)) (aw_reviews w') = filter ((=) (n, h)) (aw_reviews w)
     \<and> filter ((=) (n, h)) (aw_merged w') = filter ((=) (n, h)) (aw_merged w)"

lemma filter_replicate_other: "x \<noteq> y \<Longrightarrow> filter ((=) x) (replicate k y) = []"
  by (induction k) auto

lemma evaluate_leaves:
  assumes "automerge_decision rid m (pl_head pr) (aw_decisions w) = None"
  shows "leaves_head rid n h w (fst (evaluate_pr lower cfg ob nwo m pr w))"
proof -
  let ?w = "fst (evaluate_pr lower cfg ob nwo m pr w)"
  from evaluate_other [OF refl, of lower cfg ob nwo m pr w] obtain j k where
    e: "aw_decisions ?w = aw_decisions w" "aw_reviews ?w = aw_reviews w @ replicate j (m, pl_head pr)"
       "aw_merged ?w = aw_merged w @ replicate k (m, pl_head pr)" by blast
  have "(n, h) \<noteq> (m, pl_head pr)" if "automerge_decision rid n h (aw_decisions w) \<noteq> None" using that assms by auto
  then show ?thesis unfolding leaves_head_def e filter_append using filter_replicate_other by (metis append_Nil2)
qed

text \<open>
  A decided head costs nothing more: once a decision is on file for a pull request and head of the
  watched repository, a tick neither reviews nor merges that head again, and the decision stays on file.
\<close>

theorem decided_head_left_alone:
  assumes "load_repo (as_repos site) = Ans (Some (rid, nwo))" "automerge_decision rid n h (aw_decisions w) \<noteq> None"
    and "w' = fst (am_tick lower wording cfg site w)"
  shows "automerge_decision rid n h (aw_decisions w') \<noteq> None
    \<and> filter ((=) (n, h)) (aw_reviews w') = filter ((=) (n, h)) (aw_reviews w)
    \<and> filter ((=) (n, h)) (aw_merged w') = filter ((=) (n, h)) (aw_merged w)"
proof (cases rule: am_tick_cases [of lower wording cfg site w])
  case idle
  with assms(2,3) show ?thesis by simp
next
  case (ran rid' nwo' prs)
  with assms(1) have rid: "rid' = rid" by simp
  have "leaves_head rid n h (w\<lparr>aw_budget := 0\<rparr>) (fst (run_prs lower wording cfg (as_now site) rid nwo' prs (w\<lparr>aw_budget := 0\<rparr>)))"
  proof (rule run_prs_rel [where R = "leaves_head rid n h"])
    show "leaves_head rid n h w (w\<lparr>aw_decisions := T\<rparr>)"
      if "record_automerge (as_now site) rid m g d why (aw_decisions w) = Some T" for w m g d why T
      using automerge_lookup [OF that, of rid n h] by (simp add: leaves_head_def)
  qed (auto simp: leaves_head_def [of _ _ _ w w for w] intro: evaluate_leaves, auto simp: leaves_head_def)
  with assms(2,3) ran(4) rid show ?thesis by (simp add: leaves_head_def)
qed

text \<open>
  The shadow mode's marker is never written: the watched repository's full name has a slash, so the marker
  lies in a directory nothing creates, and touching it raises. The review was paid by then, and the next
  tick pays for it again.
\<close>

lemma load_repo_slash: "load_repo cands = Ans (Some (rid, nwo)) \<Longrightarrow> CHR ''/'' \<in> set nwo"
  by (induction cands rule: load_repo.induct) (auto split: ans.splits if_splits)

lemma shadow_marker_never_written:
  assumes "load_repo cands = Ans (Some (rid, nwo))" "aw_dirs w = {}"
  shows "aw_shadow (fst (evaluate_pr lower cfg ob nwo n pr w)) = aw_shadow w"
proof -
  have "shadow_parent nwo \<noteq> None" using load_repo_slash [OF assms(1)] by (simp add: shadow_parent_def)
  then have t: "\<not> can_touch ob nwo u" if "aw_dirs u = {}" for u using that by (auto simp: can_touch_def)
  have m: "aw_shadow (fst (merge_step cfg ob nwo m pr a B u)) = aw_shadow u" if "aw_dirs u = {}" for a B u m
    using t [OF that] by (simp add: merge_step_def Let_def split: option.split bool.split put_reply.split)
  show ?thesis
  proof (cases rule: evaluate_cases [of lower cfg ob nwo n pr w])
    case (review B author)
    have "fst (evaluate_pr lower cfg ob nwo n pr w) \<in> {reviewed n pr w, fst (bump_attempt ob (n, pl_head pr) (reviewed n pr w)),
        fst (merge_step cfg ob nwo n pr author B (reviewed n pr w))}"
      unfolding review(8) by (simp add: review_step_def reviewed_def Let_def split_beta split: option.split)
    with m [of "reviewed n pr w" n author B] assms(2) show ?thesis by auto
  qed simp
qed

end
