(* ===== verification/Automerge_Examples.thy ===== *)
theory Automerge_Examples
  imports Automerge_Props
begin

text \<open>
  Concrete pull requests through the gate: each instantiates a theorem of \<^verbatim>\<open>Automerge_Props\<close> where its
  hypotheses hold, and closed runs show where comments of the code promise more than it does. Lower-casing
  is the ASCII one.
\<close>

definition ex_am_cfg :: am_config where
  "ex_am_cfg = mk_am_config (\<lambda>_. None) ''transient''"

lemma ex_am_cfg_sel [simp]:
  "am_max_tick ex_am_cfg = 1" "am_max_day ex_am_cfg = 3" "am_max_author_day ex_am_cfg = 1" "am_authors ex_am_cfg = [codes ''redeyefit'']"
  "am_max_diff ex_am_cfg = 262144" "am_max_diff_lines ex_am_cfg = 2000" "am_max_attempts ex_am_cfg = 3" "am_rate_floor ex_am_cfg = 100"
  "am_shadow_code ex_am_cfg = False" "am_dry_run ex_am_cfg = False" "am_test_mode ex_am_cfg = False"
  by (simp_all add: ex_am_cfg_def mk_am_config_def int_env_def env_flag_def parse_authors_def text_eval)

definition ex_raw :: bytes where
  "ex_raw = codes '':100644 100644 a b M'' @ [0] @ codes ''docs/a.md'' @ [0]"

definition ex_entry :: raw_entry where
  "ex_entry = \<lparr>re_omode = regular_mode, re_nmode = regular_mode, re_status = codes ''M'', re_paths = [codes ''docs/a.md'']\<rparr>"

lemma ex_parsed: "parse_raw_z ex_raw = Inr [ex_entry]"
  by (simp add: parse_raw_z_def tokens_of_def ex_raw_def ex_entry_def parse_entry_def ascii_decode_def n_paths_def utf8_head_def codes_def Let_def)

lemma ex_docs: "classify_diff (map ascii_lower) [ex_entry] = None"
  by (simp add: classify_diff_def classify_entry_def ex_entry_def status_re_def drop_final_newline_def doc_path_def is_denylisted_def
      DENY_DIRS_def DENY_BASENAMES_def modes_ok_def ascii_lower_def codes_def suffix_def Let_def)

definition ex_am_head :: string where "ex_am_head = replicate 40 CHR ''b''"

definition ex_am_base :: string where "ex_am_base = replicate 40 CHR ''a''"

lemma ex_am_shas [simp]: "am_sha_re ex_am_head" "am_sha_re ex_am_base"
  by (simp_all add: am_sha_re_def sha_re_def ex_am_head_def ex_am_base_def hex_lower_def list_all_iff)

definition ex_pull :: pull where
  "ex_pull = \<lparr>pl_number = Some 7, pl_head = ex_am_head, pl_base = ex_am_base, pl_author = Some (codes ''redeyefit''), pl_draft = False,
     pl_cross = False, pl_merge = ''CLEAN''\<rparr>"

definition ex_am_obs :: am_obs where
  "ex_am_obs = \<lparr>ao_queue = Ans [], ao_fetch = Ans (), ao_hpin = Some ex_am_head, ao_mpin = Some ex_am_base, ao_merge_base = Ans ex_am_base,
     ao_raw = Ans ex_raw, ao_content = Ans [120], ao_numstat = Ans [], ao_ci = Ans [Check (Some ''completed'') (Some ''success'')],
     ao_review = \<lparr>ro_dir_ok = True, ro_run_id = ''am-1'', ro_rc = Some 0,
        ro_verdict = Verdict (Some ''am-1'') (Some ex_am_base) (Some ex_am_head) (Some ''PASS'')\<rparr>,
     ao_view = Ans \<lparr>vw_state = ''OPEN'', vw_head = ex_am_head, vw_base = ex_am_base, vw_merge = ''CLEAN''\<rparr>, ao_queue2 = Ans [],
     ao_ci2 = Ans [Check (Some ''completed'') (Some ''success'')], ao_put_merged = True, ao_put = Put_Merged, ao_write_ok = (\<lambda>_. True),
     ao_read_ok = (\<lambda>_ _. True), ao_day = (\<lambda>_. ''20260301'')\<rparr>"

definition ex_am_world :: am_world where
  "ex_am_world = \<lparr>aw_day = (\<lambda>_. Absent), aw_author_day = (\<lambda>_ _. Absent), aw_attempts = (\<lambda>_. Absent), aw_shadow = {}, aw_dirs = {}, aw_budget = 0,
     aw_decisions = [], aw_reviews = [], aw_merged = [], aw_seam = []\<rparr>"

lemma ex_gates:
  "scope_gate ex_am_cfg ex_am_obs ex_pull = None" "pin_range ex_am_obs ex_pull = Inr ex_am_base"
  "class_gate (map ascii_lower) ex_am_cfg ex_am_obs = None" "size_gate ex_am_cfg ex_am_obs = None" "ci_gate ex_am_obs = None"
  by (simp_all add: scope_gate_def pin_range_def class_gate_def size_gate_def ci_gate_def ex_am_obs_def ex_pull_def mergeable_def
      merge_queue_def ci_green_def ex_parsed ex_docs patch_size_def numstat_total_def numstat_line_def)

definition ex_am_merged :: am_world where
  "ex_am_merged = ex_am_world\<lparr>aw_reviews := [(7, ex_am_head)], aw_merged := [(7, ex_am_head)], aw_budget := 1, aw_day := (\<lambda>_. Absent)(''20260301'' := Count 1),
     aw_author_day := (\<lambda>_ _. Absent)(''20260301'' := (\<lambda>_. Absent)(codes ''redeyefit'' := Count 1))\<rparr>"

lemma ex_evaluated: "evaluate_pr (map ascii_lower) ex_am_cfg ex_am_obs ''o/r'' 7 ex_pull ex_am_world = (ex_am_merged, Decided Merged Merge_Done)"
proof -
  have "cap_gate ex_am_cfg ex_am_obs 7 ex_pull (codes ''redeyefit'') ex_am_world = None"
    by (simp add: cap_gate_def ex_am_world_def ex_am_obs_def count_of_def)
  moreover have "pl_author ex_pull = Some (codes ''redeyefit'')" by (simp add: ex_pull_def)
  ultimately have "evaluate_pr (map ascii_lower) ex_am_cfg ex_am_obs ''o/r'' 7 ex_pull ex_am_world
      = review_step ex_am_cfg ex_am_obs ''o/r'' 7 ex_pull (codes ''redeyefit'') ex_am_base ex_am_world"
    by (simp add: evaluate_pr_def ex_gates first_end_def)
  also have "\<dots> = (ex_am_merged, Decided Merged Merge_Done)"
    by (simp add: review_step_def review_pass_def merge_step_def recheck_def mergeable_def merge_queue_def ci_green_def charge_def count_of_def
        ex_am_obs_def ex_pull_def ex_am_world_def ex_am_merged_def Let_def)
  finally show ?thesis .
qed

theorem merge_passes_every_gate_witness:
  "aw_merged ex_am_merged = [(7, ex_am_head)] \<and> gated (map ascii_lower) ex_am_cfg ex_am_obs 7 ex_pull ex_am_world"
proof -
  have w: "ex_am_merged = fst (evaluate_pr (map ascii_lower) ex_am_cfg ex_am_obs ''o/r'' 7 ex_pull ex_am_world)" by (simp add: ex_evaluated)
  have "aw_merged ex_am_merged \<noteq> aw_merged ex_am_world" by (simp add: ex_am_merged_def ex_am_world_def)
  from merge_passes_every_gate [OF ex_am_cfg_def w this] show ?thesis by (simp add: ex_am_world_def ex_pull_def)
qed

section \<open>Ticks\<close>

definition ex_am_site :: am_site where
  "ex_am_site = \<lparr>as_repos = [(''r'', Ans ''o/r'')], as_enabled = True, as_rate = Ans 5000, as_lock = True, as_prs = Ans [(ex_pull, ex_am_obs)],
     as_now = 9\<rparr>"

definition ex_decision :: automerge_row where
  "ex_decision = \<lparr>am_key = (''r'', 7, ex_am_head), am_decision = Merged, am_reason = Some ''m'', am_decided = 9\<rparr>"

lemma ex_am_ticked:
  "am_tick (map ascii_lower) (\<lambda>_. ''m'') ex_am_cfg ex_am_site (ex_am_world\<lparr>aw_budget := 0\<rparr>) = (ex_am_merged\<lparr>aw_decisions := [ex_decision]\<rparr>, True)"
proof -
  have w: "ex_am_world\<lparr>aw_budget := 0\<rparr> = ex_am_world" by (simp add: ex_am_world_def)
  have d: "aw_decisions ex_am_world = []" "aw_decisions ex_am_merged = []" "pl_number ex_pull = Some 7" "pl_head ex_pull = ex_am_head"
    "aw_budget ex_am_merged = 1"
    by (simp_all add: ex_am_world_def ex_am_merged_def ex_pull_def)
  show ?thesis
    by (simp add: am_tick_def ex_am_site_def w d ex_evaluated automerge_decision_def record_automerge_def get_row_def ex_decision_def out_of_budget_def)
qed

theorem tick_within_caps_witness:
  "aw_merged ex_am_merged = [(7, ex_am_head)] \<and> count_of True (aw_day ex_am_merged ''20260301'') = 1
    \<and> count_of True (aw_author_day ex_am_merged ''20260301'' (codes ''redeyefit'')) = 1"
proof -
  let ?w = "ex_am_merged\<lparr>aw_decisions := [ex_decision]\<rparr>"
  have "?w = fst (am_tick (map ascii_lower) (\<lambda>_. ''m'') ex_am_cfg ex_am_site (ex_am_world\<lparr>aw_budget := 0\<rparr>))" by (simp add: ex_am_ticked)
  note t = tick_within_caps [OF this, of "''20260301''"]
  have "\<forall>ob \<in> snd ` set (site_pulls ex_am_site). steady ''20260301'' ob \<and> truthful ob"
    by (simp add: site_pulls_def ex_am_site_def ex_am_obs_def truthful_def steady_def)
  with t obtain ms where ms: "subseq ms [ex_pull]" "aw_budget ?w = length ms"
    "count_of True (aw_day ?w ''20260301'') = count_of True (aw_day ex_am_world ''20260301'') + int (length ms)"
    "count_of True (aw_author_day ?w ''20260301'' (codes ''redeyefit'')) = count_of True (aw_author_day ex_am_world ''20260301'' (codes ''redeyefit''))
       + int (length (filter (\<lambda>pr. pl_author pr = Some (codes ''redeyefit'')) ms))"
    "aw_merged ?w = aw_merged ex_am_world @ map (\<lambda>pr. (the (pl_number pr), pl_head pr)) ms"
    by (auto simp: site_pulls_def ex_am_site_def)
  have "length ms = 1" using ms(2) by (simp add: ex_am_merged_def)
  then have "ms = [ex_pull]" using ms(1) by (cases ms) (auto split: if_splits)
  with ms(3-5) show ?thesis by (simp add: ex_am_world_def ex_pull_def count_of_def [of _ Absent])
qed

theorem decided_head_left_alone_witness:
  "\<exists>w'. w' = fst (am_tick (map ascii_lower) (\<lambda>_. ''m'') ex_am_cfg ex_am_site (ex_am_merged\<lparr>aw_decisions := [ex_decision]\<rparr>))
     \<and> filter ((=) (7, ex_am_head)) (aw_reviews w') = [(7, ex_am_head)]"
proof -
  let ?w = "ex_am_merged\<lparr>aw_decisions := [ex_decision]\<rparr>"
  have "load_repo (as_repos ex_am_site) = Ans (Some (''r'', ''o/r''))" by (simp add: ex_am_site_def)
  moreover have "automerge_decision ''r'' 7 ex_am_head (aw_decisions ?w) \<noteq> None"
    by (simp add: automerge_decision_def ex_decision_def get_row_def)
  ultimately show ?thesis using decided_head_left_alone [OF _ _ refl, of ex_am_site "''r''" "''o/r''" 7 ex_am_head ?w "map ascii_lower" "\<lambda>_. ''m''" ex_am_cfg]
    by (simp add: ex_am_merged_def ex_am_world_def)
qed

section \<open>Where the comments promise more\<close>

text \<open>
  A merge whose confirmation is lost is not charged: with a cap of one per tick, two pull requests whose
  merges the server performs without a confirming reply are both merged in one tick.
\<close>

lemma unconfirmed_merges_uncapped:
  "let ob = ex_am_obs\<lparr>ao_put := Put_Unconfirmed\<rparr>;
       w = fst (run_prs (map ascii_lower) (\<lambda>_. ''m'') ex_am_cfg 9 ''r'' ''o/r'' [(ex_pull, ob), (ex_pull\<lparr>pl_number := Some 8\<rparr>, ob)] ex_am_world)
   in aw_merged w = [(7, ex_am_head), (8, ex_am_head)] \<and> aw_budget w = 0"
  by (simp add: evaluate_pr_def first_end_def scope_gate_def pin_range_def class_gate_def size_gate_def ci_gate_def cap_gate_def mergeable_def
      merge_queue_def ci_green_def ex_parsed ex_docs patch_size_def numstat_total_def numstat_line_def review_step_def review_pass_def merge_step_def
      recheck_def count_of_def out_of_budget_def automerge_decision_def get_row_def ex_am_obs_def ex_pull_def ex_am_world_def Let_def)

text \<open>
  The shadow mode records decisions: a code pull request whose review asks for fixes is on file as decided,
  and the real gate will not look at that head.
\<close>

lemma shadow_records_needs_fix:
  "let cfg = ex_am_cfg\<lparr>am_shadow_code := True, am_dry_run := True\<rparr>;
       ob = ex_am_obs\<lparr>ao_raw := Ans (codes '':100644 100644 a b M'' @ [0] @ codes ''a.py'' @ [0]),
         ao_review := \<lparr>ro_dir_ok = True, ro_run_id = ''am-1'', ro_rc = Some 1,
            ro_verdict = Verdict (Some ''am-1'') (Some ex_am_base) (Some ex_am_head) (Some ''NEEDS-FIX'')\<rparr>\<rparr>
   in snd (evaluate_pr (map ascii_lower) cfg ob ''o/r'' 7 ex_pull ex_am_world) = Decided Needs_Fix Review_Needs_Fix"
proof -
  have p: "\<exists>es. parse_raw_z (codes '':100644 100644 a b M'' @ [0] @ codes ''a.py'' @ [0]) = Inr es"
    by (simp add: parse_raw_z_def tokens_of_def parse_entry_def ascii_decode_def n_paths_def utf8_head_def codes_def Let_def)
  then obtain es where "parse_raw_z (codes '':100644 100644 a b M'' @ [0] @ codes ''a.py'' @ [0]) = Inr es" by blast
  then show ?thesis
    by (simp add: evaluate_pr_def first_end_def scope_gate_def pin_range_def class_gate_def size_gate_def ci_gate_def cap_gate_def mergeable_def
        merge_queue_def ci_green_def patch_size_def numstat_total_def numstat_line_def review_step_def review_pass_def
        count_of_def ex_am_obs_def ex_pull_def ex_am_world_def Let_def split: option.split)
qed

end
