(* ===== verification/Proposer_World.thy ===== *)
theory Proposer_World
  imports Capture_Store Chunker
begin

text \<open>
  The world of \<^verbatim>\<open>src/runtime/proposer.py\<close> and its calls into it. A tick runs in a small monad over the state
  \<open>pw\<close>: a computation returns a value, raises (\<open>Exn\<close>) or the process dies at a call (\<open>Dead\<close>), which no
  handler catches. Every call to the database, gh, git or the disk advances a clock; at each such moment
  people may have closed or merged open pull requests and the recorder may have stored a sighting. The
  answers to the calls are the record \<open>env\<close>, indexed by the clock. What gh reports of the bot's own open
  pull requests is computed from the world, so that a successful read is truthful and only its failure
  is free. The last two fields of \<open>env\<close> are ghosts that no operation reads: the scope and branch of a class,
  and the repository a scope names. Branches on the remote are not part of the state: what ls-remote prints is free.
\<close>

section \<open>Configuration\<close>

record pconfig =
  pc_max_open :: nat
  pc_ttl :: nat
  pc_per_tick :: nat
  pc_probe_cap :: nat
  pc_reap :: nat
  pc_dry :: bool

definition mk_pconfig :: "(string \<Rightarrow> pytext option) \<Rightarrow> pconfig" where
  "mk_pconfig v =
     \<lparr>pc_max_open = int_env (v ''CAPTURE_MAX_OPEN'') (nat (MAX_OPEN DEFAULTS)),
      pc_ttl = int_env (v ''CAPTURE_TTL_DAYS'') (nat (TTL_DAYS DEFAULTS)),
      pc_per_tick = int_env (v ''MYNDAIX_PROPOSER_MAX_TICK'') 2,
      pc_probe_cap = int_env (v ''MYNDAIX_PROPOSER_PROBE_CAP'') 6,
      pc_reap = int_env (v ''MYNDAIX_PROPOSER_REAP_MIN'') 30,
      pc_dry = (v ''MYNDAIX_PROPOSER_DRY_RUN'' = Some [49])\<rparr>"

definition effective_probe_cap :: "pconfig \<Rightarrow> nat" where
  "effective_probe_cap cfg = max (pc_probe_cap cfg) (pc_max_open cfg + 1)"

section \<open>The world\<close>

record suspect =
  su_fp :: string
  su_scope :: pytext
  su_branch :: pytext

datatype sus_file = Sus_Missing | Sus_Damaged | Sus_List "suspect list"

text \<open>
  An open pull request of the bot. \<open>bp_fp\<close> is a ghost: the class it was opened for.
\<close>

record bot_pr =
  bp_fp :: string
  bp_nwo :: pytext
  bp_branch :: pytext
  bp_num :: int

datatype notice = Orphan_PR pytext int | Stranded pytext

text \<open>
  The fields \<open>l_\<close> are the local variables of \<^verbatim>\<open>propose\<close>, which an exception does not undo; \<open>w_load\<close> is a ghost:
  how many unreported pull requests were open at each push.
\<close>

record pw =
  w_clock :: nat
  w_store :: capture_store
  w_sus :: sus_file
  w_cursor :: string
  w_prs :: "bot_pr list"
  w_log :: "notice list"
  w_inbox :: "notice list"
  w_load :: "nat list"
  l_open :: int
  l_opened :: nat
  l_attempts :: nat
  l_probes :: nat
  l_seen :: "string list"
  l_reserved :: "string list"
  l_sus_ok :: bool
  l_claim :: "(string \<times> pytext \<times> string) option"

definition told :: "pw \<Rightarrow> bot_pr \<Rightarrow> bool" where
  "told w p \<longleftrightarrow> Orphan_PR (bp_branch p) (bp_num p) \<in> set (w_log w)"

definition unreported :: "pw \<Rightarrow> bot_pr list" where
  "unreported w = filter (\<lambda>p. \<not> told w p) (w_prs w)"

section \<open>The monad\<close>

datatype 'a res = Ok 'a | Exn | Dead

type_synonym 'a prog = "pw \<Rightarrow> pw \<times> 'a res"

definition ret :: "'a \<Rightarrow> 'a prog" where
  "ret x w = (w, Ok x)"

definition raise :: "'a prog" where
  "raise w = (w, Exn)"

definition bindp :: "'a prog \<Rightarrow> ('a \<Rightarrow> 'b prog) \<Rightarrow> 'b prog" where
  "bindp m f w = (case m w of (w', r) \<Rightarrow> (case r of Ok x \<Rightarrow> f x w' | Exn \<Rightarrow> (w', Exn) | Dead \<Rightarrow> (w', Dead)))"

definition thenp :: "'a prog \<Rightarrow> 'b prog \<Rightarrow> 'b prog" where
  "thenp m n = bindp m (\<lambda>_. n)"

definition catch :: "'a prog \<Rightarrow> 'a prog \<Rightarrow> 'a prog" where
  "catch m h w = (case m w of (w', r) \<Rightarrow> (case r of Ok x \<Rightarrow> (w', Ok x) | Exn \<Rightarrow> h w' | Dead \<Rightarrow> (w', Dead)))"

definition gets :: "(pw \<Rightarrow> 'a) \<Rightarrow> 'a prog" where
  "gets f w = (w, Ok (f w))"

definition modify :: "(pw \<Rightarrow> pw) \<Rightarrow> unit prog" where
  "modify f w = (f w, Ok ())"

section \<open>The environment\<close>

datatype 'a reply = Reply 'a | Raise | Kill

text \<open>A statement runs and answers, fails, or commits while its answer is lost; the process may die either way.\<close>

datatype db_fate = Db_Ok | Db_Lost | Db_Done_Lost | Db_Dead | Db_Done_Dead

datatype save_fate = Save_Ok | Save_Failed | Save_Unsure | Save_Dead | Save_Done_Dead

datatype create_fate = Refused | Created int pytext | Created_Lost int | Create_Dead | Created_Dead int

datatype close_fate = Close_Ok | Close_Failed | Close_Lost | Close_Raise | Close_Dead | Close_Done_Dead

datatype repo_entry = Entry_Other | Entry "pytext option"

datatype repos_file = Repos_Unreadable | Repos_Not_Map | Repos "pytext \<Rightarrow> repo_entry option"

record repo_view =
  rv_is_repo :: bool
  rv_nwo :: "pytext option"
  rv_default :: "pytext option"

record pr_view =
  pv_merged_at :: bool
  pv_state :: string

datatype node = Node_Dir | Node_File | Node_Link

type_synonym fs = "pytext list \<Rightarrow> node option"

record commit_obs =
  co_fetch :: bool
  co_add :: bool
  co_fs :: fs
  co_faults :: "nat \<Rightarrow> bool"
  co_staged :: "pytext option"
  co_commit :: bool
  co_show :: "pytext option"

record push_obs =
  pu_ok :: bool
  pu_head :: "pytext option"
  pu_ref1 :: "pytext option"
  pu_ref2 :: "pytext option"

record env =
  en_now :: "nat \<Rightarrow> time"
  en_closed :: "nat \<Rightarrow> bot_pr \<Rightarrow> bool"
  en_sighting :: "nat \<Rightarrow> sighting option"
  en_th :: thresholds
  en_lower :: "pytext \<Rightarrow> pytext"
  en_sha :: "pytext \<Rightarrow> string"
  en_hit :: "injection_pattern \<Rightarrow> pytext \<Rightarrow> bool"
  en_db :: "nat \<Rightarrow> db_fate"
  en_repos :: "nat \<Rightarrow> repos_file reply"
  en_view :: "nat \<Rightarrow> pytext \<Rightarrow> repo_view option reply"
  en_list :: "nat \<Rightarrow> int list option reply"
  en_ref :: "nat \<Rightarrow> pytext option reply"
  en_commit :: "nat \<Rightarrow> commit_obs reply"
  en_push :: "nat \<Rightarrow> push_obs reply"
  en_create :: "nat \<Rightarrow> create_fate"
  en_close :: "nat \<Rightarrow> close_fate"
  en_state :: "nat \<Rightarrow> pr_view option reply"
  en_save :: "nat \<Rightarrow> save_fate"
  en_load :: "nat \<Rightarrow> bool reply"
  en_cursor :: "nat \<Rightarrow> bool reply"
  en_inbox :: "nat \<Rightarrow> bool reply"
  en_cleanup :: "nat \<Rightarrow> unit reply"
  en_home :: "string \<Rightarrow> pytext \<times> pytext"
  en_nwo :: "pytext \<Rightarrow> pytext"

text \<open>What others did by the next moment: pull requests closed or merged by people, a sighting recorded.\<close>

definition others :: "env \<Rightarrow> pw \<Rightarrow> pw" where
  "others e w =
     w\<lparr>w_clock := w_clock w + 1,
       w_prs := filter (\<lambda>p. \<not> en_closed e (w_clock w) p) (w_prs w),
       w_store := (case en_sighting e (w_clock w) of
           None \<Rightarrow> w_store w
         | Some g \<Rightarrow> fst (record_capture (en_lower e) (en_sha e) (en_th e) (en_now e (w_clock w)) g (w_store w)))\<rparr>"

definition reply :: "'a reply \<Rightarrow> 'a prog" where
  "reply r = (case r of Reply x \<Rightarrow> ret x | Raise \<Rightarrow> raise | Kill \<Rightarrow> (\<lambda>w. (w, Dead)))"

definition ask :: "env \<Rightarrow> (nat \<Rightarrow> 'a reply) \<Rightarrow> 'a prog" where
  "ask e g w = reply (g (w_clock w)) (others e w)"

section \<open>The ledger\<close>

definition db :: "env \<Rightarrow> (time \<Rightarrow> capture_store \<Rightarrow> capture_store \<times> 'a) \<Rightarrow> 'a prog" where
  "db e f w =
     (let k = w_clock w; w1 = others e w; r = f (en_now e k) (w_store w1); w2 = w1\<lparr>w_store := fst r\<rparr>
      in case en_db e k of
           Db_Ok \<Rightarrow> (w2, Ok (snd r)) | Db_Lost \<Rightarrow> (w1, Exn) | Db_Done_Lost \<Rightarrow> (w2, Exn)
         | Db_Dead \<Rightarrow> (w1, Dead) | Db_Done_Dead \<Rightarrow> (w2, Dead))"

definition on_cands ::
  "(candidate_row list \<Rightarrow> candidate_row list \<times> 'a) \<Rightarrow> capture_store \<Rightarrow> capture_store \<times> 'a" where
  "on_cands f st = (st\<lparr>cands := fst (f (cands st))\<rparr>, snd (f (cands st)))"

definition db_read :: "env \<Rightarrow> (capture_store \<Rightarrow> 'a) \<Rightarrow> 'a prog" where
  "db_read e f = db e (\<lambda>now st. (st, f st))"

definition claim :: "env \<Rightarrow> string \<Rightarrow> pytext \<Rightarrow> string \<Rightarrow> bool prog" where
  "claim e fp br d = db e (\<lambda>now. on_cands (claim_for_proposing now fp br d))"

definition mark :: "env \<Rightarrow> string \<Rightarrow> pytext \<Rightarrow> string \<Rightarrow> int \<Rightarrow> bool prog" where
  "mark e fp br d n = db e (\<lambda>now. on_cands (mark_capture_proposed now fp br d n))"

definition release :: "env \<Rightarrow> string \<Rightarrow> pytext \<Rightarrow> string \<Rightarrow> bool prog" where
  "release e fp br d = db e (\<lambda>now. on_cands (release_proposing fp br d))"

definition resolve :: "env \<Rightarrow> string \<Rightarrow> string \<Rightarrow> bool prog" where
  "resolve e fp out =
     bindp (db e (\<lambda>now st. case resolve_capture fp out (cands st) of
                       None \<Rightarrow> (st, None) | Some r \<Rightarrow> (st\<lparr>cands := fst r\<rparr>, Some (snd r))))
       (\<lambda>r. case r of None \<Rightarrow> raise | Some b \<Rightarrow> ret b)"

definition provenance :: "env \<Rightarrow> string \<Rightarrow> pytext list prog" where
  "provenance e fp = db_read e (\<lambda>st. capture_provenance fp 8 (occs st))"

end
