(* ===== verification/Proposer.thy ===== *)
theory Proposer
  imports Proposer_World
begin

text \<open>
  \<^verbatim>\<open>src/runtime/proposer.py\<close>: resolving a scope to a repository, the guarded write of a draft, the push and the
  creation of a pull request, the suspects file, and the passes of a tick (reconcile, the resolution of
  suspects, the scan of ready classes). An operation is a computation of \<open>Proposer_World\<close>.
\<close>

section \<open>Repositories\<close>

record repo_ref =
  rp_path :: pytext
  rp_nwo :: pytext
  rp_default :: pytext

definition view_repo :: "pytext \<Rightarrow> repo_view option \<Rightarrow> repo_ref option" where
  "view_repo path v =
     (case v of
        None \<Rightarrow> None
      | Some i \<Rightarrow>
          (case (rv_nwo i, rv_default i) of
             (Some nwo, Some d) \<Rightarrow>
               if 47 \<in> set nwo \<and> d \<noteq> [] then Some \<lparr>rp_path = path, rp_nwo = nwo, rp_default = d\<rparr> else None
           | _ \<Rightarrow> None))"

text \<open>The answer of \<^verbatim>\<open>en_view\<close> covers the check that the path is a git repository and \<^verbatim>\<open>gh repo view\<close> there.\<close>

definition resolve_repo :: "env \<Rightarrow> pytext \<Rightarrow> repo_ref option prog" where
  "resolve_repo e scope =
     bindp (ask e (en_repos e)) (\<lambda>raw.
       case raw of
         Repos f \<Rightarrow>
           (case f scope of
              Some (Entry (Some p)) \<Rightarrow>
                if prefix [95] scope \<or> p = [] then ret None
                else bindp (ask e (\<lambda>k. en_view e k p)) (\<lambda>v.
                       case v of
                         None \<Rightarrow> ret None
                       | Some i \<Rightarrow> if rv_is_repo i then ret (view_repo p (Some i)) else ret None)
            | _ \<Rightarrow> ret None)
       | _ \<Rightarrow> ret None)"

section \<open>The draft commit\<close>

definition skills_dir :: pytext where
  "skills_dir = codes ''skills''"

definition skill_file :: pytext where
  "skill_file = codes ''SKILL.md''"

datatype write_end = Written | Write_Refused | Write_Raised

text \<open>
  Each step is an operation against a pinned directory that does not follow links: opening succeeds on a
  real directory, making one where nothing is, creating the file where nothing is. \<open>fault i\<close> is any other
  error of step \<open>i\<close>.
\<close>

definition mkdir_at :: "bool \<Rightarrow> pytext list \<Rightarrow> fs \<Rightarrow> fs option" where
  "mkdir_at bad p t = (if bad \<or> t p \<noteq> None then None else Some (t(p \<mapsto> Node_Dir)))"

definition open_dir :: "bool \<Rightarrow> pytext list \<Rightarrow> fs \<Rightarrow> bool" where
  "open_dir bad p t \<longleftrightarrow> \<not> bad \<and> t p = Some Node_Dir"

definition safe_write_skill :: "(nat \<Rightarrow> bool) \<Rightarrow> pytext \<Rightarrow> fs \<Rightarrow> fs \<times> write_end" where
  "safe_write_skill fault slug' t0 =
     (if \<not> open_dir (fault 0) [] t0 then (t0, Write_Refused)
      else if t0 [skills_dir] = None \<and> fault 1 then (t0, Write_Refused)
      else
        (let t1 = (case mkdir_at False [skills_dir] t0 of None \<Rightarrow> t0 | Some t \<Rightarrow> t) in
         if \<not> open_dir (fault 2) [skills_dir] t1 then (t1, Write_Refused)
         else
           (case mkdir_at (fault 3) [skills_dir, slug'] t1 of
              None \<Rightarrow> (t1, Write_Refused)
            | Some t2 \<Rightarrow>
                if \<not> open_dir (fault 4) [skills_dir, slug'] t2 then (t2, Write_Refused)
                else if fault 5 \<or> t2 [skills_dir, slug', skill_file] \<noteq> None then (t2, Write_Refused)
                else (t2([skills_dir, slug', skill_file] \<mapsto> Node_File), if fault 6 then Write_Raised else Written))))"

definition nul_names :: "pytext \<Rightarrow> pytext list" where
  "nul_names out = filter (\<lambda>p. p \<noteq> []) (split_on 0 out)"

definition staged_paths :: "pytext option \<Rightarrow> pytext list" where
  "staged_paths r = (case r of None \<Rightarrow> [] | Some out \<Rightarrow> nul_names out)"

definition commit_verdict :: "(pytext \<Rightarrow> pytext) \<Rightarrow> pytext \<Rightarrow> commit_obs \<Rightarrow> bool reply" where
  "commit_verdict lower slug' ob =
     (if \<not> co_fetch ob \<or> \<not> co_add ob then Reply False
      else
        (case snd (safe_write_skill (co_faults ob) slug' (co_fs ob)) of
           Write_Raised \<Rightarrow> Raise
         | Write_Refused \<Rightarrow> Reply False
         | Written \<Rightarrow>
             if \<not> assert_only_skill_path lower (staged_paths (co_staged ob)) slug' then Reply False
             else if \<not> co_commit ob then Reply False
             else (case co_show ob of
                     None \<Rightarrow> Reply False
                   | Some out \<Rightarrow> Reply (assert_only_skill_path lower (nul_names out) slug'))))"

definition make_proposal_commit :: "env \<Rightarrow> pytext \<Rightarrow> bool prog" where
  "make_proposal_commit e slug' =
     bindp (ask e (en_commit e)) (\<lambda>ob. reply (commit_verdict (en_lower e) slug' ob))"

section \<open>Remote references\<close>

definition head_ref :: "pytext \<Rightarrow> pytext" where
  "head_ref br = codes ''refs/heads/'' @ br"

definition ref_line :: "pytext \<Rightarrow> pytext \<Rightarrow> pytext option" where
  "ref_line ref ln = (case split_on 9 ln of [sha, r] \<Rightarrow> if r = ref then Some sha else None | _ \<Rightarrow> None)"

definition ref_listed :: "pytext \<Rightarrow> pytext \<Rightarrow> bool" where
  "ref_listed br out \<longleftrightarrow> list_ex (\<lambda>ln. ref_line (head_ref br) ln \<noteq> None) (split_lines out)"

definition remote_branch_exists :: "env \<Rightarrow> pytext \<Rightarrow> bool option prog" where
  "remote_branch_exists e br = bindp (ask e (en_ref e)) (\<lambda>r. ret (map_option (ref_listed br) r))"

datatype ref_read = Ref_Present pytext | Ref_Absent | Ref_Unknown

definition remote_ref_sha :: "pytext \<Rightarrow> pytext option \<Rightarrow> ref_read" where
  "remote_ref_sha br r =
     (case r of
        None \<Rightarrow> Ref_Unknown
      | Some out \<Rightarrow>
          (case filter (\<lambda>s. s \<noteq> []) (List.map_filter (ref_line (head_ref br)) (split_lines out)) of
             [] \<Rightarrow> Ref_Absent | s # _ \<Rightarrow> Ref_Present s))"

section \<open>Push and create\<close>

datatype outcome = Opened int | No_PR | No_PR_Foreign | Outcome_Unknown

text \<open>The pattern \<^verbatim>\<open>/pull/(\d+)\s*$\<close> on stripped output; gh prints ASCII digits.\<close>

definition pr_url_number :: "pytext \<Rightarrow> int option" where
  "pr_url_number out =
     (let t = rev (strip out); ds = takeWhile ascii_digit t in
      if ds \<noteq> [] \<and> prefix (rev (codes ''/pull/'')) (drop (length ds) t) then Some (int (decimal (rev ds))) else None)"

definition open_heads :: "pytext \<Rightarrow> pytext \<Rightarrow> pw \<Rightarrow> bot_pr list" where
  "open_heads nwo br w = filter (\<lambda>p. bp_nwo p = nwo \<and> bp_branch p = br) (w_prs w)"

definition opened_pr :: "string \<Rightarrow> repo_ref \<Rightarrow> pytext \<Rightarrow> int \<Rightarrow> pw \<Rightarrow> pw" where
  "opened_pr fp repo br n w =
     w\<lparr>w_prs := w_prs w @ [\<lparr>bp_fp = fp, bp_nwo = rp_nwo repo, bp_branch = br, bp_num = n\<rparr>]\<rparr>"

text \<open>GitHub refuses a second open pull request for the same head, so nothing is created then.\<close>

definition create_pr_for_branch :: "env \<Rightarrow> string \<Rightarrow> repo_ref \<Rightarrow> pytext \<Rightarrow> outcome prog" where
  "create_pr_for_branch e fp repo br w =
     (let w1 = others e w; fate = en_create e (w_clock w) in
      if open_heads (rp_nwo repo) br w1 \<noteq> []
      then (w1, case fate of Create_Dead \<Rightarrow> Dead | Created_Dead _ \<Rightarrow> Dead | _ \<Rightarrow> Ok Outcome_Unknown)
      else (case fate of
              Refused \<Rightarrow> (w1, Ok Outcome_Unknown)
            | Created n out \<Rightarrow>
                (opened_pr fp repo br n w1,
                 Ok (case pr_url_number out of None \<Rightarrow> Outcome_Unknown | Some m \<Rightarrow> Opened m))
            | Created_Lost n \<Rightarrow> (opened_pr fp repo br n w1, Ok Outcome_Unknown)
            | Create_Dead \<Rightarrow> (w1, Dead)
            | Created_Dead n \<Rightarrow> (opened_pr fp repo br n w1, Dead)))"

datatype push_end = Go_Create | Push_None | Push_Foreign | Push_Unknown

definition push_verdict :: "pytext \<Rightarrow> push_obs \<Rightarrow> push_end" where
  "push_verdict br ob =
     (if pu_ok ob then Go_Create
      else
        (let s1 = remote_ref_sha br (pu_ref1 ob);
             s = (if s1 = Ref_Absent then remote_ref_sha br (pu_ref2 ob) else s1) in
         if s = Ref_Absent then Push_None
         else (case (s, pu_head ob) of
                 (Ref_Present r, Some ours) \<Rightarrow>
                   if ours = [] then Push_Unknown else if r = ours then Go_Create else Push_Foreign
               | _ \<Rightarrow> Push_Unknown)))"

definition log_load :: "unit prog" where
  "log_load = modify (\<lambda>w. w\<lparr>w_load := w_load w @ [length (unreported w)]\<rparr>)"

definition push_and_open_pr :: "env \<Rightarrow> string \<Rightarrow> repo_ref \<Rightarrow> pytext \<Rightarrow> outcome prog" where
  "push_and_open_pr e fp repo br =
     thenp log_load
       (bindp (catch (bindp (ask e (en_push e)) (\<lambda>ob. ret (push_verdict br ob))) (ret Push_Unknown)) (\<lambda>v.
          case v of
            Go_Create \<Rightarrow> create_pr_for_branch e fp repo br
          | Push_None \<Rightarrow> ret No_PR
          | Push_Foreign \<Rightarrow> ret No_PR_Foreign
          | Push_Unknown \<Rightarrow> ret Outcome_Unknown))"

text \<open>\<^verbatim>\<open>gh pr close\<close>: only an exit status of zero counts as closed.\<close>

definition drop_pr :: "pytext \<Rightarrow> int \<Rightarrow> pw \<Rightarrow> pw" where
  "drop_pr nwo n w = w\<lparr>w_prs := filter (\<lambda>p. \<not> (bp_nwo p = nwo \<and> bp_num p = n)) (w_prs w)\<rparr>"

definition gh_close :: "env \<Rightarrow> pytext \<Rightarrow> int \<Rightarrow> bool prog" where
  "gh_close e nwo n w =
     (let w1 = others e w in
      case en_close e (w_clock w) of
        Close_Ok \<Rightarrow> (drop_pr nwo n w1, Ok True)
      | Close_Failed \<Rightarrow> (w1, Ok False)
      | Close_Lost \<Rightarrow> (drop_pr nwo n w1, Ok False)
      | Close_Raise \<Rightarrow> (w1, Exn)
      | Close_Dead \<Rightarrow> (w1, Dead)
      | Close_Done_Dead \<Rightarrow> (drop_pr nwo n w1, Dead))"

section \<open>Looking up the bot's pull requests\<close>

record pr_item =
  pi_number :: int
  pi_cross :: bool
  pi_head :: pytext

datatype lookup = Found int | None_Open | Lookup_Unknown | Ambiguous

definition judge_rows :: "pytext \<Rightarrow> pr_item list option \<Rightarrow> lookup" where
  "judge_rows br rows =
     (case rows of
        None \<Rightarrow> Lookup_Unknown
      | Some rs \<Rightarrow>
          (case filter (\<lambda>r. \<not> pi_cross r \<and> pi_head r = br) rs of
             [] \<Rightarrow> None_Open | [r] \<Rightarrow> Found (pi_number r) | _ \<Rightarrow> Ambiguous))"

text \<open>A successful listing shows the open pull requests of the head, and perhaps some from forks.\<close>

definition listed_rows :: "pytext \<Rightarrow> pytext \<Rightarrow> int list \<Rightarrow> pw \<Rightarrow> pr_item list" where
  "listed_rows nwo br forks w =
     map (\<lambda>p. \<lparr>pi_number = bp_num p, pi_cross = False, pi_head = br\<rparr>) (open_heads nwo br w)
     @ map (\<lambda>n. \<lparr>pi_number = n, pi_cross = True, pi_head = br\<rparr>) forks"

definition find_open_bot_pr :: "env \<Rightarrow> repo_ref \<Rightarrow> pytext \<Rightarrow> lookup prog" where
  "find_open_bot_pr e repo br =
     bindp (ask e (en_list e)) (\<lambda>r. gets (\<lambda>w. judge_rows br (map_option (\<lambda>fs. listed_rows (rp_nwo repo) br fs w) r)))"

text \<open>\<^verbatim>\<open>gh pr view\<close> of one number: an open pull request of the bot is reported as open.\<close>

definition view_pr :: "env \<Rightarrow> pytext \<Rightarrow> int \<Rightarrow> pr_view option prog" where
  "view_pr e nwo n =
     bindp (ask e (en_state e)) (\<lambda>r. gets (\<lambda>w.
       if list_ex (\<lambda>p. bp_nwo p = nwo \<and> bp_num p = n) (w_prs w)
       then map_option (\<lambda>_. \<lparr>pv_merged_at = False, pv_state = ''OPEN''\<rparr>) r else r))"

section \<open>Reconcile\<close>

definition aged :: "time \<Rightarrow> nat \<Rightarrow> time option \<Rightarrow> bool" where
  "aged now ttl t \<longleftrightarrow> (case t of None \<Rightarrow> False | Some u \<Rightarrow> now - u > int ttl * 86400)"

definition settle :: "env \<Rightarrow> pconfig \<Rightarrow> candidate_row \<Rightarrow> string \<Rightarrow> unit prog" where
  "settle e cfg c out = (if pc_dry cfg then ret () else thenp (resolve e (cc_fp c) out) (ret ()))"

definition reconcile_pr :: "env \<Rightarrow> pconfig \<Rightarrow> candidate_row \<Rightarrow> pytext \<Rightarrow> int \<Rightarrow> time \<Rightarrow> pr_view \<Rightarrow> unit prog" where
  "reconcile_pr e cfg c nwo n now v =
     (if pv_merged_at v \<or> pv_state v = ''MERGED'' then settle e cfg c ''promoted''
      else if pv_state v = ''CLOSED'' then settle e cfg c ''declined''
      else if pv_state v = ''OPEN'' \<and> aged now (pc_ttl cfg) (cc_proposed_at c) then
        if pc_dry cfg then ret ()
        else bindp (gh_close e nwo n) (\<lambda>ok. if ok then settle e cfg c ''stale'' else ret ())
      else ret ())"

definition reconcile_row :: "env \<Rightarrow> pconfig \<Rightarrow> candidate_row \<Rightarrow> unit prog" where
  "reconcile_row e cfg c =
     bindp (resolve_repo e (cc_repo c)) (\<lambda>r.
       case (r, cc_pr c) of
         (Some repo, Some n) \<Rightarrow>
           bindp (view_pr e (rp_nwo repo) n) (\<lambda>v.
             case v of
               None \<Rightarrow> ret ()
             | Some pr \<Rightarrow> bindp (gets (\<lambda>w. en_now e (w_clock w))) (\<lambda>now. reconcile_pr e cfg c (rp_nwo repo) n now pr))
       | _ \<Rightarrow> ret ())"

fun each :: "('a \<Rightarrow> unit prog) \<Rightarrow> 'a list \<Rightarrow> unit prog" where
  "each f [] = ret ()"
| "each f (x # xs) = thenp (catch (f x) (ret ())) (each f xs)"

definition reconcile :: "env \<Rightarrow> pconfig \<Rightarrow> unit prog" where
  "reconcile e cfg = bindp (db_read e (\<lambda>st. list_proposed (cands st))) (\<lambda>cs. each (reconcile_row e cfg) cs)"

section \<open>The suspects file\<close>

definition load_suspects :: "env \<Rightarrow> (suspect list \<times> bool) prog" where
  "load_suspects e =
     bindp (ask e (en_load e)) (\<lambda>readable. gets (\<lambda>w.
       case w_sus w of
         Sus_Missing \<Rightarrow> ([], True)
       | Sus_Damaged \<Rightarrow> ([], False)
       | Sus_List ss \<Rightarrow> if readable then (ss, True) else ([], False)))"

definition save_suspects :: "env \<Rightarrow> suspect list \<Rightarrow> bool prog" where
  "save_suspects e ss w =
     (let w1 = others e w; w2 = w1\<lparr>w_sus := Sus_List ss\<rparr> in
      case en_save e (w_clock w) of
        Save_Ok \<Rightarrow> (w2, Ok True) | Save_Failed \<Rightarrow> (w1, Ok False) | Save_Unsure \<Rightarrow> (w2, Ok False)
      | Save_Dead \<Rightarrow> (w1, Dead) | Save_Done_Dead \<Rightarrow> (w2, Dead))"

definition add_suspect :: "env \<Rightarrow> suspect \<Rightarrow> bool prog" where
  "add_suspect e s =
     bindp (load_suspects e) (\<lambda>(ss, healthy).
       if \<not> healthy then ret False
       else save_suspects e (if list_ex (\<lambda>t. su_fp t = su_fp s) ss then ss else ss @ [s]))"

definition clear_suspect :: "env \<Rightarrow> string \<Rightarrow> unit prog" where
  "clear_suspect e fp =
     bindp (load_suspects e) (\<lambda>(ss, healthy).
       if \<not> healthy then ret ()
       else
         (let kept = filter (\<lambda>s. su_fp s \<noteq> fp) ss in
          if length kept \<noteq> length ss then thenp (save_suspects e kept) (ret ()) else ret ()))"

text \<open>A dropped suspect is logged, then put into the inbox as far as that works.\<close>

definition notify_jefe :: "env \<Rightarrow> notice \<Rightarrow> unit prog" where
  "notify_jefe e n =
     thenp (modify (\<lambda>w. w\<lparr>w_log := w_log w @ [n]\<rparr>))
       (bindp (catch (ask e (en_inbox e)) (ret False)) (\<lambda>ok.
          if ok then modify (\<lambda>w. w\<lparr>w_inbox := w_inbox w @ [n]\<rparr>) else ret ()))"

section \<open>Resolving suspects\<close>

datatype verdict = Keep | Drop | Defer

definition last_segment :: "pytext \<Rightarrow> pytext" where
  "last_segment br = rev (takeWhile (\<lambda>c. c \<noteq> 47) (rev br))"

definition draft_of :: "env \<Rightarrow> pytext \<Rightarrow> pytext \<Rightarrow> pytext \<Rightarrow> pytext \<Rightarrow> pytext list \<Rightarrow> pytext option" where
  "draft_of e s tag glob scope prov =
     render_skill_md (en_lower e) (en_hit e) s tag glob
       \<lparr>df_wrong = [], df_preferred = [], df_ids = prov, df_origin = scope\<rparr>"

definition suspect_draft :: "env \<Rightarrow> suspect \<Rightarrow> string prog" where
  "suspect_draft e s =
     bindp (provenance e (su_fp s)) (\<lambda>prov.
       let sl = last_segment (su_branch s) in
       ret (case draft_of e sl sl (codes ''src/**'') (su_scope s) prov of
              None \<Rightarrow> ''unknown'' | Some raw \<Rightarrow> draft_hash (en_sha e) raw))"

definition count_up :: "unit prog" where
  "count_up = modify (\<lambda>w. w\<lparr>l_open := l_open w + 1\<rparr>)"

definition count_down :: "unit prog" where
  "count_down = modify (\<lambda>w. w\<lparr>l_open := l_open w - 1\<rparr>)"

definition probe :: "unit prog" where
  "probe = modify (\<lambda>w. w\<lparr>l_probes := l_probes w + 1\<rparr>)"

definition adopt_suspect :: "env \<Rightarrow> string set \<Rightarrow> suspect \<Rightarrow> int \<Rightarrow> verdict prog" where
  "adopt_suspect e inflight s n =
     bindp (suspect_draft e s) (\<lambda>d.
     bindp (claim e (su_fp s) (su_branch s) d) (\<lambda>won.
       if won then
         bindp (mark e (su_fp s) (su_branch s) d n) (\<lambda>marked.
           if marked then thenp count_up (ret Drop)
           else thenp (release e (su_fp s) (su_branch s) d) (ret Keep))
       else if su_fp s \<in> inflight then ret Keep
       else thenp (notify_jefe e (Orphan_PR (su_branch s) n)) (ret Drop)))"

definition recover_suspect :: "env \<Rightarrow> string set \<Rightarrow> suspect \<Rightarrow> repo_ref \<Rightarrow> verdict prog" where
  "recover_suspect e inflight s repo =
     bindp (suspect_draft e s) (\<lambda>d.
     bindp (claim e (su_fp s) (su_branch s) d) (\<lambda>won.
       if won then
         bindp (create_pr_for_branch e (su_fp s) repo (su_branch s)) (\<lambda>oc.
         bindp (case oc of Opened n \<Rightarrow> mark e (su_fp s) (su_branch s) d n | _ \<Rightarrow> ret False) (\<lambda>marked.
           if marked then thenp count_up (ret Drop)
           else thenp (release e (su_fp s) (su_branch s) d) (ret Keep)))
       else if su_fp s \<in> inflight then ret Keep
       else thenp (notify_jefe e (Stranded (su_branch s))) (ret Drop)))"

definition resolve_suspect :: "env \<Rightarrow> pconfig \<Rightarrow> string set \<Rightarrow> string set \<Rightarrow> suspect \<Rightarrow> verdict prog" where
  "resolve_suspect e cfg tracked inflight s =
     (if su_fp s \<in> tracked then ret Drop
      else
        bindp (gets l_probes) (\<lambda>p.
          if p \<ge> effective_probe_cap cfg then ret Defer
          else
            bindp (resolve_repo e (su_scope s)) (\<lambda>r.
              case r of
                None \<Rightarrow> ret Keep
              | Some repo \<Rightarrow>
                  thenp probe
                    (bindp (find_open_bot_pr e repo (su_branch s)) (\<lambda>st.
                       case st of
                         Found n \<Rightarrow> adopt_suspect e inflight s n
                       | None_Open \<Rightarrow>
                           bindp (remote_branch_exists e (su_branch s)) (\<lambda>rbe.
                             case rbe of
                               Some False \<Rightarrow> ret Drop
                             | Some True \<Rightarrow> recover_suspect e inflight s repo
                             | None \<Rightarrow> ret Keep)
                       | _ \<Rightarrow> ret Keep)))))"

fun resolve_suspects ::
  "env \<Rightarrow> pconfig \<Rightarrow> string set \<Rightarrow> string set \<Rightarrow> suspect list \<Rightarrow> (suspect list \<times> suspect list) prog" where
  "resolve_suspects e cfg tracked inflight [] = ret ([], [])"
| "resolve_suspects e cfg tracked inflight (s # ss) =
     bindp (catch (resolve_suspect e cfg tracked inflight s) (ret Keep)) (\<lambda>v.
     bindp (resolve_suspects e cfg tracked inflight ss) (\<lambda>(remaining, deferred).
       ret (case v of Keep \<Rightarrow> (s # remaining, deferred) | Drop \<Rightarrow> (remaining, deferred)
                    | Defer \<Rightarrow> (remaining, s # deferred))))"

definition reserve :: "string set \<Rightarrow> suspect list \<Rightarrow> unit prog" where
  "reserve inflight kept =
     (let fps = remdups (filter (\<lambda>f. f \<notin> inflight) (map su_fp kept)) in
      modify (\<lambda>w. w\<lparr>l_reserved := fps, l_open := l_open w + int (length fps)\<rparr>))"

definition suspect_pass :: "env \<Rightarrow> pconfig \<Rightarrow> unit prog" where
  "suspect_pass e cfg =
     bindp (load_suspects e) (\<lambda>(ss, healthy).
     thenp (modify (\<lambda>w. w\<lparr>l_sus_ok := healthy\<rparr>))
       (if \<not> healthy then ret ()
        else
          bindp (db_read e (\<lambda>st. set (map cc_fp (list_proposed (cands st))))) (\<lambda>tracked.
          bindp (db_read e (\<lambda>st. list_inflight_fingerprints (cands st))) (\<lambda>inflight.
          bindp (resolve_suspects e cfg tracked inflight ss) (\<lambda>(remaining, deferred).
            let kept = deferred @ remaining in
            thenp (if ss = [] then ret True else save_suspects e kept) (reserve inflight kept))))))"

section \<open>The scan of ready classes\<close>

datatype flow = Next | Stop

record ticket =
  tk_fp :: string
  tk_scope :: pytext
  tk_branch :: pytext
  tk_draft :: string

definition create_spent :: "pconfig \<Rightarrow> pw \<Rightarrow> bool" where
  "create_spent cfg w \<longleftrightarrow> \<not> l_sus_ok w \<or> l_open w \<ge> int (pc_max_open cfg)
     \<or> l_opened w \<ge> pc_per_tick cfg \<or> l_attempts w \<ge> pc_per_tick cfg"

definition unreserve :: "string \<Rightarrow> unit prog" where
  "unreserve fp = modify (\<lambda>w. w\<lparr>l_reserved := removeAll fp (l_reserved w)\<rparr>)"

definition take_claim :: "env \<Rightarrow> ticket \<Rightarrow> bool prog" where
  "take_claim e t =
     bindp (claim e (tk_fp t) (tk_branch t) (tk_draft t)) (\<lambda>won.
       if won then thenp (modify (\<lambda>w. w\<lparr>l_claim := Some (tk_fp t, tk_branch t, tk_draft t)\<rparr>)) (ret True)
       else ret False)"

definition give_back :: "env \<Rightarrow> ticket \<Rightarrow> unit prog" where
  "give_back e t = thenp (release e (tk_fp t) (tk_branch t) (tk_draft t)) (ret ())"

definition mark_ticket :: "env \<Rightarrow> ticket \<Rightarrow> int \<Rightarrow> bool prog" where
  "mark_ticket e t n = mark e (tk_fp t) (tk_branch t) (tk_draft t) n"

definition cleanup :: "env \<Rightarrow> unit prog" where
  "cleanup e = catch (ask e (en_cleanup e)) (ret ())"

definition adopt_ready :: "env \<Rightarrow> ticket \<Rightarrow> int \<Rightarrow> unit prog" where
  "adopt_ready e t n =
     bindp (take_claim e t) (\<lambda>won.
       if \<not> won then ret ()
       else bindp (mark_ticket e t n) (\<lambda>marked.
              if marked then
                bindp (gets (\<lambda>w. tk_fp t \<in> set (l_reserved w))) (\<lambda>held.
                  thenp (if held then unreserve (tk_fp t) else count_up) (clear_suspect e (tk_fp t)))
              else give_back e t))"

definition recover_ready :: "env \<Rightarrow> ticket \<Rightarrow> repo_ref \<Rightarrow> unit prog" where
  "recover_ready e t repo =
     bindp (take_claim e t) (\<lambda>won.
       if \<not> won then ret ()
       else
         bindp (create_pr_for_branch e (tk_fp t) repo (tk_branch t)) (\<lambda>oc.
         bindp (case oc of Opened n \<Rightarrow> mark_ticket e t n | _ \<Rightarrow> ret False) (\<lambda>marked.
           if marked then thenp (unreserve (tk_fp t)) (clear_suspect e (tk_fp t)) else give_back e t)))"

definition account :: "env \<Rightarrow> ticket \<Rightarrow> repo_ref \<Rightarrow> outcome \<Rightarrow> unit prog" where
  "account e t repo oc =
     (case oc of
        Outcome_Unknown \<Rightarrow> catch (give_back e t) (ret ())
      | No_PR \<Rightarrow> thenp count_down (give_back e t)
      | No_PR_Foreign \<Rightarrow> thenp (clear_suspect e (tk_fp t)) (thenp count_down (give_back e t))
      | Opened n \<Rightarrow>
          bindp (mark_ticket e t n) (\<lambda>marked.
            if marked then
              thenp (clear_suspect e (tk_fp t)) (modify (\<lambda>w. w\<lparr>l_opened := l_opened w + 1\<rparr>))
            else
              bindp (gh_close e (rp_nwo repo) n) (\<lambda>closed.
                if closed then thenp (clear_suspect e (tk_fp t)) count_down else ret ())))"

definition intend :: "env \<Rightarrow> ticket \<Rightarrow> repo_ref \<Rightarrow> unit prog" where
  "intend e t repo =
     bindp (add_suspect e \<lparr>su_fp = tk_fp t, su_scope = tk_scope t, su_branch = tk_branch t\<rparr>) (\<lambda>durable.
       if \<not> durable then thenp (cleanup e) (give_back e t)
       else
         thenp count_up
           (thenp (modify (\<lambda>w. w\<lparr>l_attempts := l_attempts w + 1\<rparr>))
             (bindp (push_and_open_pr e (tk_fp t) repo (tk_branch t)) (\<lambda>oc.
                thenp (cleanup e) (account e t repo oc)))))"

definition create_ready :: "env \<Rightarrow> pconfig \<Rightarrow> ticket \<Rightarrow> pytext \<Rightarrow> repo_ref \<Rightarrow> unit prog" where
  "create_ready e cfg t slug' repo =
     bindp (gets (create_spent cfg)) (\<lambda>spent.
       if spent then ret ()
       else bindp (remote_branch_exists e (tk_branch t)) (\<lambda>ex.
              if ex \<noteq> Some False then ret ()
              else bindp (take_claim e t) (\<lambda>won.
                     if \<not> won then ret ()
                     else bindp (make_proposal_commit e slug') (\<lambda>ok.
                            if \<not> ok then give_back e t else intend e t repo))))"

definition reserved_ready :: "env \<Rightarrow> pconfig \<Rightarrow> ticket \<Rightarrow> pytext \<Rightarrow> repo_ref \<Rightarrow> unit prog" where
  "reserved_ready e cfg t slug' repo =
     bindp (remote_branch_exists e (tk_branch t)) (\<lambda>rbe.
       case rbe of
         Some False \<Rightarrow>
           thenp count_down (thenp (unreserve (tk_fp t))
             (thenp (clear_suspect e (tk_fp t)) (create_ready e cfg t slug' repo)))
       | Some True \<Rightarrow> recover_ready e t repo
       | None \<Rightarrow> ret ())"

definition probe_ready :: "env \<Rightarrow> pconfig \<Rightarrow> ticket \<Rightarrow> pytext \<Rightarrow> repo_ref \<Rightarrow> unit prog" where
  "probe_ready e cfg t slug' repo =
     thenp probe
       (bindp (find_open_bot_pr e repo (tk_branch t)) (\<lambda>st.
          case st of
            Found n \<Rightarrow> adopt_ready e t n
          | None_Open \<Rightarrow>
              bindp (gets (\<lambda>w. tk_fp t \<in> set (l_reserved w))) (\<lambda>held.
                if held then reserved_ready e cfg t slug' repo else create_ready e cfg t slug' repo)
          | _ \<Rightarrow> ret ()))"

definition spent_tick :: "pconfig \<Rightarrow> pw \<Rightarrow> bool" where
  "spent_tick cfg w \<longleftrightarrow> l_open w \<ge> int (pc_max_open cfg) \<or> l_opened w \<ge> pc_per_tick cfg"

definition dry_ready :: "pconfig \<Rightarrow> flow prog" where
  "dry_ready cfg =
     bindp (gets (spent_tick cfg)) (\<lambda>sp.
       if sp then ret Stop
       else thenp (modify (\<lambda>w. w\<lparr>l_open := l_open w + 1, l_opened := l_opened w + 1\<rparr>))
              (gets (\<lambda>w. if spent_tick cfg w then Stop else Next)))"

definition trigger_of :: "candidate_row \<Rightarrow> pytext" where
  "trigger_of c = (case cc_glob c of None \<Rightarrow> codes ''src/**'' | Some g \<Rightarrow> or_else g (codes ''src/**''))"

definition draft_ready :: "env \<Rightarrow> pconfig \<Rightarrow> candidate_row \<Rightarrow> pytext \<Rightarrow> repo_ref \<Rightarrow> flow prog" where
  "draft_ready e cfg c s repo =
     bindp (provenance e (cc_fp c)) (\<lambda>prov.
       case draft_of e s (cc_tag c) (trigger_of c) (cc_repo c) prov of
         None \<Rightarrow> ret Next
       | Some raw \<Rightarrow>
           if pc_dry cfg then dry_ready cfg
           else
             bindp (gets l_probes) (\<lambda>p.
               if p \<ge> effective_probe_cap cfg
               then thenp (modify (\<lambda>w. w\<lparr>l_seen := removeAll (cc_fp c) (l_seen w)\<rparr>)) (ret Stop)
               else thenp (probe_ready e cfg
                      \<lparr>tk_fp = cc_fp c, tk_scope = cc_repo c, tk_branch = skill_branch s,
                       tk_draft = draft_hash (en_sha e) raw\<rparr> s repo) (ret Next)))"

definition ready_body :: "env \<Rightarrow> pconfig \<Rightarrow> candidate_row \<Rightarrow> flow prog" where
  "ready_body e cfg c =
     bindp (resolve_repo e (cc_repo c)) (\<lambda>r.
       case (r, slug (en_lower e) (cc_tag c)) of
         (Some repo, Some s) \<Rightarrow> draft_ready e cfg c s repo
       | _ \<Rightarrow> ret Next)"

text \<open>The exception arm owes a release only when the claim was taken.\<close>

definition owed_release :: "env \<Rightarrow> flow prog" where
  "owed_release e =
     bindp (gets l_claim) (\<lambda>cl.
       case cl of
         None \<Rightarrow> ret Next
       | Some (fp, br, d) \<Rightarrow> catch (thenp (release e fp br d) (ret Next)) (ret Next))"

definition visit_ready :: "env \<Rightarrow> pconfig \<Rightarrow> candidate_row \<Rightarrow> flow prog" where
  "visit_ready e cfg c =
     thenp (modify (\<lambda>w. w\<lparr>l_seen := l_seen w @ [cc_fp c], l_claim := None\<rparr>))
       (catch (ready_body e cfg c) (owed_release e))"

fun scan_ready :: "env \<Rightarrow> pconfig \<Rightarrow> candidate_row list \<Rightarrow> unit prog" where
  "scan_ready e cfg [] = ret ()"
| "scan_ready e cfg (c # cs) =
     bindp (gets (\<lambda>w. create_spent cfg w \<and> l_probes w \<ge> effective_probe_cap cfg)) (\<lambda>halt.
       if halt then ret ()
       else bindp (gets (\<lambda>w. cc_fp c \<in> set (l_seen w))) (\<lambda>dup.
              if dup then scan_ready e cfg cs
              else bindp (visit_ready e cfg c) (\<lambda>fl. case fl of Stop \<Rightarrow> ret () | Next \<Rightarrow> scan_ready e cfg cs)))"

section \<open>The tick\<close>

definition strip_ascii :: "string \<Rightarrow> string" where
  "strip_ascii s =
     (let drop_ws = dropWhile (\<lambda>c. is_space (of_char c)) in rev (drop_ws (rev (drop_ws s))))"

definition read_cursor :: "env \<Rightarrow> string prog" where
  "read_cursor e = bindp (ask e (en_cursor e)) (\<lambda>ok. gets (\<lambda>w. if ok then strip_ascii (w_cursor w) else ''''))"

definition write_cursor :: "env \<Rightarrow> unit prog" where
  "write_cursor e =
     bindp (gets l_seen) (\<lambda>seen.
       case seen of
         [] \<Rightarrow> ret ()
       | f # fs \<Rightarrow> bindp (ask e (en_cursor e)) (\<lambda>ok.
                    if ok then modify (\<lambda>w. w\<lparr>w_cursor := foldl max f fs\<rparr>) else ret ()))"

definition start_locals :: "int \<Rightarrow> pw \<Rightarrow> pw" where
  "start_locals n w =
     w\<lparr>l_open := n, l_opened := 0, l_attempts := 0, l_probes := 0, l_seen := [], l_reserved := [],
       l_sus_ok := True, l_claim := None\<rparr>"

definition ready_batch :: "env \<Rightarrow> string \<Rightarrow> candidate_row list prog" where
  "ready_batch e cur =
     bindp (db_read e (\<lambda>st. list_ready_candidates 100 cur (cands st))) (\<lambda>b.
       if b = [] \<and> cur \<noteq> '''' then db_read e (\<lambda>st. list_ready_candidates 100 '''' (cands st)) else ret b)"

definition propose :: "env \<Rightarrow> pconfig \<Rightarrow> unit prog" where
  "propose e cfg =
     bindp (db_read e (\<lambda>st. int (count_open_proposals (cands st)))) (\<lambda>n.
     thenp (modify (start_locals n))
       (thenp (if pc_dry cfg then ret () else suspect_pass e cfg)
         (bindp (read_cursor e) (\<lambda>cur.
          bindp (ready_batch e cur) (\<lambda>batch.
          thenp (scan_ready e cfg batch) (if pc_dry cfg then ret () else write_cursor e))))))"

text \<open>\<open>enabled\<close>: the flag file exists; \<open>locked\<close>: the machine's lock was taken.\<close>

definition propose_tick :: "env \<Rightarrow> pconfig \<Rightarrow> bool \<Rightarrow> bool \<Rightarrow> unit prog" where
  "propose_tick e cfg enabled locked =
     (if \<not> enabled \<and> \<not> pc_dry cfg \<or> \<not> locked then ret ()
      else
        thenp (if pc_dry cfg then ret ()
               else thenp (db e (\<lambda>now. on_cands (reap_stuck_proposing now (int (pc_reap cfg))))) (ret ()))
          (thenp (reconcile e cfg) (propose e cfg)))"

end
