(* ===== verification/Proposer_Logic.thy ===== *)
theory Proposer_Logic
  imports Proposer Capture_Store_Props
begin

text \<open>
  How the proposer is reasoned about: assertions \<open>hoare J P m Q E\<close> about a computation, where \<open>J\<close> holds of the
  world wherever the process may die; what each verb does to the numbers classes are tracked under; and
  the computations that leave the books alone.
\<close>

section \<open>Assertions about computations\<close>

fun ends :: "(pw \<Rightarrow> bool) \<Rightarrow> ('a \<Rightarrow> pw \<Rightarrow> bool) \<Rightarrow> (pw \<Rightarrow> bool) \<Rightarrow> pw \<times> 'a res \<Rightarrow> bool" where
  "ends J Q E (w, Ok x) \<longleftrightarrow> Q x w"
| "ends J Q E (w, Exn) \<longleftrightarrow> E w"
| "ends J Q E (w, Dead) \<longleftrightarrow> J w"

definition hoare :: "(pw \<Rightarrow> bool) \<Rightarrow> (pw \<Rightarrow> bool) \<Rightarrow> 'a prog \<Rightarrow> ('a \<Rightarrow> pw \<Rightarrow> bool) \<Rightarrow> (pw \<Rightarrow> bool) \<Rightarrow> bool" where
  "hoare J P m Q E \<longleftrightarrow> (\<forall>w. P w \<longrightarrow> ends J Q E (m w))"

lemma hoareI: "(\<And>w. P w \<Longrightarrow> ends J Q E (m w)) \<Longrightarrow> hoare J P m Q E"
  by (simp add: hoare_def)

lemma hoareD: "hoare J P m Q E \<Longrightarrow> P w \<Longrightarrow> ends J Q E (m w)"
  by (simp add: hoare_def)

lemma ends_mono:
  assumes "ends J Q E r" "\<And>w. J w \<Longrightarrow> J' w" "\<And>x w. Q x w \<Longrightarrow> Q' x w" "\<And>w. E w \<Longrightarrow> E' w"
  shows "ends J' Q' E' r"
  using assms by (cases "(J, Q, E, r)" rule: ends.cases) auto

lemma hoare_weaken:
  assumes "hoare J P m Q E" "\<And>w. P' w \<Longrightarrow> P w" "\<And>x w. Q x w \<Longrightarrow> Q' x w" "\<And>w. E w \<Longrightarrow> E' w"
  shows "hoare J P' m Q' E'"
  by (rule hoareI, rule ends_mono [OF hoareD [OF assms(1) assms(2)]]) (simp_all add: assms(3,4))

lemma hoare_pre: "hoare J P m Q E \<Longrightarrow> (\<And>w. P' w \<Longrightarrow> P w) \<Longrightarrow> hoare J P' m Q E"
  by (rule hoare_weaken [where P = P])

lemma hoare_bind:
  assumes "hoare J P m R E" "\<And>x. hoare J (R x) (f x) Q E"
  shows "hoare J P (bindp m f) Q E"
proof (rule hoareI)
  fix w assume "P w"
  from hoareD [OF assms(1) this] show "ends J Q E (bindp m f w)"
    by (cases "(J, R, E, m w)" rule: ends.cases) (auto simp: bindp_def intro: hoareD [OF assms(2)])
qed

lemma hoare_then: "hoare J P m (\<lambda>_. R) E \<Longrightarrow> hoare J R n Q E \<Longrightarrow> hoare J P (thenp m n) Q E"
  unfolding thenp_def by (erule hoare_bind)

lemma hoare_ret: "(\<And>w. P w \<Longrightarrow> Q x w) \<Longrightarrow> hoare J P (ret x) Q E"
  by (simp add: hoare_def ret_def)

lemma hoare_raise: "(\<And>w. P w \<Longrightarrow> E w) \<Longrightarrow> hoare J P raise Q E"
  by (simp add: hoare_def raise_def)

lemma hoare_gets: "(\<And>w. P w \<Longrightarrow> Q (f w) w) \<Longrightarrow> hoare J P (gets f) Q E"
  by (simp add: hoare_def gets_def)

lemma hoare_modify: "(\<And>w. P w \<Longrightarrow> Q () (f w)) \<Longrightarrow> hoare J P (modify f) Q E"
  by (simp add: hoare_def modify_def)

lemma hoare_catch:
  assumes "hoare J P m Q R" "hoare J R h Q E"
  shows "hoare J P (catch m h) Q E"
proof (rule hoareI)
  fix w assume "P w"
  from hoareD [OF assms(1) this] show "ends J Q E (catch m h w)"
    by (cases "(J, Q, R, m w)" rule: ends.cases) (auto simp: catch_def intro: hoareD [OF assms(2)])
qed

lemma hoare_if: "(b \<Longrightarrow> hoare J P m Q E) \<Longrightarrow> (\<not> b \<Longrightarrow> hoare J P n Q E) \<Longrightarrow> hoare J P (if b then m else n) Q E"
  by simp

section \<open>What the books record\<close>

text \<open>The number under which a class is tracked.\<close>

definition prow :: "capture_store \<Rightarrow> string \<Rightarrow> int option" where
  "prow st fp = (case get_row cc_fp fp (cands st) of
     None \<Rightarrow> None | Some c \<Rightarrow> if cc_state c = Proposed then cc_pr c else None)"

definition at_home :: "env \<Rightarrow> candidate_row \<Rightarrow> bool" where
  "at_home e c \<longleftrightarrow> cc_repo c = fst (en_home e (cc_fp c))
     \<and> (\<forall>s. slug (en_lower e) (cc_tag c) = Some s \<longrightarrow> skill_branch s = snd (en_home e (cc_fp c)))"

definition store_ok :: "env \<Rightarrow> capture_store \<Rightarrow> bool" where
  "store_ok e st \<longleftrightarrow> cap_ok st \<and> (\<forall>c \<in> set (cands st). at_home e c)"

text \<open>
  What a tick relies on: a scope always names the same repository; the address gh prints carries the
  number of the pull request it opened; sightings of different classes have different fingerprints.
\<close>

definition env_ok :: "env \<Rightarrow> bool" where
  "env_ok e \<longleftrightarrow>
     (\<forall>k k' scope f p i n. en_repos e k = Reply (Repos f) \<and> f scope = Some (Entry (Some p))
        \<and> en_view e k' p = Reply (Some i) \<and> rv_nwo i = Some n \<longrightarrow> n = en_nwo e scope)
     \<and> (\<forall>k n out m. en_create e k = Created n out \<and> pr_url_number out = Some m \<longrightarrow> m = n)
     \<and> (\<forall>k g s. en_sighting e k = Some g \<and> slug (en_lower e) (sg_tag g) = Some s
          \<longrightarrow> en_home e (fingerprint (en_sha e) (sg_repo g) (sg_tag g)) = (sg_repo g, skill_branch s))"

subsection \<open>The verbs\<close>

lemma prow_upd:
  assumes "\<And>c. cc_fp (f c) = cc_fp c" "\<And>c. P c \<Longrightarrow> cc_state c \<noteq> Proposed \<and> cc_state (f c) \<noteq> Proposed"
  shows "prow (st\<lparr>cands := upd_where P f (cands st)\<rparr>) fp = prow st fp"
  using assms by (auto simp: prow_def get_row_upd_where split: option.split)

lemma get_row_none_upsert:
  "get_row cc_fp fp T = None \<Longrightarrow> get_row cc_fp fp (upsert_candidate now fp g T)
     = Some \<lparr>cc_fp = fp, cc_repo = sg_repo g, cc_tag = sg_tag g, cc_glob = sg_glob g, cc_state = Cap_New,
                 cc_branch = None, cc_draft = None, cc_pr = None, cc_declines = 0, cc_first = now, cc_last = now,
                 cc_proposed_at = None\<rparr>"
  by (simp add: upsert_candidate_def get_row_append) (simp add: get_row_def)

lemma get_row_set_state:
  "get_row cc_fp fp T = Some c \<Longrightarrow> get_row cc_fp fp (set_state fp s T) = Some (c\<lparr>cc_state := s\<rparr>)"
  using get_row_Some [of cc_fp fp T c] by (simp add: set_state_def get_row_upd_where)

lemma record_row:
  assumes "record_capture lower sha th now g st = (st', rep)"
  shows "get_row cc_fp fp (cands st') = get_row cc_fp fp (cands st)
     \<or> fp = fingerprint sha (sg_repo g) (sg_tag g) \<and>
       (\<exists>c. get_row cc_fp fp (cands st') = Some c \<and> cc_fp c = fp
         \<and> (case get_row cc_fp fp (cands st) of
              None \<Rightarrow> cc_repo c = sg_repo g \<and> cc_tag c = sg_tag g \<and> cc_state c \<noteq> Proposed \<and> cc_state c \<noteq> Proposing
            | Some d \<Rightarrow> cc_repo c = cc_repo d \<and> cc_tag c = cc_tag d \<and> cc_pr c = cc_pr d
                \<and> (cc_state c = Proposed \<longleftrightarrow> cc_state d = Proposed) \<and> (cc_state c = Proposing \<longleftrightarrow> cc_state d = Proposing)))"
  using assms(1)
proof (cases rule: record_capture_cases)
  case refused
  then show ?thesis by simp
next
  case (recorded fp' T U c s)
  let ?s = "cc_state c"
  obtain s' where st': "cands st' = T \<and> s' = ?s \<or> cands st' = set_state fp' s' T"
    and s': "s' = ?s \<or> ?s \<in> {Cap_New, Accumulating, Declined, Cap_Stale} \<and> s' \<in> {Ready, Accumulating}"
    using recorded(6,7) by (cases "rep = None"; cases "?s = Cap_New") auto
  have r': "get_row cc_fp fp' (cands st') = Some (c\<lparr>cc_state := s'\<rparr>)"
    using st' recorded(5) get_row_set_state [OF recorded(5), of s'] by auto
  have c: "cc_fp c = fp'" using get_row_Some [OF recorded(5)] by simp
  show ?thesis
  proof (cases "fp = fp'")
    case False
    with st' recorded(3) show ?thesis by (auto simp: get_row_set_state_other get_row_upsert_other)
  next
    case True
    have "case get_row cc_fp fp (cands st) of
        None \<Rightarrow> cc_repo c = sg_repo g \<and> cc_tag c = sg_tag g \<and> ?s = Cap_New
      | Some d \<Rightarrow> cc_repo c = cc_repo d \<and> cc_tag c = cc_tag d \<and> cc_pr c = cc_pr d \<and> ?s = cc_state d"
    proof (cases "get_row cc_fp fp (cands st)")
      case None
      with True recorded(3,5) get_row_none_upsert [OF None, of now g] show ?thesis by auto
    next
      case (Some d)
      with True recorded(3,5) upsert_promoted [OF Some, of now g] show ?thesis by auto
    qed
    with True r' c recorded(2) s' show ?thesis by (auto split: option.splits)
  qed
qed


lemma prow_record: "prow (fst (record_capture lower sha th now g st)) = prow st"
proof
  fix fp
  obtain st' rep where r: "record_capture lower sha th now g st = (st', rep)" by fastforce
  from record_row [OF r, of fp] show "prow (fst (record_capture lower sha th now g st)) fp = prow st fp"
    unfolding r prow_def by (auto split: option.splits)
qed

lemma store_ok_distinct: "store_ok e st \<Longrightarrow> distinct (map cc_fp (cands st))"
  by (simp add: store_ok_def cap_ok_def)

lemma store_ok_home: "store_ok e st \<Longrightarrow> c \<in> set (cands st) \<Longrightarrow> at_home e c"
  by (simp add: store_ok_def)

lemma store_ok_record:
  assumes "store_ok e st"
    and "\<And>s. slug (en_lower e) (sg_tag g) = Some s
           \<Longrightarrow> en_home e (fingerprint (en_sha e) (sg_repo g) (sg_tag g)) = (sg_repo g, skill_branch s)"
  shows "store_ok e (fst (record_capture (en_lower e) (en_sha e) th now g st))"
proof (cases "admissible (en_lower e) g")
  case False
  then show ?thesis using assms(1) by (simp add: record_capture_def)
next
  case True
  obtain st' rep where r: "record_capture (en_lower e) (en_sha e) th now g st = (st', rep)" by fastforce
  have ok': "cap_ok st'" using record_capture_ok [OF r] assms(1) by (simp add: store_ok_def)
  have home: "en_home e (fingerprint (en_sha e) (sg_repo g) (sg_tag g)) = (sg_repo g, skill_branch s)"
    if "slug (en_lower e) (sg_tag g) = Some s" for s using that by (rule assms(2))
  from True obtain s where s: "slug (en_lower e) (sg_tag g) = Some s" by (auto simp: admissible_def)
  have "at_home e c" if c: "c \<in> set (cands st')" for c
  proof -
    have g': "get_row cc_fp (cc_fp c) (cands st') = Some c" using c ok' by (simp add: cap_ok_def get_row_iff)
    show ?thesis
    proof (cases "get_row cc_fp (cc_fp c) (cands st)")
      case None
      with record_row [OF r, of "cc_fp c"] g' home s show ?thesis by (auto simp: at_home_def)
    next
      case (Some d)
      then have "at_home e d" "cc_fp d = cc_fp c" using get_row_Some [OF Some] store_ok_home [OF assms(1)] by auto
      with record_row [OF r, of "cc_fp c"] g' Some show ?thesis by (auto simp: at_home_def)
    qed
  qed
  with ok' show ?thesis by (simp add: r store_ok_def)
qed

definition keeps_row :: "(candidate_row \<Rightarrow> candidate_row) \<Rightarrow> bool" where
  "keeps_row f \<longleftrightarrow> (\<forall>c. cc_fp (f c) = cc_fp c \<and> cc_repo (f c) = cc_repo c \<and> cc_tag (f c) = cc_tag c)"

lemma store_ok_upd:
  assumes "store_ok e st" "keeps_row f" "\<And>c. cand_ok c \<Longrightarrow> P c \<Longrightarrow> cand_ok (f c)"
  shows "store_ok e (st\<lparr>cands := upd_where P f (cands st)\<rparr>)"
proof -
  have "cap_ok (st\<lparr>cands := upd_where P f (cands st)\<rparr>)"
    by (rule cand_upd_ok) (use assms in \<open>simp_all add: store_ok_def keeps_row_def\<close>)
  moreover have "at_home e (if P c then f c else c)" if "c \<in> set (cands st)" for c
    using store_ok_home [OF assms(1) that] assms(2) by (simp add: at_home_def keeps_row_def)
  ultimately show ?thesis by (auto simp: store_ok_def in_upd_where)
qed

lemma cas_upd: "fst (cas P f T) = upd_where P f T"
  by (simp add: cas_def)

lemma claim_store:
  assumes "store_ok e st"
  shows "store_ok e (fst (on_cands (claim_for_proposing now fp br d) st))"
    and "prow (fst (on_cands (claim_for_proposing now fp br d) st)) = prow st"
  unfolding on_cands_def claim_for_proposing_def cas_upd fst_conv
  by (rule store_ok_upd [OF assms], simp add: keeps_row_def, simp add: cand_ok_def, rule ext, rule prow_upd) simp_all

lemma release_store:
  assumes "store_ok e st"
  shows "store_ok e (fst (on_cands (release_proposing fp br d) st))"
    and "prow (fst (on_cands (release_proposing fp br d) st)) = prow st"
  unfolding on_cands_def release_proposing_def cas_upd fst_conv holds_claim_def unclaim_def
  by (rule store_ok_upd [OF assms], simp add: keeps_row_def, simp add: cand_ok_def, rule ext, rule prow_upd) simp_all

lemma reap_store:
  assumes "store_ok e st"
  shows "store_ok e (fst (on_cands (reap_stuck_proposing now k) st))"
    and "prow (fst (on_cands (reap_stuck_proposing now k) st)) = prow st"
  unfolding on_cands_def reap_stuck_proposing_def Let_def fst_conv unclaim_def
  by (rule store_ok_upd [OF assms], simp add: keeps_row_def, simp add: cand_ok_def, rule ext, rule prow_upd) simp_all

lemma mark_store:
  assumes "store_ok e st"
  shows "store_ok e (fst (on_cands (mark_capture_proposed now fp br d n) st))"
    and "snd (on_cands (mark_capture_proposed now fp br d n) st) \<Longrightarrow>
         prow (fst (on_cands (mark_capture_proposed now fp br d n) st)) = (prow st)(fp \<mapsto> n)"
    and "\<not> snd (on_cands (mark_capture_proposed now fp br d n) st) \<Longrightarrow>
         fst (on_cands (mark_capture_proposed now fp br d n) st) = st"
proof -
  show "store_ok e (fst (on_cands (mark_capture_proposed now fp br d n) st))"
    unfolding on_cands_def mark_capture_proposed_def cas_upd fst_conv holds_claim_def
    by (rule store_ok_upd [OF assms]) (simp_all add: keeps_row_def cand_ok_def)
  show "prow (fst (on_cands (mark_capture_proposed now fp br d n) st)) = (prow st)(fp \<mapsto> n)"
    if "snd (on_cands (mark_capture_proposed now fp br d n) st)"
  proof
    fix x
    from that obtain c where c: "c \<in> set (cands st)" "holds_claim fp br d c"
      by (auto simp: on_cands_def mark_capture_proposed_def cas_def list_ex_iff)
    then have g: "get_row cc_fp fp (cands st) = Some c"
      using store_ok_distinct [OF assms] by (simp add: get_row_iff holds_claim_def)
    show "prow (fst (on_cands (mark_capture_proposed now fp br d n) st)) x = ((prow st)(fp \<mapsto> n)) x"
    proof (cases "x = fp")
      case True
      with g c show ?thesis by (simp add: prow_def on_cands_def mark_capture_proposed_def cas_upd get_row_upd_where)
    next
      case False
      then show ?thesis
        by (auto simp: prow_def on_cands_def mark_capture_proposed_def cas_upd get_row_upd_where holds_claim_def
            dest: get_row_Some split: option.splits)
    qed
  qed
  show "fst (on_cands (mark_capture_proposed now fp br d n) st) = st"
    if "\<not> snd (on_cands (mark_capture_proposed now fp br d n) st)"
    using that by (simp add: on_cands_def mark_capture_proposed_def cas_def list_ex_iff upd_where_id)
qed

lemma retire_ok: "s = Declined \<or> s = Cap_Stale \<Longrightarrow> cand_ok (retire s c)"
  by (auto simp: cand_ok_def retire_def)

lemma retire_row: "keeps_row (retire s)" "cc_state (retire s c) = s"
  by (simp_all add: keeps_row_def retire_def)

lemma resolve_store:
  assumes "store_ok e st" "resolve_capture fp out (cands st) = Some (T, b)"
  shows "store_ok e (st\<lparr>cands := T\<rparr>)" and "x \<noteq> fp \<Longrightarrow> prow (st\<lparr>cands := T\<rparr>) x = prow st x"
    and "prow (st\<lparr>cands := T\<rparr>) fp = None"
proof -
  obtain f where T: "T = upd_where (\<lambda>c. cc_fp c = fp \<and> cc_state c = Proposed) f (cands st)"
    and f: "keeps_row f" "\<And>c. cand_ok c \<Longrightarrow> cc_state c = Proposed \<Longrightarrow> cand_ok (f c)" "\<And>c. cc_state (f c) \<noteq> Proposed"
  proof (cases "out = ''promoted''")
    case True
    show thesis
      by (rule that [of "\<lambda>c. c\<lparr>cc_state := Promoted\<rparr>"])
        (use assms(2) True in \<open>auto simp: resolve_capture_def Let_def cas_def keeps_row_def cand_ok_def\<close>)
  next
    case False
    show thesis
      by (rule that [of "retire (if out = ''declined'' then Declined else Cap_Stale)"])
        (use assms(2) False in \<open>auto simp: resolve_capture_def Let_def cas_def retire_ok retire_row split: if_splits\<close>)
  qed
  show "store_ok e (st\<lparr>cands := T\<rparr>)" unfolding T by (rule store_ok_upd) (use assms(1) f in auto)
  have fp: "cc_fp (f c) = cc_fp c" for c using f(1) by (simp add: keeps_row_def)
  show "x \<noteq> fp \<Longrightarrow> prow (st\<lparr>cands := T\<rparr>) x = prow st x"
    unfolding T by (auto simp: prow_def get_row_upd_where fp dest: get_row_Some split: option.splits)
  show "prow (st\<lparr>cands := T\<rparr>) fp = None"
    unfolding T using f(3) by (auto simp: prow_def get_row_upd_where fp dest: get_row_Some split: option.splits)
qed

subsection \<open>Calm computations\<close>

text \<open>
  Most calls leave the books as they are: pull requests may be closed by others, claims come and go, but
  what is tracked, suspected, reported and counted stays.
\<close>

definition calm :: "env \<Rightarrow> pw \<Rightarrow> pw \<Rightarrow> bool" where
  "calm e w w' \<longleftrightarrow> set (w_prs w') \<subseteq> set (w_prs w)
     \<and> (distinct (map bp_fp (w_prs w)) \<longrightarrow> distinct (map bp_fp (w_prs w')))
     \<and> (store_ok e (w_store w) \<longrightarrow> store_ok e (w_store w') \<and> prow (w_store w') = prow (w_store w))
     \<and> w_sus w' = w_sus w \<and> w_log w' = w_log w \<and> w_load w' = w_load w \<and> l_open w' = l_open w
     \<and> l_opened w' = l_opened w \<and> l_attempts w' = l_attempts w \<and> l_reserved w' = l_reserved w
     \<and> l_sus_ok w' = l_sus_ok w"

lemma calm_refl: "calm e w w"
  by (simp add: calm_def)

lemma calm_trans: "calm e w v \<Longrightarrow> calm e v u \<Longrightarrow> calm e w u"
  unfolding calm_def by auto

definition calmly :: "env \<Rightarrow> 'a prog \<Rightarrow> bool" where
  "calmly e m \<longleftrightarrow> (\<forall>w. calm e w (fst (m w)))"

definition stable :: "env \<Rightarrow> (pw \<Rightarrow> bool) \<Rightarrow> bool" where
  "stable e P \<longleftrightarrow> (\<forall>w w'. calm e w w' \<longrightarrow> P w \<longrightarrow> P w')"

named_theorems calms "computations that leave the books alone"
named_theorems stables "assertions that calm computations keep"

lemma hoare_calm:
  assumes "calmly e m" "stable e P" "\<And>w. P w \<Longrightarrow> J w"
  shows "hoare J P m (\<lambda>_. P) P"
proof (rule hoareI)
  fix w assume "P w"
  with assms(1,2) have "P (fst (m w))" by (auto simp: calmly_def stable_def)
  with assms(3) show "ends J (\<lambda>_. P) P (m w)"
    by (cases "(J, \<lambda>_::'a. P, P, m w)" rule: ends.cases) auto
qed

lemma distinct_filter_map: "distinct (map f xs) \<Longrightarrow> distinct (map f (filter P xs))"
  by (induction xs) auto

lemma calm_others:
  assumes "env_ok e"
  shows "calm e w (others e w)"
proof -
  have "store_ok e (w_store (others e w)) \<and> prow (w_store (others e w)) = prow (w_store w)" if "store_ok e (w_store w)"
  proof (cases "en_sighting e (w_clock w)")
    case None
    with that show ?thesis by (simp add: others_def)
  next
    case (Some g)
    with assms have "\<And>s. slug (en_lower e) (sg_tag g) = Some s
        \<Longrightarrow> en_home e (fingerprint (en_sha e) (sg_repo g) (sg_tag g)) = (sg_repo g, skill_branch s)"
      unfolding env_ok_def by blast
    with Some that show ?thesis by (simp add: others_def store_ok_record prow_record)
  qed
  then show ?thesis by (auto simp: calm_def others_def distinct_filter_map)
qed

lemma calm_store:
  assumes "calm e w v" "store_ok e (w_store v) \<Longrightarrow> store_ok e st \<and> prow st = prow (w_store v)"
  shows "calm e w (v\<lparr>w_store := st\<rparr>)"
  using assms unfolding calm_def by auto

lemma calmly_ret [calms]: "calmly e (ret x)" by (simp add: calmly_def ret_def calm_refl)
lemma calmly_raise [calms]: "calmly e raise" by (simp add: calmly_def raise_def calm_refl)
lemma calmly_gets [calms]: "calmly e (gets f)" by (simp add: calmly_def gets_def calm_refl)
lemma calmly_modify: "(\<And>w. calm e w (f w)) \<Longrightarrow> calmly e (modify f)" by (simp add: calmly_def modify_def)

lemma calmly_bind [calms]:
  assumes "calmly e m" "\<And>x. calmly e (f x)"
  shows "calmly e (bindp m f)"
  unfolding calmly_def
proof
  fix w
  obtain w' r where w': "m w = (w', r)" by fastforce
  with assms(1) have "calm e w w'" by (metis calmly_def fst_conv)
  with w' assms(2) show "calm e w (fst (bindp m f w))"
    by (cases r) (auto simp: bindp_def calmly_def intro: calm_trans)
qed

lemma calmly_then [calms]: "calmly e m \<Longrightarrow> calmly e n \<Longrightarrow> calmly e (thenp m n)"
  unfolding thenp_def by (rule calmly_bind)

lemma calmly_catch [calms]:
  assumes "calmly e m" "calmly e h"
  shows "calmly e (catch m h)"
  unfolding calmly_def
proof
  fix w
  obtain w' r where w': "m w = (w', r)" by fastforce
  with assms(1) have "calm e w w'" by (metis calmly_def fst_conv)
  with w' assms(2) show "calm e w (fst (catch m h w))"
    by (cases r) (auto simp: catch_def calmly_def intro: calm_trans)
qed

lemma calmly_if [calms]: "calmly e m \<Longrightarrow> calmly e n \<Longrightarrow> calmly e (if b then m else n)"
  by simp

lemma calmly_reply [calms]: "calmly e (reply r)"
  by (cases r) (simp_all add: reply_def calms, simp add: calmly_def calm_refl)

lemma calmly_ask [calms]: "env_ok e \<Longrightarrow> calmly e (ask e g)"
  unfolding calmly_def ask_def using calm_others calm_trans calmly_reply unfolding calmly_def by blast

lemma calmly_db:
  assumes "env_ok e" "\<And>now st. store_ok e st \<Longrightarrow> store_ok e (fst (f now st)) \<and> prow (fst (f now st)) = prow st"
  shows "calmly e (db e f)"
  unfolding calmly_def
proof
  fix w
  have "calm e w (others e w)" "calm e w (others e w\<lparr>w_store := fst (f (en_now e (w_clock w)) (w_store (others e w)))\<rparr>)"
    using calm_others [OF assms(1)] assms(2) by (simp_all add: calm_store)
  then show "calm e w (fst (db e f w))"
    by (cases "en_db e (w_clock w)") (simp_all add: db_def Let_def)
qed

lemma calmly_db_read [calms]: "env_ok e \<Longrightarrow> calmly e (db_read e f)"
  unfolding db_read_def by (rule calmly_db) simp_all

lemma calmly_claim [calms]: "env_ok e \<Longrightarrow> calmly e (claim e fp br d)"
  unfolding claim_def by (rule calmly_db) (simp_all add: claim_store)

lemma calmly_release [calms]: "env_ok e \<Longrightarrow> calmly e (release e fp br d)"
  unfolding release_def by (rule calmly_db) (simp_all add: release_store)

lemma calmly_reap [calms]: "env_ok e \<Longrightarrow> calmly e (db e (\<lambda>now. on_cands (reap_stuck_proposing now k)))"
  by (rule calmly_db) (simp_all add: reap_store)

end
