(* ===== verification/Proposer_Books.thy ===== *)
theory Proposer_Books
  imports Proposer_Logic
begin

text \<open>
  The books of the proposer: every open pull request of the bot is tracked by the row of its class, or
  named in the suspects file, or was reported to a person. What each call does to them.
\<close>

section \<open>The books\<close>

definition sus_fps :: "pw \<Rightarrow> string set" where
  "sus_fps w = (case w_sus w of Sus_List ss \<Rightarrow> su_fp ` set ss | _ \<Rightarrow> {})"

definition suspects_ok :: "env \<Rightarrow> suspect list \<Rightarrow> bool" where
  "suspects_ok e ss \<longleftrightarrow> distinct (map su_fp ss) \<and> (\<forall>s \<in> set ss. en_home e (su_fp s) = (su_scope s, su_branch s))"

definition pr_home :: "env \<Rightarrow> bot_pr \<Rightarrow> bool" where
  "pr_home e p \<longleftrightarrow> bp_nwo p = en_nwo e (fst (en_home e (bp_fp p))) \<and> bp_branch p = snd (en_home e (bp_fp p))"

definition covered_by :: "string set \<Rightarrow> pw \<Rightarrow> bool" where
  "covered_by X w \<longleftrightarrow> (\<forall>p \<in> set (unreported w). prow (w_store w) (bp_fp p) \<noteq> None \<or> bp_fp p \<in> X)"

definition books :: "env \<Rightarrow> pw \<Rightarrow> bool" where
  "books e w \<longleftrightarrow> store_ok e (w_store w) \<and> distinct (map bp_fp (w_prs w)) \<and> list_all (pr_home e) (w_prs w)
     \<and> (\<forall>p \<in> set (w_prs w). prow (w_store w) (bp_fp p) \<in> {None, Some (bp_num p)})
     \<and> (\<forall>ss. w_sus w = Sus_List ss \<longrightarrow> suspects_ok e ss)
     \<and> (w_sus w = Sus_Damaged \<or> covered_by (sus_fps w) w)"

text \<open>No open pull request of a class, or none but the given number.\<close>

definition none_of :: "string \<Rightarrow> pw \<Rightarrow> bool" where
  "none_of fp w \<longleftrightarrow> (\<forall>p \<in> set (w_prs w). bp_fp p \<noteq> fp)"

definition only :: "string \<Rightarrow> int \<Rightarrow> pw \<Rightarrow> bool" where
  "only fp n w \<longleftrightarrow> (\<forall>p \<in> set (w_prs w). bp_fp p = fp \<longrightarrow> bp_num p = n)"

definition tracked_as :: "string \<Rightarrow> int option \<Rightarrow> pw \<Rightarrow> bool" where
  "tracked_as fp r w \<longleftrightarrow> prow (w_store w) fp = r"

definition owners :: "pw \<Rightarrow> string set" where
  "owners w = bp_fp ` set (unreported w)"

subsection \<open>What calm computations keep\<close>

lemma stable_conj [stables]: "stable e P \<Longrightarrow> stable e Q \<Longrightarrow> stable e (\<lambda>w. P w \<and> Q w)"
  by (auto simp: stable_def)

lemma stable_imp [stables]: "stable e Q \<Longrightarrow> stable e (\<lambda>w. b \<longrightarrow> Q w)"
  by (auto simp: stable_def)

lemma stable_const [stables]: "stable e (\<lambda>w. b)"
  by (auto simp: stable_def)

lemma calm_unreported:
  assumes "calm e w w'"
  shows "set (unreported w') \<subseteq> set (unreported w)"
  using assms by (auto simp: calm_def unreported_def told_def)

lemma calm_sus_fps: "calm e w w' \<Longrightarrow> sus_fps w' = sus_fps w"
  by (simp add: calm_def sus_fps_def)

lemma calm_covered:
  assumes "calm e w w'" "store_ok e (w_store w)" "covered_by X w"
  shows "covered_by X w'"
proof -
  have "prow (w_store w') = prow (w_store w)" using assms(1,2) by (simp add: calm_def)
  with calm_unreported [OF assms(1)] assms(3) show ?thesis unfolding covered_by_def by auto
qed

lemma stable_books [stables]: "stable e (books e)"
  unfolding stable_def
proof (intro allI impI)
  fix w w' assume c: "calm e w w'" and b: "books e w"
  then have st: "store_ok e (w_store w)" by (simp add: books_def)
  have "w_sus w = Sus_Damaged \<or> covered_by (sus_fps w) w'" using b calm_covered [OF c st] by (auto simp: books_def)
  with b c calm_sus_fps [OF c] st show "books e w'"
    unfolding books_def calm_def by (auto simp: list_all_iff)
qed

lemma stable_none_of [stables]: "stable e (none_of fp)"
  by (auto simp: stable_def none_of_def calm_def)

lemma stable_only [stables]: "stable e (only fp n)"
  by (auto simp: stable_def only_def calm_def)

lemma stable_sus_fps [stables]: "stable e (\<lambda>w. fp \<in> sus_fps w)"
  by (auto simp: stable_def calm_sus_fps)

lemma stable_tracked [stables]: "stable e (\<lambda>w. books e w \<and> tracked_as fp r w)"
  unfolding stable_def
proof (intro allI impI)
  fix w w' assume c: "calm e w w'" and b: "books e w \<and> tracked_as fp r w"
  then have "prow (w_store w') = prow (w_store w)" by (simp add: calm_def books_def)
  with b have "tracked_as fp r w'" by (simp add: tracked_as_def)
  with b c stable_books show "books e w' \<and> tracked_as fp r w'" unfolding stable_def by blast
qed

lemma none_only: "none_of fp w \<Longrightarrow> only fp n w"
  by (simp add: none_of_def only_def)

section \<open>Steps of the books\<close>

lemma owners_finite: "finite (owners w)"
  by (simp add: owners_def)

lemma unreported_owners:
  assumes "books e w"
  shows "length (unreported w) = card (owners w)"
proof -
  have "distinct (map bp_fp (unreported w))"
    using assms distinct_filter_map unfolding books_def unreported_def by blast
  then show ?thesis unfolding owners_def by (metis distinct_card length_map list.set_map)
qed

lemma books_mark:
  assumes "books e w" "only fp n w" "store_ok e st" "prow st = (prow (w_store w))(fp \<mapsto> n)"
  shows "books e (w\<lparr>w_store := st\<rparr>)"
  using assms by (auto simp: books_def covered_by_def only_def unreported_def told_def sus_fps_def)

lemma books_opened:
  assumes "books e w" "tracked_as fp None w" "fp \<in> sus_fps w" "none_of fp w"
    and "rp_nwo repo = en_nwo e (fst (en_home e fp))" "br = snd (en_home e fp)"
  shows "books e (opened_pr fp repo br n w)"
  using assms unfolding books_def
  by (auto simp: opened_pr_def covered_by_def unreported_def told_def sus_fps_def tracked_as_def pr_home_def none_of_def)

lemma heads_none_of:
  assumes "books e w" "open_heads nwo br w = []" "nwo = en_nwo e (fst (en_home e fp))" "br = snd (en_home e fp)"
  shows "none_of fp w"
  using assms by (auto simp: books_def list_all_iff pr_home_def none_of_def open_heads_def filter_empty_conv)

lemma books_save:
  assumes "books e w" "suspects_ok e ss" "covered_by (su_fp ` set ss) w"
  shows "books e (w\<lparr>w_sus := Sus_List ss\<rparr>)"
  using assms by (auto simp: books_def covered_by_def unreported_def told_def sus_fps_def)

lemma books_log: "books e w \<Longrightarrow> books e (w\<lparr>w_log := w_log w @ [n]\<rparr>)"
  by (auto simp: books_def covered_by_def unreported_def told_def sus_fps_def)

lemma books_locals:
  "books e (w\<lparr>l_open := a\<rparr>) = books e w" "books e (w\<lparr>l_opened := b\<rparr>) = books e w" "books e (w\<lparr>l_attempts := b\<rparr>) = books e w"
  "books e (w\<lparr>l_reserved := r\<rparr>) = books e w" "books e (w\<lparr>l_sus_ok := s\<rparr>) = books e w" "books e (w\<lparr>w_load := ld\<rparr>) = books e w"
  by (auto simp: books_def covered_by_def unreported_def told_def sus_fps_def)

text \<open>The classes tracked now.\<close>

definition tracked_set :: "pw \<Rightarrow> string set" where
  "tracked_set w = {fp. prow (w_store w) fp \<noteq> None}"

lemma tracked_finite: "finite (tracked_set w)"
proof -
  have "tracked_set w \<subseteq> cc_fp ` set (cands (w_store w))"
    by (auto simp: tracked_set_def prow_def dest: get_row_Some split: option.splits)
  then show ?thesis by (rule finite_subset) simp
qed

section \<open>Rules for the calls\<close>

text \<open>A truthful lookup: what it finds is the class's only open pull request, and none means none.\<close>

lemma hoare_find:
  assumes "env_ok e" "stable e P" "\<And>w. P w \<Longrightarrow> J w" "\<And>w. P w \<Longrightarrow> books e w"
    and "rp_nwo repo = en_nwo e (fst (en_home e fp))" "br = snd (en_home e fp)"
  shows "hoare J P (find_open_bot_pr e repo br)
    (\<lambda>r w. P w \<and> (case r of Found n \<Rightarrow> only fp n w | None_Open \<Rightarrow> none_of fp w | _ \<Rightarrow> True)) P"
  unfolding find_open_bot_pr_def
proof (rule hoare_bind [OF hoare_calm [OF calmly_ask [OF assms(1)] assms(2,3)]])
  fix r
  show "hoare J P (gets (\<lambda>w. judge_rows br (map_option (\<lambda>fs. listed_rows (rp_nwo repo) br fs w) r)))
    (\<lambda>r w. P w \<and> (case r of Found n \<Rightarrow> only fp n w | None_Open \<Rightarrow> none_of fp w | _ \<Rightarrow> True)) P"
  proof (rule hoare_gets)
    fix w assume w: "P w"
    let ?H = "open_heads (rp_nwo repo) br w"
    have H: "p \<in> set ?H" if "p \<in> set (w_prs w)" "bp_fp p = fp" for p
      using that assms(4) [OF w] assms(5,6) by (auto simp: books_def list_all_iff pr_home_def open_heads_def)
    have rows: "filter (\<lambda>r. \<not> pi_cross r \<and> pi_head r = br) (listed_rows (rp_nwo repo) br fs w)
        = map (\<lambda>p. \<lparr>pi_number = bp_num p, pi_cross = False, pi_head = br\<rparr>) ?H" for fs
      by (simp add: listed_rows_def filter_map o_def)
    show "P w \<and> (case judge_rows br (map_option (\<lambda>fs. listed_rows (rp_nwo repo) br fs w) r) of
        Found n \<Rightarrow> only fp n w | None_Open \<Rightarrow> none_of fp w | _ \<Rightarrow> True)"
    proof (cases r)
      case None
      with w show ?thesis by (simp add: judge_rows_def)
    next
      case (Some fs)
      with w H show ?thesis
        by (cases ?H rule: remdups_adj.cases) (auto simp: judge_rows_def rows only_def none_of_def)
    qed
  qed
qed

lemma hoare_claim:
  assumes "env_ok e" "stable e P" "\<And>w. P w \<Longrightarrow> J w" "\<And>w. P w \<Longrightarrow> books e w"
  shows "hoare J P (claim e fp br d) (\<lambda>won w. P w \<and> (won \<longrightarrow> tracked_as fp None w)) P"
proof (rule hoareI)
  fix w assume w: "P w"
  let ?w1 = "others e w" and ?f = "on_cands (claim_for_proposing (en_now e (w_clock w)) fp br d)"
  have P1: "P ?w1" using w assms(2) calm_others [OF assms(1)] by (auto simp: stable_def)
  then have st: "store_ok e (w_store ?w1)" using assms(4) by (simp add: books_def)
  have P2: "P (?w1\<lparr>w_store := fst (?f (w_store ?w1))\<rparr>)"
    using w assms(2) calm_store [OF calm_others [OF assms(1)], of w] claim_store [OF st] unfolding stable_def by blast
  have "prow (w_store ?w1) fp = None" if "snd (?f (w_store ?w1))"
  proof -
    from that obtain c where "c \<in> set (cands (w_store ?w1))" "cc_fp c = fp" "cc_state c = Ready"
      by (auto simp: on_cands_def claim_for_proposing_def cas_def list_ex_iff)
    then have "get_row cc_fp fp (cands (w_store ?w1)) = Some c" using store_ok_distinct [OF st] by (simp add: get_row_iff)
    with \<open>cc_state c = Ready\<close> show ?thesis by (simp add: prow_def)
  qed
  then have "snd (?f (w_store ?w1)) \<longrightarrow> tracked_as fp None (?w1\<lparr>w_store := fst (?f (w_store ?w1))\<rparr>)"
    using claim_store(2) [OF st] by (simp add: tracked_as_def)
  with P1 P2 assms(3) show "ends J (\<lambda>won w. P w \<and> (won \<longrightarrow> tracked_as fp None w)) P (claim e fp br d w)"
    by (cases "en_db e (w_clock w)") (simp_all add: claim_def db_def Let_def)
qed

lemma hoare_mark:
  assumes "env_ok e" "stable e P" "\<And>w. P w \<Longrightarrow> J w" "\<And>w. R w \<Longrightarrow> J w"
    and "\<And>w. P w \<Longrightarrow> books e w"
    and "\<And>w st. P w \<Longrightarrow> store_ok e st \<Longrightarrow> prow st = (prow (w_store w))(fp \<mapsto> n) \<Longrightarrow> R (w\<lparr>w_store := st\<rparr>)"
  shows "hoare J P (mark e fp br d n) (\<lambda>won w. if won then R w else P w) (\<lambda>w. P w \<or> R w)"
proof (rule hoareI)
  fix w assume w: "P w"
  let ?w1 = "others e w" and ?f = "on_cands (mark_capture_proposed (en_now e (w_clock w)) fp br d n)"
  have P1: "P ?w1" using w assms(2) calm_others [OF assms(1)] by (auto simp: stable_def)
  then have st: "store_ok e (w_store ?w1)" using assms(5) by (simp add: books_def)
  have t: "snd (?f (w_store ?w1)) \<Longrightarrow> R (?w1\<lparr>w_store := fst (?f (w_store ?w1))\<rparr>)"
    using assms(6) [OF P1] mark_store(1,2) [OF st] by blast
  have f: "\<not> snd (?f (w_store ?w1)) \<Longrightarrow> ?w1\<lparr>w_store := fst (?f (w_store ?w1))\<rparr> = ?w1"
    using mark_store(3) [OF st] by simp
  show "ends J (\<lambda>won w. if won then R w else P w) (\<lambda>w. P w \<or> R w) (mark e fp br d n w)"
  proof (cases "snd (?f (w_store ?w1))")
    case True
    with P1 t assms(3,4) show ?thesis by (cases "en_db e (w_clock w)") (simp_all add: mark_def db_def Let_def)
  next
    case False
    with P1 f assms(3,4) show ?thesis by (cases "en_db e (w_clock w)") (simp_all add: mark_def db_def Let_def)
  qed
qed

lemma hoare_create:
  assumes "env_ok e" "stable e P" "\<And>w. P w \<Longrightarrow> J w" "\<And>n w. R n w \<Longrightarrow> J w" "\<And>w. P w \<Longrightarrow> books e w"
    and "rp_nwo repo = en_nwo e (fst (en_home e fp))" "br = snd (en_home e fp)"
    and "\<And>w n. P w \<Longrightarrow> none_of fp w \<Longrightarrow> R n (opened_pr fp repo br n w)"
  shows "hoare J P (create_pr_for_branch e fp repo br)
    (\<lambda>oc w. case oc of Opened n \<Rightarrow> R n w | Outcome_Unknown \<Rightarrow> P w \<or> (\<exists>n. R n w) | _ \<Rightarrow> False) E"
proof (rule hoareI)
  fix w assume w: "P w"
  let ?w1 = "others e w" and ?h = "open_heads (rp_nwo repo) br (others e w)"
  have P1: "P ?w1" using w assms(2) calm_others [OF assms(1)] by (auto simp: stable_def)
  have new: "R n (opened_pr fp repo br n ?w1)" if "?h = []" for n
    using assms(8) [OF P1] heads_none_of [OF assms(5) [OF P1] that assms(6,7)] by blast
  have url: "m = n" if "en_create e k = Created n out" "pr_url_number out = Some m" for k n out m
    using assms(1) that unfolding env_ok_def by blast
  show "ends J (\<lambda>oc w. case oc of Opened n \<Rightarrow> R n w | Outcome_Unknown \<Rightarrow> P w \<or> (\<exists>n. R n w) | _ \<Rightarrow> False) E (create_pr_for_branch e fp repo br w)"
  proof (cases "?h = []")
    case False
    with P1 assms(3) show ?thesis by (auto simp: create_pr_for_branch_def Let_def split: create_fate.split)
  next
    case True
    show ?thesis
    proof (cases "en_create e (w_clock w)")
      case (Created n out)
      with True new [OF True, of n] url show ?thesis
        by (cases "pr_url_number out") (auto simp: create_pr_for_branch_def Let_def)
    next
      case (Created_Lost n)
      with True new [OF True, of n] show ?thesis by (auto simp: create_pr_for_branch_def Let_def)
    qed (use True P1 new [OF True] assms(3,4) in \<open>auto simp: create_pr_for_branch_def Let_def\<close>)
  qed
qed

lemma hoare_save:
  assumes "env_ok e" "stable e P" "\<And>w. P w \<Longrightarrow> J w" "\<And>w. R w \<Longrightarrow> J w" "\<And>w. P w \<Longrightarrow> R (w\<lparr>w_sus := Sus_List ss\<rparr>)"
  shows "hoare J P (save_suspects e ss) (\<lambda>ok w. R w \<or> \<not> ok \<and> P w) E"
proof (rule hoareI)
  fix w assume w: "P w"
  have P1: "P (others e w)" using w assms(2) calm_others [OF assms(1)] by (auto simp: stable_def)
  with assms(3-5) show "ends J (\<lambda>ok w. R w \<or> \<not> ok \<and> P w) E (save_suspects e ss w)"
    by (cases "en_save e (w_clock w)") (simp_all add: save_suspects_def Let_def)
qed

lemma hoare_close:
  assumes "env_ok e" "stable e P" "\<And>w. P w \<Longrightarrow> J w"
  shows "hoare J P (gh_close e nwo n)
    (\<lambda>ok w. P w \<and> (ok \<longrightarrow> (\<forall>p \<in> set (w_prs w). \<not> (bp_nwo p = nwo \<and> bp_num p = n)))) P"
proof (rule hoareI)
  fix w assume w: "P w"
  have c: "calm e w (others e w)" by (rule calm_others [OF assms(1)])
  then have "calm e w (drop_pr nwo n (others e w))" by (auto simp: calm_def drop_pr_def distinct_filter_map)
  with w c assms(2) have P: "P (others e w)" "P (drop_pr nwo n (others e w))" by (auto simp: stable_def)
  have "\<forall>p \<in> set (w_prs (drop_pr nwo n (others e w))). \<not> (bp_nwo p = nwo \<and> bp_num p = n)" by (simp add: drop_pr_def)
  with P assms(3) show "ends J (\<lambda>ok w. P w \<and> (ok \<longrightarrow> (\<forall>p \<in> set (w_prs w). \<not> (bp_nwo p = nwo \<and> bp_num p = n)))) P
      (gh_close e nwo n w)"
    by (cases "en_close e (w_clock w)") (simp_all add: gh_close_def Let_def)
qed

lemma hoare_load:
  assumes "env_ok e" "stable e P" "\<And>w. P w \<Longrightarrow> J w"
  shows "hoare J P (load_suspects e)
    (\<lambda>(ss, healthy) w. P w \<and> (healthy \<longrightarrow> w_sus w = Sus_List ss \<or> ss = [] \<and> w_sus w = Sus_Missing)) P"
  unfolding load_suspects_def
  by (rule hoare_bind [OF hoare_calm [OF calmly_ask [OF assms(1)] assms(2,3)]], assumption, rule hoare_gets)
    (auto split: sus_file.splits)

lemma hoare_ask:
  assumes "env_ok e" "stable e P" "\<And>w. P w \<Longrightarrow> J w"
  shows "hoare J P (ask e g) (\<lambda>x w. P w \<and> (\<exists>k. g k = Reply x)) P"
proof (rule hoareI)
  fix w assume "P w"
  with assms(2) calm_others [OF assms(1)] have "P (others e w)" by (auto simp: stable_def)
  with assms(3) show "ends J (\<lambda>x w. P w \<and> (\<exists>k. g k = Reply x)) P (ask e g w)"
    by (cases "g (w_clock w)") (auto simp: ask_def reply_def ret_def raise_def)
qed

lemma hoare_resolve_repo:
  assumes "env_ok e" "stable e P" "\<And>w. P w \<Longrightarrow> J w"
  shows "hoare J P (resolve_repo e scope) (\<lambda>r w. P w \<and> (\<forall>repo. r = Some repo \<longrightarrow> rp_nwo repo = en_nwo e scope)) P"
    (is "hoare _ _ _ ?Q _")
  unfolding resolve_repo_def
proof (rule hoare_bind [OF hoare_ask [where J = J, OF assms]])
  fix raw
  let ?P = "\<lambda>w. P w \<and> (\<exists>k. en_repos e k = Reply raw)"
  have none: "hoare J ?P (ret None) ?Q P" by (rule hoare_ret) simp
  show "hoare J ?P (case raw of
         Repos f \<Rightarrow>
           (case f scope of
              Some (Entry (Some p)) \<Rightarrow>
                if prefix [95] scope \<or> p = [] then ret None
                else bindp (ask e (\<lambda>k. en_view e k p)) (\<lambda>v.
                       case v of
                         None \<Rightarrow> ret None
                       | Some i \<Rightarrow> if rv_is_repo i then ret (view_repo p (Some i)) else ret None)
            | _ \<Rightarrow> ret None)
       | _ \<Rightarrow> ret None) ?Q P"
  proof (cases "\<exists>f p. raw = Repos f \<and> f scope = Some (Entry (Some p)) \<and> \<not> (prefix [95] scope \<or> p = [])")
    case False
    with none show ?thesis by (auto split: repos_file.split option.split repo_entry.split)
  next
    case True
    then obtain f p where f: "raw = Repos f" "f scope = Some (Entry (Some p))" "\<not> (prefix [95] scope \<or> p = [])" by blast
    have "hoare J ?P (bindp (ask e (\<lambda>k. en_view e k p)) (\<lambda>v. case v of None \<Rightarrow> ret None
        | Some i \<Rightarrow> if rv_is_repo i then ret (view_repo p (Some i)) else ret None)) ?Q P"
    proof (rule hoare_bind [where R = "\<lambda>x w. ?P w \<and> (\<exists>k. en_view e k p = Reply x)"])
      show "hoare J ?P (ask e (\<lambda>k. en_view e k p)) (\<lambda>x w. ?P w \<and> (\<exists>k. en_view e k p = Reply x)) P"
        by (rule hoare_weaken [OF hoare_ask [where J = J and P = ?P, OF assms(1)]])
          (use assms in \<open>auto intro: stables\<close>)
    next
      fix v
      have "rp_nwo repo = en_nwo e scope" if "en_repos e k = Reply raw" "en_view e k' p = Reply v" "v = Some i"
        "view_repo p (Some i) = Some repo" for k k' i repo
      proof -
        have n: "rv_nwo i = Some (rp_nwo repo)" using that(4) by (auto simp: view_repo_def split: option.splits if_splits)
        from assms(1) have "\<forall>k k' scope f p i n. en_repos e k = Reply (Repos f) \<and> f scope = Some (Entry (Some p))
          \<and> en_view e k' p = Reply (Some i) \<and> rv_nwo i = Some n \<longrightarrow> n = en_nwo e scope" unfolding env_ok_def by (rule conjunct1)
        then show ?thesis using that(1-3) n f(1,2) by blast
      qed
      then show "hoare J (\<lambda>w. ?P w \<and> (\<exists>k. en_view e k p = Reply v)) (case v of None \<Rightarrow> ret None
        | Some i \<Rightarrow> if rv_is_repo i then ret (view_repo p (Some i)) else ret None) ?Q P"
        by (auto split: option.split intro!: hoare_ret)
    qed
    with f show ?thesis by simp
  qed
qed

end
