(* ===== verification/Proposer_Passes.thy ===== *)
theory Proposer_Passes
  imports Proposer_Books
begin

text \<open>
  The passes of a tick keep the books: reconcile, the resolution of suspects and the scan of ready
  classes, wherever the process may raise or die. With the books goes the count of open proposals: a push
  happens only while fewer than the limit are open.
\<close>

definition load_ok :: "pconfig \<Rightarrow> nat list \<Rightarrow> pw \<Rightarrow> bool" where
  "load_ok cfg L w \<longleftrightarrow> (\<exists>M. w_load w = L @ M \<and> length M \<le> pc_per_tick cfg \<and> (\<forall>x \<in> set M. x < pc_max_open cfg))"

definition safe :: "env \<Rightarrow> pconfig \<Rightarrow> nat list \<Rightarrow> pw \<Rightarrow> bool" where
  "safe e cfg L w \<longleftrightarrow> books e w \<and> load_ok cfg L w"

lemma stable_load [stables]: "stable e (load_ok cfg L)"
  by (auto simp: stable_def load_ok_def calm_def)

lemma safe_books: "safe e cfg L w \<Longrightarrow> books e w"
  by (simp add: safe_def)

section \<open>Reconcile\<close>

definition listed :: "candidate_row list \<Rightarrow> pw \<Rightarrow> bool" where
  "listed cs w \<longleftrightarrow> (\<forall>c \<in> set cs. prow (w_store w) (cc_fp c) \<in> {None, cc_pr c})"

definition recon :: "env \<Rightarrow> pconfig \<Rightarrow> nat list \<Rightarrow> candidate_row list \<Rightarrow> pw \<Rightarrow> bool" where
  "recon e cfg L cs w \<longleftrightarrow> safe e cfg L w \<and> listed cs w"

lemma recon_safe: "recon e cfg L cs w \<Longrightarrow> safe e cfg L w"
  by (simp add: recon_def)

lemma stable_recon [stables]: "stable e (recon e cfg L cs)"
  unfolding stable_def
proof (intro allI impI)
  fix w w' assume c: "calm e w w'" and r: "recon e cfg L cs w"
  then have "prow (w_store w') = prow (w_store w)" by (simp add: calm_def recon_def safe_def books_def)
  with r have "listed cs w'" by (simp add: recon_def listed_def)
  with r c stable_books [of e] stable_load [of e cfg L] show "recon e cfg L cs w'"
    unfolding stable_def recon_def safe_def by blast
qed

lemma recon_resolved:
  assumes "recon e cfg L cs w" "tracked_as fp None w \<or> none_of fp w" "store_ok e st"
    and "\<And>x. x \<noteq> fp \<Longrightarrow> prow st x = prow (w_store w) x" "prow st fp = None"
  shows "recon e cfg L cs (w\<lparr>w_store := st\<rparr>)"
proof -
  have b: "books e w" using assms(1) by (simp add: recon_def safe_def)
  have row: "prow st (bp_fp p) = prow (w_store w) (bp_fp p)" if "p \<in> set (w_prs w)" for p
    using that assms(2,4,5) by (cases "bp_fp p = fp") (auto simp: tracked_as_def none_of_def)
  then have "books e (w\<lparr>w_store := st\<rparr>)" using b assms(3)
    by (auto simp: books_def covered_by_def unreported_def told_def sus_fps_def)
  moreover have "listed cs (w\<lparr>w_store := st\<rparr>)"
    using assms(1,4,5) unfolding recon_def listed_def by simp metis
  ultimately show ?thesis using assms(1) by (simp add: recon_def safe_def load_ok_def)
qed

lemma hoare_resolve:
  assumes "env_ok e"
  shows "hoare (safe e cfg L) (\<lambda>w. recon e cfg L cs w \<and> (tracked_as fp None w \<or> none_of fp w)) (resolve e fp out)
    (\<lambda>_. recon e cfg L cs) (recon e cfg L cs)"
  unfolding resolve_def
proof (rule hoare_bind [where R = "\<lambda>_. recon e cfg L cs"])
  let ?f = "\<lambda>now st. case resolve_capture fp out (cands st) of
     None \<Rightarrow> (st, None) | Some r \<Rightarrow> (st\<lparr>cands := fst r\<rparr>, Some (snd r))"
  show "hoare (safe e cfg L) (\<lambda>w. recon e cfg L cs w \<and> (tracked_as fp None w \<or> none_of fp w)) (db e ?f)
    (\<lambda>_. recon e cfg L cs) (recon e cfg L cs)"
  proof (rule hoareI)
    fix w assume w: "recon e cfg L cs w \<and> (tracked_as fp None w \<or> none_of fp w)"
    let ?w1 = "others e w"
    have c: "calm e w ?w1" by (rule calm_others [OF assms])
    then have r1: "recon e cfg L cs ?w1" using w stable_recon unfolding stable_def by blast
    have "prow (w_store ?w1) = prow (w_store w)" using c w by (simp add: calm_def recon_def safe_def books_def)
    then have n1: "tracked_as fp None ?w1 \<or> none_of fp ?w1"
      using w c stable_none_of [of e fp] unfolding stable_def tracked_as_def by auto
    have st: "store_ok e (w_store ?w1)" using r1 by (simp add: recon_def safe_def books_def)
    have r2: "recon e cfg L cs (?w1\<lparr>w_store := fst (?f now (w_store ?w1))\<rparr>)" for now
    proof (cases "resolve_capture fp out (cands (w_store ?w1))")
      case None
      with r1 show ?thesis by simp
    next
      case (Some r)
      then obtain T b where r: "r = (T, b)" by fastforce
      from recon_resolved [OF r1 n1] resolve_store [OF st Some [unfolded r]] Some r show ?thesis by simp
    qed
    with r1 recon_safe show "ends (safe e cfg L) (\<lambda>_. recon e cfg L cs) (recon e cfg L cs) (db e ?f w)"
      by (cases "en_db e (w_clock w)") (simp_all add: db_def Let_def)
  qed
next
  fix r
  show "hoare (safe e cfg L) (recon e cfg L cs) (case r of None \<Rightarrow> raise | Some b \<Rightarrow> ret b) (\<lambda>_. recon e cfg L cs) (recon e cfg L cs)"
    by (cases r) (simp_all add: hoare_raise hoare_ret)
qed

lemma hoare_settle:
  assumes "env_ok e"
  shows "hoare (safe e cfg0 L) (\<lambda>w. recon e cfg0 L cs w \<and> (tracked_as (cc_fp c) None w \<or> none_of (cc_fp c) w))
    (settle e cfg c out) (\<lambda>_. recon e cfg0 L cs) (recon e cfg0 L cs)"
  unfolding settle_def
  by (rule hoare_if, rule hoare_ret, simp, rule hoare_then [OF hoare_resolve [OF assms]], rule hoare_ret)

text \<open>A listed row is settled only when its pull request is not open.\<close>

lemma closed_settled:
  assumes "recon e cfg L cs w" "c \<in> set cs" "cc_pr c = Some n" "cc_repo c = fst (en_home e (cc_fp c))"
    and "\<forall>p \<in> set (w_prs w). \<not> (bp_nwo p = en_nwo e (cc_repo c) \<and> bp_num p = n)"
  shows "tracked_as (cc_fp c) None w \<or> none_of (cc_fp c) w"
proof (cases "prow (w_store w) (cc_fp c)")
  case None
  then show ?thesis by (simp add: tracked_as_def)
next
  case (Some m)
  with assms(1-3) have m: "prow (w_store w) (cc_fp c) = Some n" by (auto simp: recon_def listed_def)
  have b: "books e w" using assms(1) by (simp add: recon_def safe_def)
  have "none_of (cc_fp c) w"
    unfolding none_of_def
  proof
    fix p assume p: "p \<in> set (w_prs w)"
    show "bp_fp p \<noteq> cc_fp c"
    proof
      assume o: "bp_fp p = cc_fp c"
      with b p m have "bp_num p = n" by (auto simp: books_def)
      moreover have "bp_nwo p = en_nwo e (cc_repo c)" using b p o assms(4) by (auto simp: books_def list_all_iff pr_home_def)
      ultimately show False using p assms(5) by blast
    qed
  qed
  then show ?thesis by simp
qed

lemma hoare_view:
  assumes "env_ok e" "stable e P" "\<And>w. P w \<Longrightarrow> J w"
  shows "hoare J P (view_pr e nwo n) (\<lambda>v w. P w \<and> (\<forall>pr. v = Some pr \<and> (pv_merged_at pr \<or> pv_state pr \<noteq> ''OPEN'') \<longrightarrow>
    (\<forall>p \<in> set (w_prs w). \<not> (bp_nwo p = nwo \<and> bp_num p = n)))) P"
  unfolding view_pr_def
  by (rule hoare_bind [OF hoare_calm [OF calmly_ask [OF assms(1)] assms(2,3)]], assumption, rule hoare_gets)
    (auto simp: list_ex_iff split: if_splits)

lemma hoare_reconcile_row:
  assumes e: "env_ok e" and c: "c \<in> set cs" "at_home e c"
  shows "hoare (safe e cfg0 L) (recon e cfg0 L cs) (reconcile_row e cfg c) (\<lambda>_. recon e cfg0 L cs) (recon e cfg0 L cs)"
    (is "hoare ?J ?P _ ?Q ?P")
  unfolding reconcile_row_def
proof (rule hoare_bind [OF hoare_resolve_repo [OF e stable_recon recon_safe]], assumption)
  have home: "cc_repo c = fst (en_home e (cc_fp c))" using c(2) by (simp add: at_home_def)
  have skip: "hoare ?J (\<lambda>w. ?P w \<and> b w) (ret ()) ?Q ?P" for b by (rule hoare_ret) simp
  fix r
  let ?R = "\<lambda>w. ?P w \<and> (\<forall>repo. r = Some repo \<longrightarrow> rp_nwo repo = en_nwo e (cc_repo c))"
  let ?gone = "\<lambda>n w. \<forall>p \<in> set (w_prs w). \<not> (bp_nwo p = en_nwo e (cc_repo c) \<and> bp_num p = n)"
  have settle: "hoare ?J (\<lambda>w. ?P w \<and> ?gone n w) (settle e cfg c out) ?Q ?P" if "cc_pr c = Some n" for n out
    by (rule hoare_pre [OF hoare_settle [OF e]])
      (use closed_settled [OF _ c(1) that home] in auto)
  show "hoare ?J ?R (case (r, cc_pr c) of
         (Some repo, Some n) \<Rightarrow>
           bindp (view_pr e (rp_nwo repo) n) (\<lambda>v.
             case v of
               None \<Rightarrow> ret ()
             | Some pr \<Rightarrow> bindp (gets (\<lambda>w. en_now e (w_clock w))) (\<lambda>now. reconcile_pr e cfg c (rp_nwo repo) n now pr))
       | _ \<Rightarrow> ret ()) ?Q ?P"
  proof (cases "\<exists>repo n. r = Some repo \<and> cc_pr c = Some n \<and> rp_nwo repo = en_nwo e (cc_repo c)")
    case False
    then show ?thesis by (auto split: option.split simp: hoare_def ret_def)
  next
    case True
    then obtain repo n where rn: "r = Some repo" "cc_pr c = Some n" "rp_nwo repo = en_nwo e (cc_repo c)" by blast
    have close: "hoare ?J ?P (bindp (gh_close e (rp_nwo repo) n) (\<lambda>ok. if ok then settle e cfg c ''stale'' else ret ())) ?Q ?P"
    proof (rule hoare_bind [OF hoare_close [OF e stable_recon recon_safe]], assumption)
      fix ok
      show "hoare ?J (\<lambda>w. ?P w \<and> (ok \<longrightarrow> (\<forall>p \<in> set (w_prs w). \<not> (bp_nwo p = rp_nwo repo \<and> bp_num p = n))))
        (if ok then settle e cfg c ''stale'' else ret ()) ?Q ?P"
        using settle [OF rn(2), of "''stale''"] by (cases ok) (simp_all add: rn(3) hoare_ret)
    qed
    have pr: "hoare ?J (\<lambda>w. ?P w \<and> (pv_merged_at pr \<or> pv_state pr \<noteq> ''OPEN'' \<longrightarrow> ?gone n w))
        (reconcile_pr e cfg c (rp_nwo repo) n now pr) ?Q ?P" for pr now
      unfolding reconcile_pr_def
      by (intro hoare_if hoare_pre [OF settle [OF rn(2)]] hoare_pre [OF close] skip) auto
    have "hoare ?J ?R (bindp (view_pr e (rp_nwo repo) n) (\<lambda>v. case v of None \<Rightarrow> ret ()
        | Some pr \<Rightarrow> bindp (gets (\<lambda>w. en_now e (w_clock w))) (\<lambda>now. reconcile_pr e cfg c (rp_nwo repo) n now pr))) ?Q ?P"
    proof (rule hoare_bind)
      show "hoare ?J ?R (view_pr e (rp_nwo repo) n) (\<lambda>v w. ?P w \<and> (\<forall>pr. v = Some pr \<and> (pv_merged_at pr \<or> pv_state pr \<noteq> ''OPEN'') \<longrightarrow>
         ?gone n w)) ?P"
        by (rule hoare_weaken [OF hoare_view [OF e stable_recon recon_safe]]) (auto simp: rn(3))
    next
      fix v
      show "hoare ?J (\<lambda>w. ?P w \<and> (\<forall>pr. v = Some pr \<and> (pv_merged_at pr \<or> pv_state pr \<noteq> ''OPEN'') \<longrightarrow> ?gone n w))
        (case v of None \<Rightarrow> ret () | Some pr \<Rightarrow>
           bindp (gets (\<lambda>w. en_now e (w_clock w))) (\<lambda>now. reconcile_pr e cfg c (rp_nwo repo) n now pr)) ?Q ?P"
      proof (cases v)
        case None
        then show ?thesis by (simp add: hoare_ret)
      next
        case (Some pr)
        show ?thesis unfolding Some option.case
          by (rule hoare_bind [OF hoare_gets [where Q = "\<lambda>_ w. ?P w \<and> (pv_merged_at pr \<or> pv_state pr \<noteq> ''OPEN'' \<longrightarrow> ?gone n w)"] pr]) auto
      qed
    qed
    then show ?thesis by (simp add: rn(1,2))
  qed
qed

lemma hoare_each:
  assumes "\<And>x. x \<in> set xs \<Longrightarrow> hoare J P (f x) (\<lambda>_. P) P"
  shows "hoare J P (each f xs) (\<lambda>_. P) E"
  using assms
proof (induction xs)
  case Nil
  then show ?case by (simp add: hoare_ret)
next
  case (Cons x xs)
  have "hoare J P (catch (f x) (ret ())) (\<lambda>_. P) E"
    by (rule hoare_catch [OF Cons.prems]) (simp_all add: hoare_ret)
  moreover have "hoare J P (each f xs) (\<lambda>_. P) E" by (rule Cons.IH) (simp add: Cons.prems)
  ultimately show ?case by (simp add: hoare_then)
qed

lemma listed_proposed:
  assumes "store_ok e st" "c \<in> set (list_proposed (cands st))"
  shows "prow st (cc_fp c) = cc_pr c" "c \<in> set (cands st)" "cc_pr c \<noteq> None"
  using assms store_ok_distinct [OF assms(1)] by (auto simp: list_proposed_def prow_def get_row_iff [THEN iffD2])

lemma hoare_reconcile:
  assumes e: "env_ok e"
  shows "hoare (safe e cfg0 L) (safe e cfg0 L) (reconcile e cfg) (\<lambda>_. safe e cfg0 L) (safe e cfg0 L)"
    (is "hoare ?J ?J _ _ _")
  unfolding reconcile_def
proof (rule hoare_bind [where R = "\<lambda>cs w. recon e cfg0 L cs w \<and> (\<forall>c \<in> set cs. at_home e c)"])
  show "hoare ?J ?J (db_read e (\<lambda>st. list_proposed (cands st))) (\<lambda>cs w. recon e cfg0 L cs w \<and> (\<forall>c \<in> set cs. at_home e c)) ?J"
  proof (rule hoareI)
    fix w assume w: "?J w"
    have "?J (others e w)"
      using w calm_others [OF e] stable_books [of e] stable_load [of e cfg0 L] unfolding safe_def stable_def by blast
    moreover from this have st: "store_ok e (w_store (others e w))" by (simp add: safe_def books_def)
    have "listed (list_proposed (cands (w_store (others e w)))) (others e w)"
      "\<forall>c \<in> set (list_proposed (cands (w_store (others e w)))). at_home e c"
      using listed_proposed [OF st] store_ok_home [OF st] by (auto simp: listed_def)
    ultimately show "ends ?J (\<lambda>cs w. recon e cfg0 L cs w \<and> (\<forall>c \<in> set cs. at_home e c)) ?J
        (db_read e (\<lambda>st. list_proposed (cands st)) w)"
      by (cases "en_db e (w_clock w)") (simp_all add: db_read_def db_def Let_def recon_def)
  qed
next
  fix cs
  show "hoare ?J (\<lambda>w. recon e cfg0 L cs w \<and> (\<forall>c \<in> set cs. at_home e c)) (each (reconcile_row e cfg) cs) (\<lambda>_. ?J) ?J"
  proof (cases "\<forall>c \<in> set cs. at_home e c")
    case True
    have "hoare ?J (recon e cfg0 L cs) (each (reconcile_row e cfg) cs) (\<lambda>_. recon e cfg0 L cs) ?J"
      by (rule hoare_each, rule hoare_reconcile_row [OF e]) (use True in auto)
    then show ?thesis by (rule hoare_weaken) (auto simp: recon_def)
  qed (auto simp: hoare_def)
qed

end
