(* ===== verification/Proposer_Scan.thy ===== *)
theory Proposer_Scan
  imports Proposer_Passes
begin

text \<open>
  The scan of ready classes keeps the books and the count: with the reservations it holds and the class
  at work, the open proposals that nobody reported are at most \<^verbatim>\<open>n_open\<close>, so that a push under the limit
  finds fewer than the limit open.
\<close>

section \<open>The assertion of the scan\<close>

definition tally :: "string set \<Rightarrow> pw \<Rightarrow> bool" where
  "tally A w \<longleftrightarrow> int (card (owners w \<union> set (l_reserved w) \<union> A)) \<le> l_open w"

definition loads :: "pconfig \<Rightarrow> nat list \<Rightarrow> pw \<Rightarrow> bool" where
  "loads cfg L w \<longleftrightarrow> l_attempts w \<le> pc_per_tick cfg
     \<and> (\<exists>M. w_load w = L @ M \<and> length M \<le> l_attempts w \<and> (\<forall>x \<in> set M. x < pc_max_open cfg))"

definition scanning :: "env \<Rightarrow> pconfig \<Rightarrow> nat list \<Rightarrow> string set \<Rightarrow> pw \<Rightarrow> bool" where
  "scanning e cfg L A w \<longleftrightarrow> books e w \<and> loads cfg L w
     \<and> (l_sus_ok w \<longrightarrow> set (l_reserved w) \<subseteq> sus_fps w \<and> tally A w)
     \<and> (\<not> l_sus_ok w \<longrightarrow> l_reserved w = [])"

lemma scanning_books: "scanning e cfg L A w \<Longrightarrow> books e w"
  by (simp add: scanning_def)

lemma scanning_safe: "scanning e cfg L A w \<Longrightarrow> safe e cfg L w"
  by (auto simp: scanning_def safe_def loads_def load_ok_def)

lemma tally_mono:
  assumes "tally A w" "owners w' \<subseteq> owners w" "set (l_reserved w') \<subseteq> set (l_reserved w)" "B \<subseteq> A" "finite A"
    "l_open w \<le> l_open w'"
  shows "tally B w'"
proof -
  have "card (owners w' \<union> set (l_reserved w') \<union> B) \<le> card (owners w \<union> set (l_reserved w) \<union> A)"
    by (rule card_mono) (use assms owners_finite in auto)
  with assms(1,6) show ?thesis by (simp add: tally_def)
qed

lemma calm_owners: "calm e w w' \<Longrightarrow> owners w' \<subseteq> owners w"
  using calm_unreported [of e w w'] by (auto simp: owners_def)

lemma stable_scanning [stables]: "finite A \<Longrightarrow> stable e (scanning e cfg L A)"
  unfolding stable_def
proof (intro allI impI)
  fix w w' assume A: "finite A" and c: "calm e w w'" and s: "scanning e cfg L A w"
  have "books e w'" using s c stable_books unfolding stable_def scanning_def by blast
  moreover have "loads cfg L w'" using s c by (simp add: scanning_def loads_def calm_def)
  moreover have "l_sus_ok w \<longrightarrow> tally A w'"
    using s tally_mono [OF _ calm_owners [OF c], of A A] A c by (auto simp: scanning_def calm_def)
  ultimately show "scanning e cfg L A w'" using s c calm_sus_fps [OF c] by (simp add: scanning_def calm_def)
qed

lemma stable_row [stables]:
  assumes "stable e P" "\<And>w. P w \<Longrightarrow> books e w"
  shows "stable e (\<lambda>w. P w \<and> F (prow (w_store w)))"
  unfolding stable_def
proof (intro allI impI)
  fix w w' assume c: "calm e w w'" and p: "P w \<and> F (prow (w_store w))"
  then have "prow (w_store w') = prow (w_store w)" using assms(2) [of w] by (simp add: calm_def books_def)
  with p c assms(1) show "P w' \<and> F (prow (w_store w'))" by (auto simp: stable_def)
qed

lemma stable_reserved [stables]: "stable e (\<lambda>w. F (set (l_reserved w)))"
  by (auto simp: stable_def calm_def)

lemma stable_unspent [stables]: "stable e (\<lambda>w. \<not> create_spent cfg w)"
  by (auto simp: stable_def calm_def create_spent_def)

text \<open>A class at work: not reserved, perhaps with a claim on its row, an intent in the file, no open pull request.\<close>

definition clear_ok :: "string \<Rightarrow> pw \<Rightarrow> bool" where
  "clear_ok fp w \<longleftrightarrow> fp \<notin> set (l_reserved w) \<and> (none_of fp w \<or> prow (w_store w) fp \<noteq> None)"

lemma scanning_mark:
  assumes "scanning e cfg L A w" "only fp n w" "store_ok e st" "prow st = (prow (w_store w))(fp \<mapsto> n)"
  shows "scanning e cfg L A (w\<lparr>w_store := st\<rparr>)"
  using assms books_mark [OF scanning_books [OF assms(1)] assms(2-4)]
  by (auto simp: scanning_def loads_def tally_def owners_def unreported_def told_def sus_fps_def)

lemma unreported_opened:
  "set (unreported (opened_pr fp repo br n w)) \<subseteq> set (unreported w) \<union> {\<lparr>bp_fp = fp, bp_nwo = rp_nwo repo, bp_branch = br, bp_num = n\<rparr>}"
  by (auto simp: unreported_def told_def opened_pr_def)

lemma scanning_opened:
  assumes "scanning e cfg L A w" "tracked_as fp None w" "fp \<in> sus_fps w" "none_of fp w" "finite A"
    and "rp_nwo repo = en_nwo e (fst (en_home e fp))" "br = snd (en_home e fp)" "fp \<in> set (l_reserved w) \<union> A"
  shows "scanning e cfg L A (opened_pr fp repo br n w)"
proof -
  let ?w = "opened_pr fp repo br n w"
  have b: "books e ?w" by (rule books_opened [OF scanning_books [OF assms(1)] assms(2-4,6,7)])
  have "owners ?w \<union> set (l_reserved ?w) \<union> A \<subseteq> owners w \<union> set (l_reserved w) \<union> A"
    using unreported_opened [of fp repo br n w] assms(8) by (auto simp: owners_def opened_pr_def)
  then have "card (owners ?w \<union> set (l_reserved ?w) \<union> A) \<le> card (owners w \<union> set (l_reserved w) \<union> A)"
    by (rule card_mono [rotated]) (use assms(5) owners_finite in auto)
  then have "tally A w \<Longrightarrow> tally A ?w" by (simp add: tally_def opened_pr_def)
  with b assms(1) show ?thesis by (simp add: scanning_def loads_def opened_pr_def sus_fps_def)
qed

lemma scanning_file:
  assumes "scanning e cfg L A w" "suspects_ok e ss" "covered_by (su_fp ` set ss) w"
    "l_sus_ok w \<Longrightarrow> set (l_reserved w) \<subseteq> su_fp ` set ss"
  shows "scanning e cfg L A (w\<lparr>w_sus := Sus_List ss\<rparr>)"
  using assms books_save [OF scanning_books [OF assms(1)] assms(2,3)]
  by (auto simp: scanning_def loads_def tally_def owners_def unreported_def told_def sus_fps_def)

lemma scanning_count_down:
  assumes "scanning e cfg L (insert fp A) w" "none_of fp w" "fp \<notin> set (l_reserved w)" "finite A" "fp \<notin> A"
  shows "scanning e cfg L A (w\<lparr>l_open := l_open w - 1\<rparr>)"
proof -
  let ?X = "owners w \<union> set (l_reserved w) \<union> A"
  have "fp \<notin> ?X" using assms(2,3,5) by (auto simp: owners_def unreported_def none_of_def)
  then have "card (insert fp ?X) = Suc (card ?X)" using assms(4) owners_finite by simp
  moreover have "owners w \<union> set (l_reserved w) \<union> insert fp A = insert fp ?X" by auto
  ultimately have "tally (insert fp A) w \<Longrightarrow> tally A (w\<lparr>l_open := l_open w - 1\<rparr>)"
    by (simp add: tally_def owners_def unreported_def told_def)
  with assms(1) show ?thesis by (auto simp: scanning_def loads_def sus_fps_def books_locals)
qed

lemma scanning_count_up:
  assumes "scanning e cfg L A w" "finite A"
  shows "scanning e cfg L (insert fp A) (w\<lparr>l_open := l_open w + 1\<rparr>)"
proof -
  have "card (owners w \<union> set (l_reserved w) \<union> insert fp A) \<le> Suc (card (owners w \<union> set (l_reserved w) \<union> A))"
    by (simp add: card_insert_if assms(2) owners_finite)
  then have "tally A w \<Longrightarrow> tally (insert fp A) (w\<lparr>l_open := l_open w + 1\<rparr>)"
    by (simp add: tally_def owners_def unreported_def told_def)
  with assms(1) show ?thesis by (auto simp: scanning_def loads_def sus_fps_def books_locals)
qed

lemma scanning_less: "scanning e cfg L A w \<Longrightarrow> finite A \<Longrightarrow> B \<subseteq> A \<Longrightarrow> scanning e cfg L B w"
  using tally_mono [of A w w B] by (auto simp: scanning_def)

section \<open>Suspects in the scan\<close>

lemma covered_without:
  assumes "books e w" "w_sus w = Sus_List ss" "none_of fp w \<or> prow (w_store w) fp \<noteq> None"
  shows "covered_by (su_fp ` set (filter (\<lambda>s. su_fp s \<noteq> fp) ss)) w"
  using assms by (force simp: books_def covered_by_def sus_fps_def none_of_def unreported_def)

lemma suspects_ok_filter: "suspects_ok e ss \<Longrightarrow> suspects_ok e (filter P ss)"
  by (auto simp: suspects_ok_def distinct_filter_map)

lemma hoare_clear:
  assumes e: "env_ok e" and A: "finite A"
    and F: "stable e (\<lambda>w. scanning e cfg L A w \<and> clear_ok fp w \<and> F w)" "\<And>w ss. F w \<Longrightarrow> F (w\<lparr>w_sus := Sus_List ss\<rparr>)"
  shows "hoare (safe e cfg L) (\<lambda>w. scanning e cfg L A w \<and> clear_ok fp w \<and> F w) (clear_suspect e fp)
    (\<lambda>_ w. scanning e cfg L A w \<and> clear_ok fp w \<and> F w) (\<lambda>w. scanning e cfg L A w \<and> clear_ok fp w \<and> F w)"
    (is "hoare ?J ?P _ ?Q _")
  unfolding clear_suspect_def
proof (rule hoare_bind [OF hoare_load [OF e F(1)]])
  show "?P w \<Longrightarrow> ?J w" for w by (auto intro: scanning_safe)
next
  fix x :: "suspect list \<times> bool"
  obtain ss healthy where x: "x = (ss, healthy)" by fastforce
  let ?kept = "filter (\<lambda>s. su_fp s \<noteq> fp) ss"
  let ?R = "\<lambda>w. ?P w \<and> (healthy \<longrightarrow> w_sus w = Sus_List ss \<or> ss = [] \<and> w_sus w = Sus_Missing)"
  have st: "stable e ?R" using F(1) unfolding stable_def calm_def by auto
  have saved: "?P (w\<lparr>w_sus := Sus_List ?kept\<rparr>)" if w: "?R w" and "healthy" "ss \<noteq> []" for w
  proof -
    from w that have f: "w_sus w = Sus_List ss" and sc: "scanning e cfg L A w" and cl: "clear_ok fp w" and "F w" by auto
    have "suspects_ok e ?kept"
      using scanning_books [OF sc] f by (auto simp: books_def intro: suspects_ok_filter)
    moreover have "covered_by (su_fp ` set ?kept) w"
      using covered_without [OF scanning_books [OF sc] f] cl by (auto simp: clear_ok_def)
    moreover have "l_sus_ok w \<Longrightarrow> set (l_reserved w) \<subseteq> su_fp ` set ?kept"
      using sc cl f by (auto simp: scanning_def clear_ok_def sus_fps_def)
    ultimately have "scanning e cfg L A (w\<lparr>w_sus := Sus_List ?kept\<rparr>)" by (rule scanning_file [OF sc])
    with cl F(2) [OF \<open>F w\<close>] show ?thesis by (simp add: clear_ok_def none_of_def)
  qed
  have save: "hoare ?J ?R (thenp (save_suspects e ?kept) (ret ())) ?Q ?P" if "healthy" "ss \<noteq> []"
  proof (rule hoare_then)
    show "hoare ?J ?R (save_suspects e ?kept) (\<lambda>_. ?P) ?P"
      by (rule hoare_weaken [OF hoare_save [where P = ?R and R = ?P, OF e st]])
        (use saved that in \<open>auto intro: scanning_safe\<close>)
  qed (simp add: hoare_ret)
  show "hoare ?J ((\<lambda>(ss, healthy) w. ?P w \<and> (healthy \<longrightarrow> w_sus w = Sus_List ss \<or> ss = [] \<and> w_sus w = Sus_Missing)) x)
    (case x of (ss, healthy) \<Rightarrow> if \<not> healthy then ret () else let kept = filter (\<lambda>s. su_fp s \<noteq> fp) ss in
       if length kept \<noteq> length ss then thenp (save_suspects e kept) (ret ()) else ret ()) ?Q ?P"
    unfolding x prod.case Let_def
  proof (intro hoare_if)
    show "hoare ?J ?R (thenp (save_suspects e ?kept) (ret ())) ?Q ?P" if "\<not> \<not> healthy" "length ?kept \<noteq> length ss"
      using that by (intro save) auto
  qed (auto intro!: hoare_ret)
qed

lemma hoare_add:
  assumes e: "env_ok e" and A: "finite A" and s: "en_home e (su_fp s) = (su_scope s, su_branch s)"
    and F: "stable e (\<lambda>w. scanning e cfg L A w \<and> F w)" "\<And>w ss. F w \<Longrightarrow> F (w\<lparr>w_sus := Sus_List ss\<rparr>)"
  shows "hoare (safe e cfg L) (\<lambda>w. scanning e cfg L A w \<and> F w) (add_suspect e s)
    (\<lambda>ok w. scanning e cfg L A w \<and> F w \<and> (ok \<longrightarrow> su_fp s \<in> sus_fps w)) (\<lambda>w. scanning e cfg L A w \<and> F w)"
    (is "hoare ?J ?P _ ?Q _")
  unfolding add_suspect_def
proof (rule hoare_bind [OF hoare_load [OF e F(1)]])
  show "?P w \<Longrightarrow> ?J w" for w by (auto intro: scanning_safe)
next
  fix x :: "suspect list \<times> bool"
  obtain ss healthy where x: "x = (ss, healthy)" by fastforce
  let ?new = "if list_ex (\<lambda>t. su_fp t = su_fp s) ss then ss else ss @ [s]"
  let ?R = "\<lambda>w. ?P w \<and> (healthy \<longrightarrow> w_sus w = Sus_List ss \<or> ss = [] \<and> w_sus w = Sus_Missing)"
  have st: "stable e ?R" using F(1) unfolding stable_def calm_def by auto
  have saved: "?P (w\<lparr>w_sus := Sus_List ?new\<rparr>) \<and> su_fp s \<in> sus_fps (w\<lparr>w_sus := Sus_List ?new\<rparr>)"
    if w: "?R w" and "healthy" for w
  proof -
    from w that have f: "w_sus w = Sus_List ss \<or> ss = [] \<and> w_sus w = Sus_Missing" and sc: "scanning e cfg L A w" and "F w"
      by auto
    have fps: "sus_fps w = su_fp ` set ss" using f by (auto simp: sus_fps_def)
    have "suspects_ok e ss" using scanning_books [OF sc] f by (auto simp: books_def suspects_ok_def)
    then have ok: "suspects_ok e ?new" using s by (auto simp: suspects_ok_def list_ex_iff)
    have sub: "sus_fps w \<subseteq> su_fp ` set ?new" by (auto simp: fps)
    have "covered_by (sus_fps w) w" using scanning_books [OF sc] f by (auto simp: books_def)
    then have cov: "covered_by (su_fp ` set ?new) w" using sub unfolding covered_by_def by blast
    have "scanning e cfg L A (w\<lparr>w_sus := Sus_List ?new\<rparr>)"
      by (rule scanning_file [OF sc ok cov]) (use sc sub in \<open>unfold scanning_def, blast\<close>)
    moreover have "su_fp s \<in> sus_fps (w\<lparr>w_sus := Sus_List ?new\<rparr>)" by (auto simp: sus_fps_def list_ex_iff) (metis imageI)
    ultimately show ?thesis using F(2) [OF \<open>F w\<close>] by simp
  qed
  have save: "hoare ?J ?R (save_suspects e ?new) ?Q ?P" if "healthy"
    by (rule hoare_weaken [OF hoare_save [where P = ?R and R = "\<lambda>w. ?P w \<and> su_fp s \<in> sus_fps w", OF e st]])
      (use saved that in \<open>auto intro: scanning_safe\<close>)
  show "hoare ?J ((\<lambda>(ss, healthy) w. ?P w \<and> (healthy \<longrightarrow> w_sus w = Sus_List ss \<or> ss = [] \<and> w_sus w = Sus_Missing)) x)
    (case x of (ss, healthy) \<Rightarrow> if \<not> healthy then ret False
       else save_suspects e (if list_ex (\<lambda>t. su_fp t = su_fp s) ss then ss else ss @ [s])) ?Q ?P"
    unfolding x prod.case using save by (intro hoare_if) (auto intro!: hoare_ret)
qed

section \<open>Calm parts of the scan\<close>

lemma calmly_give_back [calms]: "env_ok e \<Longrightarrow> calmly e (give_back e t)"
  unfolding give_back_def by (intro calms)

lemma calmly_cleanup [calms]: "env_ok e \<Longrightarrow> calmly e (cleanup e)"
  unfolding cleanup_def by (intro calms)

lemma calmly_probe [calms]: "calmly e probe"
  unfolding probe_def by (rule calmly_modify) (simp add: calm_def)

lemma calmly_commit [calms]: "env_ok e \<Longrightarrow> calmly e (make_proposal_commit e s)"
  unfolding make_proposal_commit_def by (intro calms)

lemma calmly_branch [calms]: "env_ok e \<Longrightarrow> calmly e (remote_branch_exists e br)"
  unfolding remote_branch_exists_def by (intro calms)

lemma calmly_provenance [calms]: "env_ok e \<Longrightarrow> calmly e (provenance e fp)"
  unfolding provenance_def by (intro calms)

lemma calmly_suspect_draft [calms]: "env_ok e \<Longrightarrow> calmly e (suspect_draft e s)"
  unfolding suspect_draft_def Let_def by (intro calms)

lemma calmly_owed [calms]: "env_ok e \<Longrightarrow> calmly e (owed_release e)"
  unfolding owed_release_def by (auto intro!: calms split: option.split)

lemma hoare_take_claim:
  assumes "env_ok e" "stable e P" "\<And>w. P w \<Longrightarrow> J w" "\<And>w. P w \<Longrightarrow> books e w"
  shows "hoare J P (take_claim e t) (\<lambda>won w. P w \<and> (won \<longrightarrow> tracked_as (tk_fp t) None w)) P"
  unfolding take_claim_def
proof (rule hoare_bind [OF hoare_claim [OF assms]])
  fix won
  have "calm e w (w\<lparr>l_claim := c\<rparr>)" for w c by (simp add: calm_def)
  then have P: "P w \<Longrightarrow> P (w\<lparr>l_claim := c\<rparr>)" for w c using assms(2) by (auto simp: stable_def)
  show "hoare J (\<lambda>w. P w \<and> (won \<longrightarrow> tracked_as (tk_fp t) None w))
     (if won then thenp (modify (\<lambda>w. w\<lparr>l_claim := Some (tk_fp t, tk_branch t, tk_draft t)\<rparr>)) (ret True) else ret False)
     (\<lambda>won w. P w \<and> (won \<longrightarrow> tracked_as (tk_fp t) None w)) P"
  proof (intro hoare_if)
    show "hoare J (\<lambda>w. P w \<and> (won \<longrightarrow> tracked_as (tk_fp t) None w))
       (thenp (modify (\<lambda>w. w\<lparr>l_claim := Some (tk_fp t, tk_branch t, tk_draft t)\<rparr>)) (ret True))
       (\<lambda>won w. P w \<and> (won \<longrightarrow> tracked_as (tk_fp t) None w)) P" if won
      by (rule hoare_then [OF hoare_modify [where Q = "\<lambda>_ w. P w \<and> tracked_as (tk_fp t) None w"]])
        (use P that in \<open>auto simp: tracked_as_def intro: hoare_ret\<close>)
  qed (simp add: hoare_ret)
qed (assumption | rule assms(3,4))+

text \<open>A calm computation whose result does not matter.\<close>

lemma hoare_calm_to:
  assumes "calmly e m" "stable e P" "\<And>w. P w \<Longrightarrow> J w" "\<And>w. P w \<Longrightarrow> Q w"
  shows "hoare J P m (\<lambda>_. Q) Q"
  by (rule hoare_weaken [OF hoare_calm [where P = P and J = J, OF assms(1,2)]]) (simp_all add: assms(3,4))

section \<open>A class at work\<close>

text \<open>The home of a ticket, and of the repository it was resolved to.\<close>

definition ticket_ok :: "env \<Rightarrow> ticket \<Rightarrow> repo_ref \<Rightarrow> bool" where
  "ticket_ok e t repo \<longleftrightarrow> en_home e (tk_fp t) = (tk_scope t, tk_branch t) \<and> rp_nwo repo = en_nwo e (tk_scope t)"

abbreviation free_of :: "ticket \<Rightarrow> pw \<Rightarrow> bool" where
  "free_of t w \<equiv> tk_fp t \<notin> set (l_reserved w)"

lemma stable_clear_ok:
  assumes "stable e P" "\<And>w. P w \<Longrightarrow> books e w"
  shows "stable e (\<lambda>w. P w \<and> clear_ok fp w)"
  unfolding stable_def
proof (intro allI impI)
  fix w w' assume c: "calm e w w'" and p: "P w \<and> clear_ok fp w"
  have "prow (w_store w') = prow (w_store w)" using c p assms(2) [of w] by (simp add: calm_def books_def)
  moreover have "P w'" using c p assms(1) by (auto simp: stable_def)
  ultimately show "P w' \<and> clear_ok fp w'" using c p by (auto simp: clear_ok_def none_of_def calm_def)
qed

lemma hoare_mark_ticket:
  assumes e: "env_ok e" and A: "finite A"
  shows "hoare (safe e cfg L) (\<lambda>w. scanning e cfg L A w \<and> only (tk_fp t) n w \<and> F (set (l_reserved w))) (mark_ticket e t n)
    (\<lambda>won w. scanning e cfg L A w \<and> F (set (l_reserved w)) \<and> (if won then prow (w_store w) (tk_fp t) \<noteq> None else only (tk_fp t) n w))
    (scanning e cfg L A)"
    (is "hoare ?J ?P _ ?Q ?E")
  unfolding mark_ticket_def
proof (rule hoare_weaken [OF hoare_mark [where P = ?P and fp = "tk_fp t" and n = n and J = ?J and
    R = "\<lambda>w. scanning e cfg L A w \<and> F (set (l_reserved w)) \<and> prow (w_store w) (tk_fp t) \<noteq> None", OF e]])
  show "stable e ?P" by (intro stables A)
  show "scanning e cfg L A (w\<lparr>w_store := st\<rparr>) \<and> F (set (l_reserved (w\<lparr>w_store := st\<rparr>))) \<and>
      prow (w_store (w\<lparr>w_store := st\<rparr>)) (tk_fp t) \<noteq> None"
    if "?P w" "store_ok e st" "prow st = (prow (w_store w))(tk_fp t \<mapsto> n)" for w st
    using that scanning_mark [of e cfg L A w "tk_fp t" n st] by simp
qed (auto intro: scanning_safe scanning_books split: if_splits)

end
