(* ===== verification/Proposer_Visit.thy ===== *)
theory Proposer_Visit
  imports Proposer_Scan
begin

text \<open>
  The visit of a ready class, arm by arm: adopting an open pull request, recovering a stranded branch,
  refunding a reservation, and creating under a write-ahead intent.
\<close>

lemma hoare_clear_plain:
  assumes "env_ok e" "finite A"
  shows "hoare (safe e cfg L) (\<lambda>w. scanning e cfg L A w \<and> clear_ok fp w) (clear_suspect e fp)
    (\<lambda>_. scanning e cfg L A) (scanning e cfg L A)"
proof -
  have "stable e (\<lambda>w. scanning e cfg L A w \<and> clear_ok fp w \<and> True)"
    using stable_clear_ok [OF stable_scanning scanning_books] assms(2) by simp
  from hoare_clear [OF assms this] show ?thesis by (rule hoare_weaken) simp_all
qed

lemma hoare_bool:
  "hoare J (R True) m Q E \<Longrightarrow> hoare J (R False) n Q E \<Longrightarrow> hoare J (R b) (if b then m else n) Q E"
  by (cases b) simp_all

lemma hoare_not:
  "hoare J (R False) m Q E \<Longrightarrow> hoare J (R True) n Q E \<Longrightarrow> hoare J (R b) (if \<not> b then m else n) Q E"
  by (cases b) simp_all

lemma scanning_unreserve:
  assumes "scanning e cfg L A w" "finite A"
  shows "scanning e cfg L A (w\<lparr>l_reserved := removeAll fp (l_reserved w)\<rparr>)"
  using assms tally_mono [of A w "w\<lparr>l_reserved := removeAll fp (l_reserved w)\<rparr>" A]
  by (auto simp: scanning_def loads_def books_locals sus_fps_def owners_def unreported_def told_def)

lemma scanning_refund:
  assumes "scanning e cfg L {} w" "fp \<in> set (l_reserved w)" "none_of fp w"
  shows "scanning e cfg L {} (w\<lparr>l_open := l_open w - 1, l_reserved := removeAll fp (l_reserved w)\<rparr>)"
proof -
  let ?v = "w\<lparr>l_reserved := removeAll fp (l_reserved w)\<rparr>"
  have "owners ?v \<union> set (l_reserved ?v) \<union> {fp} = owners w \<union> set (l_reserved w) \<union> {}"
    using assms(2) by (auto simp: owners_def unreported_def told_def)
  then have "tally {} w \<Longrightarrow> tally {fp} ?v" by (simp add: tally_def)
  with scanning_unreserve [OF assms(1), of fp] assms(1) have "scanning e cfg L (insert fp {}) ?v"
    by (auto simp: scanning_def)
  from scanning_count_down [OF this] assms(3)
  have "scanning e cfg L {} (?v\<lparr>l_open := l_open w - 1\<rparr>)" by (simp add: none_of_def)
  moreover have "?v\<lparr>l_open := l_open w - 1\<rparr> = w\<lparr>l_open := l_open w - 1, l_reserved := removeAll fp (l_reserved w)\<rparr>" by simp
  ultimately show ?thesis by simp
qed

lemma scanning_opened_more: "scanning e cfg L A w \<Longrightarrow> scanning e cfg L A (w\<lparr>l_opened := n\<rparr>)"
  by (auto simp: scanning_def loads_def books_locals sus_fps_def tally_def owners_def unreported_def told_def)

section \<open>Adopting and recovering\<close>

lemma hoare_tracked_clear:
  assumes e: "env_ok e"
  shows "hoare (safe e cfg L) (\<lambda>w. scanning e cfg L {} w \<and> prow (w_store w) fp \<noteq> None)
    (thenp (unreserve fp) (clear_suspect e fp)) (\<lambda>_. scanning e cfg L {}) (scanning e cfg L {})"
  unfolding unreserve_def
  by (rule hoare_then [OF hoare_modify hoare_clear_plain [OF e]])
    (auto simp: scanning_unreserve clear_ok_def)

lemma hoare_held_clear:
  assumes e: "env_ok e"
  shows "hoare (safe e cfg L) (\<lambda>w. scanning e cfg L {} w \<and> prow (w_store w) fp \<noteq> None)
    (bindp (gets (\<lambda>w. fp \<in> set (l_reserved w))) (\<lambda>held.
       thenp (if held then unreserve fp else count_up) (clear_suspect e fp))) (\<lambda>_. scanning e cfg L {}) (scanning e cfg L {})"
    (is "hoare ?J ?P _ (\<lambda>_. ?S) _")
proof (rule hoare_bind [OF hoare_gets [where Q = "\<lambda>held w. ?P w \<and> held = (fp \<in> set (l_reserved w))"]])
  fix held
  have "?S (w\<lparr>l_open := l_open w + 1\<rparr>)" if "?S w" for w
    using scanning_less [OF scanning_count_up [OF that]] by simp
  then have "hoare ?J (\<lambda>w. ?P w \<and> False = (fp \<in> set (l_reserved w))) (thenp count_up (clear_suspect e fp)) (\<lambda>_. ?S) ?S"
    unfolding count_up_def by (intro hoare_then [OF hoare_modify hoare_clear_plain [OF e]]) (auto simp: clear_ok_def)
  then show "hoare ?J (\<lambda>w. ?P w \<and> held = (fp \<in> set (l_reserved w)))
     (thenp (if held then unreserve fp else count_up) (clear_suspect e fp)) (\<lambda>_. ?S) ?S"
    using hoare_pre [OF hoare_tracked_clear [OF e], of "\<lambda>w. ?P w \<and> True = (fp \<in> set (l_reserved w))" cfg L fp]
    by (cases held) simp_all
qed simp

lemma hoare_give_back:
  assumes "env_ok e" "finite A"
  shows "hoare (safe e cfg L) (\<lambda>w. scanning e cfg L A w \<and> G w) (give_back e t) (\<lambda>_. scanning e cfg L A) (scanning e cfg L A)"
  by (rule hoare_pre [OF hoare_calm [OF calmly_give_back [OF assms(1)]]]) (auto intro!: stables assms(2) intro: scanning_safe)

lemma hoare_adopt_ready:
  assumes e: "env_ok e"
  shows "hoare (safe e cfg L) (\<lambda>w. scanning e cfg L {} w \<and> only (tk_fp t) n w) (adopt_ready e t n)
    (\<lambda>_. scanning e cfg L {}) (scanning e cfg L {})"
    (is "hoare ?J ?P _ (\<lambda>_. ?S) _")
proof -
  let ?R = "\<lambda>marked w. ?S w \<and> (if marked then prow (w_store w) (tk_fp t) \<noteq> None else only (tk_fp t) n w)"
  have claim: "hoare ?J ?P (take_claim e t) (\<lambda>_. ?P) ?S"
    by (rule hoare_weaken [OF hoare_take_claim [where P = ?P and J = ?J, OF e]])
      (auto intro!: stables intro: scanning_safe scanning_books)
  have marked: "hoare ?J ?P (mark_ticket e t n) ?R ?S"
    by (rule hoare_weaken [OF hoare_mark_ticket [where F = "\<lambda>_. True", OF e]]) (auto split: if_splits)
  have settle: "hoare ?J (?R m) (if m then bindp (gets (\<lambda>w. tk_fp t \<in> set (l_reserved w))) (\<lambda>held.
         thenp (if held then unreserve (tk_fp t) else count_up) (clear_suspect e (tk_fp t))) else give_back e t) (\<lambda>_. ?S) ?S" for m
    using hoare_held_clear [OF e, of cfg L "tk_fp t"] hoare_give_back [OF e, of "{}" cfg L "only (tk_fp t) n"] by (cases m) simp_all
  show ?thesis
    unfolding adopt_ready_def
    by (rule hoare_bind [OF claim], rule hoare_if, rule hoare_ret, simp, rule hoare_bind [OF marked settle])
qed

lemma hoare_mark_outcome:
  assumes e: "env_ok e" and A: "finite A"
  shows "hoare (safe e cfg L) (\<lambda>w. scanning e cfg L A w \<and> (\<forall>n. oc = Opened n \<longrightarrow> only (tk_fp t) n w))
     (case oc of Opened n \<Rightarrow> mark_ticket e t n | _ \<Rightarrow> ret False)
     (\<lambda>m w. scanning e cfg L A w \<and> (m \<longrightarrow> prow (w_store w) (tk_fp t) \<noteq> None)) (scanning e cfg L A)"
proof (cases oc)
  case (Opened n)
  show ?thesis unfolding Opened outcome.case
    by (rule hoare_weaken [OF hoare_mark_ticket [where F = "\<lambda>_. True", OF e A]]) (auto split: if_splits)
qed (simp_all add: hoare_ret)

lemma hoare_recover_ready:
  assumes e: "env_ok e" and t: "ticket_ok e t repo"
  shows "hoare (safe e cfg L) (\<lambda>w. scanning e cfg L {} w \<and> tk_fp t \<in> set (l_reserved w)) (recover_ready e t repo)
    (\<lambda>_. scanning e cfg L {}) (scanning e cfg L {})"
    (is "hoare ?J ?P _ (\<lambda>_. ?S) _")
proof -
  let ?C = "\<lambda>w. (?P w \<and> tk_fp t \<in> sus_fps w) \<and> prow (w_store w) (tk_fp t) = None"
  let ?O = "\<lambda>n w. ?S w \<and> only (tk_fp t) n w"
  have claim: "hoare ?J ?P (take_claim e t) (\<lambda>won w. ?P w \<and> (won \<longrightarrow> tracked_as (tk_fp t) None w)) ?S"
    by (rule hoare_weaken [OF hoare_take_claim [where P = ?P and J = ?J, OF e]])
      (auto intro!: stables intro: scanning_safe scanning_books)
  have C: "?C w" if "?P w" "tracked_as (tk_fp t) None w" for w
    using that by (cases "l_sus_ok w") (auto simp: scanning_def tracked_as_def)
  have stC: "stable e ?C" by (intro stable_row [where F = "\<lambda>r. r (tk_fp t) = None"] stables) (auto intro: scanning_books)
  have home: "rp_nwo repo = en_nwo e (fst (en_home e (tk_fp t)))" "tk_branch t = snd (en_home e (tk_fp t))"
    using t by (simp_all add: ticket_ok_def)
  have opened: "?O n (opened_pr (tk_fp t) repo (tk_branch t) n w)" if "?C w" "none_of (tk_fp t) w" for n w
    using that scanning_opened [OF _ _ _ that(2) _ home, of cfg L "{}"]
    by (auto simp: tracked_as_def only_def none_of_def opened_pr_def)
  have create: "hoare ?J ?C (create_pr_for_branch e (tk_fp t) repo (tk_branch t))
      (\<lambda>oc w. ?S w \<and> (\<forall>n. oc = Opened n \<longrightarrow> only (tk_fp t) n w)) ?S"
    by (rule hoare_weaken [OF hoare_create [where P = ?C and R = ?O and J = ?J, OF e stC _ _ _ home opened]])
      (auto intro: scanning_safe scanning_books split: outcome.splits)
  have settle: "hoare ?J (\<lambda>w. ?S w \<and> (m \<longrightarrow> prow (w_store w) (tk_fp t) \<noteq> None))
      (if m then thenp (unreserve (tk_fp t)) (clear_suspect e (tk_fp t)) else give_back e t) (\<lambda>_. ?S) ?S" for m
    using hoare_tracked_clear [OF e, of cfg L "tk_fp t"] hoare_give_back [OF e, of "{}" cfg L "\<lambda>_. True"] by (cases m) simp_all
  have won: "hoare ?J ?C (bindp (create_pr_for_branch e (tk_fp t) repo (tk_branch t)) (\<lambda>oc.
         bindp (case oc of Opened n \<Rightarrow> mark_ticket e t n | _ \<Rightarrow> ret False) (\<lambda>marked.
           if marked then thenp (unreserve (tk_fp t)) (clear_suspect e (tk_fp t)) else give_back e t))) (\<lambda>_. ?S) ?S"
    by (rule hoare_bind [OF create], rule hoare_bind [OF hoare_mark_outcome [OF e] settle]) simp
  show ?thesis
    unfolding recover_ready_def
    by (rule hoare_bind [OF claim], rule hoare_if, rule hoare_ret, simp, rule hoare_pre [OF won]) (use C in auto)
qed

section \<open>Creating\<close>

definition outcome_ok :: "string \<Rightarrow> outcome \<Rightarrow> pw \<Rightarrow> bool" where
  "outcome_ok fp oc w \<longleftrightarrow> (case oc of
     Opened n \<Rightarrow> fp \<notin> set (l_reserved w) \<and> only fp n w
   | Outcome_Unknown \<Rightarrow> True
   | _ \<Rightarrow> fp \<notin> set (l_reserved w) \<and> none_of fp w)"

lemma stable_outcome [stables]: "stable e (outcome_ok fp oc)"
  unfolding stable_def outcome_ok_def by (cases oc) (auto simp: calm_def only_def none_of_def)

lemma clear_then_down:
  assumes e: "env_ok e"
  shows "hoare (safe e cfg L) (\<lambda>w. scanning e cfg L {fp} w \<and> fp \<notin> set (l_reserved w) \<and> none_of fp w)
    (thenp (clear_suspect e fp) count_down) (\<lambda>_. scanning e cfg L {}) (scanning e cfg L {})"
    (is "hoare ?J _ _ (\<lambda>_. ?S) _")
proof -
  let ?P = "\<lambda>w. scanning e cfg L {fp} w \<and> clear_ok fp w \<and> none_of fp w"
  have "stable e (\<lambda>w. (scanning e cfg L {fp} w \<and> clear_ok fp w) \<and> none_of fp w)"
    by (intro stable_conj [OF stable_clear_ok] stables) (auto intro: scanning_books)
  then have st: "stable e ?P" by (simp add: conj_assoc)
  have clear: "hoare ?J ?P (clear_suspect e fp) (\<lambda>_. ?P) ?S"
    by (rule hoare_weaken [OF hoare_clear [OF e _ st]]) (auto simp: none_of_def intro: scanning_less)
  have "hoare ?J ?P (thenp (clear_suspect e fp) count_down) (\<lambda>_. ?S) ?S"
    unfolding count_down_def
    by (rule hoare_then [OF clear], rule hoare_modify) (auto simp: clear_ok_def intro: scanning_count_down)
  then show ?thesis by (rule hoare_pre) (simp add: clear_ok_def)
qed

lemma thenp_assoc: "thenp (thenp a b) c = thenp a (thenp b c)"
  by (rule ext) (auto simp: thenp_def bindp_def split: prod.split res.split)

lemma hoare_account:
  assumes e: "env_ok e" and t: "ticket_ok e t repo"
  shows "hoare (safe e cfg L) (\<lambda>w. scanning e cfg L {tk_fp t} w \<and> outcome_ok (tk_fp t) oc w) (account e t repo oc)
    (\<lambda>_. scanning e cfg L {}) (scanning e cfg L {})"
    (is "hoare ?J ?P _ (\<lambda>_. ?S) _")
proof -
  let ?A = "scanning e cfg L {tk_fp t}"
  have less: "?A w \<Longrightarrow> ?S w" for w by (auto intro: scanning_less)
  have gb: "hoare ?J ?S (give_back e t) (\<lambda>_. ?S) ?S" using hoare_give_back [OF e, of "{}" cfg L "\<lambda>_. True"] by simp
  have down: "hoare ?J (\<lambda>w. ?A w \<and> free_of t w \<and> none_of (tk_fp t) w) count_down (\<lambda>_. ?S) ?S"
    unfolding count_down_def by (rule hoare_modify) (auto intro: scanning_count_down)
  show ?thesis
  proof (cases oc)
    case Outcome_Unknown
    show ?thesis unfolding Outcome_Unknown account_def outcome.case
      by (rule hoare_pre [OF hoare_catch [OF gb hoare_ret]]) (use less in auto)
  next
    case No_PR
    show ?thesis unfolding No_PR account_def outcome.case
      by (rule hoare_pre [OF hoare_then [OF down gb]]) (simp add: outcome_ok_def)
  next
    case No_PR_Foreign
    show ?thesis unfolding No_PR_Foreign account_def outcome.case thenp_assoc [symmetric]
      by (rule hoare_pre [OF hoare_then [OF clear_then_down [OF e] gb]]) (simp add: outcome_ok_def)
  next
    case (Opened n)
    let ?R = "\<lambda>m w. ?A w \<and> free_of t w \<and> (if m then prow (w_store w) (tk_fp t) \<noteq> None else only (tk_fp t) n w)"
    let ?F = "\<lambda>w. ?A w \<and> free_of t w \<and> only (tk_fp t) n w"
    have marked: "hoare ?J ?F (mark_ticket e t n) ?R ?S"
      by (rule hoare_weaken [OF hoare_mark_ticket [where F = "\<lambda>r. tk_fp t \<notin> r", OF e, of "{tk_fp t}"]])
        (auto split: if_splits intro: less)
    have yes: "hoare ?J (?R True) (thenp (clear_suspect e (tk_fp t)) (modify (\<lambda>w. w\<lparr>l_opened := l_opened w + 1\<rparr>))) (\<lambda>_. ?S) ?S"
    proof (rule hoare_then)
      show "hoare ?J (?R True) (clear_suspect e (tk_fp t)) (\<lambda>_. ?S) ?S"
        by (rule hoare_weaken [OF hoare_clear_plain [OF e, of "{tk_fp t}"]]) (auto simp: clear_ok_def intro: less)
    qed (auto intro!: hoare_modify scanning_opened_more)
    have stF: "stable e ?F" by (intro stable_conj stable_scanning stable_reserved [where F = "\<lambda>r. tk_fp t \<notin> r"] stable_only) simp
    have close: "hoare ?J (?R False) (gh_close e (rp_nwo repo) n) (\<lambda>ok w. ?F w \<and> (ok \<longrightarrow> none_of (tk_fp t) w)) ?S"
    proof (rule hoare_weaken [OF hoare_close [where P = ?F and J = ?J, OF e stF]])
      fix ok w
      assume w: "?F w \<and> (ok \<longrightarrow> (\<forall>p \<in> set (w_prs w). \<not> (bp_nwo p = rp_nwo repo \<and> bp_num p = n)))"
      have "none_of (tk_fp t) w" if ok
        unfolding none_of_def
      proof (intro ballI notI)
        fix p assume p: "p \<in> set (w_prs w)" "bp_fp p = tk_fp t"
        with w have "bp_num p = n" by (simp add: only_def)
        moreover have "bp_nwo p = rp_nwo repo"
          using p w t scanning_books [of e cfg L "{tk_fp t}" w]
          by (auto simp: books_def list_all_iff pr_home_def ticket_ok_def)
        ultimately show False using w that p by blast
      qed
      with w show "?F w \<and> (ok \<longrightarrow> none_of (tk_fp t) w)" by blast
    qed (auto intro: less scanning_safe)
    have fin: "hoare ?J (\<lambda>w. ?F w \<and> (ok \<longrightarrow> none_of (tk_fp t) w))
        (if ok then thenp (clear_suspect e (tk_fp t)) count_down else ret ()) (\<lambda>_. ?S) ?S" for ok
      by (rule hoare_if, rule hoare_pre [OF clear_then_down [OF e]], simp, rule hoare_ret) (auto intro: less)
    have no: "hoare ?J (?R False) (bindp (gh_close e (rp_nwo repo) n) (\<lambda>closed.
                if closed then thenp (clear_suspect e (tk_fp t)) count_down else ret ())) (\<lambda>_. ?S) ?S"
      by (rule hoare_bind [OF close fin])
    show ?thesis unfolding Opened account_def outcome.case
      by (rule hoare_pre [OF hoare_bind [OF marked hoare_bool [where R = ?R, OF yes no]]]) (simp add: outcome_ok_def)
  qed
qed

text \<open>Under the write-ahead intent: a suspect is on file, the slot is counted, and the limit leaves room.\<close>

definition intent :: "env \<Rightarrow> pconfig \<Rightarrow> nat list \<Rightarrow> string \<Rightarrow> pw \<Rightarrow> bool" where
  "intent e cfg L fp w \<longleftrightarrow> (scanning e cfg L {fp} w \<and> fp \<notin> set (l_reserved w) \<and> none_of fp w \<and> fp \<in> sus_fps w)
     \<and> prow (w_store w) fp = None"

lemma stable_intent [stables]: "stable e (intent e cfg L fp)"
  unfolding intent_def
  by (intro stable_row [where F = "\<lambda>r. r fp = None"] stables stable_reserved [where F = "\<lambda>r. fp \<notin> r"]) (auto intro: scanning_books)

lemma intent_scanning: "intent e cfg L fp w \<Longrightarrow> scanning e cfg L {fp} w"
  by (simp add: intent_def)

lemma hoare_push_open:
  assumes e: "env_ok e" and t: "ticket_ok e t repo"
  shows "hoare (safe e cfg L) (intent e cfg L (tk_fp t))
     (bindp (catch (bindp (ask e (en_push e)) (\<lambda>ob. ret (push_verdict (tk_branch t) ob))) (ret Push_Unknown)) (\<lambda>v.
          case v of
            Go_Create \<Rightarrow> create_pr_for_branch e (tk_fp t) repo (tk_branch t)
          | Push_None \<Rightarrow> ret No_PR
          | Push_Foreign \<Rightarrow> ret No_PR_Foreign
          | Push_Unknown \<Rightarrow> ret Outcome_Unknown))
     (\<lambda>oc w. scanning e cfg L {tk_fp t} w \<and> outcome_ok (tk_fp t) oc w) (scanning e cfg L {})"
    (is "hoare ?J ?I _ ?Q ?S")
proof -
  have safe: "?I w \<Longrightarrow> ?J w" for w by (auto simp: intent_def intro: scanning_safe)
  have push: "hoare ?J ?I (catch (bindp (ask e (en_push e)) (\<lambda>ob. ret (push_verdict (tk_branch t) ob))) (ret Push_Unknown)) (\<lambda>_. ?I) ?S"
    by (rule hoare_weaken [OF hoare_calm [where P = ?I and J = ?J and e = e]])
      (use e safe in \<open>auto intro!: calms stables simp: intent_def intro: scanning_less\<close>)
  have home: "rp_nwo repo = en_nwo e (fst (en_home e (tk_fp t)))" "tk_branch t = snd (en_home e (tk_fp t))"
    using t by (simp_all add: ticket_ok_def)
  let ?O = "\<lambda>n w. scanning e cfg L {tk_fp t} w \<and> free_of t w \<and> only (tk_fp t) n w"
  have opened: "?O n (opened_pr (tk_fp t) repo (tk_branch t) n w)" if "?I w" "none_of (tk_fp t) w" for n w
    using that scanning_opened [OF _ _ _ that(2) _ home, of cfg L "{tk_fp t}"]
    by (auto simp: intent_def tracked_as_def only_def none_of_def opened_pr_def)
  have create: "hoare ?J ?I (create_pr_for_branch e (tk_fp t) repo (tk_branch t)) ?Q ?S"
    by (rule hoare_weaken [OF hoare_create [where P = ?I and R = ?O and J = ?J, OF e stable_intent safe _ _ home opened]])
      (auto simp: outcome_ok_def intent_def intro: scanning_safe scanning_books split: outcome.splits)
  show ?thesis
  proof (rule hoare_bind [OF push])
    show "hoare ?J ?I (case v of Go_Create \<Rightarrow> create_pr_for_branch e (tk_fp t) repo (tk_branch t)
        | Push_None \<Rightarrow> ret No_PR | Push_Foreign \<Rightarrow> ret No_PR_Foreign | Push_Unknown \<Rightarrow> ret Outcome_Unknown) ?Q ?S" for v
      using create by (cases v) (auto intro!: hoare_ret simp: outcome_ok_def intent_def)
  qed
qed

text \<open>The push finds fewer unreported pull requests open than the limit.\<close>

lemma push_below_limit:
  assumes "scanning e cfg L {} w" "\<not> create_spent cfg w"
  shows "length (unreported w) < pc_max_open cfg"
proof -
  from assms have t: "tally {} w" and o: "l_open w < int (pc_max_open cfg)" by (auto simp: scanning_def create_spent_def)
  have "card (owners w) \<le> card (owners w \<union> set (l_reserved w) \<union> {})" by (rule card_mono) (auto simp: owners_finite)
  with t o unreported_owners [OF scanning_books [OF assms(1)]] show ?thesis by (simp add: tally_def)
qed

lemma intent_starts:
  assumes "scanning e cfg L {} w" "\<not> create_spent cfg w" "fp \<notin> set (l_reserved w)" "none_of fp w" "fp \<in> sus_fps w"
    "tracked_as fp None w" "w' = w\<lparr>l_open := l_open w + 1, l_attempts := l_attempts w + 1\<rparr>"
  shows "intent e cfg L fp (w'\<lparr>w_load := w_load w' @ [length (unreported w')]\<rparr>)"
proof -
  let ?v = "w\<lparr>l_open := l_open w + 1\<rparr>" and ?u = "w'\<lparr>w_load := w_load w' @ [length (unreported w')]\<rparr>"
  have un: "unreported w' = unreported w" by (simp add: unreported_def told_def assms(7))
  have sc: "scanning e cfg L {fp} ?v" using scanning_count_up [OF assms(1), of fp] by simp
  from assms(1) obtain M where M: "w_load w = L @ M" "length M \<le> l_attempts w" "\<forall>x \<in> set M. x < pc_max_open cfg"
    by (auto simp: scanning_def loads_def)
  have "loads cfg L ?u"
    unfolding loads_def
    by (intro conjI exI [of _ "M @ [length (unreported w)]"])
      (use M push_below_limit [OF assms(1,2)] assms(2) un in \<open>auto simp: assms(7) create_spent_def\<close>)
  moreover have "books e ?u" using scanning_books [OF assms(1)] by (simp add: assms(7) books_locals)
  ultimately have "scanning e cfg L {fp} ?u"
    using sc by (auto simp: scanning_def assms(7) tally_def owners_def unreported_def told_def sus_fps_def)
  with assms(3-6) show ?thesis by (simp add: intent_def assms(7) none_of_def sus_fps_def tracked_as_def)
qed

definition about_to :: "env \<Rightarrow> pconfig \<Rightarrow> nat list \<Rightarrow> string \<Rightarrow> pw \<Rightarrow> bool" where
  "about_to e cfg L fp w \<longleftrightarrow> scanning e cfg L {} w \<and> \<not> create_spent cfg w \<and> fp \<notin> set (l_reserved w) \<and> none_of fp w"

lemma stable_about [stables]: "stable e (about_to e cfg L fp)"
  unfolding about_to_def by (intro stables stable_reserved [where F = "\<lambda>r. fp \<notin> r"]) simp

lemma hoare_intend:
  assumes e: "env_ok e" and t: "ticket_ok e t repo"
  shows "hoare (safe e cfg L) (\<lambda>w. about_to e cfg L (tk_fp t) w \<and> tracked_as (tk_fp t) None w) (intend e t repo)
    (\<lambda>_. scanning e cfg L {}) (scanning e cfg L {})"
    (is "hoare ?J ?P _ (\<lambda>_. ?S) _")
proof -
  let ?s = "\<lparr>su_fp = tk_fp t, su_scope = tk_scope t, su_branch = tk_branch t\<rparr>"
  let ?F = "\<lambda>w. \<not> create_spent cfg w \<and> free_of t w \<and> none_of (tk_fp t) w \<and> tracked_as (tk_fp t) None w"
  have P: "?P = (\<lambda>w. ?S w \<and> ?F w)" by (auto simp: about_to_def)
  have "stable e (\<lambda>w. about_to e cfg L (tk_fp t) w \<and> prow (w_store w) (tk_fp t) = None)"
    by (rule stable_row [where F = "\<lambda>r. r (tk_fp t) = None", OF stable_about]) (auto simp: about_to_def scanning_books)
  then have st: "stable e (\<lambda>w. ?S w \<and> ?F w)" unfolding P [symmetric] by (simp add: tracked_as_def)
  have add: "hoare ?J ?P (add_suspect e ?s) (\<lambda>ok w. ?S w \<and> ?F w \<and> (ok \<longrightarrow> tk_fp t \<in> sus_fps w)) ?S"
    unfolding P
  proof (rule hoare_weaken [OF hoare_add [where F = ?F and A = "{}" and s = ?s, OF e _ _ st]])
    show "en_home e (su_fp ?s) = (su_scope ?s, su_branch ?s)" using t by (simp add: ticket_ok_def)
    show "?F w \<Longrightarrow> ?F (w\<lparr>w_sus := Sus_List ss\<rparr>)" for w ss by (simp add: create_spent_def none_of_def tracked_as_def)
  qed auto
  have gb: "hoare ?J ?S (give_back e t) (\<lambda>_. ?S) ?S" using hoare_give_back [OF e, of "{}" cfg L "\<lambda>_. True"] by simp
  have cleanup: "hoare ?J ?S (cleanup e) (\<lambda>_. ?S) ?S"
    by (rule hoare_calm [OF calmly_cleanup [OF e]]) (auto intro: stables scanning_safe)
  have no: "hoare ?J (\<lambda>w. ?S w \<and> ?F w \<and> b w) (thenp (cleanup e) (give_back e t)) (\<lambda>_. ?S) ?S" for b
    by (rule hoare_pre [OF hoare_then [OF cleanup gb]]) simp
  have swept: "hoare ?J (\<lambda>w. scanning e cfg L {tk_fp t} w \<and> outcome_ok (tk_fp t) oc w) (cleanup e)
      (\<lambda>_ w. scanning e cfg L {tk_fp t} w \<and> outcome_ok (tk_fp t) oc w) ?S" for oc
    by (rule hoare_weaken [OF hoare_calm [where J = ?J and P = "\<lambda>w. scanning e cfg L {tk_fp t} w \<and> outcome_ok (tk_fp t) oc w", OF calmly_cleanup [OF e]]])
      (auto intro!: stables intro: scanning_safe scanning_less)
  let ?I = "\<lambda>w. intent e cfg L (tk_fp t) (w\<lparr>w_load := w_load w @ [length (unreported w)]\<rparr>)"
  have start: "hoare ?J (\<lambda>w. ?S w \<and> ?F w \<and> (True \<longrightarrow> tk_fp t \<in> sus_fps w)) (thenp count_up
      (thenp (modify (\<lambda>w. w\<lparr>l_attempts := l_attempts w + 1\<rparr>)) log_load)) (\<lambda>_. intent e cfg L (tk_fp t)) ?S"
    unfolding count_up_def log_load_def
    by (rule hoare_then [OF hoare_modify [where Q = "\<lambda>_ w. ?I (w\<lparr>l_attempts := l_attempts w + 1\<rparr>)"]],
        rule intent_starts, auto, rule hoare_then [OF hoare_modify [where Q = "\<lambda>_. ?I"]], simp, rule hoare_modify, simp)
  have push: "hoare ?J (intent e cfg L (tk_fp t)) (bindp (bindp (catch (bindp (ask e (en_push e)) (\<lambda>ob. ret (push_verdict (tk_branch t) ob))) (ret Push_Unknown)) (\<lambda>v.
          case v of
            Go_Create \<Rightarrow> create_pr_for_branch e (tk_fp t) repo (tk_branch t)
          | Push_None \<Rightarrow> ret No_PR
          | Push_Foreign \<Rightarrow> ret No_PR_Foreign
          | Push_Unknown \<Rightarrow> ret Outcome_Unknown)) (\<lambda>oc. thenp (cleanup e) (account e t repo oc))) (\<lambda>_. ?S) ?S"
    by (rule hoare_bind [OF hoare_push_open [OF e t] hoare_then [OF swept hoare_account [OF e t]]])
  have bind_then: "bindp (thenp a b) f = thenp a (bindp b f)" for a :: "unit prog" and b :: "outcome prog" and f :: "outcome \<Rightarrow> unit prog"
    by (rule ext) (auto simp: thenp_def bindp_def split: prod.split res.split)
  have yes: "hoare ?J (\<lambda>w. ?S w \<and> ?F w \<and> (True \<longrightarrow> tk_fp t \<in> sus_fps w)) (thenp count_up
           (thenp (modify (\<lambda>w. w\<lparr>l_attempts := l_attempts w + 1\<rparr>))
             (bindp (push_and_open_pr e (tk_fp t) repo (tk_branch t)) (\<lambda>oc. thenp (cleanup e) (account e t repo oc))))) (\<lambda>_. ?S) ?S"
    using hoare_then [OF start push] by (simp add: thenp_assoc push_and_open_pr_def bind_then)
  show ?thesis unfolding intend_def
    by (rule hoare_bind [OF add], rule hoare_not [where R = "\<lambda>ok w. ?S w \<and> ?F w \<and> (ok \<longrightarrow> tk_fp t \<in> sus_fps w)", OF no yes])
qed

lemma hoare_create_ready:
  assumes e: "env_ok e" and t: "ticket_ok e t repo"
  shows "hoare (safe e cfg L) (\<lambda>w. scanning e cfg L {} w \<and> free_of t w \<and> none_of (tk_fp t) w) (create_ready e cfg t sl repo)
    (\<lambda>_. scanning e cfg L {}) (scanning e cfg L {})"
    (is "hoare ?J ?P _ (\<lambda>_. ?S) _")
proof -
  let ?A = "about_to e cfg L (tk_fp t)"
  let ?W = "\<lambda>w. ?A w \<and> tracked_as (tk_fp t) None w"
  have safe: "?A w \<Longrightarrow> ?J w" and books: "?A w \<Longrightarrow> books e w" and sc: "?A w \<Longrightarrow> ?S w" for w
    by (auto simp: about_to_def intro: scanning_safe scanning_books)
  have spent: "hoare ?J ?P (gets (create_spent cfg)) (\<lambda>b w. ?S w \<and> (\<not> b \<longrightarrow> ?A w)) ?S"
    by (rule hoare_gets) (simp add: about_to_def)
  have branch: "hoare ?J ?A (remote_branch_exists e (tk_branch t)) (\<lambda>_. ?A) ?S"
    by (rule hoare_weaken [OF hoare_calm [where P = ?A and J = ?J, OF calmly_branch [OF e] stable_about safe]]) (auto simp: sc)
  have claim: "hoare ?J ?A (take_claim e t) (\<lambda>won w. ?A w \<and> (won \<longrightarrow> tracked_as (tk_fp t) None w)) ?S"
    by (rule hoare_weaken [OF hoare_take_claim [where P = ?A and J = ?J, OF e stable_about safe books]]) (auto simp: sc)
  have stW: "stable e ?W" unfolding tracked_as_def
    by (rule stable_row [where F = "\<lambda>r. r (tk_fp t) = None", OF stable_about books])
  have commit: "hoare ?J ?W (make_proposal_commit e sl) (\<lambda>_. ?W) ?S"
    by (rule hoare_weaken [OF hoare_calm [where P = ?W and J = ?J, OF calmly_commit [OF e] stW]]) (auto simp: sc safe)
  have gb: "hoare ?J ?W (give_back e t) (\<lambda>_. ?S) ?S"
    by (rule hoare_pre [OF hoare_give_back [OF e, of "{}" cfg L ?W]]) (auto simp: sc)
  have won: "hoare ?J ?W (bindp (make_proposal_commit e sl) (\<lambda>ok. if \<not> ok then give_back e t else intend e t repo)) (\<lambda>_. ?S) ?S"
    by (rule hoare_bind [OF commit], rule hoare_if, rule gb, rule hoare_intend [OF e t])
  have claimed: "hoare ?J ?A (bindp (take_claim e t) (\<lambda>won. if \<not> won then ret ()
      else bindp (make_proposal_commit e sl) (\<lambda>ok. if \<not> ok then give_back e t else intend e t repo))) (\<lambda>_. ?S) ?S"
    by (rule hoare_bind [OF claim], rule hoare_if, rule hoare_ret, simp add: sc, rule hoare_pre [OF won], simp)
  show ?thesis unfolding create_ready_def
    by (rule hoare_bind [OF spent], rule hoare_if, rule hoare_ret, simp,
        rule hoare_pre [OF hoare_bind [OF branch hoare_if [OF hoare_ret claimed]]]) (auto simp: sc)
qed

lemma hoare_reserved_ready:
  assumes e: "env_ok e" and t: "ticket_ok e t repo"
  shows "hoare (safe e cfg L) (\<lambda>w. scanning e cfg L {} w \<and> tk_fp t \<in> set (l_reserved w) \<and> none_of (tk_fp t) w)
    (reserved_ready e cfg t sl repo) (\<lambda>_. scanning e cfg L {}) (scanning e cfg L {})"
    (is "hoare ?J ?P _ (\<lambda>_. ?S) _")
proof -
  have branch: "hoare ?J ?P (remote_branch_exists e (tk_branch t)) (\<lambda>_. ?P) ?S"
    by (rule hoare_weaken [OF hoare_calm [where P = ?P and J = ?J, OF calmly_branch [OF e]]])
      (auto intro!: stables stable_reserved [where F = "\<lambda>r. tk_fp t \<in> r"] intro: scanning_safe)
  let ?C = "\<lambda>w. ?S w \<and> clear_ok (tk_fp t) w \<and> none_of (tk_fp t) w"
  let ?U = "\<lambda>w. ?C (w\<lparr>l_reserved := removeAll (tk_fp t) (l_reserved w)\<rparr>)"
  have down: "hoare ?J ?P count_down (\<lambda>_. ?U) ?S"
    unfolding count_down_def by (rule hoare_modify) (use scanning_refund in \<open>auto simp: clear_ok_def none_of_def\<close>)
  have unres: "hoare ?J ?U (unreserve (tk_fp t)) (\<lambda>_. ?C) ?S"
    unfolding unreserve_def by (rule hoare_modify)
  have "stable e (\<lambda>w. (?S w \<and> clear_ok (tk_fp t) w) \<and> none_of (tk_fp t) w)"
    by (intro stable_conj [OF stable_clear_ok] stables) (auto intro: scanning_books)
  then have stC: "stable e ?C" by (simp add: conj_assoc)
  have clear: "hoare ?J ?C (clear_suspect e (tk_fp t)) (\<lambda>_ w. ?S w \<and> free_of t w \<and> none_of (tk_fp t) w) ?S"
    by (rule hoare_weaken [OF hoare_clear [OF e _ stC]]) (auto simp: none_of_def clear_ok_def)
  have refund: "hoare ?J ?P (thenp count_down (thenp (unreserve (tk_fp t))
             (thenp (clear_suspect e (tk_fp t)) (create_ready e cfg t sl repo)))) (\<lambda>_. ?S) ?S"
    by (rule hoare_then [OF down hoare_then [OF unres hoare_then [OF clear hoare_create_ready [OF e t]]]])
  have recover: "hoare ?J ?P (recover_ready e t repo) (\<lambda>_. ?S) ?S"
    by (rule hoare_pre [OF hoare_recover_ready [OF e t]]) simp
  show ?thesis unfolding reserved_ready_def
  proof (rule hoare_bind [OF branch])
    show "hoare ?J ?P (case rbe of Some False \<Rightarrow> thenp count_down (thenp (unreserve (tk_fp t))
             (thenp (clear_suspect e (tk_fp t)) (create_ready e cfg t sl repo)))
       | Some True \<Rightarrow> recover_ready e t repo | None \<Rightarrow> ret ()) (\<lambda>_. ?S) ?S" for rbe
      using refund recover by (auto split: option.split bool.split intro!: hoare_ret)
  qed
qed

lemma hoare_probe_ready:
  assumes e: "env_ok e" and t: "ticket_ok e t repo"
  shows "hoare (safe e cfg L) (scanning e cfg L {}) (probe_ready e cfg t sl repo)
    (\<lambda>_. scanning e cfg L {}) (scanning e cfg L {})"
    (is "hoare ?J ?S _ _ _")
proof -
  have home: "rp_nwo repo = en_nwo e (fst (en_home e (tk_fp t)))" "tk_branch t = snd (en_home e (tk_fp t))"
    using t by (simp_all add: ticket_ok_def)
  have stS: "stable e ?S" by (intro stables) simp
  have probe: "hoare ?J ?S probe (\<lambda>_. ?S) ?S"
    by (rule hoare_calm [OF calmly_probe stS]) (rule scanning_safe)
  note find = hoare_find [where J = ?J and P = ?S and fp = "tk_fp t", OF e stS scanning_safe scanning_books home]
  have none: "hoare ?J (\<lambda>w. ?S w \<and> none_of (tk_fp t) w) (bindp (gets (\<lambda>w. tk_fp t \<in> set (l_reserved w))) (\<lambda>held.
        if held then reserved_ready e cfg t sl repo else create_ready e cfg t sl repo)) (\<lambda>_. ?S) ?S"
    by (rule hoare_bind [OF hoare_gets [where Q = "\<lambda>held w. ?S w \<and> none_of (tk_fp t) w \<and> held = (tk_fp t \<in> set (l_reserved w))"]],
        simp, rule hoare_if, rule hoare_pre [OF hoare_reserved_ready [OF e t]], simp,
        rule hoare_pre [OF hoare_create_ready [OF e t]], simp)
  show ?thesis unfolding probe_ready_def
  proof (rule hoare_then [OF probe], rule hoare_bind [OF find])
    show "hoare ?J (\<lambda>w. ?S w \<and> (case st of Found n \<Rightarrow> only (tk_fp t) n w | None_Open \<Rightarrow> none_of (tk_fp t) w | _ \<Rightarrow> True))
       (case st of Found n \<Rightarrow> adopt_ready e t n
        | None_Open \<Rightarrow> bindp (gets (\<lambda>w. tk_fp t \<in> set (l_reserved w))) (\<lambda>held.
                if held then reserved_ready e cfg t sl repo else create_ready e cfg t sl repo)
        | _ \<Rightarrow> ret ()) (\<lambda>_. ?S) ?S" for st
      using hoare_adopt_ready [OF e] none by (cases st) (simp_all add: hoare_ret)
  qed
qed

section \<open>The scan\<close>

lemma calm_seen: "calm e w (w\<lparr>l_seen := s\<rparr>)" "calm e w (w\<lparr>l_seen := s, l_claim := c\<rparr>)"
  by (simp_all add: calm_def)

lemma hoare_draft_ready:
  assumes e: "env_ok e" and c: "at_home e c" and dry: "\<not> pc_dry cfg"
    and r: "rp_nwo r = en_nwo e (cc_repo c)" "slug (en_lower e) (cc_tag c) = Some s"
  shows "hoare (safe e cfg L) (scanning e cfg L {}) (draft_ready e cfg c s r) (\<lambda>_. scanning e cfg L {}) (scanning e cfg L {})"
    (is "hoare ?J ?S _ _ _")
  unfolding draft_ready_def if_not_P [OF dry]
proof (rule hoare_bind [OF hoare_calm [where J = ?J and P = ?S, OF calmly_provenance [OF e]]])
  show "stable e ?S" by (intro stables) simp
  have seen: "hoare ?J ?S (thenp (modify (\<lambda>w. w\<lparr>l_seen := removeAll (cc_fp c) (l_seen w)\<rparr>)) (ret Stop)) (\<lambda>_. ?S) ?S"
    by (rule hoare_calm [where e = e, OF calmly_then [OF calmly_modify calmly_ret]]) (auto intro!: stables simp: calm_seen scanning_safe)
  have work: "hoare ?J ?S (thenp (probe_ready e cfg \<lparr>tk_fp = cc_fp c, tk_scope = cc_repo c, tk_branch = skill_branch s,
      tk_draft = d\<rparr> s r) (ret Next)) (\<lambda>_. ?S) ?S" for d
    by (rule hoare_then [OF hoare_probe_ready [OF e] hoare_ret])
      (use r c in \<open>simp_all add: ticket_ok_def at_home_def prod_eq_iff\<close>)
  fix prov
  have p: "hoare ?J ?S (gets l_probes) (\<lambda>_. ?S) ?S" by (rule hoare_gets)
  show "hoare ?J ?S (case draft_of e s (cc_tag c) (trigger_of c) (cc_repo c) prov of
         None \<Rightarrow> ret Next
       | Some raw \<Rightarrow>
             bindp (gets l_probes) (\<lambda>p.
               if p \<ge> effective_probe_cap cfg
               then thenp (modify (\<lambda>w. w\<lparr>l_seen := removeAll (cc_fp c) (l_seen w)\<rparr>)) (ret Stop)
               else thenp (probe_ready e cfg
                      \<lparr>tk_fp = cc_fp c, tk_scope = cc_repo c, tk_branch = skill_branch s,
                       tk_draft = draft_hash (en_sha e) raw\<rparr> s r) (ret Next))) (\<lambda>_. ?S) ?S"
    using work by (auto split: option.split intro!: hoare_ret hoare_bind [OF p] seen)
qed (rule scanning_safe)

lemma hoare_ready_body:
  assumes e: "env_ok e" and c: "at_home e c" and dry: "\<not> pc_dry cfg"
  shows "hoare (safe e cfg L) (scanning e cfg L {}) (ready_body e cfg c) (\<lambda>_. scanning e cfg L {}) (scanning e cfg L {})"
    (is "hoare ?J ?S _ _ _")
  unfolding ready_body_def
proof (rule hoare_bind [OF hoare_resolve_repo [where J = ?J and P = ?S, OF e]])
  show "stable e ?S" by (intro stables) simp
  fix r :: "repo_ref option"
  let ?P = "\<lambda>w. ?S w \<and> (\<forall>repo. r = Some repo \<longrightarrow> rp_nwo repo = en_nwo e (cc_repo c))"
  have "hoare ?J ?P (draft_ready e cfg c s repo) (\<lambda>_. ?S) ?S" if "r = Some repo" "slug (en_lower e) (cc_tag c) = Some s" for repo s
  proof (cases "rp_nwo repo = en_nwo e (cc_repo c)")
    case True
    show ?thesis by (rule hoare_pre [OF hoare_draft_ready [OF e c dry True that(2)]]) simp
  qed (use that in \<open>simp add: hoare_def\<close>)
  then show "hoare ?J ?P (case (r, slug (en_lower e) (cc_tag c)) of
      (Some repo, Some s) \<Rightarrow> draft_ready e cfg c s repo | _ \<Rightarrow> ret Next) (\<lambda>_. ?S) ?S"
    by (auto split: option.split intro!: hoare_ret)
qed (rule scanning_safe)

lemma hoare_scan:
  assumes e: "env_ok e" and dry: "\<not> pc_dry cfg" and cs: "\<And>c. c \<in> set cs \<Longrightarrow> at_home e c"
  shows "hoare (safe e cfg L) (scanning e cfg L {}) (scan_ready e cfg cs) (\<lambda>_. scanning e cfg L {}) (scanning e cfg L {})"
    (is "hoare ?J ?S _ _ _")
  using cs
proof (induction cs)
  case Nil
  then show ?case by (simp add: hoare_ret)
next
  case (Cons c cs)
  have stS: "stable e ?S" by (intro stables) simp
  have IH: "hoare ?J ?S (scan_ready e cfg cs) (\<lambda>_. ?S) ?S" by (rule Cons.IH) (simp add: Cons.prems)
  have start: "hoare ?J ?S (modify (\<lambda>w. w\<lparr>l_seen := l_seen w @ [cc_fp c], l_claim := None\<rparr>)) (\<lambda>_. ?S) ?S"
    by (rule hoare_calm [OF calmly_modify stS]) (auto simp: calm_seen scanning_safe)
  have owed: "hoare ?J ?S (owed_release e) (\<lambda>_. ?S) ?S"
    by (rule hoare_calm [OF calmly_owed [OF e] stS]) (rule scanning_safe)
  have visit: "hoare ?J ?S (visit_ready e cfg c) (\<lambda>_. ?S) ?S"
    unfolding visit_ready_def
    by (rule hoare_then [OF start hoare_catch [OF hoare_ready_body [OF e _ dry] owed]]) (simp add: Cons.prems)
  have read: "hoare ?J ?S (gets f) (\<lambda>_. ?S) ?S" for f :: "pw \<Rightarrow> bool" by (rule hoare_gets)
  have go: "hoare ?J ?S (case fl of Stop \<Rightarrow> ret () | Next \<Rightarrow> scan_ready e cfg cs) (\<lambda>_. ?S) ?S" for fl
    using IH by (cases fl) (simp_all add: hoare_ret)
  have rest: "hoare ?J ?S (bindp (gets (\<lambda>w. cc_fp c \<in> set (l_seen w))) (\<lambda>dup. if dup then scan_ready e cfg cs
      else bindp (visit_ready e cfg c) (\<lambda>fl. case fl of Stop \<Rightarrow> ret () | Next \<Rightarrow> scan_ready e cfg cs))) (\<lambda>_. ?S) ?S"
    by (rule hoare_bind [OF read hoare_if [OF IH hoare_bind [OF visit go]]])
  show ?case unfolding scan_ready.simps
    by (rule hoare_bind [OF read], rule hoare_if, rule hoare_ret, assumption, rule rest)
qed

end
