(* ===== verification/Proposer_Suspects.thy ===== *)
theory Proposer_Suspects
  imports Proposer_Scan
begin

text \<open>
  The resolution of suspects. While it runs, every unreported pull request is tracked or belongs to a
  suspect not yet dropped (\<open>X\<close>); the classes tracked beyond those counted at the start (\<open>infl\<close>) are among the
  suspects visited (\<open>D\<close>) and have been counted when they left \<open>X\<close>.
\<close>

definition pending ::
  "env \<Rightarrow> pconfig \<Rightarrow> nat list \<Rightarrow> suspect list \<Rightarrow> string set \<Rightarrow> string set \<Rightarrow> string set \<Rightarrow> string set \<Rightarrow> pw \<Rightarrow> bool" where
  "pending e cfg L ss T infl X D w \<longleftrightarrow> books e w \<and> loads cfg L w \<and> l_sus_ok w \<and> l_reserved w = []
     \<and> (w_sus w = Sus_List ss \<or> ss = [] \<and> w_sus w = Sus_Missing)
     \<and> covered_by X w \<and> T \<subseteq> tracked_set w \<and> tracked_set w \<subseteq> infl \<union> D
     \<and> int (card ((tracked_set w - X) \<union> infl)) \<le> l_open w"

lemma pending_books: "pending e cfg L ss T infl X D w \<Longrightarrow> books e w"
  by (simp add: pending_def)

lemma pending_safe: "pending e cfg L ss T infl X D w \<Longrightarrow> safe e cfg L w"
  by (auto simp: pending_def safe_def loads_def load_ok_def)

lemma stable_pending [stables]: "stable e (pending e cfg L ss T infl X D)"
  unfolding stable_def
proof (intro allI impI)
  fix w w' assume c: "calm e w w'" and s: "pending e cfg L ss T infl X D w"
  have st: "store_ok e (w_store w)" using s by (simp add: pending_def books_def)
  with c have "tracked_set w' = tracked_set w" by (simp add: calm_def tracked_set_def)
  moreover have "books e w'" using s c stable_books unfolding stable_def pending_def by blast
  moreover have "covered_by X w'" using s calm_covered [OF c st] by (simp add: pending_def)
  ultimately show "pending e cfg L ss T infl X D w'" using s c by (simp add: pending_def loads_def calm_def)
qed

lemma pending_visited: "pending e cfg L ss T infl X D w \<Longrightarrow> D \<subseteq> D' \<Longrightarrow> pending e cfg L ss T infl X D' w"
  by (auto simp: pending_def)

lemma pending_drop:
  assumes "pending e cfg L ss T infl (insert fp X) D w" "finite infl" "fp \<notin> D"
    and "\<And>p. p \<in> set (unreported w) \<Longrightarrow> bp_fp p = fp \<Longrightarrow> prow (w_store w) fp \<noteq> None"
  shows "pending e cfg L ss T infl X (insert fp D) w"
proof -
  have cov: "covered_by X w" using assms(1,4) by (auto simp: pending_def covered_by_def)
  have "(tracked_set w - X) \<union> infl \<subseteq> (tracked_set w - insert fp X) \<union> infl" using assms(1,3) by (auto simp: pending_def)
  then have "card ((tracked_set w - X) \<union> infl) \<le> card ((tracked_set w - insert fp X) \<union> infl)"
    by (rule card_mono [rotated]) (use assms(2) tracked_finite in auto)
  with cov assms(1) show ?thesis by (auto simp: pending_def)
qed

lemma pending_adopted:
  assumes "pending e cfg L ss T infl (insert fp X) D w" "finite infl" "prow (w_store w) fp \<noteq> None"
  shows "pending e cfg L ss T infl X D (w\<lparr>l_open := l_open w + 1\<rparr>)"
proof -
  let ?w = "w\<lparr>l_open := l_open w + 1\<rparr>"
  have ts: "tracked_set ?w = tracked_set w" by (simp add: tracked_set_def)
  have "(tracked_set w - X) \<union> infl \<subseteq> insert fp ((tracked_set w - insert fp X) \<union> infl)" by auto
  then have "card ((tracked_set w - X) \<union> infl) \<le> card (insert fp ((tracked_set w - insert fp X) \<union> infl))"
    by (rule card_mono [rotated]) (use assms(2) tracked_finite in auto)
  also have "\<dots> \<le> Suc (card ((tracked_set w - insert fp X) \<union> infl))" using assms(2) tracked_finite by (simp add: card_insert_if)
  finally have "int (card ((tracked_set w - X) \<union> infl)) \<le> l_open w + 1" using assms(1) by (simp add: pending_def)
  moreover have "covered_by X ?w"
    using assms(1,3) by (auto simp: pending_def covered_by_def unreported_def told_def)
  ultimately show ?thesis using assms(1) by (simp add: pending_def ts books_locals loads_def)
qed

lemma pending_mark:
  assumes "pending e cfg L ss T infl (insert fp X) D w" "only fp n w" "store_ok e st" "prow st = (prow (w_store w))(fp \<mapsto> n)"
  shows "pending e cfg L ss T infl (insert fp X) (insert fp D) (w\<lparr>w_store := st\<rparr>)"
proof -
  let ?w = "w\<lparr>w_store := st\<rparr>"
  have b: "books e ?w" by (rule books_mark [OF pending_books [OF assms(1)] assms(2-4)])
  have ts: "tracked_set ?w = insert fp (tracked_set w)" by (auto simp: tracked_set_def assms(4))
  then have "tracked_set ?w - insert fp X = tracked_set w - insert fp X" by auto
  moreover have "covered_by (insert fp X) ?w"
    using assms(1,4) by (auto simp: pending_def covered_by_def unreported_def told_def)
  ultimately show ?thesis using assms(1) b ts by (auto simp: pending_def loads_def)
qed

lemma pending_opened:
  assumes "pending e cfg L ss T infl (insert fp X) D w" "tracked_as fp None w" "fp \<in> su_fp ` set ss" "none_of fp w"
    and "rp_nwo repo = en_nwo e (fst (en_home e fp))" "br = snd (en_home e fp)"
  shows "pending e cfg L ss T infl (insert fp X) D (opened_pr fp repo br n w)"
proof -
  have "fp \<in> sus_fps w" using assms(1,3) by (auto simp: pending_def sus_fps_def)
  then have "books e (opened_pr fp repo br n w)" by (rule books_opened [OF pending_books [OF assms(1)] assms(2) _ assms(4-6)])
  moreover have "covered_by (insert fp X) (opened_pr fp repo br n w)"
    using assms(1) unreported_opened [of fp repo br n w] by (auto simp: pending_def covered_by_def opened_pr_def)
  ultimately show ?thesis using assms(1) by (simp add: pending_def opened_pr_def loads_def tracked_set_def)
qed

lemma pending_log:
  assumes "pending e cfg L ss T infl X D w"
  shows "pending e cfg L ss T infl X D (w\<lparr>w_log := w_log w @ [n]\<rparr>)"
  using assms books_log [OF pending_books [OF assms], of n]
  by (auto simp: pending_def covered_by_def unreported_def told_def loads_def tracked_set_def)

section \<open>One suspect\<close>

lemma hoare_notify:
  assumes e: "env_ok e"
  shows "hoare (safe e cfg L) (\<lambda>w. pending e cfg L ss T infl X D (w\<lparr>w_log := w_log w @ [n]\<rparr>)) (notify_jefe e n)
    (\<lambda>_. pending e cfg L ss T infl X D) E"
    (is "hoare ?J ?P _ (\<lambda>_. ?S) _")
proof -
  have log: "hoare ?J ?P (modify (\<lambda>w. w\<lparr>w_log := w_log w @ [n]\<rparr>)) (\<lambda>_. ?S) E" by (rule hoare_modify)
  have ask: "hoare ?J ?S (catch (ask e (en_inbox e)) (ret False)) (\<lambda>_. ?S) E"
    by (rule hoare_catch [OF hoare_calm [OF calmly_ask [OF e] stable_pending pending_safe] hoare_ret])
  have inbox: "hoare ?J ?S (if ok then modify (\<lambda>w. w\<lparr>w_inbox := w_inbox w @ [n]\<rparr>) else ret ()) (\<lambda>_. ?S) E" for ok
    by (rule hoare_if, rule hoare_modify, simp add: pending_def books_def covered_by_def unreported_def told_def sus_fps_def
        tracked_set_def loads_def, rule hoare_ret)
  show ?thesis unfolding notify_jefe_def by (rule hoare_then [OF log hoare_bind [OF ask inbox]])
qed

text \<open>What a verdict on the suspect leaves.\<close>

definition verdict_post ::
  "env \<Rightarrow> pconfig \<Rightarrow> nat list \<Rightarrow> suspect list \<Rightarrow> string set \<Rightarrow> string set \<Rightarrow> string set \<Rightarrow> string set \<Rightarrow> string
     \<Rightarrow> verdict \<Rightarrow> pw \<Rightarrow> bool" where
  "verdict_post e cfg L ss T infl X D fp v w \<longleftrightarrow>
     pending e cfg L ss T infl (if v = Drop then X else insert fp X) (insert fp D) w"

lemma hoare_marked_drop:
  assumes "finite infl"
  shows "hoare (safe e cfg L) (\<lambda>w. pending e cfg L ss T infl (insert fp X) (insert fp D) w \<and> prow (w_store w) fp \<noteq> None)
    (thenp count_up (ret Drop)) (verdict_post e cfg L ss T infl X D fp) E"
  unfolding count_up_def
  by (rule hoare_then [OF hoare_modify [where Q = "\<lambda>_. pending e cfg L ss T infl X (insert fp D)"] hoare_ret])
    (use assms in \<open>auto simp: verdict_post_def pending_adopted\<close>)

lemma hoare_kept:
  assumes "env_ok e"
  shows "hoare (safe e cfg L) (\<lambda>w. pending e cfg L ss T infl (insert fp X) (insert fp D) w \<and> G w)
    (thenp (release e fp' br d) (ret Keep)) (verdict_post e cfg L ss T infl X D fp) (pending e cfg L ss T infl (insert fp X) (insert fp D))"
  by (rule hoare_pre [OF hoare_then [OF hoare_calm [OF calmly_release [OF assms] stable_pending pending_safe] hoare_ret]])
    (auto simp: verdict_post_def)

lemma hoare_mark_pending:
  assumes e: "env_ok e"
  shows "hoare (safe e cfg L) (\<lambda>w. pending e cfg L ss T infl (insert fp X) D w \<and> only fp n w) (mark e fp br d n)
    (\<lambda>m w. pending e cfg L ss T infl (insert fp X) (insert fp D) w \<and> (m \<longrightarrow> prow (w_store w) fp \<noteq> None))
    (pending e cfg L ss T infl (insert fp X) (insert fp D))"
    (is "hoare ?J ?P _ ?Q ?E")
proof (rule hoare_weaken [OF hoare_mark [where P = ?P and J = ?J and fp = fp and n = n and
    R = "\<lambda>w. ?E w \<and> prow (w_store w) fp \<noteq> None", OF e]])
  show "stable e ?P" by (intro stables)
  show "?E (w\<lparr>w_store := st\<rparr>) \<and> prow (w_store (w\<lparr>w_store := st\<rparr>)) fp \<noteq> None"
    if "?P w" "store_ok e st" "prow st = (prow (w_store w))(fp \<mapsto> n)" for w st
    using pending_mark [of e cfg L ss T infl fp X D w n st] that by simp
qed (auto intro: pending_safe pending_books pending_visited split: if_splits)

lemma hoare_draft:
  assumes "env_ok e" "stable e P" "\<And>w. P w \<Longrightarrow> safe e cfg L w"
  shows "hoare (safe e cfg L) P (suspect_draft e s) (\<lambda>_. P) P"
  by (rule hoare_calm [OF calmly_suspect_draft [OF assms(1)] assms(2,3)])

lemma hoare_unclaimed:
  assumes e: "env_ok e" and fp: "fp \<notin> D" and infl: "finite infl"
    and G: "\<And>w p. pending e cfg L ss T infl (insert fp X) D w \<Longrightarrow> G w \<Longrightarrow> p \<in> set (unreported (w\<lparr>w_log := w_log w @ [n]\<rparr>))
       \<Longrightarrow> bp_fp p = fp \<Longrightarrow> prow (w_store w) fp \<noteq> None"
  shows "hoare (safe e cfg L) (\<lambda>w. pending e cfg L ss T infl (insert fp X) D w \<and> G w)
    (if b then ret Keep else thenp (notify_jefe e n) (ret Drop)) (verdict_post e cfg L ss T infl X D fp) E"
proof (rule hoare_if)
  show "hoare (safe e cfg L) (\<lambda>w. pending e cfg L ss T infl (insert fp X) D w \<and> G w) (ret Keep)
     (verdict_post e cfg L ss T infl X D fp) E"
    by (rule hoare_ret) (auto simp: verdict_post_def intro: pending_visited)
  have drop: "pending e cfg L ss T infl X (insert fp D) (w\<lparr>w_log := w_log w @ [n]\<rparr>)"
    if "pending e cfg L ss T infl (insert fp X) D w" "G w" for w
    by (rule pending_drop [OF pending_log [OF that(1)] infl fp]) (use G [OF that] in simp)
  show "hoare (safe e cfg L) (\<lambda>w. pending e cfg L ss T infl (insert fp X) D w \<and> G w) (thenp (notify_jefe e n) (ret Drop))
     (verdict_post e cfg L ss T infl X D fp) E"
    by (rule hoare_pre [OF hoare_then [OF hoare_notify [OF e] hoare_ret]]) (use drop in \<open>auto simp: verdict_post_def\<close>)
qed

lemma told_drop:
  assumes "books e w" "only fp n w" "br = snd (en_home e fp)"
    "p \<in> set (unreported (w\<lparr>w_log := w_log w @ [Orphan_PR br n]\<rparr>))"
  shows "bp_fp p \<noteq> fp"
  using assms by (auto simp: unreported_def told_def only_def books_def list_all_iff pr_home_def)

lemma hoare_adopt_suspect:
  assumes e: "env_ok e" and s: "en_home e (su_fp s) = (su_scope s, su_branch s)" "su_fp s \<notin> D" and infl: "finite infl"
  shows "hoare (safe e cfg L) (\<lambda>w. pending e cfg L ss T infl (insert (su_fp s) X) D w \<and> only (su_fp s) n w)
    (adopt_suspect e infl s n) (verdict_post e cfg L ss T infl X D (su_fp s))
    (pending e cfg L ss T infl (insert (su_fp s) X) (insert (su_fp s) D))"
    (is "hoare ?J ?P _ ?Q ?E")
proof -
  have stP: "stable e ?P" by (intro stables)
  have safe: "?P w \<Longrightarrow> ?J w" and books: "?P w \<Longrightarrow> books e w" and E: "?P w \<Longrightarrow> ?E w" for w
    by (auto intro: pending_safe pending_books pending_visited)
  have draft: "hoare ?J ?P (suspect_draft e s) (\<lambda>_. ?P) ?E"
    by (rule hoare_weaken [OF hoare_draft [OF e stP safe]]) (use E in auto)
  have claim: "hoare ?J ?P (claim e (su_fp s) (su_branch s) d) (\<lambda>_. ?P) ?E" for d
    by (rule hoare_weaken [OF hoare_claim [where P = ?P and J = ?J, OF e stP safe books]]) (use E in auto)
  have settle: "hoare ?J (\<lambda>w. ?E w \<and> (m \<longrightarrow> prow (w_store w) (su_fp s) \<noteq> None))
     (if m then thenp count_up (ret Drop) else thenp (release e (su_fp s) (su_branch s) d) (ret Keep)) ?Q ?E" for m d
    using hoare_marked_drop [OF infl] hoare_kept [OF e, where G = "\<lambda>_. True"] by (cases m) simp_all
  have lost: "hoare ?J ?P (if su_fp s \<in> infl then ret Keep else thenp (notify_jefe e (Orphan_PR (su_branch s) n)) (ret Drop)) ?Q ?E"
    by (rule hoare_unclaimed [OF e s(2) infl]) (use told_drop [OF pending_books] s(1) in fastforce)
  show ?thesis unfolding adopt_suspect_def
    by (rule hoare_bind [OF draft], rule hoare_bind [OF claim], rule hoare_if,
        rule hoare_bind [OF hoare_mark_pending [OF e] settle], rule lost)
qed

lemma hoare_recover_suspect:
  assumes e: "env_ok e" and s: "en_home e (su_fp s) = (su_scope s, su_branch s)" "su_fp s \<notin> D" "s \<in> set ss"
    and infl: "finite infl" and repo: "rp_nwo repo = en_nwo e (su_scope s)"
  shows "hoare (safe e cfg L) (\<lambda>w. pending e cfg L ss T infl (insert (su_fp s) X) D w \<and> none_of (su_fp s) w)
    (recover_suspect e infl s repo) (verdict_post e cfg L ss T infl X D (su_fp s))
    (pending e cfg L ss T infl (insert (su_fp s) X) (insert (su_fp s) D))"
    (is "hoare ?J ?P _ ?Q ?E")
proof -
  let ?B = "pending e cfg L ss T infl (insert (su_fp s) X) D"
  let ?C = "\<lambda>w. ?P w \<and> prow (w_store w) (su_fp s) = None"
  have stP: "stable e ?P" by (intro stables)
  have safe: "?P w \<Longrightarrow> ?J w" and books: "?P w \<Longrightarrow> books e w" and E: "?B w \<Longrightarrow> ?E w" for w
    by (auto intro: pending_safe pending_books pending_visited)
  have stC: "stable e ?C" by (rule stable_row [where F = "\<lambda>r. r (su_fp s) = None", OF stP books])
  have draft: "hoare ?J ?P (suspect_draft e s) (\<lambda>_. ?P) ?E"
    by (rule hoare_weaken [OF hoare_draft [OF e stP safe]]) (use E in auto)
  have claim: "hoare ?J ?P (claim e (su_fp s) (su_branch s) d) (\<lambda>won w. ?P w \<and> (won \<longrightarrow> tracked_as (su_fp s) None w)) ?E" for d
    by (rule hoare_weaken [OF hoare_claim [where P = ?P and J = ?J, OF e stP safe books]]) (use E in auto)
  have home: "rp_nwo repo = en_nwo e (fst (en_home e (su_fp s)))" "su_branch s = snd (en_home e (su_fp s))"
    using s(1) repo by simp_all
  let ?O = "\<lambda>n w. ?B w \<and> only (su_fp s) n w"
  have opened: "?O n (opened_pr (su_fp s) repo (su_branch s) n w)" if "?C w" "none_of (su_fp s) w" for n w
    using that pending_opened [OF _ _ _ that(2) home] s(3) by (auto simp: tracked_as_def only_def none_of_def opened_pr_def)
  have create: "hoare ?J ?C (create_pr_for_branch e (su_fp s) repo (su_branch s))
     (\<lambda>oc w. ?B w \<and> (\<forall>n. oc = Opened n \<longrightarrow> only (su_fp s) n w)) ?E"
    by (rule hoare_weaken [OF hoare_create [where P = ?C and R = ?O and J = ?J, OF e stC _ _ _ home opened]])
      (auto intro: pending_safe pending_books split: outcome.splits)
  have marked: "hoare ?J (\<lambda>w. ?B w \<and> (\<forall>n. oc = Opened n \<longrightarrow> only (su_fp s) n w))
     (case oc of Opened n \<Rightarrow> mark e (su_fp s) (su_branch s) d n | _ \<Rightarrow> ret False)
     (\<lambda>m w. ?E w \<and> (m \<longrightarrow> prow (w_store w) (su_fp s) \<noteq> None)) ?E" for oc d
  proof (cases oc)
    case (Opened n)
    show ?thesis unfolding Opened outcome.case by (rule hoare_pre [OF hoare_mark_pending [OF e]]) simp
  qed (use E in \<open>auto intro!: hoare_ret\<close>)
  have settle: "hoare ?J (\<lambda>w. ?E w \<and> (m \<longrightarrow> prow (w_store w) (su_fp s) \<noteq> None))
     (if m then thenp count_up (ret Drop) else thenp (release e (su_fp s) (su_branch s) d) (ret Keep)) ?Q ?E" for m d
    using hoare_marked_drop [OF infl] hoare_kept [OF e, where G = "\<lambda>_. True"] by (cases m) simp_all
  have won: "hoare ?J ?C (bindp (create_pr_for_branch e (su_fp s) repo (su_branch s)) (\<lambda>oc.
         bindp (case oc of Opened n \<Rightarrow> mark e (su_fp s) (su_branch s) d n | _ \<Rightarrow> ret False) (\<lambda>marked.
           if marked then thenp count_up (ret Drop)
           else thenp (release e (su_fp s) (su_branch s) d) (ret Keep)))) ?Q ?E" for d
    by (rule hoare_bind [OF create hoare_bind [OF marked settle]])
  have lost: "hoare ?J ?P (if su_fp s \<in> infl then ret Keep else thenp (notify_jefe e (Stranded (su_branch s))) (ret Drop)) ?Q ?E"
    by (rule hoare_unclaimed [OF e s(2) infl]) (auto simp: unreported_def none_of_def)
  show ?thesis unfolding recover_suspect_def
    by (rule hoare_bind [OF draft], rule hoare_bind [OF claim], rule hoare_if, rule hoare_pre [OF won], simp add: tracked_as_def,
        rule hoare_pre [OF lost], simp)
qed

lemma hoare_resolve_suspect:
  assumes e: "env_ok e" and s: "en_home e (su_fp s) = (su_scope s, su_branch s)" "su_fp s \<notin> D" "s \<in> set ss"
    and infl: "finite infl"
  shows "hoare (safe e cfg L) (pending e cfg L ss T infl (insert (su_fp s) X) D)
    (resolve_suspect e cfg T infl s) (verdict_post e cfg L ss T infl X D (su_fp s))
    (pending e cfg L ss T infl (insert (su_fp s) X) (insert (su_fp s) D))"
    (is "hoare ?J ?P _ ?Q ?E")
proof -
  have E: "?P w \<Longrightarrow> ?E w" for w by (auto intro: pending_visited)
  have keep: "hoare ?J (\<lambda>w. ?P w \<and> G w) (ret v) ?Q ?E" if "v \<noteq> Drop" for v G
    using that E by (auto intro!: hoare_ret simp: verdict_post_def)
  have drop: "?Q Drop w" if "?P w" "none_of (su_fp s) w \<or> prow (w_store w) (su_fp s) \<noteq> None" for w
    unfolding verdict_post_def if_P [OF refl]
    by (rule pending_drop [OF that(1) infl s(2)]) (use that(2) in \<open>auto simp: none_of_def unreported_def\<close>)
  have tracked: "hoare ?J ?P (ret Drop) ?Q ?E" if "su_fp s \<in> T"
  proof (rule hoare_ret)
    fix w assume w: "?P w"
    then have "prow (w_store w) (su_fp s) \<noteq> None" using that by (auto simp: pending_def tracked_set_def)
    with w show "?Q Drop w" by (intro drop) simp_all
  qed
  have gone: "hoare ?J (\<lambda>w. ?P w \<and> none_of (su_fp s) w) (ret Drop) ?Q ?E"
    by (rule hoare_ret, rule drop) simp_all
  have probe: "hoare ?J ?P probe (\<lambda>_. ?P) ?E"
    by (rule hoare_weaken [OF hoare_calm [where P = ?P and J = ?J, OF calmly_probe stable_pending pending_safe]]) (use E in auto)
  have branch: "hoare ?J (\<lambda>w. ?P w \<and> none_of (su_fp s) w) (remote_branch_exists e (su_branch s)) (\<lambda>_ w. ?P w \<and> none_of (su_fp s) w) ?E"
    by (rule hoare_weaken [OF hoare_calm [where J = ?J and P = "\<lambda>w. ?P w \<and> none_of (su_fp s) w", OF calmly_branch [OF e]]])
      (use E in \<open>auto intro!: stables intro: pending_safe\<close>)
  have found: "hoare ?J (\<lambda>w. ?P w \<and> (\<forall>repo. r = Some repo \<longrightarrow> rp_nwo repo = en_nwo e (su_scope s)))
     (case r of None \<Rightarrow> ret Keep | Some repo \<Rightarrow> thenp probe (bindp (find_open_bot_pr e repo (su_branch s)) (\<lambda>st.
        case st of Found n \<Rightarrow> adopt_suspect e infl s n
        | None_Open \<Rightarrow> bindp (remote_branch_exists e (su_branch s)) (\<lambda>rbe.
             case rbe of Some False \<Rightarrow> ret Drop | Some True \<Rightarrow> recover_suspect e infl s repo | None \<Rightarrow> ret Keep)
        | _ \<Rightarrow> ret Keep))) ?Q ?E" for r
  proof (cases "\<exists>repo. r = Some repo \<and> rp_nwo repo = en_nwo e (su_scope s)")
    case False
    then show ?thesis using keep [of Keep "\<lambda>_. True"] by (cases r) (simp_all add: hoare_def)
  next
    case True
    then obtain repo where r: "r = Some repo" "rp_nwo repo = en_nwo e (su_scope s)" by blast
    have home: "rp_nwo repo = en_nwo e (fst (en_home e (su_fp s)))" "su_branch s = snd (en_home e (su_fp s))"
      using s(1) r(2) by simp_all
    have find: "hoare ?J ?P (find_open_bot_pr e repo (su_branch s))
       (\<lambda>r w. ?P w \<and> (case r of Found n \<Rightarrow> only (su_fp s) n w | None_Open \<Rightarrow> none_of (su_fp s) w | _ \<Rightarrow> True)) ?E"
      by (rule hoare_weaken [OF hoare_find [where P = ?P and J = ?J, OF e stable_pending pending_safe pending_books home]]) (use E in auto)
    have rbe: "hoare ?J (\<lambda>w. ?P w \<and> none_of (su_fp s) w)
       (case x of Some False \<Rightarrow> ret Drop | Some True \<Rightarrow> recover_suspect e infl s repo | None \<Rightarrow> ret Keep) ?Q ?E" for x
      using gone keep [of Keep "none_of (su_fp s)"] hoare_recover_suspect [OF e s infl r(2), of cfg L T X]
      by (cases x) (simp_all split: bool.split)
    have "hoare ?J (\<lambda>w. ?P w \<and> (case st of Found n \<Rightarrow> only (su_fp s) n w | None_Open \<Rightarrow> none_of (su_fp s) w | _ \<Rightarrow> True))
       (case st of Found n \<Rightarrow> adopt_suspect e infl s n
        | None_Open \<Rightarrow> bindp (remote_branch_exists e (su_branch s)) (\<lambda>rbe.
             case rbe of Some False \<Rightarrow> ret Drop | Some True \<Rightarrow> recover_suspect e infl s repo | None \<Rightarrow> ret Keep)
        | _ \<Rightarrow> ret Keep) ?Q ?E" for st
      using hoare_adopt_suspect [OF e s(1,2) infl] hoare_bind [OF branch rbe] keep [of Keep "\<lambda>_. True"] by (cases st) simp_all
    then show ?thesis unfolding r(1) option.case
      by (intro hoare_pre [OF hoare_then [OF probe hoare_bind [OF find]]]) auto
  qed
  have repo: "hoare ?J ?P (resolve_repo e (su_scope s)) (\<lambda>r w. ?P w \<and> (\<forall>repo. r = Some repo \<longrightarrow> rp_nwo repo = en_nwo e (su_scope s))) ?E"
    by (rule hoare_weaken [OF hoare_resolve_repo [where P = ?P and J = ?J, OF e stable_pending pending_safe]]) (use E in auto)
  have p: "hoare ?J ?P (gets l_probes) (\<lambda>_. ?P) ?E" by (rule hoare_gets)
  have wait: "hoare ?J ?P (ret Defer) ?Q ?E" using keep [of Defer "\<lambda>_. True"] by simp
  show ?thesis unfolding resolve_suspect_def
    by (rule hoare_if, erule tracked, rule hoare_bind [OF p], rule hoare_if, rule wait, rule hoare_bind [OF repo found])
qed

section \<open>The pass\<close>

lemma hoare_resolve_suspects:
  assumes e: "env_ok e" and infl: "finite infl" and home: "\<And>s. s \<in> set ss \<Longrightarrow> en_home e (su_fp s) = (su_scope s, su_branch s)"
    and todo: "set todo \<subseteq> set ss" "distinct (map su_fp todo)" "su_fp ` set todo \<inter> D = {}"
  shows "hoare (safe e cfg L) (pending e cfg L ss T infl (su_fp ` set todo \<union> X) D) (resolve_suspects e cfg T infl todo)
    (\<lambda>(r, d) w. pending e cfg L ss T infl (su_fp ` set (d @ r) \<union> X) (D \<union> su_fp ` set todo) w
        \<and> set (d @ r) \<subseteq> set todo \<and> distinct (map su_fp (d @ r))) E"
  using todo
proof (induction todo arbitrary: X D)
  case Nil
  then show ?case by (auto intro!: hoare_ret)
next
  case (Cons s todo)
  let ?J = "safe e cfg L" and ?fp = "su_fp s" and ?Y = "su_fp ` set todo \<union> X"
  let ?X' = "\<lambda>v. if v = Drop then X else insert ?fp X"
  let ?post = "\<lambda>(r, d) w. pending e cfg L ss T infl (su_fp ` set (d @ r) \<union> X) (D \<union> su_fp ` set (s # todo)) w
        \<and> set (d @ r) \<subseteq> set (s # todo) \<and> distinct (map su_fp (d @ r))"
  have one: "hoare ?J (pending e cfg L ss T infl (insert ?fp ?Y) D) (catch (resolve_suspect e cfg T infl s) (ret Keep))
      (verdict_post e cfg L ss T infl ?Y D ?fp) E"
    by (rule hoare_catch [OF hoare_resolve_suspect [OF e home _ _ infl] hoare_ret])
      (use Cons.prems in \<open>auto simp: verdict_post_def\<close>)
  have sets: "(if v = Drop then ?Y else insert ?fp ?Y) = su_fp ` set todo \<union> ?X' v" for v by auto
  have rest: "hoare ?J (verdict_post e cfg L ss T infl ?Y D ?fp v) (resolve_suspects e cfg T infl todo)
      (\<lambda>(r, d) w. pending e cfg L ss T infl (su_fp ` set (d @ r) \<union> ?X' v) (insert ?fp D \<union> su_fp ` set todo) w
        \<and> set (d @ r) \<subseteq> set todo \<and> distinct (map su_fp (d @ r))) E" for v
    unfolding verdict_post_def sets by (rule Cons.IH) (use Cons.prems in auto)
  have fin: "hoare ?J (\<lambda>w. pending e cfg L ss T infl (su_fp ` set (d @ r) \<union> ?X' v) (insert ?fp D \<union> su_fp ` set todo) w
        \<and> set (d @ r) \<subseteq> set todo \<and> distinct (map su_fp (d @ r)))
     (ret (case v of Keep \<Rightarrow> (s # r, d) | Drop \<Rightarrow> (r, d) | Defer \<Rightarrow> (r, s # d))) ?post E" for v r d
  proof (rule hoare_ret)
    fix w assume w: "pending e cfg L ss T infl (su_fp ` set (d @ r) \<union> ?X' v) (insert ?fp D \<union> su_fp ` set todo) w
        \<and> set (d @ r) \<subseteq> set todo \<and> distinct (map su_fp (d @ r))"
    have D: "insert ?fp D \<union> su_fp ` set todo = D \<union> su_fp ` set (s # todo)" by auto
    have "?fp \<notin> su_fp ` set (d @ r)" using w Cons.prems(2) by auto
    then show "?post (case v of Keep \<Rightarrow> (s # r, d) | Drop \<Rightarrow> (r, d) | Defer \<Rightarrow> (r, s # d)) w"
      using w unfolding D by (cases v) auto
  qed
  show ?case unfolding resolve_suspects.simps
  proof (rule hoare_pre [OF hoare_bind [OF one hoare_bind [OF rest]]])
    fix v and x :: "suspect list \<times> suspect list"
    show "hoare ?J ((\<lambda>(r, d) w. pending e cfg L ss T infl (su_fp ` set (d @ r) \<union> ?X' v) (insert ?fp D \<union> su_fp ` set todo) w
        \<and> set (d @ r) \<subseteq> set todo \<and> distinct (map su_fp (d @ r))) x)
      (case x of (remaining, deferred) \<Rightarrow>
         ret (case v of Keep \<Rightarrow> (s # remaining, deferred) | Drop \<Rightarrow> (remaining, deferred) | Defer \<Rightarrow> (remaining, s # deferred))) ?post E"
      using fin by (cases x) simp
  qed simp
qed

text \<open>Reads between two claims: the recorder does not change what is in flight.\<close>

lemma inflight_rows:
  assumes "distinct (map cc_fp T)"
  shows "fp \<in> list_inflight_fingerprints T \<longleftrightarrow> (\<exists>c. get_row cc_fp fp T = Some c \<and> in_flight c)"
  using assms by (auto simp: list_inflight_fingerprints_def get_row_iff)

lemma inflight_others:
  assumes "env_ok e" "store_ok e (w_store w)"
  shows "list_inflight_fingerprints (cands (w_store (others e w))) = list_inflight_fingerprints (cands (w_store w))"
proof (cases "en_sighting e (w_clock w)")
  case None
  then show ?thesis by (simp add: others_def)
next
  case (Some g)
  obtain st' rep where r: "record_capture (en_lower e) (en_sha e) (en_th e) (en_now e (w_clock w)) g (w_store w) = (st', rep)" by fastforce
  have st': "w_store (others e w) = st'" by (simp add: others_def Some r)
  have "store_ok e st'" using calm_others [OF assms(1), of w] assms(2) by (simp add: calm_def st')
  then have d: "distinct (map cc_fp (cands st'))" "distinct (map cc_fp (cands (w_store w)))"
    using assms(2) by (auto intro: store_ok_distinct)
  have "x \<in> list_inflight_fingerprints (cands st') \<longleftrightarrow> x \<in> list_inflight_fingerprints (cands (w_store w))" for x
    unfolding inflight_rows [OF d(1)] inflight_rows [OF d(2)] in_flight_def
    using record_row [OF r, of x] by (cases "get_row cc_fp x (cands (w_store w))") auto
  then show ?thesis unfolding st' by blast
qed

lemma card_inflight: "distinct (map cc_fp T) \<Longrightarrow> card (list_inflight_fingerprints T) = count_open_proposals T"
  unfolding list_inflight_fingerprints_def count_open_proposals_def count_where_def
  by (metis distinct_card distinct_filter_map length_map)

definition kept_by :: "env \<Rightarrow> (pw \<Rightarrow> bool) \<Rightarrow> bool" where
  "kept_by e P \<longleftrightarrow> (\<forall>w. P w \<longrightarrow> P (others e w))"

lemma kept_stable: "env_ok e \<Longrightarrow> stable e P \<Longrightarrow> kept_by e P"
  using calm_others unfolding kept_by_def stable_def by blast

lemma kept_conj: "kept_by e P \<Longrightarrow> kept_by e Q \<Longrightarrow> kept_by e (\<lambda>w. P w \<and> Q w)"
  by (simp add: kept_by_def)

lemma hoare_kept_ask:
  assumes "kept_by e P" "\<And>w. P w \<Longrightarrow> J w"
  shows "hoare J P (ask e g) (\<lambda>_. P) P"
  using assms by (intro hoareI) (auto simp: ask_def reply_def ret_def raise_def kept_by_def split: reply.split)

lemma hoare_kept_read:
  assumes "kept_by e P" "\<And>w. P w \<Longrightarrow> J w"
  shows "hoare J P (db_read e f) (\<lambda>x w. P w \<and> x = f (w_store w)) P"
  using assms by (intro hoareI) (auto simp: db_read_def db_def Let_def kept_by_def split: db_fate.split)

end
