(* ===== verification/Proposer_Tick.thy ===== *)
theory Proposer_Tick
  imports Proposer_Visit Proposer_Suspects
begin

text \<open>
  The tick of the proposer: its passes put together, the runs of many ticks, and the theorems. A dry tick
  does nothing but let time pass.
\<close>

section \<open>The pass over the suspects file\<close>

definition fresh :: "env \<Rightarrow> pconfig \<Rightarrow> nat list \<Rightarrow> pw \<Rightarrow> bool" where
  "fresh e cfg L w \<longleftrightarrow> books e w \<and> loads cfg L w \<and> l_sus_ok w \<and> l_reserved w = []
     \<and> int (card (list_inflight_fingerprints (cands (w_store w)))) \<le> l_open w"

lemma fresh_safe: "fresh e cfg L w \<Longrightarrow> safe e cfg L w"
  by (auto simp: fresh_def safe_def loads_def load_ok_def)

lemma kept_fresh:
  assumes "env_ok e"
  shows "kept_by e (fresh e cfg L)"
  unfolding kept_by_def
proof (intro allI impI)
  fix w assume w: "fresh e cfg L w"
  then have st: "store_ok e (w_store w)" by (simp add: fresh_def books_def)
  have "books e (others e w)" using w calm_others [OF assms] stable_books unfolding fresh_def stable_def by blast
  with w show "fresh e cfg L (others e w)"
    unfolding fresh_def inflight_others [OF assms st] by (simp add: others_def loads_def)
qed

text \<open>After the resolution: what is left is covered by the suspects kept and by the rows.\<close>

definition settled :: "env \<Rightarrow> pconfig \<Rightarrow> nat list \<Rightarrow> string set \<Rightarrow> suspect list \<Rightarrow> pw \<Rightarrow> bool" where
  "settled e cfg L infl kept w \<longleftrightarrow> books e w \<and> loads cfg L w \<and> l_sus_ok w \<and> l_reserved w = []
     \<and> su_fp ` set kept \<subseteq> sus_fps w \<and> covered_by (su_fp ` set kept) w
     \<and> int (card ((tracked_set w - su_fp ` set kept) \<union> infl)) \<le> l_open w"

lemma settled_safe: "settled e cfg L infl kept w \<Longrightarrow> safe e cfg L w"
  by (auto simp: settled_def safe_def loads_def load_ok_def)

lemma pending_settled:
  assumes "pending e cfg L ss T infl (su_fp ` set kept) D w" "set kept \<subseteq> set ss"
  shows "settled e cfg L infl kept w"
  using assms by (auto simp: pending_def settled_def sus_fps_def)

lemma settled_save:
  assumes "pending e cfg L ss T infl (su_fp ` set kept) D w" "set kept \<subseteq> set ss" "distinct (map su_fp kept)" "suspects_ok e ss"
  shows "settled e cfg L infl kept (w\<lparr>w_sus := Sus_List kept\<rparr>)"
proof -
  have "suspects_ok e kept" using assms(2-4) by (auto simp: suspects_ok_def)
  then have "books e (w\<lparr>w_sus := Sus_List kept\<rparr>)"
    using assms(1) by (intro books_save) (simp_all add: pending_def)
  with assms(1) show ?thesis
    by (auto simp: pending_def settled_def sus_fps_def covered_by_def unreported_def told_def loads_def tracked_set_def)
qed

lemma reserve_scanning:
  assumes "settled e cfg L infl kept w" "finite infl"
    "fps = remdups (filter (\<lambda>f. f \<notin> infl) (map su_fp kept))"
  shows "scanning e cfg L {} (w\<lparr>l_reserved := fps, l_open := l_open w + int (length fps)\<rparr>)"
proof -
  let ?w = "w\<lparr>l_reserved := fps, l_open := l_open w + int (length fps)\<rparr>" and ?K = "su_fp ` set kept"
  have fps: "set fps = ?K - infl" "length fps = card (?K - infl)"
    using assms(3) by (auto simp: length_remdups_card_conv intro!: arg_cong [where f = card])
  have "owners w \<subseteq> tracked_set w \<union> ?K" using assms(1) by (auto simp: settled_def covered_by_def owners_def tracked_set_def)
  then have "owners w \<union> (?K - infl) \<subseteq> ((tracked_set w - ?K) \<union> infl) \<union> (?K - infl)" by auto
  then have "card (owners w \<union> (?K - infl)) \<le> card (((tracked_set w - ?K) \<union> infl) \<union> (?K - infl))"
    by (rule card_mono [rotated]) (use assms(2) tracked_finite in auto)
  also have "\<dots> \<le> card ((tracked_set w - ?K) \<union> infl) + card (?K - infl)" by (rule card_Un_le)
  finally have "tally {} ?w" using assms(1) fps by (simp add: tally_def settled_def owners_def unreported_def told_def)
  moreover have "books e ?w" using assms(1) by (simp add: settled_def books_locals)
  ultimately show ?thesis using assms(1) fps by (auto simp: scanning_def settled_def loads_def sus_fps_def)
qed

lemma pending_starts:
  assumes "fresh e cfg L w" "w_sus w = Sus_List ss \<or> ss = [] \<and> w_sus w = Sus_Missing" "T \<subseteq> tracked_set w"
    "infl = list_inflight_fingerprints (cands (w_store w))"
  shows "pending e cfg L ss T infl (su_fp ` set ss) {} w"
proof -
  have b: "books e w" using assms(1) by (simp add: fresh_def)
  have d: "distinct (map cc_fp (cands (w_store w)))" using b store_ok_distinct by (auto simp: books_def)
  have "tracked_set w \<subseteq> infl"
  proof
    fix x assume "x \<in> tracked_set w"
    then obtain c where "get_row cc_fp x (cands (w_store w)) = Some c" "cc_state c = Proposed"
      by (auto simp: tracked_set_def prow_def split: option.splits if_splits)
    then show "x \<in> infl" unfolding assms(4) inflight_rows [OF d] in_flight_def by blast
  qed
  then have t: "tracked_set w \<subseteq> infl \<union> {}" and i: "(tracked_set w - su_fp ` set ss) \<union> infl = infl" by auto
  have "covered_by (su_fp ` set ss) w" using b assms(2) by (auto simp: books_def sus_fps_def)
  moreover have "int (card infl) \<le> l_open w" "loads cfg L w" "l_sus_ok w" "l_reserved w = []"
    using assms(1) unfolding assms(4) fresh_def by blast+
  ultimately show ?thesis unfolding pending_def i using b assms(2,3) t by blast
qed

lemma hoare_suspect_pass:
  assumes e: "env_ok e"
  shows "hoare (safe e cfg L) (fresh e cfg L) (suspect_pass e cfg) (\<lambda>_. scanning e cfg L {}) (safe e cfg L)"
    (is "hoare ?J ?F _ (\<lambda>_. ?S) _")
proof -
  let ?file = "\<lambda>ss w. w_sus w = Sus_List ss \<or> ss = [] \<and> w_sus w = Sus_Missing"
  have load: "hoare ?J ?F (load_suspects e) (\<lambda>(ss, healthy) w. ?F w \<and> (healthy \<longrightarrow> ?file ss w)) ?J"
    unfolding load_suspects_def
    by (rule hoare_weaken [OF hoare_bind [OF hoare_kept_ask [where J = ?J, OF kept_fresh [OF e] fresh_safe] hoare_gets
        [where Q = "\<lambda>(ss, healthy) w. ?F w \<and> (healthy \<longrightarrow> ?file ss w)"]]]) (auto split: sus_file.splits simp: fresh_safe)
  have file_kept: "kept_by e (?file ss)" for ss by (auto simp: kept_by_def others_def)
  have "stable e (\<lambda>w. books e w \<and> T \<subseteq> {fp. prow (w_store w) fp \<noteq> None})" for T
    by (rule stable_row [OF stable_books])
  then have tr_kept: "kept_by e (\<lambda>w. books e w \<and> T \<subseteq> tracked_set w)" for T
    using kept_stable [OF e] unfolding tracked_set_def by blast
  have tracked: "hoare ?J (\<lambda>w. ?F w \<and> ?file ss w) (db_read e (\<lambda>st. set (map cc_fp (list_proposed (cands st)))))
      (\<lambda>T w. (?F w \<and> ?file ss w) \<and> T \<subseteq> tracked_set w) ?J" for ss
  proof (rule hoare_weaken [OF hoare_kept_read [where J = ?J and P = "\<lambda>w. ?F w \<and> ?file ss w"]])
    fix T w assume w: "(?F w \<and> ?file ss w) \<and> T = set (map cc_fp (list_proposed (cands (w_store w))))"
    then have "store_ok e (w_store w)" by (simp add: fresh_def books_def)
    from listed_proposed [OF this] w show "(?F w \<and> ?file ss w) \<and> T \<subseteq> tracked_set w" by (auto simp: tracked_set_def)
  qed (use kept_conj [OF kept_fresh [OF e] file_kept] fresh_safe in auto)
  have inflight: "hoare ?J (\<lambda>w. (?F w \<and> ?file ss w) \<and> T \<subseteq> tracked_set w) (db_read e (\<lambda>st. list_inflight_fingerprints (cands st)))
      (\<lambda>infl w. pending e cfg L ss T infl (su_fp ` set ss) {} w \<and> suspects_ok e ss \<and> finite infl) ?J" for ss T
  proof (rule hoare_weaken [OF hoare_kept_read [where J = ?J and P = "\<lambda>w. (?F w \<and> ?file ss w) \<and> T \<subseteq> tracked_set w"]])
    have "kept_by e (\<lambda>w. (?F w \<and> ?file ss w) \<and> (books e w \<and> T \<subseteq> tracked_set w))"
      by (intro kept_conj kept_fresh [OF e] file_kept tr_kept)
    moreover have "(\<lambda>w. (?F w \<and> ?file ss w) \<and> (books e w \<and> T \<subseteq> tracked_set w)) = (\<lambda>w. (?F w \<and> ?file ss w) \<and> T \<subseteq> tracked_set w)"
      by (auto simp: fresh_def fun_eq_iff)
    ultimately show "kept_by e (\<lambda>w. (?F w \<and> ?file ss w) \<and> T \<subseteq> tracked_set w)" by simp
    fix infl w assume w: "((?F w \<and> ?file ss w) \<and> T \<subseteq> tracked_set w) \<and> infl = list_inflight_fingerprints (cands (w_store w))"
    then show "pending e cfg L ss T infl (su_fp ` set ss) {} w \<and> suspects_ok e ss \<and> finite infl"
      using pending_starts [of e cfg L w ss T infl]
      by (auto simp: fresh_def books_def suspects_ok_def list_inflight_fingerprints_def)
  qed (auto simp: fresh_safe)
  have settle: "hoare ?J (\<lambda>w. pending e cfg L ss T infl (su_fp ` set kept \<union> {}) D w \<and> set kept \<subseteq> set ss \<and> distinct (map su_fp kept))
      (thenp (if ss = [] then ret True else save_suspects e kept) (reserve infl kept)) (\<lambda>_. ?S) ?J"
    if "suspects_ok e ss" "finite infl" for ss T infl kept D
  proof (rule hoare_then [where R = "settled e cfg L infl kept"])
    let ?P = "\<lambda>w. pending e cfg L ss T infl (su_fp ` set kept) D w \<and> set kept \<subseteq> set ss \<and> distinct (map su_fp kept)"
    have saved: "hoare ?J ?P (save_suspects e kept) (\<lambda>_. settled e cfg L infl kept) ?J"
      by (rule hoare_weaken [OF hoare_save [where J = ?J and P = ?P and R = "settled e cfg L infl kept" and ss = kept, OF e]])
        (auto intro!: stables intro: pending_settled settled_save that pending_safe settled_safe pending_books)
    have none: "hoare ?J ?P (ret True) (\<lambda>_. settled e cfg L infl kept) ?J" by (rule hoare_ret) (auto intro: pending_settled)
    show "hoare ?J (\<lambda>w. pending e cfg L ss T infl (su_fp ` set kept \<union> {}) D w \<and> set kept \<subseteq> set ss \<and> distinct (map su_fp kept))
       (if ss = [] then ret True else save_suspects e kept) (\<lambda>_. settled e cfg L infl kept) ?J"
      unfolding Un_empty_right by (rule hoare_if [OF none saved])
    show "hoare ?J (settled e cfg L infl kept) (reserve infl kept) (\<lambda>_. ?S) ?J"
      unfolding reserve_def Let_def by (rule hoare_modify, rule reserve_scanning) (use that(2) in auto)
  qed
  have rest: "hoare ?J (\<lambda>w. pending e cfg L ss T infl (su_fp ` set ss) {} w \<and> suspects_ok e ss \<and> finite infl)
     (bindp (resolve_suspects e cfg T infl ss) (\<lambda>(remaining, deferred). let kept = deferred @ remaining in
            thenp (if ss = [] then ret True else save_suspects e kept) (reserve infl kept))) (\<lambda>_. ?S) ?J" for ss T infl
  proof (cases "suspects_ok e ss \<and> finite infl")
    case True
    have res: "hoare ?J (pending e cfg L ss T infl (su_fp ` set ss \<union> {}) {}) (resolve_suspects e cfg T infl ss)
      (\<lambda>(r, d) w. pending e cfg L ss T infl (su_fp ` set (d @ r) \<union> {}) ({} \<union> su_fp ` set ss) w
        \<and> set (d @ r) \<subseteq> set ss \<and> distinct (map su_fp (d @ r))) ?J"
      by (rule hoare_resolve_suspects [OF e]) (use True in \<open>auto simp: suspects_ok_def\<close>)
    show ?thesis
    proof (rule hoare_pre [OF hoare_bind [OF res]])
      fix x :: "suspect list \<times> suspect list"
      show "hoare ?J ((\<lambda>(r, d) w. pending e cfg L ss T infl (su_fp ` set (d @ r) \<union> {}) ({} \<union> su_fp ` set ss) w
        \<and> set (d @ r) \<subseteq> set ss \<and> distinct (map su_fp (d @ r))) x) (case x of (remaining, deferred) \<Rightarrow>
          let kept = deferred @ remaining in
            thenp (if ss = [] then ret True else save_suspects e kept) (reserve infl kept)) (\<lambda>_. ?S) ?J"
        using settle [of ss infl T] True by (cases x) (simp only: prod.case Let_def)
    qed simp
  qed (auto simp: hoare_def)
  have ok: "hoare ?J (\<lambda>w. ?F w \<and> (h \<longrightarrow> ?file ss w)) (modify (\<lambda>w. w\<lparr>l_sus_ok := h\<rparr>)) (\<lambda>_ w. if h then ?F w \<and> ?file ss w else ?S w) ?J" for ss h
    by (rule hoare_modify) (cases h, auto simp: fresh_def scanning_def books_locals loads_def)
  have body: "hoare ?J (\<lambda>w. if h then ?F w \<and> ?file ss w else ?S w) (if \<not> h then ret ()
      else bindp (db_read e (\<lambda>st. set (map cc_fp (list_proposed (cands st))))) (\<lambda>tracked.
          bindp (db_read e (\<lambda>st. list_inflight_fingerprints (cands st))) (\<lambda>inflight.
          bindp (resolve_suspects e cfg tracked inflight ss) (\<lambda>(remaining, deferred).
            let kept = deferred @ remaining in
            thenp (if ss = [] then ret True else save_suspects e kept) (reserve inflight kept))))) (\<lambda>_. ?S) ?J" for ss h
    using hoare_bind [OF tracked hoare_bind [OF inflight rest]] by (cases h) (simp_all add: hoare_ret)
  show ?thesis unfolding suspect_pass_def
  proof (rule hoare_bind [OF load])
    fix x :: "suspect list \<times> bool"
    obtain ss h where x: "x = (ss, h)" by fastforce
    from hoare_then [OF ok body] show "hoare ?J ((\<lambda>(ss, healthy) w. ?F w \<and> (healthy \<longrightarrow> ?file ss w)) x)
      (case x of (ss, healthy) \<Rightarrow> thenp (modify (\<lambda>w. w\<lparr>l_sus_ok := healthy\<rparr>))
       (if \<not> healthy then ret ()
        else
          bindp (db_read e (\<lambda>st. set (map cc_fp (list_proposed (cands st))))) (\<lambda>tracked.
          bindp (db_read e (\<lambda>st. list_inflight_fingerprints (cands st))) (\<lambda>inflight.
          bindp (resolve_suspects e cfg tracked inflight ss) (\<lambda>(remaining, deferred).
            let kept = deferred @ remaining in
            thenp (if ss = [] then ret True else save_suspects e kept) (reserve inflight kept)))))) (\<lambda>_. ?S) ?J"
      unfolding x prod.case .
  qed
qed

section \<open>A live tick\<close>

lemma hoare_dead: "hoare J P m Q E \<Longrightarrow> (\<And>w. J w \<Longrightarrow> J' w) \<Longrightarrow> hoare J' P m Q E"
  by (rule hoareI, rule ends_mono [OF hoareD [of J P]])

lemma calmly_write_cursor [calms]: "env_ok e \<Longrightarrow> calmly e (write_cursor e)"
  unfolding write_cursor_def
  by (auto intro!: calms calmly_modify split: list.split simp: calm_def)

lemma calmly_read_cursor [calms]: "env_ok e \<Longrightarrow> calmly e (read_cursor e)"
  unfolding read_cursor_def by (intro calms)

lemma ready_at_home:
  assumes "scanning e cfg L {} w" "c \<in> set (list_ready_candidates n a (cands (w_store w)))"
  shows "at_home e c"
proof -
  have "c \<in> set (cands (w_store w))" using assms(2) by (auto simp: list_ready_candidates_def dest: in_set_takeD)
  with scanning_books [OF assms(1)] show ?thesis by (auto simp: books_def intro: store_ok_home)
qed

lemma hoare_ready_batch:
  assumes e: "env_ok e"
  shows "hoare (safe e cfg L) (scanning e cfg L {}) (ready_batch e cur)
    (\<lambda>b w. scanning e cfg L {} w \<and> (\<forall>c \<in> set b. at_home e c)) (scanning e cfg L {})"
    (is "hoare ?J ?S _ ?Q _")
proof -
  have st: "stable e ?S" by (intro stables) simp
  have read: "hoare ?J ?S (db_read e (\<lambda>st. list_ready_candidates 100 a (cands st))) ?Q ?S" for a
    by (rule hoare_weaken [OF hoare_kept_read [where J = ?J and P = ?S, OF kept_stable [OF e st] scanning_safe]])
      (auto intro: ready_at_home)
  show ?thesis unfolding ready_batch_def
    by (rule hoare_bind [OF read], rule hoare_if, rule hoare_pre [OF read], simp, rule hoare_ret)
qed

text \<open>Before the passes: the books hold and nothing has been pushed yet.\<close>

definition unpushed :: "env \<Rightarrow> nat list \<Rightarrow> pw \<Rightarrow> bool" where
  "unpushed e L w \<longleftrightarrow> books e w \<and> w_load w = L"

lemma unpushed_safe: "unpushed e L w \<Longrightarrow> safe e cfg L w"
  by (simp add: unpushed_def safe_def load_ok_def)

lemma stable_unpushed [stables]: "stable e (unpushed e L)"
  using stable_books [of e] by (auto simp: stable_def unpushed_def calm_def)

lemma hoare_propose:
  assumes e: "env_ok e" and dry: "\<not> pc_dry cfg"
  shows "hoare (safe e cfg L) (unpushed e L) (propose e cfg) (\<lambda>_. safe e cfg L) (safe e cfg L)"
    (is "hoare ?J ?U _ _ _")
proof -
  let ?S = "scanning e cfg L {}"
  have st: "stable e ?S" by (intro stables) simp
  have count: "hoare ?J ?U (db_read e (\<lambda>st. int (count_open_proposals (cands st))))
      (\<lambda>n w. ?U w \<and> n = int (count_open_proposals (cands (w_store w)))) ?J"
    by (rule hoare_weaken [OF hoare_kept_read [where J = ?J and P = ?U, OF kept_stable [OF e stable_unpushed] unpushed_safe]])
      (auto intro: unpushed_safe)
  have start: "hoare ?J (\<lambda>w. ?U w \<and> n = int (count_open_proposals (cands (w_store w)))) (modify (start_locals n))
      (\<lambda>_. fresh e cfg L) ?J" for n
  proof (rule hoare_modify)
    fix w assume w: "?U w \<and> n = int (count_open_proposals (cands (w_store w)))"
    then have "distinct (map cc_fp (cands (w_store w)))" by (auto simp: unpushed_def books_def intro: store_ok_distinct)
    from card_inflight [OF this] w show "fresh e cfg L (start_locals n w)"
      by (auto simp: fresh_def unpushed_def start_locals_def loads_def books_def covered_by_def unreported_def told_def sus_fps_def)
  qed
  have calm: "hoare ?J ?S m (\<lambda>_. ?S) ?J" if "calmly e m" for m :: "'b prog"
    by (rule hoare_weaken [OF hoare_calm [where J = ?J and P = ?S, OF that st scanning_safe]]) (auto intro: scanning_safe)
  have batch: "hoare ?J ?S (ready_batch e cur) (\<lambda>b w. ?S w \<and> (\<forall>c \<in> set b. at_home e c)) ?J" for cur
    by (rule hoare_weaken [OF hoare_ready_batch [OF e]]) (auto intro: scanning_safe)
  have scan: "hoare ?J (\<lambda>w. ?S w \<and> (\<forall>c \<in> set b. at_home e c)) (scan_ready e cfg b) (\<lambda>_. ?S) ?J" for b
  proof (cases "\<forall>c \<in> set b. at_home e c")
    case True
    then show ?thesis by (intro hoare_weaken [OF hoare_scan [OF e dry]]) (auto intro: scanning_safe)
  qed (auto simp: hoare_def)
  have cursor: "hoare ?J ?S (write_cursor e) (\<lambda>_. ?J) ?J"
    by (rule hoare_weaken [OF calm [OF calmly_write_cursor [OF e]]]) (auto intro: scanning_safe)
  show ?thesis unfolding propose_def if_not_P [OF dry]
    by (rule hoare_bind [OF count], rule hoare_then [OF start], rule hoare_then [OF hoare_suspect_pass [OF e]],
        rule hoare_bind [OF calm [OF calmly_read_cursor [OF e]]], rule hoare_bind [OF batch], rule hoare_then [OF scan cursor])
qed

lemma hoare_tick:
  assumes e: "env_ok e" and dry: "\<not> pc_dry cfg"
  shows "hoare (safe e cfg L) (unpushed e L) (propose_tick e cfg enabled locked) (\<lambda>_. safe e cfg L) (safe e cfg L)"
    (is "hoare ?J ?U _ _ _")
proof -
  let ?z = "cfg\<lparr>pc_per_tick := 0\<rparr>"
  have z: "safe e ?z L = ?U" by (auto simp: fun_eq_iff safe_def load_ok_def unpushed_def)
  have rec: "hoare ?J ?U (reconcile e cfg) (\<lambda>_. ?U) ?J"
    by (rule hoare_weaken [OF hoare_dead [OF hoare_reconcile [where ?cfg0.0 = ?z and L = L, OF e, unfolded z]]])
      (auto intro: unpushed_safe)
  have reap: "hoare ?J ?U (thenp (db e (\<lambda>now. on_cands (reap_stuck_proposing now (int (pc_reap cfg))))) (ret ())) (\<lambda>_. ?U) ?J"
    by (rule hoare_weaken [OF hoare_calm [where J = ?J and P = ?U, OF calmly_then [OF calmly_reap [OF e] calmly_ret] stable_unpushed unpushed_safe]])
      (auto intro: unpushed_safe)
  have idle: "hoare ?J ?U (ret ()) (\<lambda>_. ?J) ?J" by (rule hoare_ret) (rule unpushed_safe)
  show ?thesis unfolding propose_tick_def if_not_P [OF dry]
    by (rule hoare_if, rule idle, rule hoare_then [OF reap], rule hoare_then [OF rec hoare_propose [OF e dry]])
qed

lemma hoare_everywhere:
  assumes "hoare J P m (\<lambda>_. J) J" "P w"
  shows "J (fst (m w))"
  using hoareD [OF assms] by (cases "(J, \<lambda>_::'a. J, J, m w)" rule: ends.cases) auto

lemma live_tick_safe:
  assumes "env_ok e" "\<not> pc_dry cfg" "books e w"
  shows "safe e cfg (w_load w) (fst (propose_tick e cfg enabled locked w))"
  by (rule hoare_everywhere [OF hoare_tick [OF assms(1,2)]]) (simp add: unpushed_def assms(3))

section \<open>A dry tick\<close>

text \<open>What others see of the world.\<close>

definition outside :: "pw \<Rightarrow> nat \<times> capture_store \<times> sus_file \<times> string \<times> bot_pr list \<times> notice list \<times> notice list \<times> nat list" where
  "outside w = (w_clock w, w_store w, w_sus w, w_cursor w, w_prs w, w_log w, w_inbox w, w_load w)"

definition seen_of :: "pw \<Rightarrow> (nat \<times> capture_store \<times> sus_file \<times> string \<times> bot_pr list \<times> notice list \<times> notice list \<times> nat list)
    \<times> (string \<times> pytext \<times> string) option" where
  "seen_of w = (outside w, l_claim w)"

definition observes :: "env \<Rightarrow> (pw \<Rightarrow> 'o) \<Rightarrow> bool" where
  "observes e g \<longleftrightarrow> (\<forall>w v. g w = g v \<longrightarrow> g (others e w) = g (others e v))"

text \<open>A computation that only lets time pass, as far as \<open>g\<close> sees.\<close>

definition idle :: "(pw \<Rightarrow> 'o) \<Rightarrow> env \<Rightarrow> 'a prog \<Rightarrow> bool" where
  "idle g e m \<longleftrightarrow> (\<forall>w. \<exists>k. g (fst (m w)) = g ((others e ^^ k) w))"

named_theorems idles "computations that only let time pass"

lemma observes_outside [idles]: "observes e outside"
  unfolding observes_def
proof (intro allI impI)
  fix w v assume "outside w = outside v"
  then have "w_clock w = w_clock v" "w_store w = w_store v" "w_sus w = w_sus v" "w_cursor w = w_cursor v" "w_prs w = w_prs v"
    "w_log w = w_log v" "w_inbox w = w_inbox v" "w_load w = w_load v" by (simp_all add: outside_def)
  then show "outside (others e w) = outside (others e v)"
    by (cases "en_sighting e (w_clock v)") (simp_all add: outside_def others_def)
qed

lemma others_claim: "l_claim (others e w) = l_claim w"
  by (simp add: others_def)

lemma observes_seen [idles]: "observes e seen_of"
  unfolding observes_def
proof (intro allI impI)
  fix w v assume "seen_of w = seen_of v"
  then have "outside w = outside v" and c: "l_claim w = l_claim v" by (simp_all add: seen_of_def)
  from this(1) have "outside (others e w) = outside (others e v)" using observes_outside [of e] unfolding observes_def by blast
  then show "seen_of (others e w) = seen_of (others e v)" using c unfolding seen_of_def others_claim by (rule arg_cong2 [where f = Pair])
qed

lemma observes_pow: "observes e g \<Longrightarrow> g w = g v \<Longrightarrow> g ((others e ^^ k) w) = g ((others e ^^ k) v)"
proof (induction k)
  case (Suc k)
  then show ?case unfolding funpow.simps o_apply observes_def by blast
qed simp

lemma idle_seq:
  assumes "observes e g" "\<exists>k. g v = g ((others e ^^ k) w)" "\<exists>k. g u = g ((others e ^^ k) v)"
  shows "\<exists>k. g u = g ((others e ^^ k) w)"
proof -
  from assms(2,3) obtain j k where j: "g v = g ((others e ^^ j) w)" and k: "g u = g ((others e ^^ k) v)" by blast
  have "g u = g ((others e ^^ (k + j)) w)" unfolding k funpow_add o_apply by (rule observes_pow [OF assms(1) j])
  then show ?thesis ..
qed

lemma idle_here: "g v = g w \<Longrightarrow> \<exists>k. g v = g ((others e ^^ k) w)"
  by (rule exI [where x = 0]) (simp only: funpow.simps id_apply)

lemma idle_once: "g v = g (others e w) \<Longrightarrow> \<exists>k. g v = g ((others e ^^ k) w)"
  by (rule exI [where x = "Suc 0"]) (simp only: funpow.simps o_apply id_apply)

lemma idle_ret [idles]: "idle g e (ret x)" by (simp add: idle_def ret_def idle_here)
lemma idle_raise [idles]: "idle g e raise" by (simp add: idle_def raise_def idle_here)
lemma idle_gets [idles]: "idle g e (gets f)" by (simp add: idle_def gets_def idle_here)
lemma idle_modify: "(\<And>w. g (f w) = g w) \<Longrightarrow> idle g e (modify f)" by (simp add: idle_def modify_def idle_here)

lemma idle_bind [idles]:
  assumes "observes e g" "idle g e m" "\<And>x. idle g e (f x)"
  shows "idle g e (bindp m f)"
  unfolding idle_def
proof
  fix w
  obtain w' r where w': "m w = (w', r)" by fastforce
  with assms(2) have "\<exists>k. g w' = g ((others e ^^ k) w)" by (metis idle_def fst_conv)
  with w' assms(3) show "\<exists>k. g (fst (bindp m f w)) = g ((others e ^^ k) w)"
    by (cases r) (auto simp: bindp_def idle_def intro: idle_seq [OF assms(1)])
qed

lemma idle_then [idles]: "observes e g \<Longrightarrow> idle g e m \<Longrightarrow> idle g e n \<Longrightarrow> idle g e (thenp m n)"
  unfolding thenp_def by (rule idle_bind)

lemma idle_catch [idles]:
  assumes "observes e g" "idle g e m" "idle g e h"
  shows "idle g e (catch m h)"
  unfolding idle_def
proof
  fix w
  obtain w' r where w': "m w = (w', r)" by fastforce
  with assms(2) have "\<exists>k. g w' = g ((others e ^^ k) w)" by (metis idle_def fst_conv)
  with w' assms(3) show "\<exists>k. g (fst (catch m h w)) = g ((others e ^^ k) w)"
    by (cases r) (auto simp: catch_def idle_def intro: idle_seq [OF assms(1)])
qed

lemma idle_ask [idles]: "idle g e (ask e f)"
  by (auto simp: idle_def ask_def reply_def ret_def raise_def intro: idle_once split: reply.split)

lemma idle_db_read [idles]: "idle g e (db_read e f)"
  by (auto simp: idle_def db_read_def db_def Let_def intro: idle_once split: db_fate.split)

lemma idle_if [idles]: "idle g e m \<Longrightarrow> idle g e n \<Longrightarrow> idle g e (if b then m else n)"
  by simp

lemma idle_resolve_repo [idles]: "observes e g \<Longrightarrow> idle g e (resolve_repo e scope)"
  unfolding resolve_repo_def by (auto intro!: idles split: repos_file.split option.split repo_entry.split)

lemma idle_each [idles]: "observes e g \<Longrightarrow> (\<And>x. idle g e (f x)) \<Longrightarrow> idle g e (each f xs)"
  by (induction xs) (auto intro!: idles)

lemma idle_reconcile_dry:
  assumes "pc_dry cfg"
  shows "idle outside e (reconcile e cfg)"
proof -
  have "idle outside e (reconcile_pr e cfg c nwo n now v)" for c nwo n now v
    unfolding reconcile_pr_def settle_def if_P [OF assms] by (intro idles)
  moreover have "idle outside e (view_pr e nwo n)" for nwo n unfolding view_pr_def by (intro idles)
  ultimately show ?thesis unfolding reconcile_def reconcile_row_def by (auto intro!: idles split: option.split)
qed

lemma idle_ready_dry:
  assumes "pc_dry cfg"
  shows "idle seen_of e (ready_body e cfg c)"
proof -
  have "idle seen_of e (dry_ready cfg)"
    unfolding dry_ready_def by (intro idles idle_modify) (simp add: seen_of_def outside_def)
  then show ?thesis unfolding ready_body_def draft_ready_def provenance_def if_P [OF assms]
    by (auto intro!: idles split: option.split)
qed

lemma idle_visit_dry:
  assumes "pc_dry cfg"
  shows "idle outside e (visit_ready e cfg c)"
  unfolding idle_def
proof
  fix w :: pw
  let ?w1 = "w\<lparr>l_seen := l_seen w @ [cc_fp c], l_claim := None\<rparr>"
  obtain w2 r where b: "ready_body e cfg c ?w1 = (w2, r)" by fastforce
  from idle_ready_dry [OF assms, of e c] obtain k where "seen_of (fst (ready_body e cfg c ?w1)) = seen_of ((others e ^^ k) ?w1)"
    unfolding idle_def by blast
  then have k: "seen_of w2 = seen_of ((others e ^^ k) ?w1)" by (simp only: b fst_conv)
  have "l_claim ((others e ^^ k) ?w1) = None" by (induction k) (simp_all add: others_claim)
  with k have n: "l_claim w2 = None" and o: "outside w2 = outside ((others e ^^ k) ?w1)" by (simp_all add: seen_of_def)
  have "fst (visit_ready e cfg c w) = w2"
    using b n by (cases r) (simp_all add: visit_ready_def thenp_def bindp_def modify_def catch_def owed_release_def gets_def ret_def)
  moreover have "outside ((others e ^^ k) ?w1) = outside ((others e ^^ k) w)"
    by (rule observes_pow [OF observes_outside]) (simp add: outside_def)
  ultimately show "\<exists>k. outside (fst (visit_ready e cfg c w)) = outside ((others e ^^ k) w)" using o by auto
qed

lemma idle_scan_dry:
  assumes "pc_dry cfg"
  shows "idle outside e (scan_ready e cfg cs)"
  by (induction cs) (auto intro!: idles idle_visit_dry [OF assms] split: flow.split)

lemma idle_propose_dry:
  assumes "pc_dry cfg"
  shows "idle outside e (propose e cfg)"
  unfolding propose_def ready_batch_def read_cursor_def if_P [OF assms]
  by (intro idles idle_modify idle_scan_dry [OF assms]) (simp add: outside_def start_locals_def)

section \<open>Runs of the proposer\<close>

text \<open>
  Ticks under any configuration, moments between ticks, and damage to the suspects file. The clock never
  goes back, so that one environment describes a whole run.
\<close>

inductive pstep :: "env \<Rightarrow> pw \<Rightarrow> pw \<Rightarrow> bool" for e where
  tick_step: "pstep e w (fst (propose_tick e cfg enabled locked w))"
| time_step: "pstep e w (others e w)"
| disk_step: "pstep e w (w\<lparr>w_sus := Sus_Damaged\<rparr>)"

lemma books_others_pow: "env_ok e \<Longrightarrow> books e w \<Longrightarrow> books e ((others e ^^ k) w)"
proof (induction k)
  case (Suc k)
  then have "calm e ((others e ^^ k) w) (others e ((others e ^^ k) w))" by (intro calm_others)
  with Suc stable_books [of e] show ?case unfolding stable_def by auto
qed simp

lemma books_outside: "outside w = outside v \<Longrightarrow> books e w = books e v"
  by (auto simp: outside_def books_def covered_by_def unreported_def told_def sus_fps_def)

lemma dry_idle:
  assumes "pc_dry cfg"
  shows "idle outside e (propose_tick e cfg enabled locked)"
  unfolding propose_tick_def if_P [OF assms]
  by (intro idles idle_reconcile_dry idle_propose_dry assms)

lemma pstep_books:
  assumes "env_ok e \<and> books e w" "pstep e w w'"
  shows "env_ok e \<and> books e w'"
  using assms(2)
proof cases
  case (tick_step cfg enabled locked)
  show ?thesis
  proof (cases "pc_dry cfg")
    case True
    then obtain k where "outside w' = outside ((others e ^^ k) w)" using dry_idle tick_step unfolding idle_def by blast
    then show ?thesis using assms(1) books_outside books_others_pow by blast
  next
    case False
    then show ?thesis using live_tick_safe assms(1) tick_step by (simp add: safe_def)
  qed
next
  case time_step
  then show ?thesis using assms(1) books_others_pow [of e w 1] by simp
next
  case disk_step
  then show ?thesis using assms(1) by (auto simp: books_def)
qed

interpretation proposer: invariant_system "pstep e" "\<lambda>w. env_ok e \<and> books e w"
  by unfold_locales (rule pstep_books)

section \<open>Theorems\<close>

text \<open>
  C33. No pull request is lost. In every run of the proposer, whatever calls fail, answer too late or
  kill the process, and whatever people close meanwhile, each open pull request of the bot is tracked under
  its number by the row of its class, or is named with its branch in the suspects file (or that file is
  damaged, which disables creation), or was reported to a person as an orphan.
\<close>

theorem no_pull_request_lost:
  assumes "env_ok e" "books e w0" "reach (pstep e) w0 w" "p \<in> set (w_prs w)"
  shows "(\<exists>c \<in> set (cands (w_store w)). cc_fp c = bp_fp p \<and> cc_state c = Proposed \<and> cc_pr c = Some (bp_num p))
    \<or> (\<exists>ss s. w_sus w = Sus_List ss \<and> s \<in> set ss \<and> su_fp s = bp_fp p \<and> su_branch s = bp_branch p)
    \<or> w_sus w = Sus_Damaged \<or> Orphan_PR (bp_branch p) (bp_num p) \<in> set (w_log w)"
proof -
  have b: "books e w" using proposer.reach_inv [OF assms(3)] assms(1,2) by blast
  have home: "bp_branch p = snd (en_home e (bp_fp p))" using b assms(4) by (auto simp: books_def list_all_iff pr_home_def)
  show ?thesis
  proof (cases "told w p \<or> w_sus w = Sus_Damaged")
    case True
    then show ?thesis by (auto simp: told_def)
  next
    case False
    then have "p \<in> set (unreported w)" "covered_by (sus_fps w) w" using b assms(4) by (auto simp: unreported_def books_def)
    then consider "prow (w_store w) (bp_fp p) \<noteq> None" | "bp_fp p \<in> sus_fps w" by (auto simp: covered_by_def)
    then show ?thesis
    proof cases
      case 1
      then have n: "prow (w_store w) (bp_fp p) = Some (bp_num p)" using b assms(4) by (auto simp: books_def)
      then obtain c where c: "get_row cc_fp (bp_fp p) (cands (w_store w)) = Some c" "cc_state c = Proposed" "cc_pr c = Some (bp_num p)"
        by (auto simp: prow_def split: option.splits if_splits)
      from c(2,3) get_row_Some [OF c(1)] show ?thesis by blast
    next
      case 2
      then obtain ss s where s: "w_sus w = Sus_List ss" "s \<in> set ss" "su_fp s = bp_fp p"
        by (auto simp: sus_fps_def split: sus_file.splits)
      then have "su_branch s = bp_branch p" using b home by (auto simp: books_def suspects_ok_def)
      with s show ?thesis by blast
    qed
  qed
qed

text \<open>
  C34. Pushes stay within the limits. A tick pushes at most \<^verbatim>\<open>MAX_PER_TICK\<close> branches, and at each push fewer than
  \<^verbatim>\<open>MAX_OPEN\<close> pull requests that nobody reported are open, also counting those whose creation was never
  confirmed; this holds wherever the tick ends.
\<close>

theorem pushes_within_limits:
  assumes "env_ok e" "books e w"
  shows "\<exists>M. w_load (fst (propose_tick e cfg enabled locked w)) = w_load w @ M
    \<and> length M \<le> pc_per_tick cfg \<and> (\<forall>x \<in> set M. x < pc_max_open cfg)"
proof (cases "pc_dry cfg")
  case True
  then obtain k where "outside (fst (propose_tick e cfg enabled locked w)) = outside ((others e ^^ k) w)"
    using dry_idle unfolding idle_def by blast
  moreover have "w_load ((others e ^^ k) w) = w_load w" by (induction k) (simp_all add: others_def)
  ultimately show ?thesis by (simp add: outside_def)
next
  case False
  from live_tick_safe [OF assms(1) this assms(2)] show ?thesis by (simp add: safe_def load_ok_def)
qed

text \<open>
  A dry tick changes nothing: the ledger, the suspects file, the cursor, the pull requests, the log and
  the inbox are as time and other people alone would have left them.
\<close>

theorem dry_tick_only_waits:
  assumes "pc_dry cfg"
  shows "\<exists>k. outside (fst (propose_tick e cfg enabled locked w)) = outside ((others e ^^ k) w)"
  using dry_idle [OF assms] unfolding idle_def by blast

end
