(* ===== verification/Proposer_Examples.thy ===== *)
theory Proposer_Examples
  imports Proposer_Tick
begin

text \<open>
  The containment of a proposal's commit, and concrete ticks: one that is killed while it opens the pull
  request of a stranded branch, and a dry tick. The fallback trigger of a draft is shown to be banned.
\<close>

section \<open>The commit of a proposal\<close>

lemma only_skill_path:
  assumes "assert_only_skill_path lower changed s"
  shows "changed = [skill_path s]"
  using assms by (auto simp: assert_only_skill_path_def split: if_splits list.splits)

lemma write_contained:
  assumes "safe_write_skill fault s t = (t', r)"
  shows "t' p \<noteq> t p \<Longrightarrow> t p = None \<and> p \<in> {[skills_dir], [skills_dir, s], [skills_dir, s, skill_file]}"
    and "r = Written \<Longrightarrow> t [] = Some Node_Dir \<and> t [skills_dir] \<in> {None, Some Node_Dir} \<and> t [skills_dir, s] = None
      \<and> t' [skills_dir, s, skill_file] = Some Node_File"
  using assms unfolding safe_write_skill_def mkdir_at_def open_dir_def
  by (auto simp: Let_def split: if_splits option.splits)

text \<open>
  C35. A commit that may be pushed holds the skill file and nothing else: it was written through real
  directories only, into a directory made for it, no existing entry of the worktree was changed, and both
  the staged and the committed names are exactly the skill's path.
\<close>

theorem proposal_commit_contained:
  assumes "commit_verdict lower s ob = Reply True" "safe_write_skill (co_faults ob) s (co_fs ob) = (t', r)"
  shows "r = Written \<and> co_fs ob [skills_dir] \<in> {None, Some Node_Dir} \<and> co_fs ob [skills_dir, s] = None
    \<and> (\<forall>p. t' p \<noteq> co_fs ob p \<longrightarrow> co_fs ob p = None \<and> p \<in> {[skills_dir], [skills_dir, s], [skills_dir, s, skill_file]})
    \<and> staged_paths (co_staged ob) = [skill_path s] \<and> staged_paths (co_show ob) = [skill_path s]"
proof -
  from assms have v: "r = Written" "assert_only_skill_path lower (staged_paths (co_staged ob)) s"
    "assert_only_skill_path lower (staged_paths (co_show ob)) s"
    by (auto simp: commit_verdict_def staged_paths_def split: if_splits write_end.splits option.splits)
  show ?thesis using write_contained(2) [OF assms(2) v(1)] write_contained(1) [OF assms(2)] only_skill_path v by blast
qed

section \<open>A tick that dies\<close>

definition ex_scope :: pytext where "ex_scope = [115]"
definition ex_branch :: pytext where "ex_branch = [120]"

definition ex_env :: env where
  "ex_env = \<lparr>en_now = \<lambda>_. 0, en_closed = \<lambda>_ _. False, en_sighting = \<lambda>_. None,
     en_th = \<lparr>min_recur = 3, min_events = 2, min_authors = 1, repropose_mult = 2\<rparr>,
     en_lower = \<lambda>t. t, en_sha = \<lambda>_. ''d'', en_hit = \<lambda>_ _. False, en_db = \<lambda>_. Db_Ok,
     en_repos = \<lambda>_. Reply (Repos (\<lambda>s. if s = [115] then Some (Entry (Some [47])) else None)),
     en_view = \<lambda>_ _. Reply (Some \<lparr>rv_is_repo = True, rv_nwo = Some [111, 47, 114], rv_default = Some [109]\<rparr>),
     en_list = \<lambda>_. Reply (Some []), en_ref = \<lambda>_. Reply (Some (codes ''1'' @ [9] @ codes ''refs/heads/x'' @ [10])),
     en_commit = \<lambda>_. Raise, en_push = \<lambda>_. Raise, en_create = \<lambda>_. Created_Dead 7, en_close = \<lambda>_. Close_Failed,
     en_state = \<lambda>_. Reply None, en_save = \<lambda>_. Save_Ok, en_load = \<lambda>_. Reply True, en_cursor = \<lambda>_. Reply True,
     en_inbox = \<lambda>_. Reply True, en_cleanup = \<lambda>_. Reply (), en_home = \<lambda>_. ([115], [120]), en_nwo = \<lambda>_. [111, 47, 114]\<rparr>"

lemma ex_env_at [simp]:
  "en_now ex_env = (\<lambda>_. 0)"
  "en_closed ex_env = (\<lambda>_ _. False)"
  "en_sighting ex_env = (\<lambda>_. None)"
  "en_th ex_env = (\<lparr>min_recur = 3, min_events = 2, min_authors = 1, repropose_mult = 2\<rparr>)"
  "en_lower ex_env = (\<lambda>t. t)"
  "en_sha ex_env = (\<lambda>_. ''d'')"
  "en_hit ex_env = (\<lambda>_ _. False)"
  "en_db ex_env = (\<lambda>_. Db_Ok)"
  "en_repos ex_env = (\<lambda>_. Reply (Repos (\<lambda>s. if s = [115] then Some (Entry (Some [47])) else None)))"
  "en_view ex_env = (\<lambda>_ _. Reply (Some \<lparr>rv_is_repo = True, rv_nwo = Some [111, 47, 114], rv_default = Some [109]\<rparr>))"
  "en_list ex_env = (\<lambda>_. Reply (Some []))"
  "en_ref ex_env = (\<lambda>_. Reply (Some (codes ''1'' @ [9] @ codes ''refs/heads/x'' @ [10])))"
  "en_commit ex_env = (\<lambda>_. Raise)"
  "en_push ex_env = (\<lambda>_. Raise)"
  "en_create ex_env = (\<lambda>_. Created_Dead 7)"
  "en_close ex_env = (\<lambda>_. Close_Failed)"
  "en_state ex_env = (\<lambda>_. Reply None)"
  "en_save ex_env = (\<lambda>_. Save_Ok)"
  "en_load ex_env = (\<lambda>_. Reply True)"
  "en_cursor ex_env = (\<lambda>_. Reply True)"
  "en_inbox ex_env = (\<lambda>_. Reply True)"
  "en_cleanup ex_env = (\<lambda>_. Reply ())"
  "en_home ex_env = (\<lambda>_. ([115], [120]))"
  "en_nwo ex_env = (\<lambda>_. [111, 47, 114])"
  by (simp_all add: ex_env_def)

definition ex_row :: candidate_row where
  "ex_row = \<lparr>cc_fp = ''f'', cc_repo = [115], cc_tag = [120], cc_glob = None, cc_state = Ready, cc_branch = None,
     cc_draft = None, cc_pr = None, cc_declines = 0, cc_first = 0, cc_last = 0, cc_proposed_at = None\<rparr>"

definition ex_suspect :: suspect where
  "ex_suspect = \<lparr>su_fp = ''f'', su_scope = [115], su_branch = [120]\<rparr>"

definition ex_world :: pw where
  "ex_world = \<lparr>w_clock = 0, w_store = \<lparr>cands = [ex_row], occs = []\<rparr>, w_sus = Sus_List [ex_suspect], w_cursor = '''',
     w_prs = [], w_log = [], w_inbox = [], w_load = [], l_open = 0, l_opened = 0, l_attempts = 0, l_probes = 0,
     l_seen = [], l_reserved = [], l_sus_ok = True, l_claim = None\<rparr>"

definition ex_cfg :: "bool \<Rightarrow> pconfig" where
  "ex_cfg dry = \<lparr>pc_max_open = 3, pc_ttl = 14, pc_per_tick = 2, pc_probe_cap = 6, pc_reap = 30, pc_dry = dry\<rparr>"

text \<open>Computations are evaluated at a world: a continuation is looked at when it is reached.\<close>

lemma bindp_at: "w = w' \<Longrightarrow> bindp m f w = bindp m f w'" by simp
lemma thenp_at: "w = w' \<Longrightarrow> thenp m n w = thenp m n w'" by simp
lemma catch_at: "w = w' \<Longrightarrow> catch m h w = catch m h w'" by simp

lemma thenp_run: "thenp m n w = bindp m (\<lambda>_. n) w" by (simp add: thenp_def)

lemmas run_at = bindp_at thenp_at catch_at
lemmas run_defs = bindp_def thenp_run catch_def ret_def raise_def gets_def modify_def ask_def reply_def db_def db_read_def
  on_cands_def Let_def others_def claim_def mark_def release_def provenance_def

lemmas tick_eval = propose_tick_def reconcile_def propose_def suspect_pass_def load_suspects_def resolve_suspect_def
  run_defs reap_stuck_proposing_def count_where_def
  list_proposed_def count_open_proposals_def start_locals_def in_flight_def list_inflight_fingerprints_def
  resolve_repo_def view_repo_def effective_probe_cap_def probe_def find_open_bot_pr_def judge_rows_def
  listed_rows_def open_heads_def remote_branch_exists_def ref_listed_def ref_line_def capture_provenance_def
  claim_for_proposing_def cas_def create_pr_for_branch_def opened_pr_def

lemmas dead_eval = tick_eval ex_cfg_def ex_world_def ex_row_def ex_suspect_def head_ref_def codes_def line_break_def
  recover_suspect_def suspect_draft_def last_segment_def draft_of_def render_skill_md_def slug_def tag_re_def tag_form_def
  strip_def lstrip_def is_space_def drop_final_newline_def

lemma ex_tick_prs:
  "w_prs (fst (propose_tick ex_env (ex_cfg False) True True ex_world))
     = [\<lparr>bp_fp = ''f'', bp_nwo = [111, 47, 114], bp_branch = [120], bp_num = 7\<rparr>]"
  by (simp add: dead_eval del: set_map set_filter set_sort cong: run_at)

lemma ex_tick_dead: "snd (propose_tick ex_env (ex_cfg False) True True ex_world) = Dead"
  by (simp add: dead_eval del: set_map set_filter set_sort cong: run_at)

lemma ex_env_ok: "env_ok ex_env"
  by (simp add: env_ok_def)

lemma ex_store_ok: "store_ok ex_env \<lparr>cands = [ex_row], occs = []\<rparr>"
  by (simp add: store_ok_def cap_ok_def cand_ok_def at_home_def ex_row_def slug_def tag_re_def tag_form_def
      strip_def lstrip_def is_space_def drop_final_newline_def Let_def)

lemma ex_books: "books ex_env ex_world"
  by (simp add: books_def ex_world_def ex_store_ok suspects_ok_def covered_by_def unreported_def)
    (simp add: ex_suspect_def)

theorem no_pull_request_lost_witness:
  "let w = fst (propose_tick ex_env (ex_cfg False) True True ex_world);
       p = \<lparr>bp_fp = ''f'', bp_nwo = [111, 47, 114], bp_branch = [120], bp_num = 7\<rparr>
   in snd (propose_tick ex_env (ex_cfg False) True True ex_world) = Dead \<and> p \<in> set (w_prs w)
      \<and> ((\<exists>c \<in> set (cands (w_store w)). cc_fp c = bp_fp p \<and> cc_state c = Proposed \<and> cc_pr c = Some (bp_num p))
         \<or> (\<exists>ss s. w_sus w = Sus_List ss \<and> s \<in> set ss \<and> su_fp s = bp_fp p \<and> su_branch s = bp_branch p)
         \<or> w_sus w = Sus_Damaged \<or> Orphan_PR (bp_branch p) (bp_num p) \<in> set (w_log w))"
proof -
  let ?w = "fst (propose_tick ex_env (ex_cfg False) True True ex_world)"
  have r: "reach (pstep ex_env) ex_world ?w" by (rule reach_step, rule reach_refl, rule tick_step)
  have p: "\<lparr>bp_fp = ''f'', bp_nwo = [111, 47, 114], bp_branch = [120], bp_num = 7\<rparr> \<in> set (w_prs ?w)"
    by (simp add: ex_tick_prs)
  from no_pull_request_lost [OF ex_env_ok ex_books r p] p ex_tick_dead show ?thesis unfolding Let_def by blast
qed

section \<open>A commit\<close>

definition ex_slug :: pytext where "ex_slug = codes ''fail-open''"

lemma ex_slug_ok: "slug (\<lambda>t. t) ex_slug = Some ex_slug"
  by (simp add: ex_slug_def slug_def tag_re_def tag_form_def reserved_names_def name_char_def is_ascii_def
      drop_final_newline_def text_eval Let_def)

definition ex_commit :: commit_obs where
  "ex_commit = \<lparr>co_fetch = True, co_add = True, co_fs = (\<lambda>p. if p = [] then Some Node_Dir else None), co_faults = \<lambda>_. False,
     co_staged = Some (skill_path ex_slug @ [0]), co_commit = True, co_show = Some (skill_path ex_slug @ [0])\<rparr>"

lemma ex_only_path: "assert_only_skill_path (\<lambda>t. t) [skill_path ex_slug] ex_slug"
  by (simp add: assert_only_skill_path_def ex_slug_ok) (simp add: skill_path_def ex_slug_def text_eval)

lemma ex_names: "nul_names (skill_path ex_slug @ [0]) = [skill_path ex_slug]"
  by (simp add: nul_names_def skill_path_def ex_slug_def text_eval)

lemma ex_write: "snd (safe_write_skill (\<lambda>_. False) ex_slug (\<lambda>p. if p = [] then Some Node_Dir else None)) = Written"
  by (simp add: safe_write_skill_def open_dir_def mkdir_at_def Let_def)

lemma ex_commit_ok: "commit_verdict (\<lambda>t. t) ex_slug ex_commit = Reply True"
  by (simp add: commit_verdict_def ex_commit_def ex_write staged_paths_def ex_names ex_only_path)

theorem proposal_commit_contained_witness:
  "commit_verdict (\<lambda>t. t) ex_slug ex_commit = Reply True \<and> co_fs ex_commit [skills_dir, ex_slug] = None
     \<and> staged_paths (co_show ex_commit) = [skill_path ex_slug]"
  using proposal_commit_contained [OF ex_commit_ok, of "fst (safe_write_skill (co_faults ex_commit) ex_slug (co_fs ex_commit))"
      "snd (safe_write_skill (co_faults ex_commit) ex_slug (co_fs ex_commit))"] ex_commit_ok by simp

section \<open>Limits and dry ticks\<close>

theorem pushes_within_limits_witness:
  "\<exists>M. w_load (fst (propose_tick ex_env (ex_cfg False) True True ex_world)) = M \<and> length M \<le> 2 \<and> list_all (\<lambda>x. x < 3) M"
  using pushes_within_limits [OF ex_env_ok ex_books, of "ex_cfg False" True True]
  by (auto simp: ex_cfg_def ex_world_def list_all_iff)

theorem dry_tick_only_waits_witness:
  "\<exists>k. outside (fst (propose_tick ex_env (ex_cfg True) True True ex_world)) = outside ((others ex_env ^^ k) ex_world)"
  using dry_tick_only_waits [of "ex_cfg True" ex_env True True ex_world] by (simp add: ex_cfg_def)

section \<open>The trigger of last resort\<close>

lemma fallback_banned: "is_banned_trigger (codes ''src/**'')"
  by (simp add: is_banned_trigger_def text_eval)

text \<open>
  The fallback trigger \<^verbatim>\<open>src/**\<close> is one that the linter bans, so that no draft is ever rendered with it:
  a ready class without a path glob is skipped by every tick, and the claim of a suspect always carries
  the draft hash \<^verbatim>\<open>unknown\<close>.
\<close>

theorem fallback_trigger_never_renders:
  "render_skill_md lower hit s tag (codes ''src/**'') f = None
    \<and> (cc_glob c \<in> {None, Some []} \<longrightarrow> draft_of e s tag (trigger_of c) scope prov = None)"
  by (auto simp: render_skill_md_def fallback_banned draft_of_def trigger_of_def or_else_def)

theorem fallback_trigger_never_renders_witness:
  "draft_of ex_env ex_slug ex_slug (trigger_of ex_row) [115] [] = None"
  using fallback_trigger_never_renders [of "\<lambda>t. t" "\<lambda>_ _. False" ex_slug ex_slug undefined ex_row ex_env "[115]" "[]"]
  by (simp add: ex_row_def)

end
