(* ===== verification/Pyregex.thy ===== *)
theory Pyregex
  imports Pytext
begin

text \<open>
  The part of Python's \<^verbatim>\<open>re\<close> module the program's patterns use. A pattern is a value of \<open>rx\<close>; \<open>results\<close> lists
  its matches at a position in the order in which backtracking finds them, so that \<^verbatim>\<open>re.match\<close> is the first
  of them and \<^verbatim>\<open>re.search\<close> the first at the leftmost position that has one. A position is the text before it,
  reversed, and the text from it on. Which characters outside ASCII are alphanumeric is an argument \<open>al\<close>.
\<close>

section \<open>Patterns\<close>

datatype rx =
    Chars "nat \<Rightarrow> bool"      \<comment> \<open>one character of a class\<close>
  | Bound                    \<comment> \<open>\<open>\b\<close>\<close>
  | Unless rx                \<comment> \<open>\<open>(?!r)\<close>\<close>
  | Empty
  | Then rx rx
  | Either rx rx
  | Many rx                  \<comment> \<open>\<open>r*\<close>\<close>
  | Few rx                   \<comment> \<open>\<open>r*?\<close>\<close>
  | Group rx                 \<comment> \<open>the capturing group\<close>

type_synonym rxpos = "pytext \<times> pytext \<times> pytext option"

definition word_char :: "(nat \<Rightarrow> bool) \<Rightarrow> nat \<Rightarrow> bool" where
  "word_char al c \<longleftrightarrow> (if c < 128 then (48 \<le> c \<and> c \<le> 57) \<or> (65 \<le> c \<and> c \<le> 90) \<or> (97 \<le> c \<and> c \<le> 122) \<or> c = 95 else al c)"

fun at_word :: "(nat \<Rightarrow> bool) \<Rightarrow> pytext \<Rightarrow> bool" where
  "at_word al [] = False"
| "at_word al (c # s) = word_char al c"

definition shorter :: "rxpos \<Rightarrow> rxpos \<Rightarrow> bool" where
  "shorter p q \<longleftrightarrow> length (fst (snd p)) < length (fst (snd q))"

text \<open>The text between two positions, the later one given first.\<close>

definition taken :: "pytext \<Rightarrow> pytext \<Rightarrow> pytext" where
  "taken b' b = rev (take (length b' - length b) b')"

function results :: "(nat \<Rightarrow> bool) \<Rightarrow> rx \<Rightarrow> rxpos \<Rightarrow> rxpos list" where
  "results al (Chars P) p =
     (case p of (b, a, g) \<Rightarrow> (case a of [] \<Rightarrow> [] | c # a' \<Rightarrow> if P c then [(c # b, a', g)] else []))"
| "results al Bound p = (case p of (b, a, g) \<Rightarrow> if at_word al b \<noteq> at_word al a then [p] else [])"
| "results al (Unless r) p = (case results al r p of [] \<Rightarrow> [p] | _ # _ \<Rightarrow> [])"
| "results al Empty p = [p]"
| "results al (Then r q) p = concat (map (results al q) (results al r p))"
| "results al (Either r q) p = results al r p @ results al q p"
| "results al (Many r) p =
     concat (map (\<lambda>p'. if shorter p' p then results al (Many r) p' else []) (results al r p)) @ [p]"
| "results al (Few r) p =
     p # concat (map (\<lambda>p'. if shorter p' p then results al (Few r) p' else []) (results al r p))"
| "results al (Group r) p =
     (case p of (b, a, g) \<Rightarrow> map (\<lambda>(b', a', g'). (b', a', Some (taken b' b))) (results al r p))"
  by pat_completeness auto
termination
  by (relation "inv_image (measure size <*lex*> measure (\<lambda>p. length (fst (snd p)))) (\<lambda>(al, r, p). (r, p))")
    (auto simp: shorter_def)

text \<open>\<^verbatim>\<open>re.match\<close>, and \<^verbatim>\<open>re.search\<close>, which also returns the text before the match.\<close>

definition rmatch :: "(nat \<Rightarrow> bool) \<Rightarrow> rx \<Rightarrow> pytext \<Rightarrow> rxpos option" where
  "rmatch al r s = (case results al r ([], s, None) of [] \<Rightarrow> None | p # _ \<Rightarrow> Some p)"

fun search_from :: "(nat \<Rightarrow> bool) \<Rightarrow> rx \<Rightarrow> pytext \<Rightarrow> pytext \<Rightarrow> (pytext \<times> rxpos) option" where
  "search_from al r b [] = (case results al r (b, [], None) of [] \<Rightarrow> None | p # _ \<Rightarrow> Some (rev b, p))"
| "search_from al r b (c # a) =
     (case results al r (b, c # a, None) of [] \<Rightarrow> search_from al r (c # b) a | p # _ \<Rightarrow> Some (rev b, p))"

definition rsearch :: "(nat \<Rightarrow> bool) \<Rightarrow> rx \<Rightarrow> pytext \<Rightarrow> (pytext \<times> rxpos) option" where
  "rsearch al r s = search_from al r [] s"

definition matches :: "(nat \<Rightarrow> bool) \<Rightarrow> rx \<Rightarrow> pytext \<Rightarrow> bool" where
  "matches al r s \<longleftrightarrow> rmatch al r s \<noteq> None"

definition occurs :: "(nat \<Rightarrow> bool) \<Rightarrow> rx \<Rightarrow> pytext \<Rightarrow> bool" where
  "occurs al r s \<longleftrightarrow> rsearch al r s \<noteq> None"

text \<open>
  A letter under \<^verbatim>\<open>re.IGNORECASE\<close>: beside the two ASCII cases, \<^verbatim>\<open>i\<close> has the dotted capital and the dotless
  small letter, \<^verbatim>\<open>s\<close> the long s and \<^verbatim>\<open>k\<close> the Kelvin sign.
\<close>

definition ign :: "nat \<Rightarrow> nat \<Rightarrow> bool" where
  "ign l c \<longleftrightarrow> ascii_lower l = ascii_lower c \<or> (ascii_lower l = 105 \<and> (c = 304 \<or> c = 305))
     \<or> (ascii_lower l = 115 \<and> c = 383) \<or> (ascii_lower l = 107 \<and> c = 8490)"

primrec seqs :: "rx list \<Rightarrow> rx" where
  "seqs [] = Empty"
| "seqs (r # rs) = (if rs = [] then r else Then r (seqs rs))"

primrec alts :: "rx list \<Rightarrow> rx" where
  "alts [] = Unless Empty"
| "alts (r # rs) = (if rs = [] then r else Either r (alts rs))"

primrec lits :: "pytext \<Rightarrow> rx" where
  "lits [] = Empty"
| "lits (l # ls) = Then (Chars (ign l)) (lits ls)"

definition kw :: "string \<Rightarrow> rx" where
  "kw w = lits (codes w)"

definition opt :: "rx \<Rightarrow> rx" where
  "opt r = Either r Empty"

definition plus :: "rx \<Rightarrow> rx" where
  "plus r = Then r (Many r)"

abbreviation spaces :: rx where "spaces \<equiv> plus (Chars is_space)"
abbreviation spaces0 :: rx where "spaces0 \<equiv> Many (Chars is_space)"
abbreviation nonspace :: rx where "nonspace \<equiv> plus (Chars (\<lambda>c. \<not> is_space c))"

text \<open>Words with white space between them, \<^verbatim>\<open>A\s+B\s+C\<close>, and between word boundaries.\<close>

fun kws :: "string list \<Rightarrow> rx" where
  "kws [] = Empty"
| "kws [w] = kw w"
| "kws (w # v # ws) = Then (kw w) (Then spaces (kws (v # ws)))"

definition phrase :: "string list \<Rightarrow> rx" where
  "phrase ws = Then Bound (Then (kws ws) Bound)"

definition starts :: "string list \<Rightarrow> rx" where
  "starts ws = Then (kws ws) Bound"

section \<open>What a match is\<close>

text \<open>
  The declarative meaning of a pattern, a relation between positions: repetition is a closure and no order
  of preference is left. \<open>results\<close> lists exactly the related positions.
\<close>

primrec denotes :: "(nat \<Rightarrow> bool) \<Rightarrow> rx \<Rightarrow> (rxpos \<times> rxpos) set" where
  "denotes al (Chars P) = {((b, c # a, g), (c # b, a, g)) | b c a g. P c}"
| "denotes al Bound = {((b, a, g), (b, a, g)) | b a g. at_word al b \<noteq> at_word al a}"
| "denotes al (Unless r) = {(p, p) | p. p \<notin> Domain (denotes al r)}"
| "denotes al Empty = Id"
| "denotes al (Then r q) = denotes al r O denotes al q"
| "denotes al (Either r q) = denotes al r \<union> denotes al q"
| "denotes al (Many r) = (denotes al r \<inter> {(p, q). shorter q p})\<^sup>*"
| "denotes al (Few r) = (denotes al r \<inter> {(p, q). shorter q p})\<^sup>*"
| "denotes al (Group r) = {((b, a, g), (b', a', Some (taken b' b))) | b a g b' a' g'. ((b, a, g), (b', a', g')) \<in> denotes al r}"

declare results.simps(7,8) [simp del]

lemma progress_closure:
  "(p, q) \<in> (R \<inter> S)\<^sup>* \<longleftrightarrow> q = p \<or> (\<exists>p'. (p, p') \<in> R \<and> (p, p') \<in> S \<and> (p', q) \<in> (R \<inter> S)\<^sup>*)"
  by (auto elim: converse_rtranclE intro: converse_rtrancl_into_rtrancl)

lemma set_repeat:
  assumes "\<And>p'. p' \<in> set xs \<longleftrightarrow> (p, p') \<in> R"
    and "\<And>p' q. p' \<in> set xs \<Longrightarrow> shorter p' p \<Longrightarrow> q \<in> set (f p') \<longleftrightarrow> (p', q) \<in> (R \<inter> {(p, q). shorter q p})\<^sup>*"
  shows "q = p \<or> q \<in> set (concat (map (\<lambda>p'. if shorter p' p then f p' else []) xs))
    \<longleftrightarrow> (p, q) \<in> (R \<inter> {(p, q). shorter q p})\<^sup>*"
proof -
  have "q \<in> set (concat (map (\<lambda>p'. if shorter p' p then f p' else []) xs))
      \<longleftrightarrow> (\<exists>p' \<in> set xs. shorter p' p \<and> q \<in> set (f p'))" by auto
  also have "\<dots> \<longleftrightarrow> (\<exists>p'. (p, p') \<in> R \<and> shorter p' p \<and> (p', q) \<in> (R \<inter> {(p, q). shorter q p})\<^sup>*)"
    using assms by blast
  finally show ?thesis using progress_closure [of p q R "{(p, q). shorter q p}"] by simp
qed

lemma set_results: "q \<in> set (results al r p) \<longleftrightarrow> (p, q) \<in> denotes al r"
proof (induction al r p arbitrary: q rule: results.induct)
  case (3 al r p)
  have "p \<in> Domain (denotes al r) \<longleftrightarrow> (\<exists>q. q \<in> set (results al r p))" by (simp only: Domain_iff 3)
  then have "p \<in> Domain (denotes al r) \<longleftrightarrow> results al r p \<noteq> []" by (cases "results al r p") auto
  then show ?case by (cases p) (auto split: list.split)
next
  case (7 al r p)
  have "q = p \<or> q \<in> set (concat (map (\<lambda>p'. if shorter p' p then results al (Many r) p' else []) (results al r p)))
    \<longleftrightarrow> (p, q) \<in> (denotes al r \<inter> {(p, q). shorter q p})\<^sup>*"
    by (rule set_repeat) (use 7 in simp_all)
  then show ?case by (subst results.simps(7)) auto
next
  case (8 al r p)
  have "q = p \<or> q \<in> set (concat (map (\<lambda>p'. if shorter p' p then results al (Few r) p' else []) (results al r p)))
    \<longleftrightarrow> (p, q) \<in> (denotes al r \<inter> {(p, q). shorter q p})\<^sup>*"
    by (rule set_repeat) (use 8 in simp_all)
  then show ?case by (subst results.simps(8)) simp
next
  case (9 al r p)
  obtain b a g where p: "p = (b, a, g)" by (cases p)
  have "\<And>q. q \<in> set (results al r (b, a, g)) \<longleftrightarrow> ((b, a, g), q) \<in> denotes al r" using 9 p by simp
  then show ?case unfolding p by (simp only: results.simps prod.case set_map image_iff denotes.simps) force
qed (auto split: list.splits prod.splits)

section \<open>Matching words and runs\<close>

lemma results_assoc: "results al (Then (Then r q) w) p = results al (Then r (Then q w)) p"
proof -
  have "concat (map f (concat (map h xs))) = concat (map (\<lambda>x. concat (map f (h x))) xs)" for f h xs
    by (induction xs) simp_all
  moreover have "results al (Then q w) = (\<lambda>x. concat (map (results al w) (results al q x)))" by (rule ext) simp
  ultimately show ?thesis by simp
qed

lemma many_chars [simp]:
  "results al (Many (Chars P)) (b, [], g) = [(b, [], g)]"
  "results al (Many (Chars P)) (b, c # a, g) =
     (if P c then results al (Many (Chars P)) (c # b, a, g) @ [(b, c # a, g)] else [(b, c # a, g)])"
  by (simp_all add: results.simps(7) shorter_def)

lemma results_lits:
  "results al (lits ls) (b, a, g) =
     (if list_all2 ign ls (take (length ls) a) then [(rev (take (length ls) a) @ b, drop (length ls) a, g)] else [])"
proof (induction ls arbitrary: b a)
  case (Cons l ls)
  then show ?case by (cases a) auto
qed simp

lemma ign_unique:
  assumes "ign l c" "ign m c" "l < 128" "m < 128"
  shows "ascii_lower l = ascii_lower m"
proof -
  have lower: "ascii_lower x < 128" if "x < 128" for x using that by (simp add: ascii_lower_def)
  have big: "ascii_lower c = c" if "128 \<le> c" using that by (simp add: ascii_lower_def)
  from lower [OF assms(3)] lower [OF assms(4)] assms(1,2) big show ?thesis
    unfolding ign_def by (cases "c < 128") auto
qed

end
