(* ===== verification/Migration_Lint.thy ===== *)
theory Migration_Lint
  imports Pyregex Outcomes
begin

text \<open>
  \<^verbatim>\<open>substrate/migration_lint.py\<close>: the gate that lets only additive migrations deploy by themselves. The scanner
  \<open>normalize\<close> replaces comments, strings and quoted identifiers, \<open>is_additive\<close> is the allowlist of statement
  shapes, \<open>lint_file\<close> walks the statements of a file in order, and \<open>lint_main\<close> is the command with its
  exit codes. The text of a file is what \<^verbatim>\<open>read_text\<close> returns; the file system is the record \<open>fs\<close>.
\<close>

section \<open>Patterns\<close>

definition ADD_COL_RE :: rx where
  "ADD_COL_RE = phrase [''ADD'', ''COLUMN'']"

definition NOT_NULL_RE :: rx where
  "NOT_NULL_RE = phrase [''NOT'', ''NULL'']"

definition DEFAULT_RE :: rx where
  "DEFAULT_RE = phrase [''DEFAULT'']"

definition GENERATED_RE :: rx where
  "GENERATED_RE = seqs [Bound, kw ''GENERATED'', spaces, alts [kw ''ALWAYS'', kws [''BY'', ''DEFAULT'']], Bound]"

definition ALTER_TABLE_RE :: rx where
  "ALTER_TABLE_RE = phrase [''ALTER'', ''TABLE'']"

definition ADD_TIGHTENING_RE :: rx where
  "ADD_TIGHTENING_RE = seqs [Bound, kw ''ADD'', spaces, opt (seqs [kw ''CONSTRAINT'', spaces, nonspace, spaces]),
     alts [kw ''CHECK'', kw ''UNIQUE'', kws [''PRIMARY'', ''KEY''], kws [''FOREIGN'', ''KEY''], kw ''EXCLUDE''], Bound]"

text \<open>Used at the start of a statement only.\<close>

definition DYNAMIC_DDL_RE :: rx where
  "DYNAMIC_DDL_RE = Then (alts [kw ''DO'', kw ''EXECUTE'', kw ''CALL'']) Bound"

definition or_replace :: rx where
  "or_replace = opt (seqs [kw ''OR'', spaces, kw ''REPLACE'', spaces])"

definition CREATE_ROUTINE_RE :: rx where
  "CREATE_ROUTINE_RE = seqs [Bound, kw ''CREATE'', spaces, or_replace, alts [kw ''FUNCTION'', kw ''PROCEDURE''], Bound]"

definition CREATE_BEHAVIORAL_RE :: rx where
  "CREATE_BEHAVIORAL_RE = seqs [Bound, kw ''CREATE'', spaces, or_replace, opt (Then (kw ''CONSTRAINT'') spaces),
     alts [kw ''RULE'', kw ''TRIGGER''], Bound]"

definition DROP_ROUTINE_RE :: rx where
  "DROP_ROUTINE_RE = seqs [Bound, kw ''DROP'', spaces,
     alts [kw ''FUNCTION'', kw ''PROCEDURE'', kw ''ROUTINE'', kw ''RULE'', kw ''TRIGGER''], Bound]"

definition new_kinds :: rx where
  "new_kinds = Many (alts [Then (kw ''GLOBAL'') spaces, Then (kw ''LOCAL'') spaces,
     seqs [kw ''TEMP'', opt (kw ''ORARY''), spaces], Then (kw ''UNLOGGED'') spaces])"

definition ADDITIVE_CREATE_RE :: rx where
  "ADDITIVE_CREATE_RE = seqs [kw ''CREATE'', spaces, new_kinds,
     alts [kw ''TABLE'', kw ''SEQUENCE'', kw ''SCHEMA'', kw ''VIEW'', kws [''MATERIALIZED'', ''VIEW''], kw ''EXTENSION'',
       kw ''DOMAIN'', kw ''TYPE'', kw ''COLLATION'', kw ''STATISTICS'', kw ''INDEX''], Bound]"

definition NULL_DEFAULT_RE :: rx where
  "NULL_DEFAULT_RE = seqs [Bound, kw ''DEFAULT'', spaces0,
     Many (Either (Then (kw ''('') spaces0) (seqs [kw ''CAST'', spaces0, kw ''('', spaces0])), kw ''NULL'', Bound]"

definition DBLINK_RE :: rx where
  "DBLINK_RE = Then Bound (kw ''dblink'')"

text \<open>A relation name as the patterns capture it: \<^verbatim>\<open>([^\s(*]+)\<close>.\<close>

definition rel_char :: "nat \<Rightarrow> bool" where
  "rel_char c \<longleftrightarrow> \<not> is_space c \<and> c \<noteq> 40 \<and> c \<noteq> 42"

definition name_rx :: rx where
  "name_rx = Group (plus (Chars rel_char))"

definition CREATE_TABLE_NAME_RE :: rx where
  "CREATE_TABLE_NAME_RE = seqs [kw ''CREATE'', spaces, new_kinds, kw ''TABLE'', spaces,
     Unless (Then (kws [''IF'', ''NOT'', ''EXISTS'']) Bound), name_rx]"

definition LINK_RE :: rx where
  "LINK_RE = alts [phrase [''ATTACH'', ''PARTITION''], phrase [''INHERIT''], phrase [''PARTITION'', ''OF'']]"

text \<open>The tag of a dollar quote: a letter, an underscore or any character outside ASCII, then also digits.\<close>

definition DOLLAR_OPEN :: rx where
  "DOLLAR_OPEN = seqs [Chars (\<lambda>c. c = 36),
     Group (Either (Then (Chars (\<lambda>c. word_char (\<lambda>_. True) c \<and> \<not> (48 \<le> c \<and> c \<le> 57))) (Many (Chars (word_char (\<lambda>_. True))))) Empty),
     Chars (\<lambda>c. c = 36)]"

section \<open>The scanner\<close>

definition ident_char :: "nat \<Rightarrow> bool" where
  "ident_char c \<longleftrightarrow> word_char (\<lambda>_. True) c \<or> c = 36"

text \<open>
  How far a token reaches, counted from behind its opening. A string ends at a single quote that is not
  doubled; in an \<^verbatim>\<open>E''\<close> string a backslash also escapes the next character.
\<close>

fun scan_quoted :: "bool \<Rightarrow> pytext \<Rightarrow> nat" where
  "scan_quoted escape [] = 0"
| "scan_quoted escape (ch # s) =
     (if escape \<and> ch = 92 then (case s of [] \<Rightarrow> 1 | _ # s' \<Rightarrow> 2 + scan_quoted escape s')
      else if ch = 39 then
        (case s of [] \<Rightarrow> 1 | d # s' \<Rightarrow> if d = 39 then 2 + scan_quoted escape s' else 1)
      else 1 + scan_quoted escape s)"

fun scan_ident :: "pytext \<Rightarrow> nat" where
  "scan_ident [] = 0"
| "scan_ident (ch # s) =
     (if ch = 34 then (case s of [] \<Rightarrow> 1 | d # s' \<Rightarrow> if d = 34 then 2 + scan_ident s' else 1)
      else 1 + scan_ident s)"

fun scan_block :: "nat \<Rightarrow> pytext \<Rightarrow> nat" where
  "scan_block 0 s = 0"
| "scan_block (Suc d) [] = 0"
| "scan_block (Suc d) [c] = 1"
| "scan_block (Suc d) (c # e # s) =
     (if c = 47 \<and> e = 42 then 2 + scan_block (Suc (Suc d)) s
      else if c = 42 \<and> e = 47 then 2 + scan_block d s
      else 1 + scan_block (Suc d) (e # s))"

definition scan_line :: "pytext \<Rightarrow> nat" where
  "scan_line s = length (takeWhile (\<lambda>c. c \<noteq> 13 \<and> c \<noteq> 10) s)"

text \<open>The length of a dollar-quoted string that starts here, if one does.\<close>

definition scan_dollar :: "pytext \<Rightarrow> nat option" where
  "scan_dollar s =
     (case rmatch (\<lambda>_. True) DOLLAR_OPEN s of
        Some (b, a, Some tag) \<Rightarrow>
          (case split_first (36 # tag @ [36]) a of
             Some (body, _) \<Rightarrow> Some (length b + length body + length tag + 2)
           | None \<Rightarrow> None)
      | _ \<Rightarrow> None)"

definition hexdigit :: "nat \<Rightarrow> nat option" where
  "hexdigit c = (if 48 \<le> c \<and> c \<le> 57 then Some (c - 48) else if 65 \<le> c \<and> c \<le> 70 then Some (c - 55)
     else if 97 \<le> c \<and> c \<le> 102 then Some (c - 87) else None)"

fun hexnum :: "nat \<Rightarrow> pytext \<Rightarrow> nat option" where
  "hexnum acc [] = Some acc"
| "hexnum acc (c # s) = (case hexdigit c of None \<Rightarrow> None | Some d \<Rightarrow> hexnum (16 * acc + d) s)"

definition hex_head :: "nat \<Rightarrow> pytext \<Rightarrow> nat option" where
  "hex_head n s = (if length s < n then None else hexnum 0 (take n s))"

text \<open>A number beyond the last code point is dropped, as \<^verbatim>\<open>chr\<close> raises on it.\<close>

function decode_uescape :: "pytext \<Rightarrow> pytext" where
  "decode_uescape [] = []"
| "decode_uescape (c # s) =
     (if c \<noteq> 92 then c # decode_uescape s
      else case s of
        [] \<Rightarrow> [92]
      | d # s' \<Rightarrow>
          if d = 92 then 92 # decode_uescape s'
          else (case (if d = 43 then hex_head 6 s' else None) of
            Some x \<Rightarrow> (if x \<le> 1114111 then [x] else []) @ decode_uescape (drop 6 s')
          | None \<Rightarrow>
              (case hex_head 4 s of
                 Some x \<Rightarrow> x # decode_uescape (drop 4 s)
               | None \<Rightarrow> 92 # decode_uescape s)))"
  by pat_completeness auto
termination
  by (relation "measure length") auto

fun undouble :: "pytext \<Rightarrow> pytext" where
  "undouble (c # d # s) = (if c = 34 \<and> d = 34 then 34 # undouble s else c # undouble (d # s))"
| "undouble s = s"

text \<open>
  One turn of the scanner's loop at a position: what it writes, and how many characters it passes.
  The text before the position is reversed.
\<close>

definition fresh_token :: "pytext \<Rightarrow> bool" where
  "fresh_token b \<longleftrightarrow> \<not> (b \<noteq> [] \<and> ident_char (hd b))"

definition spaced_mark :: "string \<Rightarrow> pytext" where
  "spaced_mark w = 32 # codes w @ [32]"

definition scan_turn :: "bool \<Rightarrow> pytext \<Rightarrow> pytext \<Rightarrow> pytext \<times> nat" where
  "scan_turn keep_quoted b a =
     (let c = hd a in
      if prefix (codes ''--'') a then ([32], 2 + scan_line (drop 2 a))
      else if prefix (codes ''/*'') a then ([32], 2 + scan_block 1 (drop 2 a))
      else if c = 36 \<and> fresh_token b then
        (case scan_dollar a of Some n \<Rightarrow> (spaced_mark [CHR 39, CHR 39], n) | None \<Rightarrow> ([c], 1))
      else if (c = 69 \<or> c = 101) \<and> prefix [39] (drop 1 a) \<and> fresh_token b then
        (spaced_mark [CHR 39, CHR 39], 2 + scan_quoted True (drop 2 a))
      else if c = 39 then (spaced_mark [CHR 39, CHR 39], 1 + scan_quoted False (drop 1 a))
      else if (c = 85 \<or> c = 117) \<and> prefix [38, 34] (drop 1 a) \<and> fresh_token b then
        (let n = scan_ident (drop 3 a) in
         (if keep_quoted then 32 # decode_uescape (undouble (take (n - 1) (drop 3 a))) @ [32] else spaced_mark ''qi'', 3 + n))
      else if c = 34 then
        (let n = scan_ident (drop 1 a) in
         (if keep_quoted then 32 # undouble (take (n - 1) (drop 1 a)) @ [32] else spaced_mark ''qi'', 1 + n))
      else ([c], 1))"

lemma scan_turn_moves: "0 < snd (scan_turn keep_quoted b a)"
  by (auto simp: scan_turn_def Let_def scan_dollar_def split: option.splits prod.splits)

function scan :: "bool \<Rightarrow> pytext \<Rightarrow> pytext \<Rightarrow> pytext" where
  "scan keep_quoted b a =
     (if a = [] then []
      else case scan_turn keep_quoted b a of
        (out, n) \<Rightarrow> out @ scan keep_quoted (rev (take n a) @ b) (drop n a))"
  by pat_completeness auto
termination
proof (relation "measure (\<lambda>(k, b, a). length a)", goal_cases)
  case (2 keep_quoted b a out n)
  then have "0 < n" using scan_turn_moves [of keep_quoted b a] by (metis snd_conv)
  then show ?case using 2 by simp
qed simp

declare scan.simps [simp del]

text \<open>White space around a dot is removed.\<close>

function sub_dots :: "pytext \<Rightarrow> pytext" where
  "sub_dots [] = []"
| "sub_dots (c # s) =
     (if prefix [46] (dropWhile is_space (c # s))
      then 46 # sub_dots (dropWhile is_space (drop 1 (dropWhile is_space (c # s))))
      else c # sub_dots s)"
  by pat_completeness auto
termination
proof (relation "measure length", goal_cases)
  case (2 c s)
  have "length (dropWhile is_space (drop 1 (dropWhile is_space (c # s)))) \<le> length (drop 1 (dropWhile is_space (c # s)))"
    by (rule length_dropWhile_le)
  also have "\<dots> < length (dropWhile is_space (c # s))" using 2 by (cases "dropWhile is_space (c # s)") auto
  also have "\<dots> \<le> length (c # s)" by (rule length_dropWhile_le)
  finally show ?case by simp
qed simp_all

definition normalize :: "bool \<Rightarrow> pytext \<Rightarrow> pytext" where
  "normalize keep_quoted sql = sub_dots (sub_space False (scan keep_quoted [] sql))"

section \<open>Clauses\<close>

text \<open>The loop over a statement: the depth of parentheses, the clause so far (reversed) and the rest.\<close>

fun clauses_from :: "nat \<Rightarrow> pytext \<Rightarrow> pytext \<Rightarrow> pytext list" where
  "clauses_from depth cur [] = [rev cur]"
| "clauses_from depth cur (ch # s) =
     (let d = (if ch = 40 then depth + 1 else if ch = 41 then depth - 1 else depth) in
      if ch = 44 \<and> d = 0 then rev cur # clauses_from d [] s else clauses_from d (ch # cur) s)"

definition top_level_clauses :: "pytext \<Rightarrow> pytext list" where
  "top_level_clauses stmt = clauses_from 0 [] stmt"

definition additive_alter_table_clause :: "(nat \<Rightarrow> bool) \<Rightarrow> pytext \<Rightarrow> bool" where
  "additive_alter_table_clause al clause =
     (let c = strip clause in
      if matches al (starts [''ADD'', ''COLUMN'']) c then
        if occurs al (seqs [Bound, alts [kws [''PRIMARY'', ''KEY''], kw ''UNIQUE'', kw ''CHECK'', kw ''REFERENCES''], Bound]) c
        then False
        else if occurs al NOT_NULL_RE c \<and> \<not> occurs al GENERATED_RE c
          \<and> (\<not> occurs al DEFAULT_RE c \<or> occurs al NULL_DEFAULT_RE c) then False
        else True
      else if matches al (starts [''INHERIT'']) c then True
      else occurs al (phrase [''SET'', ''DEFAULT'']) c \<and> \<not> occurs al NULL_DEFAULT_RE c)"

section \<open>Names\<close>

definition target_after_on :: "(nat \<Rightarrow> bool) \<Rightarrow> pytext \<Rightarrow> pytext option" where
  "target_after_on al s =
     (case rsearch al (seqs [Bound, kw ''ON'', spaces, opt (Then (kw ''ONLY'') spaces), name_rx]) s of
        Some (_, _, _, g) \<Rightarrow> g | None \<Rightarrow> None)"

definition resolvable_table :: "pytext \<Rightarrow> bool" where
  "resolvable_table name \<longleftrightarrow> name \<noteq> codes ''qi'' \<and> codes ''qi'' \<notin> set (split_on 46 name)"

definition utf8_len :: "nat \<Rightarrow> nat" where
  "utf8_len c = (if c < 128 then 1 else if c < 2048 then 2 else if c < 65536 then 3 else 4)"

text \<open>
  The first \<open>n\<close> bytes of the encoding, decoded without the character that is cut in the middle: the
  characters whose encodings fit.
\<close>

fun fit_bytes :: "nat \<Rightarrow> pytext \<Rightarrow> pytext" where
  "fit_bytes n [] = []"
| "fit_bytes n (c # s) = (if utf8_len c \<le> n then c # fit_bytes (n - utf8_len c) s else [])"

definition pg_fold :: "pytext \<Rightarrow> pytext" where
  "pg_fold ident = fit_bytes 63 (map ascii_lower ident)"

definition new_this_deploy :: "pytext \<Rightarrow> pytext set \<Rightarrow> pytext set option \<Rightarrow> bool" where
  "new_this_deploy name created prev_objects =
     (if \<not> resolvable_table name then False
      else case prev_objects of
        Some prev \<Rightarrow> pg_fold (last (split_on 46 name)) \<notin> prev
      | None \<Rightarrow> name \<in> created)"

section \<open>The allowlist\<close>

definition VIEW_NAME_RE :: rx where
  "VIEW_NAME_RE = seqs [kws [''CREATE'', ''OR'', ''REPLACE''], spaces, opt (Then (kw ''MATERIALIZED'') spaces), kw ''VIEW'', spaces,
     opt (Then (kws [''IF'', ''NOT'', ''EXISTS'']) spaces), name_rx]"

definition UNIQUE_INDEX_RE :: "(nat \<Rightarrow> bool) \<Rightarrow> rx" where
  "UNIQUE_INDEX_RE al = seqs [kw ''CREATE'', spaces, Few (Then (plus (Chars (word_char al))) spaces), kws [''UNIQUE'', ''INDEX''], Bound]"

definition PARTITION_OF_RE :: rx where
  "PARTITION_OF_RE = seqs [Bound, kws [''PARTITION'', ''OF''], spaces, name_rx]"

definition ALTER_TARGET_RE :: rx where
  "ALTER_TARGET_RE = seqs [kws [''ALTER'', ''TABLE''], spaces, opt (Then (kws [''IF'', ''EXISTS'']) spaces),
     opt (Then (kw ''ONLY'') spaces), name_rx, spaces0, opt (Chars (\<lambda>c. c = 42)), spaces]"

definition ATTACH_RE :: rx where
  "ATTACH_RE = seqs [kws [''ATTACH'', ''PARTITION''], spaces, name_rx]"

definition create_additive :: "(nat \<Rightarrow> bool) \<Rightarrow> pytext set \<Rightarrow> pytext set option \<Rightarrow> bool \<Rightarrow> pytext \<Rightarrow> bool" where
  "create_additive al created prev linked s =
     (if matches al (starts [''CREATE'', ''OR'', ''REPLACE'']) s then
        (case rmatch al VIEW_NAME_RE s of
           Some (_, _, Some n) \<Rightarrow> new_this_deploy n created prev
         | _ \<Rightarrow> False)
      else if matches al (UNIQUE_INDEX_RE al) s then
        (case target_after_on al s of
           Some t \<Rightarrow> \<not> linked \<and> new_this_deploy t created prev
         | None \<Rightarrow> False)
      else
        (case rsearch al PARTITION_OF_RE s of
           Some (_, _, _, Some n) \<Rightarrow> new_this_deploy n created prev
         | _ \<Rightarrow> True)
        \<and> matches al ADDITIVE_CREATE_RE s)"

definition alter_table_additive :: "(nat \<Rightarrow> bool) \<Rightarrow> pytext set \<Rightarrow> pytext set option \<Rightarrow> bool \<Rightarrow> pytext \<Rightarrow> bool" where
  "alter_table_additive al created prev linked s =
     (case rmatch al ALTER_TARGET_RE s of
        Some (_, rest, Some n) \<Rightarrow>
          (case rmatch al ATTACH_RE rest of
             Some (_, _, Some child) \<Rightarrow> new_this_deploy n created prev \<and> new_this_deploy child created prev
           | _ \<Rightarrow>
               if \<not> linked \<and> new_this_deploy n created prev then True
               else list_all (additive_alter_table_clause al) (top_level_clauses rest))
      | _ \<Rightarrow> False)"

definition alter_type_additive :: "(nat \<Rightarrow> bool) \<Rightarrow> pytext \<Rightarrow> bool" where
  "alter_type_additive al s =
     (case rmatch al (seqs [kws [''ALTER'', ''TYPE''], spaces, opt (Then (kws [''IF'', ''EXISTS'']) spaces), nonspace, spaces]) s of
        Some (_, rest, _) \<Rightarrow>
          list_all (\<lambda>c. matches al (seqs [kw ''ADD'', spaces, alts [kw ''VALUE'', kw ''ATTRIBUTE''], Bound]) (strip c))
            (top_level_clauses rest)
      | None \<Rightarrow> False)"

definition FROM_RE :: rx where
  "FROM_RE = phrase [''FROM'']"

definition select_additive :: "(nat \<Rightarrow> bool) \<Rightarrow> pytext \<Rightarrow> bool" where
  "select_additive al s =
     (if \<not> occurs al (seqs [Bound, kw ''FOR'', spaces,
            alts [kw ''UPDATE'', kw ''SHARE'', kws [''NO'', ''KEY'', ''UPDATE''], kws [''KEY'', ''SHARE'']], Bound]) s then False
      else 40 \<notin> set (case rsearch al FROM_RE s of Some (before, _) \<Rightarrow> before | None \<Rightarrow> s))"

definition is_additive :: "(nat \<Rightarrow> bool) \<Rightarrow> bool \<Rightarrow> pytext set \<Rightarrow> pytext set option \<Rightarrow> bool \<Rightarrow> pytext \<Rightarrow> bool" where
  "is_additive al allow_routine created prev linked stmt =
     (let s = strip stmt in
      if s = [] then True
      else if occurs al DBLINK_RE s then False
      else if allow_routine \<and> (occurs al CREATE_ROUTINE_RE s \<or> occurs al CREATE_BEHAVIORAL_RE s \<or> occurs al DROP_ROUTINE_RE s)
      then True
      else if matches al (starts [''CREATE'']) s then create_additive al created prev linked s
      else if matches al (starts [''ALTER'', ''TABLE'']) s then alter_table_additive al created prev linked s
      else if matches al (starts [''ALTER'', ''TYPE'']) s then alter_type_additive al s
      else if matches al (starts [''COMMENT'', ''ON'']) s then True
      else if matches al (Then (Either (kws [''INSERT'', ''INTO'']) (kw ''UPDATE'')) Bound) s
      then \<not> occurs al (phrase [''RETURNING'']) s
      else if matches al (starts [''SELECT'']) s then select_additive al s
      else False)"

section \<open>Reasons\<close>

datatype why = Dynamic_Ddl | Create_Routine | Create_Behavioral | Drop_Routine | Truncate | Drop_Table | Drop_View
  | Drop_Sequence | Drop_Constraint | Drop_Attribute | Drop_Column | Drop_Default | Detach_Partition | No_Inherit
  | Restart_Sequence | Unique_Index | Set_Default_Null | Set_Generated | Rename_Value | Rename_Column | Rename_Table
  | Type_Change | Set_Not_Null | Add_Constraint | Add_Not_Null | Not_Provably_Additive

definition add_column_not_null_no_default :: "(nat \<Rightarrow> bool) \<Rightarrow> pytext \<Rightarrow> bool" where
  "add_column_not_null_no_default al stmt =
     (if \<not> occurs al ADD_COL_RE stmt then False
      else list_ex (\<lambda>c. occurs al ADD_COL_RE c \<and> occurs al NOT_NULL_RE c \<and> \<not> occurs al DEFAULT_RE c \<and> \<not> occurs al GENERATED_RE c)
        (top_level_clauses stmt))"

definition drop_column :: "(nat \<Rightarrow> bool) \<Rightarrow> pytext \<Rightarrow> bool" where
  "drop_column al stmt =
     (if \<not> occurs al ALTER_TABLE_RE stmt then False
      else if occurs al (phrase [''DROP'', ''COLUMN'']) stmt then True
      else occurs al (seqs [Bound, kw ''DROP'', spaces, opt (Then (kws [''IF'', ''EXISTS'']) spaces),
        Unless (starts [''NOT'', ''NULL'']), Chars (\<lambda>c. \<not> is_space c)]) stmt)"

definition drop_default :: "(nat \<Rightarrow> bool) \<Rightarrow> pytext \<Rightarrow> bool" where
  "drop_default al stmt \<longleftrightarrow> occurs al ALTER_TABLE_RE stmt \<and> occurs al (phrase [''DROP'', ''DEFAULT'']) stmt"

definition add_constraint_tightening :: "(nat \<Rightarrow> bool) \<Rightarrow> pytext \<Rightarrow> bool" where
  "add_constraint_tightening al stmt =
     (if \<not> occurs al ALTER_TABLE_RE stmt then False
      else list_ex (occurs al ADD_TIGHTENING_RE) (top_level_clauses stmt))"

definition routine_rules :: "why list" where
  "routine_rules = [Create_Routine, Create_Behavioral, Drop_Routine]"

definition RULES :: "(nat \<Rightarrow> bool) \<Rightarrow> ((pytext \<Rightarrow> bool) \<times> why) list" where
  "RULES al =
     [(matches al DYNAMIC_DDL_RE, Dynamic_Ddl),
      (occurs al CREATE_ROUTINE_RE, Create_Routine),
      (occurs al CREATE_BEHAVIORAL_RE, Create_Behavioral),
      (occurs al DROP_ROUTINE_RE, Drop_Routine),
      (occurs al (phrase [''TRUNCATE'']), Truncate),
      (occurs al (phrase [''DROP'', ''TABLE'']), Drop_Table),
      (occurs al (seqs [Bound, kw ''DROP'', spaces, alts [kws [''MATERIALIZED'', ''VIEW''], kw ''VIEW''], Bound]), Drop_View),
      (occurs al (seqs [Bound, kw ''DROP'', spaces, alts [kw ''SEQUENCE'', kw ''SCHEMA'', kw ''TYPE''], Bound]), Drop_Sequence),
      (occurs al (phrase [''DROP'', ''CONSTRAINT'']), Drop_Constraint),
      (occurs al (phrase [''DROP'', ''ATTRIBUTE'']), Drop_Attribute),
      (drop_column al, Drop_Column),
      (drop_default al, Drop_Default),
      (occurs al (phrase [''DETACH'', ''PARTITION'']), Detach_Partition),
      (occurs al (phrase [''NO'', ''INHERIT'']), No_Inherit),
      (occurs al (seqs [phrase [''ALTER'', ''SEQUENCE''], Many (Chars (\<lambda>c. c \<noteq> 10)), phrase [''RESTART'']]), Restart_Sequence),
      (occurs al (phrase [''CREATE'', ''UNIQUE'', ''INDEX'']), Unique_Index),
      (occurs al (seqs [Bound, kws [''SET'', ''DEFAULT''], spaces, opt (kw ''(''), spaces0, kw ''NULL'', Bound]), Set_Default_Null),
      (occurs al (phrase [''SET'', ''GENERATED'', ''ALWAYS'']), Set_Generated),
      (occurs al (phrase [''RENAME'', ''VALUE'']), Rename_Value),
      (occurs al (seqs [Bound, kw ''RENAME'', spaces,
         opt (alts [Then (kw ''COLUMN'') spaces, Then (kw ''CONSTRAINT'') spaces, Then (kw ''ATTRIBUTE'') spaces]),
         nonspace, spaces, kw ''TO'', Bound]), Rename_Column),
      (occurs al (phrase [''RENAME'', ''TO'']), Rename_Table),
      (occurs al (seqs [Bound, kw ''ALTER'', spaces, opt (alts [Then (kw ''COLUMN'') spaces, Then (kw ''ATTRIBUTE'') spaces]),
         nonspace, spaces, opt (seqs [kws [''SET'', ''DATA''], spaces]), kw ''TYPE'', Bound]), Type_Change),
      (occurs al (phrase [''SET'', ''NOT'', ''NULL'']), Set_Not_Null),
      (add_constraint_tightening al, Add_Constraint),
      (add_column_not_null_no_default al, Add_Not_Null)]"

definition reject_reason :: "(nat \<Rightarrow> bool) \<Rightarrow> bool \<Rightarrow> pytext \<Rightarrow> why" where
  "reject_reason al allow_routine stmt =
     (case List.find (\<lambda>(checker, w). \<not> (allow_routine \<and> w \<in> set routine_rules) \<and> checker stmt) (RULES al) of
        Some (_, w) \<Rightarrow> w
      | None \<Rightarrow> Not_Provably_Additive)"

section \<open>Files\<close>

datatype violation = References_Dblink | Non_Additive why pytext

definition registered :: "(nat \<Rightarrow> bool) \<Rightarrow> pytext \<Rightarrow> pytext set" where
  "registered al stmt =
     (case rmatch al CREATE_TABLE_NAME_RE stmt of
        Some (_, _, Some n) \<Rightarrow> if resolvable_table n then {n} else {}
      | _ \<Rightarrow> {})"

fun lint_stmts :: "(nat \<Rightarrow> bool) \<Rightarrow> bool \<Rightarrow> pytext set option \<Rightarrow> bool \<Rightarrow> pytext set \<Rightarrow> pytext list \<Rightarrow> violation list" where
  "lint_stmts al allow_routine prev linked created [] = []"
| "lint_stmts al allow_routine prev linked created (part # parts) =
     (let stmt = strip part in
      if stmt = [] then lint_stmts al allow_routine prev linked created parts
      else
        (if is_additive al allow_routine created prev linked stmt then []
         else [Non_Additive (reject_reason al allow_routine stmt) (take 140 stmt)])
        @ lint_stmts al allow_routine prev linked (created \<union> registered al stmt) parts)"

definition links :: "(nat \<Rightarrow> bool) \<Rightarrow> pytext \<Rightarrow> bool" where
  "links al raw \<longleftrightarrow> occurs al LINK_RE (normalize False raw)"

definition lint_file :: "(nat \<Rightarrow> bool) \<Rightarrow> bool \<Rightarrow> pytext set option \<Rightarrow> bool \<Rightarrow> pytext \<Rightarrow> violation list" where
  "lint_file al allow_routine prev deploy_linked raw =
     (if occurs al DBLINK_RE (normalize True raw) then [References_Dblink]
      else
        (let norm = normalize False raw; linked = (deploy_linked \<or> occurs al LINK_RE norm) in
         lint_stmts al allow_routine prev linked {} (split_on 59 norm)))"

section \<open>The command\<close>

text \<open>
  \<open>fs_read\<close> is \<open>None\<close> where reading raises an \<^verbatim>\<open>OSError\<close>. A file that is not UTF-8 raises another exception, which
  nothing catches: the command ends with a traceback and status 1, and the model says nothing of it.
\<close>

record fs =
  fs_is_dir :: "pytext \<Rightarrow> bool"
  fs_glob_sql :: "pytext \<Rightarrow> pytext list"
  fs_read :: "pytext \<Rightarrow> pytext option"

text \<open>The last component of a path, and its suffix.\<close>

definition path_name :: "pytext \<Rightarrow> pytext" where
  "path_name p = (case rev (filter (\<lambda>c. c \<noteq> [] \<and> c \<noteq> [46]) (split_on 47 p)) of [] \<Rightarrow> [] | c # _ \<Rightarrow> c)"

definition path_suffix :: "pytext \<Rightarrow> pytext" where
  "path_suffix p =
     (let n = path_name p; ext = takeWhile (\<lambda>c. c \<noteq> 46) (rev n); i = length n - length ext - 1 in
      if 46 \<in> set n \<and> 0 < i \<and> i < length n - 1 then 46 # rev ext else [])"

fun sql_files :: "fs \<Rightarrow> pytext list \<Rightarrow> pytext list" where
  "sql_files F [] = []"
| "sql_files F (a # as) =
     (if fs_is_dir F a then fs_glob_sql F a
      else if path_suffix a = codes ''.sql'' then [a] else []) @ sql_files F as"

definition linked_deploy :: "(nat \<Rightarrow> bool) \<Rightarrow> fs \<Rightarrow> pytext list \<Rightarrow> bool" where
  "linked_deploy al F files \<longleftrightarrow> list_ex (\<lambda>f. case fs_read F f of Some t \<Rightarrow> links al t | None \<Rightarrow> False) files"

fun lint_all :: "(nat \<Rightarrow> bool) \<Rightarrow> bool \<Rightarrow> pytext set option \<Rightarrow> bool \<Rightarrow> fs \<Rightarrow> pytext list \<Rightarrow> (pytext \<times> violation) list option" where
  "lint_all al allow_routine prev deploy_linked F [] = Some []"
| "lint_all al allow_routine prev deploy_linked F (f # files) =
     (case fs_read F f of
        None \<Rightarrow> None
      | Some t \<Rightarrow> map_option ((@) (map (Pair (path_name f)) (lint_file al allow_routine prev deploy_linked t)))
          (lint_all al allow_routine prev deploy_linked F files))"

definition lint_files :: "(nat \<Rightarrow> bool) \<Rightarrow> bool \<Rightarrow> pytext set option \<Rightarrow> fs \<Rightarrow> pytext list \<Rightarrow> nat \<times> (pytext \<times> violation) list" where
  "lint_files al allow_routine prev F args =
     (if args = [] then (2, [])
      else
        (let files = sql_files F args; deploy_linked = linked_deploy al F files in
         case lint_all al allow_routine prev deploy_linked F files of
           None \<Rightarrow> (2, [])
         | Some violations \<Rightarrow> if violations \<noteq> [] then (1, violations) else (0, [])))"

definition existing_names :: "pytext \<Rightarrow> pytext set" where
  "existing_names t = pg_fold ` set (split_ws t)"

definition lint_main :: "(nat \<Rightarrow> bool) \<Rightarrow> fs \<Rightarrow> pytext list \<Rightarrow> nat \<times> (pytext \<times> violation) list" where
  "lint_main al F argv =
     (let allow_routine = (codes ''--allow-routine'' \<in> set argv);
          args = filter (\<lambda>a. a \<noteq> codes ''--allow-routine'') argv;
          before = takeWhile (\<lambda>a. a \<noteq> codes ''--existing'') args;
          after = drop (length before + 1) args in
      if codes ''--existing'' \<in> set args then
        (case after of
           [] \<Rightarrow> (2, [])
         | expath # rest \<Rightarrow>
             (case fs_read F expath of
                None \<Rightarrow> (2, [])
              | Some t \<Rightarrow> lint_files al allow_routine (Some (existing_names t)) F (before @ rest)))
      else lint_files al allow_routine None F args)"

end
