(* ===== verification/Migration_Lint_Props.thy ===== *)
theory Migration_Lint_Props
  imports Migration_Lint
begin

text \<open>
  What the migration linter guarantees: clauses are split without loss, names are taken from the text as it is
  written, a file passes only if every statement does in the light of the statements before it, and
  a deploy passes only if every file does.
\<close>

section \<open>Splitting into clauses\<close>

fun depth_after :: "nat \<Rightarrow> pytext \<Rightarrow> nat" where
  "depth_after d [] = d"
| "depth_after d (ch # s) = depth_after (if ch = 40 then d + 1 else if ch = 41 then d - 1 else d) s"

lemma depth_after_append [simp]: "depth_after d (s @ u) = depth_after (depth_after d s) u"
  by (induction d s rule: depth_after.induct) simp_all

lemma clauses_nonempty [simp]: "clauses_from d cur s \<noteq> []"
  by (induction d cur s rule: clauses_from.induct) (simp_all add: Let_def)

lemma join_on_cons: "ps \<noteq> [] \<Longrightarrow> join_on sep (p # ps) = p @ sep @ join_on sep ps"
  by (cases ps) simp_all

lemma join_clauses: "join_on [44] (clauses_from d cur s) = rev cur @ s"
  by (induction d cur s rule: clauses_from.induct) (simp_all add: Let_def join_on_cons)

text \<open>A text whose scan from depth \<open>d\<close> meets no comma at depth zero is one clause.\<close>

fun comma_free :: "nat \<Rightarrow> pytext \<Rightarrow> bool" where
  "comma_free d [] = True"
| "comma_free d (ch # s) =
     (let e = (if ch = 40 then d + 1 else if ch = 41 then d - 1 else d) in (ch = 44 \<longrightarrow> e \<noteq> 0) \<and> comma_free e s)"

lemma comma_free_append: "comma_free d (s @ u) \<longleftrightarrow> comma_free d s \<and> comma_free (depth_after d s) u"
  by (induction s arbitrary: d) (simp_all add: Let_def)

lemma clauses_of_comma_free: "comma_free d s \<Longrightarrow> clauses_from d cur s = [rev cur @ s]"
  by (induction s arbitrary: d cur) (simp_all add: Let_def)

lemma clauses_comma_free:
  assumes "comma_free 0 (rev cur)" "depth_after 0 (rev cur) = d"
  shows "list_all (comma_free 0) (clauses_from d cur s)"
  using assms
proof (induction s arbitrary: d cur)
  case (Cons ch s)
  let ?e = "if ch = 40 then d + 1 else if ch = 41 then d - 1 else d"
  show ?case
  proof (cases "ch = 44 \<and> ?e = 0")
    case True
    then have "ch = 44" "d = 0" by auto
    then show ?thesis using Cons by (simp add: Let_def)
  next
    case False
    have d: "depth_after 0 (rev cur) = d" by (rule Cons.prems(2))
    have free: "comma_free 0 (rev (ch # cur))" using Cons.prems(1) False by (simp add: comma_free_append d Let_def)
    have "depth_after 0 (rev (ch # cur)) = ?e" by (simp add: d)
    from Cons.IH [OF free this] show ?thesis by (simp only: clauses_from.simps Let_def if_not_P [OF False])
  qed
qed simp

text \<open>
  The clauses of a statement, joined by commas, are the statement, and no clause can be split
  further: a comma inside parentheses never ends a clause, and one outside always does.
\<close>

theorem clauses_round_trip:
  "join_on [44] (top_level_clauses s) = s \<and> list_all (\<lambda>c. top_level_clauses c = [c]) (top_level_clauses s)"
proof -
  have "list_all (comma_free 0) (clauses_from 0 [] s)" by (rule clauses_comma_free) simp_all
  then have "list_all (\<lambda>c. top_level_clauses c = [c]) (top_level_clauses s)"
    by (auto simp: top_level_clauses_def list_all_iff clauses_of_comma_free)
  then show ?thesis using join_clauses [of 0 "[]" s] by (simp add: top_level_clauses_def)
qed

section \<open>The name a statement alters\<close>

text \<open>Keywords in any case, each followed by one space.\<close>

fun spelled :: "string list \<Rightarrow> pytext \<Rightarrow> bool" where
  "spelled [] x \<longleftrightarrow> x = []"
| "spelled (w # ws) x \<longleftrightarrow> list_all2 ign (codes w) (take (length w) x) \<and> prefix [32] (drop (length w) x)
     \<and> spelled ws (drop (Suc (length w)) x)"

definition plain_name :: "pytext \<Rightarrow> bool" where
  "plain_name t \<longleftrightarrow> t \<noteq> [] \<and> list_all rel_char t \<and> \<not> list_all2 ign (codes ''IF'') t \<and> \<not> list_all2 ign (codes ''ONLY'') t"

definition clause_text :: "pytext \<Rightarrow> bool" where
  "clause_text rest \<longleftrightarrow> rest \<noteq> [] \<and> \<not> is_space (hd rest) \<and> hd rest \<noteq> 42"

text \<open>What can stand between the name and the clauses: a space, with the star that names the descendants too or without.\<close>

definition name_gap :: "pytext \<Rightarrow> bool" where
  "name_gap gap \<longleftrightarrow> gap \<in> {[32], [42, 32], [32, 42, 32]}"

lemma name_gap_Cons: "name_gap gap \<Longrightarrow> \<exists>c v. gap = c # v \<and> \<not> rel_char c"
  by (auto simp: name_gap_def rel_char_def is_space_def)

text \<open>The forms of an \<^verbatim>\<open>ALTER TABLE\<close> before the name.\<close>

definition alter_words :: "pytext \<Rightarrow> bool" where
  "alter_words x \<longleftrightarrow> list_ex (\<lambda>opts. spelled ([''ALTER'', ''TABLE''] @ fst opts @ snd opts) x)
     [([], []), ([''IF'', ''EXISTS''], []), ([], [''ONLY'']), ([''IF'', ''EXISTS''], [''ONLY''])]"

lemma length_codes [simp]: "length (codes w) = length w"
  by (simp add: codes_def)

lemma spelled_Cons:
  "spelled (w # ws) x \<longleftrightarrow> (\<exists>u v. x = u @ 32 # v \<and> list_all2 ign (codes w) u \<and> spelled ws v)"
proof
  assume "spelled (w # ws) x"
  then have x: "list_all2 ign (codes w) (take (length w) x)" "prefix [32] (drop (length w) x)"
    "spelled ws (drop (Suc (length w)) x)" by simp_all
  from x(2) obtain v where v: "drop (length w) x = 32 # v" by (auto simp: prefix_def)
  then have "drop (Suc (length w)) x = v" by (simp add: drop_Suc drop_tl)
  moreover have "x = take (length w) x @ 32 # v" using v by (metis append_take_drop_id)
  ultimately show "\<exists>u v. x = u @ 32 # v \<and> list_all2 ign (codes w) u \<and> spelled ws v" using x by metis
next
  assume "\<exists>u v. x = u @ 32 # v \<and> list_all2 ign (codes w) u \<and> spelled ws v"
  then obtain u v where "x = u @ 32 # v" "list_all2 ign (codes w) u" "spelled ws v" by blast
  moreover from this(2) have "length u = length w" by (metis length_codes list_all2_lengthD)
  ultimately show "spelled (w # ws) x" by simp
qed

text \<open>The match that backtracking finds first.\<close>

definition leads :: "(nat \<Rightarrow> bool) \<Rightarrow> rx \<Rightarrow> rxpos \<Rightarrow> rxpos \<Rightarrow> bool" where
  "leads al r p q \<longleftrightarrow> (\<exists>qs. results al r p = q # qs)"

lemma leads_Then: "leads al r p x \<Longrightarrow> leads al q x y \<Longrightarrow> leads al (Then r q) p y"
  unfolding leads_def by auto

lemma leads_opt: "leads al r p x \<Longrightarrow> leads al (opt r) p x"
  unfolding leads_def opt_def by auto

lemma leads_skip: "results al r p = [] \<Longrightarrow> leads al (opt r) p p"
  unfolding leads_def opt_def by simp

lemma leads_match: "leads al r ([], s, None) q \<Longrightarrow> rmatch al r s = Some q"
  unfolding leads_def rmatch_def by auto

lemma leads_kw:
  assumes "list_all2 ign (codes w) u"
  shows "leads al (kw w) (b, u @ a, g) (rev u @ b, a, g)"
proof -
  have "length u = length (codes w)" using assms by (metis list_all2_lengthD)
  then show ?thesis using assms by (simp add: leads_def kw_def results_lits)
qed

lemma leads_spaces: "a = [] \<or> \<not> is_space (hd a) \<Longrightarrow> leads al spaces (b, 32 # a, g) (32 # b, a, g)"
  by (cases a) (simp_all add: leads_def plus_def is_space_def [of 32])

lemma results_run:
  assumes "list_all P t" "a = [] \<or> \<not> P (hd a)"
  shows "leads al (Many (Chars P)) (b, t @ a, g) (rev t @ b, a, g)"
  using assms
proof (induction t arbitrary: b)
  case Nil
  then show ?case by (cases a) (simp_all add: leads_def)
next
  case (Cons c t)
  then obtain qs where "results al (Many (Chars P)) (c # b, t @ a, g) = (rev t @ c # b, a, g) # qs"
    by (auto simp: leads_def)
  then show ?case using Cons.prems by (simp add: leads_def)
qed

lemma leads_run:
  assumes "t \<noteq> []" "list_all P t" "a = [] \<or> \<not> P (hd a)"
  shows "leads al (plus (Chars P)) (b, t @ a, g) (rev t @ b, a, g)"
proof (cases t)
  case (Cons c u)
  have "leads al (Chars P) (b, t @ a, g) (c # b, u @ a, g)" using assms Cons by (simp add: leads_def)
  moreover have "leads al (Many (Chars P)) (c # b, u @ a, g) (rev u @ c # b, a, g)"
    by (rule results_run) (use assms Cons in simp_all)
  ultimately show ?thesis unfolding plus_def using Cons by (auto intro: leads_Then)
qed (use assms in simp)

lemma leads_name:
  assumes "t \<noteq> []" "list_all rel_char t" "a = [] \<or> \<not> rel_char (hd a)"
  shows "leads al name_rx (b, t @ a, g) (rev t @ b, a, Some t)"
proof -
  have "taken (rev t @ b) b = t" by (simp add: taken_def)
  with leads_run [OF assms, of al b g] show ?thesis by (auto simp: leads_def name_rx_def)
qed

text \<open>Letters are not spaces, and a name is not read as a keyword it is not.\<close>

definition upper :: "string \<Rightarrow> bool" where
  "upper w = list_all (\<lambda>l. 65 \<le> l \<and> l \<le> 90) (codes w)"

lemma ign_letter: "ign l c \<Longrightarrow> 65 \<le> l \<Longrightarrow> l \<le> 90 \<Longrightarrow> rel_char c"
  unfolding ign_def rel_char_def is_space_def by (auto simp: ascii_lower_def split: if_splits)

lemma spelled_word_chars: "list_all2 ign (codes w) u \<Longrightarrow> upper w \<Longrightarrow> list_all rel_char u"
  unfolding upper_def list_all2_conv_all_nth list_all_length by (metis ign_letter)

lemma word_blocked:
  assumes "list_all rel_char t" "\<not> list_all2 ign (codes w) t" "upper w" "\<not> rel_char c"
  shows "results al (Then (kw w) spaces) (b, t @ c # a, g) = []"
proof (cases "list_all2 ign (codes w) (take (length w) (t @ c # a))")
  case True
  then have chars: "list_all rel_char (take (length w) (t @ c # a))" using assms(3) by (rule spelled_word_chars)
  have "length w < length t"
  proof (rule ccontr)
    assume "\<not> length w < length t"
    then consider "length w = length t" | "length t < length w" by linarith
    then show False
    proof cases
      case 1
      then show False using True assms(2) by simp
    next
      case 2
      then obtain k where "length w = Suc (length t + k)" using less_imp_Suc_add by blast
      then have "c \<in> set (take (length w) (t @ c # a))" by simp
      with chars have "rel_char c" unfolding list_all_iff by blast
      then show False using assms(4) by simp
    qed
  qed
  then have "drop (length w) (t @ c # a) = t ! length w # drop (Suc (length w)) t @ c # a" by (simp add: Cons_nth_drop_Suc [symmetric])
  moreover have "\<not> is_space (t ! length w)" using assms(1) \<open>length w < length t\<close> by (simp add: list_all_length rel_char_def)
  ultimately show ?thesis by (simp add: kw_def results_lits plus_def)
qed (simp add: kw_def results_lits)

lemma blocked_then: "results al (Then r q) p = [] \<Longrightarrow> results al (Then (Then r (Then q w)) v) p = []"
  by (simp only: results_assoc [of al r q w, symmetric] results.simps(5)) simp

lemma spelled_append: "spelled (ws @ vs) x \<longleftrightarrow> (\<exists>y z. x = y @ z \<and> spelled ws y \<and> spelled vs z)"
proof (induction ws arbitrary: x)
  case (Cons w ws)
  have "spelled ((w # ws) @ vs) x
      \<longleftrightarrow> (\<exists>u y z. x = u @ 32 # y @ z \<and> list_all2 ign (codes w) u \<and> spelled ws y \<and> spelled vs z)"
    unfolding append_Cons spelled_Cons Cons by blast
  also have "\<dots> \<longleftrightarrow> (\<exists>y z. x = y @ z \<and> spelled (w # ws) y \<and> spelled vs z)"
    unfolding spelled_Cons by (metis append.assoc append_Cons)
  finally show ?case .
qed simp

lemma leads_word:
  assumes "list_all2 ign (codes w) u" "a = [] \<or> \<not> is_space (hd a)"
  shows "leads al (Then (kw w) spaces) (b, u @ 32 # a, g) (32 # rev u @ b, a, g)"
  by (rule leads_Then [OF leads_kw leads_spaces]) (rule assms)+

lemma word_head:
  assumes "list_all2 ign (codes w) u" "upper w" "w \<noteq> []"
  shows "u \<noteq> [] \<and> rel_char (hd u) \<and> \<not> is_space (hd u)"
proof -
  have "u \<noteq> []" using assms(1,3) by (auto simp: codes_def)
  moreover from this spelled_word_chars [OF assms(1,2)] have "rel_char (hd u)" by (cases u) auto
  ultimately show ?thesis by (simp add: rel_char_def)
qed

lemma leads_two:
  assumes "list_all2 ign (codes w) u" "list_all2 ign (codes x) v" "upper x" "x \<noteq> []"
  shows "leads al (kws [w, x]) (b, u @ 32 # v @ a, g) (rev v @ 32 # rev u @ b, a, g)"
  unfolding kws.simps
  by (rule leads_Then [OF leads_kw [OF assms(1)] leads_Then [OF leads_spaces leads_kw [OF assms(2)]]])
    (use word_head [OF assms(2,3,4)] in simp)

lemma plain_name_head: "plain_name t \<Longrightarrow> t \<noteq> [] \<and> \<not> is_space (hd t)"
  by (cases t) (auto simp: plain_name_def rel_char_def)

lemma leads_only:
  assumes "spelled [] x \<or> spelled [''ONLY''] x" "plain_name t" "\<not> rel_char c"
  shows "leads al (opt (Then (kw ''ONLY'') spaces)) (b, x @ t @ c # rest, g) (rev x @ b, t @ c # rest, g)"
proof (cases "x = []")
  case True
  have "results al (Then (kw ''ONLY'') spaces) (b, t @ c # rest, g) = []"
    by (rule word_blocked) (use assms(2,3) in \<open>simp_all add: plain_name_def upper_def codes_def\<close>)
  then show ?thesis using True by (simp add: leads_skip)
next
  case False
  then obtain u where x: "x = u @ [32]" "list_all2 ign (codes ''ONLY'') u" using assms(1) by (auto simp: spelled_Cons simp del: spelled.simps(2))
  have "leads al (Then (kw ''ONLY'') spaces) (b, u @ 32 # t @ c # rest, g) (32 # rev u @ b, t @ c # rest, g)"
    by (rule leads_word [OF x(2)]) (use plain_name_head [OF assms(2)] in simp)
  then show ?thesis unfolding x(1) by (auto intro: leads_opt)
qed

lemma if_blocked:
  assumes "spelled [] x \<or> spelled [''ONLY''] x" "plain_name t" "\<not> rel_char c"
  shows "results al (Then (kws [''IF'', ''EXISTS'']) spaces) (b, x @ t @ c # rest, g) = []"
proof -
  have "results al (Then (kw ''IF'') spaces) (b, x @ t @ c # rest, g) = []"
  proof (cases "x = []")
    case True
    have "results al (Then (kw ''IF'') spaces) (b, t @ c # rest, g) = []"
      by (rule word_blocked) (use assms(2,3) in \<open>simp_all add: plain_name_def upper_def codes_def\<close>)
    then show ?thesis using True by simp
  next
    case False
    then obtain u where x: "x = u @ [32]" "list_all2 ign (codes ''ONLY'') u" using assms(1) by (auto simp: spelled_Cons simp del: spelled.simps(2))
    have "list_all rel_char u" by (rule spelled_word_chars [OF x(2)]) (simp add: upper_def codes_def)
    moreover have "\<not> list_all2 ign (codes ''IF'') u" using list_all2_lengthD [OF x(2)] by (auto dest!: list_all2_lengthD)
    ultimately have "results al (Then (kw ''IF'') spaces) (b, u @ 32 # t @ c # rest, g) = []"
      by (rule word_blocked) (simp_all add: upper_def codes_def rel_char_def is_space_def)
    then show ?thesis unfolding x(1) by simp
  qed
  then show ?thesis unfolding kws.simps by (rule blocked_then)
qed

lemma leads_if_exists:
  assumes "spelled [] y \<or> spelled [''IF'', ''EXISTS''] y" "spelled [] x \<or> spelled [''ONLY''] x" "plain_name t" "\<not> rel_char c"
  shows "leads al (opt (Then (kws [''IF'', ''EXISTS'']) spaces)) (b, y @ x @ t @ c # rest, g) (rev y @ b, x @ t @ c # rest, g)"
proof (cases "y = []")
  case True
  then show ?thesis using leads_skip [OF if_blocked [OF assms(2,3,4)]] by simp
next
  case False
  then obtain u v where y: "y = u @ 32 # v @ [32]" and u: "list_all2 ign (codes ''IF'') u" and v: "list_all2 ign (codes ''EXISTS'') v"
    using assms(1) by (auto simp: spelled_Cons simp del: spelled.simps(2))
  have "x @ t @ c # rest \<noteq> [] \<and> \<not> is_space (hd (x @ t @ c # rest))"
  proof (cases "x = []")
    case True
    then show ?thesis using plain_name_head [OF assms(3)] by simp
  next
    case False
    then obtain o1 where x: "x = o1 @ [32]" "list_all2 ign (codes ''ONLY'') o1"
      using assms(2) by (auto simp: spelled_Cons simp del: spelled.simps(2))
    then show ?thesis using word_head [OF x(2)] by (simp add: upper_def codes_def)
  qed
  then have "leads al (Then (kws [''IF'', ''EXISTS'']) spaces) (b, u @ 32 # v @ 32 # x @ t @ c # rest, g)
      (32 # rev v @ 32 # rev u @ b, x @ t @ c # rest, g)"
    by (intro leads_Then [OF leads_two [OF u v] leads_spaces]) (simp_all add: upper_def codes_def)
  then show ?thesis unfolding y by (auto intro: leads_opt)
qed

lemma leads_gap:
  assumes "name_gap gap" "clause_text rest"
  shows "leads al (Then spaces0 (Then (opt (Chars (\<lambda>c. c = 42))) spaces)) (b, gap @ rest, g) (rev gap @ b, rest, g)"
  using assms
  by (cases rest) (auto simp: name_gap_def clause_text_def leads_def opt_def plus_def is_space_def [of 32] is_space_def [of 42])

lemma alter_words_split:
  assumes "alter_words x"
  obtains u v y z where "x = u @ 32 # v @ 32 # y @ z" "list_all2 ign (codes ''ALTER'') u" "list_all2 ign (codes ''TABLE'') v"
    "spelled [] y \<or> spelled [''IF'', ''EXISTS''] y" "spelled [] z \<or> spelled [''ONLY''] z"
proof -
  from assms obtain os where os: "os \<in> set [([], []), ([''IF'', ''EXISTS''], []), ([], [''ONLY'']), ([''IF'', ''EXISTS''], [''ONLY''])]"
    and x: "spelled ([''ALTER'', ''TABLE''] @ fst os @ snd os) x"
    unfolding alter_words_def list_ex_iff by blast
  from os have opts: "fst os = [] \<or> fst os = [''IF'', ''EXISTS'']" "snd os = [] \<or> snd os = [''ONLY'']" by auto
  from x obtain a y z where a: "x = a @ y @ z" "spelled [''ALTER'', ''TABLE''] a" and "spelled (fst os) y" "spelled (snd os) z"
    unfolding spelled_append by blast
  then have yz: "spelled [] y \<or> spelled [''IF'', ''EXISTS''] y" "spelled [] z \<or> spelled [''ONLY''] z" using opts by metis+
  from a(2) obtain u v where "a = u @ 32 # v @ [32]" "list_all2 ign (codes ''ALTER'') u" "list_all2 ign (codes ''TABLE'') v"
    by (auto simp: spelled_Cons simp del: spelled.simps(2))
  then show thesis using that [of u v y z] a(1) yz by simp
qed

text \<open>The name that is captured is the name that is written.\<close>

lemma alter_target:
  assumes "alter_words x" "plain_name t" "name_gap gap" "clause_text rest"
  obtains b where "rmatch al ALTER_TARGET_RE (x @ t @ gap @ rest) = Some (b, rest, Some t)"
proof -
  from assms(1) obtain u v y z where x: "x = u @ 32 # v @ 32 # y @ z" and u: "list_all2 ign (codes ''ALTER'') u"
    and v: "list_all2 ign (codes ''TABLE'') v" and y: "spelled [] y \<or> spelled [''IF'', ''EXISTS''] y"
    and z: "spelled [] z \<or> spelled [''ONLY''] z" by (rule alter_words_split)
  from name_gap_Cons [OF assms(3)] obtain c w where gap_c: "gap = c # w" "\<not> rel_char c" by blast
  let ?s = "t @ c # w @ rest"
  let ?b = "rev z @ rev y @ 32 # rev v @ 32 # rev u"
  have name: "leads al name_rx (?b, ?s, None) (rev t @ ?b, c # w @ rest, Some t)"
    by (rule leads_name) (use assms(2) gap_c(2) in \<open>simp_all add: plain_name_def\<close>)
  have tail: "leads al (Then spaces0 (Then (opt (Chars (\<lambda>c. c = 42))) spaces)) (rev t @ ?b, c # w @ rest, Some t) (rev gap @ rev t @ ?b, rest, Some t)"
    using leads_gap [OF assms(3,4), of al "rev t @ ?b" "Some t"] gap_c(1) by simp
  have gap: "y @ z @ ?s = [] \<or> \<not> is_space (hd (y @ z @ ?s))"
  proof (cases "y = []")
    case True
    show ?thesis
    proof (cases "z = []")
      case True
      then show ?thesis using \<open>y = []\<close> plain_name_head [OF assms(2)] by simp
    next
      case False
      then obtain o1 where o1: "z = o1 @ [32]" "list_all2 ign (codes ''ONLY'') o1"
        using z by (auto simp: spelled_Cons simp del: spelled.simps(2))
      then show ?thesis using \<open>y = []\<close> word_head [OF o1(2)] by (simp add: upper_def codes_def)
    qed
  next
    case False
    then obtain i1 e where y': "y = i1 @ 32 # e" "list_all2 ign (codes ''IF'') i1"
      using y by (auto simp: spelled_Cons simp del: spelled.simps(2))
    then show ?thesis using word_head [OF y'(2)] by (simp add: upper_def codes_def)
  qed
  have head: "leads al (kws [''ALTER'', ''TABLE'']) ([], u @ 32 # v @ 32 # y @ z @ ?s, None) (rev v @ 32 # rev u, 32 # y @ z @ ?s, None)"
    using leads_two [OF u v, of al "[]" "32 # y @ z @ ?s" None] by (simp add: upper_def codes_def)
  have "leads al ALTER_TARGET_RE ([], u @ 32 # v @ 32 # y @ z @ ?s, None) (rev gap @ rev t @ ?b, rest, Some t)"
    unfolding ALTER_TARGET_RE_def seqs.simps list.distinct if_False
    using leads_Then [OF head leads_Then [OF leads_spaces [OF gap] leads_Then [OF leads_if_exists [OF y z assms(2) gap_c(2)]
      leads_Then [OF leads_only [OF z assms(2) gap_c(2)] leads_Then [OF name tail]]]]] by simp
  then show thesis using that leads_match unfolding x gap_c(1) by (metis append.assoc append_Cons)
qed

section \<open>Statements\<close>

lemma strip_strip [simp]: "strip (strip s) = strip s"
proof -
  define u where "u = lstrip s"
  define w where "w = rev (dropWhile is_space (rev u))"
  have "dropWhile is_space w = w"
  proof (cases "w = []")
    case False
    have "rev u = takeWhile is_space (rev u) @ rev w" by (simp add: w_def)
    then have "u = w @ rev (takeWhile is_space (rev u))" by (metis rev_append rev_rev_ident)
    then have "hd u = hd w" "u \<noteq> []" using False by (metis hd_append2, auto)
    moreover have "\<not> is_space (hd u)" using hd_dropWhile [of is_space s] \<open>u \<noteq> []\<close> by (simp add: u_def lstrip_def)
    ultimately show ?thesis using False by (cases w) auto
  qed simp
  moreover have "dropWhile is_space (rev w) = rev w"
    using hd_dropWhile [of is_space "rev u"] by (cases "dropWhile is_space (rev u)") (simp_all add: w_def)
  moreover have "strip s = w" by (simp add: strip_def w_def u_def)
  ultimately show ?thesis by (simp add: strip_def lstrip_def)
qed

lemma alter_judged:
  assumes "alter_words x" "strip part = x @ a" "is_additive al False created prev linked (strip part)"
  shows "alter_table_additive al created prev linked (x @ a)"
proof -
  from assms(1) obtain u v y z where x: "x = u @ 32 # v @ 32 # y @ z" and u: "list_all2 ign (codes ''ALTER'') u"
    and v: "list_all2 ign (codes ''TABLE'') v" by (rule alter_words_split)
  let ?a = "32 # y @ z @ a"
  from u obtain c u' where c: "u = c # u'" "ign 65 c" by (auto simp: codes_def list_all2_Cons1)
  from v obtain d where d: "hd (rev v) = d" "v \<noteq> []" "ign 69 d" by (auto simp: codes_def list_all2_Cons1)
  then have "word_char al d" by (auto simp: ign_def word_char_def ascii_lower_def split: if_splits)
  then have "leads al Bound (rev v @ 32 # rev u, ?a, None) (rev v @ 32 # rev u, ?a, None)"
    using d by (cases "rev v") (simp_all add: leads_def word_char_def [of al 32])
  with leads_two [OF u v, of al "[]" ?a None] have "leads al (starts [''ALTER'', ''TABLE'']) ([], u @ 32 # v @ ?a, None) (rev v @ 32 # rev u, ?a, None)"
    unfolding starts_def by (auto intro: leads_Then simp: upper_def codes_def)
  then have alter: "matches al (starts [''ALTER'', ''TABLE'']) (x @ a)" unfolding matches_def x by (simp add: leads_match)
  have "\<not> ign 67 c" using ign_unique [OF c(2), of 67] by (auto simp: ascii_lower_def)
  then have create: "\<not> matches al (starts [''CREATE'']) (x @ a)"
    unfolding x c by (simp add: matches_def rmatch_def starts_def kw_def codes_def)
  have s: "strip (strip part) = x @ a" by (rule trans [OF strip_strip assms(2)])
  have "x @ a \<noteq> []" unfolding x by simp
  with assms(3) show ?thesis unfolding is_additive_def Let_def s by (simp add: alter create split: if_splits)
qed

text \<open>On a relation that is not new, an accepted \<^verbatim>\<open>ALTER TABLE\<close> has only allowed clauses.\<close>

lemma old_table_clauses:
  assumes "alter_words x" "plain_name t" "name_gap gap" "clause_text rest" "strip part = x @ t @ gap @ rest"
    and "is_additive al False created prev linked (strip part)" "linked \<or> \<not> new_this_deploy t created prev"
  shows "list_all (additive_alter_table_clause al) (top_level_clauses rest)
    \<or> linked \<and> new_this_deploy t created prev \<and> matches al ATTACH_RE rest"
proof -
  obtain b where b: "rmatch al ALTER_TARGET_RE (x @ t @ gap @ rest) = Some (b, rest, Some t)"
    using alter_target [OF assms(1-4)] by blast
  have "alter_table_additive al created prev linked (x @ t @ gap @ rest)"
    by (rule alter_judged [OF assms(1,5,6)])
  then show ?thesis using assms(7) unfolding alter_table_additive_def b matches_def
    by (auto split: option.splits prod.splits if_splits)
qed

section \<open>Files and deploys\<close>

lemma registered_Nil [simp]: "registered al [] = {}"
  by (simp add: registered_def rmatch_def CREATE_TABLE_NAME_RE_def kw_def codes_def)

lemma is_additive_Nil [simp]: "is_additive al r created prev linked []"
  by (simp add: is_additive_def strip_def lstrip_def)

text \<open>Every statement of a clean file is accepted, given the tables the statements before it create.\<close>

lemma lint_stmts_clean:
  assumes "lint_stmts al r prev linked created parts = []" "i < length parts"
  shows "is_additive al r (created \<union> (\<Union>p \<in> set (take i parts). registered al (strip p))) prev linked (strip (parts ! i))"
  using assms
proof (induction parts arbitrary: created i)
  case (Cons q parts)
  let ?c = "created \<union> registered al (strip q)"
  have rest: "lint_stmts al r prev linked ?c parts = []"
    and here: "is_additive al r created prev linked (strip q)"
    using Cons.prems(1) by (auto simp: Let_def split: if_splits)
  show ?case
  proof (cases i)
    case 0
    then show ?thesis using here by simp
  next
    case (Suc j)
    have "?c \<union> (\<Union>p \<in> set (take j parts). registered al (strip p))
        = created \<union> (\<Union>p \<in> set (take i (q # parts)). registered al (strip p))" using Suc by auto
    with Cons.IH [OF rest, of j] Cons.prems(2) Suc show ?thesis by simp
  qed
qed simp

lemma lint_file_clean:
  assumes "lint_file al r prev dl raw = []" "i < length (split_on 59 (normalize False raw))"
  shows "is_additive al r (\<Union>p \<in> set (take i (split_on 59 (normalize False raw))). registered al (strip p)) prev
    (dl \<or> links al raw) (strip (split_on 59 (normalize False raw) ! i))"
proof -
  have "lint_stmts al r prev (dl \<or> links al raw) {} (split_on 59 (normalize False raw)) = []"
    using assms(1) by (simp add: lint_file_def links_def Let_def split: if_splits)
  from lint_stmts_clean [OF this assms(2)] show ?thesis by simp
qed

lemma lint_all_clean:
  "lint_all al r prev dl F files = Some [] \<Longrightarrow> f \<in> set files \<Longrightarrow> fs_read F f = Some raw \<Longrightarrow> lint_file al r prev dl raw = []"
  by (induction files) (auto split: option.splits)

lemma lint_files_clean:
  assumes "lint_files al r prev F args = (0, out)" "f \<in> set (sql_files F args)" "fs_read F f = Some raw"
  shows "lint_file al r prev (linked_deploy al F (sql_files F args)) raw = []"
proof -
  have "lint_all al r prev (linked_deploy al F (sql_files F args)) F (sql_files F args) = Some []"
    using assms(1) by (auto simp: lint_files_def Let_def split: if_splits option.splits)
  then show ?thesis using assms(2,3) by (rule lint_all_clean)
qed

lemma lint_main_existing:
  assumes "codes ''--existing'' \<notin> set before" "codes ''--allow-routine'' \<notin> set (before @ e # after)" "fs_read F e = Some names"
  shows "lint_main al F (before @ codes ''--existing'' # e # after)
    = lint_files al False (Some (existing_names names)) F (before @ after)"
proof -
  let ?argv = "before @ codes ''--existing'' # e # after"
  have ne: "codes ''--existing'' \<noteq> codes ''--allow-routine''" by (simp add: codes_def)
  have same: "filter (\<lambda>a. a \<noteq> codes ''--allow-routine'') ?argv = ?argv"
    by (rule filter_True) (use assms(2) ne in auto)
  have "takeWhile (\<lambda>a. a \<noteq> codes ''--existing'') before = before" by (rule takeWhile_eq_all_conv [THEN iffD2]) (use assms(1) in auto)
  then have tw: "takeWhile (\<lambda>a. a \<noteq> codes ''--existing'') ?argv = before" using assms(1) by (simp add: takeWhile_append)
  have "codes ''--allow-routine'' \<notin> set ?argv" using assms(2) ne by auto
  then show ?thesis unfolding lint_main_def Let_def same tw by (simp add: assms(3))
qed

lemma clean_statement:
  assumes "lint_files al r prev F args = (0, out)" "f \<in> set (sql_files F args)" "fs_read F f = Some raw"
    and "part \<in> set (split_on 59 (normalize False raw))"
  obtains created where "is_additive al r created prev (linked_deploy al F (sql_files F args) \<or> links al raw) (strip part)"
proof -
  from assms(4) obtain i where "i < length (split_on 59 (normalize False raw))" "split_on 59 (normalize False raw) ! i = part"
    by (meson in_set_conv_nth)
  with lint_file_clean [OF lint_files_clean [OF assms(1-3)]] show thesis using that by metis
qed

text \<open>
  C36. When the command accepts a deploy whose existing relations it was given, and no routine is
  blessed, then wherever a file alters a relation that exists already, or one whose name is quoted, every
  clause is one of the allowed ones. The \<^verbatim>\<open>ALTER TABLE\<close> may have \<^verbatim>\<open>IF EXISTS\<close>, \<^verbatim>\<open>ONLY\<close> or both, its keywords in
  any case, and a star after the name, with or without a space before it; the name is any unparenthesised
  one that is not itself the keyword \<^verbatim>\<open>IF\<close> or \<^verbatim>\<open>ONLY\<close>.
\<close>

theorem existing_tables_protected:
  assumes "lint_main al F (before @ codes ''--existing'' # e # after) = (0, out)"
    and "codes ''--existing'' \<notin> set before" "codes ''--allow-routine'' \<notin> set (before @ e # after)" "fs_read F e = Some names"
    and "f \<in> set (sql_files F (before @ after))" "fs_read F f = Some raw"
    and "part \<in> set (split_on 59 (normalize False raw))" "strip part = x @ t @ gap @ rest"
    and "alter_words x" "plain_name t" "name_gap gap" "clause_text rest"
    and "\<not> resolvable_table t \<or> pg_fold (last (split_on 46 t)) \<in> existing_names names"
  shows "list_all (additive_alter_table_clause al) (top_level_clauses rest)"
proof -
  have "lint_files al False (Some (existing_names names)) F (before @ after) = (0, out)"
    using assms(1) lint_main_existing [OF assms(2-4)] by metis
  then obtain created where "is_additive al False created (Some (existing_names names))
      (linked_deploy al F (sql_files F (before @ after)) \<or> links al raw) (strip part)"
    by (rule clean_statement [OF _ assms(5-7)])
  moreover have "\<not> new_this_deploy t created (Some (existing_names names))"
    using assms(13) by (auto simp: new_this_deploy_def)
  ultimately show ?thesis using old_table_clauses [OF assms(9-12,8)] by blast
qed

section \<open>What registers a table\<close>

text \<open>Keywords in any case, each followed by white space.\<close>

fun worded :: "string list \<Rightarrow> pytext \<Rightarrow> bool" where
  "worded [] x \<longleftrightarrow> x = []"
| "worded (w # ws) x \<longleftrightarrow>
     (\<exists>u g v. x = u @ g @ v \<and> list_all2 ign (codes w) u \<and> g \<noteq> [] \<and> list_all is_space g \<and> worded ws v)"

text \<open>\<^verbatim>\<open>CREATE TABLE\<close> with the kinds of table it may name, and nothing else before the name.\<close>

definition create_words :: "pytext \<Rightarrow> bool" where
  "create_words y \<longleftrightarrow> (\<exists>ks. set ks \<subseteq> {''GLOBAL'', ''LOCAL'', ''TEMP'', ''TEMPORARY'', ''UNLOGGED''}
     \<and> worded (''CREATE'' # ks @ [''TABLE'']) y)"

lemma worded_Cons:
  "list_all2 ign (codes w) u \<Longrightarrow> g \<noteq> [] \<Longrightarrow> list_all is_space g \<Longrightarrow> worded ws v \<Longrightarrow> worded (w # ws) (u @ g @ v)"
  unfolding worded.simps by blast

lemma worded_append: "worded ws x \<Longrightarrow> worded vs y \<Longrightarrow> worded (ws @ vs) (x @ y)"
proof (induction ws arbitrary: x)
  case (Cons w ws)
  from Cons.prems(1) obtain u g v where "x = u @ g @ v" "list_all2 ign (codes w) u" "g \<noteq> []" "list_all is_space g" "worded ws v"
    by auto
  with worded_Cons [of w u g "ws @ vs" "v @ y"] Cons.IH [of v] Cons.prems(2) show ?case by (simp del: worded.simps)
qed simp

lemma worded_one: "list_all2 ign (codes w) u \<Longrightarrow> g \<noteq> [] \<Longrightarrow> list_all is_space g \<Longrightarrow> worded [w] (u @ g)"
  using worded_Cons [of w u g "[]" "[]"] by simp

text \<open>Reading a match backwards: the first match of a sequence comes from a match of its first part.\<close>

lemma first_Then:
  assumes "results al (Then r q) p = x # xs"
  obtains p' ys where "p' \<in> set (results al r p)" "results al q p' = x # ys"
proof -
  have "x # xs = concat (map (results al q) (results al r p))" using assms by simp
  then obtain ps where "x # xs = concat (map (results al q) ps)" "set ps \<subseteq> set (results al r p)" by blast
  then show thesis
  proof (induction ps)
    case (Cons p' ps)
    then show thesis by (cases "results al q p'") (auto intro: that)
  qed simp
qed

lemma kw_reads:
  assumes "p' \<in> set (results al (kw w) (b, a, g))"
  obtains u v where "a = u @ v" "list_all2 ign (codes w) u" "p' = (rev u @ b, v, g)"
proof -
  have "list_all2 ign (codes w) (take (length w) a)" "p' = (rev (take (length w) a) @ b, drop (length w) a, g)"
    using assms by (auto simp: kw_def results_lits split: if_splits)
  then show thesis by (metis that append_take_drop_id)
qed

lemma many_reads: "p' \<in> set (results al (Many (Chars P)) (b, a, g)) \<Longrightarrow> \<exists>m v. a = m @ v \<and> list_all P m \<and> p' = (rev m @ b, v, g)"
proof (induction a arbitrary: b)
  case (Cons c a)
  show ?case
  proof (cases "p' = (b, c # a, g)")
    case True
    then have "c # a = [] @ c # a \<and> list_all P [] \<and> p' = (rev [] @ b, c # a, g)" by simp
    then show ?thesis by blast
  next
    case False
    then have "P c" "p' \<in> set (results al (Many (Chars P)) (c # b, a, g))" using Cons.prems by (auto split: if_splits)
    with Cons.IH [of "c # b"] obtain m v where "a = m @ v" "list_all P m" "p' = (rev m @ c # b, v, g)" by blast
    with \<open>P c\<close> show ?thesis by (intro exI [of _ "c # m"] exI [of _ v]) simp
  qed
qed simp

lemma spaces_reads:
  assumes "p' \<in> set (results al spaces (b, a, g))"
  obtains m v where "a = m @ v" "m \<noteq> []" "list_all is_space m" "p' = (rev m @ b, v, g)"
proof (cases a)
  case Nil
  with assms show thesis by (simp add: plus_def)
next
  case (Cons c a')
  then have "is_space c" "p' \<in> set (results al spaces0 (c # b, a', g))" using assms by (auto simp: plus_def split: if_splits)
  from many_reads [OF this(2)] obtain m v where "a' = m @ v" "list_all is_space m" "p' = (rev m @ c # b, v, g)" by blast
  with Cons \<open>is_space c\<close> that [of "c # m" v] show thesis by simp
qed

lemma word_reads:
  assumes "p' \<in> set (results al (Then (kw w) spaces) (b, a, g))"
  obtains m v where "a = m @ v" "worded [w] m" "p' = (rev m @ b, v, g)"
proof -
  from assms obtain q where "q \<in> set (results al (kw w) (b, a, g))" "p' \<in> set (results al spaces q)" by auto
  from kw_reads [OF this(1)] this(2) obtain u a' where "a = u @ a'" "list_all2 ign (codes w) u" "p' \<in> set (results al spaces (rev u @ b, a', g))"
    by metis
  with spaces_reads [OF this(3)] obtain n v where "a = (u @ n) @ v" "worded [w] (u @ n)" "p' = (rev (u @ n) @ b, v, g)"
    using worded_one by (metis append.assoc rev_append)
  then show thesis by (rule that)
qed

definition KINDS :: "string set" where
  "KINDS = {''GLOBAL'', ''LOCAL'', ''TEMP'', ''TEMPORARY'', ''UNLOGGED''}"

lemma temp_reads:
  assumes "p' \<in> set (results al (seqs [kw ''TEMP'', opt (kw ''ORARY''), spaces]) (b, a, g))"
  shows "\<exists>k \<in> KINDS. \<exists>m v. a = m @ v \<and> worded [k] m \<and> p' = (rev m @ b, v, g)"
proof -
  from assms obtain q1 q2 where q: "q1 \<in> set (results al (kw ''TEMP'') (b, a, g))" "q2 \<in> set (results al (opt (kw ''ORARY'')) q1)"
    "p' \<in> set (results al spaces q2)" by auto
  from kw_reads [OF q(1)] obtain u a1 where u: "a = u @ a1" "list_all2 ign (codes ''TEMP'') u" "q1 = (rev u @ b, a1, g)" by metis
  have "\<exists>k \<in> KINDS. \<exists>n a2. a = n @ a2 \<and> list_all2 ign (codes k) n \<and> q2 = (rev n @ b, a2, g)"
  proof (cases "q2 = q1")
    case True
    with u show ?thesis by (intro bexI [of _ "''TEMP''"] exI [of _ u] exI [of _ a1]) (simp_all add: KINDS_def)
  next
    case False
    then have "q2 \<in> set (results al (kw ''ORARY'') (rev u @ b, a1, g))" using q(2) u(3) by (auto simp: opt_def)
    from kw_reads [OF this] obtain o1 a2 where o1: "a1 = o1 @ a2" "list_all2 ign (codes ''ORARY'') o1" "q2 = (rev o1 @ rev u @ b, a2, g)" by metis
    have "list_all2 ign (codes ''TEMP'' @ codes ''ORARY'') (u @ o1)" by (rule list_all2_appendI [OF u(2) o1(2)])
    then have "list_all2 ign (codes ''TEMPORARY'') (u @ o1)" by (simp add: codes_def)
    with u o1 show ?thesis by (intro bexI [of _ "''TEMPORARY''"] exI [of _ "u @ o1"] exI [of _ a2]) (simp_all add: KINDS_def)
  qed
  then obtain k n a2 where k: "k \<in> KINDS" "a = n @ a2" "list_all2 ign (codes k) n" "q2 = (rev n @ b, a2, g)" by blast
  from spaces_reads [OF q(3) [unfolded k(4)]] obtain m v where "a2 = m @ v" "m \<noteq> []" "list_all is_space m" "p' = (rev m @ rev n @ b, v, g)" by metis
  with k worded_one [OF k(3)] show ?thesis by (intro bexI [of _ k] exI [of _ "n @ m"] exI [of _ v]) simp_all
qed

lemma kinds_read:
  assumes "p' \<in> set (results al new_kinds (b, a, g))"
  obtains ks m v where "a = m @ v" "set ks \<subseteq> KINDS" "worded ks m" "p' = (rev m @ b, v, g)"
proof -
  let ?r = "alts [Then (kw ''GLOBAL'') spaces, Then (kw ''LOCAL'') spaces, seqs [kw ''TEMP'', opt (kw ''ORARY''), spaces],
      Then (kw ''UNLOGGED'') spaces]"
  have one: "\<exists>k \<in> KINDS. \<exists>m v. a' = m @ v \<and> worded [k] m \<and> q = (rev m @ b', v, g')" if q: "q \<in> set (results al ?r (b', a', g'))" for q b' a' g'
  proof -
    consider "q \<in> set (results al (Then (kw ''GLOBAL'') spaces) (b', a', g'))" | "q \<in> set (results al (Then (kw ''LOCAL'') spaces) (b', a', g'))"
      | "q \<in> set (results al (seqs [kw ''TEMP'', opt (kw ''ORARY''), spaces]) (b', a', g'))"
      | "q \<in> set (results al (Then (kw ''UNLOGGED'') spaces) (b', a', g'))"
      using q by (auto simp: results.simps(6) simp del: results.simps(1-5,9))
    then show ?thesis
    proof cases
      case 1
      then show ?thesis by (rule word_reads) (auto simp: KINDS_def simp del: worded.simps)
    next
      case 2
      then show ?thesis by (rule word_reads) (auto simp: KINDS_def simp del: worded.simps)
    next
      case 3
      then show ?thesis by (rule temp_reads)
    next
      case 4
      then show ?thesis by (rule word_reads) (auto simp: KINDS_def simp del: worded.simps)
    qed
  qed
  have "((b, a, g), p') \<in> (denotes al ?r \<inter> {(p, q). shorter q p})\<^sup>*" using assms unfolding new_kinds_def set_results by simp
  then have "\<exists>ks m v. a = m @ v \<and> set ks \<subseteq> KINDS \<and> worded ks m \<and> p' = (rev m @ b, v, g)"
  proof (induction rule: rtrancl_induct)
    case base
    have "a = [] @ a \<and> set [] \<subseteq> KINDS \<and> worded [] [] \<and> (b, a, g) = (rev [] @ b, a, g)" by simp
    then show ?case by blast
  next
    case (step p q)
    then obtain ks m v where m: "a = m @ v" "set ks \<subseteq> KINDS" "worded ks m" "p = (rev m @ b, v, g)" by blast
    from step(2) have "q \<in> set (results al ?r p)" unfolding set_results by blast
    from one [OF this [unfolded m(4)]] obtain k n w where n: "k \<in> KINDS" "v = n @ w" "worded [k] n" "q = (rev n @ rev m @ b, w, g)" by blast
    with m worded_append [OF m(3) n(3)] show ?case by (intro exI [of _ "ks @ [k]"] exI [of _ "m @ n"] exI [of _ w]) simp
  qed
  then show thesis using that by blast
qed

lemma name_reads:
  assumes "results al name_rx (b, a, g) = (b', a', Some n) # qs"
  shows "a = n @ a' \<and> (a' = [] \<or> \<not> rel_char (hd a'))"
proof -
  let ?t = "takeWhile rel_char a" and ?z = "dropWhile rel_char a"
  have "?t \<noteq> []" using assms by (cases a) (auto simp: name_rx_def plus_def split: if_splits)
  moreover have "?z = [] \<or> \<not> rel_char (hd ?z)" using hd_dropWhile [of rel_char a] by blast
  moreover have "list_all rel_char ?t" by (auto simp: list_all_iff dest: set_takeWhileD)
  ultimately have "leads al name_rx (b, ?t @ ?z, g) (rev ?t @ b, ?z, Some ?t)" by (intro leads_name)
  then have "n = ?t" "a' = ?z" using assms by (auto simp: leads_def)
  then show ?thesis using \<open>?z = [] \<or> \<not> rel_char (hd ?z)\<close> by simp
qed

text \<open>A table counts as created in the file only by a statement that creates exactly that name, in so many words.\<close>

lemma registered_created:
  assumes "t \<in> registered al s"
  shows "resolvable_table t \<and> (\<exists>y z. s = y @ t @ z \<and> create_words y \<and> (z = [] \<or> \<not> rel_char (hd z)))"
proof -
  from assms obtain b z where m: "rmatch al CREATE_TABLE_NAME_RE s = Some (b, z, Some t)" "resolvable_table t"
    by (auto simp: registered_def split: option.splits prod.splits if_splits)
  let ?u = "Unless (Then (kws [''IF'', ''NOT'', ''EXISTS'']) Bound)"
  obtain q1 q2 q3 q4 q5 q6 ys where
    q: "q1 \<in> set (results al (kw ''CREATE'') ([], s, None))" "q2 \<in> set (results al spaces q1)" "q3 \<in> set (results al new_kinds q2)"
      "q4 \<in> set (results al (kw ''TABLE'') q3)" "q5 \<in> set (results al spaces q4)" "q6 \<in> set (results al ?u q5)"
      "results al name_rx q6 = (b, z, Some t) # ys"
  proof -
    have re: "CREATE_TABLE_NAME_RE = Then (kw ''CREATE'') (Then spaces (Then new_kinds (Then (kw ''TABLE'') (Then spaces (Then ?u name_rx)))))"
      by (simp add: CREATE_TABLE_NAME_RE_def)
    from m(1) obtain y0 where "results al CREATE_TABLE_NAME_RE ([], s, None) = (b, z, Some t) # y0"
      by (auto simp: rmatch_def split: list.splits)
    from first_Then [OF this [unfolded re]] obtain q1 y1 where 1: "q1 \<in> set (results al (kw ''CREATE'') ([], s, None))"
      "results al (Then spaces (Then new_kinds (Then (kw ''TABLE'') (Then spaces (Then ?u name_rx))))) q1 = (b, z, Some t) # y1" by blast
    from first_Then [OF 1(2)] obtain q2 y2 where 2: "q2 \<in> set (results al spaces q1)"
      "results al (Then new_kinds (Then (kw ''TABLE'') (Then spaces (Then ?u name_rx)))) q2 = (b, z, Some t) # y2" by blast
    from first_Then [OF 2(2)] obtain q3 y3 where 3: "q3 \<in> set (results al new_kinds q2)"
      "results al (Then (kw ''TABLE'') (Then spaces (Then ?u name_rx))) q3 = (b, z, Some t) # y3" by blast
    from first_Then [OF 3(2)] obtain q4 y4 where 4: "q4 \<in> set (results al (kw ''TABLE'') q3)"
      "results al (Then spaces (Then ?u name_rx)) q4 = (b, z, Some t) # y4" by blast
    from first_Then [OF 4(2)] obtain q5 y5 where 5: "q5 \<in> set (results al spaces q4)" "results al (Then ?u name_rx) q5 = (b, z, Some t) # y5" by blast
    from first_Then [OF 5(2)] obtain q6 y6 where "q6 \<in> set (results al ?u q5)" "results al name_rx q6 = (b, z, Some t) # y6" by blast
    then show thesis by (rule that [OF 1(1) 2(1) 3(1) 4(1) 5(1)])
  qed
  from kw_reads [OF q(1)] obtain u1 a1 where 1: "s = u1 @ a1" "list_all2 ign (codes ''CREATE'') u1" "q1 = (rev u1 @ [], a1, None)" by metis
  from spaces_reads [OF q(2) [unfolded 1(3)]] obtain g1 a2 where 2: "a1 = g1 @ a2" "g1 \<noteq> []" "list_all is_space g1" "q2 = (rev g1 @ rev u1 @ [], a2, None)" by metis
  from kinds_read [OF q(3) [unfolded 2(4)]] obtain ks m a3 where 3: "a2 = m @ a3" "set ks \<subseteq> KINDS" "worded ks m" "q3 = (rev m @ rev g1 @ rev u1 @ [], a3, None)" by metis
  from kw_reads [OF q(4) [unfolded 3(4)]] obtain u2 a4 where 4: "a3 = u2 @ a4" "list_all2 ign (codes ''TABLE'') u2" "q4 = (rev u2 @ rev m @ rev g1 @ rev u1 @ [], a4, None)" by metis
  from spaces_reads [OF q(5) [unfolded 4(3)]] obtain g2 a5 where 5: "a4 = g2 @ a5" "g2 \<noteq> []" "list_all is_space g2"
    "q5 = (rev g2 @ rev u2 @ rev m @ rev g1 @ rev u1 @ [], a5, None)" by metis
  have "q6 = q5" using q(6) by (auto simp del: results.simps(5) split: list.splits)
  with q(7) 5(4) name_reads have 6: "a5 = t @ z" "z = [] \<or> \<not> rel_char (hd z)" by blast+
  let ?y = "(u1 @ g1) @ m @ (u2 @ g2)"
  have "worded ([''CREATE''] @ ks @ [''TABLE'']) ?y"
    by (intro worded_append worded_one) (rule 1(2) 2(2) 2(3) 3(3) 4(2) 5(2) 5(3))+
  then have "create_words ?y" using 3(2) unfolding create_words_def KINDS_def by (intro exI [of _ ks]) (simp del: worded.simps)
  moreover have "s = ?y @ t @ z" using 1(1) 2(1) 3(1) 4(1) 5(1) 6(1) by simp
  ultimately show ?thesis using m(2) 6(2) by blast
qed

text \<open>
  C37. Without the list of existing relations and with no routine blessed, a file passes only if every
  \<^verbatim>\<open>ALTER TABLE\<close> with a clause that is not allowed, in any of the forms above, names its table without quotes
  and comes after a statement of the same file that reads \<^verbatim>\<open>CREATE\<close>, kinds of table, \<^verbatim>\<open>TABLE\<close> and then exactly
  that name: nothing stands between, so the creation is not one that an existing table turns into a
  no-op, and a later creation does not count. When the deploy links tables such a statement can only attach a
  partition.
\<close>

theorem fallback_follows_creation:
  assumes "lint_file al False None dl raw = []" "i < length (split_on 59 (normalize False raw))"
    and "strip (split_on 59 (normalize False raw) ! i) = x @ t @ gap @ rest"
    and "alter_words x" "plain_name t" "name_gap gap" "clause_text rest"
    and "\<not> list_all (additive_alter_table_clause al) (top_level_clauses rest)"
  shows "resolvable_table t
    \<and> (\<exists>j < i. \<exists>y z. strip (split_on 59 (normalize False raw) ! j) = y @ t @ z \<and> create_words y \<and> (z = [] \<or> \<not> rel_char (hd z)))
    \<and> ((dl \<or> links al raw) \<longrightarrow> matches al ATTACH_RE rest)"
proof -
  let ?parts = "split_on 59 (normalize False raw)"
  let ?created = "\<Union>p \<in> set (take i ?parts). registered al (strip p)"
  have add: "is_additive al False ?created None (dl \<or> links al raw) (strip (?parts ! i))"
    by (rule lint_file_clean [OF assms(1,2)])
  have new: "new_this_deploy t ?created None" and attach: "(dl \<or> links al raw) \<longrightarrow> matches al ATTACH_RE rest"
    using old_table_clauses [OF assms(4-7,3) add] assms(8) by blast+
  from new have "t \<in> ?created" by (simp add: new_this_deploy_def split: if_splits)
  then obtain j where j: "j < i" "j < length ?parts" "t \<in> registered al (strip (?parts ! j))"
    by (auto simp: in_set_conv_nth)
  from registered_created [OF j(3)] j(1) attach show ?thesis by blast
qed

section \<open>Conditional creation\<close>

lemma results_kw_exact: "list_all2 ign (codes w) u \<Longrightarrow> results al (kw w) (b, u @ a, g) = [(rev u @ b, a, g)]"
  using list_all2_lengthD [of ign "codes w" u] by (simp add: kw_def results_lits)

lemma spaces_exact: "a = [] \<or> \<not> is_space (hd a) \<Longrightarrow> results al spaces (b, 32 # a, g) = [(32 # b, a, g)]"
  by (cases a) (simp_all add: plus_def is_space_def [of 32])

lemma no_kind_before_table:
  assumes "list_all2 ign (codes ''TABLE'') v"
  shows "results al new_kinds (b, v @ a, g) = [(b, v @ a, g)]"
proof -
  from assms obtain c d v' where v: "v = c # d # v'" "ign 84 c" "ign 65 d" by (auto simp: codes_def list_all2_Cons1)
  have "\<not> ign 71 c" "\<not> ign 76 c" "\<not> ign 85 c" "\<not> ign 69 d"
    using ign_unique [OF v(2)] ign_unique [OF v(3)] by (fastforce simp: ascii_lower_def)+
  then show ?thesis unfolding new_kinds_def v(1) by (subst results.simps(7)) (simp add: kw_def codes_def)
qed

text \<open>
  A table created only if it does not exist is not taken for new, whatever name follows: the long s that
  \<^verbatim>\<open>re\<close> takes for an s is alphanumeric in Unicode.
\<close>

lemma conditional_create_unregistered:
  assumes "spelled [''CREATE'', ''TABLE'', ''IF'', ''NOT'', ''EXISTS''] x" "al 383"
  shows "registered al (x @ a) = {}"
proof -
  from assms(1) obtain u v i n e where x: "x = u @ 32 # v @ 32 # i @ 32 # n @ 32 # e @ [32]"
    and w: "list_all2 ign (codes ''CREATE'') u" "list_all2 ign (codes ''TABLE'') v" "list_all2 ign (codes ''IF'') i"
      "list_all2 ign (codes ''NOT'') n" "list_all2 ign (codes ''EXISTS'') e"
    by (auto simp: spelled_Cons simp del: spelled.simps(2))
  have up: "upper ''TABLE''" "upper ''IF''" "upper ''NOT''" "upper ''EXISTS''" by (simp_all add: upper_def codes_def)
  have hd: "\<not> is_space (hd (v @ s))" "\<not> is_space (hd (i @ s))" "\<not> is_space (hd (n @ s))" "\<not> is_space (hd (e @ s))" for s
    using word_head [OF w(2) up(1)] word_head [OF w(3) up(2)] word_head [OF w(4) up(3)] word_head [OF w(5) up(4)] by simp_all
  from w(5) obtain d where d: "rev e \<noteq> []" "hd (rev e) = d" "ign 83 d" by (auto simp: codes_def list_all2_Cons1)
  then have "word_char al d" using assms(2) by (auto simp: ign_def word_char_def ascii_lower_def split: if_splits)
  then have bound: "results al Bound (rev e @ b, 32 # a, g) = [(rev e @ b, 32 # a, g)]" for b g
    using d by (cases "rev e") (simp_all add: word_char_def [of al 32])
  have guard: "results al (Unless (Then (kws [''IF'', ''NOT'', ''EXISTS'']) Bound)) (b, i @ 32 # n @ 32 # e @ 32 # a, g) = []" for b g
    by (simp add: results_kw_exact [OF w(3)] results_kw_exact [OF w(4)] results_kw_exact [OF w(5)] spaces_exact hd bound
        del: results.simps(2))
  have "results al CREATE_TABLE_NAME_RE ([], u @ 32 # v @ 32 # i @ 32 # n @ 32 # e @ 32 # a, None) = []"
    unfolding CREATE_TABLE_NAME_RE_def
    by (simp add: results_kw_exact [OF w(1)] results_kw_exact [OF w(2)] spaces_exact hd no_kind_before_table [OF w(2)] guard
        del: results.simps(3) kws.simps)
  then show ?thesis unfolding registered_def rmatch_def x by simp
qed

end
