(* ===== verification/Migration_Lint_Scan.thy ===== *)
theory Migration_Lint_Scan
  imports Migration_Lint_Props
begin

text \<open>
  The scanner of the migration linter against the grammar of SQL's opaque tokens: strings, escaped strings,
  dollar quotes, quoted identifiers, line comments and nested block comments. A migration text is code with
  such tokens between its pieces; the scanner finds exactly these tokens, so that what a string or a comment
  holds has no influence on the verdict.
\<close>

section \<open>Opaque tokens\<close>

datatype eunit = Esc nat | Raw nat | Quote_Pair

fun eunit_text :: "eunit \<Rightarrow> pytext" where
  "eunit_text (Esc c) = [92, c]"
| "eunit_text (Raw c) = [c]"
| "eunit_text Quote_Pair = [39, 39]"

fun eunit_ok :: "eunit \<Rightarrow> bool" where
  "eunit_ok (Raw c) \<longleftrightarrow> c \<noteq> 92 \<and> c \<noteq> 39"
| "eunit_ok u \<longleftrightarrow> True"

datatype opaque = Str pytext | Escaped "eunit list" | Dollar pytext pytext | Quoted pytext | Unicode_Quoted pytext
  | Line pytext | Block pytext

definition doubled :: "nat \<Rightarrow> pytext \<Rightarrow> pytext" where
  "doubled q s = concat (map (\<lambda>c. if c = q then [q, q] else [c]) s)"

definition close_tag :: "pytext \<Rightarrow> pytext" where
  "close_tag tag = 36 # tag @ [36]"

fun token_text :: "opaque \<Rightarrow> pytext" where
  "token_text (Str s) = 39 # doubled 39 s @ [39]"
| "token_text (Escaped us) = 69 # 39 # concat (map eunit_text us) @ [39]"
| "token_text (Dollar tag s) = close_tag tag @ s @ close_tag tag"
| "token_text (Quoted s) = 34 # doubled 34 s @ [34]"
| "token_text (Unicode_Quoted s) = 85 # 38 # 34 # doubled 34 s @ [34]"
| "token_text (Line s) = 45 # 45 # s"
| "token_text (Block s) = 47 # 42 # s @ [42, 47]"

text \<open>The inside of a block comment: its comments are closed, and no other pair looks like a delimiter.\<close>

inductive comment_body :: "pytext \<Rightarrow> bool" where
  comment_empty: "comment_body []"
| comment_other: "comment_body s \<Longrightarrow> c \<noteq> 42 \<Longrightarrow> c \<noteq> 47 \<Longrightarrow> comment_body (c # s)"
| comment_stars: "comment_body [42]"
| comment_star: "comment_body (d # s) \<Longrightarrow> d \<noteq> 47 \<Longrightarrow> comment_body (42 # d # s)"
| comment_slash: "comment_body (d # s) \<Longrightarrow> d \<noteq> 42 \<Longrightarrow> comment_body (47 # d # s)"
| comment_nested: "comment_body s \<Longrightarrow> comment_body u \<Longrightarrow> comment_body (47 # 42 # s @ 42 # 47 # u)"

definition tag_ok :: "pytext \<Rightarrow> bool" where
  "tag_ok tag \<longleftrightarrow> list_all (word_char (\<lambda>_. True)) tag \<and> (tag = [] \<or> \<not> (48 \<le> hd tag \<and> hd tag \<le> 57))"

fun token_ok :: "opaque \<Rightarrow> bool" where
  "token_ok (Str s) \<longleftrightarrow> True"
| "token_ok (Escaped us) \<longleftrightarrow> list_all eunit_ok us"
| "token_ok (Dollar tag s) \<longleftrightarrow> tag_ok tag \<and> split_first (close_tag tag) (s @ close_tag tag) = Some (s, [])"
| "token_ok (Quoted s) \<longleftrightarrow> True"
| "token_ok (Unicode_Quoted s) \<longleftrightarrow> True"
| "token_ok (Line s) \<longleftrightarrow> list_all (\<lambda>c. c \<noteq> 13 \<and> c \<noteq> 10) s"
| "token_ok (Block s) \<longleftrightarrow> comment_body s"

text \<open>What may follow a token, and what the scanner writes for it.\<close>

fun follows :: "opaque \<Rightarrow> pytext \<Rightarrow> bool" where
  "follows (Line s) a \<longleftrightarrow> a = [] \<or> hd a = 13 \<or> hd a = 10"
| "follows t a \<longleftrightarrow> a = [] \<or> hd a \<noteq> 39 \<and> hd a \<noteq> 34"

fun emitted :: "bool \<Rightarrow> opaque \<Rightarrow> pytext" where
  "emitted k (Quoted s) = (if k then 32 # s @ [32] else spaced_mark ''qi'')"
| "emitted k (Unicode_Quoted s) = (if k then 32 # decode_uescape s @ [32] else spaced_mark ''qi'')"
| "emitted k (Line s) = [32]"
| "emitted k (Block s) = [32]"
| "emitted k t = spaced_mark [CHR 39, CHR 39]"

section \<open>How far a token reaches\<close>

lemma scan_quoted_str:
  assumes "a = [] \<or> hd a \<noteq> 39"
  shows "scan_quoted False (doubled 39 s @ 39 # a) = length (doubled 39 s) + 1"
proof (induction s)
  case Nil
  then show ?case using assms by (cases a) (simp_all add: doubled_def)
qed (simp add: doubled_def)

lemma scan_quoted_escaped:
  assumes "list_all eunit_ok us" "a = [] \<or> hd a \<noteq> 39"
  shows "scan_quoted True (concat (map eunit_text us) @ 39 # a) = length (concat (map eunit_text us)) + 1"
  using assms(1)
proof (induction us)
  case Nil
  then show ?case using assms(2) by (cases a) simp_all
next
  case (Cons u us)
  then show ?case by (cases u) simp_all
qed

lemma scan_ident_quoted:
  assumes "a = [] \<or> hd a \<noteq> 34"
  shows "scan_ident (doubled 34 s @ 34 # a) = length (doubled 34 s) + 1"
proof (induction s)
  case Nil
  then show ?case using assms by (cases a) (simp_all add: doubled_def)
qed (simp add: doubled_def)

lemma scan_block_body: "comment_body s \<Longrightarrow> scan_block (Suc d) (s @ 42 # 47 # a) = length s + 2 + scan_block d a"
proof (induction arbitrary: d a rule: comment_body.induct)
  case (comment_other s c)
  then show ?case by (cases s) simp_all
qed simp_all

lemma scan_line_text: "list_all (\<lambda>c. c \<noteq> 13 \<and> c \<noteq> 10) s \<Longrightarrow> a = [] \<or> hd a = 13 \<or> hd a = 10 \<Longrightarrow> scan_line (s @ a) = length s"
  by (induction s) (cases a, auto simp: scan_line_def)

lemma undouble_other: "c \<noteq> 34 \<Longrightarrow> undouble (c # s) = c # undouble s"
  by (cases s) simp_all

lemma undouble_doubled: "undouble (doubled 34 s) = s"
  by (induction s) (auto simp: doubled_def undouble_other)

lemma split_first_local:
  "split_first sep (s @ sep) = Some (s, []) \<Longrightarrow> split_first sep (s @ sep @ a) = Some (s, a)"
proof (induction s)
  case Nil
  then show ?case by (cases sep; cases a) auto
next
  case (Cons c s)
  have same: "prefix sep (c # s @ sep @ a) \<longleftrightarrow> prefix sep (c # s @ sep)"
  proof
    assume "prefix sep (c # s @ sep @ a)"
    moreover have "prefix (c # s @ sep) (c # s @ sep @ a)" by (simp add: prefix_def)
    ultimately have "prefix sep (c # s @ sep) \<or> prefix (c # s @ sep) sep" by (rule prefix_same_cases)
    moreover have "\<not> prefix (c # s @ sep) sep" by (auto dest: prefix_length_le)
    ultimately show "prefix sep (c # s @ sep)" by blast
  next
    assume "prefix sep (c # s @ sep)"
    then show "prefix sep (c # s @ sep @ a)" by (metis append_Cons append_assoc prefix_prefix)
  qed
  have "\<not> prefix sep (c # s @ sep)" "split_first sep (s @ sep) = Some (s, [])"
    using Cons.prems by (auto split: if_splits)
  with Cons.IH same show ?case by simp
qed

lemma leads_Group: "leads al r (b, a, g) (b', a', g') \<Longrightarrow> leads al (Group r) (b, a, g) (b', a', Some (taken b' b))"
  unfolding leads_def by auto

lemma dollar_open:
  assumes "tag_ok tag"
  shows "rmatch al DOLLAR_OPEN (close_tag tag @ a) = Some (rev (close_tag tag), a, Some tag)"
proof -
  let ?start = "Chars (\<lambda>c. word_char (\<lambda>_. True) c \<and> \<not> (48 \<le> c \<and> c \<le> 57))"
  let ?alt = "Either (Then ?start (Many (Chars (word_char (\<lambda>_. True))))) Empty"
  have "leads al ?alt ([36], tag @ 36 # a, None) (rev tag @ [36], 36 # a, None)"
  proof (cases tag)
    case Nil
    then show ?thesis by (simp add: leads_def word_char_def)
  next
    case (Cons c u)
    have "leads al ?start ([36], tag @ 36 # a, None) ([c, 36], u @ 36 # a, None)"
      using assms Cons by (simp add: leads_def tag_ok_def)
    moreover have "leads al (Many (Chars (word_char (\<lambda>_. True)))) ([c, 36], u @ 36 # a, None) (rev u @ [c, 36], 36 # a, None)"
      by (rule results_run) (use assms Cons in \<open>simp_all add: tag_ok_def word_char_def\<close>)
    ultimately have "leads al (Then ?start (Many (Chars (word_char (\<lambda>_. True))))) ([36], tag @ 36 # a, None) (rev tag @ [36], 36 # a, None)"
      unfolding Cons by (auto intro: leads_Then)
    then show ?thesis unfolding leads_def by auto
  qed
  from leads_Group [OF this] have "leads al (Group ?alt) ([36], tag @ 36 # a, None) (rev tag @ [36], 36 # a, Some tag)"
    by (simp add: taken_def)
  moreover have "leads al (Chars (\<lambda>c. c = 36)) (rev tag @ [36], 36 # a, Some tag) (36 # rev tag @ [36], a, Some tag)"
    by (simp add: leads_def)
  moreover have "leads al (Chars (\<lambda>c. c = 36)) ([], close_tag tag @ a, None) ([36], tag @ 36 # a, None)"
    by (simp add: leads_def close_tag_def)
  ultimately have "leads al DOLLAR_OPEN ([], close_tag tag @ a, None) (36 # rev tag @ [36], a, Some tag)"
    unfolding DOLLAR_OPEN_def seqs.simps by (auto intro!: leads_Then)
  then show ?thesis by (simp add: leads_match close_tag_def)
qed

lemma scan_dollar_text:
  assumes "tag_ok tag" "split_first (close_tag tag) (s @ close_tag tag) = Some (s, [])"
  shows "scan_dollar (close_tag tag @ s @ close_tag tag @ a) = Some (length (close_tag tag @ s @ close_tag tag))"
  using split_first_local [OF assms(2), of a] dollar_open [OF assms(1)]
  by (simp add: scan_dollar_def close_tag_def [of tag, symmetric] del: append_assoc) (simp add: close_tag_def)

section \<open>The loop\<close>

lemma scan_step:
  assumes "a \<noteq> []" "scan_turn k b a = (out, n)"
  shows "scan k b a = out @ scan k (rev (take n a) @ b) (drop n a)"
  using assms by (subst scan.simps) simp

lemma scan_turn_context:
  assumes "fresh_token b = fresh_token b'"
  shows "scan_turn k b a = scan_turn k b' a"
  unfolding scan_turn_def assms by (rule refl)

lemma fresh_after: "0 < n \<Longrightarrow> a \<noteq> [] \<Longrightarrow> fresh_token (rev (take n a) @ b) = fresh_token (rev (take n a) @ b')"
  by (cases "take n a") (auto simp: fresh_token_def hd_append)

lemma scan_context: "fresh_token b = fresh_token b' \<Longrightarrow> scan k b a = scan k b' a"
proof (induction "length a" arbitrary: a b b' rule: less_induct)
  case less
  show ?case
  proof (cases "a = []")
    case False
    obtain out n where t: "scan_turn k b a = (out, n)" by (cases "scan_turn k b a")
    then have n: "0 < n" using scan_turn_moves [of k b a] by simp
    have t': "scan_turn k b' a = (out, n)" using t scan_turn_context [OF less.prems] by metis
    have "scan k (rev (take n a) @ b) (drop n a) = scan k (rev (take n a) @ b') (drop n a)"
      by (rule less.hyps) (use n False in simp, rule fresh_after [OF n False])
    then show ?thesis using scan_step [OF False t] scan_step [OF False t'] by simp
  qed (simp add: scan.simps)
qed

lemma token_turn:
  assumes "token_ok t" "follows t a" "fresh_token b"
  shows "scan_turn k b (token_text t @ a) = (emitted k t, length (token_text t))"
proof (cases t)
  case (Str s)
  then have "a = [] \<or> hd a \<noteq> 39" using assms(2) by auto
  from scan_quoted_str [OF this, of s] Str show ?thesis by (simp add: scan_turn_def codes_def)
next
  case (Escaped us)
  then have "a = [] \<or> hd a \<noteq> 39" "list_all eunit_ok us" using assms(1,2) by auto
  from scan_quoted_escaped [OF this(2,1)] Escaped assms(3) show ?thesis by (simp add: scan_turn_def codes_def)
next
  case (Dollar tag s)
  then have "scan_dollar (close_tag tag @ s @ close_tag tag @ a) = Some (length (close_tag tag @ s @ close_tag tag))"
    using assms(1) by (intro scan_dollar_text) simp_all
  then show ?thesis using assms(3) Dollar by (simp add: scan_turn_def codes_def close_tag_def)
next
  case (Quoted s)
  then have "a = [] \<or> hd a \<noteq> 34" using assms(2) by auto
  from scan_ident_quoted [OF this, of s] Quoted show ?thesis
    by (simp add: scan_turn_def codes_def Let_def undouble_doubled)
next
  case (Unicode_Quoted s)
  then have "a = [] \<or> hd a \<noteq> 34" using assms(2) by auto
  from scan_ident_quoted [OF this, of s] Unicode_Quoted assms(3) show ?thesis
    by (simp add: scan_turn_def codes_def Let_def undouble_doubled)
next
  case (Line s)
  then have "scan_line (s @ a) = length s" using assms(1,2) by (intro scan_line_text) simp_all
  with Line show ?thesis by (simp add: scan_turn_def codes_def)
next
  case (Block s)
  then have "comment_body s" using assms(1) by simp
  from scan_block_body [OF this, of 0 a] Block show ?thesis by (simp add: scan_turn_def codes_def)
qed

lemma scan_token:
  assumes "token_ok t" "follows t a" "fresh_token b"
  shows "scan k b (token_text t @ a) = emitted k t @ scan k (rev (token_text t) @ b) a"
proof -
  have "token_text t @ a \<noteq> []" by (cases t) (simp_all add: close_tag_def)
  from scan_step [OF this token_turn [OF assms, of k]] show ?thesis by simp
qed

section \<open>Code between tokens\<close>

fun code_ok :: "pytext \<Rightarrow> bool" where
  "code_ok [] \<longleftrightarrow> True"
| "code_ok (c # s) \<longleftrightarrow> c \<noteq> 34 \<and> c \<noteq> 36 \<and> c \<noteq> 39
     \<and> \<not> (c = 45 \<and> prefix [45] s) \<and> \<not> (c = 47 \<and> prefix [42] s) \<and> code_ok s"

text \<open>A character after which a token starts afresh.\<close>

definition ender :: "nat \<Rightarrow> bool" where
  "ender c \<longleftrightarrow> \<not> ident_char c \<and> c \<noteq> 38 \<and> c \<noteq> 45 \<and> c \<noteq> 47"

lemma ident_letters: "ident_char 69" "ident_char 101" "ident_char 85" "ident_char 117"
  by (simp_all add: ident_char_def word_char_def)

lemma code_turn:
  assumes "code_ok (c # s)" "a = [] \<or> ender (last (c # s))"
  shows "scan_turn k b (c # s @ a) = ([c], 1)"
proof -
  have plain: "c \<noteq> 34" "c \<noteq> 36" "c \<noteq> 39" using assms(1) by simp_all
  have comment: "\<not> prefix [45, 45] (c # s @ a)" "\<not> prefix [47, 42] (c # s @ a)"
    using assms by (cases s; auto simp: ender_def)+
  have string: "\<not> ((c = 69 \<or> c = 101) \<and> prefix [39] (s @ a))"
    using assms ident_letters by (cases s) (auto simp: ender_def)
  have name: "\<not> ((c = 85 \<or> c = 117) \<and> prefix [38, 34] (s @ a))"
  proof (cases s)
    case Nil
    then show ?thesis using assms ident_letters by (auto simp: ender_def)
  next
    case (Cons d u)
    then show ?thesis using assms by (cases u) (auto simp: ender_def)
  qed
  show ?thesis unfolding scan_turn_def Let_def list.sel codes_def
    using plain comment string name by simp blast
qed

lemma scan_code:
  assumes "code_ok s" "a = [] \<or> s = [] \<or> ender (last s)"
  shows "scan k b (s @ a) = s @ scan k (rev s @ b) a"
  using assms
proof (induction s arbitrary: b)
  case (Cons c s)
  have "a = [] \<or> ender (last (c # s))" using Cons.prems(2) by simp
  from scan_step [OF _ code_turn [OF Cons.prems(1) this, of k b]]
  have "scan k b (c # s @ a) = c # scan k (c # b) (s @ a)" by simp
  also have "scan k (c # b) (s @ a) = s @ scan k (rev s @ c # b) a"
    by (rule Cons.IH) (use Cons.prems in \<open>auto split: if_splits\<close>)
  finally show ?case by simp
qed simp

section \<open>Whole texts\<close>

fun layout :: "pytext \<Rightarrow> (opaque \<times> pytext) list \<Rightarrow> pytext" where
  "layout c [] = c"
| "layout c ((t, d) # ts) = c @ token_text t @ layout d ts"

fun laid_out :: "pytext \<Rightarrow> (opaque \<times> pytext) list \<Rightarrow> bool" where
  "laid_out c [] \<longleftrightarrow> code_ok c"
| "laid_out c ((t, d) # ts) \<longleftrightarrow> code_ok c \<and> (c = [] \<or> ender (last c)) \<and> token_ok t \<and> follows t d \<and> (d \<noteq> [] \<or> ts = [])
     \<and> laid_out d ts"

lemma layout_head: "c \<noteq> [] \<Longrightarrow> hd (layout c ts) = hd c \<and> layout c ts \<noteq> []"
  by (cases "(c, ts)" rule: layout.cases) auto

lemma follows_layout:
  assumes "follows t d" "d \<noteq> [] \<or> ts = []"
  shows "follows t (layout d ts)"
proof (cases "d = []")
  case True
  then show ?thesis using assms by simp
next
  case False
  then show ?thesis using assms(1) layout_head [of d ts] by (cases t) auto
qed

lemma scan_layout:
  assumes "laid_out c ts" "c = [] \<Longrightarrow> ts = [] \<or> fresh_token b"
  shows "scan k b (layout c ts) = c @ concat (map (\<lambda>(t, d). emitted k t @ d) ts)"
  using assms
proof (induction c ts arbitrary: b rule: layout.induct)
  case (1 c)
  then show ?case using scan_code [of c "[]" k b] by (simp add: scan.simps [of k _ "[]"])
next
  case (2 c t d ts)
  have fresh: "fresh_token (rev c @ b)"
  proof (cases "c = []")
    case True
    then show ?thesis using 2(3) by simp
  next
    case False
    then have "ender (last c)" using 2(2) by simp
    moreover have "hd (rev c @ b) = last c" using False by (simp add: hd_rev)
    ultimately show ?thesis by (simp add: fresh_token_def ender_def)
  qed
  have "scan k b (layout c ((t, d) # ts)) = c @ scan k (rev c @ b) (token_text t @ layout d ts)"
    using 2(2) by (simp add: scan_code)
  also have "\<dots> = c @ emitted k t @ scan k (rev (token_text t) @ rev c @ b) (layout d ts)"
    using scan_token [OF _ follows_layout fresh] 2(2) by simp
  also have "scan k (rev (token_text t) @ rev c @ b) (layout d ts) = d @ concat (map (\<lambda>(t, d). emitted k t @ d) ts)"
    by (rule 2(1)) (use 2(2) in auto)
  finally show ?case by simp
qed

text \<open>What is left of a token when the contents of strings and comments are forgotten.\<close>

fun forgotten :: "opaque \<Rightarrow> opaque" where
  "forgotten (Quoted s) = Quoted s"
| "forgotten (Unicode_Quoted s) = Unicode_Quoted s"
| "forgotten (Line s) = Line []"
| "forgotten (Block s) = Line []"
| "forgotten t = Str []"

lemma emitted_forgotten: "emitted k (forgotten t) = emitted k t"
  by (cases t) simp_all

lemma normalize_forgotten:
  assumes "laid_out c ts" "laid_out c us" "map (\<lambda>(t, d). (forgotten t, d)) ts = map (\<lambda>(t, d). (forgotten t, d)) us"
  shows "normalize k (layout c ts) = normalize k (layout c us)"
proof -
  have "map (\<lambda>(t, d). emitted k t @ d) vs = map (\<lambda>(t, d). emitted k t @ d) (map (\<lambda>(t, d). (forgotten t, d)) vs)" for vs
    by (induction vs) (auto simp: emitted_forgotten)
  then have "map (\<lambda>(t, d). emitted k t @ d) ts = map (\<lambda>(t, d). emitted k t @ d) us" using assms(3) by metis
  moreover have "scan k [] (layout c ts) = c @ concat (map (\<lambda>(t, d). emitted k t @ d) ts)"
    "scan k [] (layout c us) = c @ concat (map (\<lambda>(t, d). emitted k t @ d) us)"
    by (rule scan_layout, rule assms, simp add: fresh_token_def)+
  ultimately show ?thesis by (simp add: normalize_def)
qed

text \<open>
  C38. The contents of strings, escaped strings, dollar-quoted bodies and comments, nested ones included, have
  no influence on what the linter reports: two migrations that are the same code around such tokens
  get the same violations, so that nothing in a string or comment hides a statement or makes one up.
\<close>

theorem contents_are_opaque:
  assumes "laid_out c ts" "laid_out c us" "map (\<lambda>(t, d). (forgotten t, d)) ts = map (\<lambda>(t, d). (forgotten t, d)) us"
  shows "lint_file al r prev dl (layout c ts) = lint_file al r prev dl (layout c us)"
  unfolding lint_file_def normalize_forgotten [OF assms] by (rule refl)

end
