(* ===== verification/Migration_Lint_Examples.thy ===== *)
theory Migration_Lint_Examples
  imports Migration_Lint_Scan
begin

text \<open>
  Concrete migrations for the theorems on the linter, and three statements it accepts although its
  comments say that such statements are rejected.
\<close>

section \<open>Evaluation\<close>

lemmas rx_eval = codes_def ign_def ascii_lower_def word_char_def is_space_def kw_def opt_def plus_def phrase_def starts_def
  results.simps(7,8) shorter_def taken_def rmatch_def rsearch_def matches_def occurs_def rel_char_def name_rx_def

definition words :: "nat \<Rightarrow> bool" where
  "words c \<longleftrightarrow> True"

definition ex_alter :: pytext where
  "ex_alter = codes ''ALTER TABLE j* ADD COLUMN x int''"

definition ex_fs :: fs where
  "ex_fs = \<lparr>fs_is_dir = (\<lambda>_. False), fs_glob_sql = (\<lambda>_. []),
     fs_read = (\<lambda>p. if p = codes ''m.sql'' then Some ex_alter else if p = codes ''e'' then Some (codes ''j'') else None)\<rparr>"

lemma normalize_code: "code_ok s \<Longrightarrow> normalize k s = sub_dots (sub_space False s)"
  using scan_code [of s "[]" k "[]"] by (simp add: normalize_def scan.simps [of k _ "[]"])

lemma normalize_alter: "normalize k ex_alter = ex_alter"
proof -
  have "code_ok ex_alter" by (simp add: ex_alter_def codes_def)
  then show ?thesis by (simp add: normalize_code) (simp add: ex_alter_def codes_def is_space_def)
qed

lemma accepts_alter: "is_additive words False created (Some prev) linked ex_alter"
  by (simp add: is_additive_def ex_alter_def rx_eval strip_def lstrip_def DBLINK_RE_def alter_table_additive_def
      ALTER_TARGET_RE_def ATTACH_RE_def additive_alter_table_clause_def top_level_clauses_def NOT_NULL_RE_def Let_def)

lemma split_alter: "split_on 59 ex_alter = [ex_alter]"
  by (simp add: ex_alter_def codes_def)

lemma strip_alter: "strip ex_alter = ex_alter"
  by (simp add: ex_alter_def codes_def strip_def lstrip_def is_space_def)

lemma no_dblink_alter: "\<not> occurs al DBLINK_RE ex_alter"
  by (simp add: ex_alter_def DBLINK_RE_def rx_eval)

lemma ex_alter_ne: "ex_alter \<noteq> []"
  by (simp add: ex_alter_def codes_def)

lemma clean_alter: "lint_file words False (Some prev) linked ex_alter = []"
  by (simp add: lint_file_def normalize_alter split_alter strip_alter no_dblink_alter ex_alter_ne accepts_alter Let_def)

lemma ex_files: "sql_files ex_fs [codes ''m.sql''] = [codes ''m.sql'']"
  by (simp add: ex_fs_def path_suffix_def path_name_def codes_def)

lemma ex_lint: "lint_files words False (Some prev) ex_fs [codes ''m.sql''] = (0, [])"
  by (simp add: lint_files_def ex_files ex_fs_def clean_alter Let_def)

theorem existing_tables_protected_witness:
  "list_all (additive_alter_table_clause words) (top_level_clauses (codes ''ADD COLUMN x int''))"
proof (rule existing_tables_protected [where F = ex_fs and before = "[codes ''m.sql'']" and after = "[]" and e = "codes ''e''" and out = "[]"
      and f = "codes ''m.sql''" and raw = ex_alter and part = ex_alter and x = "codes ''ALTER TABLE ''" and t = "codes ''j''" and gap = "[42, 32]" and names = "codes ''j''"])
  have "lint_main words ex_fs ([codes ''m.sql''] @ codes ''--existing'' # codes ''e'' # []) = lint_files words False (Some (existing_names (codes ''j''))) ex_fs ([codes ''m.sql''] @ [])"
    by (rule lint_main_existing) (simp_all add: ex_fs_def codes_def)
  then show "lint_main words ex_fs ([codes ''m.sql''] @ codes ''--existing'' # codes ''e'' # []) = (0, [])" by (simp add: ex_lint)
  show "codes ''m.sql'' \<in> set (sql_files ex_fs ([codes ''m.sql''] @ []))" using ex_files by (simp del: sql_files.simps)
  show "ex_alter \<in> set (split_on 59 (normalize False ex_alter))" by (simp add: normalize_alter split_alter)
  show "strip ex_alter = codes ''ALTER TABLE '' @ codes ''j'' @ [42, 32] @ codes ''ADD COLUMN x int''"
    unfolding strip_alter by (simp add: ex_alter_def codes_def)
  show "alter_words (codes ''ALTER TABLE '')" by (simp add: alter_words_def codes_def ign_def ascii_lower_def)
  show "plain_name (codes ''j'')" by (simp add: plain_name_def codes_def rel_char_def is_space_def)
  show "name_gap [42, 32]" by (simp add: name_gap_def)
  show "clause_text (codes ''ADD COLUMN x int'')" by (simp add: clause_text_def codes_def is_space_def)
  show "\<not> resolvable_table (codes ''j'') \<or> pg_fold (last (split_on 46 (codes ''j''))) \<in> existing_names (codes ''j'')"
    by (simp add: existing_names_def codes_def split_ws_def is_space_def)
qed (simp_all add: ex_fs_def codes_def)

section \<open>Without the list of relations\<close>

definition ex_create :: pytext where
  "ex_create = codes ''CREATE TABLE j (a int)''"

definition ex_drop :: pytext where
  "ex_drop = codes ''ALTER TABLE j DROP COLUMN a''"

definition ex_file :: pytext where
  "ex_file = ex_create @ 59 # ex_drop"

lemma normalize_file: "normalize k ex_file = ex_file"
proof -
  have "code_ok ex_file" by (simp add: ex_file_def ex_create_def ex_drop_def codes_def)
  then show ?thesis by (simp add: normalize_code) (simp add: ex_file_def ex_create_def ex_drop_def codes_def is_space_def)
qed

lemma split_file: "split_on 59 ex_file = [ex_create, ex_drop]"
  by (simp add: ex_file_def ex_create_def ex_drop_def codes_def)

lemma strip_parts: "strip ex_create = ex_create" "strip ex_drop = ex_drop" "ex_create \<noteq> []" "ex_drop \<noteq> []"
  by (simp_all add: ex_create_def ex_drop_def codes_def strip_def lstrip_def is_space_def)

lemma registered_create: "registered words ex_create = {codes ''j''}"
  by (simp add: registered_def ex_create_def rx_eval CREATE_TABLE_NAME_RE_def new_kinds_def resolvable_table_def)

lemma create_words: "\<not> occurs al DBLINK_RE ex_create" "matches al (starts [''CREATE'']) ex_create"
  "\<not> matches al (starts [''CREATE'', ''OR'', ''REPLACE'']) ex_create" "\<not> matches al (UNIQUE_INDEX_RE words) ex_create"
  "rsearch al PARTITION_OF_RE ex_create = None" "matches al ADDITIVE_CREATE_RE ex_create"
  by (simp_all add: ex_create_def rx_eval DBLINK_RE_def UNIQUE_INDEX_RE_def PARTITION_OF_RE_def ADDITIVE_CREATE_RE_def new_kinds_def)

lemma accepts_create: "is_additive words False {} None False ex_create"
  by (simp add: is_additive_def strip_parts create_words create_additive_def)

lemma drop_words: "\<not> occurs al DBLINK_RE ex_drop" "\<not> matches al (starts [''CREATE'']) ex_drop"
  "matches al (starts [''ALTER'', ''TABLE'']) ex_drop"
  by (simp_all add: ex_drop_def rx_eval DBLINK_RE_def)

lemma drop_target: "\<exists>b. rmatch al ALTER_TARGET_RE ex_drop = Some (b, codes ''DROP COLUMN a'', Some (codes ''j''))"
  by (simp add: ex_drop_def rx_eval ALTER_TARGET_RE_def)

lemma accepts_drop: "is_additive words False {codes ''j''} None False ex_drop"
proof -
  obtain b where b: "rmatch words ALTER_TARGET_RE ex_drop = Some (b, codes ''DROP COLUMN a'', Some (codes ''j''))"
    using drop_target by blast
  have "rmatch words ATTACH_RE (codes ''DROP COLUMN a'') = None" by (simp add: ATTACH_RE_def rx_eval)
  moreover have "new_this_deploy (codes ''j'') {codes ''j''} None" by (simp add: new_this_deploy_def resolvable_table_def codes_def)
  ultimately show ?thesis by (simp add: is_additive_def strip_parts drop_words alter_table_additive_def b)
qed

lemma no_link_file: "\<not> occurs al DBLINK_RE ex_file" "\<not> occurs al LINK_RE ex_file"
  by (simp_all add: ex_file_def ex_create_def ex_drop_def DBLINK_RE_def LINK_RE_def rx_eval)

lemma clean_file: "lint_file words False None False ex_file = []"
  by (simp add: lint_file_def normalize_file split_file no_link_file strip_parts registered_create accepts_create accepts_drop Let_def)

theorem fallback_follows_creation_witness:
  "resolvable_table (codes ''j'') \<and> (\<exists>y z. ex_create = y @ codes ''j'' @ z \<and> create_words y \<and> (z = [] \<or> \<not> rel_char (hd z)))"
proof -
  let ?s = "\<lambda>k. strip (split_on 59 (normalize False ex_file) ! k)"
  have "resolvable_table (codes ''j'') \<and> (\<exists>k < 1. \<exists>y z. ?s k = y @ codes ''j'' @ z \<and> create_words y \<and> (z = [] \<or> \<not> rel_char (hd z)))
      \<and> ((False \<or> links words ex_file) \<longrightarrow> matches words ATTACH_RE (codes ''DROP COLUMN a''))"
  proof (rule fallback_follows_creation [where dl = False and i = 1 and x = "codes ''ALTER TABLE ''" and gap = "[32]"])
    show "lint_file words False None False ex_file = []" by (rule clean_file)
    show "1 < length (split_on 59 (normalize False ex_file))" by (simp add: normalize_file split_file)
    show "?s 1 = codes ''ALTER TABLE '' @ codes ''j'' @ [32] @ codes ''DROP COLUMN a''"
      unfolding normalize_file split_file by (simp add: strip_parts) (simp add: ex_drop_def codes_def)
    show "alter_words (codes ''ALTER TABLE '')" by (simp add: alter_words_def codes_def ign_def ascii_lower_def)
    show "plain_name (codes ''j'')" by (simp add: plain_name_def codes_def rel_char_def is_space_def)
    show "name_gap [32]" by (simp add: name_gap_def)
    show "clause_text (codes ''DROP COLUMN a'')" by (simp add: clause_text_def codes_def is_space_def)
    show "\<not> list_all (additive_alter_table_clause words) (top_level_clauses (codes ''DROP COLUMN a''))"
      by (simp add: additive_alter_table_clause_def top_level_clauses_def strip_def lstrip_def rx_eval)
  qed
  moreover have "?s 0 = ex_create" by (simp add: normalize_file split_file strip_parts)
  ultimately show ?thesis by (metis less_one)
qed

section \<open>Opaque contents\<close>

theorem contents_are_opaque_witness:
  "lint_file words False None False (layout (codes ''SELECT '') [(Str (codes ''DROP TABLE j''), codes '' FOR UPDATE'')])
   = lint_file words False None False (layout (codes ''SELECT '') [(Dollar [] (codes ''--''), codes '' FOR UPDATE'')])"
  by (rule contents_are_opaque) (simp_all add: codes_def ender_def ident_char_def word_char_def tag_ok_def close_tag_def)

section \<open>Statements that pass\<close>

text \<open>
  A foreign key added to an existing table passes when its action is \<^verbatim>\<open>ON DELETE SET DEFAULT\<close>: the clause
  check looks for \<^verbatim>\<open>SET DEFAULT\<close> anywhere in the clause, although an added constraint tightens the table.
\<close>

theorem foreign_key_passes:
  "is_additive words False {} (Some {codes ''j''}) False
     (codes ''ALTER TABLE j ADD CONSTRAINT f FOREIGN KEY (a) REFERENCES b (c) ON DELETE SET DEFAULT'')"
  by (simp add: is_additive_def rx_eval strip_def lstrip_def DBLINK_RE_def alter_table_additive_def NULL_DEFAULT_RE_def
      ALTER_TARGET_RE_def ATTACH_RE_def additive_alter_table_clause_def top_level_clauses_def new_this_deploy_def
      pg_fold_def utf8_len_def)

text \<open>
  A function call in the select list of a locking read passes when an earlier column has the label \<^verbatim>\<open>from\<close>,
  where the check takes the select list to end.
\<close>

theorem call_in_select_passes:
  "is_additive words False {} (Some {codes ''j''}) False (codes ''SELECT a AS from, f(1) FROM j FOR UPDATE'')"
  by (simp add: is_additive_def rx_eval strip_def lstrip_def DBLINK_RE_def select_additive_def FROM_RE_def)

text \<open>
  Postgres also takes the name after \<^verbatim>\<open>ONLY\<close> in parentheses. The pattern then takes \<^verbatim>\<open>ONLY\<close> itself for the name,
  which is no existing relation, so that every clause passes.
\<close>

theorem only_in_parentheses_passes:
  "is_additive words False {} (Some {codes ''j''}) False (codes ''ALTER TABLE ONLY (j) DROP COLUMN a'')"
  by (simp add: is_additive_def rx_eval strip_def lstrip_def DBLINK_RE_def alter_table_additive_def
      ALTER_TARGET_RE_def ATTACH_RE_def new_this_deploy_def resolvable_table_def pg_fold_def utf8_len_def)

end
