(* ===== verification/Dial_Shadow.thy ===== *)
theory Dial_Shadow
  imports Complex_Main Outcomes_Store
begin

text \<open>
  \<^verbatim>\<open>src/runtime/dialshadow.py\<close> and \<^verbatim>\<open>dialshadowrecord.py\<close>, with the snapshot table of the store: the shadow dial
  measures how precise the findings of each class are, classifies the class by a Wilson interval, takes
  snapshots and judges later whether labels that came since agree. Floating-point numbers are real
  numbers here; rounding is not modelled. Conversion of text to numbers, SHA-256 and lower-casing are
  arguments.
\<close>

section \<open>Pairs and parameters\<close>

definition SUPPRESSIBLE :: "pytext set" where
  "SUPPRESSIBLE = {}"

definition SUPPRESSIBLE_SET_VERSION :: string where
  "SUPPRESSIBLE_SET_VERSION = ''v1-empty''"

datatype pair_class = Pair_Real | Pair_FP | Pair_Excluded | Pair_Invalid

definition classify_pair :: "outcome_source \<Rightarrow> finding_outcome \<Rightarrow> pair_class" where
  "classify_pair s oc =
     (if (s, oc) = (Human_Confirm, Confirmed_Real) then Pair_Real
      else if (s, oc) = (Human_Dismiss, Dismissed_FP) then Pair_FP
      else if (s, oc) = (Human_Dismiss, Dismissed_Wontfix) then Pair_Excluded
      else Pair_Invalid)"

definition taxonomy_version :: "(pytext \<Rightarrow> string) \<Rightarrow> string" where
  "taxonomy_version sha = take 12 (sha (join_on [10] (sort RULE_TAG_TAXONOMY)))"

record shadow_params =
  sp_floor :: real
  sp_ceiling :: real
  sp_min_n :: nat
  sp_min_refs :: nat
  sp_min_plays :: nat
  sp_min_fp :: nat
  sp_recency_n :: nat
  sp_z :: real
  sp_stable_snaps :: nat
  sp_eval_min_n :: nat
  sp_eval_agree :: real

definition shadow_defaults :: shadow_params where
  "shadow_defaults = \<lparr>sp_floor = 30 / 100, sp_ceiling = 90 / 100, sp_min_n = 10, sp_min_refs = 2, sp_min_plays = 2,
     sp_min_fp = 3, sp_recency_n = 30, sp_z = 196 / 100, sp_stable_snaps = 4, sp_eval_min_n = 10,
     sp_eval_agree = 70 / 100\<rparr>"

text \<open>
  A knob of the environment: an unset, empty, malformed or unreasonable value leaves the default. What
  \<^verbatim>\<open>int\<close> and \<^verbatim>\<open>float\<close> make of a text is an argument, \<open>None\<close> when they raise or give no finite number.
\<close>

definition raw_knob :: "(string \<Rightarrow> string option) \<Rightarrow> string \<Rightarrow> string option" where
  "raw_knob env k = (case env k of None \<Rightarrow> None | Some t \<Rightarrow> if t = [] then None else Some t)"

definition count_knob :: "(string \<Rightarrow> int option) \<Rightarrow> (string \<Rightarrow> string option) \<Rightarrow> string \<Rightarrow> nat \<Rightarrow> nat" where
  "count_knob to_int env k dflt =
     (case raw_knob env k of None \<Rightarrow> dflt
      | Some t \<Rightarrow> (case to_int t of None \<Rightarrow> dflt | Some v \<Rightarrow> if v < 1 then dflt else nat v))"

definition float_knob :: "(real \<Rightarrow> bool) \<Rightarrow> (string \<Rightarrow> real option) \<Rightarrow> (string \<Rightarrow> string option) \<Rightarrow> string \<Rightarrow> real \<Rightarrow> real" where
  "float_knob sane to_float env k dflt =
     (case raw_knob env k of None \<Rightarrow> dflt
      | Some t \<Rightarrow> (case to_float t of None \<Rightarrow> dflt | Some v \<Rightarrow> if sane v then v else dflt))"

definition rate :: "real \<Rightarrow> bool" where
  "rate v \<longleftrightarrow> 0 \<le> v \<and> v \<le> 1"

definition from_env :: "(string \<Rightarrow> int option) \<Rightarrow> (string \<Rightarrow> real option) \<Rightarrow> (string \<Rightarrow> string option) \<Rightarrow> shadow_params" where
  "from_env to_int to_float env =
     \<lparr>sp_floor = float_knob rate to_float env ''SHADOW_FLOOR'' (sp_floor shadow_defaults),
      sp_ceiling = float_knob rate to_float env ''SHADOW_CEILING'' (sp_ceiling shadow_defaults),
      sp_min_n = count_knob to_int env ''SHADOW_MIN_N'' (sp_min_n shadow_defaults),
      sp_min_refs = count_knob to_int env ''SHADOW_MIN_REFS'' (sp_min_refs shadow_defaults),
      sp_min_plays = count_knob to_int env ''SHADOW_MIN_PLAYS'' (sp_min_plays shadow_defaults),
      sp_min_fp = count_knob to_int env ''SHADOW_MIN_FP'' (sp_min_fp shadow_defaults),
      sp_recency_n = count_knob to_int env ''SHADOW_RECENCY_N'' (sp_recency_n shadow_defaults),
      sp_z = float_knob (\<lambda>v. 0 < v \<and> v < 10) to_float env ''SHADOW_Z'' (sp_z shadow_defaults),
      sp_stable_snaps = count_knob to_int env ''SHADOW_STABLE_SNAPS'' (sp_stable_snaps shadow_defaults),
      sp_eval_min_n = count_knob to_int env ''SHADOW_EVAL_MIN_N'' (sp_eval_min_n shadow_defaults),
      sp_eval_agree = float_knob rate to_float env ''SHADOW_EVAL_AGREE'' (sp_eval_agree shadow_defaults)\<rparr>"

section \<open>The Wilson interval\<close>

datatype dial_error = Bad_Count int int

definition wilson :: "int \<Rightarrow> int \<Rightarrow> real \<Rightarrow> dial_error + (real \<times> real) option" where
  "wilson k n z =
     (if n \<le> 0 then Inr None
      else if \<not> (0 \<le> k \<and> k \<le> n) then Inl (Bad_Count k n)
      else
        (let z2 = z * z; denom = of_int n + z2; center = (of_int k + z2 / 2) / denom;
             half = z / denom * sqrt (of_int k * (of_int n - of_int k) / of_int n + z2 / 4) in
         Inr (Some (max 0 (center - half), min 1 (center + half)))))"

section \<open>Cells\<close>

datatype would_say = Insufficient | Would_Suppress | Would_Trust | Hold

record cell =
  ce_tag :: pytext
  ce_family :: string
  ce_real :: nat
  ce_fp :: nat
  ce_n :: nat
  ce_precision :: "real option"
  ce_wilson :: "(real \<times> real) option"
  ce_n_recent :: nat
  ce_precision_recent :: "real option"
  ce_wilson_recent :: "(real \<times> real) option"
  ce_refs :: nat
  ce_plays :: nat
  ce_invalid :: nat
  ce_says :: would_say
  ce_suppressible :: bool

definition pair_of :: "dial_label \<Rightarrow> pair_class" where
  "pair_of r = classify_pair (dl_source r) (dl_outcome r)"

definition admitted :: "dial_label \<Rightarrow> bool" where
  "admitted r \<longleftrightarrow> pair_of r = Pair_Real \<or> pair_of r = Pair_FP"

text \<open>The sets of references and plays; an empty text is no provenance.\<close>

definition refs_of :: "dial_label list \<Rightarrow> string list" where
  "refs_of rs = remdups (filter (\<lambda>t. t \<noteq> []) (map dl_ref rs))"

definition plays_of :: "dial_label list \<Rightarrow> string list" where
  "plays_of rs = remdups (filter (\<lambda>t. t \<noteq> []) (List.map_filter dl_play rs))"

definition ratio :: "nat \<Rightarrow> nat \<Rightarrow> real option" where
  "ratio k n = (if n = 0 then None else Some (of_nat k / of_nat n))"

definition classify :: "shadow_params \<Rightarrow> nat \<Rightarrow> nat \<Rightarrow> nat \<Rightarrow> nat \<Rightarrow> (real \<times> real) option \<Rightarrow> would_say" where
  "classify p n refs plays fp w =
     (if n < sp_min_n p \<or> refs < sp_min_refs p \<or> plays < sp_min_plays p then Insufficient
      else case w of
        None \<Rightarrow> Hold
      | Some (lo, hi) \<Rightarrow>
          if hi < sp_floor p \<and> fp \<ge> sp_min_fp p then Would_Suppress
          else if lo \<ge> sp_ceiling p then Would_Trust
          else Hold)"

definition last_n :: "nat \<Rightarrow> 'a list \<Rightarrow> 'a list" where
  "last_n n xs = (if n = 0 then xs else drop (length xs - n) xs)"

definition cell_of :: "shadow_params \<Rightarrow> pytext \<times> string \<Rightarrow> dial_label list \<Rightarrow> dial_error + cell" where
  "cell_of p c items =
     (let included = sort_key dl_seq (filter admitted items);
          invalid = count_where (\<lambda>r. pair_of r = Pair_Invalid) items;
          k = count_where (\<lambda>r. pair_of r = Pair_Real) included; n = length included;
          recent = last_n (sp_recency_n p) included;
          k_r = count_where (\<lambda>r. pair_of r = Pair_Real) recent; n_r = length recent;
          refs = length (refs_of included); plays = length (plays_of included) in
      case wilson (int k) (int n) (sp_z p) of
        Inl e \<Rightarrow> Inl e
      | Inr w \<Rightarrow>
          (case wilson (int k_r) (int n_r) (sp_z p) of
             Inl e \<Rightarrow> Inl e
           | Inr w_r \<Rightarrow>
               (let says = classify p n refs plays (n - k) w in
                Inr \<lparr>ce_tag = fst c, ce_family = snd c, ce_real = k, ce_fp = n - k, ce_n = n, ce_precision = ratio k n,
                  ce_wilson = w, ce_n_recent = n_r, ce_precision_recent = ratio k_r n_r, ce_wilson_recent = w_r,
                  ce_refs = refs, ce_plays = plays, ce_invalid = invalid, ce_says = says,
                  ce_suppressible = (says = Would_Suppress \<and> fst c \<in> SUPPRESSIBLE)\<rparr>)))"

definition cell_key :: "dial_label \<Rightarrow> pytext \<times> string" where
  "cell_key r = (dl_tag r, dl_family r)"

fun cells_of :: "shadow_params \<Rightarrow> dial_label list \<Rightarrow> (pytext \<times> string) list \<Rightarrow> dial_error + cell list" where
  "cells_of p rows [] = Inr []"
| "cells_of p rows (c # cs) =
     (case cell_of p c (filter (\<lambda>r. cell_key r = c) rows) of
        Inl e \<Rightarrow> Inl e
      | Inr x \<Rightarrow> (case cells_of p rows cs of Inl e \<Rightarrow> Inl e | Inr xs \<Rightarrow> Inr (x # xs)))"

definition aggregate_cells :: "dial_label list \<Rightarrow> shadow_params \<Rightarrow> dial_error + cell list" where
  "aggregate_cells rows p = cells_of p rows (sort (remdups (map cell_key rows)))"

section \<open>Snapshots\<close>

text \<open>A row of \<^verbatim>\<open>dial_shadow_snapshot\<close>. Of the text of the week rule the number is kept.\<close>

record snap_row =
  sn_cutoff :: nat
  sn_tag :: pytext
  sn_family :: string
  sn_real :: nat
  sn_fp :: nat
  sn_n :: nat
  sn_precision :: "real option"
  sn_wilson :: "(real \<times> real) option"
  sn_n_recent :: nat
  sn_wilson_recent :: "(real \<times> real) option"
  sn_refs :: nat
  sn_plays :: nat
  sn_says :: would_say
  sn_suppressible :: bool
  sn_params :: shadow_params
  sn_week_rule :: nat
  sn_set_version :: string
  sn_taxonomy :: string

record snap = snap_row +
  sn_id :: nat
  sn_at :: time

record snap_store =
  snaps :: "snap list"
  snap_next :: nat

definition snapshot_row :: "(pytext \<Rightarrow> string) \<Rightarrow> cell \<Rightarrow> nat \<Rightarrow> shadow_params \<Rightarrow> snap_row" where
  "snapshot_row sha c cutoff p =
     \<lparr>sn_cutoff = cutoff, sn_tag = ce_tag c, sn_family = ce_family c, sn_real = ce_real c, sn_fp = ce_fp c, sn_n = ce_n c,
      sn_precision = ce_precision c, sn_wilson = ce_wilson c, sn_n_recent = ce_n_recent c,
      sn_wilson_recent = ce_wilson_recent c, sn_refs = ce_refs c, sn_plays = ce_plays c, sn_says = ce_says c,
      sn_suppressible = ce_suppressible c, sn_params = p, sn_week_rule = sp_stable_snaps p,
      sn_set_version = SUPPRESSIBLE_SET_VERSION, sn_taxonomy = taxonomy_version sha\<rparr>"

text \<open>One transaction: \<open>None\<close> when a row fails the check on the family.\<close>

definition stamp_snap :: "nat \<Rightarrow> time \<Rightarrow> snap_row \<Rightarrow> snap" where
  "stamp_snap i now r = snap_row.extend r \<lparr>sn_id = i, sn_at = now\<rparr>"

definition dial_shadow_snapshot_append :: "time \<Rightarrow> snap_row list \<Rightarrow> snap_store \<Rightarrow> (snap_store \<times> nat) option" where
  "dial_shadow_snapshot_append now rows T =
     (if rows = [] then Some (T, 0)
      else if list_ex (\<lambda>r. sn_family r \<notin> set REVIEWER_FAMILIES) rows then None
      else Some (\<lparr>snaps = snaps T @ map (\<lambda>(i, r). stamp_snap i now r) (enumerate (snap_next T) rows),
                  snap_next = snap_next T + length rows\<rparr>, length rows))"

definition dial_shadow_snapshots :: "snap_store \<Rightarrow> snap list" where
  "dial_shadow_snapshots T = sort_key (\<lambda>s. (sn_tag s, sn_family s, sn_at s, sn_id s)) (snaps T)"

section \<open>The arming gate\<close>

text \<open>Weeks start on Monday and are numbered from the epoch, which was a Thursday.\<close>

definition iso_week :: "time \<Rightarrow> int" where
  "iso_week t = (t div 86400 + 3) div 7"

datatype gate = Stability | Both_Windows | Cohort | Agreement | Nonempty_Cohort

record arming =
  ar_snaps :: nat
  ar_gates :: "(gate \<times> bool) list"
  ar_eligible :: bool
  ar_cohort :: nat
  ar_cohort_fp :: nat
  ar_agree :: "real option"
  ar_agree_lo :: "real option"

definition suppressing :: "snap list \<Rightarrow> snap list" where
  "suppressing ss = filter (\<lambda>s. sn_says s = Would_Suppress) ss"

definition cohort_of :: "nat \<Rightarrow> dial_label list \<Rightarrow> dial_label list" where
  "cohort_of cutoff rows = filter (\<lambda>r. \<not> dl_seq r \<le> cutoff \<and> admitted r) rows"

definition below_floor :: "real \<Rightarrow> (real \<times> real) option \<Rightarrow> bool" where
  "below_floor f w = (case w of None \<Rightarrow> False | Some (lo, hi) \<Rightarrow> hi < f)"

definition eval_arming :: "snap list \<Rightarrow> dial_label list \<Rightarrow> dial_error + arming" where
  "eval_arming unsorted rows =
     (let ss = sort_key sn_at unsorted; ws = suppressing ss in
      if ws = [] then
        Inr \<lparr>ar_snaps = 0, ar_gates = [(Stability, False)], ar_eligible = False, ar_cohort = 0, ar_cohort_fp = 0,
             ar_agree = None, ar_agree_lo = None\<rparr>
      else
        (let latest = last ss; p = sn_params latest;
             weeks = remdups (map (\<lambda>s. iso_week (sn_at s)) ws);
             stable = (length ws \<ge> sp_stable_snaps p \<and> length weeks \<ge> sp_stable_snaps p);
             windows = (below_floor (sp_floor p) (sn_wilson latest) \<and> below_floor (sp_floor p) (sn_wilson_recent latest));
             cohort = cohort_of (foldl max 0 (map sn_cutoff ws)) rows;
             n = length cohort; fp = count_where (\<lambda>r. pair_of r = Pair_FP) cohort;
             enough = (n \<ge> sp_eval_min_n p \<and> length (refs_of cohort) \<ge> sp_min_refs p
               \<and> length (plays_of cohort) \<ge> sp_min_plays p \<and> fp \<ge> sp_min_fp p) in
         case (if n = 0 then Inr None else wilson (int fp) (int n) (sp_z p)) of
           Inl e \<Rightarrow> Inl e
         | Inr w \<Rightarrow>
             (let agree = (case w of None \<Rightarrow> False | Some (lo, hi) \<Rightarrow> lo \<ge> sp_eval_agree p) in
              Inr \<lparr>ar_snaps = length ws,
                   ar_gates = [(Stability, stable), (Both_Windows, windows), (Cohort, enough), (Agreement, agree), (Nonempty_Cohort, n > 0)],
                   ar_eligible = (stable \<and> windows \<and> enough \<and> agree \<and> n > 0), ar_cohort = n, ar_cohort_fp = fp,
                   ar_agree = (case w of None \<Rightarrow> None | Some _ \<Rightarrow> ratio fp n),
                   ar_agree_lo = (case w of None \<Rightarrow> None | Some (lo, hi) \<Rightarrow> Some lo)\<rparr>)))"

section \<open>The command\<close>

text \<open>
  What the ledger answers: whether it can be reached, the log each of the two reads of findings sees
  (\<open>None\<close> when the read raises), and whether the snapshot table can be read and written.
\<close>

record dial_calls =
  dc_connect :: bool
  dc_first :: "outcome_store option"
  dc_second :: "outcome_store option"
  dc_table :: bool

datatype dial_report =
    Table "cell list"
  | Nothing_Yet
  | Snapped "cell list" nat nat
  | Evaluated "((pytext \<times> string) \<times> arming) list"
  | Failed

datatype dial_mode = Mode_Table | Mode_Snapshot | Mode_Eval

fun eval_cells :: "snap list \<Rightarrow> dial_label list \<Rightarrow> (pytext \<times> string) list \<Rightarrow> dial_error + ((pytext \<times> string) \<times> arming) list" where
  "eval_cells ss rows [] = Inr []"
| "eval_cells ss rows (c # cs) =
     (let mine = filter (\<lambda>s. (sn_tag s, sn_family s) = c) ss in
      if suppressing mine = [] then eval_cells ss rows cs
      else case eval_arming mine (filter (\<lambda>r. cell_key r = c) rows) of
        Inl e \<Rightarrow> Inl e
      | Inr v \<Rightarrow> (case eval_cells ss rows cs of Inl e \<Rightarrow> Inl e | Inr vs \<Rightarrow> Inr ((c, v) # vs)))"

definition dial_table :: "shadow_params \<Rightarrow> dial_calls \<Rightarrow> dial_report" where
  "dial_table p d =
     (case dc_first d of None \<Rightarrow> Failed
      | Some st \<Rightarrow> (case aggregate_cells (dial_shadow_labels None st) p of Inl _ \<Rightarrow> Failed | Inr cs \<Rightarrow> Table cs))"

definition dial_snapshot :: "(pytext \<Rightarrow> string) \<Rightarrow> time \<Rightarrow> shadow_params \<Rightarrow> dial_calls \<Rightarrow> snap_store \<Rightarrow> snap_store \<times> dial_report" where
  "dial_snapshot sha now p d T =
     (case dc_first d of None \<Rightarrow> (T, Failed)
      | Some st \<Rightarrow>
          (let cutoff = max_finding_seq st in
           case dc_second d of None \<Rightarrow> (T, Failed)
           | Some st' \<Rightarrow>
               (case aggregate_cells (dial_shadow_labels (Some cutoff) st') p of
                  Inl _ \<Rightarrow> (T, Failed)
                | Inr [] \<Rightarrow> (T, Nothing_Yet)
                | Inr cs \<Rightarrow>
                    (if \<not> dc_table d then (T, Failed)
                     else case dial_shadow_snapshot_append now (map (\<lambda>c. snapshot_row sha c cutoff p) cs) T of
                       None \<Rightarrow> (T, Failed)
                     | Some (T', n) \<Rightarrow> (T', Snapped cs n cutoff)))))"

definition dial_eval :: "dial_calls \<Rightarrow> snap_store \<Rightarrow> dial_report" where
  "dial_eval d T =
     (case dc_first d of None \<Rightarrow> Failed
      | Some st \<Rightarrow>
          (if \<not> dc_table d then Failed
           else
             (let ss = dial_shadow_snapshots T in
              case eval_cells ss (dial_shadow_labels None st) (sort (remdups (map (\<lambda>s. (sn_tag s, sn_family s)) ss))) of
                Inl _ \<Rightarrow> Failed
              | Inr vs \<Rightarrow> Evaluated vs)))"

definition dial_run :: "(pytext \<Rightarrow> string) \<Rightarrow> time \<Rightarrow> shadow_params \<Rightarrow> dial_calls \<Rightarrow> dial_mode \<Rightarrow> snap_store \<Rightarrow> snap_store \<times> dial_report" where
  "dial_run sha now p d mode T =
     (if \<not> dc_connect d then (T, Failed)
      else case mode of
        Mode_Table \<Rightarrow> (T, dial_table p d)
      | Mode_Snapshot \<Rightarrow> dial_snapshot sha now p d T
      | Mode_Eval \<Rightarrow> (T, dial_eval d T))"

definition dial_main :: "(pytext \<Rightarrow> string) \<Rightarrow> time \<Rightarrow> shadow_params \<Rightarrow> dial_calls \<Rightarrow> string list \<Rightarrow> snap_store \<Rightarrow> snap_store \<times> dial_report" where
  "dial_main sha now p d raw T =
     (if raw = [] then dial_run sha now p d Mode_Table T
      else if raw = [''--snapshot''] then dial_run sha now p d Mode_Snapshot T
      else if raw = [''--eval''] then dial_run sha now p d Mode_Eval T
      else (T, Failed))"

section \<open>Display\<close>

definition display_tag :: "(pytext \<Rightarrow> pytext) \<Rightarrow> (pytext \<Rightarrow> string) \<Rightarrow> pytext \<Rightarrow> pytext" where
  "display_tag lower sha tag =
     (if is_allowed_tag lower tag then tag else codes ''<off-taxonomy:'' @ codes (take 8 (sha tag)) @ codes ''>'')"

definition display_family :: "(pytext \<Rightarrow> string) \<Rightarrow> string \<Rightarrow> pytext" where
  "display_family sha family =
     (if family \<in> set REVIEWER_FAMILIES then codes family
      else codes ''<off-family:'' @ codes (take 8 (sha (codes family))) @ codes ''>'')"

end
