(* ===== verification/Dial_Shadow_Props.thy ===== *)
theory Dial_Shadow_Props
  imports Dial_Shadow Outcomes_Store_Props
begin

text \<open>
  What the shadow dial shows: the Wilson interval holds the measured rate, so a class is called imprecise or
  trustworthy only when its measured precision is; a class becomes eligible only on labels that came after
  every prediction it is judged by; and a snapshot counts exactly the labels up to its cutoff.
\<close>

section \<open>The interval holds the rate\<close>

lemma wilson_cases:
  assumes "0 \<le> k" "k \<le> n"
  obtains (none) "n = 0" "wilson k n z = Inr None"
  | (some) lo hi where "0 < n" "wilson k n z = Inr (Some (lo, hi))"
  using assms by (cases "n = 0") (auto simp: wilson_def Let_def)

lemma wilson_rate:
  assumes "0 \<le> k" "k \<le> n" "0 < z" "wilson k n z = Inr (Some (lo, hi))"
  shows "0 < n" "0 \<le> lo" "lo \<le> of_int k / of_int n" "of_int k / of_int n \<le> hi" "hi \<le> 1"
proof -
  show n: "0 < n" using assms(4) by (auto simp: wilson_def split: if_splits)
  define N :: real where "N = of_int n"
  define K :: real where "K = of_int k"
  define D where "D = N + z * z"
  define S where "S = sqrt (K * (N - K) / N + z * z / 4)"
  have N: "0 < N" and K: "0 \<le> K" "K \<le> N" and D: "0 < D" using n assms(1-3) by (simp_all add: N_def K_def D_def add_pos_pos)
  have w: "lo = max 0 ((K + z * z / 2) / D - z / D * S)" "hi = min 1 ((K + z * z / 2) / D + z / D * S)"
    using assms n by (simp_all add: wilson_def Let_def N_def K_def D_def S_def)
  let ?p = "K / N"
  have p: "0 \<le> ?p" "?p \<le> 1" using N K by simp_all
  have gap: "?p - (K + z * z / 2) / D = z / D * (z * (?p - 1 / 2))"
  proof -
    have "?p * D = K + ?p * (z * z)" using N by (simp add: D_def field_simps)
    moreover have "(?p - (K + z * z / 2) / D) * D = ?p * D - (K + z * z / 2)" using D by (simp add: left_diff_distrib)
    moreover have "K + ?p * (z * z) - (K + z * z / 2) = z * (z * (?p - 1 / 2))" by (simp add: right_diff_distrib)
    ultimately have "(?p - (K + z * z / 2) / D) * D = z * (z * (?p - 1 / 2))" by simp
    then show ?thesis using D by (metis less_irrefl nonzero_eq_divide_eq times_divide_eq_left)
  qed
  have "(z * (?p - 1 / 2))\<^sup>2 \<le> K * (N - K) / N + z * z / 4"
  proof -
    have "(z * (?p - 1 / 2))\<^sup>2 = z * z / 4 - z * z * (?p * (1 - ?p))" by (simp add: power2_eq_square algebra_simps)
    moreover have "0 \<le> z * z * (?p * (1 - ?p))" by (rule mult_nonneg_nonneg [OF zero_le_square mult_nonneg_nonneg]) (use p in linarith)+
    moreover have "0 \<le> K * (N - K) / N" using N K by simp
    ultimately show ?thesis by linarith
  qed
  then have "\<bar>z * (?p - 1 / 2)\<bar> \<le> S" unfolding S_def by (metis real_sqrt_abs real_sqrt_le_mono)
  then have "z * (?p - 1 / 2) \<le> S" "- S \<le> z * (?p - 1 / 2)" by (metis abs_le_D1, metis abs_le_D2 minus_le_iff)
  moreover have zD: "0 \<le> z / D" using assms(3) D by simp
  ultimately have "z / D * (z * (?p - 1 / 2)) \<le> z / D * S" "z / D * (- S) \<le> z / D * (z * (?p - 1 / 2))"
    by (simp_all only: mult_left_mono)
  then have bound: "(K + z * z / 2) / D - z / D * S \<le> ?p" "?p \<le> (K + z * z / 2) / D + z / D * S"
    using gap by (simp_all add: algebra_simps)
  show "0 \<le> lo" "hi \<le> 1" by (simp_all add: w)
  show "lo \<le> of_int k / of_int n" using bound(1) p(1) unfolding w K_def N_def by (simp only: max.bounded_iff)
  show "of_int k / of_int n \<le> hi" using bound(2) p(2) unfolding w K_def N_def by (simp only: min.bounded_iff)
qed

section \<open>Cells\<close>

lemma count_admitted: "length (filter admitted xs) = count_where (\<lambda>r. pair_of r = Pair_Real) xs + count_where (\<lambda>r. pair_of r = Pair_FP) xs"
  by (induction xs) (auto simp: admitted_def)

lemma count_included:
  "count_where (\<lambda>r. pair_of r = Pair_Real) (sort_key dl_seq (filter admitted xs)) = count_where (\<lambda>r. pair_of r = Pair_Real) xs"
proof -
  have "count_where P (sort_key dl_seq ys) = count_where P ys" for P and ys :: "dial_label list"
    unfolding count_where_def by (metis filter_sort length_sort)
  moreover have "count_where (\<lambda>r. pair_of r = Pair_Real) (filter admitted xs) = count_where (\<lambda>r. pair_of r = Pair_Real) xs"
    by (induction xs) (auto simp: admitted_def)
  ultimately show ?thesis by simp
qed

lemma count_where_le_length: "count_where P xs \<le> length xs"
  by (simp add: count_where_def)

text \<open>What a cell says of the labels it stands for.\<close>

definition cell_sound :: "dial_label list \<Rightarrow> shadow_params \<Rightarrow> cell \<Rightarrow> bool" where
  "cell_sound rows p c \<longleftrightarrow>
     (let mine = filter (\<lambda>r. cell_key r = (ce_tag c, ce_family c)) rows in
      ce_real c = count_where (\<lambda>r. pair_of r = Pair_Real) mine \<and> ce_fp c = count_where (\<lambda>r. pair_of r = Pair_FP) mine
      \<and> ce_n c = ce_real c + ce_fp c \<and> ce_invalid c = count_where (\<lambda>r. pair_of r = Pair_Invalid) mine
      \<and> (ce_says c \<in> {Would_Suppress, Would_Trust} \<longrightarrow>
           sp_min_n p \<le> ce_n c \<and> sp_min_refs p \<le> ce_refs c \<and> sp_min_plays p \<le> ce_plays c \<and> 0 < ce_n c)
      \<and> (ce_says c = Would_Suppress \<longrightarrow> sp_min_fp p \<le> ce_fp c \<and> real (ce_real c) / real (ce_n c) < sp_floor p)
      \<and> (ce_says c = Would_Trust \<longrightarrow> sp_ceiling p \<le> real (ce_real c) / real (ce_n c))
      \<and> \<not> ce_suppressible c)"

lemma classify_sound:
  assumes "0 < z" "k \<le> n" "wilson (int k) (int n) z = Inr w" "classify p n refs plays fp w = says"
  shows "says \<in> {Would_Suppress, Would_Trust} \<Longrightarrow> sp_min_n p \<le> n \<and> sp_min_refs p \<le> refs \<and> sp_min_plays p \<le> plays \<and> 0 < n"
    and "says = Would_Suppress \<Longrightarrow> sp_min_fp p \<le> fp \<and> real k / real n < sp_floor p"
    and "says = Would_Trust \<Longrightarrow> sp_ceiling p \<le> real k / real n"
proof -
  have rate: "0 < n \<and> lo \<le> real k / real n \<and> real k / real n \<le> hi" if "w = Some (lo, hi)" for lo hi
    using wilson_rate [of "int k" "int n" z lo hi] assms(1-3) that by simp
  show "says \<in> {Would_Suppress, Would_Trust} \<Longrightarrow> sp_min_n p \<le> n \<and> sp_min_refs p \<le> refs \<and> sp_min_plays p \<le> plays \<and> 0 < n"
    using assms(4) rate by (auto simp: classify_def split: if_splits option.splits)
  show "says = Would_Suppress \<Longrightarrow> sp_min_fp p \<le> fp \<and> real k / real n < sp_floor p"
    using assms(4) rate by (fastforce simp: classify_def split: if_splits option.splits)
  show "says = Would_Trust \<Longrightarrow> sp_ceiling p \<le> real k / real n"
    using assms(4) rate by (fastforce simp: classify_def split: if_splits option.splits)
qed

lemma cell_of_sound:
  assumes "0 < sp_z p"
  obtains x where "cell_of p c (filter (\<lambda>r. cell_key r = c) rows) = Inr x" "ce_tag x = fst c" "ce_family x = snd c" "cell_sound rows p x"
proof -
  define mine where "mine = filter (\<lambda>r. cell_key r = c) rows"
  define included where "included = sort_key dl_seq (filter admitted mine)"
  define k where "k = count_where (\<lambda>r. pair_of r = Pair_Real) included"
  define n where "n = length included"
  define recent where "recent = last_n (sp_recency_n p) included"
  define k_r where "k_r = count_where (\<lambda>r. pair_of r = Pair_Real) recent"
  have kn: "k \<le> n" "k_r \<le> length recent" by (simp_all add: k_def n_def k_r_def count_where_le_length)
  obtain w where w: "wilson (int k) (int n) (sp_z p) = Inr w" by (rule wilson_cases [of "int k" "int n" "sp_z p"]) (use kn in auto)
  obtain w_r where w_r: "wilson (int k_r) (int (length recent)) (sp_z p) = Inr w_r"
    by (rule wilson_cases [of "int k_r" "int (length recent)" "sp_z p"]) (use kn in auto)
  obtain x where x: "cell_of p c mine = Inr x" "ce_tag x = fst c" "ce_family x = snd c" "ce_real x = k" "ce_fp x = n - k" "ce_n x = n"
    "ce_invalid x = count_where (\<lambda>r. pair_of r = Pair_Invalid) mine" "\<not> ce_suppressible x"
    "classify p n (ce_refs x) (ce_plays x) (n - k) w = ce_says x"
    using w w_r unfolding cell_of_def Let_def k_def n_def k_r_def recent_def included_def by (simp add: SUPPRESSIBLE_def)
  have k: "k = count_where (\<lambda>r. pair_of r = Pair_Real) mine" unfolding k_def included_def by (rule count_included)
  have n: "n = k + count_where (\<lambda>r. pair_of r = Pair_FP) mine" unfolding n_def included_def k by (simp add: count_admitted)
  have mine: "filter (\<lambda>r. cell_key r = (ce_tag x, ce_family x)) rows = mine" by (simp add: mine_def x)
  note says = classify_sound [OF assms kn(1) w x(9)]
  have "cell_sound rows p x" unfolding cell_sound_def mine Let_def x(4-8)
    using says k n x(8) by simp
  then show thesis using that x(1-3) by (simp add: mine_def)
qed

lemma cells_of_sound:
  assumes "0 < sp_z p"
  shows "\<exists>cells. cells_of p rows cs = Inr cells \<and> map (\<lambda>c. (ce_tag c, ce_family c)) cells = cs \<and> list_all (cell_sound rows p) cells"
proof (induction cs)
  case (Cons c cs)
  then obtain cells where cells: "cells_of p rows cs = Inr cells" "map (\<lambda>c. (ce_tag c, ce_family c)) cells = cs" "list_all (cell_sound rows p) cells"
    by blast
  obtain x where x: "cell_of p c (filter (\<lambda>r. cell_key r = c) rows) = Inr x" "ce_tag x = fst c" "ce_family x = snd c" "cell_sound rows p x"
    by (rule cell_of_sound [OF assms])
  then show ?case using cells by simp
qed simp

text \<open>
  C39. The dial always classifies, one cell per class and reviewer family in order; a cell counts exactly the
  labels of its class with an admitted pair, calls the class suppressible never, imprecise only if its
  measured precision is below the floor and trustworthy only if it reaches the ceiling, and neither
  without the required number of labels, references and plays.
\<close>

theorem shadow_cells_sound:
  assumes "0 < sp_z p"
  shows "\<exists>cells. aggregate_cells rows p = Inr cells
    \<and> map (\<lambda>c. (ce_tag c, ce_family c)) cells = sort (remdups (map cell_key rows)) \<and> list_all (cell_sound rows p) cells"
  unfolding aggregate_cells_def by (rule cells_of_sound [OF assms])

section \<open>Arming\<close>

lemma foldl_max: "foldl max (a :: nat) xs \<le> b \<longleftrightarrow> a \<le> b \<and> list_all (\<lambda>x. x \<le> b) xs"
  by (induction xs arbitrary: a) auto

lemma foldl_max_less: "foldl max (a :: nat) xs < b \<longleftrightarrow> a < b \<and> list_all (\<lambda>x. x < b) xs"
  by (induction xs arbitrary: a) auto

text \<open>The labels that came after every prediction a class is judged by.\<close>

definition fresh_labels :: "snap list \<Rightarrow> dial_label list \<Rightarrow> dial_label list" where
  "fresh_labels ss rows = filter (\<lambda>r. list_all (\<lambda>s. sn_says s = Would_Suppress \<longrightarrow> sn_cutoff s < dl_seq r) ss \<and> admitted r) rows"

lemma cohort_fresh:
  assumes "suppressing (sort_key sn_at ss) \<noteq> []"
  shows "cohort_of (foldl max 0 (map sn_cutoff (suppressing (sort_key sn_at ss)))) rows = fresh_labels ss rows"
proof -
  let ?ws = "suppressing (sort_key sn_at ss)"
  have "\<not> x \<le> foldl max 0 (map sn_cutoff ?ws) \<longleftrightarrow> list_all (\<lambda>s. sn_says s = Would_Suppress \<longrightarrow> sn_cutoff s < x) ss" for x
  proof -
    obtain s where "s \<in> set ?ws" using assms by (cases ?ws) auto
    then have "list_all (\<lambda>c. c < x) (map sn_cutoff ?ws) \<Longrightarrow> 0 < x" by (auto simp: list_all_iff)
    then have "\<not> x \<le> foldl max 0 (map sn_cutoff ?ws) \<longleftrightarrow> list_all (\<lambda>c. c < x) (map sn_cutoff ?ws)"
      unfolding not_le foldl_max_less by blast
    also have "\<dots> \<longleftrightarrow> list_all (\<lambda>s. sn_says s = Would_Suppress \<longrightarrow> sn_cutoff s < x) ss"
      by (auto simp: list_all_iff suppressing_def)
    finally show ?thesis .
  qed
  then show ?thesis by (simp add: cohort_of_def fresh_labels_def)
qed

definition armed :: "snap list \<Rightarrow> dial_label list \<Rightarrow> bool" where
  "armed ss c \<longleftrightarrow>
     (let now = last (sort_key sn_at ss); p = sn_params now in
      sp_stable_snaps p \<le> card ((\<lambda>s. iso_week (sn_at s)) ` {s \<in> set ss. sn_says s = Would_Suppress})
      \<and> below_floor (sp_floor p) (sn_wilson now) \<and> below_floor (sp_floor p) (sn_wilson_recent now)
      \<and> 0 < length c \<and> sp_eval_min_n p \<le> length c \<and> sp_min_fp p \<le> count_where (\<lambda>r. pair_of r = Pair_FP) c
      \<and> sp_min_refs p \<le> card (dl_ref ` set c - {[]}) \<and> sp_min_plays p \<le> card {t. t \<noteq> [] \<and> Some t \<in> dl_play ` set c}
      \<and> sp_eval_agree p \<le> real (count_where (\<lambda>r. pair_of r = Pair_FP) c) / real (length c))"

lemma length_refs: "length (refs_of c) = card (dl_ref ` set c - {[]})"
proof -
  have "set (refs_of c) = dl_ref ` set c - {[]}" by (auto simp: refs_of_def)
  then show ?thesis by (metis distinct_card distinct_remdups refs_of_def)
qed

lemma length_plays: "length (plays_of c) = card {t. t \<noteq> [] \<and> Some t \<in> dl_play ` set c}"
proof -
  have "set (plays_of c) = {t. t \<noteq> [] \<and> Some t \<in> dl_play ` set c}"
    by (induction c) (auto simp: plays_of_def List.map_filter_def image_iff split: option.splits if_splits)
  then show ?thesis by (metis distinct_card distinct_remdups plays_of_def)
qed

lemma eval_arming_total: "\<exists>v. eval_arming ss rows = Inr v"
proof -
  have "\<exists>w. (if length c = 0 then Inr None else wilson (int (count_where P c)) (int (length c)) z) = Inr w" for P z and c :: "dial_label list"
    by (rule wilson_cases [of "int (count_where P c)" "int (length c)" z]) (simp_all add: count_where_le_length)
  then show ?thesis unfolding eval_arming_def Let_def by (auto split: sum.splits) (metis sum.distinct(1))
qed

text \<open>
  C40. The arming gate always gives a verdict, and a class is eligible only on fresh evidence: the labels that
  came after the cutoff of every snapshot that called it imprecise are numerous and varied enough, and the
  share of them that call the finding false reaches the bar; the calls span the required number of
  weeks, and in the latest snapshot both intervals lie below the floor.
\<close>

theorem arming_on_fresh_labels:
  assumes "0 < sp_z (sn_params (last (sort_key sn_at ss)))"
  shows "\<exists>v. eval_arming ss rows = Inr v \<and> (ar_eligible v \<longrightarrow> armed ss (fresh_labels ss rows))"
proof -
  obtain v where v: "eval_arming ss rows = Inr v" using eval_arming_total by blast
  have "armed ss (fresh_labels ss rows)" if "ar_eligible v"
  proof -
    let ?ss = "sort_key sn_at ss"
    let ?p = "sn_params (last ?ss)"
    let ?c = "fresh_labels ss rows"
    let ?fp = "count_where (\<lambda>r. pair_of r = Pair_FP) ?c"
    have ws: "suppressing ?ss \<noteq> []" using v that by (auto simp: eval_arming_def Let_def)
    obtain w where w: "(if length ?c = 0 then Inr None else wilson (int ?fp) (int (length ?c)) (sp_z ?p)) = Inr w"
      by (rule wilson_cases [of "int ?fp" "int (length ?c)" "sp_z ?p"]) (simp_all add: count_where_le_length)
    have parts: "length (suppressing ?ss) \<ge> sp_stable_snaps ?p"
      "length (remdups (map (\<lambda>s. iso_week (sn_at s)) (suppressing ?ss))) \<ge> sp_stable_snaps ?p"
      "below_floor (sp_floor ?p) (sn_wilson (last ?ss))" "below_floor (sp_floor ?p) (sn_wilson_recent (last ?ss))"
      "length ?c \<ge> sp_eval_min_n ?p" "length (refs_of ?c) \<ge> sp_min_refs ?p" "length (plays_of ?c) \<ge> sp_min_plays ?p"
      "?fp \<ge> sp_min_fp ?p" "length ?c > 0" "case w of None \<Rightarrow> False | Some (lo, hi) \<Rightarrow> lo \<ge> sp_eval_agree ?p"
      using v that ws w unfolding eval_arming_def Let_def cohort_fresh [OF ws] by auto
    obtain lo hi where lo: "w = Some (lo, hi)" "sp_eval_agree ?p \<le> lo" using parts(10) by (auto split: option.splits)
    have "wilson (int ?fp) (int (length ?c)) (sp_z ?p) = Inr (Some (lo, hi))" using w lo(1) parts(9) by simp
    then have "lo \<le> real ?fp / real (length ?c)"
      using wilson_rate(3) [of "int ?fp" "int (length ?c)" "sp_z ?p" lo hi] assms by (simp add: count_where_le_length)
    moreover have "set (map (\<lambda>s. iso_week (sn_at s)) (suppressing ?ss)) = (\<lambda>s. iso_week (sn_at s)) ` {s \<in> set ss. sn_says s = Would_Suppress}"
      by (auto simp: suppressing_def)
    then have "length (remdups (map (\<lambda>s. iso_week (sn_at s)) (suppressing ?ss))) = card ((\<lambda>s. iso_week (sn_at s)) ` {s \<in> set ss. sn_says s = Would_Suppress})"
      by (metis length_remdups_card_conv)
    ultimately show ?thesis using parts lo(2) unfolding armed_def Let_def length_refs length_plays by simp
  qed
  with v show ?thesis by blast
qed

section \<open>Snapshots\<close>

lemma labels_up_to: "r \<in> set (dial_shadow_labels (Some c) st) \<Longrightarrow> dl_seq r \<le> c"
  by (auto simp: dial_shadow_labels_def Let_def)

lemma appended_rows:
  assumes "dial_shadow_snapshot_append now rows T = Some (T', n)" "s \<in> set (snaps T')" "s \<notin> set (snaps T)"
  shows "\<exists>r \<in> set rows. sn_cutoff s = sn_cutoff r \<and> sn_says s = sn_says r \<and> sn_params s = sn_params r"
proof -
  have "snaps T' = snaps T @ map (\<lambda>(i, r). stamp_snap i now r) (enumerate (snap_next T) rows) \<or> T' = T"
    using assms(1) by (auto simp: dial_shadow_snapshot_append_def split: if_splits)
  then obtain i r where "(i, r) \<in> set (enumerate (snap_next T) rows)" "s = stamp_snap i now r" using assms(2,3) by auto
  moreover from this(1) have "r \<in> set rows" by (metis in_set_enumerate_eq in_set_zip nth_mem snd_conv enumerate_eq_zip)
  ultimately show ?thesis by (auto simp: stamp_snap_def snap_row.extend_def snap.defs)
qed

text \<open>
  A label that a snapshot has counted towards calling its class imprecise is never counted again as
  evidence for that call: the two sets of labels have no sequence number in common.
\<close>

theorem no_label_counts_twice:
  assumes "dial_snapshot sha now p d T = (T', Snapped cs n cutoff)" "dc_second d = Some st"
    and "s \<in> set (snaps T')" "s \<notin> set (snaps T)" "sn_says s = Would_Suppress" "s \<in> set ss"
  shows "aggregate_cells (dial_shadow_labels (Some cutoff) st) p = Inr cs
    \<and> dl_seq ` set (dial_shadow_labels (Some cutoff) st) \<inter> dl_seq ` set (fresh_labels ss rows) = {}"
proof -
  obtain st0 where st0: "dc_first d = Some st0" using assms(1) by (auto simp: dial_snapshot_def split: option.splits)
  have cs: "aggregate_cells (dial_shadow_labels (Some cutoff) st) p = Inr cs"
    and app: "dial_shadow_snapshot_append now (map (\<lambda>c. snapshot_row sha c cutoff p) cs) T = Some (T', n)"
    using assms(1,2) st0 by (auto simp: dial_snapshot_def Let_def split: option.splits sum.splits list.splits if_splits prod.splits)
  from appended_rows [OF app assms(3,4)] have "sn_cutoff s = cutoff" by (auto simp: snapshot_row_def)
  then have "cutoff < dl_seq r" if "r \<in> set (fresh_labels ss rows)" for r
    using that assms(5,6) by (auto simp: fresh_labels_def list_all_iff)
  with labels_up_to cs show ?thesis by (fastforce dest: leD)
qed

end
