(* ===== verification/Dial_Shadow_Examples.thy ===== *)
theory Dial_Shadow_Examples
  imports Dial_Shadow_Props
begin

text \<open>Concrete labels and snapshots for the theorems on the shadow dial.\<close>

definition ex_dial_label :: dial_label where
  "ex_dial_label = \<lparr>dl_tag = codes ''a'', dl_family = ''oracle'', dl_outcome = Dismissed_FP, dl_source = Human_Dismiss, dl_seq = 3,
     dl_ref = ''main'', dl_play = Some ''p''\<rparr>"

definition ex_params :: shadow_params where
  "ex_params = \<lparr>sp_floor = 60 / 100, sp_ceiling = 90 / 100, sp_min_n = 1, sp_min_refs = 1, sp_min_plays = 1, sp_min_fp = 1,
     sp_recency_n = 5, sp_z = 1, sp_stable_snaps = 1, sp_eval_min_n = 1, sp_eval_agree = 1 / 2\<rparr>"

definition ex_snap :: "nat \<Rightarrow> nat \<Rightarrow> would_say \<Rightarrow> snap" where
  "ex_snap i cutoff says = \<lparr>sn_cutoff = cutoff, sn_tag = codes ''a'', sn_family = ''oracle'', sn_real = 0, sn_fp = 1, sn_n = 1,
     sn_precision = Some 0, sn_wilson = Some (0, 1 / 2), sn_n_recent = 1, sn_wilson_recent = Some (0, 1 / 2), sn_refs = 1,
     sn_plays = 1, sn_says = says, sn_suppressible = False, sn_params = ex_params, sn_week_rule = 1,
     sn_set_version = SUPPRESSIBLE_SET_VERSION, sn_taxonomy = '''', sn_id = i, sn_at = int i\<rparr>"

theorem shadow_cells_sound_witness:
  "\<exists>cells. aggregate_cells [ex_dial_label] ex_params = Inr cells
    \<and> map (\<lambda>c. (ce_tag c, ce_family c)) cells = sort (remdups (map cell_key [ex_dial_label])) \<and> list_all (cell_sound [ex_dial_label] ex_params) cells"
  by (rule shadow_cells_sound) (simp add: ex_params_def)

lemma sqrt_quarter: "sqrt (1 / 4) = 1 / 2"
  by (rule real_sqrt_unique) (simp_all add: power2_eq_square)

lemma wilson_one: "wilson 1 1 1 = Inr (Some (1 / 2, 1))"
  by (simp add: wilson_def Let_def sqrt_quarter)

lemma ex_snap_sel [simp]:
  "sn_cutoff (ex_snap i c s) = c" "sn_says (ex_snap i c s) = s" "sn_params (ex_snap i c s) = ex_params" "sn_at (ex_snap i c s) = int i"
  "sn_wilson (ex_snap i c s) = Some (0, 1 / 2)" "sn_wilson_recent (ex_snap i c s) = Some (0, 1 / 2)"
  by (simp_all add: ex_snap_def)

lemma ex_dial_label_pair: "pair_of ex_dial_label = Pair_FP" "admitted ex_dial_label" "dl_seq ex_dial_label = 3" "refs_of [ex_dial_label] = [''main'']" "plays_of [ex_dial_label] = [''p'']"
  by (simp_all add: pair_of_def classify_pair_def admitted_def ex_dial_label_def refs_of_def plays_of_def List.map_filter_def)

lemmas ex_eval = eval_arming_def suppressing_def cohort_of_def below_floor_def ex_dial_label_pair wilson_one ex_params_def Let_def

theorem arming_on_fresh_labels_witness: "armed [ex_snap 1 2 Would_Suppress] (fresh_labels [ex_snap 1 2 Would_Suppress] [ex_dial_label])"
proof -
  have "\<exists>v. eval_arming [ex_snap 1 2 Would_Suppress] [ex_dial_label] = Inr v
      \<and> (ar_eligible v \<longrightarrow> armed [ex_snap 1 2 Would_Suppress] (fresh_labels [ex_snap 1 2 Would_Suppress] [ex_dial_label]))"
    by (rule arming_on_fresh_labels) (simp add: ex_params_def)
  moreover have "\<exists>v. eval_arming [ex_snap 1 2 Would_Suppress] [ex_dial_label] = Inr v \<and> ar_eligible v"
    by (simp add: ex_eval)
  ultimately show ?thesis by (metis sum.inject(2))
qed

text \<open>
  A label counted by a later snapshot that did not call the class imprecise still counts as fresh: the
  cutoff is that of the latest call, not that of the latest snapshot.
\<close>

theorem eligible_on_counted_label:
  "\<exists>v. eval_arming [ex_snap 1 2 Would_Suppress, ex_snap 2 5 Insufficient] [ex_dial_label] = Inr v \<and> ar_eligible v \<and> ar_cohort v = 1
    \<and> dl_seq ex_dial_label \<le> sn_cutoff (ex_snap 2 5 Insufficient)"
  by (simp add: ex_eval)

end
