(* ===== verification/Spec2Isabelle.thy ===== *)
theory Spec2Isabelle
  imports Worker_Examples Capture_Examples Cursors Skills Outcomes_Examples Knowledge_Examples
    Controller_Examples Automerge_Examples Proposer_Examples Migration_Lint_Examples Dial_Shadow_Examples
begin

text \<open>
  A verification of the MyndAIX team runtime (\<^verbatim>\<open>src/runtime\<close>): the durable ledger that every agent, worker
  and play of the system works through, the worker and pool that execute its jobs, and the learning
  rungs (skills, auto-capture, outcomes, knowledge) that keep their state in the same database.

  \<^bold>\<open>The program.\<close> Messages enter through \<^verbatim>\<open>ingest_inbound\<close>, become jobs (\<^verbatim>\<open>submit_job\<close>), are leased by
  workers (\<^verbatim>\<open>lease_job\<close>) under a per-repository cap, run by an agent, and are completed or failed; a janitor
  reclaims expired leases and an outbox delivers replies. A controller reviews branches through cursors,
  a capture rung turns recurring findings into skill proposals, an outcomes rung labels findings, and a
  curator keeps an index of a document corpus. Every verb of \<^verbatim>\<open>src/runtime/ledger/postgres_store.py\<close>
  is one transaction or one statement.

  \<^bold>\<open>How it is modelled.\<close> A table is a list of rows in heap order, a row a record with the columns the code
  reads or writes, a status column a datatype. A verb is a function from the database (and its arguments,
  the clock included) to the new database and the verb's result; an exception is an \<open>Inl\<close> or a
  constructor of a result type and rolls the transaction back. Sequences of verbs are the transitive
  closure \<open>reach\<close> of a step relation with one rule per verb, so a theorem on reachable states covers every
  order of transactions; where the code spans several statements (the cancel race, the worker's attempt)
  the interference between them is explicit. Fresh identifiers are drawn from a counter. Text is a list of
  code points (\<open>pytext\<close>); ASCII identifiers are HOL strings.

  \<^bold>\<open>Theories.\<close>
  \<^item> \<open>Prelude\<close>: table combinators, guarded updates, transition systems and the locale
    \<open>invariant_system\<close>, interpreted by every state machine below.
  \<^item> \<open>Contracts\<close>: \<^verbatim>\<open>contracts.py\<close> and \<^verbatim>\<open>registry.py\<close>, the message types, statuses and the agent roster.
  \<^item> \<open>Ledger\<close>: the job, attempt, inbound, outbound and concurrency tables and every verb of the job state
    machine. \<open>Ledger_Inv\<close>, \<open>Ledger_Verbs\<close>, \<open>Ledger_Steps\<close> and \<open>Ledger_Lease\<close> hold the invariant and its
    preservation; \<open>Ledger_System\<close> the interleaving semantics with single ownership of a job, the
    repository cap, the poison ceiling and absorbing end states; \<open>Ledger_Recovery\<close> the janitor, the exact
    counter and reconciliation; \<open>Ledger_Progress\<close> the order and completeness of leasing;
    \<open>Ledger_Limits\<close> delegation limits and idempotent intake; \<open>Ledger_Outbox\<close> replies and bounded delivery;
    \<open>Ledger_Examples\<close> concrete runs.
  \<^item> \<open>Cursors\<close>: the review, inbox and auto-merge cursors; a dispatch is exclusive until it is released,
    forgiven, advanced past or stale, and blocks are sticky.
  \<^item> \<open>Chunker\<close>, \<open>Controller\<close>: \<^verbatim>\<open>controller.py\<close>. \<open>Chunker\<close> holds the knobs and the choice of a review target
    from what git says of sizes; \<open>Controller\<close> the repository list, the skill indexer with its
    branch-protection gate, the reconcile step and the tick, on one record of the tables, marker files,
    pins and alerts; what git, gh and the file system answer is the record \<open>observed\<close>.
    \<open>Controller_Props\<close> shows that a step is a sequence of cursor verbs and what each phase changes;
    \<open>Controller_Safety\<close> the theorems: the cursor moves only past code that was reviewed, is empty or was
    flagged, dispatches are claimed, pinned and within budgets, skills change only under protection, and
    what a dry run leaves alone. Counters are files, one per UTC day; one that cannot be read counts as
    zero here. \<open>Controller_Examples\<close> holds the concrete ticks.
  \<^item> \<open>Automerge_Gate\<close>, \<open>Automerge\<close>: \<^verbatim>\<open>automerge.py\<close>. The gate is the parser of \<^verbatim>\<open>git diff --raw -z\<close> and the
    classification of a change as documentation; \<open>Automerge\<close> the evaluation of a pull request, its
    counters and the tick, with what gh, git and the review script answer in the record \<open>am_obs\<close>.
    \<open>Automerge_Props\<close> shows that what is merged passed every gate and that a tick counts exactly what it
    merges, per day and author, within its caps (a counter that cannot be read counts as full here);
    \<open>Automerge_Examples\<close> holds the concrete ticks.
  \<^item> \<open>Proposer_World\<close>, \<open>Proposer\<close>: \<^verbatim>\<open>proposer.py\<close>, in a small monad in which a call may fail, answer too late or
    kill the process while people close pull requests and the recorder stores sightings. \<open>Proposer_Logic\<close>
    holds assertions about computations, \<open>Proposer_Books\<close> the invariant (every open pull request is tracked,
    suspected or reported), \<open>Proposer_Passes\<close>, \<open>Proposer_Scan\<close>, \<open>Proposer_Visit\<close> and \<open>Proposer_Suspects\<close> its
    preservation pass by pass together with the count of open proposals; \<open>Proposer_Tick\<close> the theorems on
    runs, limits and dry ticks; \<open>Proposer_Examples\<close> the containment of a commit and concrete ticks.
  \<^item> \<open>Pyregex\<close>, \<open>Migration_Lint\<close>: \<^verbatim>\<open>substrate/migration_lint.py\<close>, the gate before a deploy. \<open>Pyregex\<close> is a
    backtracking matcher for the patterns, with its declarative meaning (\<open>denotes\<close>); \<open>Migration_Lint\<close> the
    scanner, the allowlist, the rules behind a rejection, the walk over a file and the command.
    \<open>Migration_Lint_Props\<close> shows that the name a statement alters is the one written, with or without a star
    behind it, that existing and quoted tables are protected and that without the list of relations an
    unconditional creation of that very name must come first;
    \<open>Migration_Lint_Scan\<close> that the scanner finds exactly the tokens of SQL's grammar, so that strings and
    comments hide nothing; \<open>Migration_Lint_Examples\<close> holds concrete migrations and three statements that pass
    against the comments of the code.
  \<^item> \<open>Pytext\<close>, \<open>Skillmatch\<close>, \<open>Skills\<close>: the text functions and globs the program uses, \<^verbatim>\<open>skillmatch.py\<close>
    (matching, ranking, parsing, lint) and the skill verbs of the store.
  \<^item> \<open>Capture\<close>, \<open>Capture_Props\<close>: \<^verbatim>\<open>capture.py\<close>, with the draft round trip, the trigger derivation and the path
    gate. \<open>Capture_Store\<close>, \<open>Capture_Store_Props\<close>, \<open>Capture_Examples\<close>: the recurrence ledger, its gate with
    the exponential floor after declines, and the fencing of proposal claims. The round trip is stated
    with its exact condition: what the draft says parses back, and when its lint passes.
  \<^item> \<open>Workspace\<close>, \<open>Sqlite_Store\<close>, \<open>Worker\<close>, \<open>Worker_Props\<close>, \<open>Worker_Ledgers\<close>, \<open>Pool\<close>, \<open>Worker_Examples\<close>:
    worktrees, the SQLite ledger, the worker's attempt, run and drain loops, the pool's loop bodies. What
    a worker needs of a ledger is the locale \<open>worker_ledger\<close>, extended by \<open>finite_ledger\<close> where work is
    bounded; both ledgers interpret it, so that what a worker reports is what the ledger holds. Removing a
    worktree may fail at every step (git, the directory tree, the patch file); \<open>attempt_cleans_up\<close> says what
    an attempt leaves behind then and that a later sweep takes it.
  \<^item> \<open>Outcomes\<close>: \<^verbatim>\<open>outcomes.py\<close>, the identity of findings, the parser of finding lines and the reads of git
    objects. \<open>Outcomes_Store\<close>, \<open>Outcomes_Store_Props\<close>, \<open>Outcomes_Examples\<close>: the append-only table
    \<^verbatim>\<open>finding_outcome\<close>, its views from the migrations, and the verbs; every verb is a sequence of inserts
    (\<open>adds\<close>), from which the log invariant, the fence around human labels, the label queue and the
    soundness of closing follow.
  \<^item> \<open>Dial_Shadow\<close>, \<open>Dial_Shadow_Props\<close>, \<open>Dial_Shadow_Examples\<close>: \<^verbatim>\<open>dialshadow.py\<close>, \<^verbatim>\<open>dialshadowrecord.py\<close> and the
    snapshot table. The Wilson interval holds the measured rate, so that a class is called imprecise or
    trustworthy only when it is; a class is eligible only on labels that came after every call. Numbers are
    real, without rounding.
  \<^item> \<open>Knowledge_Store\<close>, \<open>Knowledge_Store_Props\<close>, \<open>Knowledge_Examples\<close>: the derived index of a corpus; the
    commit fence rejects stale walks, and a sync gives every path the one fate that a row-free
    specification says, the archive for documents that outgrew the index included.

  \<^bold>\<open>Bounds and fuel.\<close> The lease loop of the ledger runs at most \<open>LEASE_MAX_REPICKS\<close> picks, as the code does.
  Draining is a loop with fuel; \<open>postgres_drain_ends\<close> shows that the attempts the poison ceiling leaves are
  enough fuel, so the bound is a theorem. No other definition needs fuel: the remaining recursions
  are structural or come with a termination proof.

  \<^bold>\<open>Arguments of the model.\<close> SHA-256 and lower-casing outside ASCII are functions; where separation of
  keys matters the digest is assumed injective. Git reads and commands, the agent, regular-expression
  search of the injection patterns, full-text ranking and the size limit of a search vector are
  arguments of the definitions that use them, as are the file system of the migration linter and which
  characters outside ASCII are alphanumeric. Clock readings are arguments of each verb.

  \<^bold>\<open>Not modelled.\<close> The curator and the knowledge walk
  drive the verbs modelled here through git, gh and launchd. The runner, the HTTP API, the
  command line, the Gmail client and the other substrate scripts are input and output around them. What
  PostgreSQL makes of a migration is not modelled: the linter's theorems speak of its text. A
  write to a state file that fails leaves the file as it was; files that are cut off in the middle, result
  texts the driver cannot bind and migrations that are not UTF-8 are left out. Of the
  modelled files, the event-loop plumbing of the pool and the
  session lock of the promote window are left out. The database's isolation is taken as serial per
  transaction except where the code itself relies on less.
\<close>

end
